(* ===== verification/Dcp_Prelude.thy ===== *)
theory Dcp_Prelude
  imports Main "HOL-Library.Word"
begin

text \<open>
  Shared vocabulary of the DCP development: the machine integers of the Rust code, results as
  sums, little-endian and big-endian byte encodings, slice copies, and the three interfaces every
  component is measured against: a fixed-width byte codec, a machine with an invariant, and a
  machine that refines an abstract one with the same observable outputs.
\<close>

unbundle bit_operations_syntax

section \<open>Machine types and results\<close>

type_synonym u8 = "8 word"
type_synonym u16 = "16 word"
type_synonym u32 = "32 word"
type_synonym u64 = "64 word"
type_synonym bytes = "u8 list"

named_theorems codec_simps "unfolding rules for encoders and decoders"

text \<open>A \<open>usize\<close> is a natural number; on the 64-bit targets its checked addition fails at
  \<open>2 ^ 64\<close>.\<close>

definition usize_checked_add :: "nat \<Rightarrow> nat \<Rightarrow> nat option" where
  "usize_checked_add a b = (if a + b < 2 ^ 64 then Some (a + b) else None)"

definition usize_saturating_add :: "nat \<Rightarrow> nat \<Rightarrow> nat" where
  "usize_saturating_add a b = min (2 ^ 64 - 1) (a + b)"

lemma unat_less_exp: "unat (w :: 'a::len word) < 2 ^ LENGTH('a)"
  by (rule unsigned_less)

lemma unat_u16_less: "unat (w :: u16) < 65536"
  using unat_less_exp [of w] by simp

lemma unat_u32_less: "unat (w :: u32) < 4294967296"
  using unat_less_exp [of w] by simp

lemma unat_u64_less: "unat (w :: u64) < 18446744073709551616"
  using unat_less_exp [of w] by simp

lemma unat_of_nat_small: "n < 2 ^ LENGTH('a) \<Longrightarrow> unat (of_nat n :: 'a::len word) = n"
  by (simp add: unat_of_nat)

lemma unat_add_u64: "unat (a + b :: u64) = (unat a + unat b) mod 2 ^ 64"
  by (simp add: unat_word_ariths)

lemma unat_add_u32: "unat (a + b :: u32) = (unat a + unat b) mod 2 ^ 32"
  by (simp add: unat_word_ariths)

text \<open>The \<open>?\<close> operator on results, and \<open>Result::ok\<close>.\<close>

fun bind_result :: "'e + 'a \<Rightarrow> ('a \<Rightarrow> 'e + 'b) \<Rightarrow> 'e + 'b" where
  "bind_result (Inl e) f = Inl e"
| "bind_result (Inr x) f = f x"

fun result_ok :: "'e + 'a \<Rightarrow> 'a option" where
  "result_ok (Inl e) = None"
| "result_ok (Inr x) = Some x"

fun is_ok :: "'e + 'a \<Rightarrow> bool" where
  "is_ok (Inl e) = False"
| "is_ok (Inr x) = True"

lemma result_ok_eq_Some [simp]: "result_ok r = Some x \<longleftrightarrow> r = Inr x"
  by (cases r) auto

lemma bind_result_eq_Inr: "bind_result r f = Inr y \<longleftrightarrow> (\<exists>x. r = Inr x \<and> f x = Inr y)"
  by (cases r) auto

lemma bind_result_eq_Inl:
  "bind_result r f = Inl e \<longleftrightarrow> r = Inl e \<or> (\<exists>x. r = Inr x \<and> f x = Inl e)"
  by (cases r) auto

lemma bind_result_cong [fundef_cong]:
  "r = r' \<Longrightarrow> (\<And>x. r' = Inr x \<Longrightarrow> f x = g x) \<Longrightarrow> bind_result r f = bind_result r' g"
  by (cases r') auto

section \<open>Byte encodings of integers\<close>

fun le_bytes :: "nat \<Rightarrow> 'a::len word \<Rightarrow> bytes" where
  "le_bytes 0 w = []"
| "le_bytes (Suc n) w = ucast w # le_bytes n (drop_bit 8 w)"

fun le_word :: "bytes \<Rightarrow> 'a::len word" where
  "le_word [] = 0"
| "le_word (b # bs) = ucast b OR push_bit 8 (le_word bs)"

definition be_bytes :: "nat \<Rightarrow> 'a::len word \<Rightarrow> bytes" where
  "be_bytes n w = rev (le_bytes n w)"

definition be_word :: "bytes \<Rightarrow> 'a::len word" where
  "be_word bs = le_word (rev bs)"

lemma length_le_bytes [simp]: "length (le_bytes n w) = n"
  by (induction n arbitrary: w) auto

lemma length_be_bytes [simp]: "length (be_bytes n w) = n"
  by (simp add: be_bytes_def)

lemma nth_le_bytes: "i < n \<Longrightarrow> le_bytes n w ! i = ucast (drop_bit (8 * i) w)"
proof (induction n arbitrary: w i)
  case 0
  then show ?case by simp
next
  case (Suc n)
  show ?case
  proof (cases i)
    case 0
    then show ?thesis by simp
  next
    case (Suc j)
    with Suc.prems Suc.IH [of j "drop_bit 8 w"] show ?thesis
      by (simp add: add.commute)
  qed
qed

lemma bit_le_word:
  "bit (le_word bs :: 'a::len word) i \<longleftrightarrow>
     i < LENGTH('a) \<and> i div 8 < length bs \<and> bit (bs ! (i div 8)) (i mod 8)"
proof (induction bs arbitrary: i)
  case Nil
  then show ?case by simp
next
  case (Cons b bs)
  show ?case
  proof (cases "i < 8")
    case True
    then show ?thesis
      by (auto simp: bit_or_iff bit_push_bit_iff bit_ucast_iff)
  next
    case False
    then have "i div 8 = Suc ((i - 8) div 8)" and "i mod 8 = (i - 8) mod 8"
      by (auto simp: le_div_geq le_mod_geq)
    moreover have "\<not> bit b i"
      using False bit_imp_le_length [of b i] by auto
    ultimately show ?thesis
      using False Cons.IH [of "i - 8"]
      by (auto simp: bit_or_iff bit_push_bit_iff bit_ucast_iff)
  qed
qed

lemma le_word_le_bytes [simp]:
  assumes "LENGTH('a::len) \<le> 8 * n"
  shows "le_word (le_bytes n (w :: 'a word)) = w"
proof (rule bit_eqI)
  fix i
  assume "possible_bit TYPE('a word) i"
  then have i: "i < LENGTH('a)" by simp
  then have "i div 8 < n" using assms by auto
  then have "bit (le_bytes n w ! (i div 8)) (i mod 8) \<longleftrightarrow> bit w i"
    by (simp add: nth_le_bytes bit_ucast_iff bit_drop_bit_eq)
  with i \<open>i div 8 < n\<close> show "bit (le_word (le_bytes n w) :: 'a word) i \<longleftrightarrow> bit w i"
    by (simp add: bit_le_word)
qed

lemma le_bytes_le_word [simp]:
  assumes "length bs = n" and "8 * n \<le> LENGTH('a::len)"
  shows "le_bytes n (le_word bs :: 'a word) = bs"
proof (rule nth_equalityI)
  show "length (le_bytes n (le_word bs :: 'a word)) = length bs"
    using assms by simp
next
  fix i
  assume "i < length (le_bytes n (le_word bs :: 'a word))"
  then have i: "i < n" by simp
  show "le_bytes n (le_word bs :: 'a word) ! i = bs ! i"
  proof (rule bit_eqI)
    fix k
    assume "possible_bit TYPE(8 word) k"
    then have k: "k < 8" by simp
    have "8 * i + k < LENGTH('a)" using i k assms(2) by linarith
    with i k assms(1) show "bit (le_bytes n (le_word bs :: 'a word) ! i) k \<longleftrightarrow> bit (bs ! i) k"
      by (simp add: nth_le_bytes bit_ucast_iff bit_drop_bit_eq bit_le_word add.commute)
  qed
qed

lemma le_bytes_inject:
  "LENGTH('a::len) \<le> 8 * n \<Longrightarrow> le_bytes n (v :: 'a word) = le_bytes n w \<longleftrightarrow> v = w"
  by (metis le_word_le_bytes)

lemma be_word_be_bytes [simp]:
  "LENGTH('a::len) \<le> 8 * n \<Longrightarrow> be_word (be_bytes n (w :: 'a word)) = w"
  by (simp add: be_word_def be_bytes_def)

lemma be_bytes_be_word [simp]:
  "length bs = n \<Longrightarrow> 8 * n \<le> LENGTH('a::len) \<Longrightarrow> be_bytes n (be_word bs :: 'a word) = bs"
  by (simp add: be_word_def be_bytes_def)

text \<open>The parsers of padded records look for a nonzero reserved byte.\<close>

lemma no_nonzero_iff_zeros:
  "\<not> list_ex (\<lambda>b. b \<noteq> 0) xs \<longleftrightarrow> xs = replicate (length xs) (0 :: u8)"
  by (induction xs) auto

section \<open>Slices\<close>

text \<open>\<open>slice a b xs\<close> is Rust's \<open>&xs[a..b]\<close> for \<open>a \<le> b \<le> length xs\<close>; \<open>copy_at i ys xs\<close> is
  \<open>xs[i..i + ys.len()].copy_from_slice(ys)\<close>.\<close>

definition slice :: "nat \<Rightarrow> nat \<Rightarrow> 'a list \<Rightarrow> 'a list" where
  "slice a b xs = take (b - a) (drop a xs)"

definition copy_at :: "nat \<Rightarrow> 'a list \<Rightarrow> 'a list \<Rightarrow> 'a list" where
  "copy_at i ys xs = take i xs @ ys @ drop (i + length ys) xs"

lemma length_slice [simp]: "length (slice a b xs) = min (b - a) (length xs - a)"
  by (simp add: slice_def)

lemma slice_append_slice:
  assumes "a \<le> b" and "b \<le> c"
  shows "slice a b xs @ slice b c xs = slice a c xs"
proof -
  have "drop b xs = drop (b - a) (drop a xs)" and "c - a = (b - a) + (c - b)"
    using assms by simp_all
  then show ?thesis by (simp only: slice_def take_add)
qed

lemma length_copy_at [simp]:
  "i + length ys \<le> length xs \<Longrightarrow> length (copy_at i ys xs) = length xs"
  by (simp add: copy_at_def)

lemma nth_copy_at:
  "i + length ys \<le> length xs \<Longrightarrow> k < length xs \<Longrightarrow>
   copy_at i ys xs ! k = (if i \<le> k \<and> k < i + length ys then ys ! (k - i) else xs ! k)"
  by (auto simp: copy_at_def nth_append min_def)

text \<open>Rules that take a layout apart (\<open>slice\<close> of a concatenation) and put it together again
  (adjacent slices of one buffer).\<close>

lemma slice_hit: "length xs = b \<Longrightarrow> slice 0 b (xs @ ys) = xs"
  by (simp add: slice_def)

lemma slice_all: "length xs = b \<Longrightarrow> slice 0 b xs = xs"
  by (simp add: slice_def)

lemma slice_skip:
  "length xs \<le> a \<Longrightarrow> slice a b (xs @ ys) = slice (a - length xs) (b - length xs) ys"
  by (simp add: slice_def)

lemma slice_Cons_skip: "0 < a \<Longrightarrow> slice a b (x # xs) = slice (a - 1) (b - 1) xs"
  by (cases a) (simp_all add: slice_def)

lemma take_eq_slice: "take b xs = slice 0 b xs"
  by (simp add: slice_def)

lemma slice_empty [simp]: "slice a a xs = []"
  by (simp add: slice_def)

lemma slice_join:
  "a \<le> b \<Longrightarrow> b \<le> c \<Longrightarrow> slice a b xs @ slice b c xs @ r = slice a c xs @ r"
  by (simp flip: append_assoc add: slice_append_slice)

lemma slice_Cons_nth:
  assumes "i < length xs" and "j = Suc i" and "j \<le> c"
  shows "xs ! i # slice j c xs = slice i c xs"
proof -
  have "drop i xs = xs ! i # drop j xs"
    using assms by (simp add: Cons_nth_drop_Suc)
  moreover have "c - i = Suc (c - j)" using assms by simp
  ultimately show ?thesis by (simp add: slice_def)
qed

lemma slice_Cons_nth_join:
  "i < length xs \<Longrightarrow> j = Suc i \<Longrightarrow> j \<le> c \<Longrightarrow> xs ! i # slice j c xs @ r = slice i c xs @ r"
  by (simp only: append_Cons [symmetric] slice_Cons_nth)

lemma slice_single: "i < length xs \<Longrightarrow> j = Suc i \<Longrightarrow> [xs ! i] = slice i j xs"
  using slice_Cons_nth [of i xs j j] by simp

lemma nth_slice: "k < b - a \<Longrightarrow> a + k < length xs \<Longrightarrow> slice a b xs ! k = xs ! (a + k)"
  by (simp add: slice_def)

lemma slice_copy_same:
  "i + length ys \<le> length xs \<Longrightarrow> slice i (i + length ys) (copy_at i ys xs) = ys"
  by (simp add: slice_def copy_at_def)

lemma slice_copy_other:
  assumes "i + length ys \<le> length xs" and "b \<le> i \<or> i + length ys \<le> a"
  shows "slice a b (copy_at i ys xs) = slice a b xs"
  using assms by (intro nth_equalityI) (auto simp: nth_slice nth_copy_at)

lemmas slice_split = slice_hit slice_all slice_skip slice_Cons_skip nth_append
lemmas slice_build = slice_append_slice slice_join slice_Cons_nth slice_Cons_nth_join take_eq_slice

section \<open>Interfaces\<close>

text \<open>A fixed-width wire format: what an encoder and a decoder of one record promise together.\<close>

locale byte_codec =
  fixes enc :: "'a \<Rightarrow> bytes"
    and dec :: "bytes \<Rightarrow> 'a option"
    and valid :: "'a \<Rightarrow> bool"
    and width :: nat
  assumes enc_width: "valid x \<Longrightarrow> length (enc x) = width"
    and dec_enc: "valid x \<Longrightarrow> dec (enc x) = Some x"
    and dec_sound: "dec bs = Some x \<Longrightarrow> valid x \<and> width \<le> length bs \<and> take width bs = enc x"
begin

lemma enc_inject: "valid x \<Longrightarrow> valid y \<Longrightarrow> enc x = enc y \<longleftrightarrow> x = y"
  using dec_enc by (metis option.inject)

lemma unique_parse:
  assumes "valid x" and "valid y" and "enc x @ r = enc y @ s"
  shows "x = y \<and> r = s"
proof -
  from assms have "enc x = enc y" and "r = s"
    by (auto simp: append_eq_append_conv enc_width)
  with assms show ?thesis by (simp add: enc_inject)
qed

lemma dec_short: "length bs < width \<Longrightarrow> dec bs = None"
  using dec_sound by (cases "dec bs") force+

end

text \<open>A codec whose decoder reads a prefix and ignores what follows.\<close>

locale prefix_codec = byte_codec +
  assumes dec_prefix: "valid x \<Longrightarrow> dec (enc x @ rest) = Some x"
begin

lemma dec_iff: "dec bs = Some x \<longleftrightarrow> valid x \<and> (\<exists>rest. bs = enc x @ rest)"
  using dec_sound dec_prefix by (metis append_take_drop_id)

end

text \<open>A codec whose decoder accepts exactly the canonical bytes.\<close>

locale exact_codec = byte_codec +
  assumes dec_exact: "dec bs = Some x \<Longrightarrow> length bs = width"
begin

lemma dec_iff: "dec bs = Some x \<longleftrightarrow> valid x \<and> bs = enc x"
  using dec_sound dec_exact dec_enc by (metis take_all le_refl)

lemma dec_extended: "dec bs = Some x \<Longrightarrow> rest \<noteq> [] \<Longrightarrow> dec (bs @ rest) = None"
  using dec_exact [of bs x] dec_exact [of "bs @ rest"] by (cases "dec (bs @ rest)") auto

end

text \<open>Self-delimiting records of different lengths, read one after the other at an offset.\<close>

fun read_many :: "(bytes \<Rightarrow> nat \<Rightarrow> 'e + 'a \<times> nat) \<Rightarrow> nat \<Rightarrow> bytes \<Rightarrow> nat \<Rightarrow> 'e + 'a list \<times> nat" where
  "read_many dec 0 bs off = Inr ([], off)"
| "read_many dec (Suc n) bs off =
     bind_result (dec bs off) (\<lambda>(x, off1).
     bind_result (read_many dec n bs off1) (\<lambda>(xs, off2). Inr (x # xs, off2)))"

locale record_reader =
  fixes enc :: "'a \<Rightarrow> bytes"
    and dec :: "bytes \<Rightarrow> nat \<Rightarrow> 'e + 'a \<times> nat"
    and valid :: "'a \<Rightarrow> bool"
  assumes dec_at: "off \<le> length bs \<Longrightarrow>
    dec bs off = Inr (x, off') \<longleftrightarrow>
      valid x \<and> (\<exists>rest. drop off bs = enc x @ rest) \<and> off' = off + length (enc x)"
begin

lemma read_many_at:
  "off \<le> length bs \<Longrightarrow>
   read_many dec n bs off = Inr (xs, off') \<longleftrightarrow>
     length xs = n \<and> list_all valid xs \<and> (\<exists>rest. drop off bs = concat (map enc xs) @ rest) \<and>
     off' = off + length (concat (map enc xs))"
proof (induction n arbitrary: off xs)
  case 0
  then show ?case by auto
next
  case (Suc n)
  have inside: "off + length (enc x) \<le> length bs" "drop (off + length (enc x)) bs = rest"
    if "drop off bs = enc x @ rest" for x rest
  proof -
    have "length (drop off bs) = length (enc x) + length rest" by (simp add: that)
    then show "off + length (enc x) \<le> length bs" using Suc.prems by simp
    show "drop (off + length (enc x)) bs = rest"
      using that by (metis add.commute append_eq_conv_conj drop_drop)
  qed
  show ?case
  proof
    assume "read_many dec (Suc n) bs off = Inr (xs, off')"
    then obtain x off1 ys where x: "dec bs off = Inr (x, off1)" and ys: "read_many dec n bs off1 = Inr (ys, off')"
      and xs: "xs = x # ys" by (auto simp: bind_result_eq_Inr)
    from x dec_at [OF Suc.prems] obtain rest where v: "valid x" "drop off bs = enc x @ rest"
      "off1 = off + length (enc x)" by auto
    from ys Suc.IH [of off1 ys] inside [OF v(2)] v(3) show
      "length xs = Suc n \<and> list_all valid xs \<and> (\<exists>rest. drop off bs = concat (map enc xs) @ rest) \<and>
       off' = off + length (concat (map enc xs))"
      using v by (auto simp: xs)
  next
    assume r: "length xs = Suc n \<and> list_all valid xs \<and> (\<exists>rest. drop off bs = concat (map enc xs) @ rest) \<and>
       off' = off + length (concat (map enc xs))"
    then obtain x ys where xs: "xs = x # ys" by (cases xs) auto
    from r xs obtain rest where d: "drop off bs = enc x @ concat (map enc ys) @ rest" by auto
    have "dec bs off = Inr (x, off + length (enc x))"
      using dec_at [OF Suc.prems] r xs d by auto
    moreover have "read_many dec n bs (off + length (enc x)) = Inr (ys, off')"
      using Suc.IH [of "off + length (enc x)" ys] inside [OF d] r xs by auto
    ultimately show "read_many dec (Suc n) bs off = Inr (xs, off')" by (simp add: xs)
  qed
qed

end

text \<open>Operations that keep an invariant keep it along every run.\<close>

fun run_ops :: "('s \<Rightarrow> 'op \<Rightarrow> 's \<times> 'out) \<Rightarrow> 's \<Rightarrow> 'op list \<Rightarrow> 's" where
  "run_ops step s [] = s"
| "run_ops step s (a # as) = run_ops step (fst (step s a)) as"

fun run_outs :: "('s \<Rightarrow> 'op \<Rightarrow> 's \<times> 'out) \<Rightarrow> 's \<Rightarrow> 'op list \<Rightarrow> 'out list" where
  "run_outs step s [] = []"
| "run_outs step s (a # as) = snd (step s a) # run_outs step (fst (step s a)) as"

lemma run_ops_append: "run_ops step s (as @ bs) = run_ops step (run_ops step s as) bs"
  by (induction as arbitrary: s) auto

lemma run_outs_append:
  "run_outs step s (as @ bs) = run_outs step s as @ run_outs step (run_ops step s as) bs"
  by (induction as arbitrary: s) auto

locale invariant_machine =
  fixes step :: "'s \<Rightarrow> 'op \<Rightarrow> 's \<times> 'out"
    and inv :: "'s \<Rightarrow> bool"
  assumes step_inv: "inv s \<Longrightarrow> inv (fst (step s a))"
begin

lemma run_inv: "inv s \<Longrightarrow> inv (run_ops step s as)"
  by (induction as arbitrary: s) (auto intro: step_inv)

end

text \<open>A concrete machine related to a specification that takes the same steps with the same
  outputs: no sequence of operations can tell the two apart. The relation is an abstraction
  function where the abstract state can be computed from the concrete one.\<close>

locale simulation_machine =
  fixes step :: "'s \<Rightarrow> 'op \<Rightarrow> 's \<times> 'out"
    and spec :: "'a \<Rightarrow> 'op \<Rightarrow> 'a \<times> 'out"
    and rel :: "'s \<Rightarrow> 'a \<Rightarrow> bool"
  assumes step_related: "rel s t \<Longrightarrow> rel (fst (step s a)) (fst (spec t a))"
    and step_output: "rel s t \<Longrightarrow> snd (step s a) = snd (spec t a)"
begin

lemma run_related: "rel s t \<Longrightarrow> rel (run_ops step s as) (run_ops spec t as)"
  by (induction as arbitrary: s t) (auto intro: step_related)

lemma run_outputs: "rel s t \<Longrightarrow> run_outs step s as = run_outs spec t as"
  by (induction as arbitrary: s t) (auto simp: step_output intro: step_related)

end

locale refinement_machine = invariant_machine step inv
  for step :: "'s \<Rightarrow> 'op \<Rightarrow> 's \<times> 'out" and inv :: "'s \<Rightarrow> bool" +
  fixes abs :: "'s \<Rightarrow> 'a"
    and spec :: "'a \<Rightarrow> 'op \<Rightarrow> 'a \<times> 'out"
  assumes step_refines: "inv s \<Longrightarrow> spec (abs s) a = (abs (fst (step s a)), snd (step s a))"

sublocale refinement_machine \<subseteq> simulation_machine step spec "\<lambda>s t. inv s \<and> t = abs s"
  by unfold_locales (auto simp: step_refines intro: step_inv)

text \<open>The contract a framing layer needs from a bounded byte buffer.\<close>

locale byte_fifo =
  fixes push :: "'s \<Rightarrow> bytes \<Rightarrow> 's \<times> ('e + unit)"
    and peek :: "'s \<Rightarrow> bytes \<Rightarrow> bytes \<times> nat"
    and pop :: "'s \<Rightarrow> bytes \<Rightarrow> 's \<times> bytes \<times> nat"
    and contents :: "'s \<Rightarrow> bytes"
    and room :: "'s \<Rightarrow> nat"
    and inv :: "'s \<Rightarrow> bool"
  assumes push_ok: "inv s \<Longrightarrow> length d \<le> room s \<Longrightarrow>
      \<exists>s'. push s d = (s', Inr ()) \<and> inv s' \<and> contents s' = contents s @ d \<and>
        room s' = room s - length d"
    and peek_ok: "inv s \<Longrightarrow> length buf \<le> length (contents s) \<Longrightarrow>
      peek s buf = (take (length buf) (contents s), length buf)"
    and peek_short: "inv s \<Longrightarrow> length (contents s) < length buf \<Longrightarrow>
      snd (peek s buf) = length (contents s)"
    and pop_ok: "inv s \<Longrightarrow> length buf \<le> length (contents s) \<Longrightarrow>
      \<exists>s'. pop s buf = (s', take (length buf) (contents s), length buf) \<and> inv s' \<and>
        contents s' = drop (length buf) (contents s) \<and> room s' = room s + length buf"
begin

lemma push_frame:
  assumes "inv s" and "length hdr + length d \<le> room s"
  obtains s1 s2 where "push s hdr = (s1, Inr ())" "push s1 d = (s2, Inr ())" "inv s1" "inv s2"
    "contents s1 = contents s @ hdr" "contents s2 = contents s @ hdr @ d"
    "room s1 = room s - length hdr" "room s2 = room s - (length hdr + length d)"
proof -
  from assms obtain s1 where s1: "push s hdr = (s1, Inr ())" "inv s1"
    "contents s1 = contents s @ hdr" "room s1 = room s - length hdr"
    using push_ok [of s hdr] by auto
  moreover have "length d \<le> room s1" using s1 assms(2) by simp
  from push_ok [OF s1(2) this] obtain s2 where "push s1 d = (s2, Inr ())" "inv s2"
    "contents s2 = contents s1 @ d" "room s2 = room s1 - length d" by blast
  ultimately show ?thesis using that [of s1 s2] by simp
qed

lemma pop_frame:
  assumes "inv s" and "contents s = frame @ rest"
  obtains s' where "pop s (replicate (length frame) 0) = (s', frame, length frame)" "inv s'"
    "contents s' = rest" "room s' = room s + length frame"
  using assms that pop_ok [of s "replicate (length frame) 0"] by auto

lemma peek_header:
  assumes "inv s" and "contents s = hdr @ rest"
  shows "peek s (replicate (length hdr) 0) = (hdr, length hdr)"
  using assms peek_ok [of s "replicate (length hdr) 0"] by simp

end

end
