(* ===== verification/Wire_Errors.thy ===== *)
theory Wire_Errors
  imports Dcp_Prelude
begin

text \<open>
  The error values of \<open>src/src/error.rs\<close>: the two enumerations with their \<open>repr(u8)\<close> codes, and
  the four-byte binary error response built from them.
\<close>

datatype dcp_error =
    InsufficientData | InvalidMagic | UnknownMessageType | ToolNotFound | ValidationFailed
  | HashMismatch | SignatureInvalid | NonceReused | TimestampExpired | ChecksumMismatch
  | Backpressure | OutOfBounds | InternalError | ResourceExhausted | SessionNotFound
  | CapabilityDenied

fun dcp_error_code :: "dcp_error \<Rightarrow> u8" where
  "dcp_error_code InsufficientData = 1"
| "dcp_error_code InvalidMagic = 2"
| "dcp_error_code UnknownMessageType = 3"
| "dcp_error_code ToolNotFound = 4"
| "dcp_error_code ValidationFailed = 5"
| "dcp_error_code HashMismatch = 6"
| "dcp_error_code SignatureInvalid = 7"
| "dcp_error_code NonceReused = 8"
| "dcp_error_code TimestampExpired = 9"
| "dcp_error_code ChecksumMismatch = 10"
| "dcp_error_code Backpressure = 11"
| "dcp_error_code OutOfBounds = 12"
| "dcp_error_code InternalError = 13"
| "dcp_error_code ResourceExhausted = 14"
| "dcp_error_code SessionNotFound = 15"
| "dcp_error_code CapabilityDenied = 16"

datatype security_error =
    InvalidSignature | ExpiredTimestamp | ReplayAttack | InsufficientCapabilities
  | CapacityExceeded | SchemaValidationFailed | ArgsHashMismatch

fun security_error_code :: "security_error \<Rightarrow> u8" where
  "security_error_code InvalidSignature = 1"
| "security_error_code ExpiredTimestamp = 2"
| "security_error_code ReplayAttack = 3"
| "security_error_code InsufficientCapabilities = 4"
| "security_error_code CapacityExceeded = 5"
| "security_error_code SchemaValidationFailed = 6"
| "security_error_code ArgsHashMismatch = 7"

record error_response =
  er_category :: u8
  er_code :: u8
  er_context_len :: u16

definition error_response_new :: "u8 \<Rightarrow> u8 \<Rightarrow> error_response" where
  "error_response_new category code =
     \<lparr>er_category = category, er_code = code, er_context_len = 0\<rparr>"

definition from_dcp_error :: "dcp_error \<Rightarrow> error_response" where
  "from_dcp_error err = error_response_new 1 (dcp_error_code err)"

definition from_security_error :: "security_error \<Rightarrow> error_response" where
  "from_security_error err = error_response_new 2 (security_error_code err)"

lemma dcp_error_code_inject: "dcp_error_code a = dcp_error_code b \<longleftrightarrow> a = b"
  by (cases a; cases b; simp)

lemma security_error_code_inject: "security_error_code a = security_error_code b \<longleftrightarrow> a = b"
  by (cases a; cases b; simp)

text \<open>Every error the server can report has a response of its own: the category separates the
  two enumerations and the code is injective on each.\<close>

definition report_error :: "dcp_error + security_error \<Rightarrow> error_response" where
  "report_error e = (case e of Inl d \<Rightarrow> from_dcp_error d | Inr s \<Rightarrow> from_security_error s)"

lemma report_error_inject: "report_error a = report_error b \<longleftrightarrow> a = b"
  by (cases a; cases b)
     (simp_all add: report_error_def from_dcp_error_def from_security_error_def
        error_response_new_def dcp_error_code_inject security_error_code_inject)

end
