(* ===== verification/Envelope.thy ===== *)
theory Envelope
  imports Wire_Errors
begin

text \<open>
  The binary message envelope (\<open>src/src/binary/envelope.rs\<close>), the HBTP header
  (\<open>src/src/binary/hbtp.rs\<close>) and their wire formats. Both structs are packed and read by a pointer
  cast; the model fixes the little-endian byte order of the supported targets. The CRC32 of the
  \<open>crc32fast\<close> crate is a parameter.
\<close>

section \<open>Binary message envelope\<close>

definition DCP_MAGIC :: u16 where "DCP_MAGIC = 0xDC01"

record envelope =
  env_magic :: u16
  env_message_type :: u8
  env_flags :: u8
  env_payload_len :: u32

datatype message_type = Tool | Resource | Prompt | Response | Error | Stream

fun message_type_code :: "message_type \<Rightarrow> u8" where
  "message_type_code Tool = 1"
| "message_type_code Resource = 2"
| "message_type_code Prompt = 3"
| "message_type_code Response = 4"
| "message_type_code Error = 5"
| "message_type_code Stream = 6"

definition message_type_from_u8 :: "u8 \<Rightarrow> message_type option" where
  "message_type_from_u8 v =
     (if v = 1 then Some Tool else if v = 2 then Some Resource else if v = 3 then Some Prompt
      else if v = 4 then Some Response else if v = 5 then Some Error
      else if v = 6 then Some Stream else None)"

definition STREAMING :: u8 where "STREAMING = 1"
definition COMPRESSED :: u8 where "COMPRESSED = 2"
definition SIGNED :: u8 where "SIGNED = 4"

definition ENVELOPE_SIZE :: nat where [codec_simps]: "ENVELOPE_SIZE = 8"

definition envelope_new :: "message_type \<Rightarrow> u8 \<Rightarrow> u32 \<Rightarrow> envelope" where
  "envelope_new t flags len =
     \<lparr>env_magic = DCP_MAGIC, env_message_type = message_type_code t, env_flags = flags,
      env_payload_len = len\<rparr>"

text \<open>The pointer cast: the field layout of the packed struct.\<close>

definition envelope_cast :: "bytes \<Rightarrow> envelope" where
  [codec_simps]: "envelope_cast bs =
     \<lparr>env_magic = le_word (slice 0 2 bs), env_message_type = bs ! 2, env_flags = bs ! 3,
      env_payload_len = le_word (slice 4 8 bs)\<rparr>"

definition envelope_from_bytes :: "bytes \<Rightarrow> dcp_error + envelope" where
  "envelope_from_bytes bs =
     (if length bs < ENVELOPE_SIZE then Inl InsufficientData
      else let e = envelope_cast bs in
        if env_magic e \<noteq> DCP_MAGIC then Inl InvalidMagic else Inr e)"

definition envelope_as_bytes :: "envelope \<Rightarrow> bytes" where
  [codec_simps]: "envelope_as_bytes e =
     le_bytes 2 (env_magic e) @ env_message_type e # env_flags e #
     le_bytes 4 (env_payload_len e)"

definition get_message_type :: "envelope \<Rightarrow> message_type option" where
  "get_message_type e = message_type_from_u8 (env_message_type e)"

definition is_streaming :: "envelope \<Rightarrow> bool" where
  "is_streaming e \<longleftrightarrow> env_flags e AND STREAMING \<noteq> 0"

definition is_compressed :: "envelope \<Rightarrow> bool" where
  "is_compressed e \<longleftrightarrow> env_flags e AND COMPRESSED \<noteq> 0"

definition is_signed :: "envelope \<Rightarrow> bool" where
  "is_signed e \<longleftrightarrow> env_flags e AND SIGNED \<noteq> 0"

lemma message_type_from_code [simp]: "message_type_from_u8 (message_type_code t) = Some t"
  by (cases t) (simp_all add: message_type_from_u8_def)

lemma message_type_from_u8_Some:
  "message_type_from_u8 v = Some t \<longleftrightarrow> v = message_type_code t"
  by (cases t) (auto simp: message_type_from_u8_def split: if_splits)

lemma envelope_cast_as_bytes: "envelope_cast (envelope_as_bytes e @ rest) = e"
  by (simp add: codec_simps slice_split)

lemma envelope_as_bytes_cast:
  "8 \<le> length bs \<Longrightarrow> envelope_as_bytes (envelope_cast bs) = take 8 bs"
  by (simp add: codec_simps slice_build)

lemma length_envelope_as_bytes [simp]: "length (envelope_as_bytes e) = 8"
  by (simp add: codec_simps)

lemma envelope_from_bytes_eq_Inr:
  "envelope_from_bytes bs = Inr e \<longleftrightarrow>
     8 \<le> length bs \<and> env_magic e = DCP_MAGIC \<and> take 8 bs = envelope_as_bytes e"
proof -
  have "envelope_cast bs = e \<longleftrightarrow> take 8 bs = envelope_as_bytes e" if "8 \<le> length bs"
    using that envelope_as_bytes_cast [OF that] envelope_cast_as_bytes [of e "drop 8 bs"]
    by (metis append_take_drop_id)
  then show ?thesis
    by (auto simp: envelope_from_bytes_def ENVELOPE_SIZE_def Let_def)
qed

interpretation env_codec: prefix_codec envelope_as_bytes
  "\<lambda>bs. result_ok (envelope_from_bytes bs)" "\<lambda>e. env_magic e = DCP_MAGIC" 8
  by unfold_locales (auto simp: envelope_from_bytes_eq_Inr)

section \<open>HBTP header\<close>

definition HBTP_MAGIC :: u32 where "HBTP_MAGIC = 0x48425450"

record hbtp =
  hb_magic :: u32
  hb_version :: u8
  hb_msg_type :: u8
  hb_flags :: u16
  hb_stream_id :: u32
  hb_length :: u32
  hb_checksum :: u32

definition HBTP_SIZE :: nat where [codec_simps]: "HBTP_SIZE = 20"

definition hbtp_as_bytes :: "hbtp \<Rightarrow> bytes" where
  [codec_simps]: "hbtp_as_bytes h =
     le_bytes 4 (hb_magic h) @ hb_version h # hb_msg_type h # le_bytes 2 (hb_flags h) @
     le_bytes 4 (hb_stream_id h) @ le_bytes 4 (hb_length h) @ le_bytes 4 (hb_checksum h)"

definition hbtp_cast :: "bytes \<Rightarrow> hbtp" where
  [codec_simps]: "hbtp_cast bs =
     \<lparr>hb_magic = le_word (slice 0 4 bs), hb_version = bs ! 4, hb_msg_type = bs ! 5,
      hb_flags = le_word (slice 6 8 bs), hb_stream_id = le_word (slice 8 12 bs),
      hb_length = le_word (slice 12 16 bs), hb_checksum = le_word (slice 16 20 bs)\<rparr>"

definition compute_checksum :: "(bytes \<Rightarrow> u32) \<Rightarrow> hbtp \<Rightarrow> u32" where
  "compute_checksum crc h = crc (take 16 (hbtp_as_bytes h))"

definition hbtp_new :: "(bytes \<Rightarrow> u32) \<Rightarrow> u8 \<Rightarrow> u8 \<Rightarrow> u16 \<Rightarrow> u32 \<Rightarrow> u32 \<Rightarrow> hbtp" where
  "hbtp_new crc version msg_type flags stream_id len =
     (let h = \<lparr>hb_magic = HBTP_MAGIC, hb_version = version, hb_msg_type = msg_type,
               hb_flags = flags, hb_stream_id = stream_id, hb_length = len, hb_checksum = 0\<rparr>
      in h\<lparr>hb_checksum := compute_checksum crc h\<rparr>)"

definition verify_checksum :: "(bytes \<Rightarrow> u32) \<Rightarrow> hbtp \<Rightarrow> bool" where
  "verify_checksum crc h \<longleftrightarrow> hb_checksum h = compute_checksum crc h"

definition hbtp_from_bytes :: "bytes \<Rightarrow> dcp_error + hbtp" where
  "hbtp_from_bytes bs =
     (if length bs < HBTP_SIZE then Inl InsufficientData
      else let h = hbtp_cast bs in
        if hb_magic h \<noteq> HBTP_MAGIC then Inl InvalidMagic else Inr h)"

definition hbtp_from_bytes_verified :: "(bytes \<Rightarrow> u32) \<Rightarrow> bytes \<Rightarrow> dcp_error + hbtp" where
  "hbtp_from_bytes_verified crc bs =
     bind_result (hbtp_from_bytes bs)
       (\<lambda>h. if \<not> verify_checksum crc h then Inl ChecksumMismatch else Inr h)"

lemma hbtp_cast_as_bytes: "hbtp_cast (hbtp_as_bytes h @ rest) = h"
  by (simp add: codec_simps slice_split)

lemma hbtp_as_bytes_cast: "20 \<le> length bs \<Longrightarrow> hbtp_as_bytes (hbtp_cast bs) = take 20 bs"
  by (simp add: codec_simps slice_build)

lemma length_hbtp_as_bytes [simp]: "length (hbtp_as_bytes h) = 20"
  by (simp add: codec_simps)

lemma hbtp_from_bytes_eq_Inr:
  "hbtp_from_bytes bs = Inr h \<longleftrightarrow>
     20 \<le> length bs \<and> hb_magic h = HBTP_MAGIC \<and> take 20 bs = hbtp_as_bytes h"
proof -
  have "hbtp_cast bs = h \<longleftrightarrow> take 20 bs = hbtp_as_bytes h" if "20 \<le> length bs"
    using that hbtp_as_bytes_cast [OF that] hbtp_cast_as_bytes [of h "drop 20 bs"]
    by (metis append_take_drop_id)
  then show ?thesis
    by (auto simp: hbtp_from_bytes_def HBTP_SIZE_def Let_def)
qed

lemma compute_checksum_ignores_checksum [simp]:
  "compute_checksum crc (h\<lparr>hb_checksum := c\<rparr>) = compute_checksum crc h"
  by (simp add: compute_checksum_def codec_simps)

lemma hbtp_new_verifies:
  "hb_magic (hbtp_new crc v t f s l) = HBTP_MAGIC \<and> verify_checksum crc (hbtp_new crc v t f s l)"
  by (simp add: hbtp_new_def verify_checksum_def Let_def compute_checksum_def codec_simps)

interpretation hbtp_codec: prefix_codec hbtp_as_bytes
  "\<lambda>bs. result_ok (hbtp_from_bytes bs)" "\<lambda>h. hb_magic h = HBTP_MAGIC" 20
  by unfold_locales (auto simp: hbtp_from_bytes_eq_Inr)

interpretation hbtp_verified_codec: prefix_codec hbtp_as_bytes
  "\<lambda>bs. result_ok (hbtp_from_bytes_verified crc bs)"
  "\<lambda>h. hb_magic h = HBTP_MAGIC \<and> verify_checksum crc h" 20 for crc
  by unfold_locales
     (auto simp: hbtp_from_bytes_verified_def bind_result_eq_Inr hbtp_from_bytes_eq_Inr
        split: if_splits)

end
