(* ===== verification/Invocation.thy ===== *)
theory Invocation
  imports Wire_Errors
begin

text \<open>
  Tool invocations (\<open>src/src/binary/invocation.rs\<close>): the canonical 24-byte record with its zero
  padding, and the argument layout, a word of sixteen four-bit type tags.
\<close>

section \<open>Argument types\<close>

datatype arg_type =
    ArgNull | ArgBool | ArgI32 | ArgI64 | ArgF64 | ArgString | ArgBytes | ArgArray | ArgObject

fun arg_type_code :: "arg_type \<Rightarrow> u8" where
  "arg_type_code ArgNull = 0"
| "arg_type_code ArgBool = 1"
| "arg_type_code ArgI32 = 2"
| "arg_type_code ArgI64 = 3"
| "arg_type_code ArgF64 = 4"
| "arg_type_code ArgString = 5"
| "arg_type_code ArgBytes = 6"
| "arg_type_code ArgArray = 7"
| "arg_type_code ArgObject = 8"

definition arg_type_from_u8 :: "u8 \<Rightarrow> arg_type option" where
  "arg_type_from_u8 v =
     (if v = 0 then Some ArgNull else if v = 1 then Some ArgBool else if v = 2 then Some ArgI32
      else if v = 3 then Some ArgI64 else if v = 4 then Some ArgF64
      else if v = 5 then Some ArgString else if v = 6 then Some ArgBytes
      else if v = 7 then Some ArgArray else if v = 8 then Some ArgObject else None)"

lemma arg_type_from_code [simp]: "arg_type_from_u8 (arg_type_code t) = Some t"
  by (cases t) (simp_all add: arg_type_from_u8_def)

lemma arg_type_from_u8_Some: "arg_type_from_u8 v = Some t \<longleftrightarrow> v = arg_type_code t"
  by (cases t) (auto simp: arg_type_from_u8_def split: if_splits)

section \<open>The record and its bytes\<close>

record invocation =
  inv_tool_id :: u32
  inv_arg_layout :: u64
  inv_args_offset :: u32
  inv_args_len :: u32

definition INVOCATION_SIZE :: nat where [codec_simps]: "INVOCATION_SIZE = 24"

definition MAX_ARGS :: nat where "MAX_ARGS = 16"

definition invocation_new :: "u32 \<Rightarrow> u64 \<Rightarrow> u32 \<Rightarrow> u32 \<Rightarrow> invocation" where
  "invocation_new tool_id arg_layout args_offset args_len =
     \<lparr>inv_tool_id = tool_id, inv_arg_layout = arg_layout, inv_args_offset = args_offset,
      inv_args_len = args_len\<rparr>"

definition invocation_from_bytes :: "bytes \<Rightarrow> dcp_error + invocation" where
  "invocation_from_bytes bs =
     (if length bs < INVOCATION_SIZE then Inl InsufficientData
      else if length bs \<noteq> INVOCATION_SIZE then Inl ValidationFailed
      else if list_ex (\<lambda>b. b \<noteq> 0) (slice 4 8 bs) then Inl ValidationFailed
      else Inr \<lparr>inv_tool_id = le_word (slice 0 4 bs), inv_arg_layout = le_word (slice 8 16 bs),
                inv_args_offset = le_word (slice 16 20 bs),
                inv_args_len = le_word (slice 20 24 bs)\<rparr>)"

text \<open>The serializer starts from a zeroed array and copies the fields in.\<close>

definition invocation_as_bytes :: "invocation \<Rightarrow> bytes" where
  "invocation_as_bytes v =
     copy_at 20 (le_bytes 4 (inv_args_len v))
       (copy_at 16 (le_bytes 4 (inv_args_offset v))
         (copy_at 8 (le_bytes 8 (inv_arg_layout v))
           (copy_at 0 (le_bytes 4 (inv_tool_id v)) (replicate INVOCATION_SIZE 0))))"

lemma invocation_as_bytes_layout:
  "invocation_as_bytes v =
     le_bytes 4 (inv_tool_id v) @ replicate 4 0 @ le_bytes 8 (inv_arg_layout v) @
     le_bytes 4 (inv_args_offset v) @ le_bytes 4 (inv_args_len v)"
  by (simp add: invocation_as_bytes_def copy_at_def INVOCATION_SIZE_def)

lemma length_invocation_as_bytes [simp]: "length (invocation_as_bytes v) = 24"
  by (simp add: invocation_as_bytes_layout)

lemma invocation_from_as_bytes: "invocation_from_bytes (invocation_as_bytes v) = Inr v"
  by (simp add: invocation_from_bytes_def INVOCATION_SIZE_def invocation_as_bytes_layout
      slice_split list_ex_length)

lemma invocation_from_bytes_sound:
  assumes "invocation_from_bytes bs = Inr v"
  shows "bs = invocation_as_bytes v"
proof -
  from assms have len: "length bs = 24" and pad: "\<not> list_ex (\<lambda>b. b \<noteq> 0) (slice 4 8 bs)"
    by (auto simp: invocation_from_bytes_def INVOCATION_SIZE_def split: if_splits)
  from pad len have "replicate 4 0 = slice 4 8 bs"
    by (simp add: no_nonzero_iff_zeros)
  with assms len show ?thesis
    by (auto simp: invocation_from_bytes_def INVOCATION_SIZE_def invocation_as_bytes_layout
        slice_build slice_all split: if_splits)
qed

interpretation invocation_codec: exact_codec invocation_as_bytes
  "\<lambda>bs. result_ok (invocation_from_bytes bs)" "\<lambda>_. True" 24
proof unfold_locales
  show "length (invocation_as_bytes x) = 24" if "True" for x by simp
  show "result_ok (invocation_from_bytes (invocation_as_bytes x)) = Some x" if "True" for x
    by (simp add: invocation_from_as_bytes)
  show "True \<and> 24 \<le> length bs \<and> take 24 bs = invocation_as_bytes x"
    if "result_ok (invocation_from_bytes bs) = Some x" for bs x
    using invocation_from_bytes_sound [of bs x] that by simp
  show "length bs = 24" if "result_ok (invocation_from_bytes bs) = Some x" for bs x
    using invocation_from_bytes_sound [of bs x] that by simp
qed

section \<open>The argument layout\<close>

definition layout_nibble :: "u64 \<Rightarrow> nat \<Rightarrow> u8" where
  "layout_nibble layout i = ucast (drop_bit (i * 4) layout AND 0xF)"

definition get_arg_type :: "invocation \<Rightarrow> nat \<Rightarrow> arg_type option" where
  "get_arg_type v i =
     (if i \<ge> MAX_ARGS then None
      else arg_type_from_u8 (layout_nibble (inv_arg_layout v) i))"

definition set_arg_type :: "invocation \<Rightarrow> nat \<Rightarrow> arg_type \<Rightarrow> invocation" where
  "set_arg_type v i t =
     (if i \<ge> MAX_ARGS then v
      else let s = i * 4;
               cleared = inv_arg_layout v AND NOT (push_bit s 0xF)
           in v\<lparr>inv_arg_layout := cleared OR push_bit s (ucast (arg_type_code t))\<rparr>)"

text \<open>The loop of \<open>arg_count\<close> over the positions that are left: an unknown tag is skipped, a null
  tag ends the list.\<close>

fun arg_count_loop :: "invocation \<Rightarrow> nat list \<Rightarrow> nat \<Rightarrow> nat" where
  "arg_count_loop v [] count = count"
| "arg_count_loop v (i # is) count =
     (case get_arg_type v i of
        None \<Rightarrow> arg_count_loop v is count
      | Some t \<Rightarrow> if t \<noteq> ArgNull then arg_count_loop v is (count + 1) else count)"

definition arg_count :: "invocation \<Rightarrow> nat" where
  "arg_count v = arg_count_loop v [0..<MAX_ARGS] 0"

lemma bit_0xF: "bit (0xF :: int) n \<longleftrightarrow> n < 4"
proof -
  have "(0xF :: int) = mask 4" by (simp add: mask_eq_exp_minus_1)
  then show ?thesis by (simp only: bit_mask_iff) (simp add: possible_bit_int)
qed

lemma bit_layout_nibble:
  "bit (layout_nibble l i) k \<longleftrightarrow> k < 4 \<and> bit l (i * 4 + k)"
  by (auto simp: layout_nibble_def bit_ucast_iff bit_and_iff bit_drop_bit_eq bit_0xF)

lemma arg_type_code_small: "bit (arg_type_code t) k \<Longrightarrow> k < 4"
proof (rule ccontr)
  assume b: "bit (arg_type_code t) k" and "\<not> k < 4"
  then have "4 \<le> k" and "k < 8" using bit_imp_le_length [of "arg_type_code t" k] by simp_all
  then have "k = 4 \<or> k = 5 \<or> k = 6 \<or> k = 7" by arith
  with b show False by (cases t) auto
qed

lemma layout_nibble_set:
  assumes "i < 16" and "j < 16"
  shows "layout_nibble ((l AND NOT (push_bit (i * 4) 0xF)) OR push_bit (i * 4) (ucast (arg_type_code t))) j
    = (if j = i then arg_type_code t else layout_nibble l j)"
proof (rule bit_eqI)
  fix k
  assume "possible_bit TYPE(8 word) k"
  show "bit (layout_nibble ((l AND NOT (push_bit (i * 4) 0xF)) OR
          push_bit (i * 4) (ucast (arg_type_code t))) j) k
    \<longleftrightarrow> bit (if j = i then arg_type_code t else layout_nibble l j) k"
  proof (cases "k < 4")
    case False
    then show ?thesis
      using arg_type_code_small [of t k] by (auto simp: bit_layout_nibble)
  next
    case True
    have lt: "j * 4 + k < 64" using assms True by simp
    show ?thesis
    proof (cases "j = i")
      case True
      with \<open>k < 4\<close> lt show ?thesis
        by (simp add: bit_layout_nibble bit_or_iff bit_and_iff bit_not_iff bit_push_bit_iff
            bit_0xF bit_ucast_iff)
    next
      case False
      have "\<not> (i * 4 \<le> j * 4 + k \<and> j * 4 + k - i * 4 < 4)" using False \<open>k < 4\<close> by arith
      then have "bit (push_bit (i * 4) (0xF :: u64)) (j * 4 + k) = False"
        and "bit (push_bit (i * 4) (ucast (arg_type_code t) :: u64)) (j * 4 + k) = False"
        using arg_type_code_small [of t "j * 4 + k - i * 4"]
        by (auto simp: bit_push_bit_iff bit_0xF bit_ucast_iff)
      with \<open>k < 4\<close> lt False show ?thesis
        by (simp add: bit_layout_nibble bit_or_iff bit_and_iff bit_not_iff)
    qed
  qed
qed

lemma get_set_arg_type:
  "i < 16 \<Longrightarrow> get_arg_type (set_arg_type v i t) j = (if j = i then Some t else get_arg_type v j)"
  by (simp add: get_arg_type_def set_arg_type_def MAX_ARGS_def Let_def layout_nibble_set)

text \<open>Describing a whole argument list: one \<open>set_arg_type\<close> per argument, as callers do.\<close>

definition with_arg_types :: "invocation \<Rightarrow> arg_type list \<Rightarrow> invocation" where
  "with_arg_types v ts = foldl (\<lambda>w i. set_arg_type w i (ts ! i)) v [0..<length ts]"

lemma get_foldl_set_arg_type:
  "n \<le> 16 \<Longrightarrow> get_arg_type (foldl (\<lambda>w i. set_arg_type w i (ts ! i)) v [0..<n]) j =
     (if j < n then Some (ts ! j) else get_arg_type v j)"
  by (induction n) (auto simp: get_set_arg_type less_Suc_eq)

lemma arg_count_loop_prefix:
  assumes "\<And>j. j \<in> set js \<Longrightarrow> \<exists>t. get_arg_type v j = Some t \<and> t \<noteq> ArgNull"
  shows "arg_count_loop v (js @ is) c = arg_count_loop v is (c + length js)"
  using assms by (induction js arbitrary: c) fastforce+

lemma arg_count_with_arg_types:
  assumes "length ts \<le> 16" and "ArgNull \<notin> set ts" and "inv_arg_layout v = 0"
  shows "arg_count (with_arg_types v ts) = length ts"
proof -
  let ?n = "length ts" and ?v = "with_arg_types v ts"
  have get: "get_arg_type ?v j = (if j < ?n then Some (ts ! j) else get_arg_type v j)" for j
    unfolding with_arg_types_def by (rule get_foldl_set_arg_type) (rule assms(1))
  have null: "get_arg_type v j = Some ArgNull" if "j < 16" for j
    using that assms(3)
    by (simp add: get_arg_type_def MAX_ARGS_def layout_nibble_def arg_type_from_u8_def)
  have "[0..<16] = [0..<?n] @ [?n..<16]"
    using assms(1) by (metis le0 le_add_diff_inverse upt_add_eq_append)
  then have "arg_count ?v = arg_count_loop ?v [?n..<16] ?n"
    unfolding arg_count_def MAX_ARGS_def
    using assms(2) get arg_count_loop_prefix [of "[0..<?n]" ?v "[?n..<16]" 0]
    by (auto simp: in_set_conv_nth)
  also have "\<dots> = ?n"
  proof (cases "?n = 16")
    case True
    then show ?thesis by simp
  next
    case False
    with assms(1) have "?n < 16" by simp
    then have "[?n..<16] = ?n # [Suc ?n..<16]" by (rule upt_conv_Cons)
    with \<open>?n < 16\<close> show ?thesis by (simp add: get null)
  qed
  finally show ?thesis .
qed

text \<open>Argument layout. Describing up to sixteen non-null arguments one after the other in an empty
  layout makes the argument count their number, and each position up to there reads back its type
  and every later one the null type.\<close>

theorem argument_layout:
  assumes "length ts \<le> 16" and "ArgNull \<notin> set ts" and "inv_arg_layout v = 0"
  shows "arg_count (with_arg_types v ts) = length ts \<and>
    map (get_arg_type (with_arg_types v ts)) [0..<16] =
      map Some ts @ replicate (16 - length ts) (Some ArgNull)"
proof -
  have null: "get_arg_type v j = Some ArgNull" if "j < 16" for j
    using that assms(3)
    by (simp add: get_arg_type_def MAX_ARGS_def layout_nibble_def arg_type_from_u8_def)
  have "map (get_arg_type (with_arg_types v ts)) [0..<16] =
      map Some ts @ replicate (16 - length ts) (Some ArgNull)"
    using assms(1)
    by (intro nth_equalityI)
      (auto simp: with_arg_types_def get_foldl_set_arg_type nth_append null simp del: upt_Suc)
  with arg_count_with_arg_types [OF assms] show ?thesis by simp
qed

theorem argument_layout_witness:
  "arg_count (with_arg_types (invocation_new 7 0 0 0) [ArgString, ArgI32]) = 2"
  using argument_layout [of "[ArgString, ArgI32]" "invocation_new 7 0 0 0"]
  by (simp add: invocation_new_def)

end
