(* ===== verification/Signed_Records.thy ===== *)
theory Signed_Records
  imports Wire_Errors
begin

text \<open>
  The Ed25519-signed records of \<open>src/src/binary/signed.rs\<close>: canonical 144-byte tool definitions and
  120-byte invocations with zero padding, and the compact payloads the signatures cover.
\<close>

section \<open>Records\<close>

record signed_tool_def =
  std_tool_id :: u32
  std_schema_hash :: bytes
  std_capabilities :: u64
  std_signature :: bytes
  std_public_key :: bytes

record signed_invocation =
  si_tool_id :: u32
  si_nonce :: u64
  si_timestamp :: u64
  si_args_hash :: bytes
  si_signature :: bytes

text \<open>The Rust types \<open>[u8; 32]\<close> and \<open>[u8; 64]\<close> fix the lengths.\<close>

definition wf_tool_def :: "signed_tool_def \<Rightarrow> bool" where
  "wf_tool_def d \<longleftrightarrow> length (std_schema_hash d) = 32 \<and> length (std_signature d) = 64 \<and>
     length (std_public_key d) = 32"

definition wf_signed_invocation :: "signed_invocation \<Rightarrow> bool" where
  "wf_signed_invocation v \<longleftrightarrow> length (si_args_hash v) = 32 \<and> length (si_signature v) = 64"

definition TOOL_DEF_SIZE :: nat where "TOOL_DEF_SIZE = 144"
definition TOOL_DEF_SIGNED_SIZE :: nat where "TOOL_DEF_SIGNED_SIZE = 44"
definition SIGNED_INVOCATION_SIZE :: nat where "SIGNED_INVOCATION_SIZE = 120"
definition INVOCATION_SIGNED_SIZE :: nat where "INVOCATION_SIGNED_SIZE = 52"

section \<open>Tool definitions\<close>

definition tool_def_from_bytes :: "bytes \<Rightarrow> dcp_error + signed_tool_def" where
  "tool_def_from_bytes bs =
     (if length bs < TOOL_DEF_SIZE then Inl InsufficientData
      else if length bs \<noteq> TOOL_DEF_SIZE then Inl ValidationFailed
      else if list_ex (\<lambda>b. b \<noteq> 0) (slice 36 40 bs) then Inl ValidationFailed
      else Inr \<lparr>std_tool_id = le_word (slice 0 4 bs), std_schema_hash = slice 4 36 bs,
                std_capabilities = le_word (slice 40 48 bs), std_signature = slice 48 112 bs,
                std_public_key = slice 112 144 bs\<rparr>)"

definition tool_def_as_bytes :: "signed_tool_def \<Rightarrow> bytes" where
  "tool_def_as_bytes d =
     copy_at 112 (std_public_key d)
       (copy_at 48 (std_signature d)
         (copy_at 40 (le_bytes 8 (std_capabilities d))
           (copy_at 4 (std_schema_hash d)
             (copy_at 0 (le_bytes 4 (std_tool_id d)) (replicate TOOL_DEF_SIZE 0)))))"

definition tool_def_signed_bytes :: "signed_tool_def \<Rightarrow> bytes" where
  "tool_def_signed_bytes d =
     copy_at 36 (le_bytes 8 (std_capabilities d))
       (copy_at 4 (std_schema_hash d)
         (copy_at 0 (le_bytes 4 (std_tool_id d)) (replicate TOOL_DEF_SIGNED_SIZE 0)))"

lemma tool_def_as_bytes_layout:
  "wf_tool_def d \<Longrightarrow> tool_def_as_bytes d =
     le_bytes 4 (std_tool_id d) @ std_schema_hash d @ replicate 4 0 @
     le_bytes 8 (std_capabilities d) @ std_signature d @ std_public_key d"
  by (simp add: tool_def_as_bytes_def copy_at_def TOOL_DEF_SIZE_def wf_tool_def_def)

lemma tool_def_signed_bytes_layout:
  "wf_tool_def d \<Longrightarrow> tool_def_signed_bytes d =
     le_bytes 4 (std_tool_id d) @ std_schema_hash d @ le_bytes 8 (std_capabilities d)"
  by (simp add: tool_def_signed_bytes_def copy_at_def TOOL_DEF_SIGNED_SIZE_def wf_tool_def_def)

lemma tool_def_from_as_bytes:
  assumes "wf_tool_def d"
  shows "tool_def_from_bytes (tool_def_as_bytes d) = Inr d"
  using assms
  by (simp add: tool_def_from_bytes_def TOOL_DEF_SIZE_def tool_def_as_bytes_layout wf_tool_def_def
      slice_split list_ex_length)

lemma tool_def_from_bytes_sound:
  assumes "tool_def_from_bytes bs = Inr d"
  shows "wf_tool_def d \<and> bs = tool_def_as_bytes d"
proof -
  from assms have len: "length bs = 144" and pad: "\<not> list_ex (\<lambda>b. b \<noteq> 0) (slice 36 40 bs)"
    by (auto simp: tool_def_from_bytes_def TOOL_DEF_SIZE_def split: if_splits)
  from assms len have wf: "wf_tool_def d"
    by (auto simp: tool_def_from_bytes_def wf_tool_def_def split: if_splits)
  from pad len have "replicate 4 0 = slice 36 40 bs"
    by (simp add: no_nonzero_iff_zeros)
  with assms len wf show ?thesis
    by (auto simp: tool_def_from_bytes_def TOOL_DEF_SIZE_def tool_def_as_bytes_layout
        slice_build slice_all split: if_splits)
qed

lemma length_tool_def_as_bytes: "wf_tool_def d \<Longrightarrow> length (tool_def_as_bytes d) = 144"
  by (simp add: tool_def_as_bytes_layout) (simp add: wf_tool_def_def)

interpretation tool_def_codec: exact_codec tool_def_as_bytes
  "\<lambda>bs. result_ok (tool_def_from_bytes bs)" wf_tool_def 144
  by unfold_locales
     (auto simp: length_tool_def_as_bytes tool_def_from_as_bytes
       dest: tool_def_from_bytes_sound)

section \<open>Signed invocations\<close>

definition signed_invocation_from_bytes :: "bytes \<Rightarrow> dcp_error + signed_invocation" where
  "signed_invocation_from_bytes bs =
     (if length bs < SIGNED_INVOCATION_SIZE then Inl InsufficientData
      else if length bs \<noteq> SIGNED_INVOCATION_SIZE then Inl ValidationFailed
      else if list_ex (\<lambda>b. b \<noteq> 0) (slice 4 8 bs) then Inl ValidationFailed
      else Inr \<lparr>si_tool_id = le_word (slice 0 4 bs), si_nonce = le_word (slice 8 16 bs),
                si_timestamp = le_word (slice 16 24 bs), si_args_hash = slice 24 56 bs,
                si_signature = slice 56 120 bs\<rparr>)"

definition signed_invocation_as_bytes :: "signed_invocation \<Rightarrow> bytes" where
  "signed_invocation_as_bytes v =
     copy_at 56 (si_signature v)
       (copy_at 24 (si_args_hash v)
         (copy_at 16 (le_bytes 8 (si_timestamp v))
           (copy_at 8 (le_bytes 8 (si_nonce v))
             (copy_at 0 (le_bytes 4 (si_tool_id v)) (replicate SIGNED_INVOCATION_SIZE 0)))))"

definition invocation_signed_bytes :: "signed_invocation \<Rightarrow> bytes" where
  "invocation_signed_bytes v =
     copy_at 20 (si_args_hash v)
       (copy_at 12 (le_bytes 8 (si_timestamp v))
         (copy_at 4 (le_bytes 8 (si_nonce v))
           (copy_at 0 (le_bytes 4 (si_tool_id v)) (replicate INVOCATION_SIGNED_SIZE 0))))"

lemma signed_invocation_as_bytes_layout:
  "wf_signed_invocation v \<Longrightarrow> signed_invocation_as_bytes v =
     le_bytes 4 (si_tool_id v) @ replicate 4 0 @ le_bytes 8 (si_nonce v) @
     le_bytes 8 (si_timestamp v) @ si_args_hash v @ si_signature v"
  by (simp add: signed_invocation_as_bytes_def copy_at_def SIGNED_INVOCATION_SIZE_def
      wf_signed_invocation_def)

lemma invocation_signed_bytes_layout:
  "length (si_args_hash v) = 32 \<Longrightarrow> invocation_signed_bytes v =
     le_bytes 4 (si_tool_id v) @ le_bytes 8 (si_nonce v) @ le_bytes 8 (si_timestamp v) @
     si_args_hash v"
  by (simp add: invocation_signed_bytes_def copy_at_def INVOCATION_SIGNED_SIZE_def)

lemma signed_invocation_from_as_bytes:
  "wf_signed_invocation v \<Longrightarrow> signed_invocation_from_bytes (signed_invocation_as_bytes v) = Inr v"
  by (simp add: signed_invocation_from_bytes_def SIGNED_INVOCATION_SIZE_def
      signed_invocation_as_bytes_layout)
     (simp add: wf_signed_invocation_def slice_split list_ex_length)

lemma signed_invocation_from_bytes_sound:
  assumes "signed_invocation_from_bytes bs = Inr v"
  shows "wf_signed_invocation v \<and> bs = signed_invocation_as_bytes v"
proof -
  from assms have len: "length bs = 120" and pad: "\<not> list_ex (\<lambda>b. b \<noteq> 0) (slice 4 8 bs)"
    by (auto simp: signed_invocation_from_bytes_def SIGNED_INVOCATION_SIZE_def split: if_splits)
  from assms len have wf: "wf_signed_invocation v"
    by (auto simp: signed_invocation_from_bytes_def wf_signed_invocation_def split: if_splits)
  from pad len have "replicate 4 0 = slice 4 8 bs"
    by (simp add: no_nonzero_iff_zeros)
  with assms len wf show ?thesis
    by (auto simp: signed_invocation_from_bytes_def SIGNED_INVOCATION_SIZE_def
        signed_invocation_as_bytes_layout slice_build slice_all split: if_splits)
qed

lemma length_signed_invocation_as_bytes:
  "wf_signed_invocation v \<Longrightarrow> length (signed_invocation_as_bytes v) = 120"
  by (simp add: signed_invocation_as_bytes_layout) (simp add: wf_signed_invocation_def)

interpretation signed_invocation_codec: exact_codec signed_invocation_as_bytes
  "\<lambda>bs. result_ok (signed_invocation_from_bytes bs)" wf_signed_invocation 120
  by unfold_locales
     (auto simp: length_signed_invocation_as_bytes signed_invocation_from_as_bytes
       dest: signed_invocation_from_bytes_sound)

text \<open>What a signature covers determines every field but the signature itself.\<close>

lemma invocation_signed_bytes_inject:
  assumes "length (si_args_hash v) = 32" and "length (si_args_hash w) = 32"
    and "invocation_signed_bytes v = invocation_signed_bytes w"
  shows "w = v\<lparr>si_signature := si_signature w\<rparr>"
  using assms
  by (cases v; cases w)
     (simp add: invocation_signed_bytes_layout append_eq_append_conv le_bytes_inject)

end
