(* ===== verification/Stream_Chunk.thy ===== *)
theory Stream_Chunk
  imports Wire_Errors
begin

text \<open>
  The packed seven-byte stream chunk header of \<open>src/src/binary/stream.rs\<close> and the flag combinations its
  parser accepts.
\<close>

definition FIRST :: u8 where "FIRST = 1"
definition CONTINUE :: u8 where "CONTINUE = 2"
definition LAST :: u8 where "LAST = 4"
definition ERROR :: u8 where "ERROR = 8"

definition ALL_CHUNK_FLAGS :: u8 where
  "ALL_CHUNK_FLAGS = FIRST OR CONTINUE OR LAST OR ERROR"

lemmas chunk_flag_defs = FIRST_def CONTINUE_def LAST_def ERROR_def ALL_CHUNK_FLAGS_def

definition valid_chunk_flags :: "u8 \<Rightarrow> bool" where
  "valid_chunk_flags flags =
     (if flags = 0 \<or> flags AND NOT ALL_CHUNK_FLAGS \<noteq> 0 then False
      else if flags AND ERROR \<noteq> 0 then flags = ERROR
      else flags = FIRST \<or> flags = CONTINUE \<or> flags = LAST \<or> flags = FIRST OR LAST)"

record chunk =
  ck_sequence :: u32
  ck_flags :: u8
  ck_len :: u16

definition CHUNK_SIZE :: nat where [codec_simps]: "CHUNK_SIZE = 7"

definition chunk_new :: "u32 \<Rightarrow> u8 \<Rightarrow> u16 \<Rightarrow> chunk" where
  "chunk_new sequence flags len = \<lparr>ck_sequence = sequence, ck_flags = flags, ck_len = len\<rparr>"

definition chunk_first :: "u32 \<Rightarrow> u16 \<Rightarrow> chunk" where
  "chunk_first sequence len = chunk_new sequence FIRST len"

definition chunk_continuation :: "u32 \<Rightarrow> u16 \<Rightarrow> chunk" where
  "chunk_continuation sequence len = chunk_new sequence CONTINUE len"

definition chunk_last :: "u32 \<Rightarrow> u16 \<Rightarrow> chunk" where
  "chunk_last sequence len = chunk_new sequence LAST len"

definition chunk_error :: "u32 \<Rightarrow> u16 \<Rightarrow> chunk" where
  "chunk_error sequence len = chunk_new sequence ERROR len"

definition chunk_cast :: "bytes \<Rightarrow> chunk" where
  [codec_simps]: "chunk_cast bs =
     \<lparr>ck_sequence = le_word (slice 0 4 bs), ck_flags = bs ! 4, ck_len = le_word (slice 5 7 bs)\<rparr>"

definition chunk_from_bytes :: "bytes \<Rightarrow> dcp_error + chunk" where
  "chunk_from_bytes bs =
     (if length bs < CHUNK_SIZE then Inl InsufficientData
      else if \<not> valid_chunk_flags (bs ! 4) then Inl ValidationFailed
      else Inr (chunk_cast bs))"

definition chunk_as_bytes :: "chunk \<Rightarrow> bytes" where
  [codec_simps]: "chunk_as_bytes c =
     le_bytes 4 (ck_sequence c) @ ck_flags c # le_bytes 2 (ck_len c)"

definition chunk_is_first :: "chunk \<Rightarrow> bool" where
  "chunk_is_first c \<longleftrightarrow> ck_flags c AND FIRST \<noteq> 0"

definition chunk_is_continuation :: "chunk \<Rightarrow> bool" where
  "chunk_is_continuation c \<longleftrightarrow> ck_flags c AND CONTINUE \<noteq> 0"

definition chunk_is_last :: "chunk \<Rightarrow> bool" where
  "chunk_is_last c \<longleftrightarrow> ck_flags c AND LAST \<noteq> 0"

definition chunk_is_error :: "chunk \<Rightarrow> bool" where
  "chunk_is_error c \<longleftrightarrow> ck_flags c AND ERROR \<noteq> 0"

text \<open>The accepted bytes are exactly five.\<close>

lemma valid_chunk_flags_iff:
  "valid_chunk_flags f \<longleftrightarrow> f = FIRST \<or> f = CONTINUE \<or> f = LAST \<or> f = ERROR \<or> f = FIRST OR LAST"
  by (auto simp: valid_chunk_flags_def chunk_flag_defs)

lemma length_chunk_as_bytes [simp]: "length (chunk_as_bytes c) = 7"
  by (simp add: codec_simps)

lemma chunk_cast_as_bytes: "chunk_cast (chunk_as_bytes c @ rest) = c"
  by (simp add: codec_simps slice_split)

lemma chunk_as_bytes_cast: "7 \<le> length bs \<Longrightarrow> chunk_as_bytes (chunk_cast bs) = take 7 bs"
  by (simp add: codec_simps slice_build)

lemma chunk_from_bytes_eq_Inr:
  "chunk_from_bytes bs = Inr c \<longleftrightarrow>
     7 \<le> length bs \<and> valid_chunk_flags (ck_flags c) \<and> take 7 bs = chunk_as_bytes c"
proof -
  have "chunk_cast bs = c \<longleftrightarrow> take 7 bs = chunk_as_bytes c" if "7 \<le> length bs"
    using that chunk_as_bytes_cast [OF that] chunk_cast_as_bytes [of c "drop 7 bs"]
    by (metis append_take_drop_id)
  then show ?thesis
    by (auto simp: chunk_from_bytes_def CHUNK_SIZE_def chunk_cast_def)
qed

interpretation chunk_codec: prefix_codec chunk_as_bytes
  "\<lambda>bs. result_ok (chunk_from_bytes bs)" "\<lambda>c. valid_chunk_flags (ck_flags c)" 7
  by unfold_locales (auto simp: chunk_from_bytes_eq_Inr)

text \<open>A parsed chunk is in one role: the error role excludes every other, and a continuation is
  neither first nor last.\<close>

lemma chunk_roles:
  assumes "valid_chunk_flags (ck_flags c)"
  shows "chunk_is_error c \<longrightarrow> \<not> chunk_is_first c \<and> \<not> chunk_is_continuation c \<and> \<not> chunk_is_last c"
    and "chunk_is_continuation c \<longrightarrow> \<not> chunk_is_first c \<and> \<not> chunk_is_last c"
    and "chunk_is_error c \<or> chunk_is_first c \<or> chunk_is_continuation c \<or> chunk_is_last c"
  using assms
  by (auto simp: valid_chunk_flags_iff chunk_is_error_def chunk_is_first_def
      chunk_is_continuation_def chunk_is_last_def chunk_flag_defs)

end
