(* ===== verification/Message_Parser.thy ===== *)
theory Message_Parser
  imports Envelope
begin

text \<open>
  Message parsing, flag validation and dispatch by message type (\<open>src/src/protocol/parser.rs\<close>). The
  handler trait is a record of six functions; a parsed message carries the envelope and its
  payload slice.
\<close>

definition KNOWN_FLAG_BITS :: u8 where
  "KNOWN_FLAG_BITS = STREAMING OR COMPRESSED OR SIGNED"

lemmas flag_defs = STREAMING_def COMPRESSED_def SIGNED_def KNOWN_FLAG_BITS_def

record parsed_message =
  pm_envelope :: envelope
  pm_payload :: bytes

definition validate_message_type :: "u8 \<Rightarrow> dcp_error + message_type" where
  "validate_message_type t =
     (case message_type_from_u8 t of None \<Rightarrow> Inl UnknownMessageType | Some m \<Rightarrow> Inr m)"

definition validate_flags :: "u8 \<Rightarrow> dcp_error + unit" where
  "validate_flags flags =
     (if flags AND NOT KNOWN_FLAG_BITS = 0 then Inr () else Inl ValidationFailed)"

definition parse_message :: "bytes \<Rightarrow> dcp_error + parsed_message" where
  "parse_message bs =
     bind_result (envelope_from_bytes bs) (\<lambda>e.
       case usize_checked_add ENVELOPE_SIZE (unat (env_payload_len e)) of
         None \<Rightarrow> Inl ValidationFailed
       | Some payload_end \<Rightarrow>
           bind_result (validate_message_type (env_message_type e)) (\<lambda>_.
           bind_result (validate_flags (env_flags e)) (\<lambda>_.
             if length bs < payload_end then Inl InsufficientData
             else if length bs \<noteq> payload_end then Inl ValidationFailed
             else Inr \<lparr>pm_envelope = e, pm_payload = slice ENVELOPE_SIZE payload_end bs\<rparr>)))"

record message_flags =
  mf_streaming :: bool
  mf_compressed :: bool
  mf_signed :: bool

definition extract_flags :: "envelope \<Rightarrow> message_flags" where
  "extract_flags e =
     \<lparr>mf_streaming = (env_flags e AND STREAMING \<noteq> 0),
      mf_compressed = (env_flags e AND COMPRESSED \<noteq> 0),
      mf_signed = (env_flags e AND SIGNED \<noteq> 0)\<rparr>"

definition message_flags_to_u8 :: "message_flags \<Rightarrow> u8" where
  "message_flags_to_u8 f =
     (let flags = 0;
          flags = (if mf_streaming f then flags OR STREAMING else flags);
          flags = (if mf_compressed f then flags OR COMPRESSED else flags)
      in if mf_signed f then flags OR SIGNED else flags)"

record message_handler =
  handle_tool :: "parsed_message \<Rightarrow> dcp_error + unit"
  handle_resource :: "parsed_message \<Rightarrow> dcp_error + unit"
  handle_prompt :: "parsed_message \<Rightarrow> dcp_error + unit"
  handle_response :: "parsed_message \<Rightarrow> dcp_error + unit"
  handle_error :: "parsed_message \<Rightarrow> dcp_error + unit"
  handle_stream :: "parsed_message \<Rightarrow> dcp_error + unit"

definition dispatch_message :: "parsed_message \<Rightarrow> message_handler \<Rightarrow> dcp_error + unit" where
  "dispatch_message m h =
     bind_result (validate_message_type (env_message_type (pm_envelope m))) (\<lambda>t.
       case t of
         Tool \<Rightarrow> handle_tool h m
       | Resource \<Rightarrow> handle_resource h m
       | Prompt \<Rightarrow> handle_prompt h m
       | Response \<Rightarrow> handle_response h m
       | Error \<Rightarrow> handle_error h m
       | Stream \<Rightarrow> handle_stream h m)"

text \<open>The messages a peer may send, and their bytes.\<close>

definition wf_message :: "parsed_message \<Rightarrow> bool" where
  "wf_message m \<longleftrightarrow>
     env_magic (pm_envelope m) = DCP_MAGIC \<and>
     message_type_from_u8 (env_message_type (pm_envelope m)) \<noteq> None \<and>
     env_flags (pm_envelope m) AND NOT KNOWN_FLAG_BITS = 0 \<and>
     length (pm_payload m) = unat (env_payload_len (pm_envelope m))"

definition encode_message :: "parsed_message \<Rightarrow> bytes" where
  "encode_message m = envelope_as_bytes (pm_envelope m) @ pm_payload m"

lemma payload_end_Some:
  "usize_checked_add ENVELOPE_SIZE (unat (n :: u32)) = Some (8 + unat n)"
  using unat_u32_less [of n] by (simp add: usize_checked_add_def ENVELOPE_SIZE_def)

lemma parse_message_unfold:
  "parse_message bs =
     (if length bs < 8 then Inl InsufficientData
      else if env_magic (envelope_cast bs) \<noteq> DCP_MAGIC then Inl InvalidMagic
      else if message_type_from_u8 (env_message_type (envelope_cast bs)) = None
        then Inl UnknownMessageType
      else if env_flags (envelope_cast bs) AND NOT KNOWN_FLAG_BITS \<noteq> 0 then Inl ValidationFailed
      else if length bs < 8 + unat (env_payload_len (envelope_cast bs)) then Inl InsufficientData
      else if length bs \<noteq> 8 + unat (env_payload_len (envelope_cast bs)) then Inl ValidationFailed
      else Inr \<lparr>pm_envelope = envelope_cast bs,
                pm_payload = slice 8 (8 + unat (env_payload_len (envelope_cast bs))) bs\<rparr>)"
  by (auto simp: parse_message_def envelope_from_bytes_def ENVELOPE_SIZE_def Let_def
      payload_end_Some [unfolded ENVELOPE_SIZE_def] validate_message_type_def validate_flags_def
      split: option.splits)

lemma parse_encode:
  assumes "wf_message m"
  shows "parse_message (encode_message m) = Inr m"
proof -
  have "envelope_cast (encode_message m) = pm_envelope m"
    by (simp add: encode_message_def envelope_cast_as_bytes)
  moreover have "slice 8 (8 + length (pm_payload m)) (encode_message m) = pm_payload m"
    by (simp add: encode_message_def slice_def)
  ultimately show ?thesis
    using assms by (auto simp: parse_message_unfold wf_message_def encode_message_def)
qed

lemma parse_sound:
  assumes "parse_message bs = Inr m"
  shows "wf_message m \<and> encode_message m = bs"
proof -
  from assms have len: "8 \<le> length bs"
    and m: "pm_envelope m = envelope_cast bs" "pm_payload m = drop 8 bs"
    and ok: "length bs = 8 + unat (env_payload_len (envelope_cast bs))"
      "env_magic (envelope_cast bs) = DCP_MAGIC"
      "message_type_from_u8 (env_message_type (envelope_cast bs)) \<noteq> None"
      "env_flags (envelope_cast bs) AND NOT KNOWN_FLAG_BITS = 0"
    by (auto simp: parse_message_unfold slice_def split: if_splits)
  then show ?thesis
    by (simp add: wf_message_def encode_message_def envelope_as_bytes_cast)
qed

text \<open>The known flag bits are the low three, so a valid flag byte is one of eight.\<close>

lemma known_flags_cases:
  assumes "(f :: u8) AND NOT KNOWN_FLAG_BITS = 0"
  shows "f = 0 \<or> f = 1 \<or> f = 2 \<or> f = 3 \<or> f = 4 \<or> f = 5 \<or> f = 6 \<or> f = 7"
proof -
  have "f = (f AND 7) OR (f AND NOT 7)"
    by (simp flip: and.assoc bit.conj_disj_distrib)
  with assms have "f = f AND 7" by (simp add: flag_defs)
  then have "f \<le> 7" using word_and_le1 [of f 7] by simp
  then have "unat f \<le> 7" by (simp add: word_le_nat_alt)
  then have "unat f = 0 \<or> unat f = 1 \<or> unat f = 2 \<or> unat f = 3 \<or> unat f = 4 \<or> unat f = 5 \<or>
      unat f = 6 \<or> unat f = 7" by arith
  then show ?thesis by (simp add: word_unat_eq_iff)
qed

lemma message_flags_to_u8_extract:
  assumes "env_flags e AND NOT KNOWN_FLAG_BITS = 0"
  shows "message_flags_to_u8 (extract_flags e) = env_flags e"
  using known_flags_cases [OF assms]
  by (elim disjE) (simp_all add: message_flags_to_u8_def extract_flags_def flag_defs Let_def)

lemma extract_message_flags_to_u8:
  "extract_flags (e\<lparr>env_flags := message_flags_to_u8 f\<rparr>) = f"
  by (cases f) (auto simp: message_flags_to_u8_def extract_flags_def flag_defs Let_def)

text \<open>Parsing is exact. The parser accepts a byte string as a message exactly when the message is
  well formed (magic, known type, known flags, payload of the announced length) and the bytes are its
  encoding: nothing is accepted twice, truncated or with bytes left over.\<close>

theorem parse_message_exact:
  "parse_message bs = Inr m \<longleftrightarrow> wf_message m \<and> encode_message m = bs"
  using parse_encode parse_sound by blast

text \<open>Message flags. Extracting the flags of an envelope and packing them again returns the flag
  byte exactly when it has known bits only, and packing then extracting is the identity.\<close>

theorem message_flags_round_trip:
  "(message_flags_to_u8 (extract_flags e) = env_flags e \<longleftrightarrow>
      env_flags e AND NOT KNOWN_FLAG_BITS = 0) \<and>
   extract_flags (e\<lparr>env_flags := message_flags_to_u8 f\<rparr>) = f"
proof -
  have "message_flags_to_u8 g AND NOT KNOWN_FLAG_BITS = 0" for g
    by (cases g) (simp add: message_flags_to_u8_def flag_defs Let_def)
  then show ?thesis
    using message_flags_to_u8_extract extract_message_flags_to_u8 by metis
qed

end
