(* ===== verification/Ring_Buffer.thy ===== *)
theory Ring_Buffer
  imports Wire_Errors
begin

text \<open>
  The ring buffer of \<open>src/src/stream/ring_buffer.rs\<close>, operation by operation. Positions are 64-bit
  words that wrap, the backpressure counter is a 32-bit word, and \<open>usize\<close> values are naturals. A
  CAS loop with no competitor is its first iteration; the interleaved view is in
  \<open>Ring_Concurrent\<close>.
\<close>

section \<open>Backpressure\<close>

definition try_reserve :: "u32 \<Rightarrow> u32 \<Rightarrow> bool \<times> u32" where
  "try_reserve available amount =
     (if available < amount then (False, available) else (True, available - amount))"

definition release :: "u32 \<Rightarrow> u32 \<Rightarrow> u32" where
  "release available amount = available + amount"

section \<open>State and operations\<close>

record ring =
  rb_buffer :: bytes
  rb_write_pos :: u64
  rb_read_pos :: u64
  rb_capacity :: nat
  rb_mask :: nat
  rb_available :: u32

text \<open>\<open>usize::next_power_of_two\<close>: doubling from one.\<close>

function pow2_from :: "nat \<Rightarrow> nat \<Rightarrow> nat" where
  "pow2_from p n = (if p = 0 \<or> n \<le> p then p else pow2_from (2 * p) n)"
  by pat_completeness auto
termination by (relation "measure (\<lambda>(p, n). n - p)") auto

declare pow2_from.simps [simp del]

definition ring_new :: "nat \<Rightarrow> ring" where
  "ring_new requested =
     (let cap = max (pow2_from 1 requested) 16
      in \<lparr>rb_buffer = replicate cap 0, rb_write_pos = 0, rb_read_pos = 0, rb_capacity = cap,
          rb_mask = cap - 1, rb_available = of_nat cap\<rparr>)"

definition ring_len :: "ring \<Rightarrow> nat" where
  "ring_len s = unat (rb_write_pos s - rb_read_pos s)"

definition ring_is_empty :: "ring \<Rightarrow> bool" where
  "ring_is_empty s \<longleftrightarrow> ring_len s = 0"

definition available_space :: "ring \<Rightarrow> nat" where
  "available_space s = rb_capacity s - ring_len s"

definition ring_is_full :: "ring \<Rightarrow> bool" where
  "ring_is_full s \<longleftrightarrow> rb_available s = 0"

definition ring_index :: "ring \<Rightarrow> u64 \<Rightarrow> nat" where
  "ring_index s pos = unat (pos AND of_nat (rb_mask s))"

text \<open>The two-part copies shared by the operations.\<close>

definition write_wrapped :: "nat \<Rightarrow> bytes \<Rightarrow> bytes \<Rightarrow> bytes" where
  "write_wrapped start data buffer =
     (let cap = length buffer in
      if start + length data \<le> cap then copy_at start data buffer
      else let first_part = cap - start
           in copy_at 0 (drop first_part data) (copy_at start (take first_part data) buffer))"

definition read_wrapped :: "nat \<Rightarrow> nat \<Rightarrow> bytes \<Rightarrow> bytes" where
  "read_wrapped start n buffer =
     (let cap = length buffer in
      if start + n \<le> cap then slice start (start + n) buffer
      else let first_part = cap - start in drop start buffer @ take (n - first_part) buffer)"

definition ring_push :: "ring \<Rightarrow> bytes \<Rightarrow> ring \<times> (dcp_error + unit)" where
  "ring_push s data =
     (let len = length data in
      if len > rb_capacity s then (s, Inl OutOfBounds)
      else case try_reserve (rb_available s) (of_nat len) of
        (False, _) \<Rightarrow> (s, Inl Backpressure)
      | (True, avail) \<Rightarrow>
          (let start = ring_index s (rb_write_pos s)
           in (s\<lparr>rb_available := avail,
                 rb_buffer := write_wrapped start data (rb_buffer s),
                 rb_write_pos := rb_write_pos s + of_nat len\<rparr>, Inr ())))"

text \<open>\<open>pop\<close> and \<open>peek\<close> fill a prefix of the caller's buffer and return how much.\<close>

definition ring_peek :: "ring \<Rightarrow> bytes \<Rightarrow> bytes \<times> nat" where
  "ring_peek s buf =
     (let to_read = min (length buf) (ring_len s) in
      if to_read = 0 then (buf, 0)
      else let start = ring_index s (rb_read_pos s)
           in (copy_at 0 (read_wrapped start to_read (rb_buffer s)) buf, to_read))"

definition ring_pop :: "ring \<Rightarrow> bytes \<Rightarrow> ring \<times> bytes \<times> nat" where
  "ring_pop s buf =
     (let to_read = min (length buf) (ring_len s) in
      if to_read = 0 then (s, buf, 0)
      else let start = ring_index s (rb_read_pos s);
               out = copy_at 0 (read_wrapped start to_read (rb_buffer s)) buf
           in (s\<lparr>rb_read_pos := rb_read_pos s + of_nat to_read,
                 rb_available := release (rb_available s) (of_nat to_read)\<rparr>, out, to_read))"

definition ring_clear :: "ring \<Rightarrow> ring" where
  "ring_clear s =
     (let consumed = ucast (rb_write_pos s - rb_read_pos s) :: u32
      in s\<lparr>rb_read_pos := rb_write_pos s, rb_available := release (rb_available s) consumed\<rparr>)"

section \<open>Invariant and abstraction\<close>

definition ring_inv :: "ring \<Rightarrow> bool" where
  "ring_inv s \<longleftrightarrow>
     (\<exists>k. 4 \<le> k \<and> k < 32 \<and> rb_capacity s = 2 ^ k) \<and> rb_mask s = rb_capacity s - 1 \<and>
     length (rb_buffer s) = rb_capacity s \<and>
     unat (rb_available s) + ring_len s = rb_capacity s"

text \<open>The queued bytes: the buffer rotated to the read position, cut at the queued length.\<close>

definition ring_contents :: "ring \<Rightarrow> bytes" where
  "ring_contents s = take (ring_len s) (rotate (unat (rb_read_pos s)) (rb_buffer s))"

lemma ring_invE:
  assumes "ring_inv s"
  obtains k where "4 \<le> k" "k < 32" "rb_capacity s = 2 ^ k" "rb_mask s = 2 ^ k - 1"
    "length (rb_buffer s) = 2 ^ k" "ring_len s \<le> 2 ^ k"
    "unat (rb_available s) + ring_len s = 2 ^ k" "rb_capacity s dvd 2 ^ 64"
proof -
  from assms obtain k where k: "4 \<le> k" "k < 32" "rb_capacity s = 2 ^ k"
    by (auto simp: ring_inv_def)
  moreover have "(2 :: nat) ^ k dvd 2 ^ 64" by (rule le_imp_power_dvd) (use k in simp)
  ultimately show ?thesis using assms that [of k] by (auto simp: ring_inv_def)
qed

lemma pow2_bound: "k < 32 \<Longrightarrow> (2 :: nat) ^ k \<le> 2147483648"
  using power_increasing [of k 31 "2 :: nat"] by simp

lemma length_ring_contents [simp]: "ring_inv s \<Longrightarrow> length (ring_contents s) = ring_len s"
  by (erule ring_invE) (simp add: ring_contents_def)

lemma ring_index_mod:
  assumes "ring_inv s"
  shows "ring_index s pos = unat pos mod rb_capacity s"
proof -
  from assms obtain k where k: "k < 32" "rb_capacity s = 2 ^ k" "rb_mask s = 2 ^ k - 1"
    by (rule ring_invE)
  have "(of_nat (rb_mask s) :: u64) = mask k"
    using k by (simp add: mask_eq_exp_minus_1 of_nat_diff)
  then have "ring_index s pos = unat (take_bit k pos)"
    by (simp only: ring_index_def take_bit_eq_mask)
  also have "\<dots> = take_bit k (unat pos)"
    by (rule unsigned_take_bit_eq)
  also have "\<dots> = unat pos mod rb_capacity s"
    by (simp only: take_bit_eq_mod k)
  finally show ?thesis .
qed

lemma write_index:
  assumes "ring_inv s"
  shows "ring_index s (rb_write_pos s) = (unat (rb_read_pos s) + ring_len s) mod rb_capacity s"
proof -
  have "unat (rb_read_pos s + (rb_write_pos s - rb_read_pos s)) =
      (unat (rb_read_pos s) + ring_len s) mod 2 ^ 64"
    by (simp only: unat_add_u64 ring_len_def)
  then have "unat (rb_write_pos s) = (unat (rb_read_pos s) + ring_len s) mod 2 ^ 64"
    by simp
  moreover have "rb_capacity s dvd 2 ^ 64" using assms by (rule ring_invE)
  ultimately show ?thesis
    using assms by (simp only: ring_index_mod mod_mod_cancel)
qed

lemma read_wrapped_rotate:
  "start < length buffer \<Longrightarrow> n \<le> length buffer \<Longrightarrow>
   read_wrapped start n buffer = take n (rotate start buffer)"
  by (auto simp: read_wrapped_def Let_def rotate_drop_take slice_def min_def)

lemma length_write_wrapped [simp]:
  "start < length buffer \<Longrightarrow> length data \<le> length buffer \<Longrightarrow>
   length (write_wrapped start data buffer) = length buffer"
  by (auto simp: write_wrapped_def Let_def)

lemma nth_write_wrapped:
  assumes "start < length buffer" and "length data \<le> length buffer" and "j < length buffer"
  shows "write_wrapped start data buffer ! ((start + j) mod length buffer) =
     (if j < length data then data ! j else buffer ! ((start + j) mod length buffer))"
proof (cases "start + j < length buffer")
  case True
  with assms show ?thesis
    by (auto simp: write_wrapped_def Let_def nth_copy_at)
next
  case False
  then have "(start + j) mod length buffer = start + j - length buffer"
    using assms by (simp add: mod_if)
  with False assms show ?thesis
    by (auto simp: write_wrapped_def Let_def nth_copy_at)
qed

section \<open>The operations on the queued bytes\<close>

lemma ring_reserve:
  assumes "ring_inv s" and "n \<le> rb_capacity s"
  shows "unat (of_nat n :: u32) = n" and "unat (of_nat n :: u64) = n"
    and "try_reserve (rb_available s) (of_nat n) =
      (if available_space s < n then (False, rb_available s)
       else (True, rb_available s - of_nat n))"
    and "n \<le> available_space s \<Longrightarrow>
      unat (rb_available s - of_nat n) = unat (rb_available s) - n"
proof -
  from assms(1) obtain k where k: "k < 32" "rb_capacity s = 2 ^ k"
    "unat (rb_available s) + ring_len s = 2 ^ k" by (rule ring_invE)
  have n: "n \<le> 2147483648" using assms(2) k pow2_bound [of k] by simp
  then show u: "unat (of_nat n :: u32) = n" and "unat (of_nat n :: u64) = n"
    by (simp_all add: unat_of_nat_small)
  have av: "available_space s = unat (rb_available s)"
    using k by (simp add: available_space_def)
  show "try_reserve (rb_available s) (of_nat n) =
      (if available_space s < n then (False, rb_available s)
       else (True, rb_available s - of_nat n))"
    by (simp add: try_reserve_def word_less_nat_alt u av)
  show "unat (rb_available s - of_nat n) = unat (rb_available s) - n"
    if "n \<le> available_space s"
    using that u av by (simp add: unat_sub word_le_nat_alt)
qed

definition ring_pushed :: "ring \<Rightarrow> bytes \<Rightarrow> ring" where
  "ring_pushed s data =
     s\<lparr>rb_available := rb_available s - of_nat (length data),
       rb_buffer := write_wrapped (ring_index s (rb_write_pos s)) data (rb_buffer s),
       rb_write_pos := rb_write_pos s + of_nat (length data)\<rparr>"

lemma ring_push_cases:
  assumes "ring_inv s"
  shows "ring_push s data =
     (if rb_capacity s < length data then (s, Inl OutOfBounds)
      else if available_space s < length data then (s, Inl Backpressure)
      else (ring_pushed s data, Inr ()))"
  using assms by (simp add: ring_push_def ring_reserve ring_pushed_def Let_def)

lemma ring_len_pushed:
  assumes "ring_inv s" and "length data \<le> available_space s"
  shows "ring_len (ring_pushed s data) = ring_len s + length data"
proof -
  from assms(1) obtain k where k: "k < 32" "rb_capacity s = 2 ^ k" "ring_len s \<le> 2 ^ k"
    by (rule ring_invE)
  then have le: "ring_len s + length data \<le> 2147483648"
    using assms(2) pow2_bound [of k] by (simp add: available_space_def)
  have "ring_len (ring_pushed s data) =
      unat (rb_write_pos s - rb_read_pos s + of_nat (length data))"
    by (simp add: ring_len_def ring_pushed_def algebra_simps)
  also have "\<dots> = (ring_len s + unat (of_nat (length data) :: u64)) mod 2 ^ 64"
    by (simp only: unat_add_u64 ring_len_def)
  also have "\<dots> = ring_len s + length data"
    using le by (simp add: unat_of_nat_small)
  finally show ?thesis .
qed

lemma ring_contents_pushed:
  assumes inv: "ring_inv s" and fits: "length data \<le> available_space s"
  shows "ring_contents (ring_pushed s data) = ring_contents s @ data"
proof -
  from inv obtain k where k: "rb_capacity s = 2 ^ k" "length (rb_buffer s) = 2 ^ k"
    "ring_len s \<le> 2 ^ k" by (rule ring_invE)
  let ?cap = "rb_capacity s" and ?r = "unat (rb_read_pos s)" and ?l = "ring_len s"
  let ?start = "(?r + ?l) mod ?cap"
  have cap: "0 < ?cap" "length (rb_buffer s) = ?cap" "?l + length data \<le> ?cap"
    using k fits by (auto simp: available_space_def)
  have start: "?start < length (rb_buffer s)" using cap by simp
  have buf: "rb_buffer (ring_pushed s data) = write_wrapped ?start data (rb_buffer s)"
    and pos: "rb_read_pos (ring_pushed s data) = rb_read_pos s"
    by (simp_all add: ring_pushed_def write_index [OF inv])
  have len: "length (write_wrapped ?start data (rb_buffer s)) = ?cap"
    using start cap by simp
  have at: "write_wrapped ?start data (rb_buffer s) ! ((?r + i) mod ?cap) =
      (if ?l \<le> i then data ! (i - ?l) else rb_buffer s ! ((?r + i) mod ?cap))"
    if "i < ?l + length data" for i
  proof (cases "?l \<le> i")
    case True
    have "(?start + (i - ?l)) mod ?cap = (?r + ?l + (i - ?l)) mod ?cap"
      by (rule mod_add_left_eq)
    also have "?r + ?l + (i - ?l) = ?r + i" using True by simp
    finally have "(?start + (i - ?l)) mod ?cap = (?r + i) mod ?cap" .
    moreover have "i - ?l < length data" using True that by arith
    ultimately show ?thesis
      using nth_write_wrapped [OF start, of data "i - ?l"] True cap by simp
  next
    case False
    have "(?start + (i + ?cap - ?l)) mod ?cap = (?r + ?l + (i + ?cap - ?l)) mod ?cap"
      by (rule mod_add_left_eq)
    also have "?r + ?l + (i + ?cap - ?l) = ?r + i + ?cap" using cap by simp
    finally have "(?start + (i + ?cap - ?l)) mod ?cap = (?r + i) mod ?cap" by simp
    moreover have "\<not> i + ?cap - ?l < length data" and "i + ?cap - ?l < ?cap"
      using False cap by arith+
    ultimately show ?thesis
      using nth_write_wrapped [OF start, of data "i + ?cap - ?l"] False cap by simp
  qed
  show ?thesis
  proof (rule nth_equalityI)
    show "length (ring_contents (ring_pushed s data)) = length (ring_contents s @ data)"
      using len cap inv fits by (simp add: ring_contents_def buf pos ring_len_pushed)
  next
    fix i
    assume "i < length (ring_contents (ring_pushed s data))"
    then have i: "i < ?l + length data"
      using len cap inv fits by (simp add: ring_contents_def buf pos ring_len_pushed)
    have "ring_contents (ring_pushed s data) ! i =
        write_wrapped ?start data (rb_buffer s) ! ((?r + i) mod ?cap)"
      using i len cap inv fits
      by (simp add: ring_contents_def buf pos ring_len_pushed nth_rotate)
    also have "\<dots> = (ring_contents s @ data) ! i"
      using i cap inv by (simp add: at nth_append) (simp add: ring_contents_def nth_rotate)
    finally show "ring_contents (ring_pushed s data) ! i = (ring_contents s @ data) ! i" .
  qed
qed

lemma ring_inv_pushed:
  assumes inv: "ring_inv s" and fits: "length data \<le> available_space s"
  shows "ring_inv (ring_pushed s data)"
proof -
  from inv obtain k where k: "4 \<le> k" "k < 32" "rb_capacity s = 2 ^ k" "rb_mask s = 2 ^ k - 1"
    "length (rb_buffer s) = 2 ^ k" "ring_len s \<le> 2 ^ k"
    "unat (rb_available s) + ring_len s = 2 ^ k" by (rule ring_invE)
  have le: "length data \<le> rb_capacity s" using fits by (simp add: available_space_def)
  have "length (write_wrapped (ring_index s (rb_write_pos s)) data (rb_buffer s)) = 2 ^ k"
    using k le by (simp add: write_index [OF inv])
  moreover have "unat (rb_available s - of_nat (length data)) = unat (rb_available s) - length data"
    using ring_reserve(4) [OF inv le] fits by simp
  ultimately show ?thesis
    using k fits by (auto simp: ring_inv_def ring_len_pushed [OF inv fits] available_space_def)
      (auto simp: ring_pushed_def)
qed

lemma ring_push_ok:
  assumes "ring_inv s" and "length data \<le> available_space s"
  shows "ring_push s data = (ring_pushed s data, Inr ())"
proof -
  from assms have "length data \<le> rb_capacity s" by (simp add: available_space_def)
  with assms show ?thesis by (simp add: ring_push_cases)
qed

definition ring_popped :: "ring \<Rightarrow> nat \<Rightarrow> ring" where
  "ring_popped s n =
     s\<lparr>rb_read_pos := rb_read_pos s + of_nat n,
       rb_available := release (rb_available s) (of_nat n)\<rparr>"

lemma ring_peek_eq:
  assumes "ring_inv s"
  shows "ring_peek s buf =
    (let n = min (length buf) (ring_len s)
     in (copy_at 0 (take n (ring_contents s)) buf, n))"
proof -
  from assms obtain k where k: "length (rb_buffer s) = 2 ^ k" "ring_len s \<le> 2 ^ k"
    "rb_capacity s = 2 ^ k" by (rule ring_invE)
  have "read_wrapped (ring_index s (rb_read_pos s)) n (rb_buffer s) = take n (ring_contents s)"
    if "n \<le> ring_len s" for n
    using that k
    by (simp add: ring_index_mod [OF assms] read_wrapped_rotate ring_contents_def
        rotate_conv_mod [symmetric, of "unat (rb_read_pos s)" "rb_buffer s", simplified k] min_def)
  then show ?thesis
    by (auto simp: ring_peek_def Let_def copy_at_def)
qed

lemma ring_pop_eq:
  assumes "ring_inv s"
  shows "ring_pop s buf =
    (let n = min (length buf) (ring_len s)
     in (ring_popped s n, copy_at 0 (take n (ring_contents s)) buf, n))"
proof -
  have zero: "ring_popped s 0 = s" by (simp add: ring_popped_def release_def)
  show ?thesis
  proof (cases "min (length buf) (ring_len s) = 0")
    case True
    then show ?thesis by (simp only: ring_pop_def Let_def zero) (simp add: copy_at_def)
  next
    case False
    then have "ring_pop s buf =
        (ring_popped s (min (length buf) (ring_len s)), ring_peek s buf)"
      by (simp only: ring_pop_def ring_peek_def ring_popped_def Let_def if_False)
    with assms show ?thesis by (simp add: ring_peek_eq Let_def)
  qed
qed

lemma ring_len_popped:
  assumes "n \<le> ring_len s"
  shows "ring_len (ring_popped s n) = ring_len s - n"
proof -
  have u: "unat (of_nat n :: u64) = n"
    using assms unat_u64_less [of "rb_write_pos s - rb_read_pos s"]
    by (simp add: ring_len_def unat_of_nat_small)
  have "ring_len (ring_popped s n) = unat ((rb_write_pos s - rb_read_pos s) - of_nat n)"
    by (simp add: ring_len_def ring_popped_def algebra_simps)
  also have "\<dots> = ring_len s - n"
    using assms u by (simp add: ring_len_def unat_sub word_le_nat_alt)
  finally show ?thesis .
qed

lemma ring_contents_popped:
  assumes inv: "ring_inv s" and n: "n \<le> ring_len s"
  shows "ring_contents (ring_popped s n) = drop n (ring_contents s)"
proof -
  from inv obtain k where k: "k < 32" "rb_capacity s = 2 ^ k" "length (rb_buffer s) = 2 ^ k"
    "ring_len s \<le> 2 ^ k" "rb_capacity s dvd 2 ^ 64" by (rule ring_invE)
  have "n \<le> 2147483648" using n k pow2_bound [of k] by simp
  then have u: "unat (of_nat n :: u64) = n" by (simp add: unat_of_nat_small)
  let ?r = "unat (rb_read_pos s)"
  have "unat (rb_read_pos s + of_nat n) = (?r + n) mod 2 ^ 64"
    by (simp only: unat_add_u64 u)
  then have "unat (rb_read_pos s + of_nat n) mod 2 ^ k = (?r + n) mod 2 ^ k"
    using k by (simp only: mod_mod_cancel)
  then have "rotate (unat (rb_read_pos s + of_nat n)) (rb_buffer s) = rotate (n + ?r) (rb_buffer s)"
    using k by (metis rotate_conv_mod add.commute)
  also have "\<dots> = rotate n (rotate ?r (rb_buffer s))" by (simp only: rotate_rotate)
  finally have rot: "rotate (unat (rb_read_pos s + of_nat n)) (rb_buffer s) =
      rotate n (rotate ?r (rb_buffer s))" .
  have "take (ring_len s - n) (rotate n ys) = drop n (take (ring_len s) ys)"
    if "length ys = 2 ^ k" for ys :: bytes
    using that n k by (cases "n = 2 ^ k") (auto simp: rotate_drop_take drop_take)
  then show ?thesis
    using k n by (simp add: ring_contents_def ring_len_popped) (simp add: ring_popped_def rot)
qed

lemma ring_release:
  assumes "ring_inv s" and "n \<le> ring_len s"
  shows "unat (release (rb_available s) (of_nat n)) = unat (rb_available s) + n"
proof -
  from assms(1) obtain k where "k < 32" "unat (rb_available s) + ring_len s = 2 ^ k"
    by (rule ring_invE)
  then have "unat (rb_available s) + n \<le> 2147483648"
    using assms(2) pow2_bound [of k] by simp
  then show ?thesis
    by (simp add: release_def unat_add_u32 unat_of_nat_small)
qed

lemma ring_inv_popped:
  assumes "ring_inv s" and "n \<le> ring_len s"
  shows "ring_inv (ring_popped s n)"
  using assms ring_len_popped [OF assms(2)] ring_release [OF assms]
  by (auto simp: ring_inv_def ring_popped_def)

lemma ring_clear_eq_popped:
  assumes "ring_inv s"
  shows "ring_clear s = ring_popped s (ring_len s)"
proof -
  have "(of_nat (ring_len s) :: u64) = rb_write_pos s - rb_read_pos s"
    and "(of_nat (ring_len s) :: u32) = ucast (rb_write_pos s - rb_read_pos s)"
    by (simp_all add: ring_len_def)
  then show ?thesis by (simp add: ring_clear_def ring_popped_def Let_def)
qed

section \<open>A new ring\<close>

lemma pow2_from_spec:
  assumes "0 < p"
  shows "\<exists>j. pow2_from p n = p * 2 ^ j \<and> n \<le> pow2_from p n \<and> (j = 0 \<or> p * 2 ^ j < 2 * n)"
  using assms
proof (induction p n rule: pow2_from.induct)
  case (1 p n)
  show ?case
  proof (cases "n \<le> p")
    case True
    then have "pow2_from p n = p" by (subst pow2_from.simps) simp
    with True show ?thesis by (intro exI [of _ 0]) simp
  next
    case False
    with 1 have "\<exists>j. pow2_from (2 * p) n = 2 * p * 2 ^ j \<and> n \<le> pow2_from (2 * p) n \<and>
        (j = 0 \<or> 2 * p * 2 ^ j < 2 * n)" by simp
    then obtain j where j: "pow2_from (2 * p) n = 2 * p * 2 ^ j" "n \<le> pow2_from (2 * p) n"
      "j = 0 \<or> 2 * p * 2 ^ j < 2 * n" by blast
    have "pow2_from p n = pow2_from (2 * p) n"
      using False 1 by (subst pow2_from.simps) simp
    with j False show ?thesis by (intro exI [of _ "Suc j"]) auto
  qed
qed

lemma ring_new_capacity:
  assumes "requested \<le> 2 ^ 31"
  obtains k where "4 \<le> k" "k < 32" "rb_capacity (ring_new requested) = 2 ^ k"
    "requested \<le> 2 ^ k"
proof -
  obtain j where j: "pow2_from 1 requested = 2 ^ j" "requested \<le> 2 ^ j"
    "j = 0 \<or> (2 :: nat) ^ j < 2 * requested"
    using pow2_from_spec [OF zero_less_one, of requested] by (metis mult_1)
  have "j < 32"
  proof (rule ccontr)
    assume "\<not> j < 32"
    then have "(2 :: nat) ^ 32 \<le> 2 ^ j" by (intro power_increasing) auto
    with j(3) assms \<open>\<not> j < 32\<close> show False by auto
  qed
  have "(16 :: nat) = 2 ^ 4" by simp
  then have "max (2 ^ j) 16 = (2 :: nat) ^ max j 4"
    by (simp only: max_def power_increasing_iff [of 2] split: if_splits)
      (simp add: power_increasing_iff)
  then have "rb_capacity (ring_new requested) = 2 ^ max j 4"
    by (simp add: ring_new_def Let_def j(1) [simplified])
  moreover have "requested \<le> 2 ^ max j 4"
    using j(2) by (rule le_trans) (simp add: power_increasing)
  ultimately show ?thesis using that [of "max j 4"] \<open>j < 32\<close> by simp
qed

lemma ring_new_inv:
  assumes "requested \<le> 2 ^ 31"
  shows "ring_inv (ring_new requested)"
proof -
  obtain k where k: "4 \<le> k" "k < 32" "rb_capacity (ring_new requested) = 2 ^ k"
    using assms by (rule ring_new_capacity)
  let ?cap = "max (pow2_from 1 requested) 16"
  have cap: "?cap = 2 ^ k" using k(3) by (simp add: ring_new_def Let_def)
  have "ring_len (ring_new requested) = 0"
    by (simp add: ring_len_def ring_new_def Let_def)
  moreover have "unat (of_nat ?cap :: u32) = ?cap"
    using pow2_bound [OF k(2)] by (simp only: cap, intro unat_of_nat_small) simp
  ultimately show ?thesis
    using k by (auto simp: ring_inv_def) (auto simp: ring_new_def Let_def)
qed

lemma ring_new_empty: "ring_contents (ring_new requested) = []"
  by (simp add: ring_contents_def ring_len_def ring_new_def Let_def)

section \<open>Refinement of a bounded byte queue\<close>

text \<open>The specification has no positions, no mask and no backpressure counter: a capacity and the
  queued bytes.\<close>

datatype ring_op = OpPush bytes | OpPop bytes | OpPeek bytes | OpClear | OpSizes

datatype ring_out = PushOut "dcp_error + unit" | ReadOut bytes nat | ClearOut
  | SizesOut nat nat bool bool

fun ring_step :: "ring \<Rightarrow> ring_op \<Rightarrow> ring \<times> ring_out" where
  "ring_step s (OpPush data) = (case ring_push s data of (s', r) \<Rightarrow> (s', PushOut r))"
| "ring_step s (OpPop buf) = (case ring_pop s buf of (s', out, n) \<Rightarrow> (s', ReadOut out n))"
| "ring_step s (OpPeek buf) = (case ring_peek s buf of (out, n) \<Rightarrow> (s, ReadOut out n))"
| "ring_step s OpClear = (ring_clear s, ClearOut)"
| "ring_step s OpSizes =
     (s, SizesOut (ring_len s) (available_space s) (ring_is_empty s) (ring_is_full s))"

type_synonym byte_queue = "nat \<times> bytes"

fun queue_step :: "byte_queue \<Rightarrow> ring_op \<Rightarrow> byte_queue \<times> ring_out" where
  "queue_step (cap, q) (OpPush data) =
     (if cap < length data then ((cap, q), PushOut (Inl OutOfBounds))
      else if cap < length q + length data then ((cap, q), PushOut (Inl Backpressure))
      else ((cap, q @ data), PushOut (Inr ())))"
| "queue_step (cap, q) (OpPop buf) =
     (let n = min (length buf) (length q)
      in ((cap, drop n q), ReadOut (take n q @ drop n buf) n))"
| "queue_step (cap, q) (OpPeek buf) =
     (let n = min (length buf) (length q) in ((cap, q), ReadOut (take n q @ drop n buf) n))"
| "queue_step (cap, q) OpClear = ((cap, []), ClearOut)"
| "queue_step (cap, q) OpSizes =
     ((cap, q), SizesOut (length q) (cap - length q) (q = []) (length q = cap))"

definition ring_abs :: "ring \<Rightarrow> byte_queue" where
  "ring_abs s = (rb_capacity s, ring_contents s)"

lemma ring_capacity_const [simp]:
  "rb_capacity (ring_pushed s data) = rb_capacity s" "rb_capacity (ring_popped s n) = rb_capacity s"
  by (simp_all add: ring_pushed_def ring_popped_def)

lemma ring_full_iff: "ring_inv s \<Longrightarrow> ring_is_full s \<longleftrightarrow> ring_len s = rb_capacity s"
  by (auto simp: ring_inv_def ring_is_full_def unat_eq_zero [symmetric])

lemma ring_len_capacity: "ring_inv s \<Longrightarrow> ring_len s \<le> rb_capacity s"
  by (auto simp: ring_inv_def)

lemmas ring_op_facts = ring_push_cases ring_pop_eq ring_peek_eq ring_clear_eq_popped
  ring_inv_pushed ring_inv_popped ring_contents_pushed ring_contents_popped

lemma ring_step_inv: "ring_inv s \<Longrightarrow> ring_inv (fst (ring_step s a))"
  by (cases a) (auto simp: ring_op_facts Let_def)

lemma ring_step_refines:
  assumes "ring_inv s"
  shows "queue_step (ring_abs s) a = (ring_abs (fst (ring_step s a)), snd (ring_step s a))"
proof (cases a)
  case (OpPush data)
  with assms ring_len_capacity [OF assms] show ?thesis
    by (auto simp: ring_abs_def ring_op_facts available_space_def)
next
  case (OpPop buf)
  with assms show ?thesis by (simp add: ring_abs_def ring_op_facts Let_def copy_at_def min_def)
next
  case (OpPeek buf)
  with assms show ?thesis by (simp add: ring_abs_def ring_op_facts Let_def copy_at_def min_def)
next
  case OpClear
  with assms show ?thesis by (simp add: ring_abs_def ring_op_facts)
next
  case OpSizes
  have "ring_contents s = [] \<longleftrightarrow> ring_len s = 0"
    using assms by (simp flip: length_0_conv)
  with OpSizes assms show ?thesis
    by (auto simp: ring_abs_def ring_full_iff available_space_def ring_is_empty_def)
qed

interpretation ring_machine: refinement_machine ring_step ring_inv ring_abs queue_step
  by unfold_locales (simp_all add: ring_step_inv ring_step_refines)

text \<open>The contract framing layers build on.\<close>

interpretation ring_fifo: byte_fifo ring_push ring_peek ring_pop ring_contents available_space
  ring_inv
proof
  show "\<exists>s'. ring_push s d = (s', Inr ()) \<and> ring_inv s' \<and> ring_contents s' = ring_contents s @ d \<and>
      available_space s' = available_space s - length d"
    if "ring_inv s" and "length d \<le> available_space s" for s d
    using that by (intro exI [of _ "ring_pushed s d"])
      (simp add: ring_push_ok ring_op_facts available_space_def ring_len_pushed)
  show "ring_peek s buf = (take (length buf) (ring_contents s), length buf)"
    if "ring_inv s" and "length buf \<le> length (ring_contents s)" for s buf
    using that by (simp add: ring_peek_eq Let_def copy_at_def min_def)
  show "snd (ring_peek s buf) = length (ring_contents s)"
    if "ring_inv s" and "length (ring_contents s) < length buf" for s buf
    using that by (simp add: ring_peek_eq Let_def)
  show "\<exists>s'. ring_pop s buf = (s', take (length buf) (ring_contents s), length buf) \<and>
      ring_inv s' \<and> ring_contents s' = drop (length buf) (ring_contents s) \<and>
      available_space s' = available_space s + length buf"
    if "ring_inv s" and "length buf \<le> length (ring_contents s)" for s buf
    using that ring_len_capacity [OF that(1)]
    by (intro exI [of _ "ring_popped s (length buf)"])
      (simp add: ring_op_facts Let_def copy_at_def min_def available_space_def ring_len_popped)
qed

text \<open>C13: Ring buffer against its specification. A ring created for any requested capacity up to
  2 GiB answers every sequence of push, pop, peek, clear and size queries exactly as a bounded
  FIFO byte queue of the rounded-up capacity does: contents, counts, \<open>Backpressure\<close> and
  \<open>OutOfBounds\<close> errors, wrap-around of the 64-bit positions included.\<close>

theorem ring_buffer_refines_queue:
  assumes "requested \<le> 2 ^ 31"
  shows "run_outs ring_step (ring_new requested) ops =
         run_outs queue_step (max (pow2_from 1 requested) 16, []) ops"
proof -
  have "ring_abs (ring_new requested) = (max (pow2_from 1 requested) 16, [])"
    by (simp add: ring_abs_def ring_new_empty) (simp add: ring_new_def Let_def)
  then show ?thesis
    using ring_new_inv [OF assms] by (intro ring_machine.run_outputs) simp
qed

lemma ring_buffer_refines_queue_witness:
  "run_outs ring_step (ring_new 5) [OpPush [1, 2, 3], OpPop [0, 0], OpSizes] =
     [PushOut (Inr ()), ReadOut [1, 2] 2, SizesOut 1 15 False False]"
proof -
  have "max (pow2_from 1 5) 16 = (16 :: nat)" by (simp add: pow2_from.simps)
  then show ?thesis
    using ring_buffer_refines_queue [of 5 "[OpPush [1, 2, 3], OpPop [0, 0], OpSizes]"] by simp
qed

end
