(* ===== verification/Dcp_Stream.thy ===== *)
theory Dcp_Stream
  imports Ring_Buffer Stream_Chunk
begin

text \<open>
  The chunked stream of \<open>src/src/stream/dcp_stream.rs\<close>: framing over the ring buffer, sequence
  numbers, completion and the running checksum. The incremental hasher of the \<open>blake3\<close> crate is a
  parameter (a start state and an update function on a state type \<open>'h\<close>). The stream refines a
  queue of whole frames.
\<close>

section \<open>State and operations\<close>

record 'h stream =
  st_buffer :: ring
  st_hasher :: 'h
  st_next_seq :: u32
  st_send_seq :: u32
  st_stream_id :: u32
  st_complete :: bool

definition stream_new :: "'h \<Rightarrow> u32 \<Rightarrow> nat \<Rightarrow> 'h stream" where
  "stream_new h0 stream_id capacity =
     \<lparr>st_buffer = ring_new capacity, st_hasher = h0, st_next_seq = 0, st_send_seq = 0,
      st_stream_id = stream_id, st_complete = False\<rparr>"

definition chunk_flags_for :: "u32 \<Rightarrow> bool \<Rightarrow> u8" where
  "chunk_flags_for seq is_last =
     (let is_first = (seq = 0)
      in if is_first \<and> is_last then FIRST OR LAST
         else if is_first then FIRST
         else if is_last then LAST
         else CONTINUE)"

definition write_chunk ::
  "('h \<Rightarrow> bytes \<Rightarrow> 'h) \<Rightarrow> 'h stream \<Rightarrow> bytes \<Rightarrow> bool \<Rightarrow> 'h stream \<times> (dcp_error + chunk)" where
  "write_chunk upd s data is_last =
     (if st_complete s then (s, Inl ValidationFailed)
      else if length data > 65535 then (s, Inl OutOfBounds)
      else case usize_checked_add CHUNK_SIZE (length data) of
        None \<Rightarrow> (s, Inl OutOfBounds)
      | Some total_len \<Rightarrow>
          if available_space (st_buffer s) < total_len then (s, Inl Backpressure)
          else
            let seq = st_send_seq s;
                s1 = s\<lparr>st_send_seq := seq + 1\<rparr>;
                chunk = chunk_new seq (chunk_flags_for seq is_last) (of_nat (length data))
            in case ring_push (st_buffer s1) (chunk_as_bytes chunk) of
                 (b1, Inl e) \<Rightarrow> (s1\<lparr>st_buffer := b1\<rparr>, Inl e)
               | (b1, Inr _) \<Rightarrow>
                   (case (if data \<noteq> [] then ring_push b1 data else (b1, Inr ())) of
                      (b2, Inl e) \<Rightarrow> (s1\<lparr>st_buffer := b2\<rparr>, Inl e)
                    | (b2, Inr _) \<Rightarrow>
                        (s1\<lparr>st_buffer := b2, st_hasher := upd (st_hasher s1) data,
                            st_complete := (if is_last then True else st_complete s1)\<rparr>,
                         Inr chunk)))"

definition read_chunk :: "'h stream \<Rightarrow> 'h stream \<times> (dcp_error + (chunk \<times> bytes) option)" where
  "read_chunk s =
     (case ring_peek (st_buffer s) (replicate CHUNK_SIZE 0) of
        (header_buf, peeked) \<Rightarrow>
          if peeked < CHUNK_SIZE then (s, Inr None)
          else case chunk_from_bytes header_buf of
            Inl e \<Rightarrow> (s, Inl e)
          | Inr chunk \<Rightarrow>
              let total_len = CHUNK_SIZE + unat (ck_len chunk) in
              if ring_len (st_buffer s) < total_len then (s, Inr None)
              else if ck_sequence chunk \<noteq> st_next_seq s then (s, Inl ChecksumMismatch)
              else case ring_pop (st_buffer s) (replicate total_len 0) of
                (b1, full_buf, _) \<Rightarrow>
                  (s\<lparr>st_buffer := b1, st_next_seq := st_next_seq s + 1\<rparr>,
                   Inr (Some (chunk_new (ck_sequence chunk) (ck_flags chunk) (ck_len chunk),
                              drop CHUNK_SIZE full_buf))))"

definition stream_checksum :: "('h \<Rightarrow> bytes) \<Rightarrow> 'h stream \<Rightarrow> bytes" where
  "stream_checksum fin s = fin (st_hasher s)"

definition stream_verify_checksum :: "('h \<Rightarrow> bytes) \<Rightarrow> 'h stream \<Rightarrow> bytes \<Rightarrow> bool" where
  "stream_verify_checksum fin s expected \<longleftrightarrow> stream_checksum fin s = expected"

record retransmit_request =
  rt_start_seq :: u32
  rt_count :: u32

definition request_retransmit :: "'h stream \<Rightarrow> u32 \<Rightarrow> retransmit_request" where
  "request_retransmit s missing_seq =
     (let expected = st_next_seq s
      in \<lparr>rt_start_seq = expected,
          rt_count = (if missing_seq < expected then 0 else missing_seq - expected) + 1\<rparr>)"

definition stream_reset :: "'h \<Rightarrow> 'h stream \<Rightarrow> 'h stream" where
  "stream_reset h0 s =
     s\<lparr>st_buffer := ring_clear (st_buffer s), st_next_seq := 0, st_send_seq := 0,
       st_complete := False, st_hasher := h0\<rparr>"

section \<open>The specification: a queue of frames\<close>

record 'h frames =
  fr_room :: nat
  fr_pending :: "(chunk \<times> bytes) list"
  fr_hasher :: 'h
  fr_next :: u32
  fr_complete :: bool

definition frame_bytes :: "chunk \<times> bytes \<Rightarrow> bytes" where
  "frame_bytes f = chunk_as_bytes (fst f) @ snd f"

definition frames_send :: "'h frames \<Rightarrow> u32" where
  "frames_send t = fr_next t + of_nat (length (fr_pending t))"

definition frames_cost :: "(chunk \<times> bytes) list \<Rightarrow> nat" where
  "frames_cost fs = sum_list (map (\<lambda>f. CHUNK_SIZE + length (snd f)) fs)"

datatype stream_op = SWrite bytes bool | SRead | SRetransmit u32 | SReset | SChecksum

datatype stream_out = WriteOut "dcp_error + chunk"
  | ReadChunkOut "dcp_error + (chunk \<times> bytes) option"
  | RetransmitOut retransmit_request
  | ResetOut
  | ChecksumOut bytes

fun stream_step ::
  "'h \<Rightarrow> ('h \<Rightarrow> bytes \<Rightarrow> 'h) \<Rightarrow> ('h \<Rightarrow> bytes) \<Rightarrow> 'h stream \<Rightarrow> stream_op \<Rightarrow> 'h stream \<times> stream_out"
where
  "stream_step h0 upd fin s (SWrite data is_last) =
     (case write_chunk upd s data is_last of (s', r) \<Rightarrow> (s', WriteOut r))"
| "stream_step h0 upd fin s SRead = (case read_chunk s of (s', r) \<Rightarrow> (s', ReadChunkOut r))"
| "stream_step h0 upd fin s (SRetransmit n) = (s, RetransmitOut (request_retransmit s n))"
| "stream_step h0 upd fin s SReset = (stream_reset h0 s, ResetOut)"
| "stream_step h0 upd fin s SChecksum = (s, ChecksumOut (stream_checksum fin s))"

fun frames_step ::
  "'h \<Rightarrow> ('h \<Rightarrow> bytes \<Rightarrow> 'h) \<Rightarrow> ('h \<Rightarrow> bytes) \<Rightarrow> 'h frames \<Rightarrow> stream_op \<Rightarrow> 'h frames \<times> stream_out"
where
  "frames_step h0 upd fin t (SWrite data is_last) =
     (if fr_complete t then (t, WriteOut (Inl ValidationFailed))
      else if 65535 < length data then (t, WriteOut (Inl OutOfBounds))
      else if fr_room t < CHUNK_SIZE + length data then (t, WriteOut (Inl Backpressure))
      else let seq = frames_send t;
               c = chunk_new seq (chunk_flags_for seq is_last) (of_nat (length data))
           in (t\<lparr>fr_room := fr_room t - (CHUNK_SIZE + length data),
                 fr_pending := fr_pending t @ [(c, data)],
                 fr_hasher := upd (fr_hasher t) data,
                 fr_complete := is_last\<rparr>, WriteOut (Inr c)))"
| "frames_step h0 upd fin t SRead =
     (case fr_pending t of
        [] \<Rightarrow> (t, ReadChunkOut (Inr None))
      | f # fs \<Rightarrow>
          (t\<lparr>fr_room := fr_room t + (CHUNK_SIZE + length (snd f)), fr_pending := fs,
             fr_next := fr_next t + 1\<rparr>, ReadChunkOut (Inr (Some f))))"
| "frames_step h0 upd fin t (SRetransmit n) =
     (t, RetransmitOut \<lparr>rt_start_seq = fr_next t,
                        rt_count = (if n < fr_next t then 0 else n - fr_next t) + 1\<rparr>)"
| "frames_step h0 upd fin t SReset =
     (t\<lparr>fr_room := fr_room t + frames_cost (fr_pending t), fr_pending := [], fr_hasher := h0,
        fr_next := 0, fr_complete := False\<rparr>, ResetOut)"
| "frames_step h0 upd fin t SChecksum = (t, ChecksumOut (fin (fr_hasher t)))"

text \<open>The pending frames carry consecutive sequence numbers, flags the parser accepts, and their
  own lengths.\<close>

fun frames_ok :: "u32 \<Rightarrow> (chunk \<times> bytes) list \<Rightarrow> bool" where
  "frames_ok n [] \<longleftrightarrow> True"
| "frames_ok n (f # fs) \<longleftrightarrow>
     ck_sequence (fst f) = n \<and> valid_chunk_flags (ck_flags (fst f)) \<and>
     unat (ck_len (fst f)) = length (snd f) \<and> frames_ok (n + 1) fs"

definition stream_rel :: "'h stream \<Rightarrow> 'h frames \<Rightarrow> bool" where
  "stream_rel s t \<longleftrightarrow>
     ring_inv (st_buffer s) \<and> ring_contents (st_buffer s) = concat (map frame_bytes (fr_pending t)) \<and>
     available_space (st_buffer s) = fr_room t \<and> frames_ok (fr_next t) (fr_pending t) \<and>
     st_hasher s = fr_hasher t \<and> st_next_seq s = fr_next t \<and> st_send_seq s = frames_send t \<and>
     st_complete s = fr_complete t"

section \<open>Simulation\<close>

lemma valid_chunk_flags_for: "valid_chunk_flags (chunk_flags_for seq is_last)"
  by (simp add: chunk_flags_for_def valid_chunk_flags_iff Let_def)

lemma frames_ok_append:
  "frames_ok n (fs @ gs) \<longleftrightarrow> frames_ok n fs \<and> frames_ok (n + of_nat (length fs)) gs"
  by (induction fs arbitrary: n) (auto simp: algebra_simps)

lemma length_frame_bytes: "length (frame_bytes f) = CHUNK_SIZE + length (snd f)"
  by (simp add: frame_bytes_def CHUNK_SIZE_def)

lemma length_frames: "length (concat (map frame_bytes fs)) = frames_cost fs"
  by (induction fs) (simp_all add: frames_cost_def length_frame_bytes)

lemma stream_relD:
  assumes "stream_rel s t"
  shows "ring_inv (st_buffer s)" "ring_contents (st_buffer s) = concat (map frame_bytes (fr_pending t))"
    "available_space (st_buffer s) = fr_room t" "frames_ok (fr_next t) (fr_pending t)"
    "st_hasher s = fr_hasher t" "st_next_seq s = fr_next t" "st_send_seq s = frames_send t"
    "st_complete s = fr_complete t"
  using assms by (simp_all add: stream_rel_def)

lemma ring_push_nil: "ring_inv b \<Longrightarrow> ring_push b [] = (ring_pushed b [], Inr ())"
  by (simp add: ring_push_ok)

lemma ring_pushed_nil: "ring_inv b \<Longrightarrow> ring_pushed b [] = b"
  by (simp add: ring_pushed_def write_wrapped_def copy_at_def Let_def)

text \<open>A write the checks let through pushes the whole frame.\<close>

lemma write_chunk_frame:
  fixes is_last :: bool
  assumes "ring_inv (st_buffer s)" and "\<not> st_complete s" and "length data \<le> 65535"
    and "CHUNK_SIZE + length data \<le> available_space (st_buffer s)"
  defines "c \<equiv> chunk_new (st_send_seq s) (chunk_flags_for (st_send_seq s) is_last)
      (of_nat (length data))"
  obtains b where "write_chunk upd s data is_last =
      (s\<lparr>st_send_seq := st_send_seq s + 1, st_buffer := b, st_hasher := upd (st_hasher s) data,
         st_complete := is_last\<rparr>, Inr c)"
    and "ring_inv b" and "ring_contents b = ring_contents (st_buffer s) @ frame_bytes (c, data)"
    and "available_space b = available_space (st_buffer s) - (CHUNK_SIZE + length data)"
proof -
  have "length (chunk_as_bytes c) + length data \<le> available_space (st_buffer s)"
    using assms(4) by (simp add: CHUNK_SIZE_def)
  with assms(1) obtain b1 b2 where b:
    "ring_push (st_buffer s) (chunk_as_bytes c) = (b1, Inr ())"
    "ring_push b1 data = (b2, Inr ())" "ring_inv b1" "ring_inv b2"
    "ring_contents b2 = ring_contents (st_buffer s) @ chunk_as_bytes c @ data"
    "available_space b2 = available_space (st_buffer s) - (length (chunk_as_bytes c) + length data)"
    by (rule ring_fifo.push_frame)
  have "(if data \<noteq> [] then ring_push b1 data else (b1, Inr ())) = (b2, Inr ())"
    using b(2,3) by (auto simp: ring_push_nil ring_pushed_nil)
  moreover have "usize_checked_add CHUNK_SIZE (length data) = Some (CHUNK_SIZE + length data)"
    using assms(3) by (simp add: usize_checked_add_def CHUNK_SIZE_def)
  ultimately have "write_chunk upd s data is_last =
      (s\<lparr>st_send_seq := st_send_seq s + 1, st_buffer := b2, st_hasher := upd (st_hasher s) data,
         st_complete := is_last\<rparr>, Inr c)"
    using assms(2-4) b(1) by (simp add: write_chunk_def Let_def c_def)
  with that [of b2] b show ?thesis by (simp add: frame_bytes_def CHUNK_SIZE_def)
qed

lemma write_chunk_refused:
  assumes "st_complete s \<or> 65535 < length data \<or>
    available_space (st_buffer s) < CHUNK_SIZE + length data"
  shows "write_chunk upd s data is_last =
    (s, Inl (if st_complete s then ValidationFailed
             else if 65535 < length data then OutOfBounds else Backpressure))"
  using assms by (auto simp: write_chunk_def usize_checked_add_def CHUNK_SIZE_def Let_def)

lemma read_chunk_empty:
  assumes "ring_inv (st_buffer s)" and "ring_contents (st_buffer s) = []"
  shows "read_chunk s = (s, Inr None)"
  using assms ring_fifo.peek_short [of "st_buffer s" "replicate CHUNK_SIZE 0"]
  by (auto simp: read_chunk_def CHUNK_SIZE_def split: prod.splits)

lemma read_chunk_frame:
  assumes inv: "ring_inv (st_buffer s)" and con: "ring_contents (st_buffer s) = frame_bytes f @ rest"
    and "ck_sequence (fst f) = st_next_seq s" and "valid_chunk_flags (ck_flags (fst f))"
    and len: "unat (ck_len (fst f)) = length (snd f)"
  obtains b where "read_chunk s =
      (s\<lparr>st_buffer := b, st_next_seq := st_next_seq s + 1\<rparr>, Inr (Some f))"
    and "ring_inv b" and "ring_contents b = rest"
    and "available_space b = available_space (st_buffer s) + (CHUNK_SIZE + length (snd f))"
proof -
  have peek: "ring_peek (st_buffer s) (replicate CHUNK_SIZE 0) =
      (chunk_as_bytes (fst f), CHUNK_SIZE)"
    using ring_fifo.peek_header [OF inv, of "chunk_as_bytes (fst f)" "snd f @ rest"] con
    by (simp add: frame_bytes_def CHUNK_SIZE_def)
  have parse: "chunk_from_bytes (chunk_as_bytes (fst f)) = Inr (fst f)"
    using assms(4) by (simp add: chunk_from_bytes_eq_Inr)
  from inv con obtain b where b:
    "ring_pop (st_buffer s) (replicate (length (frame_bytes f)) 0) =
       (b, frame_bytes f, length (frame_bytes f))" "ring_inv b" "ring_contents b = rest"
    "available_space b = available_space (st_buffer s) + length (frame_bytes f)"
    by (rule ring_fifo.pop_frame)
  have same: "(chunk_new (st_next_seq s) (ck_flags (fst f)) (ck_len (fst f)), snd f) = f"
    by (cases f) (simp add: chunk_new_def flip: assms(3))
  have "ring_len (st_buffer s) = length (frame_bytes f) + length rest"
    using inv con by (simp flip: length_ring_contents)
  then have "read_chunk s = (s\<lparr>st_buffer := b, st_next_seq := st_next_seq s + 1\<rparr>, Inr (Some f))"
    using b(1) assms(3) len
    by (simp add: read_chunk_def peek parse length_frame_bytes same Let_def)
      (simp add: same frame_bytes_def CHUNK_SIZE_def)
  with that [of b] b show ?thesis by (simp add: length_frame_bytes)
qed

lemma ring_cleared:
  assumes "ring_inv b"
  shows "ring_inv (ring_clear b)" and "ring_contents (ring_clear b) = []"
    and "available_space (ring_clear b) = available_space b + length (ring_contents b)"
  using assms ring_len_capacity [of b]
  by (simp_all add: ring_op_facts available_space_def ring_len_popped)

lemma stream_write_simulates:
  assumes rel: "stream_rel s t"
  shows "stream_rel (fst (write_chunk upd s data is_last))
           (fst (frames_step h0 upd fin t (SWrite data is_last)))"
    and "WriteOut (snd (write_chunk upd s data is_last)) =
           snd (frames_step h0 upd fin t (SWrite data is_last))"
proof -
  note R = stream_relD [OF rel]
  consider (refused) "st_complete s \<or> 65535 < length data \<or>
      available_space (st_buffer s) < CHUNK_SIZE + length data"
    | (written) "\<not> st_complete s" "length data \<le> 65535"
      "CHUNK_SIZE + length data \<le> available_space (st_buffer s)"
    by linarith
  then have "stream_rel (fst (write_chunk upd s data is_last))
        (fst (frames_step h0 upd fin t (SWrite data is_last))) \<and>
      WriteOut (snd (write_chunk upd s data is_last)) =
        snd (frames_step h0 upd fin t (SWrite data is_last))"
  proof cases
    case refused
    from write_chunk_refused [OF this] refused show ?thesis
      using R rel by auto
  next
    case written
    then obtain b where b: "write_chunk upd s data is_last =
        (s\<lparr>st_send_seq := st_send_seq s + 1, st_buffer := b, st_hasher := upd (st_hasher s) data,
           st_complete := is_last\<rparr>,
         Inr (chunk_new (st_send_seq s) (chunk_flags_for (st_send_seq s) is_last)
               (of_nat (length data))))"
      "ring_inv b" "ring_contents b = ring_contents (st_buffer s) @
         frame_bytes (chunk_new (st_send_seq s) (chunk_flags_for (st_send_seq s) is_last)
               (of_nat (length data)), data)"
      "available_space b = available_space (st_buffer s) - (CHUNK_SIZE + length data)"
      using R(1) by (rule_tac write_chunk_frame [of s data upd is_last])
    have "unat (of_nat (length data) :: u16) = length data"
      using written by (simp add: unat_of_nat_small)
    then show ?thesis
      using written b R
      by (auto simp: stream_rel_def frames_ok_append chunk_new_def valid_chunk_flags_for Let_def)
        (simp_all add: frames_send_def algebra_simps)
  qed
  then show "stream_rel (fst (write_chunk upd s data is_last))
           (fst (frames_step h0 upd fin t (SWrite data is_last)))"
    and "WriteOut (snd (write_chunk upd s data is_last)) =
           snd (frames_step h0 upd fin t (SWrite data is_last))" by simp_all
qed

lemma stream_read_simulates:
  assumes rel: "stream_rel s t"
  shows "stream_rel (fst (read_chunk s)) (fst (frames_step h0 upd fin t SRead)) \<and>
    ReadChunkOut (snd (read_chunk s)) = snd (frames_step h0 upd fin t SRead)"
proof (cases "fr_pending t")
  case Nil
  then show ?thesis using rel stream_relD [OF rel] by (simp add: read_chunk_empty)
next
  case (Cons f fs)
  note R = stream_relD [OF rel]
  from R(4) Cons have f: "ck_sequence (fst f) = st_next_seq s" "valid_chunk_flags (ck_flags (fst f))"
    "unat (ck_len (fst f)) = length (snd f)" and fs: "frames_ok (fr_next t + 1) fs"
    using R(6) by simp_all
  from R(2) Cons have "ring_contents (st_buffer s) = frame_bytes f @ concat (map frame_bytes fs)"
    by simp
  with R(1) f obtain b where "read_chunk s =
      (s\<lparr>st_buffer := b, st_next_seq := st_next_seq s + 1\<rparr>, Inr (Some f))"
    "ring_inv b" "ring_contents b = concat (map frame_bytes fs)"
    "available_space b = available_space (st_buffer s) + (CHUNK_SIZE + length (snd f))"
    by (rule_tac read_chunk_frame [of s f])
  with R fs Cons show ?thesis
    by (simp add: stream_rel_def) (simp add: frames_send_def algebra_simps)
qed

lemma stream_reset_simulates:
  assumes rel: "stream_rel s t"
  shows "stream_rel (stream_reset h0 s) (fst (frames_step h0 upd fin t SReset))"
  using stream_relD [OF rel]
  by (simp add: stream_rel_def stream_reset_def ring_cleared frames_send_def length_frames)

lemma stream_step_simulates:
  assumes rel: "stream_rel s t"
  shows "stream_rel (fst (stream_step h0 upd fin s a)) (fst (frames_step h0 upd fin t a))"
    and "snd (stream_step h0 upd fin s a) = snd (frames_step h0 upd fin t a)"
proof -
  note R = stream_relD [OF rel]
  have "stream_rel (fst (stream_step h0 upd fin s a)) (fst (frames_step h0 upd fin t a)) \<and>
      snd (stream_step h0 upd fin s a) = snd (frames_step h0 upd fin t a)"
  proof (cases a)
    case (SWrite data is_last)
    show ?thesis
      using stream_write_simulates [OF rel, of upd data is_last h0 fin]
      by (simp only: SWrite stream_step.simps split_beta fst_conv snd_conv simp_thms)
  next
    case SRead
    show ?thesis
      using stream_read_simulates [OF rel, of h0 upd fin]
      by (simp only: SRead stream_step.simps split_beta fst_conv snd_conv simp_thms)
  next
    case SReset
    show ?thesis
      using stream_reset_simulates [OF rel, of h0 upd fin] by (simp add: SReset)
  qed (simp_all add: rel R request_retransmit_def stream_checksum_def Let_def)
  then show "stream_rel (fst (stream_step h0 upd fin s a)) (fst (frames_step h0 upd fin t a))"
    and "snd (stream_step h0 upd fin s a) = snd (frames_step h0 upd fin t a)" by simp_all
qed

interpretation stream_machine: simulation_machine "stream_step h0 upd fin" "frames_step h0 upd fin"
  stream_rel for h0 upd fin
  by unfold_locales (rule stream_step_simulates, assumption)+

definition frames_new :: "'h \<Rightarrow> nat \<Rightarrow> 'h frames" where
  "frames_new h0 capacity =
     \<lparr>fr_room = max (pow2_from 1 capacity) 16, fr_pending = [], fr_hasher = h0, fr_next = 0,
      fr_complete = False\<rparr>"

lemma stream_new_rel: "capacity \<le> 2 ^ 31 \<Longrightarrow> stream_rel (stream_new h0 n capacity) (frames_new h0 capacity)"
  by (simp add: stream_rel_def stream_new_def frames_new_def ring_new_inv ring_new_empty
      frames_send_def available_space_def flip: length_ring_contents)
    (simp add: ring_new_def Let_def)

text \<open>C14: Chunked stream against its specification. A stream over a ring of any requested capacity
  up to 2 GiB answers every sequence of writes, reads, retransmission requests, resets and checksum
  queries exactly as a bounded queue of whole frames: a read returns the oldest unread payload with
  its header or nothing, never an error; a refused write changes nothing; sequence numbers are
  consecutive; the checksum hashes exactly the accepted payloads in order.\<close>

theorem stream_refines_frames:
  assumes "capacity \<le> 2 ^ 31"
  shows "run_outs (stream_step h0 upd fin) (stream_new h0 stream_id capacity) ops =
         run_outs (frames_step h0 upd fin) (frames_new h0 capacity) ops"
  by (rule stream_machine.run_outputs [OF stream_new_rel [OF assms]])

lemma stream_refines_frames_witness:
  "run_outs (stream_step [] (@) id) (stream_new [] 1 20)
     [SWrite [7, 8] False, SRead, SWrite [9] True, SWrite [1] False, SRead, SRead, SChecksum] =
   [WriteOut (Inr (chunk_new 0 FIRST 2)), ReadChunkOut (Inr (Some (chunk_new 0 FIRST 2, [7, 8]))),
    WriteOut (Inr (chunk_new 1 LAST 1)), WriteOut (Inl ValidationFailed),
    ReadChunkOut (Inr (Some (chunk_new 1 LAST 1, [9]))), ReadChunkOut (Inr None),
    ChecksumOut [7, 8, 9]]"
proof -
  have "frames_new ([] :: bytes) 20 =
      \<lparr>fr_room = 32, fr_pending = [], fr_hasher = [], fr_next = 0, fr_complete = False\<rparr>"
    by (simp add: frames_new_def pow2_from.simps)
  then show ?thesis
    by (subst stream_refines_frames)
      (simp_all add: frames_send_def chunk_flags_for_def CHUNK_SIZE_def Let_def)
qed

end
