(* ===== verification/Hash_Map.thy ===== *)
theory Hash_Map
  imports Dcp_Prelude "HOL-Library.AList"
begin

text \<open>
  Hash maps of the Rust code (\<open>HashMap\<close>, \<open>DashMap\<close>) as association lists with distinct keys, with
  the operations the components use. The list order stands for an iteration order the code never
  relies on.
\<close>

type_synonym ('k, 'v) hmap = "('k \<times> 'v) list"

definition hm_get :: "('k, 'v) hmap \<Rightarrow> 'k \<Rightarrow> 'v option" where
  "hm_get m k = map_of m k"

definition hm_contains :: "('k, 'v) hmap \<Rightarrow> 'k \<Rightarrow> bool" where
  "hm_contains m k \<longleftrightarrow> hm_get m k \<noteq> None"

definition hm_insert :: "'k \<Rightarrow> 'v \<Rightarrow> ('k, 'v) hmap \<Rightarrow> ('k, 'v) hmap" where
  "hm_insert k v m = AList.update k v m"

definition hm_remove :: "'k \<Rightarrow> ('k, 'v) hmap \<Rightarrow> ('k, 'v) hmap" where
  "hm_remove k m = AList.delete k m"

definition hm_retain :: "('k \<Rightarrow> 'v \<Rightarrow> bool) \<Rightarrow> ('k, 'v) hmap \<Rightarrow> ('k, 'v) hmap" where
  "hm_retain P m = filter (\<lambda>(k, v). P k v) m"

definition hm_len :: "('k, 'v) hmap \<Rightarrow> nat" where
  "hm_len m = length m"

definition hm_wf :: "('k, 'v) hmap \<Rightarrow> bool" where
  "hm_wf m \<longleftrightarrow> distinct (map fst m)"

section \<open>Lookups\<close>

lemma hm_get_Nil [simp]: "hm_get [] k = None"
  by (simp add: hm_get_def)

lemma hm_get_insert [simp]: "hm_get (hm_insert k v m) j = (if j = k then Some v else hm_get m j)"
  by (simp add: hm_get_def hm_insert_def update_conv')

lemma hm_get_remove [simp]: "hm_get (hm_remove k m) j = (if j = k then None else hm_get m j)"
  by (simp add: hm_get_def hm_remove_def delete_conv')

lemma hm_get_retain:
  "hm_wf m \<Longrightarrow> hm_get (hm_retain P m) k = Option.bind (hm_get m k) (\<lambda>v. if P k v then Some v else None)"
proof (induction m)
  case Nil
  then show ?case by (simp add: hm_get_def hm_retain_def)
next
  case (Cons x m)
  moreover have "map_of (filter (\<lambda>(k, v). P k v) m) (fst x) = None"
    if "fst x \<notin> fst ` set m" using that by (force simp: map_of_eq_None_iff)
  ultimately show ?case
    by (cases x) (auto simp: hm_get_def hm_retain_def hm_wf_def map_of_eq_None_iff
        simp flip: map_of_eq_None_iff)
qed

lemma hm_contains_insert [simp]: "hm_contains (hm_insert k v m) j \<longleftrightarrow> j = k \<or> hm_contains m j"
  by (simp add: hm_contains_def)

lemma hm_contains_remove [simp]: "hm_contains (hm_remove k m) j \<longleftrightarrow> j \<noteq> k \<and> hm_contains m j"
  by (simp add: hm_contains_def)

lemma hm_contains_iff: "hm_contains m k \<longleftrightarrow> k \<in> fst ` set m"
  by (simp add: hm_contains_def hm_get_def map_of_eq_None_iff)

section \<open>Well-formedness and size\<close>

lemma hm_wf_Nil [simp]: "hm_wf []"
  by (simp add: hm_wf_def)

lemma hm_wf_insert [simp, intro]: "hm_wf m \<Longrightarrow> hm_wf (hm_insert k v m)"
  by (simp add: hm_wf_def hm_insert_def distinct_update)

lemma hm_wf_remove [simp, intro]: "hm_wf m \<Longrightarrow> hm_wf (hm_remove k m)"
  by (simp add: hm_wf_def hm_remove_def distinct_delete)

lemma hm_wf_retain [simp, intro]: "hm_wf m \<Longrightarrow> hm_wf (hm_retain P m)"
  unfolding hm_wf_def hm_retain_def by (induction m) auto

lemma hm_len_Nil [simp]: "hm_len [] = 0"
  by (simp add: hm_len_def)

lemma hm_len_insert: "hm_len (hm_insert k v m) = (if hm_contains m k then hm_len m else Suc (hm_len m))"
  by (induction m) (auto simp: hm_len_def hm_insert_def hm_contains_def hm_get_def)

lemma hm_len_insert_le: "hm_len (hm_insert k v m) \<le> Suc (hm_len m)"
  by (simp add: hm_len_insert)

lemma hm_len_insert_present: "hm_get m k = Some w \<Longrightarrow> hm_len (hm_insert k v m) = hm_len m"
  by (simp add: hm_len_insert hm_contains_def)

lemma hm_len_retain: "hm_len (hm_retain P m) \<le> hm_len m"
  by (simp add: hm_len_def hm_retain_def)

lemma hm_len_remove_le: "hm_len (hm_remove k m) \<le> hm_len m"
  by (simp add: hm_len_def hm_remove_def length_delete_le)

lemma hm_len_remove:
  assumes "hm_wf m"
  shows "hm_len (hm_remove k m) = (if hm_contains m k then hm_len m - 1 else hm_len m)"
proof -
  have "hm_len (hm_remove k m) = length (map fst (AList.delete k m))"
    by (simp add: hm_len_def hm_remove_def)
  also have "\<dots> = length (remove1 k (map fst m))"
    using assms by (simp only: delete_keys hm_wf_def distinct_remove1_removeAll)
  finally show ?thesis by (simp add: length_remove1 hm_contains_iff hm_len_def)
qed

lemma hm_get_in_set: "hm_wf m \<Longrightarrow> hm_get m k = Some v \<longleftrightarrow> (k, v) \<in> set m"
  by (simp add: hm_get_def hm_wf_def)

lemma hm_insert_entries: "set (hm_insert k v m) \<subseteq> insert (k, v) (set m)"
  by (induction m) (auto simp: hm_insert_def)

end
