(* ===== verification/Nonce_Store.thy ===== *)
theory Nonce_Store
  imports Wire_Errors Hash_Map
begin

text \<open>
  The replay guard of \<open>src/src/security/replay.rs\<close>. The clock is an argument: \<open>check_nonce\<close> reads it
  once for the expiry test and a second time when it cleans up, so the model takes both readings.
\<close>

section \<open>State and operations\<close>

definition DEFAULT_EXPIRATION_SECS :: u64 where "DEFAULT_EXPIRATION_SECS = 300"
definition DEFAULT_MAX_NONCES :: nat where "DEFAULT_MAX_NONCES = 10000"

record nonce_store =
  ns_nonces :: "(u64, u64) hmap"
  ns_max_nonces :: nat
  ns_expiration_secs :: u64

definition nonce_store_new :: nonce_store where
  "nonce_store_new = \<lparr>ns_nonces = [], ns_max_nonces = DEFAULT_MAX_NONCES,
     ns_expiration_secs = DEFAULT_EXPIRATION_SECS\<rparr>"

definition nonce_store_with_config :: "nat \<Rightarrow> u64 \<Rightarrow> nonce_store" where
  "nonce_store_with_config max_nonces expiration_secs =
     \<lparr>ns_nonces = [], ns_max_nonces = max_nonces, ns_expiration_secs = expiration_secs\<rparr>"

definition nonce_is_expired :: "u64 \<Rightarrow> nonce_store \<Rightarrow> u64 \<Rightarrow> bool" where
  "nonce_is_expired now s timestamp =
     (if timestamp > now then timestamp > now + 60
      else now - timestamp > ns_expiration_secs s)"

definition nonce_cleanup :: "u64 \<Rightarrow> nonce_store \<Rightarrow> nonce_store" where
  "nonce_cleanup now s =
     s\<lparr>ns_nonces := hm_retain (\<lambda>_ ts. (if now < ts then 0 else now - ts) \<le> ns_expiration_secs s)
                      (ns_nonces s)\<rparr>"

definition check_nonce ::
  "u64 \<times> u64 \<Rightarrow> nonce_store \<Rightarrow> u64 \<Rightarrow> u64 \<Rightarrow> nonce_store \<times> (security_error + unit)" where
  "check_nonce clock s nonce timestamp =
     (if nonce_is_expired (fst clock) s timestamp then (s, Inl ExpiredTimestamp)
      else if hm_contains (ns_nonces s) nonce then (s, Inl ReplayAttack)
      else if hm_len (ns_nonces s) \<ge> ns_max_nonces s then
        let s' = nonce_cleanup (snd clock) s
        in if hm_len (ns_nonces s') \<ge> ns_max_nonces s' then (s', Inl CapacityExceeded)
           else (s'\<lparr>ns_nonces := hm_insert nonce timestamp (ns_nonces s')\<rparr>, Inr ())
      else (s\<lparr>ns_nonces := hm_insert nonce timestamp (ns_nonces s)\<rparr>, Inr ()))"

definition nonce_len :: "nonce_store \<Rightarrow> nat" where
  "nonce_len s = hm_len (ns_nonces s)"

definition nonce_clear :: "nonce_store \<Rightarrow> nonce_store" where
  "nonce_clear s = s\<lparr>ns_nonces := []\<rparr>"

section \<open>Bounds\<close>

definition nonce_inv :: "nonce_store \<Rightarrow> bool" where
  "nonce_inv s \<longleftrightarrow> hm_wf (ns_nonces s) \<and> hm_len (ns_nonces s) \<le> ns_max_nonces s"

lemma nonce_cleanup_fields [simp]:
  "ns_max_nonces (nonce_cleanup now s) = ns_max_nonces s"
  "ns_expiration_secs (nonce_cleanup now s) = ns_expiration_secs s"
  by (simp_all add: nonce_cleanup_def)

lemma nonce_inv_cleanup: "nonce_inv s \<Longrightarrow> nonce_inv (nonce_cleanup now s)"
  by (auto simp: nonce_inv_def nonce_cleanup_def intro: le_trans [OF hm_len_retain])

lemma nonce_inv_insert:
  "nonce_inv s \<Longrightarrow> hm_len (ns_nonces s) < ns_max_nonces s \<Longrightarrow>
   nonce_inv (s\<lparr>ns_nonces := hm_insert n t (ns_nonces s)\<rparr>)"
  by (auto simp: nonce_inv_def hm_len_insert)

lemma nonce_inv_check: "nonce_inv s \<Longrightarrow> nonce_inv (fst (check_nonce clock s n t))"
  by (auto simp: check_nonce_def Let_def not_le nonce_inv_insert nonce_inv_cleanup)

section \<open>At most once\<close>

text \<open>A request stream as the guard sees it: clock readings, a nonce and a timestamp. What the
  guard promises a client: an accepted pair is barred from then on.\<close>

locale replay_guard =
  fixes check :: "u64 \<times> u64 \<Rightarrow> 's \<Rightarrow> u64 \<Rightarrow> u64 \<Rightarrow> 's \<times> ('e + unit)"
    and barred :: "u64 \<Rightarrow> 's \<Rightarrow> u64 \<Rightarrow> u64 \<Rightarrow> bool"
    and guard_inv :: "'s \<Rightarrow> bool"
  assumes keeps_inv: "guard_inv s \<Longrightarrow> guard_inv (fst (check c s n t))"
    and accept_bars: "guard_inv s \<Longrightarrow> check c s n t = (s', Inr ()) \<Longrightarrow> fst c \<le> snd c \<Longrightarrow>
      barred (snd c) s' n t"
    and barred_stays: "guard_inv s \<Longrightarrow> barred now s n t \<Longrightarrow> now \<le> fst c \<Longrightarrow> fst c \<le> snd c \<Longrightarrow>
      barred (snd c) (fst (check c s m v)) n t"
    and barred_refuses: "guard_inv s \<Longrightarrow> barred now s n t \<Longrightarrow> now \<le> fst c \<Longrightarrow>
      \<not> is_ok (snd (check c s n t))"
begin

fun accepted :: "'s \<Rightarrow> ((u64 \<times> u64) \<times> u64 \<times> u64) list \<Rightarrow> (u64 \<times> u64) list" where
  "accepted s [] = []"
| "accepted s ((c, n, t) # rs) =
     (case check c s n t of (s', r) \<Rightarrow>
        (if is_ok r then (n, t) # accepted s' rs else accepted s' rs))"

fun clock_ok :: "u64 \<Rightarrow> ((u64 \<times> u64) \<times> u64 \<times> u64) list \<Rightarrow> bool" where
  "clock_ok now [] \<longleftrightarrow> True"
| "clock_ok now ((c, n, t) # rs) \<longleftrightarrow> now \<le> fst c \<and> fst c \<le> snd c \<and> clock_ok (snd c) rs"

lemma barred_not_accepted:
  "guard_inv s \<Longrightarrow> barred now s n t \<Longrightarrow> clock_ok now rs \<Longrightarrow> (n, t) \<notin> set (accepted s rs)"
proof (induction s rs arbitrary: now rule: accepted.induct)
  case (1 s)
  then show ?case by simp
next
  case (2 s c m u rs)
  obtain s' r where step: "check c s m u = (s', r)" by (cases "check c s m u")
  with 2 have "(n, t) \<notin> set (accepted s' rs)"
    using keeps_inv [of s c m u] barred_stays [of s now n t c m u] by auto
  moreover have "(m, u) \<noteq> (n, t)" if "is_ok r"
    using 2 step that barred_refuses [of s now n t c] by auto
  ultimately show ?case using step by auto
qed

lemma accepted_once: "guard_inv s \<Longrightarrow> clock_ok now rs \<Longrightarrow> distinct (accepted s rs)"
proof (induction s rs arbitrary: now rule: accepted.induct)
  case (1 s)
  then show ?case by simp
next
  case (2 s c n t rs)
  obtain s' r where step: "check c s n t = (s', r)" by (cases "check c s n t")
  have inv: "guard_inv s'" using 2(3) step keeps_inv [of s c n t] by simp
  have clock: "fst c \<le> snd c" "clock_ok (snd c) rs" using 2(4) by simp_all
  show ?case
  proof (cases r)
    case (Inl e)
    with 2 step inv clock show ?thesis by simp
  next
    case (Inr u)
    with step have "check c s n t = (s', Inr ())" by simp
    with 2(3) clock have "barred (snd c) s' n t" by (intro accept_bars)
    then have "(n, t) \<notin> set (accepted s' rs)" using inv clock barred_not_accepted by blast
    with 2 step inv clock Inr show ?thesis by simp
  qed
qed

end

text \<open>The store's own bar: the nonce is recorded with its timestamp, or the timestamp has left the
  window for good.\<close>

definition nonce_barred :: "u64 \<Rightarrow> nonce_store \<Rightarrow> u64 \<Rightarrow> u64 \<Rightarrow> bool" where
  "nonce_barred now s n t \<longleftrightarrow>
     hm_get (ns_nonces s) n = Some t \<or> (t \<le> now \<and> ns_expiration_secs s < now - t)"

lemma expired_stays:
  fixes t now :: u64
  assumes "t \<le> now" and "e < now - t" and "now \<le> now'"
  shows "t \<le> now' \<and> e < now' - t"
proof -
  have "t \<le> now'" using assms by simp
  moreover have "unat (now - t) \<le> unat (now' - t)"
    using assms \<open>t \<le> now'\<close> by (simp add: unat_sub word_le_nat_alt)
  ultimately show ?thesis using assms by (simp add: word_less_nat_alt)
qed

lemma nonce_barred_mono: "nonce_barred now s n t \<Longrightarrow> now \<le> now' \<Longrightarrow> nonce_barred now' s n t"
  unfolding nonce_barred_def using expired_stays by blast

lemma nonce_barred_refused:
  assumes "nonce_barred now s n t" and "now \<le> fst c"
  shows "\<not> is_ok (snd (check_nonce c s n t))"
proof -
  from assms have "hm_get (ns_nonces s) n = Some t \<or> nonce_is_expired (fst c) s t"
    using nonce_barred_mono [of now s n t "fst c"]
    by (auto simp: nonce_barred_def nonce_is_expired_def)
  then show ?thesis by (auto simp: check_nonce_def hm_contains_def)
qed

lemma nonce_barred_cleanup:
  assumes "nonce_inv s" and "nonce_barred now s n t"
  shows "nonce_barred now (nonce_cleanup now s) n t"
proof (cases "t \<le> now \<and> ns_expiration_secs s < now - t")
  case True
  then show ?thesis by (simp add: nonce_barred_def)
next
  case False
  with assms have "hm_get (ns_nonces s) n = Some t"
    and "(if now < t then 0 else now - t) \<le> ns_expiration_secs s"
    by (auto simp: nonce_barred_def not_less not_le)
  with assms show ?thesis
    by (simp add: nonce_barred_def nonce_cleanup_def nonce_inv_def hm_get_retain)
qed

lemma nonce_barred_insert:
  "nonce_barred now s n t \<Longrightarrow> m \<noteq> n \<or> hm_get (ns_nonces s) n = None \<Longrightarrow>
   nonce_barred now (s\<lparr>ns_nonces := hm_insert m u (ns_nonces s)\<rparr>) n t"
  by (auto simp: nonce_barred_def)

lemma nonce_barred_check:
  assumes inv: "nonce_inv s" and bar: "nonce_barred now s n t" and "now \<le> fst c" "fst c \<le> snd c"
  shows "nonce_barred (snd c) (fst (check_nonce c s m u)) n t"
proof -
  have b: "nonce_barred (snd c) s n t"
    using nonce_barred_mono [OF bar] assms(3,4) by simp
  then have b': "nonce_barred (snd c) (nonce_cleanup (snd c) s) n t"
    using nonce_barred_cleanup [OF inv] by simp
  have "hm_get (ns_nonces (nonce_cleanup (snd c) s)) m = None" if "\<not> hm_contains (ns_nonces s) m"
    using that inv by (simp add: nonce_cleanup_def hm_get_retain nonce_inv_def hm_contains_def)
  with b b' show ?thesis
    by (cases "m = n") (auto simp: check_nonce_def Let_def hm_contains_def intro: nonce_barred_insert)
qed

interpretation nonce_guard: replay_guard check_nonce nonce_barred nonce_inv
proof
  show "nonce_inv (fst (check_nonce c s n t))" if "nonce_inv s" for c s n t
    using that by (rule nonce_inv_check)
  show "nonce_barred (snd c) s' n t"
    if "nonce_inv s" and "check_nonce c s n t = (s', Inr ())" and "fst c \<le> snd c" for s c n t s'
    using that(2) by (auto simp: check_nonce_def Let_def nonce_barred_def split: if_splits)
  show "nonce_barred (snd c) (fst (check_nonce c s m v)) n t"
    if "nonce_inv s" and "nonce_barred now s n t" and "now \<le> fst c" and "fst c \<le> snd c"
    for s now n t c m v
    using that by (rule nonce_barred_check)
  show "\<not> is_ok (snd (check_nonce c s n t))"
    if "nonce_inv s" and "nonce_barred now s n t" and "now \<le> fst c" for s now n t c
    using that nonce_barred_refused by blast
qed

text \<open>The accepted requests of a store, in order.\<close>

fun nonces_accepted ::
  "nonce_store \<Rightarrow> ((u64 \<times> u64) \<times> u64 \<times> u64) list \<Rightarrow> (u64 \<times> u64) list" where
  "nonces_accepted s [] = []"
| "nonces_accepted s ((c, n, t) # rs) =
     (case check_nonce c s n t of (s', r) \<Rightarrow>
        (if is_ok r then (n, t) # nonces_accepted s' rs else nonces_accepted s' rs))"

fun clock_sorted :: "u64 \<Rightarrow> ((u64 \<times> u64) \<times> u64 \<times> u64) list \<Rightarrow> bool" where
  "clock_sorted now [] \<longleftrightarrow> True"
| "clock_sorted now ((c, n, t) # rs) \<longleftrightarrow>
     now \<le> fst c \<and> fst c \<le> snd c \<and> clock_sorted (snd c) rs"

lemma nonces_accepted_eq: "nonces_accepted s rs = nonce_guard.accepted s rs"
  by (induction s rs rule: nonces_accepted.induct) (simp_all split: prod.split)

lemma clock_sorted_eq: "clock_sorted now rs = nonce_guard.clock_ok now rs"
  by (induction now rs rule: clock_sorted.induct) simp_all

text \<open>Replay protection. Whatever requests arrive, with a clock that never runs backwards,
  the store accepts each pair of nonce and timestamp at most once, across capacity cleanups and
  clock skew; and it never tracks more nonces than its maximum.\<close>

theorem nonce_accepted_at_most_once:
  assumes "clock_sorted now rs"
  shows "distinct (nonces_accepted (nonce_store_with_config max_nonces expiration) rs)"
proof -
  have "nonce_inv (nonce_store_with_config max_nonces expiration)"
    by (simp add: nonce_inv_def nonce_store_with_config_def)
  then show ?thesis
    using assms nonce_guard.accepted_once by (simp add: nonces_accepted_eq clock_sorted_eq)
qed

lemma nonce_accepted_at_most_once_witness:
  "nonces_accepted (nonce_store_with_config 1 10)
     [((100, 100), 7, 95), ((101, 102), 7, 95), ((120, 121), 8, 120), ((121, 122), 7, 95)] =
     [(7, 95), (8, 120)] \<and>
   distinct (nonces_accepted (nonce_store_with_config 1 10)
     [((100, 100), 7, 95), ((101, 102), 7, 95), ((120, 121), 8, 120), ((121, 122), 7, 95)])"
proof
  show "nonces_accepted (nonce_store_with_config 1 10)
     [((100, 100), 7, 95), ((101, 102), 7, 95), ((120, 121), 8, 120), ((121, 122), 7, 95)] =
     [(7, 95), (8, 120)]"
    by code_simp
  show "distinct (nonces_accepted (nonce_store_with_config 1 10)
     [((100, 100), 7, 95), ((101, 102), 7, 95), ((120, 121), 8, 120), ((121, 122), 7, 95)])"
    by (rule nonce_accepted_at_most_once [of 100]) simp
qed

text \<open>Bounded memory of the replay guard. Along any requests the number of tracked nonces stays
  within the configured maximum.\<close>

theorem nonce_store_bounded:
  "nonce_len (run_ops (\<lambda>s (c, n, t). check_nonce c s n t)
     (nonce_store_with_config max_nonces expiration) rs) \<le> max_nonces"
proof -
  define step where "step = (\<lambda>s (c, n, t). check_nonce c s n t)"
  have "nonce_inv (run_ops step s rs) \<and> ns_max_nonces (run_ops step s rs) = ns_max_nonces s"
    if "nonce_inv s" for s
    using that
  proof (induction rs arbitrary: s)
    case Nil
    then show ?case by simp
  next
    case (Cons r rs)
    obtain c n t where r: "r = (c, n, t)" by (cases r) auto
    have "ns_max_nonces (fst (step s r)) = ns_max_nonces s"
      by (simp add: r step_def check_nonce_def Let_def)
    moreover have "nonce_inv (fst (step s r))"
      using Cons.prems by (simp add: r step_def nonce_inv_check)
    ultimately show ?case using Cons.IH by simp
  qed
  from this [of "nonce_store_with_config max_nonces expiration"] show ?thesis
    by (simp add: step_def nonce_inv_def nonce_store_with_config_def nonce_len_def)
qed

end
