(* ===== verification/Signing.thy ===== *)
theory Signing
  imports Signed_Records
begin

text \<open>
  Signing and verification (\<open>src/src/security/signing.rs\<close>). The Ed25519 operations of
  \<open>ed25519_dalek\<close> and the hash of \<open>blake3\<close> are parameters, gathered in a record; what the code relies
  on is stated as \<open>crypto_laws\<close>: keys and signatures have their documented sizes, and a signature
  verifies under the public key of the key that made it.
\<close>

section \<open>The external operations\<close>

record 'sk crypto =
  cr_from_seed :: "bytes \<Rightarrow> 'sk"
  cr_public :: "'sk \<Rightarrow> bytes"
  cr_sign :: "'sk \<Rightarrow> bytes \<Rightarrow> bytes"
  cr_key_valid :: "bytes \<Rightarrow> bool"
  cr_verify :: "bytes \<Rightarrow> bytes \<Rightarrow> bytes \<Rightarrow> bool"
  cr_hash :: "bytes \<Rightarrow> bytes"

definition crypto_laws :: "'sk crypto \<Rightarrow> bool" where
  "crypto_laws cr \<longleftrightarrow>
     (\<forall>sk. length (cr_public cr sk) = 32 \<and> cr_key_valid cr (cr_public cr sk)) \<and>
     (\<forall>sk m. length (cr_sign cr sk m) = 64 \<and>
        cr_verify cr (cr_public cr sk) m (cr_sign cr sk m)) \<and>
     (\<forall>m. length (cr_hash cr m) = 32)"

section \<open>Signer\<close>

definition signer_from_seed :: "'sk crypto \<Rightarrow> bytes \<Rightarrow> 'sk" where
  "signer_from_seed cr seed = cr_from_seed cr seed"

definition public_key_bytes :: "'sk crypto \<Rightarrow> 'sk \<Rightarrow> bytes" where
  "public_key_bytes cr sk = cr_public cr sk"

definition sign_tool_def :: "'sk crypto \<Rightarrow> 'sk \<Rightarrow> u32 \<Rightarrow> bytes \<Rightarrow> u64 \<Rightarrow> signed_tool_def" where
  "sign_tool_def cr sk tool_id schema_hash capabilities =
     (let message = le_bytes 4 tool_id @ schema_hash @ le_bytes 8 capabilities;
          signature = cr_sign cr sk message
      in \<lparr>std_tool_id = tool_id, std_schema_hash = schema_hash, std_capabilities = capabilities,
          std_signature = signature, std_public_key = public_key_bytes cr sk\<rparr>)"

definition sign_invocation ::
  "'sk crypto \<Rightarrow> 'sk \<Rightarrow> u32 \<Rightarrow> u64 \<Rightarrow> u64 \<Rightarrow> bytes \<Rightarrow> signed_invocation" where
  "sign_invocation cr sk tool_id nonce timestamp args =
     (let args_hash = cr_hash cr args;
          message = le_bytes 4 tool_id @ le_bytes 8 nonce @ le_bytes 8 timestamp @ args_hash;
          signature = cr_sign cr sk message
      in \<lparr>si_tool_id = tool_id, si_nonce = nonce, si_timestamp = timestamp,
          si_args_hash = args_hash, si_signature = signature\<rparr>)"

section \<open>Verifier\<close>

definition verify_tool_def :: "'sk crypto \<Rightarrow> signed_tool_def \<Rightarrow> security_error + unit" where
  "verify_tool_def cr d =
     (let message = le_bytes 4 (std_tool_id d) @ std_schema_hash d @ le_bytes 8 (std_capabilities d)
      in if \<not> cr_key_valid cr (std_public_key d) then Inl InvalidSignature
         else if cr_verify cr (std_public_key d) message (std_signature d) then Inr ()
         else Inl InvalidSignature)"

definition verify_invocation ::
  "'sk crypto \<Rightarrow> signed_invocation \<Rightarrow> bytes \<Rightarrow> security_error + unit" where
  "verify_invocation cr v public_key =
     (let message = le_bytes 4 (si_tool_id v) @ le_bytes 8 (si_nonce v) @
                    le_bytes 8 (si_timestamp v) @ si_args_hash v
      in if \<not> cr_key_valid cr public_key then Inl InvalidSignature
         else if cr_verify cr public_key message (si_signature v) then Inr ()
         else Inl InvalidSignature)"

definition verify_args_hash :: "'sk crypto \<Rightarrow> signed_invocation \<Rightarrow> bytes \<Rightarrow> bool" where
  "verify_args_hash cr v args \<longleftrightarrow> cr_hash cr args = si_args_hash v"

section \<open>Verification reads the canonical signed bytes\<close>

lemma verify_invocation_iff:
  "length (si_args_hash v) = 32 \<Longrightarrow>
   is_ok (verify_invocation cr v pk) \<longleftrightarrow>
     cr_key_valid cr pk \<and> cr_verify cr pk (invocation_signed_bytes v) (si_signature v)"
  by (simp add: verify_invocation_def Let_def invocation_signed_bytes_layout)

lemma verify_tool_def_iff:
  "wf_tool_def d \<Longrightarrow>
   is_ok (verify_tool_def cr d) \<longleftrightarrow>
     cr_key_valid cr (std_public_key d) \<and>
     cr_verify cr (std_public_key d) (tool_def_signed_bytes d) (std_signature d)"
  by (simp add: verify_tool_def_def Let_def tool_def_signed_bytes_layout)

lemma sign_invocation_verifies:
  assumes "crypto_laws cr"
  shows "verify_invocation cr (sign_invocation cr sk tool nonce ts args) (public_key_bytes cr sk) = Inr ()"
    and "verify_args_hash cr (sign_invocation cr sk tool nonce ts args) args"
    and "wf_signed_invocation (sign_invocation cr sk tool nonce ts args)"
  using assms
  by (simp_all add: crypto_laws_def verify_invocation_def sign_invocation_def public_key_bytes_def
      verify_args_hash_def wf_signed_invocation_def Let_def)

lemma sign_tool_def_verifies:
  assumes "crypto_laws cr" and "length schema_hash = 32"
  shows "verify_tool_def cr (sign_tool_def cr sk tool schema_hash caps) = Inr ()"
    and "wf_tool_def (sign_tool_def cr sk tool schema_hash caps)"
  using assms
  by (simp_all add: crypto_laws_def verify_tool_def_def sign_tool_def_def public_key_bytes_def
      wf_tool_def_def Let_def)

text \<open>A toy instance: it shows the laws can hold.\<close>

definition toy_crypto :: "bytes crypto" where
  "toy_crypto = \<lparr>cr_from_seed = (\<lambda>s. s), cr_public = (\<lambda>sk. replicate 32 0),
     cr_sign = (\<lambda>sk m. replicate 64 (of_nat (length m))), cr_key_valid = (\<lambda>pk. length pk = 32),
     cr_verify = (\<lambda>pk m s. s = replicate 64 (of_nat (length m))),
     cr_hash = (\<lambda>m. replicate 32 (of_nat (length m)))\<rparr>"

lemma toy_crypto_laws: "crypto_laws toy_crypto"
  by (simp add: crypto_laws_def toy_crypto_def)

text \<open>C15: Signed requests survive the wire. An invocation signed by a key, serialized and parsed
  back, verifies under that key's public key, matches the arguments it was made for, and carries
  the tool, nonce and timestamp it was signed with.\<close>

theorem signed_invocation_end_to_end:
  assumes "crypto_laws cr"
  shows "\<exists>v. signed_invocation_from_bytes
       (signed_invocation_as_bytes (sign_invocation cr sk tool nonce ts args)) = Inr v \<and>
     verify_invocation cr v (public_key_bytes cr sk) = Inr () \<and> verify_args_hash cr v args \<and>
     si_tool_id v = tool \<and> si_nonce v = nonce \<and> si_timestamp v = ts"
  using sign_invocation_verifies [OF assms, of sk tool nonce ts args]
  by (simp add: signed_invocation_from_as_bytes) (simp add: sign_invocation_def Let_def)

lemma signed_invocation_end_to_end_witness:
  "\<exists>v. signed_invocation_from_bytes
         (signed_invocation_as_bytes (sign_invocation toy_crypto [1] 3 17 1000 [5, 6])) = Inr v \<and>
     verify_invocation toy_crypto v (public_key_bytes toy_crypto [1]) = Inr () \<and>
     verify_args_hash toy_crypto v [5, 6] \<and>
     si_tool_id v = 3 \<and> si_nonce v = 17 \<and> si_timestamp v = 1000"
  by (rule signed_invocation_end_to_end [OF toy_crypto_laws])

text \<open>What the verifier checks is the whole invocation. For parsed invocations, verification
  succeeds exactly when the key is valid and its signature covers the canonical signed bytes of the
  record, and two invocations share those bytes only when they differ in nothing but the
  signature.\<close>

theorem verify_invocation_covers_fields:
  assumes "signed_invocation_from_bytes bs = Inr v" and "signed_invocation_from_bytes cs = Inr w"
  shows "verify_invocation cr v pk =
       (if cr_key_valid cr pk \<and> cr_verify cr pk (invocation_signed_bytes v) (si_signature v)
        then Inr () else Inl InvalidSignature) \<and>
     (invocation_signed_bytes v = invocation_signed_bytes w \<longleftrightarrow>
       w = v\<lparr>si_signature := si_signature w\<rparr>)"
proof -
  from assms have len: "length (si_args_hash v) = 32" "length (si_args_hash w) = 32"
    by (auto simp: wf_signed_invocation_def dest!: signed_invocation_from_bytes_sound)
  have "invocation_signed_bytes v = invocation_signed_bytes (v\<lparr>si_signature := s\<rparr>)" for s
    by (simp add: invocation_signed_bytes_def)
  then have "invocation_signed_bytes v = invocation_signed_bytes w \<longleftrightarrow>
       w = v\<lparr>si_signature := si_signature w\<rparr>"
    using invocation_signed_bytes_inject [OF len] by metis
  with len show ?thesis
    by (simp add: verify_invocation_def Let_def invocation_signed_bytes_layout)
qed

lemma verify_invocation_covers_fields_witness:
  "let v = sign_invocation toy_crypto [1] 3 17 1000 [5, 6]; w = v\<lparr>si_nonce := 18\<rparr>
   in verify_invocation toy_crypto v (replicate 32 0) = Inr () \<and>
      invocation_signed_bytes v \<noteq> invocation_signed_bytes w"
proof -
  let ?v = "sign_invocation toy_crypto [1] 3 17 1000 [5, 6]"
  let ?w = "?v\<lparr>si_nonce := 18\<rparr>"
  have wf: "wf_signed_invocation ?v" using toy_crypto_laws by (rule sign_invocation_verifies)
  then have "wf_signed_invocation ?w" by (simp add: wf_signed_invocation_def)
  with wf have "verify_invocation toy_crypto ?v (replicate 32 0) =
       (if cr_key_valid toy_crypto (replicate 32 0) \<and>
           cr_verify toy_crypto (replicate 32 0) (invocation_signed_bytes ?v) (si_signature ?v)
        then Inr () else Inl InvalidSignature) \<and>
     (invocation_signed_bytes ?v = invocation_signed_bytes ?w \<longleftrightarrow>
       ?w = ?v\<lparr>si_signature := si_signature ?w\<rparr>)"
    by (intro verify_invocation_covers_fields [OF signed_invocation_from_as_bytes
          signed_invocation_from_as_bytes])
  moreover have "si_nonce ?v = 17" by (simp add: sign_invocation_def Let_def)
  then have "?w \<noteq> ?v\<lparr>si_signature := si_signature ?w\<rparr>" by (cases ?v) auto
  moreover have "cr_verify toy_crypto (replicate 32 0) (invocation_signed_bytes ?v) (si_signature ?v)"
    using wf by (simp add: invocation_signed_bytes_layout wf_signed_invocation_def toy_crypto_def
        sign_invocation_def Let_def)
  moreover have "cr_key_valid toy_crypto (replicate 32 0)" by (simp add: toy_crypto_def)
  ultimately show ?thesis by simp
qed

end
