(* ===== verification/Capability.thy ===== *)
theory Capability
  imports Wire_Errors
begin

text \<open>
  The capability manifest of \<open>src/src/capability/manifest.rs\<close>: four bitsets with set, clear and
  membership operations, intersection for negotiation, the requirement checks, the id iterators and
  counts, and the 1296-byte layout. The laws a bitset keeps are one interface, interpreted for tools,
  resources, prompts and extensions.
\<close>

section \<open>Bitsets in 64-bit words\<close>

definition bits_set :: "nat \<Rightarrow> u64 list \<Rightarrow> nat \<Rightarrow> u64 list" where
  "bits_set limit ws i =
     (if i < limit then ws[i div 64 := ws ! (i div 64) OR push_bit (i mod 64) 1] else ws)"

definition bits_clear :: "nat \<Rightarrow> u64 list \<Rightarrow> nat \<Rightarrow> u64 list" where
  "bits_clear limit ws i =
     (if i < limit then ws[i div 64 := ws ! (i div 64) AND NOT (push_bit (i mod 64) 1)] else ws)"

definition bits_has :: "nat \<Rightarrow> u64 list \<Rightarrow> nat \<Rightarrow> bool" where
  "bits_has limit ws i =
     (if i \<ge> limit then False else ws ! (i div 64) AND push_bit (i mod 64) 1 \<noteq> 0)"

text \<open>The loops over word indices that intersect two arrays.\<close>

definition bits_intersect :: "nat \<Rightarrow> u64 list \<Rightarrow> u64 list \<Rightarrow> u64 list" where
  "bits_intersect n a b = foldl (\<lambda>r i. r[i := a ! i AND b ! i]) (replicate n 0) [0..<n]"

text \<open>The bit positions \<open>0..64\<close> of a word.\<close>

definition word_bits :: "nat list" where
  "word_bits = [0..<64]"

definition count_ones :: "u64 \<Rightarrow> nat" where
  "count_ones w = length (filter (bit w) word_bits)"

definition bits_count :: "u64 list \<Rightarrow> u32" where
  "bits_count ws = sum_list (map (\<lambda>w. of_nat (count_ones w)) ws)"

definition bits_ids :: "u64 list \<Rightarrow> u16 list" where
  "bits_ids ws = concat (map (\<lambda>(word_idx, word).
     List.map_filter (\<lambda>b. if word AND push_bit b 1 \<noteq> 0 then Some (of_nat (word_idx * 64 + b)) else None)
       word_bits) (enumerate 0 ws))"

lemma bits_has_iff: "bits_has limit ws i \<longleftrightarrow> i < limit \<and> bit (ws ! (i div 64)) (i mod 64)"
  by (auto simp: bits_has_def bit_iff_and_push_bit_not_eq_0 not_le)

lemma length_bits [simp]:
  "length (bits_set limit ws i) = length ws" "length (bits_clear limit ws i) = length ws"
  by (simp_all add: bits_set_def bits_clear_def)

lemma div_mod_64_eq: "(i :: nat) div 64 = j div 64 \<and> i mod 64 = j mod 64 \<longleftrightarrow> i = j"
  by (metis div_mult_mod_eq)

lemma bits_has_set:
  assumes "length ws * 64 = limit"
  shows "bits_has limit (bits_set limit ws i) j \<longleftrightarrow> (i < limit \<and> j = i) \<or> bits_has limit ws j"
proof (cases "i < limit \<and> j < limit")
  case True
  then have "i div 64 < length ws" using assms by auto
  with True show ?thesis
    using div_mod_64_eq [of i j]
    by (auto simp: bits_has_iff bits_set_def nth_list_update bit_or_iff bit_exp_iff)
next
  case False
  then show ?thesis by (auto simp: bits_has_iff bits_set_def)
qed

lemma bits_has_clear:
  assumes "length ws * 64 = limit"
  shows "bits_has limit (bits_clear limit ws i) j \<longleftrightarrow> j \<noteq> i \<and> bits_has limit ws j"
proof (cases "i < limit \<and> j < limit")
  case True
  then have "i div 64 < length ws" using assms by auto
  with True show ?thesis
    using div_mod_64_eq [of i j]
    by (auto simp: bits_has_iff bits_clear_def nth_list_update bit_and_iff bit_not_iff
        bit_exp_iff)
next
  case False
  then show ?thesis by (auto simp: bits_has_iff bits_clear_def)
qed

lemma bits_intersect_nth_aux:
  "m \<le> n \<Longrightarrow> length (foldl (\<lambda>r i. r[i := f i]) (replicate n 0) [0..<m]) = n \<and>
   (\<forall>k<n. foldl (\<lambda>r i. r[i := f i]) (replicate n (0 :: u64)) [0..<m] ! k = (if k < m then f k else 0))"
  by (induction m) (auto simp: nth_list_update less_Suc_eq)

lemma length_bits_intersect [simp]: "length (bits_intersect n a b) = n"
  using bits_intersect_nth_aux [of n n "\<lambda>i. a ! i AND b ! i"] by (simp add: bits_intersect_def)

lemma nth_bits_intersect: "k < n \<Longrightarrow> bits_intersect n a b ! k = a ! k AND b ! k"
  using bits_intersect_nth_aux [of n n "\<lambda>i. a ! i AND b ! i"] by (simp add: bits_intersect_def)

lemma bits_has_intersect:
  "n * 64 = limit \<Longrightarrow>
   bits_has limit (bits_intersect n a b) i \<longleftrightarrow> bits_has limit a i \<and> bits_has limit b i"
  by (auto simp: bits_has_iff nth_bits_intersect bit_and_iff)

lemma bits_has_zero: "n * 64 = limit \<Longrightarrow> \<not> bits_has limit (replicate n 0) i"
  by (auto simp: bits_has_iff)

text \<open>The iterator yields exactly the members, in increasing order, and the count is their number.\<close>

lemma bits_ids_words:
  "map f (concat (map (\<lambda>(k, w). map (\<lambda>b. k * 64 + b) (filter (bit w) word_bits)) (enumerate n ws))) =
   concat (map (\<lambda>(k, w). map (\<lambda>b. f (k * 64 + b)) (filter (bit w) word_bits)) (enumerate n ws))"
  by (simp add: map_concat comp_def split_def)

lemma bits_members:
  "concat (map (\<lambda>(k, w). map (\<lambda>b. k * 64 + b) (filter (bit w) word_bits)) (enumerate n ws)) =
   filter (\<lambda>i. bit (ws ! ((i - n * 64) div 64)) (i mod 64)) [n * 64..<(n + length ws) * 64]"
proof (induction ws arbitrary: n)
  case Nil
  then show ?case by simp
next
  case (Cons w ws)
  have "[n * 64..<(n + length (w # ws)) * 64] =
      [n * 64..<n * 64 + 64] @ [Suc n * 64..<(Suc n + length ws) * 64]"
    using upt_add_eq_append [of "n * 64" "n * 64 + 64" "length ws * 64"] by (simp add: algebra_simps)
  moreover have "filter (\<lambda>i. bit ((w # ws) ! ((i - n * 64) div 64)) (i mod 64)) [n * 64..<n * 64 + 64] =
      map (\<lambda>b. n * 64 + b) (filter (bit w) word_bits)"
  proof -
    have "[n * 64..<n * 64 + 64] = map (\<lambda>b. n * 64 + b) word_bits"
      unfolding word_bits_def by (rule nth_equalityI) (simp_all del: upt_rec_numeral)
    then show ?thesis
      by (simp add: filter_map comp_def) (rule filter_cong, simp_all add: word_bits_def)
  qed
  moreover have "filter (\<lambda>i. bit ((w # ws) ! ((i - n * 64) div 64)) (i mod 64))
        [Suc n * 64..<(Suc n + length ws) * 64] =
      filter (\<lambda>i. bit (ws ! ((i - Suc n * 64) div 64)) (i mod 64))
        [Suc n * 64..<(Suc n + length ws) * 64]"
  proof (rule filter_cong)
    fix i
    assume "i \<in> set [Suc n * 64..<(Suc n + length ws) * 64]"
    then have "Suc n * 64 \<le> i" by (simp only: atLeastLessThan_upt [symmetric] atLeastLessThan_iff)
    then have "i - n * 64 = (i - Suc n * 64) + 64" by arith
    then have "(i - n * 64) div 64 = Suc ((i - Suc n * 64) div 64)" by (simp only: div_add_self2)
    then show "bit ((w # ws) ! ((i - n * 64) div 64)) (i mod 64) =
        bit (ws ! ((i - Suc n * 64) div 64)) (i mod 64)" by (simp only: nth_Cons_Suc)
  qed simp
  ultimately show ?case
    using Cons.IH [of "Suc n"] by (simp only: filter_append enumerate_simps list.map concat.simps prod.case)
qed

lemma map_filter_if:
  "List.map_filter (\<lambda>b. if word AND push_bit b 1 \<noteq> 0 then Some (f b) else None) xs =
   map f (filter (bit (word :: u64)) xs)"
  by (induction xs) (simp_all add: List.map_filter_simps bit_iff_and_push_bit_not_eq_0)

lemma bits_ids_eq:
  assumes "length ws * 64 = limit"
  shows "bits_ids ws = map of_nat (filter (bits_has limit ws) [0..<limit])"
proof -
  have "bits_ids ws = concat (map (\<lambda>(k, w). map (\<lambda>b. of_nat (k * 64 + b)) (filter (bit w) word_bits))
      (enumerate 0 ws))"
    by (simp only: bits_ids_def map_filter_if)
  also have "\<dots> = map of_nat (concat (map (\<lambda>(k, w). map (\<lambda>b. k * 64 + b) (filter (bit w) word_bits))
      (enumerate 0 ws)))"
    by (simp only: bits_ids_words)
  also have "\<dots> = map of_nat (filter (bits_has limit ws) [0..<limit])"
    unfolding bits_members using assms
    by (intro arg_cong [of _ _ "map of_nat"] filter_cong) (auto simp: bits_has_iff)
  finally show ?thesis .
qed

lemma bits_count_ids: "bits_count ws = of_nat (length (bits_ids ws))"
proof -
  have "sum_list (map (\<lambda>w. of_nat (count_ones w)) ws) =
      (of_nat (sum_list (map (\<lambda>(k, w). count_ones w) (enumerate n ws))) :: u32)" for n
    by (induction ws arbitrary: n) simp_all
  moreover have "length (bits_ids ws) =
      sum_list (map (\<lambda>(k, w). count_ones w) (enumerate 0 ws))"
    by (simp only: bits_ids_def map_filter_if)
      (simp add: length_concat comp_def split_def count_ones_def)
  ultimately show ?thesis by (simp only: bits_count_def)
qed

section \<open>The manifest\<close>

record manifest =
  cm_version :: u16
  cm_reserved :: u16
  cm_reserved2 :: u32
  cm_tools :: "u64 list"
  cm_resources :: "u64 list"
  cm_prompts :: "u64 list"
  cm_extensions :: u64
  cm_signature :: bytes

definition MANIFEST_SIZE :: nat where "MANIFEST_SIZE = 8 + 1024 + 128 + 64 + 8 + 64"
definition MAX_TOOLS :: nat where "MAX_TOOLS = 8192"
definition MAX_RESOURCES :: nat where "MAX_RESOURCES = 1024"
definition MAX_PROMPTS :: nat where "MAX_PROMPTS = 512"

lemmas manifest_limits = MAX_TOOLS_def MAX_RESOURCES_def MAX_PROMPTS_def

text \<open>The Rust array types fix the lengths.\<close>

definition wf_manifest :: "manifest \<Rightarrow> bool" where
  "wf_manifest m \<longleftrightarrow> length (cm_tools m) = 128 \<and> length (cm_resources m) = 16 \<and>
     length (cm_prompts m) = 8 \<and> length (cm_signature m) = 64"

definition manifest_new :: "u16 \<Rightarrow> manifest" where
  "manifest_new version =
     \<lparr>cm_version = version, cm_reserved = 0, cm_reserved2 = 0, cm_tools = replicate 128 0,
      cm_resources = replicate 16 0, cm_prompts = replicate 8 0, cm_extensions = 0,
      cm_signature = replicate 64 0\<rparr>"

definition manifest_intersect :: "manifest \<Rightarrow> manifest \<Rightarrow> manifest" where
  "manifest_intersect a b =
     (manifest_new (min (cm_version a) (cm_version b)))
       \<lparr>cm_tools := bits_intersect 128 (cm_tools a) (cm_tools b),
        cm_resources := bits_intersect 16 (cm_resources a) (cm_resources b),
        cm_prompts := bits_intersect 8 (cm_prompts a) (cm_prompts b),
        cm_extensions := cm_extensions a AND cm_extensions b\<rparr>"

definition negotiate :: "manifest \<Rightarrow> manifest \<Rightarrow> manifest" where
  "negotiate client server = manifest_intersect client server"

definition set_tool :: "manifest \<Rightarrow> u16 \<Rightarrow> manifest" where
  "set_tool m i = m\<lparr>cm_tools := bits_set MAX_TOOLS (cm_tools m) (unat i)\<rparr>"

definition clear_tool :: "manifest \<Rightarrow> u16 \<Rightarrow> manifest" where
  "clear_tool m i = m\<lparr>cm_tools := bits_clear MAX_TOOLS (cm_tools m) (unat i)\<rparr>"

definition has_tool :: "manifest \<Rightarrow> u16 \<Rightarrow> bool" where
  "has_tool m i \<longleftrightarrow> bits_has MAX_TOOLS (cm_tools m) (unat i)"

definition require_tool :: "manifest \<Rightarrow> u16 \<Rightarrow> security_error + unit" where
  "require_tool m i = (if has_tool m i then Inr () else Inl InsufficientCapabilities)"

definition tool_count :: "manifest \<Rightarrow> u32" where
  "tool_count m = bits_count (cm_tools m)"

definition tool_ids :: "manifest \<Rightarrow> u16 list" where
  "tool_ids m = bits_ids (cm_tools m)"

definition set_resource :: "manifest \<Rightarrow> u16 \<Rightarrow> manifest" where
  "set_resource m i = m\<lparr>cm_resources := bits_set MAX_RESOURCES (cm_resources m) (unat i)\<rparr>"

definition clear_resource :: "manifest \<Rightarrow> u16 \<Rightarrow> manifest" where
  "clear_resource m i = m\<lparr>cm_resources := bits_clear MAX_RESOURCES (cm_resources m) (unat i)\<rparr>"

definition has_resource :: "manifest \<Rightarrow> u16 \<Rightarrow> bool" where
  "has_resource m i \<longleftrightarrow> bits_has MAX_RESOURCES (cm_resources m) (unat i)"

definition require_resource :: "manifest \<Rightarrow> u16 \<Rightarrow> security_error + unit" where
  "require_resource m i = (if has_resource m i then Inr () else Inl InsufficientCapabilities)"

definition resource_count :: "manifest \<Rightarrow> u32" where
  "resource_count m = bits_count (cm_resources m)"

definition resource_ids :: "manifest \<Rightarrow> u16 list" where
  "resource_ids m = bits_ids (cm_resources m)"

definition set_prompt :: "manifest \<Rightarrow> u16 \<Rightarrow> manifest" where
  "set_prompt m i = m\<lparr>cm_prompts := bits_set MAX_PROMPTS (cm_prompts m) (unat i)\<rparr>"

definition clear_prompt :: "manifest \<Rightarrow> u16 \<Rightarrow> manifest" where
  "clear_prompt m i = m\<lparr>cm_prompts := bits_clear MAX_PROMPTS (cm_prompts m) (unat i)\<rparr>"

definition has_prompt :: "manifest \<Rightarrow> u16 \<Rightarrow> bool" where
  "has_prompt m i \<longleftrightarrow> bits_has MAX_PROMPTS (cm_prompts m) (unat i)"

definition require_prompt :: "manifest \<Rightarrow> u16 \<Rightarrow> security_error + unit" where
  "require_prompt m i = (if has_prompt m i then Inr () else Inl InsufficientCapabilities)"

definition prompt_count :: "manifest \<Rightarrow> u32" where
  "prompt_count m = bits_count (cm_prompts m)"

definition prompt_ids :: "manifest \<Rightarrow> u16 list" where
  "prompt_ids m = bits_ids (cm_prompts m)"

definition set_extension :: "manifest \<Rightarrow> u8 \<Rightarrow> manifest" where
  "set_extension m i =
     (if i < 64 then m\<lparr>cm_extensions := cm_extensions m OR push_bit (unat i) 1\<rparr> else m)"

definition clear_extension :: "manifest \<Rightarrow> u8 \<Rightarrow> manifest" where
  "clear_extension m i =
     (if i < 64 then m\<lparr>cm_extensions := cm_extensions m AND NOT (push_bit (unat i) 1)\<rparr> else m)"

definition has_extension :: "manifest \<Rightarrow> u8 \<Rightarrow> bool" where
  "has_extension m i = (if i \<ge> 64 then False else cm_extensions m AND push_bit (unat i) 1 \<noteq> 0)"

definition require_extension :: "manifest \<Rightarrow> u8 \<Rightarrow> security_error + unit" where
  "require_extension m i = (if has_extension m i then Inr () else Inl InsufficientCapabilities)"

definition extension_count :: "manifest \<Rightarrow> u32" where
  "extension_count m = of_nat (count_ones (cm_extensions m))"

lemmas capability_ops =
  set_tool_def clear_tool_def has_tool_def
  set_resource_def clear_resource_def has_resource_def
  set_prompt_def clear_prompt_def has_prompt_def
  set_extension_def clear_extension_def has_extension_def

section \<open>One contract for the four capability classes\<close>

locale capability_class =
  fixes has :: "'m \<Rightarrow> 'i \<Rightarrow> bool"
    and grant :: "'m \<Rightarrow> 'i \<Rightarrow> 'm"
    and revoke :: "'m \<Rightarrow> 'i \<Rightarrow> 'm"
    and meet :: "'m \<Rightarrow> 'm \<Rightarrow> 'm"
    and wf :: "'m \<Rightarrow> bool"
    and valid :: "'i \<Rightarrow> bool"
  assumes wf_grant: "wf m \<Longrightarrow> wf (grant m i)"
    and wf_revoke: "wf m \<Longrightarrow> wf (revoke m i)"
    and wf_meet: "wf a \<Longrightarrow> wf b \<Longrightarrow> wf (meet a b)"
    and has_grant: "wf m \<Longrightarrow> has (grant m i) j \<longleftrightarrow> valid i \<and> j = i \<or> has m j"
    and has_revoke: "wf m \<Longrightarrow> has (revoke m i) j \<longleftrightarrow> j \<noteq> i \<and> has m j"
    and has_meet: "wf a \<Longrightarrow> wf b \<Longrightarrow> has (meet a b) i \<longleftrightarrow> has a i \<and> has b i"
    and has_valid: "has m i \<Longrightarrow> valid i"
begin

text \<open>A session of grants and revocations ends in the set its last word on each id says.\<close>

fun apply_changes :: "'m \<Rightarrow> ('i \<times> bool) list \<Rightarrow> 'm" where
  "apply_changes m [] = m"
| "apply_changes m ((i, on) # cs) = apply_changes (if on then grant m i else revoke m i) cs"

lemma has_apply_changes:
  "wf m \<Longrightarrow> has (apply_changes m cs) j \<longleftrightarrow>
     valid j \<and> (case map_of (rev cs) j of Some on \<Rightarrow> on | None \<Rightarrow> has m j)"
proof (induction m cs rule: apply_changes.induct)
  case (1 m)
  then show ?case using has_valid by auto
next
  case (2 m i on cs)
  have "wf (if on then grant m i else revoke m i)" using 2 by (simp add: wf_grant wf_revoke)
  with 2 show ?case
    by (auto simp: has_grant has_revoke map_add_def split: option.split dest: has_valid)
qed

lemma meet_commute: "wf a \<Longrightarrow> wf b \<Longrightarrow> has (meet a b) i \<longleftrightarrow> has (meet b a) i"
  by (auto simp: has_meet)

lemma meet_assoc:
  "wf a \<Longrightarrow> wf b \<Longrightarrow> wf c \<Longrightarrow> has (meet (meet a b) c) i \<longleftrightarrow> has (meet a (meet b c)) i"
  by (simp add: has_meet wf_meet)

end

lemma wf_manifest_intersect: "wf_manifest (manifest_intersect a b)"
  by (simp add: wf_manifest_def manifest_intersect_def manifest_new_def)

lemma wf_manifest_ops:
  "wf_manifest m \<Longrightarrow> wf_manifest (set_tool m i) \<and> wf_manifest (clear_tool m i) \<and>
     wf_manifest (set_resource m i) \<and> wf_manifest (clear_resource m i) \<and>
     wf_manifest (set_prompt m i) \<and> wf_manifest (clear_prompt m i) \<and>
     wf_manifest (set_extension m k) \<and> wf_manifest (clear_extension m k)"
  by (simp add: wf_manifest_def capability_ops)

lemma unat_u16_eq: "unat (i :: u16) = unat j \<longleftrightarrow> i = j"
  by (simp add: word_unat_eq_iff)

interpretation tool_class: capability_class has_tool set_tool clear_tool manifest_intersect wf_manifest
  "\<lambda>i. unat i < MAX_TOOLS"
proof unfold_locales
  show "has_tool (set_tool m i) j \<longleftrightarrow> unat i < MAX_TOOLS \<and> j = i \<or> has_tool m j"
    if "wf_manifest m" for m i j
    using that by (simp add: capability_ops bits_has_set wf_manifest_def manifest_limits unat_u16_eq)
  show "has_tool (clear_tool m i) j \<longleftrightarrow> j \<noteq> i \<and> has_tool m j" if "wf_manifest m" for m i j
    using that by (simp add: capability_ops bits_has_clear wf_manifest_def manifest_limits unat_u16_eq)
  show "has_tool (manifest_intersect a b) i \<longleftrightarrow> has_tool a i \<and> has_tool b i" for a b i
    by (simp add: capability_ops manifest_intersect_def bits_has_intersect manifest_limits)
  show "unat i < MAX_TOOLS" if "has_tool m i" for m i
    using that by (simp add: capability_ops bits_has_iff)
qed (simp_all add: wf_manifest_ops wf_manifest_intersect)

interpretation resource_class: capability_class has_resource set_resource clear_resource manifest_intersect wf_manifest
  "\<lambda>i. unat i < MAX_RESOURCES"
proof unfold_locales
  show "has_resource (set_resource m i) j \<longleftrightarrow> unat i < MAX_RESOURCES \<and> j = i \<or> has_resource m j"
    if "wf_manifest m" for m i j
    using that by (simp add: capability_ops bits_has_set wf_manifest_def manifest_limits unat_u16_eq)
  show "has_resource (clear_resource m i) j \<longleftrightarrow> j \<noteq> i \<and> has_resource m j" if "wf_manifest m" for m i j
    using that by (simp add: capability_ops bits_has_clear wf_manifest_def manifest_limits unat_u16_eq)
  show "has_resource (manifest_intersect a b) i \<longleftrightarrow> has_resource a i \<and> has_resource b i" for a b i
    by (simp add: capability_ops manifest_intersect_def bits_has_intersect manifest_limits)
  show "unat i < MAX_RESOURCES" if "has_resource m i" for m i
    using that by (simp add: capability_ops bits_has_iff)
qed (simp_all add: wf_manifest_ops wf_manifest_intersect)

interpretation prompt_class: capability_class has_prompt set_prompt clear_prompt manifest_intersect wf_manifest
  "\<lambda>i. unat i < MAX_PROMPTS"
proof unfold_locales
  show "has_prompt (set_prompt m i) j \<longleftrightarrow> unat i < MAX_PROMPTS \<and> j = i \<or> has_prompt m j"
    if "wf_manifest m" for m i j
    using that by (simp add: capability_ops bits_has_set wf_manifest_def manifest_limits unat_u16_eq)
  show "has_prompt (clear_prompt m i) j \<longleftrightarrow> j \<noteq> i \<and> has_prompt m j" if "wf_manifest m" for m i j
    using that by (simp add: capability_ops bits_has_clear wf_manifest_def manifest_limits unat_u16_eq)
  show "has_prompt (manifest_intersect a b) i \<longleftrightarrow> has_prompt a i \<and> has_prompt b i" for a b i
    by (simp add: capability_ops manifest_intersect_def bits_has_intersect manifest_limits)
  show "unat i < MAX_PROMPTS" if "has_prompt m i" for m i
    using that by (simp add: capability_ops bits_has_iff)
qed (simp_all add: wf_manifest_ops wf_manifest_intersect)

lemma has_extension_bits: "has_extension m i = bits_has 64 [cm_extensions m] (unat i)"
  by (auto simp: has_extension_def bits_has_def word_le_nat_alt)

lemma set_extension_bits:
  "[cm_extensions (set_extension m i)] = bits_set 64 [cm_extensions m] (unat i)"
  by (auto simp: set_extension_def bits_set_def word_less_nat_alt)

lemma clear_extension_bits:
  "[cm_extensions (clear_extension m i)] = bits_clear 64 [cm_extensions m] (unat i)"
  by (auto simp: clear_extension_def bits_clear_def word_less_nat_alt)

interpretation extension_class: capability_class has_extension set_extension clear_extension
  manifest_intersect wf_manifest "\<lambda>i. i < 64"
proof unfold_locales
  show "has_extension (set_extension m i) j \<longleftrightarrow> i < 64 \<and> j = i \<or> has_extension m j" for m i j
    by (simp add: has_extension_bits set_extension_bits bits_has_set word_less_nat_alt
        word_unat_eq_iff)
  show "has_extension (clear_extension m i) j \<longleftrightarrow> j \<noteq> i \<and> has_extension m j" for m i j
    by (simp add: has_extension_bits clear_extension_bits bits_has_clear word_unat_eq_iff)
  show "has_extension (manifest_intersect a b) i \<longleftrightarrow> has_extension a i \<and> has_extension b i" for a b i
    by (auto simp: has_extension_bits bits_has_iff manifest_intersect_def bit_and_iff)
qed (auto simp: wf_manifest_ops wf_manifest_intersect has_extension_def split: if_splits)

section \<open>Wire format\<close>

fun words_from :: "nat \<Rightarrow> bytes \<Rightarrow> u64 list" where
  "words_from 0 bs = []"
| "words_from (Suc n) bs = le_word (take 8 bs) # words_from n (drop 8 bs)"

definition words_bytes :: "u64 list \<Rightarrow> bytes" where
  "words_bytes ws = concat (map (le_bytes 8) ws)"

definition manifest_as_bytes :: "manifest \<Rightarrow> bytes" where
  "manifest_as_bytes m =
     le_bytes 2 (cm_version m) @ le_bytes 2 (cm_reserved m) @ le_bytes 4 (cm_reserved2 m) @
     words_bytes (cm_tools m) @ words_bytes (cm_resources m) @ words_bytes (cm_prompts m) @
     le_bytes 8 (cm_extensions m) @ cm_signature m"

definition manifest_cast :: "bytes \<Rightarrow> manifest" where
  "manifest_cast bs =
     \<lparr>cm_version = le_word (slice 0 2 bs), cm_reserved = le_word (slice 2 4 bs),
      cm_reserved2 = le_word (slice 4 8 bs), cm_tools = words_from 128 (slice 8 1032 bs),
      cm_resources = words_from 16 (slice 1032 1160 bs),
      cm_prompts = words_from 8 (slice 1160 1224 bs),
      cm_extensions = le_word (slice 1224 1232 bs), cm_signature = slice 1232 1296 bs\<rparr>"

definition manifest_from_bytes :: "bytes \<Rightarrow> dcp_error + manifest" where
  "manifest_from_bytes bs =
     (if length bs < MANIFEST_SIZE then Inl InsufficientData else Inr (manifest_cast bs))"

definition manifest_signed_bytes :: "manifest \<Rightarrow> bytes" where
  "manifest_signed_bytes m = take (MANIFEST_SIZE - 64) (manifest_as_bytes m)"

lemma length_words_bytes [simp]: "length (words_bytes ws) = 8 * length ws"
  by (induction ws) (simp_all add: words_bytes_def)

lemma words_from_bytes [simp]: "length ws = n \<Longrightarrow> words_from n (words_bytes ws) = ws"
  by (induction ws arbitrary: n) (auto simp: words_bytes_def)

lemma length_words_from [simp]: "length (words_from n bs) = n"
  by (induction n arbitrary: bs) auto

lemma words_bytes_from [simp]: "length bs = 8 * n \<Longrightarrow> words_bytes (words_from n bs) = bs"
  by (induction n arbitrary: bs) (auto simp: words_bytes_def)

lemma length_manifest_as_bytes: "wf_manifest m \<Longrightarrow> length (manifest_as_bytes m) = 1296"
  by (simp add: wf_manifest_def manifest_as_bytes_def)

lemma manifest_cast_as_bytes: "wf_manifest m \<Longrightarrow> manifest_cast (manifest_as_bytes m @ rest) = m"
  by (simp add: wf_manifest_def manifest_as_bytes_def manifest_cast_def slice_split)

lemma manifest_as_bytes_cast:
  "1296 \<le> length bs \<Longrightarrow>
   wf_manifest (manifest_cast bs) \<and> manifest_as_bytes (manifest_cast bs) = take 1296 bs"
  by (simp add: wf_manifest_def manifest_as_bytes_def manifest_cast_def slice_build)

lemma manifest_from_bytes_eq_Inr:
  "manifest_from_bytes bs = Inr m \<longleftrightarrow>
     1296 \<le> length bs \<and> wf_manifest m \<and> take 1296 bs = manifest_as_bytes m"
proof -
  have "manifest_cast bs = m \<longleftrightarrow> wf_manifest m \<and> take 1296 bs = manifest_as_bytes m"
    if "1296 \<le> length bs"
    using manifest_as_bytes_cast [OF that] manifest_cast_as_bytes [of m "drop 1296 bs"]
    by (metis append_take_drop_id)
  then show ?thesis by (auto simp: manifest_from_bytes_def MANIFEST_SIZE_def)
qed

interpretation manifest_codec: prefix_codec manifest_as_bytes
  "\<lambda>bs. result_ok (manifest_from_bytes bs)" wf_manifest 1296
  by unfold_locales (auto simp: manifest_from_bytes_eq_Inr length_manifest_as_bytes)

section \<open>Properties\<close>

text \<open>Negotiation is deny-by-default. A negotiated manifest grants a tool, resource, prompt or
  extension exactly when both offers do, the requirement checks succeed exactly on the granted ids,
  the version is the older one, and no signature is carried over.\<close>

theorem negotiate_grants_both:
  fixes client server :: manifest
  defines "m \<equiv> negotiate client server"
  assumes "wf_manifest client" and "wf_manifest server"
  shows "require_tool m i = (if has_tool client i \<and> has_tool server i
           then Inr () else Inl InsufficientCapabilities) \<and>
    require_resource m i = (if has_resource client i \<and> has_resource server i
           then Inr () else Inl InsufficientCapabilities) \<and>
    require_prompt m i = (if has_prompt client i \<and> has_prompt server i
           then Inr () else Inl InsufficientCapabilities) \<and>
    require_extension m k = (if has_extension client k \<and> has_extension server k
           then Inr () else Inl InsufficientCapabilities) \<and>
    cm_version m = min (cm_version client) (cm_version server) \<and>
    cm_signature m = replicate 64 0"
  unfolding m_def negotiate_def require_tool_def require_resource_def require_prompt_def
    require_extension_def tool_class.has_meet [OF assms(2,3)] resource_class.has_meet [OF assms(2,3)]
    prompt_class.has_meet [OF assms(2,3)] extension_class.has_meet [OF assms(2,3)]
  by (simp add: manifest_intersect_def manifest_new_def)

lemma wf_manifest_new: "wf_manifest (manifest_new v)"
  by (simp add: wf_manifest_def manifest_new_def)

lemma has_tool_new: "\<not> has_tool (manifest_new v) i"
  by (simp add: capability_ops manifest_limits manifest_new_def bits_has_zero)

lemma negotiate_grants_both_witness:
  "require_tool (negotiate (set_tool (manifest_new 2) 70) (set_tool (set_tool (manifest_new 1) 70) 71)) 70
     = Inr () \<and>
   require_tool (negotiate (set_tool (manifest_new 2) 70) (set_tool (set_tool (manifest_new 1) 70) 71)) 71
     = Inl InsufficientCapabilities"
proof -
  have wf: "wf_manifest (set_tool (manifest_new 2) 70)"
    "wf_manifest (set_tool (set_tool (manifest_new 1) 70) 71)"
    by (simp_all add: wf_manifest_ops wf_manifest_new)
  show ?thesis
    using negotiate_grants_both [OF wf, of 70] negotiate_grants_both [OF wf, of 71]
    by (simp add: tool_class.has_grant wf_manifest_ops wf_manifest_new has_tool_new MAX_TOOLS_def)
qed

fun tool_changes :: "manifest \<Rightarrow> (u16 \<times> bool) list \<Rightarrow> manifest" where
  "tool_changes m [] = m"
| "tool_changes m ((i, on) # cs) = tool_changes (if on then set_tool m i else clear_tool m i) cs"

lemma tool_changes_eq: "tool_changes m cs = tool_class.apply_changes m cs"
  by (induction m cs rule: tool_changes.induct) simp_all

text \<open>The last word on a capability counts. After any sequence of \<open>set_tool\<close> and
  \<open>clear_tool\<close> calls a manifest grants a tool exactly when its id is below the limit and the last
  call about it was a \<open>set_tool\<close> (or there was none and it was granted before).\<close>

theorem tool_changes_last_word:
  assumes "wf_manifest m"
  shows "has_tool (tool_changes m cs) j \<longleftrightarrow>
    unat j < 8192 \<and> (case map_of (rev cs) j of Some on \<Rightarrow> on | None \<Rightarrow> has_tool m j)"
  using tool_class.has_apply_changes [OF assms, of cs j]
  by (simp add: tool_changes_eq MAX_TOOLS_def)

lemma tool_changes_last_word_witness:
  "has_tool (tool_changes (manifest_new 1) [(5, True), (6, True), (5, False), (9000, True)]) 6 \<and>
   \<not> has_tool (tool_changes (manifest_new 1) [(5, True), (6, True), (5, False), (9000, True)]) 5 \<and>
   \<not> has_tool (tool_changes (manifest_new 1) [(5, True), (6, True), (5, False), (9000, True)]) 9000"
  by (simp only: tool_changes_last_word [OF wf_manifest_new]) simp

lemma bits_ids_listing:
  assumes "length ws * 64 = limit" and "limit \<le> 65536"
  shows "bits_ids ws = map of_nat (filter (\<lambda>i. bits_has limit ws (unat (of_nat i :: u16))) [0..<limit])"
proof -
  have "bits_has limit ws (unat (of_nat i :: u16)) = bits_has limit ws i" if "i < limit" for i
    using that assms(2) by (simp add: unat_of_nat_small)
  then have "filter (\<lambda>i. bits_has limit ws (unat (of_nat i :: u16))) [0..<limit] =
      filter (bits_has limit ws) [0..<limit]"
    by (intro filter_cong) auto
  then show ?thesis by (simp only: bits_ids_eq [OF assms(1)])
qed

text \<open>Enumeration agrees with membership. The id iterators list the granted ids and nothing
  else, each once and in increasing order, and the counts are their number.\<close>

theorem manifest_listings:
  assumes "wf_manifest m"
  shows "tool_ids m = map of_nat (filter (\<lambda>i. has_tool m (of_nat i)) [0..<8192]) \<and>
    resource_ids m = map of_nat (filter (\<lambda>i. has_resource m (of_nat i)) [0..<1024]) \<and>
    prompt_ids m = map of_nat (filter (\<lambda>i. has_prompt m (of_nat i)) [0..<512]) \<and>
    tool_count m = of_nat (length (tool_ids m)) \<and>
    resource_count m = of_nat (length (resource_ids m)) \<and>
    prompt_count m = of_nat (length (prompt_ids m))"
proof -
  have len: "length (cm_tools m) * 64 = 8192" "length (cm_resources m) * 64 = 1024"
    "length (cm_prompts m) * 64 = 512" using assms by (simp_all add: wf_manifest_def)
  show ?thesis
    unfolding tool_ids_def resource_ids_def prompt_ids_def tool_count_def resource_count_def
      prompt_count_def has_tool_def has_resource_def has_prompt_def manifest_limits
    by (intro conjI bits_count_ids bits_ids_listing len) simp_all
qed

lemma manifest_listings_witness: "length (tool_ids (set_tool (manifest_new 1) 6)) =
    length (filter (\<lambda>i. has_tool (set_tool (manifest_new 1) 6) (of_nat i)) [0..<8192])"
proof -
  have "wf_manifest (set_tool (manifest_new 1) 6)" by (simp add: wf_manifest_ops wf_manifest_new)
  from manifest_listings [OF this] show ?thesis by (simp only: length_map)
qed

lemma manifest_signed_bytes_inject:
  assumes wf: "wf_manifest a" "wf_manifest b"
    and eq: "manifest_signed_bytes a = manifest_signed_bytes b"
  shows "b = a\<lparr>cm_signature := cm_signature b\<rparr>"
proof -
  define a' where "a' = a\<lparr>cm_signature := cm_signature b\<rparr>"
  have wf': "wf_manifest a'" using wf by (simp add: a'_def wf_manifest_def)
  have split: "manifest_as_bytes x = manifest_signed_bytes x @ cm_signature x"
    if "wf_manifest x" for x
    using that by (simp add: manifest_signed_bytes_def manifest_as_bytes_def wf_manifest_def
        MANIFEST_SIZE_def)
  have "manifest_signed_bytes a' = manifest_signed_bytes a"
    using wf by (simp add: manifest_signed_bytes_def manifest_as_bytes_def wf_manifest_def
        MANIFEST_SIZE_def a'_def)
  with eq split [OF wf(2)] split [OF wf'] have "manifest_as_bytes a' = manifest_as_bytes b"
    by (simp add: a'_def)
  with wf wf' have "a' = b" by (simp add: manifest_codec.enc_inject)
  then show ?thesis by (simp add: a'_def)
qed

text \<open>Manifest wire format. Parsing accepts a buffer exactly when it starts with the 1296
  bytes of a manifest, and returns that manifest; so parsing and serializing are inverse to each
  other.\<close>

theorem manifest_wire:
  "manifest_from_bytes bs = Inr m \<longleftrightarrow> wf_manifest m \<and> (\<exists>rest. bs = manifest_as_bytes m @ rest)"
  using manifest_codec.dec_iff [of bs m] by simp

end
