(* ===== verification/Delta.thy ===== *)
theory Delta
  imports Wire_Errors
begin

text \<open>
  XOR delta synchronization (\<open>src/src/sync/delta.rs\<close>): the run-length coder and the delta that
  carries one state to another. The hash of \<open>blake3\<close> is a parameter.
\<close>

section \<open>Run-length coding\<close>

text \<open>The inner loop: how many of the following bytes continue the run, at most up to 255 in
  all.\<close>

fun count_run :: "u8 \<Rightarrow> nat \<Rightarrow> bytes \<Rightarrow> nat" where
  "count_run v count [] = count"
| "count_run v count (x # xs) = (if x = v \<and> count < 255 then count_run v (count + 1) xs else count)"

lemma count_run_ge: "c \<le> count_run v c xs"
proof (induction xs arbitrary: c)
  case (Cons x xs)
  show ?case using Cons [of "Suc c"] by auto
qed simp

lemma count_run_le: "c \<le> 255 \<Longrightarrow> count_run v c xs \<le> 255"
  by (induction xs arbitrary: c) auto

lemma count_run_len: "count_run v c xs \<le> c + length xs"
proof (induction xs arbitrary: c)
  case (Cons x xs)
  show ?case using Cons [of "Suc c"] by auto
qed simp

function rle_compress :: "bytes \<Rightarrow> bytes" where
  "rle_compress [] = []"
| "rle_compress (v # rest) =
     (let count = count_run v 1 rest
      in of_nat count # v # rle_compress (drop count (v # rest)))"
  by pat_completeness auto
termination
proof (relation "measure length")
  fix v :: u8 and rest count
  assume "count = count_run v 1 rest"
  then show "(drop count (v # rest), v # rest) \<in> measure length"
    using count_run_ge [of 1 v rest] by simp
qed simp

fun rle_decompress :: "bytes \<Rightarrow> bytes" where
  "rle_decompress (count # v # rest) = replicate (unat count) v @ rle_decompress rest"
| "rle_decompress _ = []"

declare rle_compress.simps [simp del]

lemma count_run_take: "take (count_run v c xs - c) xs = replicate (count_run v c xs - c) v"
proof (induction xs arbitrary: c)
  case Nil
  then show ?case by simp
next
  case (Cons x xs)
  show ?case
  proof (cases "x = v \<and> c < 255")
    case True
    have "count_run v (Suc c) xs - c = Suc (count_run v (Suc c) xs - Suc c)"
      using count_run_ge [of "Suc c" v xs] by simp
    with True Cons [of "Suc c"] show ?thesis by simp
  qed auto
qed

lemma rle_run: "take (count_run v 1 rest) (v # rest) = replicate (count_run v 1 rest) v"
proof -
  have "count_run v 1 rest = Suc (count_run v 1 rest - 1)"
    using count_run_ge [of 1 v rest] by simp
  then show ?thesis
    using count_run_take [of v 1 rest] by (metis take_Suc_Cons replicate_Suc)
qed

lemma rle_compress_run:
  "c = count_run v 1 rest \<Longrightarrow>
   rle_compress (v # rest) = of_nat c # v # rle_compress (drop c (v # rest))"
  by (simp only: rle_compress.simps Let_def)

lemma rle_decompress_compress: "rle_decompress (rle_compress xs) = xs"
proof (induction xs rule: rle_compress.induct)
  case 1
  then show ?case by (simp add: rle_compress.simps)
next
  case (2 v rest)
  define c where "c = count_run v 1 rest"
  have "c \<le> 255" using count_run_le [of 1 v rest] by (simp add: c_def)
  then have "unat (of_nat c :: u8) = c" by (simp add: unat_of_nat_small)
  moreover have "rle_decompress (rle_compress (drop c (v # rest))) = drop c (v # rest)"
    using 2 [OF c_def] .
  ultimately have "rle_decompress (rle_compress (v # rest)) =
      take c (v # rest) @ drop c (v # rest)"
    using rle_run [of v rest]
    by (simp only: rle_compress_run [OF c_def] rle_decompress.simps flip: c_def)
  then show ?case by (simp only: append_take_drop_id)
qed

lemma length_rle_compress: "length (rle_compress xs) \<le> 2 * length xs"
proof (induction xs rule: rle_compress.induct)
  case 1
  then show ?case by (simp add: rle_compress.simps)
next
  case (2 v rest)
  define c where "c = count_run v 1 rest"
  have "1 \<le> c" "c \<le> Suc (length rest)"
    using count_run_ge [of 1 v rest] count_run_len [of v 1 rest] by (simp_all add: c_def)
  with 2 [OF c_def] show ?case by (simp add: rle_compress_run [OF c_def])
qed

lemma count_run_replicate: "count_run v c (replicate n v) = (if c \<le> 255 then min 255 (c + n) else c)"
  by (induction n arbitrary: c) auto

lemma length_rle_constant: "length (rle_compress (replicate n v)) = 2 * ((n + 254) div 255)"
proof (induction n rule: less_induct)
  case (less n)
  show ?case
  proof (cases n)
    case 0
    then show ?thesis by (simp add: rle_compress.simps)
  next
    case (Suc m)
    define c where "c = min 255 n"
    have c: "c = count_run v 1 (replicate m v)"
      by (simp add: count_run_replicate c_def Suc)
    have "length (rle_compress (replicate n v)) =
        2 + length (rle_compress (replicate (n - c) v))"
      unfolding Suc replicate_Suc rle_compress_run [OF c] by (simp flip: replicate_Suc)
    also have "\<dots> = 2 + 2 * ((n - c + 254) div 255)"
      using less [of "n - c"] Suc by (simp add: c_def)
    also have "\<dots> = 2 * ((n + 254) div 255)"
    proof (cases "255 \<le> n")
      case True
      then have "n + 254 = (n - c + 254) + 255" by (simp add: c_def)
      then have "(n + 254) div 255 = (n - c + 254) div 255 + 1" by (simp only: div_add_self2)
      then show ?thesis by simp
    next
      case False
      then have "n - c = 0" "(n + 254) div 255 = 1" using Suc by (auto simp: c_def)
      then show ?thesis by simp
    qed
    finally show ?thesis .
  qed
qed

section \<open>Deltas\<close>

record xor_delta =
  xd_prev_hash :: bytes
  xd_new_hash :: bytes
  xd_patch :: bytes
  xd_new_len :: nat

text \<open>\<open>slice.get(i).copied().unwrap_or(0)\<close>\<close>

definition byte_or_zero :: "bytes \<Rightarrow> nat \<Rightarrow> u8" where
  "byte_or_zero bs i = (if i < length bs then bs ! i else 0)"

definition delta_compute :: "(bytes \<Rightarrow> bytes) \<Rightarrow> bytes \<Rightarrow> bytes \<Rightarrow> xor_delta" where
  "delta_compute hash prev new =
     (let max_len = max (length prev) (length new);
          xor = map (\<lambda>i. byte_or_zero prev i XOR byte_or_zero new i) [0..<max_len]
      in \<lparr>xd_prev_hash = hash prev, xd_new_hash = hash new, xd_patch = rle_compress xor,
          xd_new_len = length new\<rparr>)"

definition delta_apply :: "(bytes \<Rightarrow> bytes) \<Rightarrow> xor_delta \<Rightarrow> bytes \<Rightarrow> dcp_error + bytes" where
  "delta_apply hash d state =
     (if hash state \<noteq> xd_prev_hash d then Inl HashMismatch
      else let xor = rle_decompress (xd_patch d);
               new_state = map (\<lambda>i. byte_or_zero state i XOR byte_or_zero xor i) [0..<xd_new_len d]
           in if hash new_state \<noteq> xd_new_hash d then Inl HashMismatch else Inr new_state)"

definition delta_is_sparse :: "xor_delta \<Rightarrow> nat \<Rightarrow> bool" where
  "delta_is_sparse d full_state_size \<longleftrightarrow> length (xd_patch d) < full_state_size"

definition delta_verify_prev_hash :: "(bytes \<Rightarrow> bytes) \<Rightarrow> xor_delta \<Rightarrow> bytes \<Rightarrow> bool" where
  "delta_verify_prev_hash hash d state \<longleftrightarrow> hash state = xd_prev_hash d"

text \<open>Run-length coding. Decompression inverts compression on every byte string, compression
  never more than doubles the size, and a constant run of \<open>n\<close> bytes costs two bytes for each 255.\<close>

theorem rle_round_trip:
  "rle_decompress (rle_compress xs) = xs \<and> length (rle_compress xs) \<le> 2 * length xs \<and>
   length (rle_compress (replicate n v)) = 2 * ((n + 254) div 255)"
  by (simp only: rle_decompress_compress length_rle_compress length_rle_constant simp_thms)

text \<open>C25: Delta synchronization. Applying the delta of two states to the first yields the second,
  whatever their lengths; and whatever state a delta is applied to, the result is either a hash
  mismatch or a state of the recorded length whose hash is the recorded one, reached from a state
  with the recorded previous hash.\<close>

theorem delta_synchronizes:
  "delta_apply hash (delta_compute hash prev new) prev = Inr new \<and>
   (case delta_apply hash d state of
      Inl e \<Rightarrow> e = HashMismatch
    | Inr result \<Rightarrow> delta_verify_prev_hash hash d state \<and> hash result = xd_new_hash d \<and>
        length result = xd_new_len d)"
proof
  let ?xor = "map (\<lambda>i. byte_or_zero prev i XOR byte_or_zero new i)
      [0..<max (length prev) (length new)]"
  have "map (\<lambda>i. byte_or_zero prev i XOR byte_or_zero ?xor i) [0..<length new] = new"
    by (rule nth_equalityI) (auto simp: byte_or_zero_def simp flip: xor.assoc)
  then show "delta_apply hash (delta_compute hash prev new) prev = Inr new"
    by (simp add: delta_apply_def delta_compute_def rle_decompress_compress Let_def)
  show "case delta_apply hash d state of Inl e \<Rightarrow> e = HashMismatch
      | Inr result \<Rightarrow> delta_verify_prev_hash hash d state \<and> hash result = xd_new_hash d \<and>
          length result = xd_new_len d"
    by (simp add: delta_apply_def delta_verify_prev_hash_def Let_def)
qed

end
