(* ===== verification/Mux_Header.thy ===== *)
theory Mux_Header
  imports Dcp_Prelude
begin

text \<open>
  The stream header of the multiplexer (\<open>src/src/multiplex/header.rs\<close>): eight bytes in network
  byte order, and the flag byte with its four defined bits. The growable buffer of the \<open>bytes\<close>
  crate is a byte list; appending is \<open>put_*\<close>, dropping a prefix is \<open>advance\<close>.
\<close>

definition STREAM_HEADER_SIZE :: nat where [codec_simps]: "STREAM_HEADER_SIZE = 8"

section \<open>Flags\<close>

definition FL_NONE :: u8 where "FL_NONE = 0"
definition FL_FIN :: u8 where "FL_FIN = 1"
definition FL_RST :: u8 where "FL_RST = 2"
definition FL_ACK :: u8 where "FL_ACK = 4"
definition FL_SYN :: u8 where "FL_SYN = 8"

definition KNOWN_MASK :: u8 where
  "KNOWN_MASK = FL_FIN OR FL_RST OR FL_ACK OR FL_SYN"

lemmas mux_flag_defs = FL_NONE_def FL_FIN_def FL_RST_def FL_ACK_def FL_SYN_def KNOWN_MASK_def

definition flags_is_empty :: "u8 \<Rightarrow> bool" where
  "flags_is_empty f \<longleftrightarrow> f = 0"

definition has_unknown_bits :: "u8 \<Rightarrow> bool" where
  "has_unknown_bits f \<longleftrightarrow> f AND NOT KNOWN_MASK \<noteq> 0"

definition is_fin :: "u8 \<Rightarrow> bool" where
  "is_fin f \<longleftrightarrow> f AND FL_FIN \<noteq> 0"

definition is_rst :: "u8 \<Rightarrow> bool" where
  "is_rst f \<longleftrightarrow> f AND FL_RST \<noteq> 0"

definition is_ack :: "u8 \<Rightarrow> bool" where
  "is_ack f \<longleftrightarrow> f AND FL_ACK \<noteq> 0"

definition is_syn :: "u8 \<Rightarrow> bool" where
  "is_syn f \<longleftrightarrow> f AND FL_SYN \<noteq> 0"

definition flags_with :: "u8 \<Rightarrow> u8 \<Rightarrow> u8" where
  "flags_with f g = f OR g"

lemmas flag_tests = is_fin_def is_rst_def is_ack_def is_syn_def flags_is_empty_def
  has_unknown_bits_def

text \<open>A flag byte with known bits only is determined by its four tests.\<close>

lemma known_mux_flags_cases:
  assumes "\<not> has_unknown_bits f"
  shows "f \<in> {0, 1, 2, 3, 4, 5, 6, 7, 8, 9, 10, 11, 12, 13, 14, 15}"
proof -
  have "f = (f AND 15) OR (f AND NOT 15)"
    by (simp flip: and.assoc bit.conj_disj_distrib)
  with assms have "f = f AND 15" by (simp add: has_unknown_bits_def mux_flag_defs)
  then have "f \<le> 15" using word_and_le1 [of f 15] by simp
  then have "unat f \<le> 15" by (simp add: word_le_nat_alt)
  then have "unat f \<in> {0, 1, 2, 3, 4, 5, 6, 7, 8, 9, 10, 11, 12, 13, 14, 15}"
    by (simp only: insert_iff empty_iff) arith
  then show ?thesis by (simp add: word_unat_eq_iff)
qed

section \<open>Header\<close>

record mux_header =
  sh_stream_id :: u16
  sh_flags :: u8
  sh_reserved :: u8
  sh_length :: u32

definition CONTROL_STREAM :: u16 where "CONTROL_STREAM = 0"

definition header_new :: "u16 \<Rightarrow> u8 \<Rightarrow> u32 \<Rightarrow> mux_header" where
  "header_new stream_id flags len =
     \<lparr>sh_stream_id = stream_id, sh_flags = flags, sh_reserved = 0, sh_length = len\<rparr>"

definition header_data :: "u16 \<Rightarrow> u32 \<Rightarrow> mux_header" where
  "header_data stream_id len = header_new stream_id FL_NONE len"

definition header_syn :: "u16 \<Rightarrow> mux_header" where
  "header_syn stream_id = header_new stream_id FL_SYN 0"

definition header_fin :: "u16 \<Rightarrow> mux_header" where
  "header_fin stream_id = header_new stream_id FL_FIN 0"

definition header_rst :: "u16 \<Rightarrow> mux_header" where
  "header_rst stream_id = header_new stream_id FL_RST 0"

definition header_ack :: "u16 \<Rightarrow> mux_header" where
  "header_ack stream_id = header_new stream_id FL_ACK 0"

lemmas header_kinds = header_new_def header_data_def header_syn_def header_fin_def header_rst_def
  header_ack_def

definition is_control :: "mux_header \<Rightarrow> bool" where
  "is_control h \<longleftrightarrow> sh_stream_id h = CONTROL_STREAM"

definition header_encode :: "mux_header \<Rightarrow> bytes \<Rightarrow> bytes" where
  [codec_simps]: "header_encode h dst =
     dst @ be_bytes 2 (sh_stream_id h) @ [sh_flags h] @ [sh_reserved h] @ be_bytes 4 (sh_length h)"

definition header_to_bytes :: "mux_header \<Rightarrow> bytes" where
  [codec_simps]: "header_to_bytes h = header_encode h []"

definition header_decode :: "bytes \<Rightarrow> mux_header option" where
  "header_decode src =
     (if length src < STREAM_HEADER_SIZE then None
      else Some \<lparr>sh_stream_id = be_word (slice 0 2 src), sh_flags = src ! 2,
                 sh_reserved = src ! 3, sh_length = be_word (slice 4 8 src)\<rparr>)"

definition header_decode_from :: "bytes \<Rightarrow> bytes \<times> mux_header option" where
  "header_decode_from src =
     (if length src < STREAM_HEADER_SIZE then (src, None)
      else case header_decode src of
        None \<Rightarrow> (src, None)
      | Some h \<Rightarrow> (drop STREAM_HEADER_SIZE src, Some h))"

definition frame_size :: "mux_header \<Rightarrow> nat" where
  "frame_size h = STREAM_HEADER_SIZE + unat (sh_length h)"

lemma length_header_to_bytes [simp]: "length (header_to_bytes h) = 8"
  by (simp add: codec_simps)

lemma header_decode_to_bytes: "header_decode (header_to_bytes h @ rest) = Some h"
  by (simp add: header_decode_def codec_simps slice_split)

lemma header_decode_sound:
  assumes "header_decode bs = Some h"
  shows "8 \<le> length bs \<and> take 8 bs = header_to_bytes h"
  using assms
  by (auto simp: header_decode_def codec_simps slice_build split: if_splits)

interpretation header_codec: prefix_codec header_to_bytes header_decode "\<lambda>_. True" 8
  by unfold_locales
     (use header_decode_to_bytes [of _ "[]"] header_decode_to_bytes header_decode_sound in auto)

text \<open>Stream header codec. Decoding from a buffer succeeds exactly when the buffer starts with
  an encoded header, returns that header, and advances the buffer past it; a short buffer is left
  alone.\<close>

theorem header_decode_from_exact:
  "header_decode_from src = (rest, Some h) \<longleftrightarrow> src = header_encode h [] @ rest"
proof
  assume "header_decode_from src = (rest, Some h)"
  then have "header_decode src = Some h" "rest = drop 8 src"
    by (auto simp: header_decode_from_def STREAM_HEADER_SIZE_def split: if_splits option.splits)
  then have "take 8 src @ rest = header_to_bytes h @ rest"
    using header_decode_sound by simp
  then show "src = header_encode h [] @ rest"
    using \<open>rest = drop 8 src\<close> by (simp add: header_to_bytes_def)
next
  assume src: "src = header_encode h [] @ rest"
  then have "header_decode src = Some h" "drop 8 src = rest" "8 \<le> length src"
    using header_decode_to_bytes [of h rest] length_header_to_bytes [of h]
    by (simp_all add: header_to_bytes_def)
  then show "header_decode_from src = (rest, Some h)"
    by (simp add: header_decode_from_def STREAM_HEADER_SIZE_def)
qed

end
