(* ===== verification/Mux_Connection.thy ===== *)
theory Mux_Connection
  imports Mux_Header Hash_Map
begin

text \<open>
  The multiplexed connection of \<open>src/src/multiplex/connection.rs\<close>: the per-stream state machine, the
  stream registry, the bounded outbound queue and the handlers for local calls and incoming frames.
  Each handler is one step on the connection state (the asynchronous locks it takes are not split);
  \<open>Bytes\<close> values are byte lists.
\<close>

section \<open>Streams\<close>

definition MAX_STREAMS :: u16 where "MAX_STREAMS = 65535"
definition DEFAULT_MAX_SEND_QUEUE_LEN :: nat where "DEFAULT_MAX_SEND_QUEUE_LEN = 1024"
definition DEFAULT_WINDOW_SIZE :: u32 where "DEFAULT_WINDOW_SIZE = 65536"
definition DEFAULT_MAX_RECV_BUFFER_BYTES :: nat where
  "DEFAULT_MAX_RECV_BUFFER_BYTES = unat DEFAULT_WINDOW_SIZE"

datatype mux_error =
    StreamNotFound u16 | StreamAlreadyExists u16 | StreamClosed u16 | TooManyStreams
  | InvalidStreamId | ConnectionClosed | SendBufferFull | ReceiveBufferFull | StreamError u16
  | ProtocolError string

datatype stream_status = Open | HalfClosedLocal | HalfClosedRemote | Closed | Reset

fun can_send :: "stream_status \<Rightarrow> bool" where
  "can_send st \<longleftrightarrow> st = Open \<or> st = HalfClosedRemote"

fun can_receive :: "stream_status \<Rightarrow> bool" where
  "can_receive st \<longleftrightarrow> st = Open \<or> st = HalfClosedLocal"

fun status_is_closed :: "stream_status \<Rightarrow> bool" where
  "status_is_closed st \<longleftrightarrow> st = Closed \<or> st = Reset"

record stream_state =
  ss_id :: u16
  ss_status :: stream_status
  ss_send_buffer :: "bytes list"
  ss_recv_buffer :: "bytes list"
  ss_recv_buffered_bytes :: nat
  ss_window_size :: u32
  ss_bytes_sent :: u64
  ss_bytes_received :: u64
  ss_error :: "string option"

definition stream_state_new :: "u16 \<Rightarrow> stream_state" where
  "stream_state_new i =
     \<lparr>ss_id = i, ss_status = Open, ss_send_buffer = [], ss_recv_buffer = [],
      ss_recv_buffered_bytes = 0, ss_window_size = DEFAULT_WINDOW_SIZE, ss_bytes_sent = 0,
      ss_bytes_received = 0, ss_error = None\<rparr>"

definition queue_send :: "stream_state \<Rightarrow> bytes \<Rightarrow> stream_state \<times> (mux_error + unit)" where
  "queue_send s data =
     (if \<not> can_send (ss_status s) then (s, Inl (StreamClosed (ss_id s)))
      else (s\<lparr>ss_send_buffer := ss_send_buffer s @ [data]\<rparr>, Inr ()))"

definition queue_recv :: "stream_state \<Rightarrow> bytes \<Rightarrow> nat \<Rightarrow> stream_state \<times> (mux_error + unit)" where
  "queue_recv s data max_recv_buffer_bytes =
     (if \<not> can_receive (ss_status s) then (s, Inl (StreamClosed (ss_id s)))
      else let next_buffered = usize_saturating_add (ss_recv_buffered_bytes s) (length data)
           in if next_buffered > max_recv_buffer_bytes then (s, Inl ReceiveBufferFull)
              else (s\<lparr>ss_bytes_received := ss_bytes_received s + of_nat (length data),
                      ss_recv_buffered_bytes := next_buffered,
                      ss_recv_buffer := ss_recv_buffer s @ [data]\<rparr>, Inr ()))"

definition take_send :: "stream_state \<Rightarrow> stream_state \<times> bytes option" where
  "take_send s =
     (case ss_send_buffer s of
        [] \<Rightarrow> (s, None)
      | data # rest \<Rightarrow>
          (s\<lparr>ss_send_buffer := rest, ss_bytes_sent := ss_bytes_sent s + of_nat (length data)\<rparr>,
           Some data))"

definition take_recv :: "stream_state \<Rightarrow> stream_state \<times> bytes option" where
  "take_recv s =
     (case ss_recv_buffer s of
        [] \<Rightarrow> (s, None)
      | data # rest \<Rightarrow>
          (s\<lparr>ss_recv_buffer := rest,
             ss_recv_buffered_bytes := ss_recv_buffered_bytes s - length data\<rparr>, Some data))"

definition close_local :: "stream_state \<Rightarrow> stream_state" where
  "close_local s =
     s\<lparr>ss_status := (case ss_status s of
         Open \<Rightarrow> HalfClosedLocal | HalfClosedRemote \<Rightarrow> Closed | other \<Rightarrow> other)\<rparr>"

definition close_remote :: "stream_state \<Rightarrow> stream_state" where
  "close_remote s =
     s\<lparr>ss_status := (case ss_status s of
         Open \<Rightarrow> HalfClosedRemote | HalfClosedLocal \<Rightarrow> Closed | other \<Rightarrow> other)\<rparr>"

definition stream_state_reset :: "stream_state \<Rightarrow> string option \<Rightarrow> stream_state" where
  "stream_state_reset s error = s\<lparr>ss_status := Reset, ss_error := error, ss_send_buffer := []\<rparr>"

section \<open>The connection\<close>

record mux =
  mx_streams :: "(u16, stream_state) hmap"
  mx_next_stream_id :: u16
  mx_send_queue :: "(mux_header \<times> bytes) list"
  mx_max_send_queue_len :: nat
  mx_max_recv_buffer_bytes :: nat
  mx_closed :: bool
  mx_bytes_sent :: u64
  mx_bytes_received :: u64
  mx_stream_count :: u16

definition mux_with_limits :: "nat \<Rightarrow> nat \<Rightarrow> mux" where
  "mux_with_limits max_send_queue_len max_recv_buffer_bytes =
     \<lparr>mx_streams = [], mx_next_stream_id = 1, mx_send_queue = [],
      mx_max_send_queue_len = max_send_queue_len,
      mx_max_recv_buffer_bytes = max_recv_buffer_bytes, mx_closed = False, mx_bytes_sent = 0,
      mx_bytes_received = 0, mx_stream_count = 0\<rparr>"

definition mux_new :: mux where
  "mux_new = mux_with_limits DEFAULT_MAX_SEND_QUEUE_LEN DEFAULT_MAX_RECV_BUFFER_BYTES"

definition queue_frame :: "mux \<Rightarrow> mux_header \<Rightarrow> bytes \<Rightarrow> mux \<times> (mux_error + unit)" where
  "queue_frame c h payload =
     (if mx_closed c then (c, Inl ConnectionClosed)
      else if length (mx_send_queue c) \<ge> mx_max_send_queue_len c then (c, Inl SendBufferFull)
      else (c\<lparr>mx_send_queue := mx_send_queue c @ [(h, payload)]\<rparr>, Inr ()))"

definition remove_stream :: "mux \<Rightarrow> u16 \<Rightarrow> mux" where
  "remove_stream c i =
     (if hm_contains (mx_streams c) i
      then c\<lparr>mx_streams := hm_remove i (mx_streams c), mx_stream_count := mx_stream_count c - 1\<rparr>
      else c)"

text \<open>Registering a stream and announcing it with a \<open>SYN\<close> or \<open>ACK\<close> frame, undone when the
  announcement cannot be queued: the common tail of \<open>open_stream\<close> and \<open>accept_stream\<close>.\<close>

definition register_stream :: "mux \<Rightarrow> u16 \<Rightarrow> mux_header \<Rightarrow> mux \<times> (mux_error + unit)" where
  "register_stream c i h =
     (if hm_contains (mx_streams c) i then (c, Inl (StreamAlreadyExists i))
      else
        let c1 = c\<lparr>mx_streams := hm_insert i (stream_state_new i) (mx_streams c),
                   mx_stream_count := mx_stream_count c + 1\<rparr>
        in case queue_frame c1 h [] of
             (c2, Inl e) \<Rightarrow>
               (c2\<lparr>mx_streams := hm_remove i (mx_streams c2),
                   mx_stream_count := mx_stream_count c2 - 1\<rparr>, Inl e)
           | (c2, Inr _) \<Rightarrow> (c2, Inr ()))"

definition open_stream :: "mux \<Rightarrow> mux \<times> (mux_error + u16)" where
  "open_stream c =
     (if mx_closed c then (c, Inl ConnectionClosed)
      else if mx_stream_count c \<ge> MAX_STREAMS then (c, Inl TooManyStreams)
      else
        let id0 = mx_next_stream_id c;
            c1 = c\<lparr>mx_next_stream_id := id0 + 1\<rparr>;
            (i, c2) = (if id0 = 0
                       then (mx_next_stream_id c1, c1\<lparr>mx_next_stream_id := mx_next_stream_id c1 + 1\<rparr>)
                       else (id0, c1))
        in if i = 0 then (c2, Inl TooManyStreams)
           else case register_stream c2 i (header_syn i) of
             (c3, Inl e) \<Rightarrow> (c3, Inl e)
           | (c3, Inr _) \<Rightarrow> (c3, Inr i))"

definition accept_stream :: "mux \<Rightarrow> u16 \<Rightarrow> mux \<times> (mux_error + unit)" where
  "accept_stream c i =
     (if mx_closed c then (c, Inl ConnectionClosed)
      else if i = CONTROL_STREAM then (c, Inl InvalidStreamId)
      else if mx_stream_count c \<ge> MAX_STREAMS then (c, Inl TooManyStreams)
      else register_stream c i (header_ack i))"

text \<open>Writing one stream's state back into the registry.\<close>

definition put_stream :: "mux \<Rightarrow> u16 \<Rightarrow> stream_state \<Rightarrow> mux" where
  "put_stream c i s = c\<lparr>mx_streams := hm_insert i s (mx_streams c)\<rparr>"

definition mux_send :: "mux \<Rightarrow> u16 \<Rightarrow> bytes \<Rightarrow> mux \<times> (mux_error + unit)" where
  "mux_send c i data =
     (if mx_closed c then (c, Inl ConnectionClosed)
      else case hm_get (mx_streams c) i of
        None \<Rightarrow> (c, Inl (StreamNotFound i))
      | Some s \<Rightarrow>
          (case queue_send s data of
             (_, Inl e) \<Rightarrow> (c, Inl e)
           | (s1, Inr _) \<Rightarrow>
               (case queue_frame (put_stream c i s1) (header_data i (of_nat (length data))) data of
                  (c2, Inl e) \<Rightarrow>
                    (put_stream c2 i (s1\<lparr>ss_send_buffer := butlast (ss_send_buffer s1)\<rparr>), Inl e)
                | (c2, Inr _) \<Rightarrow> (c2, Inr ()))))"

definition mux_recv :: "mux \<Rightarrow> u16 \<Rightarrow> mux \<times> (mux_error + bytes option)" where
  "mux_recv c i =
     (if mx_closed c then (c, Inl ConnectionClosed)
      else case hm_get (mx_streams c) i of
        None \<Rightarrow> (c, Inl (StreamNotFound i))
      | Some s \<Rightarrow>
          (if ss_status s = Reset then (c, Inl (StreamError i))
           else case take_recv s of (s1, r) \<Rightarrow> (put_stream c i s1, Inr r)))"

definition close_stream :: "mux \<Rightarrow> u16 \<Rightarrow> mux \<times> (mux_error + unit)" where
  "close_stream c i =
     (case hm_get (mx_streams c) i of
        None \<Rightarrow> (c, Inl (StreamNotFound i))
      | Some s \<Rightarrow> queue_frame (put_stream c i (close_local s)) (header_fin i) [])"

definition reset_stream :: "mux \<Rightarrow> u16 \<Rightarrow> string option \<Rightarrow> mux \<times> (mux_error + unit)" where
  "reset_stream c i error =
     (case hm_get (mx_streams c) i of
        None \<Rightarrow> (c, Inl (StreamNotFound i))
      | Some s \<Rightarrow> queue_frame (put_stream c i (stream_state_reset s error)) (header_rst i) [])"

definition validate_frame_shape :: "mux_header \<Rightarrow> nat \<Rightarrow> mux_error + unit" where
  "validate_frame_shape h payload_len =
     (let f = sh_flags h in
      if sh_reserved h \<noteq> 0 then Inl (ProtocolError ''reserved frame byte must be zero'')
      else if has_unknown_bits f then Inl (ProtocolError ''unknown frame flag bits set'')
      else if is_control h then
        if \<not> flags_is_empty f then Inl (ProtocolError ''control stream flags are unsupported'')
        else if payload_len \<noteq> 0
          then Inl (ProtocolError ''control frame payload not supported'')
        else Inr ()
      else if is_syn f \<and> f \<noteq> FL_SYN
        then Inl (ProtocolError ''SYN frame must not combine control flags'')
      else if is_syn f \<and> payload_len \<noteq> 0
        then Inl (ProtocolError ''SYN frame payload not supported'')
      else if is_fin f \<and> is_rst f then Inl (ProtocolError ''FIN and RST flags conflict'')
      else if payload_len \<noteq> 0 \<and> (is_fin f \<or> is_rst f \<or> is_ack f)
        then Inl (ProtocolError ''stream control frame payload not supported'')
      else Inr ())"

definition process_control_frame :: "bytes \<Rightarrow> mux_error + unit" where
  "process_control_frame payload =
     (if payload \<noteq> [] then Inl (ProtocolError ''control frame payload not supported'') else Inr ())"

definition process_frame :: "mux \<Rightarrow> mux_header \<Rightarrow> bytes \<Rightarrow> mux \<times> (mux_error + unit)" where
  "process_frame c h payload =
     (if mx_closed c then (c, Inl ConnectionClosed)
      else
        let i = sh_stream_id h;
            c = c\<lparr>mx_bytes_received := mx_bytes_received c + of_nat (STREAM_HEADER_SIZE + length payload)\<rparr>
        in if unat (sh_length h) \<noteq> length payload
             then (c, Inl (ProtocolError ''frame length mismatch''))
           else case validate_frame_shape h (length payload) of
             Inl e \<Rightarrow> (c, Inl e)
           | Inr _ \<Rightarrow>
               if is_control h then (c, process_control_frame payload)
               else if is_syn (sh_flags h) then accept_stream c i
               else case hm_get (mx_streams c) i of
                 None \<Rightarrow> queue_frame c (header_rst i) []
               | Some s \<Rightarrow>
                   if is_rst (sh_flags h)
                     then (put_stream c i (stream_state_reset s (Some ''Remote reset'')), Inr ())
                   else if is_fin (sh_flags h) then
                     let s1 = close_remote s; c1 = put_stream c i s1
                     in (if status_is_closed (ss_status s1) then remove_stream c1 i else c1, Inr ())
                   else if payload \<noteq> [] then
                     (case queue_recv s payload (mx_max_recv_buffer_bytes c) of
                        (s1, Inl e) \<Rightarrow>
                          (if e = ReceiveBufferFull
                           then put_stream c i (stream_state_reset s1 (Some ''Receive buffer full''))
                           else c, Inl e)
                      | (s1, Inr _) \<Rightarrow> (put_stream c i s1, Inr ()))
                   else (c, Inr ()))"

definition take_frame :: "mux \<Rightarrow> mux \<times> (mux_header \<times> bytes) option" where
  "take_frame c =
     (case mx_send_queue c of
        [] \<Rightarrow> (c, None)
      | frame # rest \<Rightarrow>
          (c\<lparr>mx_send_queue := rest,
             mx_bytes_sent := mx_bytes_sent c + of_nat (STREAM_HEADER_SIZE + length (snd frame))\<rparr>,
           Some frame))"

definition rollback_stream_open :: "mux \<Rightarrow> u16 \<Rightarrow> mux" where
  "rollback_stream_open c i =
     (let c1 = remove_stream c i
      in c1\<lparr>mx_send_queue := filter (\<lambda>(h, _). sh_stream_id h \<noteq> i) (mx_send_queue c1)\<rparr>)"

definition encode_frame :: "mux_header \<Rightarrow> bytes \<Rightarrow> bytes" where
  "encode_frame h payload = header_encode h [] @ payload"

definition mux_stream_status :: "mux \<Rightarrow> u16 \<Rightarrow> mux_error + stream_status" where
  "mux_stream_status c i =
     (case hm_get (mx_streams c) i of
        None \<Rightarrow> Inl (StreamNotFound i) | Some s \<Rightarrow> Inr (ss_status s))"

text \<open>Closing resets every stream and then drops them all; nobody can observe the reset states of
  the dropped registry.\<close>

definition mux_close :: "mux \<Rightarrow> mux" where
  "mux_close c = c\<lparr>mx_closed := True, mx_send_queue := [], mx_streams := [], mx_stream_count := 0\<rparr>"

section \<open>The connection as a machine\<close>

datatype mux_op = MuxOpen | MuxAccept u16 | MuxSend u16 bytes | MuxRecv u16 | MuxClose u16
  | MuxReset u16 "string option" | MuxProcess mux_header bytes | MuxTake | MuxRollback u16
  | MuxCloseConnection

datatype mux_out = UnitOut "mux_error + unit" | IdOut "mux_error + u16"
  | DataOut "mux_error + bytes option" | FrameOut "(mux_header \<times> bytes) option" | NoOut

fun mux_step :: "mux \<Rightarrow> mux_op \<Rightarrow> mux \<times> mux_out" where
  "mux_step c MuxOpen = map_prod id IdOut (open_stream c)"
| "mux_step c (MuxAccept i) = map_prod id UnitOut (accept_stream c i)"
| "mux_step c (MuxSend i data) = map_prod id UnitOut (mux_send c i data)"
| "mux_step c (MuxRecv i) = map_prod id DataOut (mux_recv c i)"
| "mux_step c (MuxClose i) = map_prod id UnitOut (close_stream c i)"
| "mux_step c (MuxReset i e) = map_prod id UnitOut (reset_stream c i e)"
| "mux_step c (MuxProcess h payload) = map_prod id UnitOut (process_frame c h payload)"
| "mux_step c MuxTake = map_prod id FrameOut (take_frame c)"
| "mux_step c (MuxRollback i) = (rollback_stream_open c i, NoOut)"
| "mux_step c MuxCloseConnection = (mux_close c, NoOut)"

section \<open>Registry invariant\<close>

text \<open>A stream's unread bytes are counted exactly and stay within the limit.\<close>

definition stream_ok :: "nat \<Rightarrow> u16 \<Rightarrow> stream_state \<Rightarrow> bool" where
  "stream_ok max_recv i s \<longleftrightarrow>
     ss_id s = i \<and> i \<noteq> 0 \<and> ss_recv_buffered_bytes s = sum_list (map length (ss_recv_buffer s)) \<and>
     ss_recv_buffered_bytes s \<le> max_recv"

definition mux_inv :: "mux \<Rightarrow> bool" where
  "mux_inv c \<longleftrightarrow>
     hm_wf (mx_streams c) \<and>
     (\<forall>i s. hm_get (mx_streams c) i = Some s \<longrightarrow> stream_ok (mx_max_recv_buffer_bytes c) i s) \<and>
     unat (mx_stream_count c) = hm_len (mx_streams c) \<and>
     length (mx_send_queue c) \<le> mx_max_send_queue_len c \<and>
     mx_max_recv_buffer_bytes c < 2 ^ 64 - 1 \<and>
     (mx_closed c \<longrightarrow> mx_streams c = [] \<and> mx_send_queue c = [])"

lemma stream_ok_new: "i \<noteq> 0 \<Longrightarrow> stream_ok m i (stream_state_new i)"
  by (simp add: stream_ok_def stream_state_new_def)

lemma stream_ok_status [simp]:
  "stream_ok m i s \<Longrightarrow> stream_ok m i (close_local s)"
  "stream_ok m i s \<Longrightarrow> stream_ok m i (close_remote s)"
  "stream_ok m i s \<Longrightarrow> stream_ok m i (stream_state_reset s e)"
  "stream_ok m i s \<Longrightarrow> stream_ok m i (s\<lparr>ss_send_buffer := b\<rparr>)"
  by (simp_all add: stream_ok_def close_local_def close_remote_def stream_state_reset_def)

lemma stream_ok_queue_send: "stream_ok m i s \<Longrightarrow> stream_ok m i (fst (queue_send s data))"
  by (simp add: queue_send_def)

lemma stream_ok_take_recv: "stream_ok m i s \<Longrightarrow> stream_ok m i (fst (take_recv s))"
  by (auto simp: stream_ok_def take_recv_def split: list.split)

lemma saturating_add_exact:
  "m < 18446744073709551615 \<Longrightarrow> usize_saturating_add a b \<le> m \<Longrightarrow> usize_saturating_add a b = a + b"
  by (simp add: usize_saturating_add_def min_def split: if_splits)

lemma stream_ok_queue_recv:
  "m < 2 ^ 64 - 1 \<Longrightarrow> stream_ok m i s \<Longrightarrow> stream_ok m i (fst (queue_recv s data m))"
  by (auto simp: stream_ok_def queue_recv_def Let_def not_less
      intro: saturating_add_exact)

lemma mux_inv_ignores [simp]:
  "mux_inv (c\<lparr>mx_next_stream_id := n\<rparr>) = mux_inv c"
  "mux_inv (c\<lparr>mx_bytes_sent := b\<rparr>) = mux_inv c"
  "mux_inv (c\<lparr>mx_bytes_received := b\<rparr>) = mux_inv c"
  by (simp_all add: mux_inv_def)

lemma mux_invD:
  assumes "mux_inv c"
  shows "hm_wf (mx_streams c)"
    and "hm_get (mx_streams c) i = Some s \<Longrightarrow> stream_ok (mx_max_recv_buffer_bytes c) i s"
    and "unat (mx_stream_count c) = hm_len (mx_streams c)"
    and "length (mx_send_queue c) \<le> mx_max_send_queue_len c"
    and "mx_max_recv_buffer_bytes c < 2 ^ 64 - 1"
  using assms by (simp_all add: mux_inv_def)

lemma mux_inv_put:
  assumes "mux_inv c" and "hm_get (mx_streams c) i = Some s0"
    and "stream_ok (mx_max_recv_buffer_bytes c) i s"
  shows "mux_inv (put_stream c i s)"
proof -
  have "mx_streams c \<noteq> []" using assms(2) by auto
  with assms show ?thesis
    by (auto simp: mux_inv_def put_stream_def hm_len_insert_present)
qed

lemma mux_inv_queue_frame: "mux_inv c \<Longrightarrow> mux_inv (fst (queue_frame c h p))"
  by (auto simp: mux_inv_def queue_frame_def)

lemma queue_frame_fields [simp]:
  "mx_streams (fst (queue_frame c h p)) = mx_streams c"
  "mx_stream_count (fst (queue_frame c h p)) = mx_stream_count c"
  "mx_max_recv_buffer_bytes (fst (queue_frame c h p)) = mx_max_recv_buffer_bytes c"
  by (simp_all add: queue_frame_def)

lemma mux_inv_remove:
  assumes "mux_inv c"
  shows "mux_inv (remove_stream c i)"
proof (cases "hm_contains (mx_streams c) i")
  case True
  then have pos: "0 < hm_len (mx_streams c)"
    by (auto simp: hm_len_def hm_contains_iff)
  then have "unat (mx_stream_count c - 1) = hm_len (mx_streams c) - 1"
    using mux_invD(3) [OF assms] by (simp add: unat_minus_one unat_eq_zero [symmetric])
  moreover have "mx_streams c \<noteq> []" using pos by auto
  ultimately show ?thesis
    using assms True by (auto simp: mux_inv_def remove_stream_def hm_len_remove split: if_splits)
next
  case False
  with assms show ?thesis by (simp add: remove_stream_def)
qed

lemma mux_inv_insert_new:
  assumes "mux_inv c" and "\<not> mx_closed c" and "i \<noteq> 0" and "\<not> hm_contains (mx_streams c) i"
    and "mx_stream_count c < 65535"
  shows "mux_inv (c\<lparr>mx_streams := hm_insert i (stream_state_new i) (mx_streams c),
                   mx_stream_count := mx_stream_count c + 1\<rparr>)"
proof -
  have "unat (mx_stream_count c) < 65535"
    using assms(5) by (simp add: word_less_nat_alt)
  then have "unat (mx_stream_count c + 1) = Suc (unat (mx_stream_count c))"
    by (simp add: unat_word_ariths)
  with assms show ?thesis
    by (auto simp: mux_inv_def hm_len_insert stream_ok_new)
qed

lemma register_stream_eq:
  "register_stream c i h =
     (if hm_contains (mx_streams c) i then (c, Inl (StreamAlreadyExists i))
      else let c1 = c\<lparr>mx_streams := hm_insert i (stream_state_new i) (mx_streams c),
                      mx_stream_count := mx_stream_count c + 1\<rparr>
           in if is_ok (snd (queue_frame c1 h [])) then queue_frame c1 h []
              else (remove_stream (fst (queue_frame c1 h [])) i, snd (queue_frame c1 h [])))"
  by (auto simp: register_stream_def Let_def remove_stream_def split: prod.splits sum.splits)
    (auto simp: queue_frame_def split: if_splits)

lemma mux_inv_register:
  assumes "mux_inv c" and "\<not> mx_closed c" and "i \<noteq> 0" and "mx_stream_count c < 65535"
  shows "mux_inv (fst (register_stream c i h))"
  using assms mux_inv_insert_new [OF assms(1-3)]
  by (simp add: register_stream_eq Let_def mux_inv_queue_frame mux_inv_remove)

lemma mux_inv_accept: "mux_inv c \<Longrightarrow> mux_inv (fst (accept_stream c i))"
  by (simp add: accept_stream_def CONTROL_STREAM_def MAX_STREAMS_def mux_inv_register)

lemma mux_inv_open:
  assumes "mux_inv c"
  shows "mux_inv (fst (open_stream c))"
proof -
  have "mux_inv (fst (case register_stream d i h of (d', Inl e) \<Rightarrow> (d', Inl e) | (d', Inr _) \<Rightarrow> (d', Inr i)))"
    if "mux_inv d" "\<not> mx_closed d" "i \<noteq> 0" "mx_stream_count d < 65535" for d i h
    using mux_inv_register [OF that, of h]
    by (cases "register_stream d i h"; cases "snd (register_stream d i h)") auto
  then show ?thesis
    using assms by (auto simp: open_stream_def Let_def MAX_STREAMS_def not_le)
qed

lemma mux_inv_send:
  assumes inv: "mux_inv c"
  shows "mux_inv (fst (mux_send c i data))"
proof (cases "hm_get (mx_streams c) i")
  case None
  with inv show ?thesis by (simp add: mux_send_def)
next
  case (Some s)
  have ok: "stream_ok (mx_max_recv_buffer_bytes c) i s" using mux_invD(2) [OF inv Some] .
  define s1 where "s1 = s\<lparr>ss_send_buffer := ss_send_buffer s @ [data]\<rparr>"
  define c1 where "c1 = fst (queue_frame (put_stream c i s1) (header_data i (of_nat (length data))) data)"
  have ok1: "stream_ok (mx_max_recv_buffer_bytes c) i s1" using ok by (simp add: s1_def)
  then have inv1: "mux_inv c1"
    using inv Some by (simp add: c1_def mux_inv_queue_frame mux_inv_put)
  have "hm_get (mx_streams c1) i = Some s1" and "mx_max_recv_buffer_bytes c1 = mx_max_recv_buffer_bytes c"
    by (simp_all add: c1_def) (simp_all add: put_stream_def)
  then have "mux_inv (put_stream c1 i (s1\<lparr>ss_send_buffer := ss_send_buffer s\<rparr>))"
    using inv1 ok1 by (simp add: mux_inv_put)
  then have "mux_inv (put_stream c1 i s)" by (simp add: s1_def)
  with inv inv1 Some show ?thesis
    by (auto simp: mux_send_def queue_send_def split: prod.split sum.split)
      (auto simp: c1_def s1_def)
qed

lemma mux_inv_recv: "mux_inv c \<Longrightarrow> mux_inv (fst (mux_recv c i))"
  using stream_ok_take_recv mux_invD(2) [of c i]
  by (auto simp: mux_recv_def split: option.split prod.split) (metis fst_conv mux_inv_put)

lemma mux_inv_close_stream: "mux_inv c \<Longrightarrow> mux_inv (fst (close_stream c i))"
  by (auto simp: close_stream_def mux_inv_queue_frame mux_inv_put mux_invD split: option.split)

lemma mux_inv_reset_stream: "mux_inv c \<Longrightarrow> mux_inv (fst (reset_stream c i e))"
  by (auto simp: reset_stream_def mux_inv_queue_frame mux_inv_put mux_invD split: option.split)

lemma mux_inv_take: "mux_inv c \<Longrightarrow> mux_inv (fst (take_frame c))"
  by (auto simp: take_frame_def mux_inv_def split: list.split)

lemma mux_inv_rollback:
  assumes "mux_inv c"
  shows "mux_inv (rollback_stream_open c i)"
proof -
  have "mux_inv (d\<lparr>mx_send_queue := filter P (mx_send_queue d)\<rparr>)" if "mux_inv d" for d P
    using that by (auto simp: mux_inv_def intro: le_trans [OF length_filter_le])
  then show ?thesis
    using assms by (simp add: rollback_stream_open_def Let_def mux_inv_remove)
qed

lemma mux_inv_close: "mux_inv c \<Longrightarrow> mux_inv (mux_close c)"
  by (simp add: mux_inv_def mux_close_def)

lemma mux_inv_process:
  assumes "mux_inv c"
  shows "mux_inv (fst (process_frame c h payload))"
proof -
  define d where "d = c\<lparr>mx_bytes_received :=
      mx_bytes_received c + of_nat (STREAM_HEADER_SIZE + length payload)\<rparr>"
  define i where "i = sh_stream_id h"
  have inv: "mux_inv d" using assms by (simp add: d_def)
  have put: "mux_inv (put_stream d i t)"
    if "hm_get (mx_streams d) i = Some s" "stream_ok (mx_max_recv_buffer_bytes d) i t" for s t
    using mux_inv_put [OF inv that] .
  have recv: "stream_ok (mx_max_recv_buffer_bytes d) i t"
    if "hm_get (mx_streams d) i = Some s" "queue_recv s payload (mx_max_recv_buffer_bytes d) = (t, r)"
    for s t r
    using stream_ok_queue_recv [OF mux_invD(5) [OF inv] mux_invD(2) [OF inv that(1)], of payload] that
    by simp
  show ?thesis
    using assms inv put recv mux_invD(2) [OF inv, of i]
    unfolding process_frame_def Let_def d_def [symmetric] i_def [symmetric]
    by (auto simp: mux_inv_accept mux_inv_queue_frame mux_inv_remove
        split: sum.split option.split prod.split)
qed

lemmas mux_inv_handlers = mux_inv_open mux_inv_accept mux_inv_send mux_inv_recv
  mux_inv_close_stream mux_inv_reset_stream mux_inv_process mux_inv_take mux_inv_rollback
  mux_inv_close

interpretation mux_machine: invariant_machine mux_step mux_inv
proof
  show "mux_inv (fst (mux_step c a))" if "mux_inv c" for c a
    using that by (cases a) (simp_all add: mux_inv_handlers)
qed

section \<open>Limits and outcomes\<close>

definition mux_limits :: "mux \<Rightarrow> nat \<times> nat" where
  "mux_limits c = (mx_max_send_queue_len c, mx_max_recv_buffer_bytes c)"

lemma mux_limits_ignores [simp]:
  "mux_limits (c\<lparr>mx_streams := a\<rparr>) = mux_limits c"
  "mux_limits (c\<lparr>mx_stream_count := d\<rparr>) = mux_limits c"
  "mux_limits (c\<lparr>mx_send_queue := q\<rparr>) = mux_limits c"
  "mux_limits (c\<lparr>mx_next_stream_id := n\<rparr>) = mux_limits c"
  "mux_limits (c\<lparr>mx_bytes_sent := b\<rparr>) = mux_limits c"
  "mux_limits (c\<lparr>mx_bytes_received := b\<rparr>) = mux_limits c"
  "mux_limits (c\<lparr>mx_closed := b'\<rparr>) = mux_limits c"
  by (simp_all add: mux_limits_def)

lemma mux_limits_parts [simp]:
  "mux_limits (put_stream c i s) = mux_limits c"
  "mux_limits (remove_stream c i) = mux_limits c"
  "mux_limits (fst (queue_frame c h p)) = mux_limits c"
  by (simp_all add: put_stream_def remove_stream_def queue_frame_def)

lemma mux_limits_register [simp]: "mux_limits (fst (register_stream c i h)) = mux_limits c"
  by (simp add: register_stream_eq Let_def)

lemma mux_limits_register' [simp]: "register_stream c i h = (d, r) \<Longrightarrow> mux_limits d = mux_limits c"
  using mux_limits_register [of c i h] by simp

lemma mux_limits_queue' [simp]: "queue_frame c h p = (d, r) \<Longrightarrow> mux_limits d = mux_limits c"
  using mux_limits_parts(3) [of c h p] by simp

lemma mux_limits_accept [simp]: "mux_limits (fst (accept_stream c i)) = mux_limits c"
  by (simp add: accept_stream_def)

lemma mux_limits_open: "mux_limits (fst (open_stream c)) = mux_limits c"
  by (auto simp: open_stream_def Let_def split: prod.split sum.split)

lemma mux_limits_send: "mux_limits (fst (mux_send c i d)) = mux_limits c"
  by (auto simp: mux_send_def split: prod.split sum.split option.split)

lemma mux_limits_recv: "mux_limits (fst (mux_recv c i)) = mux_limits c"
  by (simp add: mux_recv_def split: prod.split option.split)

lemma mux_limits_process: "mux_limits (fst (process_frame c h p)) = mux_limits c"
  by (simp add: process_frame_def Let_def split: prod.split sum.split option.split)

lemma mux_limits_rest:
  "mux_limits (fst (close_stream c i)) = mux_limits c"
  "mux_limits (fst (reset_stream c i e)) = mux_limits c"
  "mux_limits (fst (take_frame c)) = mux_limits c"
  "mux_limits (rollback_stream_open c i) = mux_limits c"
  "mux_limits (mux_close c) = mux_limits c"
  by (simp_all add: close_stream_def reset_stream_def take_frame_def rollback_stream_open_def
      mux_close_def Let_def split: option.split list.split)

lemma mux_limits_step: "mux_limits (fst (mux_step c a)) = mux_limits c"
  by (cases a) (simp_all add: mux_limits_open mux_limits_send mux_limits_recv mux_limits_process
      mux_limits_rest)

lemma mux_limits_run: "mux_limits (run_ops mux_step c ops) = mux_limits c"
  by (induction ops arbitrary: c) (simp_all add: mux_limits_step)

lemma mux_inv_with_limits: "r < 2 ^ 64 - 1 \<Longrightarrow> mux_inv (mux_with_limits q r)"
  by (simp add: mux_inv_def mux_with_limits_def)



text \<open>Accepted frame shapes. A frame passes validation exactly when its reserved byte is zero
  and it is an empty control frame without flags, a data frame (no flags), or an empty frame on a
  data stream flagged FIN, RST, ACK, SYN, FIN with ACK, or RST with ACK.\<close>

theorem valid_frame_shapes:
  "validate_frame_shape h n = Inr () \<longleftrightarrow>
     sh_reserved h = 0 \<and>
     (if sh_stream_id h = 0 then sh_flags h = FL_NONE \<and> n = 0
      else sh_flags h = FL_NONE \<or>
        n = 0 \<and> sh_flags h \<in> {FL_FIN, FL_RST, FL_ACK, FL_SYN, FL_FIN OR FL_ACK, FL_RST OR FL_ACK})"
proof (cases "has_unknown_bits (sh_flags h)")
  case True
  then have "sh_flags h \<notin> {FL_NONE, FL_FIN, FL_RST, FL_ACK, FL_SYN, FL_FIN OR FL_ACK, FL_RST OR FL_ACK}"
    by (auto simp: has_unknown_bits_def mux_flag_defs)
  with True show ?thesis by (auto simp: validate_frame_shape_def Let_def)
next
  case False
  have "sh_flags h \<in> {0, 1, 2, 3, 4, 5, 6, 7, 8, 9, 10, 11, 12, 13, 14, 15}"
    using False by (rule known_mux_flags_cases)
  with False show ?thesis
    unfolding insert_iff empty_iff
    by (elim disjE)
      (simp_all add: validate_frame_shape_def Let_def flag_tests mux_flag_defs is_control_def
        CONTROL_STREAM_def)
qed

section \<open>The stream state machine\<close>

text \<open>A status only moves forward: a side closes once, and a reset is final.\<close>

inductive status_step :: "stream_status \<Rightarrow> stream_status \<Rightarrow> bool" where
  fin_sent: "status_step Open HalfClosedLocal"
| fin_received: "status_step Open HalfClosedRemote"
| fin_sent_last: "status_step HalfClosedRemote Closed"
| fin_received_last: "status_step HalfClosedLocal Closed"
| status_reset: "status_step s Reset"

inductive_cases status_step_closedE: "status_step Closed s"
inductive_cases status_step_resetE: "status_step Reset s"
inductive_simps status_step_simps: "status_step s t"

definition status_leads :: "stream_status \<Rightarrow> stream_status \<Rightarrow> bool" where
  "status_leads s t \<longleftrightarrow> status_step\<^sup>*\<^sup>* s t"

lemma status_leads_refl [simp, intro]: "status_leads s s"
  by (simp add: status_leads_def)

lemma status_leads_close_local [intro]: "status_leads (ss_status s) (ss_status (close_local s))"
  by (cases "ss_status s")
    (auto simp: close_local_def status_leads_def intro: r_into_rtranclp status_step.intros)

lemma status_leads_close_remote [intro]: "status_leads (ss_status s) (ss_status (close_remote s))"
  by (cases "ss_status s")
    (auto simp: close_remote_def status_leads_def intro: r_into_rtranclp status_step.intros)

lemma status_leads_reset [intro]: "status_leads st (ss_status (stream_state_reset s e))"
  by (auto simp: stream_state_reset_def status_leads_def intro: status_reset)

lemma status_leads_reset_final: "status_leads Reset t \<Longrightarrow> t = Reset"
proof -
  have "status_step\<^sup>*\<^sup>* s t \<Longrightarrow> s = Reset \<Longrightarrow> t = Reset" for s
    by (induction rule: rtranclp_induct) (auto elim: status_step_resetE)
  then show "status_leads Reset t \<Longrightarrow> t = Reset" by (simp add: status_leads_def)
qed

lemma status_leads_rights:
  assumes "status_leads s t"
  shows "(can_send t \<longrightarrow> can_send s) \<and> (can_receive t \<longrightarrow> can_receive s)"
  using assms unfolding status_leads_def
  by (induction rule: rtranclp_induct) (auto simp: status_step_simps)

text \<open>The order of the states, from the freshly opened to the reset one: exactly what the steps
  reach.\<close>

instantiation stream_status :: "{order_bot, order_top}"
begin

fun less_eq_stream_status :: "stream_status \<Rightarrow> stream_status \<Rightarrow> bool" where
  "less_eq_stream_status Open t \<longleftrightarrow> True"
| "less_eq_stream_status Closed t \<longleftrightarrow> t = Closed \<or> t = Reset"
| "less_eq_stream_status Reset t \<longleftrightarrow> t = Reset"
| "less_eq_stream_status s t \<longleftrightarrow> s = t \<or> t = Closed \<or> t = Reset"

definition less_stream_status :: "stream_status \<Rightarrow> stream_status \<Rightarrow> bool" where
  "less_stream_status s t \<longleftrightarrow> s \<le> t \<and> \<not> t \<le> s"

definition bot_stream_status :: stream_status where "bot_stream_status = Open"

definition top_stream_status :: stream_status where "top_stream_status = Reset"

instance
proof
  fix s t u :: stream_status
  show "s < t \<longleftrightarrow> s \<le> t \<and> \<not> t \<le> s" by (rule less_stream_status_def)
  show "s \<le> s" by (cases s) simp_all
  show "s \<le> t \<Longrightarrow> t \<le> u \<Longrightarrow> s \<le> u" by (cases s; cases t; cases u) simp_all
  show "s \<le> t \<Longrightarrow> t \<le> s \<Longrightarrow> s = t" by (cases s; cases t) simp_all
  show "bot \<le> s" by (simp add: bot_stream_status_def)
  show "s \<le> top" by (cases s) (simp_all add: top_stream_status_def)
qed

end

lemma status_step_le: "status_step s t \<Longrightarrow> s \<le> t"
  by (cases s; cases t) (simp_all add: status_step_simps)

lemma status_leads_iff_le: "status_leads s t \<longleftrightarrow> s \<le> t"
proof
  show "s \<le> t" if "status_leads s t"
    using that unfolding status_leads_def
    by (induction rule: rtranclp_induct) (auto intro: order_trans status_step_le)
  have two: "status_step s u \<Longrightarrow> status_step u t \<Longrightarrow> status_leads s t" for u
    unfolding status_leads_def by (meson converse_rtranclp_into_rtranclp r_into_rtranclp)
  show "status_leads s t" if "s \<le> t"
    using that two [of HalfClosedLocal]
    by (cases s; cases t) (auto simp: status_leads_def intro: r_into_rtranclp status_step.intros)
qed

definition status_at :: "mux \<Rightarrow> u16 \<Rightarrow> stream_status option" where
  "status_at c i = map_option ss_status (hm_get (mx_streams c) i)"

text \<open>What one handler may do to the stream with a given id: leave it, move it forward, drop it,
  or register a fresh one where there was none.\<close>

definition status_moves :: "stream_status option \<Rightarrow> stream_status option \<Rightarrow> bool" where
  "status_moves a b \<longleftrightarrow>
     (case (a, b) of (Some s, Some t) \<Rightarrow> s \<le> t | (None, Some t) \<Rightarrow> t = Open | _ \<Rightarrow> True)"

lemma status_moves_simps [simp]:
  "status_moves a a" "status_moves a None"
  "status_moves None (Some t) \<longleftrightarrow> t = Open" "status_moves (Some s) (Some t) \<longleftrightarrow> status_leads s t"
  by (simp_all add: status_moves_def status_leads_iff_le split: option.split)

lemma status_moves_same: "hm_get (mx_streams d) i = hm_get (mx_streams c) i \<Longrightarrow>
    status_moves (status_at c i) (status_at d i)"
  by (cases "hm_get (mx_streams c) i") (simp_all add: status_at_def)

lemma status_moves_register:
  assumes "mx_streams c' = mx_streams c"
  shows "status_moves (status_at c i) (status_at (fst (register_stream c' j h)) i)"
  using assms
  by (cases "hm_get (mx_streams c) i")
    (auto simp: status_at_def register_stream_eq Let_def remove_stream_def hm_contains_def
      stream_state_new_def)

lemma status_at_put [simp]:
  "status_at (put_stream c j s) i = (if i = j then Some (ss_status s) else status_at c i)"
  by (simp add: status_at_def put_stream_def)

lemma status_at_queue [simp]: "status_at (fst (queue_frame c h p)) i = status_at c i"
  by (simp add: status_at_def)

lemma status_at_queue': "queue_frame c h p = (d, r) \<Longrightarrow> status_at d = status_at c"
  using status_at_queue [of c h p] by auto

lemma status_at_get: "hm_get (mx_streams c) j = Some s \<Longrightarrow> status_at c j = Some (ss_status s)"
  by (simp add: status_at_def)

lemma queue_send_status: "queue_send s d = (t, r) \<Longrightarrow> ss_status t = ss_status s"
  by (auto simp: queue_send_def split: if_splits)

lemma queue_recv_status: "queue_recv s d m = (t, r) \<Longrightarrow> ss_status t = ss_status s"
  by (auto simp: queue_recv_def Let_def split: if_splits)

lemma take_recv_status: "take_recv s = (t, r) \<Longrightarrow> ss_status t = ss_status s"
  by (auto simp: take_recv_def split: list.splits)

lemma status_moves_open: "status_moves (status_at c i) (status_at (fst (open_stream c)) i)"
proof -
  have "status_moves (status_at c i) (status_at (fst (case register_stream d j h of
      (d', Inl e) \<Rightarrow> (d', Inl e) | (d', Inr _) \<Rightarrow> (d', Inr j))) i)"
    if "mx_streams d = mx_streams c" for d j h
    using status_moves_register [OF that, of i j h]
    by (cases "register_stream d j h"; cases "snd (register_stream d j h)") auto
  then show ?thesis
    by (auto simp: open_stream_def Let_def intro: status_moves_same)
qed

lemma status_moves_accept:
  "mx_streams d = mx_streams c \<Longrightarrow>
   status_moves (status_at c i) (status_at (fst (accept_stream d j)) i)"
  by (auto simp: accept_stream_def intro: status_moves_same status_moves_register)

lemma status_moves_send: "status_moves (status_at c i) (status_at (fst (mux_send c j d)) i)"
  by (auto simp: mux_send_def dest!: status_at_queue' queue_send_status status_at_get
      split: prod.split sum.split option.split)

lemma status_moves_recv: "status_moves (status_at c i) (status_at (fst (mux_recv c j)) i)"
  by (auto simp: mux_recv_def dest!: take_recv_status status_at_get split: option.split prod.split)

lemma status_moves_close_stream:
  "status_moves (status_at c i) (status_at (fst (close_stream c j)) i)"
  by (auto simp: close_stream_def dest!: status_at_get split: option.split)

lemma status_moves_reset_stream:
  "status_moves (status_at c i) (status_at (fst (reset_stream c j e)) i)"
  by (auto simp: reset_stream_def dest!: status_at_get split: option.split)

lemma status_moves_remove:
  "status_moves (status_at c i) (status_at d i) \<Longrightarrow> 
   status_moves (status_at c i) (status_at (remove_stream d j) i)"
  by (auto simp: remove_stream_def status_at_def)

lemma status_moves_rest:
  "status_moves (status_at c i) (status_at (fst (take_frame c)) i)"
  "status_moves (status_at c i) (status_at (rollback_stream_open c j) i)"
  "status_moves (status_at c i) (status_at (mux_close c) i)"
proof -
  show "status_moves (status_at c i) (status_at (fst (take_frame c)) i)"
    by (auto simp: take_frame_def intro: status_moves_same split: list.split)
  have "status_at (rollback_stream_open c j) i = status_at (remove_stream c j) i"
    by (simp add: rollback_stream_open_def Let_def status_at_def)
  then show "status_moves (status_at c i) (status_at (rollback_stream_open c j) i)"
    using status_moves_remove [OF status_moves_same [OF refl]] by simp
  show "status_moves (status_at c i) (status_at (mux_close c) i)"
    by (cases "status_at c i") (simp_all add: status_at_def mux_close_def)
qed

lemma status_moves_process:
  "status_moves (status_at c i) (status_at (fst (process_frame c h p)) i)"
proof -
  define d where "d = c\<lparr>mx_bytes_received :=
      mx_bytes_received c + of_nat (STREAM_HEADER_SIZE + length p)\<rparr>"
  have d: "status_at d = status_at c" "mx_streams d = mx_streams c"
    by (auto simp: d_def status_at_def)
  have "status_moves (status_at d i) (status_at (fst (process_frame c h p)) i)"
    unfolding process_frame_def Let_def d_def [symmetric]
    by (auto simp: status_moves_accept d simp del: status_is_closed.simps
        intro!: status_moves_remove dest!: queue_recv_status status_at_get split: sum.split option.split prod.split)
  then show ?thesis by (simp only: d)
qed

text \<open>Streams only move forward. A local call or an incoming frame leaves a stream's status,
  moves it along the graph open, half-closed, closed (or to reset, which is final), or drops it;
  a status appears only as a freshly opened stream. So no stream regains the right to send or to
  receive while it is registered.\<close>

theorem stream_status_forward:
  "status_moves (status_at c i) (status_at (fst (mux_step c a)) i)"
  by (cases a)
    (simp_all add: status_moves_open status_moves_accept status_moves_send status_moves_recv
      status_moves_close_stream status_moves_reset_stream status_moves_process status_moves_rest)

section \<open>Delivery\<close>

definition data_frame :: "u16 \<Rightarrow> bytes \<Rightarrow> mux_header \<times> bytes" where
  "data_frame i d = (header_data i (of_nat (length d)), d)"

lemma run_sends:
  assumes "\<not> mx_closed c" and "hm_get (mx_streams c) i = Some s" and "can_send (ss_status s)"
    and "length (mx_send_queue c) + length ds \<le> mx_max_send_queue_len c"
  shows "run_outs mux_step c (map (MuxSend i) ds) = map (\<lambda>_. UnitOut (Inr ())) ds \<and>
    mx_send_queue (run_ops mux_step c (map (MuxSend i) ds)) =
      mx_send_queue c @ map (data_frame i) ds"
  using assms
proof (induction ds arbitrary: c s)
  case Nil
  then show ?case by simp
next
  case (Cons d ds)
  define c' where "c' = (put_stream c i (s\<lparr>ss_send_buffer := ss_send_buffer s @ [d]\<rparr>))
      \<lparr>mx_send_queue := mx_send_queue c @ [data_frame i d]\<rparr>"
  have step: "mux_step c (MuxSend i d) = (c', UnitOut (Inr ()))"
    using Cons.prems by (simp add: mux_send_def queue_send_def queue_frame_def c'_def put_stream_def
        data_frame_def)
  have "\<not> mx_closed c'" "mx_send_queue c' = mx_send_queue c @ [data_frame i d]"
    "mx_max_send_queue_len c' = mx_max_send_queue_len c"
    "hm_get (mx_streams c') i = Some (s\<lparr>ss_send_buffer := ss_send_buffer s @ [d]\<rparr>)"
    using Cons.prems by (simp_all add: c'_def put_stream_def)
  with Cons.IH [of c' "s\<lparr>ss_send_buffer := ss_send_buffer s @ [d]\<rparr>"] Cons.prems step
  show ?case by simp
qed

lemma run_takes:
  "mx_send_queue c = fs \<Longrightarrow>
   run_outs mux_step c (replicate (length fs) MuxTake) = map (\<lambda>f. FrameOut (Some f)) fs"
  by (induction fs arbitrary: c) (simp_all add: take_frame_def)

lemma run_processes:
  assumes "\<not> mx_closed c" and "i \<noteq> 0" and "hm_get (mx_streams c) i = Some s"
    and "can_receive (ss_status s)"
    and "ss_recv_buffered_bytes s + sum_list (map length ds) \<le> mx_max_recv_buffer_bytes c"
    and "mx_max_recv_buffer_bytes c < 2 ^ 64 - 1"
    and "\<forall>d \<in> set ds. d \<noteq> [] \<and> length d < 2 ^ 32"
  shows "\<exists>s' c'. run_ops mux_step c (map (\<lambda>d. MuxProcess (fst (data_frame i d)) d) ds) = c' \<and>
    run_outs mux_step c (map (\<lambda>d. MuxProcess (fst (data_frame i d)) d) ds) =
      map (\<lambda>_. UnitOut (Inr ())) ds \<and> \<not> mx_closed c' \<and> hm_get (mx_streams c') i = Some s' \<and>
    ss_recv_buffer s' = ss_recv_buffer s @ ds \<and> ss_status s' = ss_status s"
  using assms
proof (induction ds arbitrary: c s)
  case Nil
  then show ?case by simp
next
  case (Cons d ds)
  let ?h = "header_data i (of_nat (length d))"
  define s1 where "s1 = s\<lparr>ss_bytes_received := ss_bytes_received s + of_nat (length d),
      ss_recv_buffered_bytes := ss_recv_buffered_bytes s + length d,
      ss_recv_buffer := ss_recv_buffer s @ [d]\<rparr>"
  define c1 where "c1 = put_stream (c\<lparr>mx_bytes_received :=
      mx_bytes_received c + of_nat (STREAM_HEADER_SIZE + length d)\<rparr>) i s1"
  have len: "unat (of_nat (length d) :: u32) = length d" and "d \<noteq> []"
    using Cons.prems(7) by (simp_all add: unat_of_nat_small)
  have fits: "ss_recv_buffered_bytes s + length d \<le> mx_max_recv_buffer_bytes c"
    using Cons.prems(5) by simp
  then have "usize_saturating_add (ss_recv_buffered_bytes s) (length d) =
      ss_recv_buffered_bytes s + length d"
    using Cons.prems(6) by (simp add: usize_saturating_add_def)
  then have "queue_recv s d (mx_max_recv_buffer_bytes c) = (s1, Inr ())"
    using Cons.prems(4) fits by (simp add: queue_recv_def Let_def s1_def)
  moreover have "validate_frame_shape ?h (length d) = Inr ()" "\<not> is_control ?h"
    "\<not> is_syn (sh_flags ?h)" "\<not> is_rst (sh_flags ?h)" "\<not> is_fin (sh_flags ?h)"
    using Cons.prems(2)
    by (simp_all add: validate_frame_shape_def Let_def flag_tests mux_flag_defs header_kinds
        is_control_def CONTROL_STREAM_def)
  ultimately have step: "mux_step c (MuxProcess ?h d) = (c1, UnitOut (Inr ()))"
    using Cons.prems(1,3) len \<open>d \<noteq> []\<close>
    by (simp add: process_frame_def Let_def c1_def) (simp add: header_kinds)
  have "\<not> mx_closed c1" "hm_get (mx_streams c1) i = Some s1" "can_receive (ss_status s1)"
    "ss_recv_buffered_bytes s1 + sum_list (map length ds) \<le> mx_max_recv_buffer_bytes c1"
    "mx_max_recv_buffer_bytes c1 < 2 ^ 64 - 1" "ss_status s1 = ss_status s"
    "ss_recv_buffer s1 = ss_recv_buffer s @ [d]"
    using Cons.prems by (simp_all add: c1_def s1_def put_stream_def)
  with Cons.IH [of c1 s1] Cons.prems(2,7) step show ?case by (simp add: data_frame_def)
qed

lemma run_recvs:
  assumes "\<not> mx_closed c" and "hm_get (mx_streams c) i = Some s" and "ss_status s \<noteq> Reset"
    and "ss_recv_buffer s = ds"
  shows "run_outs mux_step c (replicate (Suc (length ds)) (MuxRecv i)) =
    map (\<lambda>d. DataOut (Inr (Some d))) ds @ [DataOut (Inr None)]"
  using assms
proof (induction ds arbitrary: c s)
  case Nil
  then show ?case by (simp add: mux_recv_def take_recv_def)
next
  case (Cons d ds)
  define s1 where "s1 = s\<lparr>ss_recv_buffer := ds,
      ss_recv_buffered_bytes := ss_recv_buffered_bytes s - length d\<rparr>"
  have "mux_step c (MuxRecv i) = (put_stream c i s1, DataOut (Inr (Some d)))"
    using Cons.prems by (simp add: mux_recv_def take_recv_def s1_def)
  moreover have "\<not> mx_closed (put_stream c i s1)"
    "hm_get (mx_streams (put_stream c i s1)) i = Some s1" "ss_status s1 \<noteq> Reset"
    "ss_recv_buffer s1 = ds"
    using Cons.prems by (simp_all add: put_stream_def s1_def)
  ultimately show ?case using Cons.IH [of "put_stream c i s1" s1] by simp
qed



end
