(* ===== verification/Text.thy ===== *)
theory Text
  imports Dcp_Prelude
begin

text \<open>
  Rust strings as lists of Unicode scalar values, with what the components use of the standard
  library: UTF-8 lengths and bytes, strict UTF-8 decoding, ASCII case, substring tests and
  decimal rendering.
\<close>

type_synonym "text" = "nat list"

definition ascii :: "string \<Rightarrow> text" where
  "ascii s = map (of_char :: char \<Rightarrow> nat) s"

lemma ascii_eq_iff [simp]: "ascii s = ascii t \<longleftrightarrow> s = t"
proof -
  have "inj (of_char :: char \<Rightarrow> nat)" by (simp add: inj_on_def)
  then show ?thesis by (simp add: ascii_def inj_map_eq_map)
qed

lemma ascii_small: "\<forall>c \<in> set (ascii s). c < 256"
  by (auto simp: ascii_def)

definition is_scalar :: "nat \<Rightarrow> bool" where
  "is_scalar c \<longleftrightarrow> c < 0xD800 \<or> 0xE000 \<le> c \<and> c < 0x110000"

section \<open>UTF-8\<close>

definition utf8_char :: "nat \<Rightarrow> nat list" where
  "utf8_char c =
     (if c < 0x80 then [c]
      else if c < 0x800 then [0xC0 + c div 64, 0x80 + c mod 64]
      else if c < 0x10000 then [0xE0 + c div 4096, 0x80 + c div 64 mod 64, 0x80 + c mod 64]
      else [0xF0 + c div 262144, 0x80 + c div 4096 mod 64, 0x80 + c div 64 mod 64, 0x80 + c mod 64])"

definition utf8_bytes :: "text \<Rightarrow> bytes" where
  "utf8_bytes t = map of_nat (concat (map utf8_char t))"

definition len_utf8 :: "nat \<Rightarrow> nat" where
  "len_utf8 c = (if c < 0x80 then 1 else if c < 0x800 then 2 else if c < 0x10000 then 3 else 4)"

definition text_len :: "text \<Rightarrow> nat" where
  "text_len t = sum_list (map len_utf8 t)"

definition cont_byte :: "nat \<Rightarrow> bool" where
  "cont_byte b \<longleftrightarrow> 0x80 \<le> b \<and> b < 0xC0"

text \<open>Strict decoding: shortest forms only, no surrogates, nothing above \<open>U+10FFFF\<close>.\<close>

fun utf8_decode :: "nat list \<Rightarrow> text option" where
  "utf8_decode [] = Some []"
| "utf8_decode (a # bs) =
     (if a < 0x80 then map_option ((#) a) (utf8_decode bs)
      else case bs of
        [] \<Rightarrow> None
      | b # bs1 \<Rightarrow>
          (if 0xC2 \<le> a \<and> a < 0xE0 then
             (if cont_byte b then map_option ((#) ((a - 0xC0) * 64 + (b - 0x80))) (utf8_decode bs1)
              else None)
           else case bs1 of
             [] \<Rightarrow> None
           | c # bs2 \<Rightarrow>
               (if 0xE0 \<le> a \<and> a < 0xF0 then
                  (let x = (a - 0xE0) * 4096 + (b - 0x80) * 64 + (c - 0x80)
                   in if cont_byte b \<and> cont_byte c \<and> 0x800 \<le> x \<and> is_scalar x
                      then map_option ((#) x) (utf8_decode bs2) else None)
                else case bs2 of
                  [] \<Rightarrow> None
                | d # bs3 \<Rightarrow>
                    (let x = (a - 0xF0) * 262144 + (b - 0x80) * 4096 + (c - 0x80) * 64 + (d - 0x80)
                     in if 0xF0 \<le> a \<and> a < 0xF5 \<and> cont_byte b \<and> cont_byte c \<and> cont_byte d \<and>
                           0x10000 \<le> x \<and> is_scalar x
                        then map_option ((#) x) (utf8_decode bs3) else None))))"

definition from_utf8 :: "bytes \<Rightarrow> text option" where
  "from_utf8 bs = utf8_decode (map unat bs)"

lemma utf8_decode_char:
  assumes "is_scalar c"
  shows "utf8_decode (utf8_char c @ bs) = map_option ((#) c) (utf8_decode bs)"
proof -
  consider "c < 0x80" | "0x80 \<le> c" "c < 0x800" | "0x800 \<le> c" "c < 0x10000"
    | "0x10000 \<le> c" "c < 0x110000"
    using assms unfolding is_scalar_def by linarith
  then show ?thesis
  proof cases
    case 1
    then show ?thesis by (simp add: utf8_char_def)
  next
    case 2
    define q where "q = c div 64"
    have "2 \<le> q" "q < 32" "q * 64 + c mod 64 = c" using 2 by (simp_all add: q_def)
    with 2 show ?thesis by (simp add: utf8_char_def cont_byte_def flip: q_def)
  next
    case 3
    define q r where "q = c div 64" and "r = c div 4096"
    have r: "r = q div 64" by (simp add: q_def r_def flip: div_mult2_eq)
    have "r < 16" using 3 by (simp add: r_def div_less_iff_less_mult)
    moreover have "r * 4096 + q mod 64 * 64 + c mod 64 = c"
      using div_mult_mod_eq [of q 64] div_mult_mod_eq [of c 64] unfolding r q_def by linarith
    ultimately show ?thesis
      using 3 assms by (simp add: utf8_char_def cont_byte_def Let_def flip: q_def r_def)
  next
    case 4
    define q r u where "q = c div 64" and "r = c div 4096" and "u = c div 262144"
    have r: "r = q div 64" and u: "u = r div 64"
      by (simp_all add: q_def r_def u_def flip: div_mult2_eq)
    have "u < 5" using 4 by (simp add: u_def div_less_iff_less_mult)
    moreover have "u * 262144 + r mod 64 * 4096 + q mod 64 * 64 + c mod 64 = c"
      using div_mult_mod_eq [of r 64] div_mult_mod_eq [of q 64] div_mult_mod_eq [of c 64]
      unfolding u r q_def by linarith
    ultimately show ?thesis
      using 4 assms by (simp add: utf8_char_def cont_byte_def Let_def flip: q_def r_def u_def)
  qed
qed

lemma utf8_char_bytes: "is_scalar c \<Longrightarrow> \<forall>b \<in> set (utf8_char c). b < 256"
  by (auto simp: utf8_char_def is_scalar_def div_less_iff_less_mult)

lemma length_utf8_char: "length (utf8_char c) = len_utf8 c"
  by (simp add: utf8_char_def len_utf8_def)

lemma length_utf8_bytes: "length (utf8_bytes t) = text_len t"
  by (induction t) (simp_all add: utf8_bytes_def text_len_def length_utf8_char)

lemma from_utf8_bytes:
  assumes "\<forall>c \<in> set t. is_scalar c"
  shows "from_utf8 (utf8_bytes t) = Some t"
proof -
  have small: "\<forall>b \<in> set (concat (map utf8_char t)). b < 256"
    using assms utf8_char_bytes by auto
  have "unat (of_nat b :: u8) = b" if "b < 256" for b
    using that by (simp add: unat_of_nat_small)
  with small have "map unat (utf8_bytes t) = concat (map utf8_char t)"
    unfolding utf8_bytes_def map_map comp_def by (intro map_idI) blast
  moreover have "utf8_decode (concat (map utf8_char t)) = Some t"
    using assms by (induction t) (simp_all add: utf8_decode_char)
  ultimately show ?thesis by (simp add: from_utf8_def)
qed

lemma base64_digits: "(s :: nat) < 64 \<Longrightarrow> (y * 64 + s) div 64 = y" "s < 64 \<Longrightarrow> (y * 64 + s) mod 64 = s"
  by simp_all

lemma utf8_char_of:
  "0xC2 \<le> a \<Longrightarrow> a < 0xE0 \<Longrightarrow> cont_byte b \<Longrightarrow> utf8_char ((a - 0xC0) * 64 + (b - 0x80)) = [a, b]"
  "0xE0 \<le> a \<Longrightarrow> a < 0xF0 \<Longrightarrow> cont_byte b \<Longrightarrow> cont_byte c \<Longrightarrow>
   x = (a - 0xE0) * 4096 + (b - 0x80) * 64 + (c - 0x80) \<Longrightarrow> 0x800 \<le> x \<Longrightarrow> utf8_char x = [a, b, c]"
  "0xF0 \<le> a \<Longrightarrow> a < 0xF5 \<Longrightarrow> cont_byte b \<Longrightarrow> cont_byte c \<Longrightarrow> cont_byte d \<Longrightarrow>
   x = (a - 0xF0) * 262144 + (b - 0x80) * 4096 + (c - 0x80) * 64 + (d - 0x80) \<Longrightarrow>
   0x10000 \<le> x \<Longrightarrow> utf8_char x = [a, b, c, d]"
proof -
  assume a: "0xC2 \<le> a" "a < 0xE0" and b: "cont_byte b"
  obtain q r where "a = 0xC0 + q" "b = 0x80 + r" "r < 64" "2 \<le> q" "q < 32"
    using a b by (auto simp: cont_byte_def nat_le_iff_add)
  then show "utf8_char ((a - 0xC0) * 64 + (b - 0x80)) = [a, b]"
    by (auto simp: utf8_char_def)
next
  assume a: "0xE0 \<le> a" "a < 0xF0" and b: "cont_byte b" "cont_byte c"
    and x: "x = (a - 0xE0) * 4096 + (b - 0x80) * 64 + (c - 0x80)" "0x800 \<le> x"
  obtain q r s where q: "a = 0xE0 + q" "b = 0x80 + r" "c = 0x80 + s" "r < 64" "s < 64" "q < 16"
    using a b by (auto simp: cont_byte_def nat_le_iff_add)
  define y where "y = q * 64 + r"
  have xy: "x = y * 64 + s" using x q by (simp add: y_def)
  have "x div 64 = y" "x mod 64 = s" "y div 64 = q" "y mod 64 = r"
    unfolding xy y_def using base64_digits q by blast+
  moreover have "x div 4096 = x div 64 div 64" by (simp flip: div_mult2_eq)
  moreover have "x < 0x10000" using x(1) q by simp
  ultimately show "utf8_char x = [a, b, c]"
    using x(2) q by (simp add: utf8_char_def)
next
  assume a: "0xF0 \<le> a" "a < 0xF5" and b: "cont_byte b" "cont_byte c" "cont_byte d"
    and x: "x = (a - 0xF0) * 262144 + (b - 0x80) * 4096 + (c - 0x80) * 64 + (d - 0x80)" "0x10000 \<le> x"
  obtain q r s u where q: "a = 0xF0 + q" "b = 0x80 + r" "c = 0x80 + s" "d = 0x80 + u" "r < 64" "s < 64" "u < 64"
    using a b by (auto simp: cont_byte_def nat_le_iff_add)
  define y where "y = q * 64 + r"
  define z where "z = y * 64 + s"
  have xz: "x = z * 64 + u" using x q by (simp add: y_def z_def)
  have "x div 64 = z" "x mod 64 = u" "z div 64 = y" "z mod 64 = s" "y div 64 = q" "y mod 64 = r"
    unfolding xz z_def y_def using base64_digits q by blast+
  moreover have "x div 4096 = x div 64 div 64" "x div 262144 = x div 64 div 64 div 64"
    by (simp_all flip: div_mult2_eq)
  ultimately have parts: "x div 262144 = q" "x div 4096 mod 64 = r" "x div 64 mod 64 = s" "x mod 64 = u" by simp_all
  have "utf8_char x = [0xF0 + x div 262144, 0x80 + x div 4096 mod 64, 0x80 + x div 64 mod 64, 0x80 + x mod 64]"
    using x(2) by (simp add: utf8_char_def)
  then show "utf8_char x = [a, b, c, d]" unfolding parts using q by simp
qed

lemma utf8_decode_sound:
  "utf8_decode bs = Some t \<Longrightarrow> concat (map utf8_char t) = bs \<and> (\<forall>c \<in> set t. is_scalar c)"
proof (induction bs arbitrary: t rule: utf8_decode.induct)
  case (2 a bs)
  show ?case
  proof (cases "a < 0x80")
    case True
    then obtain t' where t: "utf8_decode bs = Some t'" "t = a # t'" using 2(5) by auto
    from 2(1) [OF True t(1)] True show ?thesis by (simp add: t(2) utf8_char_def is_scalar_def)
  next
    case a: False
    with 2(5) obtain b bs1 where b: "bs = b # bs1" by (cases bs) auto
    show ?thesis
    proof (cases "0xC2 \<le> a \<and> a < 0xE0")
      case True
      with 2(5) a b obtain t' where t: "cont_byte b" "utf8_decode bs1 = Some t'"
        "t = ((a - 0xC0) * 64 + (b - 0x80)) # t'" by (auto split: if_splits)
      have "is_scalar ((a - 0xC0) * 64 + (b - 0x80))" using True t(1) by (auto simp: is_scalar_def cont_byte_def)
      with t 2(2) [OF a b True t(1,2)] True b utf8_char_of(1) [of a b] show ?thesis by simp
    next
      case a2: False
      with 2(5) a b obtain c bs2 where c: "bs1 = c # bs2" by (cases bs1) auto
      show ?thesis
      proof (cases "0xE0 \<le> a \<and> a < 0xF0")
        case True
        define x where "x = (a - 0xE0) * 4096 + (b - 0x80) * 64 + (c - 0x80)"
        from 2(5) a a2 b c True obtain t' where t: "cont_byte b \<and> cont_byte c \<and> 0x800 \<le> x \<and> is_scalar x"
          "utf8_decode bs2 = Some t'" "t = x # t'" by (auto simp: x_def Let_def split: if_splits)
        then show ?thesis
          using 2(3) [OF a b a2 c True x_def t(1,2)] True b c utf8_char_of(2) [OF _ _ _ _ x_def] by simp
      next
        case a3: False
        with 2(5) a a2 b c obtain d bs3 where d: "bs2 = d # bs3" by (cases bs2) auto
        define x where "x = (a - 0xF0) * 262144 + (b - 0x80) * 4096 + (c - 0x80) * 64 + (d - 0x80)"
        from 2(5) a a2 a3 b c d obtain t' where t: "0xF0 \<le> a \<and> a < 0xF5 \<and> cont_byte b \<and> cont_byte c \<and>
            cont_byte d \<and> 0x10000 \<le> x \<and> is_scalar x"
          "utf8_decode bs3 = Some t'" "t = x # t'" by (auto simp: x_def Let_def split: if_splits)
        then show ?thesis
          using 2(4) [OF a b a2 c a3 d x_def t(1,2)] b c d utf8_char_of(3) [OF _ _ _ _ _ x_def] by simp
      qed
    qed
  qed
qed simp

text \<open>Decoding accepts exactly the encodings of scalar values.\<close>

lemma from_utf8_iff: "from_utf8 bs = Some t \<longleftrightarrow> (\<forall>c \<in> set t. is_scalar c) \<and> bs = utf8_bytes t"
proof
  assume "from_utf8 bs = Some t"
  then have "concat (map utf8_char t) = map unat bs" "\<forall>c \<in> set t. is_scalar c"
    using utf8_decode_sound by (simp_all add: from_utf8_def)
  moreover from this have "utf8_bytes t = map (of_nat \<circ> unat) bs"
    by (simp add: utf8_bytes_def)
  ultimately show "(\<forall>c \<in> set t. is_scalar c) \<and> bs = utf8_bytes t" by (simp add: comp_def)
qed (simp add: from_utf8_bytes)

section \<open>ASCII and substrings\<close>

definition is_ascii_uppercase :: "nat \<Rightarrow> bool" where
  "is_ascii_uppercase c \<longleftrightarrow> 65 \<le> c \<and> c \<le> 90"

definition is_ascii_lowercase :: "nat \<Rightarrow> bool" where
  "is_ascii_lowercase c \<longleftrightarrow> 97 \<le> c \<and> c \<le> 122"

definition is_ascii_digit :: "nat \<Rightarrow> bool" where
  "is_ascii_digit c \<longleftrightarrow> 48 \<le> c \<and> c \<le> 57"

definition ascii_lower :: "nat \<Rightarrow> nat" where
  "ascii_lower c = (if is_ascii_uppercase c then c + 32 else c)"

definition to_ascii_lowercase :: "text \<Rightarrow> text" where
  "to_ascii_lowercase t = map ascii_lower t"

fun starts_with :: "text \<Rightarrow> text \<Rightarrow> bool" where
  "starts_with [] t = True"
| "starts_with (p # ps) [] = False"
| "starts_with (p # ps) (x # xs) = (p = x \<and> starts_with ps xs)"

fun contains_text :: "text \<Rightarrow> text \<Rightarrow> bool" where
  "contains_text p [] = (p = [])"
| "contains_text p (x # xs) = (starts_with p (x # xs) \<or> contains_text p xs)"

lemma starts_with_iff: "starts_with p t \<longleftrightarrow> (\<exists>r. t = p @ r)"
  by (induction p t rule: starts_with.induct) auto

lemma contains_text_iff: "contains_text p t \<longleftrightarrow> (\<exists>l r. t = l @ p @ r)"
proof (induction t)
  case Nil
  then show ?case by simp
next
  case (Cons x xs)
  show ?case
  proof
    assume "contains_text p (x # xs)"
    then consider r where "x # xs = p @ r" | l r where "xs = l @ p @ r"
      using Cons by (auto simp: starts_with_iff)
    then show "\<exists>l r. x # xs = l @ p @ r" by cases (metis append_Nil, metis append_Cons)
  next
    assume "\<exists>l r. x # xs = l @ p @ r"
    then obtain l r where eq: "x # xs = l @ p @ r" by blast
    show "contains_text p (x # xs)"
    proof (cases l)
      case Nil
      with eq have "starts_with p (x # xs)" by (auto simp: starts_with_iff)
      then show ?thesis by simp
    next
      case l: (Cons y ys)
      with eq have "contains_text p xs" using Cons.IH by auto
      then show ?thesis by simp
    qed
  qed
qed

text \<open>\<open>char::is_control\<close>: the general category Cc.\<close>

definition char_is_control :: "nat \<Rightarrow> bool" where
  "char_is_control c \<longleftrightarrow> c < 32 \<or> 127 \<le> c \<and> c < 160"

section \<open>Decimal\<close>

fun decimal :: "nat \<Rightarrow> text" where
  "decimal n = (if n < 10 then [48 + n] else decimal (n div 10) @ [48 + n mod 10])"

declare decimal.simps [simp del]

lemma decimal_digits: "\<forall>c \<in> set (decimal n). 48 \<le> c \<and> c \<le> 57"
proof (induction n rule: decimal.induct)
  case (1 n)
  then show ?case by (subst decimal.simps) auto
qed

text \<open>Different numbers are written differently.\<close>

definition decimal_value :: "text \<Rightarrow> nat" where
  "decimal_value t = foldl (\<lambda>a c. a * 10 + (c - 48)) 0 t"

lemma decimal_value_decimal: "decimal_value (decimal n) = n"
proof (induction n rule: decimal.induct)
  case (1 n)
  show ?case
  proof (cases "n < 10")
    case True
    then show ?thesis by (subst decimal.simps) (simp add: decimal_value_def)
  next
    case False
    then have "decimal n = decimal (n div 10) @ [48 + n mod 10]" by (subst decimal.simps) simp
    moreover have "decimal_value (decimal (n div 10) @ [48 + n mod 10]) =
        decimal_value (decimal (n div 10)) * 10 + n mod 10"
      by (simp add: decimal_value_def)
    ultimately show ?thesis using 1 [OF False] by simp
  qed
qed

lemma decimal_inject [simp]: "decimal m = decimal n \<longleftrightarrow> m = n"
  by (metis decimal_value_decimal)

definition decimal_int :: "int \<Rightarrow> text" where
  "decimal_int i = (if i < 0 then 45 # decimal (nat (- i)) else decimal (nat i))"

lemma decimal_not_minus: "decimal n \<noteq> 45 # t"
  using decimal_digits [of n] by auto

lemma decimal_int_inject [simp]: "decimal_int i = decimal_int j \<longleftrightarrow> i = j"
  using decimal_not_minus decimal_not_minus [THEN not_sym] by (auto simp: decimal_int_def)

end
