(* ===== verification/Schema.thy ===== *)
theory Schema
  imports Invocation Text
begin

text \<open>
  Shared arguments and their bounds-checked reads (\<open>src/src/dispatch/handler.rs\<close>), tool schemas and
  the argument validator (\<open>src/src/protocol/schema.rs\<close>). A 32- or 64-bit value is its bit pattern;
  signed values and floats are read from it.
\<close>

section \<open>Shared arguments\<close>

record shared_args =
  sa_data :: bytes
  sa_layout :: u64

text \<open>The guard every read shares: the checked end of the range and the bounds test.\<close>

definition checked_range :: "shared_args \<Rightarrow> nat \<Rightarrow> nat \<Rightarrow> dcp_error + bytes" where
  "checked_range a offset len =
     (case usize_checked_add offset len of
        None \<Rightarrow> Inl OutOfBounds
      | Some end_ \<Rightarrow>
          if end_ > length (sa_data a) then Inl OutOfBounds
          else Inr (slice offset end_ (sa_data a)))"

definition read_bytes_at :: "shared_args \<Rightarrow> nat \<Rightarrow> nat \<Rightarrow> dcp_error + bytes" where
  "read_bytes_at a offset len = checked_range a offset len"

definition read_str_at :: "shared_args \<Rightarrow> nat \<Rightarrow> nat \<Rightarrow> dcp_error + text" where
  "read_str_at a offset len =
     bind_result (checked_range a offset len) (\<lambda>bs.
       case from_utf8 bs of None \<Rightarrow> Inl ValidationFailed | Some t \<Rightarrow> Inr t)"

definition read_i32_at :: "shared_args \<Rightarrow> nat \<Rightarrow> dcp_error + int" where
  "read_i32_at a offset =
     bind_result (checked_range a offset 4) (\<lambda>bs. Inr (sint (le_word bs :: u32)))"

definition read_u32_at :: "shared_args \<Rightarrow> nat \<Rightarrow> dcp_error + u32" where
  "read_u32_at a offset = bind_result (checked_range a offset 4) (\<lambda>bs. Inr (le_word bs))"

definition read_i64_at :: "shared_args \<Rightarrow> nat \<Rightarrow> dcp_error + int" where
  "read_i64_at a offset =
     bind_result (checked_range a offset 8) (\<lambda>bs. Inr (sint (le_word bs :: u64)))"

text \<open>The bit pattern of the \<open>f64\<close>.\<close>

definition read_f64_at :: "shared_args \<Rightarrow> nat \<Rightarrow> dcp_error + u64" where
  "read_f64_at a offset = bind_result (checked_range a offset 8) (\<lambda>bs. Inr (le_word bs))"

definition read_bool_at :: "shared_args \<Rightarrow> nat \<Rightarrow> dcp_error + bool" where
  "read_bool_at a offset =
     (if offset \<ge> length (sa_data a) then Inl OutOfBounds else Inr (sa_data a ! offset \<noteq> 0))"

datatype tool_result = ToolSuccess bytes | ToolEmpty | ToolError dcp_error

fun tool_is_success :: "tool_result \<Rightarrow> bool" where
  "tool_is_success (ToolSuccess d) = True"
| "tool_is_success ToolEmpty = True"
| "tool_is_success (ToolError e) = False"

fun tool_payload :: "tool_result \<Rightarrow> bytes option" where
  "tool_payload (ToolSuccess d) = Some d"
| "tool_payload ToolEmpty = Some []"
| "tool_payload (ToolError e) = None"

section \<open>Schemas\<close>

record field_def =
  fd_name :: "text"
  fd_field_type :: arg_type
  fd_offset :: u16
  fd_size :: u16
  fd_enum_range :: "(u8 \<times> u8) option"

record input_schema =
  is_required_mask :: u64
  is_fields :: "field_def list"

record tool_schema =
  ts_name :: "text"
  ts_id :: u16
  ts_description :: "text"
  ts_input :: input_schema

definition input_schema_new :: input_schema where
  "input_schema_new = \<lparr>is_required_mask = 0, is_fields = []\<rparr>"

definition add_field :: "input_schema \<Rightarrow> field_def \<Rightarrow> input_schema" where
  "add_field s f = s\<lparr>is_fields := is_fields s @ [f]\<rparr>"

definition set_required :: "input_schema \<Rightarrow> nat \<Rightarrow> input_schema" where
  "set_required s i =
     (if i < 64 then s\<lparr>is_required_mask := is_required_mask s OR push_bit i 1\<rparr> else s)"

definition is_required :: "input_schema \<Rightarrow> nat \<Rightarrow> bool" where
  "is_required s i = (if i \<ge> 64 then False else is_required_mask s AND push_bit i 1 \<noteq> 0)"

definition field_new :: "text \<Rightarrow> arg_type \<Rightarrow> u16 \<Rightarrow> u16 \<Rightarrow> field_def" where
  "field_new name t offset sz =
     \<lparr>fd_name = name, fd_field_type = t, fd_offset = offset, fd_size = sz, fd_enum_range = None\<rparr>"

definition field_new_enum :: "text \<Rightarrow> u16 \<Rightarrow> u16 \<Rightarrow> u8 \<Rightarrow> u8 \<Rightarrow> field_def" where
  "field_new_enum name offset sz mn mx =
     \<lparr>fd_name = name, fd_field_type = ArgI32, fd_offset = offset, fd_size = sz,
      fd_enum_range = Some (mn, mx)\<rparr>"

section \<open>Validation\<close>

definition validate_required :: "input_schema \<Rightarrow> u64 \<Rightarrow> dcp_error + unit" where
  "validate_required s present_mask =
     (if is_required_mask s AND NOT present_mask \<noteq> 0 then Inl ValidationFailed else Inr ())"

definition validate_enum :: "field_def \<Rightarrow> u8 \<Rightarrow> dcp_error + unit" where
  "validate_enum f value =
     (case fd_enum_range f of
        None \<Rightarrow> Inr ()
      | Some (mn, mx) \<Rightarrow> if value < mn \<or> value > mx then Inl ValidationFailed else Inr ())"

fun validate_enum_values :: "input_schema \<Rightarrow> (nat \<times> u8) list \<Rightarrow> dcp_error + unit" where
  "validate_enum_values s [] = Inr ()"
| "validate_enum_values s ((i, value) # vs) =
     (if i < length (is_fields s)
      then bind_result (validate_enum (is_fields s ! i) value) (\<lambda>_. validate_enum_values s vs)
      else Inl ValidationFailed)"

definition validate_input :: "input_schema \<Rightarrow> u64 \<Rightarrow> (nat \<times> u8) list \<Rightarrow> dcp_error + unit" where
  "validate_input s present_mask field_values =
     bind_result (validate_required s present_mask) (\<lambda>_. validate_enum_values s field_values)"

definition arg_type_from_layout :: "u64 \<Rightarrow> nat \<Rightarrow> dcp_error + arg_type" where
  "arg_type_from_layout layout i =
     (case arg_type_from_u8 (layout_nibble layout i) of
        None \<Rightarrow> Inl ValidationFailed | Some t \<Rightarrow> Inr t)"

text \<open>The enumeration test on a present field's first byte.\<close>

definition check_enum_field :: "shared_args \<Rightarrow> field_def \<Rightarrow> dcp_error + unit" where
  "check_enum_field a f =
     (if fd_enum_range f \<noteq> None then
        (if unat (fd_offset f) < length (sa_data a)
         then validate_enum f (sa_data a ! unat (fd_offset f))
         else Inl OutOfBounds)
      else Inr ())"

text \<open>The first loop of \<open>validate_shared_args\<close>: field by field, with the mask of present fields and
  the end of the declared data so far.\<close>

fun check_fields ::
  "shared_args \<Rightarrow> nat \<Rightarrow> field_def list \<Rightarrow> u64 \<times> nat \<Rightarrow> dcp_error + u64 \<times> nat" where
  "check_fields a idx [] acc = Inr acc"
| "check_fields a idx (f # fs) (present_mask, declared_data_len) =
     (if idx \<ge> 16 then Inl ValidationFailed
      else bind_result (arg_type_from_layout (sa_layout a) idx) (\<lambda>actual_type.
        if actual_type = ArgNull then check_fields a (idx + 1) fs (present_mask, declared_data_len)
        else if actual_type \<noteq> fd_field_type f then Inl ValidationFailed
        else case usize_checked_add (unat (fd_offset f)) (unat (fd_size f)) of
          None \<Rightarrow> Inl OutOfBounds
        | Some end_ \<Rightarrow>
            if end_ > length (sa_data a) then Inl OutOfBounds
            else bind_result (check_enum_field a f) (\<lambda>_.
              check_fields a (idx + 1) fs
                (present_mask OR push_bit idx 1, max declared_data_len end_))))"

text \<open>The second loop: no argument beyond the declared fields.\<close>

fun check_undeclared :: "shared_args \<Rightarrow> nat list \<Rightarrow> dcp_error + unit" where
  "check_undeclared a [] = Inr ()"
| "check_undeclared a (idx # is) =
     bind_result (arg_type_from_layout (sa_layout a) idx) (\<lambda>t.
       if t \<noteq> ArgNull then Inl ValidationFailed else check_undeclared a is)"

definition validate_shared_args :: "input_schema \<Rightarrow> shared_args \<Rightarrow> dcp_error + unit" where
  "validate_shared_args s a =
     bind_result (check_fields a 0 (is_fields s) (0, 0)) (\<lambda>(present_mask, declared_data_len).
     bind_result (check_undeclared a [length (is_fields s)..<16]) (\<lambda>_.
       if length (sa_data a) > declared_data_len then Inl ValidationFailed
       else validate_required s present_mask))"

section \<open>What the validator accepts\<close>

definition arg_at :: "shared_args \<Rightarrow> nat \<Rightarrow> arg_type option" where
  "arg_at a i = arg_type_from_u8 (layout_nibble (sa_layout a) i)"

definition field_end :: "field_def \<Rightarrow> nat" where
  "field_end f = unat (fd_offset f) + unat (fd_size f)"

text \<open>A field that is present has its declared type, lies inside the data, and its first byte is in
  the enumeration range when it has one.\<close>

definition field_fits :: "shared_args \<Rightarrow> field_def \<Rightarrow> bool" where
  "field_fits a f \<longleftrightarrow>
     field_end f \<le> length (sa_data a) \<and>
     (case fd_enum_range f of
        None \<Rightarrow> True
      | Some (mn, mx) \<Rightarrow> unat (fd_offset f) < length (sa_data a) \<and>
          mn \<le> sa_data a ! unat (fd_offset f) \<and> sa_data a ! unat (fd_offset f) \<le> mx)"

definition present :: "shared_args \<Rightarrow> input_schema \<Rightarrow> nat \<Rightarrow> bool" where
  "present a s i \<longleftrightarrow> i < length (is_fields s) \<and> arg_at a i \<noteq> Some ArgNull"

definition args_accepted :: "input_schema \<Rightarrow> shared_args \<Rightarrow> bool" where
  "args_accepted s a \<longleftrightarrow>
     length (is_fields s) \<le> 16 \<and>
     (\<forall>i < length (is_fields s). arg_at a i = Some ArgNull \<or>
        arg_at a i = Some (fd_field_type (is_fields s ! i)) \<and> field_fits a (is_fields s ! i)) \<and>
     (\<forall>i < 16. length (is_fields s) \<le> i \<longrightarrow> arg_at a i = Some ArgNull) \<and>
     (sa_data a = [] \<or> (\<exists>i. present a s i \<and> length (sa_data a) \<le> field_end (is_fields s ! i))) \<and>
     (\<forall>i < 64. is_required s i \<longrightarrow> present a s i)"

lemma field_end_checked:
  "usize_checked_add (unat (fd_offset f)) (unat (fd_size f)) = Some (field_end f)"
  using unat_u16_less [of "fd_offset f"] unat_u16_less [of "fd_size f"]
  by (simp add: usize_checked_add_def field_end_def)

lemma layout_type_eq:
  "arg_type_from_layout (sa_layout a) i = (case arg_at a i of None \<Rightarrow> Inl ValidationFailed | Some t \<Rightarrow> Inr t)"
  by (simp add: arg_type_from_layout_def arg_at_def)

lemma check_undeclared_iff:
  "check_undeclared a is = Inr () \<longleftrightarrow> (\<forall>i \<in> set is. arg_at a i = Some ArgNull)"
  by (induction "is") (auto simp: layout_type_eq split: option.splits)

text \<open>What the first loop accumulates when it succeeds.\<close>

fun present_acc :: "shared_args \<Rightarrow> nat \<Rightarrow> field_def list \<Rightarrow> u64 \<times> nat \<Rightarrow> u64 \<times> nat" where
  "present_acc a idx [] acc = acc"
| "present_acc a idx (f # fs) (m, d) =
     present_acc a (idx + 1) fs
       (if arg_at a idx = Some ArgNull then (m, d) else (m OR push_bit idx 1, max d (field_end f)))"

definition field_check :: "shared_args \<Rightarrow> nat \<Rightarrow> field_def \<Rightarrow> bool" where
  "field_check a i f \<longleftrightarrow>
     arg_at a i = Some ArgNull \<or> arg_at a i = Some (fd_field_type f) \<and> field_fits a f"

lemma all_less_Cons: "(\<forall>i < length (x # xs). P i ((x # xs) ! i)) \<longleftrightarrow>
    P 0 x \<and> (\<forall>i < length xs. P (Suc i) (xs ! i))"
  by (auto simp: less_Suc_eq_0_disj)

lemma check_enum_field_iff:
  "check_enum_field a f = Inr () \<longleftrightarrow>
     (case fd_enum_range f of None \<Rightarrow> True
      | Some (mn, mx) \<Rightarrow> unat (fd_offset f) < length (sa_data a) \<and>
          mn \<le> sa_data a ! unat (fd_offset f) \<and> sa_data a ! unat (fd_offset f) \<le> mx)"
  by (auto simp: check_enum_field_def validate_enum_def split: option.split)

lemma check_fields_Cons:
  "check_fields a idx (f # fs) (m, d) = Inr r \<longleftrightarrow>
     idx < 16 \<and> field_check a idx f \<and>
     check_fields a (idx + 1) fs
       (if arg_at a idx = Some ArgNull then (m, d) else (m OR push_bit idx 1, max d (field_end f))) = Inr r"
proof (cases "arg_at a idx")
  case None
  then show ?thesis by (simp add: layout_type_eq field_check_def)
next
  case (Some t)
  have fits: "field_fits a f \<longleftrightarrow> field_end f \<le> length (sa_data a) \<and> check_enum_field a f = Inr ()"
    by (simp add: field_fits_def check_enum_field_iff)
  show ?thesis
    using Some
    by (simp add: layout_type_eq field_end_checked field_check_def bind_result_eq_Inr fits not_less)
qed

lemma check_fields_iff:
  "check_fields a idx fs acc = Inr r \<longleftrightarrow>
     (fs = [] \<or> idx + length fs \<le> 16) \<and>
     (\<forall>i < length fs. field_check a (idx + i) (fs ! i)) \<and> r = present_acc a idx fs acc"
proof (induction fs arbitrary: idx acc)
  case Nil
  then show ?case by auto
next
  case (Cons f fs)
  obtain m d where acc: "acc = (m, d)" by (cases acc)
  have "(\<forall>i < length (f # fs). field_check a (idx + i) ((f # fs) ! i)) \<longleftrightarrow>
      field_check a idx f \<and> (\<forall>i < length fs. field_check a (idx + 1 + i) (fs ! i))"
    using all_less_Cons [of f fs "\<lambda>i. field_check a (idx + i)"] by simp
  then show ?case
    unfolding acc check_fields_Cons Cons.IH by (cases fs) auto
qed

lemma bit_present_acc:
  "idx + length fs \<le> 64 \<Longrightarrow>
   bit (fst (present_acc a idx fs acc)) k \<longleftrightarrow>
     bit (fst acc) k \<or> (\<exists>i < length fs. k = idx + i \<and> arg_at a (idx + i) \<noteq> Some ArgNull)"
proof (induction fs arbitrary: idx acc)
  case Nil
  then show ?case by simp
next
  case (Cons f fs)
  obtain m d where acc: "acc = (m, d)" by (cases acc)
  show ?case
    using Cons by (auto simp: acc bit_or_iff bit_exp_iff less_Suc_eq_0_disj)
qed

lemma present_acc_end:
  "n \<le> snd (present_acc a idx fs acc) \<longleftrightarrow>
     n \<le> snd acc \<or> (\<exists>i < length fs. arg_at a (idx + i) \<noteq> Some ArgNull \<and> n \<le> field_end (fs ! i))"
proof (induction fs arbitrary: idx acc)
  case Nil
  then show ?case by simp
next
  case (Cons f fs)
  obtain m d where acc: "acc = (m, d)" by (cases acc)
  have "(\<exists>i < length (f # fs). arg_at a (idx + i) \<noteq> Some ArgNull \<and> n \<le> field_end ((f # fs) ! i)) \<longleftrightarrow>
      (arg_at a idx \<noteq> Some ArgNull \<and> n \<le> field_end f) \<or>
      (\<exists>i < length fs. arg_at a (idx + 1 + i) \<noteq> Some ArgNull \<and> n \<le> field_end (fs ! i))"
    by (auto simp: less_Suc_eq_0_disj)
  then show ?case unfolding acc present_acc.simps Cons.IH by (auto simp: le_max_iff_disj)
qed

lemma validate_required_iff:
  "validate_required s pm = Inr () \<longleftrightarrow> (\<forall>i < 64. is_required s i \<longrightarrow> bit pm i)"
proof -
  have "is_required_mask s AND NOT pm = 0 \<longleftrightarrow> (\<forall>i < 64. bit (is_required_mask s) i \<longrightarrow> bit pm i)"
    by (auto simp: bit_eq_iff bit_and_iff bit_not_iff)
  moreover have "is_required s i \<longleftrightarrow> i < 64 \<and> bit (is_required_mask s) i" for i
    by (simp add: is_required_def bit_iff_and_push_bit_not_eq_0)
  ultimately show ?thesis by (auto simp: validate_required_def)
qed

lemma validate_shared_args_parts:
  "validate_shared_args s a = Inr () \<longleftrightarrow>
     length (is_fields s) \<le> 16 \<and> (\<forall>i < length (is_fields s). field_check a i (is_fields s ! i)) \<and>
     (\<forall>i \<in> set [length (is_fields s)..<16]. arg_at a i = Some ArgNull) \<and>
     length (sa_data a) \<le> snd (present_acc a 0 (is_fields s) (0, 0)) \<and>
     validate_required s (fst (present_acc a 0 (is_fields s) (0, 0))) = Inr ()"
proof -
  have "validate_shared_args s a = Inr () \<longleftrightarrow>
      (\<exists>r. check_fields a 0 (is_fields s) (0, 0) = Inr r \<and>
        check_undeclared a [length (is_fields s)..<16] = Inr () \<and>
        length (sa_data a) \<le> snd r \<and> validate_required s (fst r) = Inr ())"
    by (auto simp: validate_shared_args_def bind_result_eq_Inr split_beta not_less split: if_splits)
  then show ?thesis unfolding check_fields_iff check_undeclared_iff by auto
qed

lemma validate_accepts:
  "validate_shared_args s a = Inr () \<longleftrightarrow> args_accepted s a"
proof (cases "length (is_fields s) \<le> 16")
  case True
  let ?acc = "present_acc a 0 (is_fields s) (0, 0)"
  have bits: "bit (fst ?acc) i \<longleftrightarrow> present a s i" for i
    using bit_present_acc [of 0 "is_fields s" a "(0, 0)" i] True by (auto simp: present_def)
  have ends: "length (sa_data a) \<le> snd ?acc \<longleftrightarrow>
      sa_data a = [] \<or> (\<exists>i. present a s i \<and> length (sa_data a) \<le> field_end (is_fields s ! i))"
    using present_acc_end [of "length (sa_data a)" a 0 "is_fields s" "(0, 0)"]
    by (auto simp: present_def)
  have rest: "(\<forall>i \<in> set [length (is_fields s)..<16]. arg_at a i = Some ArgNull) \<longleftrightarrow>
      (\<forall>i < 16. length (is_fields s) \<le> i \<longrightarrow> arg_at a i = Some ArgNull)"
    by auto
  show ?thesis
    unfolding validate_shared_args_parts args_accepted_def validate_required_iff bits ends rest
      field_check_def by blast
next
  case False
  then show ?thesis by (simp add: validate_shared_args_parts args_accepted_def)
qed


lemma checked_range_eq:
  "checked_range a offset len =
     (if offset + len < 2 ^ 64 \<and> offset + len \<le> length (sa_data a)
      then Inr (slice offset (offset + len) (sa_data a)) else Inl OutOfBounds)"
  by (simp add: checked_range_def usize_checked_add_def)

lemma checked_range_hit:
  "length pre + length bs < 2 ^ 64 \<Longrightarrow> n = length bs \<Longrightarrow>
   checked_range \<lparr>sa_data = pre @ bs @ post, sa_layout = l\<rparr> (length pre) n = Inr bs"
  by (simp add: checked_range_eq slice_def)

text \<open>Reads stay in bounds and invert the encodings. A read succeeds exactly when its range
  lies inside the argument bytes, without wrapping at the word size; at the place where an integer,
  a float or a string was written it returns that value.\<close>

theorem shared_args_reads:
  assumes "length pre + 8 < 2 ^ 64" and "length pre + text_len t < 2 ^ 64"
    and "\<forall>c \<in> set t. is_scalar c"
  shows "read_bytes_at a offset len =
      (if offset + len < 2 ^ 64 \<and> offset + len \<le> length (sa_data a)
       then Inr (slice offset (offset + len) (sa_data a)) else Inl OutOfBounds) \<and>
    read_u32_at \<lparr>sa_data = pre @ le_bytes 4 w @ post, sa_layout = l\<rparr> (length pre) = Inr w \<and>
    read_i32_at \<lparr>sa_data = pre @ le_bytes 4 w @ post, sa_layout = l\<rparr> (length pre) = Inr (sint w) \<and>
    read_i64_at \<lparr>sa_data = pre @ le_bytes 8 v @ post, sa_layout = l\<rparr> (length pre) = Inr (sint v) \<and>
    read_f64_at \<lparr>sa_data = pre @ le_bytes 8 v @ post, sa_layout = l\<rparr> (length pre) = Inr v \<and>
    read_str_at \<lparr>sa_data = pre @ utf8_bytes t @ post, sa_layout = l\<rparr> (length pre) (text_len t) = Inr t"
proof (intro conjI)
  show "read_bytes_at a offset len =
      (if offset + len < 2 ^ 64 \<and> offset + len \<le> length (sa_data a)
       then Inr (slice offset (offset + len) (sa_data a)) else Inl OutOfBounds)"
    by (simp only: read_bytes_at_def checked_range_eq)
  have four: "checked_range \<lparr>sa_data = pre @ le_bytes 4 w @ post, sa_layout = l\<rparr> (length pre) 4 =
      Inr (le_bytes 4 w)"
    using assms(1) by (intro checked_range_hit) simp_all
  have eight: "checked_range \<lparr>sa_data = pre @ le_bytes 8 v @ post, sa_layout = l\<rparr> (length pre) 8 =
      Inr (le_bytes 8 v)"
    using assms(1) by (intro checked_range_hit) simp_all
  show "read_u32_at \<lparr>sa_data = pre @ le_bytes 4 w @ post, sa_layout = l\<rparr> (length pre) = Inr w"
    "read_i32_at \<lparr>sa_data = pre @ le_bytes 4 w @ post, sa_layout = l\<rparr> (length pre) = Inr (sint w)"
    by (simp_all add: read_u32_at_def read_i32_at_def four)
  show "read_i64_at \<lparr>sa_data = pre @ le_bytes 8 v @ post, sa_layout = l\<rparr> (length pre) = Inr (sint v)"
    "read_f64_at \<lparr>sa_data = pre @ le_bytes 8 v @ post, sa_layout = l\<rparr> (length pre) = Inr v"
    by (simp_all add: read_i64_at_def read_f64_at_def eight)
  have "checked_range \<lparr>sa_data = pre @ utf8_bytes t @ post, sa_layout = l\<rparr> (length pre) (text_len t) =
      Inr (utf8_bytes t)"
    using assms(2) by (intro checked_range_hit) (simp_all add: length_utf8_bytes)
  then show "read_str_at \<lparr>sa_data = pre @ utf8_bytes t @ post, sa_layout = l\<rparr> (length pre) (text_len t) =
      Inr t"
    using from_utf8_bytes [OF assms(3)] by (simp add: read_str_at_def)
qed

lemma shared_args_reads_witness:
  "read_str_at \<lparr>sa_data = [9] @ utf8_bytes [72, 233] @ [1], sa_layout = 0\<rparr> (length [9 :: u8])
     (text_len [72, 233]) = Inr [72, 233] \<and>
   read_i32_at \<lparr>sa_data = [9] @ le_bytes 4 (0xFFFFFFFE :: u32) @ [1], sa_layout = 0\<rparr>
     (length [9 :: u8]) = Inr (sint (0xFFFFFFFE :: u32))"
proof -
  have "length [9 :: u8] + 8 < 2 ^ 64" "length [9 :: u8] + text_len [72, 233] < 2 ^ 64"
    "\<forall>c \<in> set [72, 233]. is_scalar c"
    by (simp_all add: text_len_def len_utf8_def is_scalar_def)
  from shared_args_reads [OF this, of undefined 0 0 "0xFFFFFFFE" "[1]" 0 0] show ?thesis by blast
qed

end
