(* ===== verification/Json.thy ===== *)
theory Json
  imports Text Hash_Map "HOL-Library.List_Lexorder"
begin

text \<open>
  JSON values as the code sees them through \<open>serde_json::Value\<close>. A number keeps the variant
  \<open>serde_json\<close> holds it in: a \<open>u64\<close>, a negative \<open>i64\<close>, or a double, which stays a bit pattern here.
  An object is a \<open>BTreeMap\<close> from strings, a list of entries in the order of the keys; strings
  compare by code points, which is the order of their UTF-8 bytes.
\<close>

datatype json_number = PosInt u64 | NegInt "64 word" | FloatBits "64 word"

datatype json = JNull | JBool bool | JNumber json_number | JString "text" | JArray "json list"
  | JObject "(text \<times> json) list"

type_synonym json_map = "(text \<times> json) list"

section \<open>Objects\<close>

fun jm_insert :: "text \<Rightarrow> json \<Rightarrow> json_map \<Rightarrow> json_map" where
  "jm_insert k v [] = [(k, v)]"
| "jm_insert k v ((j, w) # m) =
     (if k = j then (k, v) # m
      else if k < j then (k, v) # (j, w) # m
      else (j, w) # jm_insert k v m)"

definition jm_get :: "json_map \<Rightarrow> text \<Rightarrow> json option" where
  "jm_get m k = map_of m k"

definition jm_contains :: "json_map \<Rightarrow> text \<Rightarrow> bool" where
  "jm_contains m k \<longleftrightarrow> jm_get m k \<noteq> None"

definition jm_remove :: "text \<Rightarrow> json_map \<Rightarrow> json_map" where
  "jm_remove k m = filter (\<lambda>(j, v). j \<noteq> k) m"

text \<open>The map of an object literal: its entries inserted one after the other.\<close>

definition jm_of_list :: "(text \<times> json) list \<Rightarrow> json_map" where
  "jm_of_list kvs = fold (\<lambda>(k, v). jm_insert k v) kvs []"

definition jm_wf :: "json_map \<Rightarrow> bool" where
  "jm_wf m \<longleftrightarrow> sorted_wrt (<) (map fst m)"

lemma jm_get_Nil [simp]: "jm_get [] k = None"
  by (simp add: jm_get_def)

lemma jm_get_insert [simp]: "jm_get (jm_insert k v m) j = (if j = k then Some v else jm_get m j)"
  by (induction k v m rule: jm_insert.induct) (auto simp: jm_get_def)

lemma jm_get_remove [simp]: "jm_get (jm_remove k m) j = (if j = k then None else jm_get m j)"
  by (induction m) (auto simp: jm_get_def jm_remove_def)

lemma jm_contains_insert [simp]: "jm_contains (jm_insert k v m) j \<longleftrightarrow> j = k \<or> jm_contains m j"
  by (simp add: jm_contains_def)

lemma jm_contains_iff: "jm_contains m k \<longleftrightarrow> k \<in> fst ` set m"
  by (simp add: jm_contains_def jm_get_def map_of_eq_None_iff)

lemma jm_get_SomeD: "jm_get m k = Some v \<Longrightarrow> (k, v) \<in> set m"
  by (simp add: jm_get_def map_of_SomeD)

lemma jm_insert_entries: "set (jm_insert k v m) \<subseteq> insert (k, v) (set m)"
  by (induction k v m rule: jm_insert.induct) auto

lemma jm_insert_keys: "fst ` set (jm_insert k v m) = insert k (fst ` set m)"
  by (induction k v m rule: jm_insert.induct) auto

lemma jm_wf_Nil [simp]: "jm_wf []"
  by (simp add: jm_wf_def)

lemma jm_wf_insert [simp, intro]: "jm_wf m \<Longrightarrow> jm_wf (jm_insert k v m)"
proof (induction k v m rule: jm_insert.induct)
  case (2 k v j w m)
  then show ?case
    using jm_insert_keys [of k v m] by (auto simp: jm_wf_def dest: order_less_trans)
qed (simp add: jm_wf_def)

lemma jm_wf_remove [simp, intro]: "jm_wf m \<Longrightarrow> jm_wf (jm_remove k m)"
  unfolding jm_wf_def jm_remove_def by (induction m) auto

lemma jm_wf_fold: "jm_wf m \<Longrightarrow> jm_wf (fold (\<lambda>(k, v). jm_insert k v) kvs m)"
  by (induction kvs arbitrary: m) auto

lemma jm_wf_of_list [simp, intro]: "jm_wf (jm_of_list kvs)"
  by (simp add: jm_of_list_def jm_wf_fold)

text \<open>Two maps with the same lookups are the same list of entries.\<close>

lemma jm_wf_distinct: "jm_wf m \<Longrightarrow> distinct (map fst m)"
  by (auto simp: jm_wf_def strict_sorted_iff)

lemma jm_ext:
  assumes "jm_wf m" and "jm_wf n" and "\<And>k. jm_get m k = jm_get n k"
  shows "m = n"
proof (rule map_sorted_distinct_set_unique)
  have "map_of m = map_of n" using assms(3) by (auto simp: jm_get_def)
  then show eq: "set m = set n"
    using jm_wf_distinct [OF assms(1)] jm_wf_distinct [OF assms(2)] by (simp only: map_of_inject_set)
  show "sorted (map fst m)" "distinct (map fst m)" "sorted (map fst n)" "distinct (map fst n)"
    using assms(1,2) by (simp_all add: jm_wf_def strict_sorted_iff)
  show "inj_on fst (set m \<union> set n)"
    using jm_wf_distinct [OF assms(1)] unfolding distinct_map by (simp add: eq)
qed

section \<open>Values\<close>

definition as_str :: "json \<Rightarrow> text option" where
  "as_str v = (case v of JString s \<Rightarrow> Some s | _ \<Rightarrow> None)"

definition as_object :: "json \<Rightarrow> json_map option" where
  "as_object v = (case v of JObject m \<Rightarrow> Some m | _ \<Rightarrow> None)"

definition as_array :: "json \<Rightarrow> json list option" where
  "as_array v = (case v of JArray vs \<Rightarrow> Some vs | _ \<Rightarrow> None)"

definition as_bool :: "json \<Rightarrow> bool option" where
  "as_bool v = (case v of JBool b \<Rightarrow> Some b | _ \<Rightarrow> None)"

definition number_as_i64 :: "json_number \<Rightarrow> 64 word option" where
  "number_as_i64 n =
     (case n of
        PosInt u \<Rightarrow> if unat u < 2 ^ 63 then Some u else None
      | NegInt i \<Rightarrow> Some i
      | FloatBits b \<Rightarrow> None)"

definition number_as_u64 :: "json_number \<Rightarrow> u64 option" where
  "number_as_u64 n = (case n of PosInt u \<Rightarrow> Some u | _ \<Rightarrow> None)"

text \<open>\<open>Number::from\<close> for a signed integer.\<close>

definition number_from_i64 :: "64 word \<Rightarrow> json_number" where
  "number_from_i64 i = (if sint i < 0 then NegInt i else PosInt i)"

definition json_get :: "json \<Rightarrow> text \<Rightarrow> json option" where
  "json_get v k = (case v of JObject m \<Rightarrow> jm_get m k | _ \<Rightarrow> None)"

definition json_object :: "(text \<times> json) list \<Rightarrow> json" where
  "json_object kvs = JObject (jm_of_list kvs)"

lemma number_as_i64_from [simp]: "number_as_i64 (number_from_i64 i) = Some i"
proof (cases "sint i < 0")
  case False
  then have "\<not> bit i 63" using bit_last_iff [of i] by simp
  then have "take_bit (Suc 63) (uint i) = take_bit 63 (uint i)"
    by (simp only: take_bit_Suc_from_most) (simp add: bit_uint_iff)
  moreover have "take_bit (Suc 63) (uint i) = uint i"
    using uint_lt2p [of i] by (intro take_bit_int_eq_self) simp_all
  ultimately have "uint i < 2 ^ 63" using take_bit_int_less_exp [of 63 "uint i"] by simp
  then have "unat i < 2 ^ 63" by (simp add: nat_less_iff flip: nat_uint_eq)
  with False show ?thesis by (simp add: number_as_i64_def number_from_i64_def)
qed (simp add: number_as_i64_def number_from_i64_def)

end
