(* ===== verification/Redaction.thy ===== *)
theory Redaction
  imports Json
begin

text \<open>
  Redaction of secrets in logs and receipts (\<open>src/src/security/redaction.rs\<close>): the sensitive-key and
  sensitive-value tests with their normalization and repeated percent decoding, and the sanitizers
  for text, fields and JSON values.
\<close>

definition REDACTED :: "text" where "REDACTED = ascii ''[REDACTED]''"

definition MAX_PERCENT_DECODE_PASSES :: nat where "MAX_PERCENT_DECODE_PASSES = 4"

definition SENSITIVE_KEYS :: "text list" where
  "SENSITIVE_KEYS = map ascii
     [''authorization'', ''cookie'', ''set-cookie'', ''password'', ''passwd'', ''secret'',
      ''api_key'', ''x-api-key'', ''access_token'', ''refresh_token'', ''private_key'',
      ''credential'', ''session'', ''token'']"

section \<open>Percent decoding\<close>

definition hex_value :: "nat \<Rightarrow> nat option" where
  "hex_value b =
     (if 48 \<le> b \<and> b \<le> 57 then Some (b - 48)
      else if 97 \<le> b \<and> b \<le> 102 then Some (b - 97 + 10)
      else if 65 \<le> b \<and> b \<le> 70 then Some (b - 65 + 10)
      else None)"

text \<open>Decoding walks over the UTF-8 bytes and pushes each as a character.\<close>

fun percent_decode_bytes :: "nat list \<Rightarrow> text" where
  "percent_decode_bytes (p # h # l # rest) =
     (if p = 37 then
        (case (hex_value h, hex_value l) of
           (Some high, Some low) \<Rightarrow> (high * 16 + low) # percent_decode_bytes rest
         | _ \<Rightarrow> p # percent_decode_bytes (h # l # rest))
      else p # percent_decode_bytes (h # l # rest))"
| "percent_decode_bytes (b # rest) = b # percent_decode_bytes rest"
| "percent_decode_bytes [] = []"

definition percent_decode_ascii :: "text \<Rightarrow> text" where
  "percent_decode_ascii t = percent_decode_bytes (concat (map utf8_char t))"

fun percent_decode_passes :: "nat \<Rightarrow> text \<Rightarrow> text" where
  "percent_decode_passes 0 current = current"
| "percent_decode_passes (Suc n) current =
     (let decoded = percent_decode_ascii current
      in if decoded = current then current else percent_decode_passes n decoded)"

definition percent_decode_ascii_repeated :: "text \<Rightarrow> text" where
  "percent_decode_ascii_repeated t = percent_decode_passes MAX_PERCENT_DECODE_PASSES t"

section \<open>Sensitive keys and values\<close>

text \<open>The loop of \<open>normalize_key\<close>, with the result so far reversed and the last-character flag.\<close>

fun normalize_loop :: "text \<Rightarrow> text \<Rightarrow> bool \<Rightarrow> text" where
  "normalize_loop [] acc prev = rev acc"
| "normalize_loop (c # cs) acc prev =
     (if c = 95 \<or> c = 45 then
        normalize_loop cs (case acc of [] \<Rightarrow> [45] | x # xs \<Rightarrow> if x = 45 then acc else 45 # acc) False
      else
        let acc1 = (if is_ascii_uppercase c \<and> prev then 45 # acc else acc)
        in normalize_loop cs (ascii_lower c # acc1) (is_ascii_lowercase c \<or> is_ascii_digit c))"

definition normalize_key :: "text \<Rightarrow> text" where
  "normalize_key key = normalize_loop key [] False"

definition replace_char :: "nat \<Rightarrow> nat \<Rightarrow> text \<Rightarrow> text" where
  "replace_char a b t = map (\<lambda>c. if c = a then b else c) t"

definition is_sensitive_key :: "text \<Rightarrow> bool" where
  "is_sensitive_key key =
     (let normalized = normalize_key (percent_decode_ascii_repeated key)
      in list_ex (\<lambda>s. normalized = s \<or> contains_text s normalized \<or>
                      contains_text (replace_char 95 45 s) normalized) SENSITIVE_KEYS)"

definition contains_sensitive_assignment :: "text \<Rightarrow> bool" where
  "contains_sensitive_assignment lower =
     list_ex (\<lambda>key.
       let underscore = replace_char 45 95 key;
           compact = filter (\<lambda>c. c \<noteq> 45 \<and> c \<noteq> 95) key
       in list_ex (\<lambda>variant.
            contains_text (variant @ ascii ''='') lower \<or>
            contains_text (variant @ ascii '':'') lower \<or>
            contains_text (ascii ''?'' @ variant @ ascii ''='') lower \<or>
            contains_text (ascii ''&'' @ variant @ ascii ''='') lower)
          [key, underscore, compact]) SENSITIVE_KEYS"

definition text_looks_sensitive :: "text \<Rightarrow> bool" where
  "text_looks_sensitive lower \<longleftrightarrow>
     contains_text (ascii ''bearer '') lower \<or> contains_text (ascii ''basic '') lower \<or>
     contains_text (ascii ''sk-live'') lower \<or> contains_text (ascii ''sk-'') lower \<or>
     contains_text (ascii ''password'') lower \<or> contains_text (ascii ''private key'') lower \<or>
     contains_text (ascii ''-----begin'') lower \<or> contains_text (ascii ''secret'') lower \<or>
     contains_text (ascii ''access_token'') lower \<or>
     contains_text (ascii ''refresh_token'') lower \<or> contains_sensitive_assignment lower"

definition looks_sensitive_value :: "text \<Rightarrow> bool" where
  "looks_sensitive_value v =
     (let lower = to_ascii_lowercase v;
          decoded_lower = to_ascii_lowercase (percent_decode_ascii_repeated lower)
      in text_looks_sensitive lower \<or> text_looks_sensitive decoded_lower)"

section \<open>Sanitizers\<close>

definition sanitize_field_value :: "text \<Rightarrow> text \<Rightarrow> text" where
  "sanitize_field_value key v =
     (if is_sensitive_key key \<or> looks_sensitive_value v then REDACTED else v)"

definition is_percent_encoded_sensitive_key :: "text \<Rightarrow> bool" where
  "is_percent_encoded_sensitive_key key \<longleftrightarrow> contains_text (ascii ''%'') key \<and> is_sensitive_key key"

definition sanitize_field_key :: "text \<Rightarrow> text" where
  "sanitize_field_key key =
     (if looks_sensitive_value key \<or> is_percent_encoded_sensitive_key key then REDACTED else key)"

definition sanitize_text :: "text \<Rightarrow> text" where
  "sanitize_text v = (if looks_sensitive_value v then REDACTED else v)"

fun sanitize_json_value :: "json \<Rightarrow> json" where
  "sanitize_json_value (JObject m) =
     JObject (fold (\<lambda>(k, v) sanitized. jm_insert (sanitize_field_key k) v sanitized)
       (map (\<lambda>(key, v). (key, if is_sensitive_key key then JString REDACTED else sanitize_json_value v)) m)
       [])"
| "sanitize_json_value (JArray vs) = JArray (map sanitize_json_value vs)"
| "sanitize_json_value (JString v) = JString (sanitize_text v)"
| "sanitize_json_value JNull = JNull"
| "sanitize_json_value (JBool b) = JBool b"
| "sanitize_json_value (JNumber n) = JNumber n"

section \<open>Redaction is stable\<close>

lemma REDACTED_not_sensitive:
  "\<not> looks_sensitive_value REDACTED" "\<not> is_sensitive_key REDACTED"
  by code_simp+

lemma sanitize_text_cases: "sanitize_text v = REDACTED \<or> sanitize_text v = v \<and> \<not> looks_sensitive_value v"
  by (simp add: sanitize_text_def)

lemma sanitized_not_sensitive:
  "\<not> looks_sensitive_value (sanitize_text v)"
  "\<not> looks_sensitive_value (sanitize_field_value key v)"
  "\<not> looks_sensitive_value (sanitize_field_key key)"
  by (simp_all add: sanitize_text_def sanitize_field_value_def sanitize_field_key_def
      REDACTED_not_sensitive)

text \<open>What a sanitized JSON value guarantees: no text looks like a secret, and a sensitive key holds
  nothing but the placeholder.\<close>

fun json_clean :: "json \<Rightarrow> bool" where
  "json_clean (JObject m) \<longleftrightarrow>
     list_all (\<lambda>(k, v). \<not> looks_sensitive_value k \<and> json_clean v \<and>
       (is_sensitive_key k \<longrightarrow> v = JString REDACTED)) m"
| "json_clean (JArray vs) \<longleftrightarrow> list_all json_clean vs"
| "json_clean (JString v) \<longleftrightarrow> \<not> looks_sensitive_value v"
| "json_clean JNull \<longleftrightarrow> True"
| "json_clean (JBool b) \<longleftrightarrow> True"
| "json_clean (JNumber n) \<longleftrightarrow> True"

lemma fold_insert_entries:
  "set (fold (\<lambda>(k, v) acc. jm_insert (f k) v acc) ps acc) \<subseteq> (\<lambda>(k, v). (f k, v)) ` set ps \<union> set acc"
proof (induction ps arbitrary: acc)
  case Nil
  then show ?case by simp
next
  case (Cons p ps)
  obtain k v where p: "p = (k, v)" by (cases p)
  have "set (fold (\<lambda>(k, v) acc. jm_insert (f k) v acc) (p # ps) acc) \<subseteq>
      (\<lambda>(k, v). (f k, v)) ` set ps \<union> set (jm_insert (f k) v acc)"
    using Cons by (simp add: p)
  then show ?case using jm_insert_entries [of "f k" v acc] by (auto simp: p)
qed

lemma sanitize_field_key_sensitive:
  "is_sensitive_key (sanitize_field_key k) \<Longrightarrow> is_sensitive_key k"
  by (auto simp: sanitize_field_key_def REDACTED_not_sensitive split: if_splits)

lemma sanitize_json_value_clean: "json_clean (sanitize_json_value v)"
proof (induction v rule: sanitize_json_value.induct)
  case (1 m)
  let ?ps = "map (\<lambda>(key, v). (key, if is_sensitive_key key then JString REDACTED else sanitize_json_value v)) m"
  have "\<not> looks_sensitive_value k \<and> json_clean v \<and> (is_sensitive_key k \<longrightarrow> v = JString REDACTED)"
    if entry: "(k, v) \<in> (\<lambda>(k, v). (sanitize_field_key k, v)) ` set ?ps" for k v
  proof -
    from entry obtain key w where kw: "(key, w) \<in> set m" "k = sanitize_field_key key"
      "v = (if is_sensitive_key key then JString REDACTED else sanitize_json_value w)" by auto
    have "json_clean v"
    proof (cases "is_sensitive_key key")
      case True
      then show ?thesis using kw by (simp add: REDACTED_not_sensitive)
    next
      case False
      then show ?thesis using kw 1 [OF kw(1) refl] by simp
    qed
    then show ?thesis
      using kw sanitized_not_sensitive(3) [of key] sanitize_field_key_sensitive [of key] by auto
  qed
  moreover define F where
    "F = fold (\<lambda>(k, v) sanitized. jm_insert (sanitize_field_key k) v sanitized) ?ps []"
  moreover have "set F \<subseteq> (\<lambda>(k, v). (sanitize_field_key k, v)) ` set ?ps"
    using fold_insert_entries [of sanitize_field_key ?ps "[]"] by (simp only: F_def list.set Un_empty_right)
  ultimately have "list_all (\<lambda>(k, v). \<not> looks_sensitive_value k \<and> json_clean v \<and>
       (is_sensitive_key k \<longrightarrow> v = JString REDACTED)) F"
    unfolding list_all_iff by blast
  then show ?case by (simp only: sanitize_json_value.simps json_clean.simps F_def)
next
  case (2 vs)
  then show ?case by (simp add: list_all_iff)
qed (simp_all add: sanitized_not_sensitive)

text \<open>Redaction leaves no secret behind. In every JSON value, however nested, sanitizing leaves
  no string or key that looks like a secret and no value under a sensitive key but the
  placeholder.\<close>

theorem sanitize_json_clean: "json_clean (sanitize_json_value v)"
  by (rule sanitize_json_value_clean)

section \<open>Disguised secrets\<close>

definition VALUE_MARKERS :: "text list" where
  "VALUE_MARKERS = map ascii
     [''bearer '', ''basic '', ''sk-'', ''password'', ''private key'', ''-----begin'', ''secret'',
      ''access_token'', ''refresh_token'']"

lemma marker_looks_sensitive:
  "mk \<in> set VALUE_MARKERS \<Longrightarrow> contains_text mk lower \<Longrightarrow> text_looks_sensitive lower"
  by (auto simp: VALUE_MARKERS_def text_looks_sensitive_def)

definition hex_digit :: "nat \<Rightarrow> nat" where
  "hex_digit n = (if n < 10 then 48 + n else 87 + n)"

definition percent_encode :: "text \<Rightarrow> text" where
  "percent_encode t = concat (map (\<lambda>c. [37, hex_digit (c div 16), hex_digit (c mod 16)]) t)"

lemma hex_value_digit: "n < 16 \<Longrightarrow> hex_value (hex_digit n) = Some n"
  by (auto simp: hex_value_def hex_digit_def)

lemma utf8_ascii: "\<forall>c \<in> set t. c < 128 \<Longrightarrow> concat (map utf8_char t) = t"
  by (induction t) (simp_all add: utf8_char_def)

lemma percent_encode_ascii: "\<forall>c \<in> set t. c < 128 \<Longrightarrow> \<forall>c \<in> set (percent_encode t). c < 128"
  by (auto simp: percent_encode_def hex_digit_def div_less_iff_less_mult)

lemma percent_decode_encode:
  assumes "\<forall>c \<in> set t. c < 128"
  shows "percent_decode_ascii (percent_encode t) = t"
proof -
  have "percent_decode_bytes (percent_encode t) = t"
    using assms
    by (induction t) (simp_all add: percent_encode_def hex_value_digit div_less_iff_less_mult)
  then show ?thesis
    using utf8_ascii [OF percent_encode_ascii [OF assms]] by (simp add: percent_decode_ascii_def)
qed

lemma percent_decode_plain: "37 \<notin> set t \<Longrightarrow> percent_decode_bytes t = t"
  by (induction t rule: percent_decode_bytes.induct) auto

lemma percent_decode_passes_encoded:
  assumes "\<forall>c \<in> set t. c < 128" and "37 \<notin> set t" and "k \<le> n"
  shows "percent_decode_passes n ((percent_encode ^^ k) t) = t"
  using assms(3)
proof (induction n arbitrary: k)
  case 0
  then show ?case by simp
next
  case (Suc n)
  have plain: "percent_decode_ascii t = t"
    using assms by (simp add: percent_decode_ascii_def utf8_ascii percent_decode_plain)
  have small: "\<forall>c \<in> set ((percent_encode ^^ j) t). c < 128" for j
    using assms(1) percent_encode_ascii by (induction j) auto
  show ?case
  proof (cases k)
    case 0
    then show ?thesis by (simp add: plain)
  next
    case (Suc j)
    have "percent_decode_ascii ((percent_encode ^^ k) t) = (percent_encode ^^ j) t"
      using percent_decode_encode [OF small [of j]] by (simp add: Suc)
    moreover have "percent_decode_passes n ((percent_encode ^^ j) t) = t"
      using Suc.IH [of j] Suc.prems by (simp add: Suc)
    moreover have "t = (percent_encode ^^ k) t" if "(percent_encode ^^ j) t = (percent_encode ^^ k) t"
    proof -
      have "length (percent_encode u) = 3 * length u" for u
        by (induction u) (simp_all add: percent_encode_def)
      then have "length ((percent_encode ^^ j) t) = 0"
        using arg_cong [OF that, of length] by (simp add: Suc)
      moreover have "length ((percent_encode ^^ j) t) = 3 ^ j * length t"
        using \<open>\<And>u. length (percent_encode u) = 3 * length u\<close> by (induction j) simp_all
      ultimately have "t = []" by simp
      then show ?thesis by (simp add: percent_encode_def) (induction k, auto simp: percent_encode_def)
    qed
    ultimately show ?thesis by (auto simp: Let_def)
  qed
qed



end
