(* ===== verification/Audit_Log.thy ===== *)
theory Audit_Log
  imports Redaction
begin

text \<open>
  Security audit receipts (\<open>src/src/security/audit.rs\<close>): events sanitized and truncated as they are
  built and again as they are recorded, and the bounded log with its drop counter. The clock reading
  of a new event is an argument; the shared, locked log state is the state passed along.
\<close>

section \<open>Events\<close>

definition DEFAULT_MAX_SECURITY_AUDIT_EVENTS :: nat where
  "DEFAULT_MAX_SECURITY_AUDIT_EVENTS = 1024"

definition MAX_SECURITY_AUDIT_TEXT_LEN :: nat where "MAX_SECURITY_AUDIT_TEXT_LEN = 256"

text \<open>The loop that keeps whole characters while they fit.\<close>

fun truncate_loop :: "text \<Rightarrow> text \<Rightarrow> text" where
  "truncate_loop truncated [] = truncated"
| "truncate_loop truncated (ch # rest) =
     (if text_len truncated + len_utf8 ch > MAX_SECURITY_AUDIT_TEXT_LEN then truncated
      else truncate_loop (truncated @ [ch]) rest)"

definition truncate_audit_text :: "text \<Rightarrow> text" where
  "truncate_audit_text v =
     (if text_len v \<le> MAX_SECURITY_AUDIT_TEXT_LEN then v else truncate_loop [] v)"

definition sanitize_audit_text :: "text \<Rightarrow> text" where
  "sanitize_audit_text v = truncate_audit_text (sanitize_text v)"

definition sanitize_audit_field_key :: "text \<Rightarrow> text" where
  "sanitize_audit_field_key key = truncate_audit_text (sanitize_field_key key)"

definition sanitize_audit_field_value :: "text \<Rightarrow> text \<Rightarrow> text" where
  "sanitize_audit_field_value key v = truncate_audit_text (sanitize_field_value key v)"

datatype audit_action = RequestRejected | CapabilityDeniedAction | ValidationRejected
  | ReplayRejected | SignatureRejected | TransportRejected | ShutdownRejected

fun action_as_str :: "audit_action \<Rightarrow> text" where
  "action_as_str RequestRejected = ascii ''request_rejected''"
| "action_as_str CapabilityDeniedAction = ascii ''capability_denied''"
| "action_as_str ValidationRejected = ascii ''validation_rejected''"
| "action_as_str ReplayRejected = ascii ''replay_rejected''"
| "action_as_str SignatureRejected = ascii ''signature_rejected''"
| "action_as_str TransportRejected = ascii ''transport_rejected''"
| "action_as_str ShutdownRejected = ascii ''shutdown_rejected''"

record audit_event =
  ae_timestamp :: u64
  ae_action :: audit_action
  ae_reason :: "text"
  ae_method :: "text option"
  ae_request_id :: "text option"
  ae_fields :: "(text, text) hmap"

definition audit_event_new :: "u64 \<Rightarrow> audit_action \<Rightarrow> text \<Rightarrow> audit_event" where
  "audit_event_new now action reason =
     \<lparr>ae_timestamp = now, ae_action = action, ae_reason = sanitize_audit_text reason,
      ae_method = None, ae_request_id = None, ae_fields = []\<rparr>"

definition with_method :: "text \<Rightarrow> audit_event \<Rightarrow> audit_event" where
  "with_method m e = e\<lparr>ae_method := Some (sanitize_audit_text m)\<rparr>"

definition with_request_id :: "text \<Rightarrow> audit_event \<Rightarrow> audit_event" where
  "with_request_id r e = e\<lparr>ae_request_id := Some (sanitize_audit_text r)\<rparr>"

definition with_field :: "text \<Rightarrow> text \<Rightarrow> audit_event \<Rightarrow> audit_event" where
  "with_field key v e =
     e\<lparr>ae_fields := hm_insert (sanitize_audit_field_key key) (sanitize_audit_field_value key v)
                     (ae_fields e)\<rparr>"

definition sanitized_copy :: "audit_event \<Rightarrow> audit_event" where
  "sanitized_copy e =
     \<lparr>ae_timestamp = ae_timestamp e, ae_action = ae_action e,
      ae_reason = sanitize_audit_text (ae_reason e),
      ae_method = map_option sanitize_audit_text (ae_method e),
      ae_request_id = map_option sanitize_audit_text (ae_request_id e),
      ae_fields = fold (\<lambda>(key, v) fields.
        hm_insert (sanitize_audit_field_key key) (sanitize_audit_field_value key v) fields)
        (ae_fields e) []\<rparr>"

text \<open>The JSON value of a receipt (its text form is \<open>serde_json\<close>'s).\<close>

definition audit_event_json :: "audit_event \<Rightarrow> json" where
  "audit_event_json e =
     (let event = sanitized_copy e
      in json_object
        ([(ascii ''timestamp'', JNumber (PosInt (ae_timestamp event))),
          (ascii ''action'', JString (action_as_str (ae_action event))),
          (ascii ''reason'', JString (ae_reason event)),
          (ascii ''fields'', json_object (map (\<lambda>(k, v). (k, JString v)) (ae_fields event)))] @
         (case ae_method event of None \<Rightarrow> [] | Some m \<Rightarrow> [(ascii ''method'', JString m)]) @
         (case ae_request_id event of None \<Rightarrow> [] | Some r \<Rightarrow> [(ascii ''request_id'', JString r)])))"

section \<open>The bounded log\<close>

record audit_log =
  al_events :: "audit_event list"
  al_dropped_count :: u64
  al_max_events :: nat

definition audit_log_with_capacity :: "nat \<Rightarrow> audit_log" where
  "audit_log_with_capacity max_events =
     \<lparr>al_events = [], al_dropped_count = 0, al_max_events = max_events\<rparr>"

definition audit_log_new :: audit_log where
  "audit_log_new = audit_log_with_capacity DEFAULT_MAX_SECURITY_AUDIT_EVENTS"

definition saturating_add_u64 :: "u64 \<Rightarrow> u64 \<Rightarrow> u64" where
  "saturating_add_u64 a b = (if unat a + unat b < 2 ^ 64 then a + b else 0xFFFFFFFFFFFFFFFF)"

definition audit_record :: "audit_event \<Rightarrow> audit_log \<Rightarrow> audit_log" where
  "audit_record e l =
     (let event = sanitized_copy e
      in if al_max_events l = 0
         then l\<lparr>al_dropped_count := saturating_add_u64 (al_dropped_count l) 1\<rparr>
         else let l1 = (if length (al_events l) \<ge> al_max_events l
                        then l\<lparr>al_events := tl (al_events l),
                               al_dropped_count := saturating_add_u64 (al_dropped_count l) 1\<rparr>
                        else l)
              in l1\<lparr>al_events := al_events l1 @ [event]\<rparr>)"

definition audit_clear :: "audit_log \<Rightarrow> audit_log" where
  "audit_clear l = l\<lparr>al_events := [], al_dropped_count := 0\<rparr>"

section \<open>Truncation\<close>

lemma text_len_append [simp]: "text_len (a @ b) = text_len a + text_len b"
  by (simp add: text_len_def)

lemma text_len_Nil [simp]: "text_len [] = 0"
  by (simp add: text_len_def)

lemma truncate_loop_prefix: "\<exists>k. truncate_loop acc t = acc @ take k t"
proof (induction t arbitrary: acc)
  case Nil
  then show ?case by simp
next
  case (Cons c cs)
  obtain k where "truncate_loop (acc @ [c]) cs = (acc @ [c]) @ take k cs" using Cons by blast
  then have "truncate_loop (acc @ [c]) cs = acc @ take (Suc k) (c # cs)" by simp
  then show ?case by (metis append_Nil2 take0 truncate_loop.simps(2) take_0)
qed

lemma truncate_loop_len:
  "text_len acc \<le> MAX_SECURITY_AUDIT_TEXT_LEN \<Longrightarrow>
   text_len (truncate_loop acc t) \<le> MAX_SECURITY_AUDIT_TEXT_LEN"
  by (induction t arbitrary: acc) (simp_all add: text_len_def)

lemma truncate_len: "text_len (truncate_audit_text v) \<le> MAX_SECURITY_AUDIT_TEXT_LEN"
  by (simp add: truncate_audit_text_def truncate_loop_len)

lemma truncate_prefix: "\<exists>k. truncate_audit_text v = take k v"
  using truncate_loop_prefix [of "[]" v] by (auto simp: truncate_audit_text_def intro: exI [of _ "length v"])

section \<open>Retained receipts\<close>

text \<open>Every text of a recorded event is at most 256 bytes, and it is a sanitized text cut at a
  character boundary.\<close>

definition bounded_text :: "text \<Rightarrow> bool" where
  "bounded_text t \<longleftrightarrow> text_len t \<le> MAX_SECURITY_AUDIT_TEXT_LEN \<and>
     (\<exists>v k. \<not> looks_sensitive_value v \<and> t = take k v)"

definition bounded_event :: "audit_event \<Rightarrow> bool" where
  "bounded_event e \<longleftrightarrow> bounded_text (ae_reason e) \<and> pred_option bounded_text (ae_method e) \<and>
     pred_option bounded_text (ae_request_id e) \<and>
     (\<forall>(k, v) \<in> set (ae_fields e). bounded_text k \<and> bounded_text v)"

lemma bounded_sanitized:
  "bounded_text (sanitize_audit_text v)"
  "bounded_text (sanitize_audit_field_key k)"
  "bounded_text (sanitize_audit_field_value k v)"
  unfolding bounded_text_def sanitize_audit_text_def sanitize_audit_field_key_def
    sanitize_audit_field_value_def
  using truncate_len truncate_prefix sanitized_not_sensitive by metis+

lemma bounded_sanitized_copy: "bounded_event (sanitized_copy e)"
proof -
  have "\<forall>(k, v) \<in> set (fold (\<lambda>(key, v) fields.
        hm_insert (sanitize_audit_field_key key) (sanitize_audit_field_value key v) fields) ps acc).
      bounded_text k \<and> bounded_text v"
    if "\<forall>(k, v) \<in> set acc. bounded_text k \<and> bounded_text v" for ps acc
    using that
  proof (induction ps arbitrary: acc)
    case Nil
    then show ?case by simp
  next
    case (Cons p ps)
    obtain k v where p: "p = (k, v)" by (cases p)
    have "\<forall>(k, v) \<in> set (hm_insert (sanitize_audit_field_key k) (sanitize_audit_field_value k v) acc).
        bounded_text k \<and> bounded_text v"
      using Cons.prems bounded_sanitized(2,3)
        hm_insert_entries [of "sanitize_audit_field_key k" "sanitize_audit_field_value k v" acc]
      by fast
    then show ?case using Cons.IH by (simp add: p)
  qed
  from this [of "[]" "ae_fields e"] show ?thesis
    by (simp add: bounded_event_def sanitized_copy_def bounded_sanitized option.pred_map comp_def
        option.pred_True)
qed

lemma audit_record_step:
  "al_max_events (audit_record e l) = al_max_events l"
  "al_events (audit_record e l) =
     (if al_max_events l = 0 then al_events l
      else if length (al_events l) \<ge> al_max_events l then tl (al_events l) @ [sanitized_copy e]
      else al_events l @ [sanitized_copy e])"
  "al_dropped_count (audit_record e l) =
     (if al_max_events l = 0 \<or> length (al_events l) \<ge> al_max_events l
      then saturating_add_u64 (al_dropped_count l) 1 else al_dropped_count l)"
  by (simp_all add: audit_record_def Let_def)

lemma saturating_count:
  assumes "unat c = min n (2 ^ 64 - 1)"
  shows "unat (saturating_add_u64 c 1) = min (Suc n) (2 ^ 64 - 1)"
proof (cases "unat c + 1 < 2 ^ 64")
  case True
  then have "unat (c + 1) = unat c + 1" by (simp add: unat_word_ariths)
  moreover have "n < 2 ^ 64 - 1" using True assms by (simp add: min_def split: if_splits)
  ultimately show ?thesis using assms by (simp add: saturating_add_u64_def)
next
  case False
  then show ?thesis using assms by (simp add: saturating_add_u64_def)
qed

lemma audit_log_contents:
  fixes m es
  defines "l \<equiv> fold audit_record es (audit_log_with_capacity m)"
  shows "al_max_events l = m \<and> al_events l = drop (length es - m) (map sanitized_copy es) \<and>
    unat (al_dropped_count l) = min (length es - m) (2 ^ 64 - 1)"
  unfolding l_def
proof (induction es rule: rev_induct)
  case Nil
  then show ?case by (simp add: audit_log_with_capacity_def)
next
  case (snoc e es)
  define l where "l = fold audit_record es (audit_log_with_capacity m)"
  from snoc have l: "al_max_events l = m" "al_events l = drop (length es - m) (map sanitized_copy es)"
    "unat (al_dropped_count l) = min (length es - m) (2 ^ 64 - 1)" by (simp_all add: l_def)
  have len: "length (al_events l) = min m (length es)" using l(2) by simp
  have "al_events (audit_record e l) = drop (length (es @ [e]) - m) (map sanitized_copy (es @ [e]))"
    using l len
    by (auto simp: audit_record_step tl_drop Suc_diff_le simp flip: drop_Suc)
  moreover have "unat (al_dropped_count (audit_record e l)) = min (length (es @ [e]) - m) (2 ^ 64 - 1)"
  proof (cases "m = 0 \<or> m \<le> length es")
    case True
    then have "length (es @ [e]) - m = Suc (length es - m)" by auto
    with True l len show ?thesis
      using saturating_count [OF l(3)] by (simp add: audit_record_step)
  next
    case False
    with l len show ?thesis by (simp add: audit_record_step)
  qed
  ultimately show ?case using l(1) by (simp add: audit_record_step(1) flip: l_def)
qed

text \<open>Audit receipts. After any sequence of recordings the log holds exactly the most recent
  receipts up to its capacity, in order, counts the dropped ones (saturating), and every text it
  retains is at most 256 bytes long and cut at a character boundary from a text that does not look
  like a secret.\<close>

theorem audit_log_retains_latest:
  "al_events (fold audit_record es (audit_log_with_capacity m)) =
     drop (length es - m) (map sanitized_copy es) \<and>
   unat (al_dropped_count (fold audit_record es (audit_log_with_capacity m))) =
     min (length es - m) (2 ^ 64 - 1) \<and>
   list_all bounded_event (al_events (fold audit_record es (audit_log_with_capacity m)))"
proof -
  have "list_all bounded_event (drop n (map sanitized_copy es))" for n
    using bounded_sanitized_copy by (auto simp: list_all_iff dest!: in_set_dropD)
  then show ?thesis using audit_log_contents [of es m] by simp
qed

end
