(* ===== verification/Router.thy ===== *)
theory Router
  imports Schema Capability Signing Nonce_Store
begin

text \<open>
  The tool router (\<open>src/src/dispatch/router.rs\<close>): registration, dispatch by id and by name, and the
  two guarded execution paths. A handler (the \<open>ToolHandler\<close> trait object) is its schema and a
  function that may change a world of type \<open>'w\<close>: what it does outside the router is visible there,
  so a call that must not reach a handler leaves the world as it was.
\<close>

section \<open>Handlers and the table\<close>

record 'w tool_handler =
  th_schema :: tool_schema
  th_execute :: "shared_args \<Rightarrow> 'w \<Rightarrow> 'w \<times> (dcp_error + tool_result)"

definition handler_tool_id :: "'w tool_handler \<Rightarrow> u16" where
  "handler_tool_id h = ts_id (th_schema h)"

definition handler_tool_name :: "'w tool_handler \<Rightarrow> text" where
  "handler_tool_name h = ts_name (th_schema h)"

record 'w router =
  ro_handlers :: "'w tool_handler option list"
  ro_name_to_id :: "(text, u16) hmap"
  ro_max_tool_id :: u16

definition ROUTER_MAX_TOOLS :: nat where "ROUTER_MAX_TOOLS = MAX_TOOLS"

definition router_new :: "'w router" where
  "router_new = \<lparr>ro_handlers = [], ro_name_to_id = [], ro_max_tool_id = 0\<rparr>"

definition router_dispatch :: "'w router \<Rightarrow> u16 \<Rightarrow> 'w tool_handler option" where
  "router_dispatch r tool_id =
     (if unat tool_id < length (ro_handlers r) then ro_handlers r ! unat tool_id else None)"

text \<open>The padding loop of \<open>register\<close>: push \<open>None\<close> until the index exists.\<close>

definition pad_handlers :: "nat \<Rightarrow> 'w tool_handler option list \<Rightarrow> 'w tool_handler option list" where
  "pad_handlers i hs = hs @ replicate (Suc i - length hs) None"

definition router_register :: "'w router \<Rightarrow> 'w tool_handler \<Rightarrow> 'w router \<times> (dcp_error + u16)" where
  "router_register r h =
     (let tool_id = handler_tool_id h; tool_name = handler_tool_name h; i = unat tool_id in
      if i \<ge> ROUTER_MAX_TOOLS then (r, Inl ValidationFailed)
      else if hm_contains (ro_name_to_id r) tool_name then (r, Inl ValidationFailed)
      else if i < length (ro_handlers r) \<and> ro_handlers r ! i \<noteq> None then (r, Inl ValidationFailed)
      else (r\<lparr>ro_handlers := (pad_handlers i (ro_handlers r))[i := Some h],
              ro_name_to_id := hm_insert tool_name tool_id (ro_name_to_id r),
              ro_max_tool_id := (if tool_id > ro_max_tool_id r then tool_id else ro_max_tool_id r)\<rparr>,
            Inr tool_id))"

definition router_tool_schema :: "'w router \<Rightarrow> u16 \<Rightarrow> tool_schema option" where
  "router_tool_schema r tool_id = map_option th_schema (router_dispatch r tool_id)"

definition resolve_name :: "'w router \<Rightarrow> text \<Rightarrow> u16 option" where
  "resolve_name r name = hm_get (ro_name_to_id r) name"

definition router_tool_count :: "'w router \<Rightarrow> nat" where
  "router_tool_count r = length (filter (\<lambda>h. h \<noteq> None) (ro_handlers r))"

definition router_has_tool :: "'w router \<Rightarrow> u16 \<Rightarrow> bool" where
  "router_has_tool r tool_id \<longleftrightarrow> router_dispatch r tool_id \<noteq> None"

record server_capabilities =
  sc_tools :: bool
  sc_resources :: bool
  sc_prompts :: bool
  sc_logging :: bool

definition router_capabilities :: "'w router \<Rightarrow> server_capabilities" where
  "router_capabilities r =
     \<lparr>sc_tools = (router_tool_count r > 0), sc_resources = False, sc_prompts = False,
      sc_logging = True\<rparr>"

section \<open>Execution\<close>

definition router_execute :: "'w router \<Rightarrow> u16 \<Rightarrow> shared_args \<Rightarrow> 'w \<Rightarrow> 'w \<times> (dcp_error + tool_result)"
where
  "router_execute r tool_id args w = (w, Inl CapabilityDenied)"

definition validate_authorized_tool ::
  "'w router \<Rightarrow> manifest \<Rightarrow> u16 \<Rightarrow> shared_args \<Rightarrow> security_error + 'w tool_handler" where
  "validate_authorized_tool r capabilities tool_id args =
     bind_result (require_tool capabilities tool_id) (\<lambda>_.
       case router_dispatch r tool_id of
         None \<Rightarrow> Inl InsufficientCapabilities
       | Some h \<Rightarrow>
           (case validate_shared_args (ts_input (th_schema h)) args of
              Inl _ \<Rightarrow> Inl SchemaValidationFailed
            | Inr _ \<Rightarrow> Inr h))"

text \<open>Running the handler: its own errors are reported as a capability failure.\<close>

definition run_handler ::
  "'w tool_handler \<Rightarrow> shared_args \<Rightarrow> 'w \<Rightarrow> 'w \<times> (security_error + tool_result)" where
  "run_handler h args w =
     (case th_execute h args w of
        (w', Inl _) \<Rightarrow> (w', Inl InsufficientCapabilities)
      | (w', Inr res) \<Rightarrow> (w', Inr res))"

definition execute_authorized ::
  "'w router \<Rightarrow> manifest \<Rightarrow> u16 \<Rightarrow> shared_args \<Rightarrow> 'w \<Rightarrow> 'w \<times> (security_error + tool_result)" where
  "execute_authorized r capabilities tool_id args w =
     (case validate_authorized_tool r capabilities tool_id args of
        Inl e \<Rightarrow> (w, Inl e)
      | Inr h \<Rightarrow> run_handler h args w)"

text \<open>Everything \<open>execute_signed_authorized\<close> checks before it runs a handler; only the nonce store
  changes.\<close>

definition admit_signed ::
  "'sk crypto \<Rightarrow> u64 \<times> u64 \<Rightarrow> 'w router \<Rightarrow> manifest \<Rightarrow> signed_invocation \<Rightarrow> bytes \<Rightarrow> nonce_store \<Rightarrow>
   shared_args \<Rightarrow> nonce_store \<times> (security_error + 'w tool_handler)" where
  "admit_signed cr clock r capabilities v public_key store args =
     (case verify_invocation cr v public_key of
        Inl e \<Rightarrow> (store, Inl e)
      | Inr _ \<Rightarrow>
          if \<not> verify_args_hash cr v (sa_data args) then (store, Inl ArgsHashMismatch)
          else if unat (si_tool_id v) \<ge> 2 ^ 16 then (store, Inl InsufficientCapabilities)
          else case check_nonce clock store (si_nonce v) (si_timestamp v) of
            (store', Inl e) \<Rightarrow> (store', Inl e)
          | (store', Inr _) \<Rightarrow>
              (store', validate_authorized_tool r capabilities (ucast (si_tool_id v)) args))"

definition execute_signed_authorized ::
  "'sk crypto \<Rightarrow> u64 \<times> u64 \<Rightarrow> 'w router \<Rightarrow> manifest \<Rightarrow> signed_invocation \<Rightarrow> bytes \<Rightarrow> nonce_store \<Rightarrow>
   shared_args \<Rightarrow> 'w \<Rightarrow> nonce_store \<times> 'w \<times> (security_error + tool_result)" where
  "execute_signed_authorized cr clock r capabilities v public_key store args w =
     (case admit_signed cr clock r capabilities v public_key store args of
        (store', Inl e) \<Rightarrow> (store', w, Inl e)
      | (store', Inr h) \<Rightarrow> (store', run_handler h args w))"

section \<open>The table stays consistent\<close>

text \<open>Handlers sit at their own id, below the limit, and the name map is exactly the handlers'
  names.\<close>

definition router_inv :: "'w router \<Rightarrow> bool" where
  "router_inv r \<longleftrightarrow>
     length (ro_handlers r) \<le> 8192 \<and>
     (\<forall>i h. router_dispatch r i = Some h \<longrightarrow> handler_tool_id h = i \<and>
        hm_get (ro_name_to_id r) (handler_tool_name h) = Some i) \<and>
     (\<forall>n i. hm_get (ro_name_to_id r) n = Some i \<longrightarrow>
        (\<exists>h. router_dispatch r i = Some h \<and> handler_tool_name h = n)) \<and>
     (\<forall>i. router_dispatch r i \<noteq> None \<longrightarrow> i \<le> ro_max_tool_id r)"

lemma router_inv_new: "router_inv router_new"
  by (simp add: router_inv_def router_new_def router_dispatch_def)

lemma length_pad_handlers: "length (pad_handlers i hs) = max (length hs) (Suc i)"
  by (simp add: pad_handlers_def)

lemma nth_pad_handlers:
  "j < length (pad_handlers i hs) \<Longrightarrow>
   pad_handlers i hs ! j = (if j < length hs then hs ! j else None)"
  by (auto simp: pad_handlers_def nth_append)

lemma router_register_success:
  assumes "router_register r h = (r', Inr i)"
  shows "i = handler_tool_id h" and "unat i < 8192" and "router_dispatch r i = None"
    and "hm_get (ro_name_to_id r) (handler_tool_name h) = None"
    and "router_dispatch r' j = (if j = i then Some h else router_dispatch r j)"
    and "ro_name_to_id r' = hm_insert (handler_tool_name h) i (ro_name_to_id r)"
    and "ro_max_tool_id r' = max i (ro_max_tool_id r)"
    and "length (ro_handlers r') = max (length (ro_handlers r)) (Suc (unat i))"
proof -
  from assms show i: "i = handler_tool_id h" and lim: "unat i < 8192"
    and free: "router_dispatch r i = None"
    and "hm_get (ro_name_to_id r) (handler_tool_name h) = None"
    by (auto simp: router_register_def Let_def ROUTER_MAX_TOOLS_def MAX_TOOLS_def hm_contains_def
        router_dispatch_def split: if_splits)
  from assms have r': "r' = r\<lparr>ro_handlers := (pad_handlers (unat i) (ro_handlers r))[unat i := Some h],
              ro_name_to_id := hm_insert (handler_tool_name h) i (ro_name_to_id r),
              ro_max_tool_id := (if i > ro_max_tool_id r then i else ro_max_tool_id r)\<rparr>"
    by (auto simp: router_register_def Let_def split: if_splits)
  then show "ro_name_to_id r' = hm_insert (handler_tool_name h) i (ro_name_to_id r)"
    and "ro_max_tool_id r' = max i (ro_max_tool_id r)"
    and "length (ro_handlers r') = max (length (ro_handlers r)) (Suc (unat i))"
    by (auto simp: length_pad_handlers max_def)
  show "router_dispatch r' j = (if j = i then Some h else router_dispatch r j)"
    using free
    by (auto simp: r' router_dispatch_def length_pad_handlers nth_pad_handlers nth_list_update
        unat_u16_eq)
qed

lemma router_inv_register:
  assumes "router_inv r"
  shows "router_inv (fst (router_register r h))"
proof (cases "router_register r h")
  case (Pair r' res)
  show ?thesis
  proof (cases res)
    case (Inl e)
    with Pair have "r' = r" by (auto simp: router_register_def Let_def split: if_splits)
    with Pair assms show ?thesis by simp
  next
    case (Inr i)
    note S = router_register_success [OF Pair [unfolded Inr]]
    have inv: "\<And>j k. router_dispatch r j = Some k \<Longrightarrow> handler_tool_id k = j \<and>
          hm_get (ro_name_to_id r) (handler_tool_name k) = Some j"
      "\<And>n j. hm_get (ro_name_to_id r) n = Some j \<Longrightarrow>
          \<exists>k. router_dispatch r j = Some k \<and> handler_tool_name k = n"
      "\<And>j. router_dispatch r j \<noteq> None \<Longrightarrow> j \<le> ro_max_tool_id r" "length (ro_handlers r) \<le> 8192"
      using assms unfolding router_inv_def by blast+
    have other: "handler_tool_name k \<noteq> handler_tool_name h" if "router_dispatch r j = Some k" for j k
      using inv(1) [OF that] S(4) by auto
    have new: "hm_get (ro_name_to_id r) n \<noteq> Some i" for n
      using inv(2) [of n i] S(3) by auto
    have "\<forall>j k. router_dispatch r' j = Some k \<longrightarrow> handler_tool_id k = j \<and>
        hm_get (ro_name_to_id r') (handler_tool_name k) = Some j"
      using S(1,5,6) inv(1) other by simp
    moreover have "\<exists>k. router_dispatch r' j = Some k \<and> handler_tool_name k = n"
      if "hm_get (ro_name_to_id r') n = Some j" for n j
      using that S(5,6) inv(2) [of n j] new by (auto split: if_splits)
    moreover have "\<forall>j. router_dispatch r' j \<noteq> None \<longrightarrow> j \<le> ro_max_tool_id r'"
      using S(5,7) inv(3) by (auto simp: le_max_iff_disj)
    moreover have "length (ro_handlers r') \<le> 8192" using S(2,8) inv(4) by simp
    ultimately show ?thesis unfolding Pair fst_conv router_inv_def by blast
  qed
qed

interpretation router_machine: invariant_machine router_register router_inv
  by unfold_locales (rule router_inv_register)

text \<open>Tool registry. However many handlers are offered in whatever order, the router keeps
  names and ids in one-to-one correspondence: a name resolves to an id exactly when the handler
  at that id bears it, every handler sits at its own id below the limit, and no registered id
  exceeds the recorded maximum.\<close>

theorem router_names_and_ids:
  fixes hs :: "'w tool_handler list"
  shows "(resolve_name (run_ops router_register router_new hs) n = Some i \<longleftrightarrow>
     (\<exists>h. router_dispatch (run_ops router_register router_new hs) i = Some h \<and>
       handler_tool_id h = i \<and> handler_tool_name h = n \<and> unat i < 8192 \<and>
       i \<le> ro_max_tool_id (run_ops router_register router_new hs)))"
proof -
  let ?r = "run_ops router_register router_new hs"
  have "router_inv ?r"
    by (rule router_machine.run_inv) (rule router_inv_new)
  then have inv: "length (ro_handlers ?r) \<le> 8192"
      "\<And>j k. router_dispatch ?r j = Some k \<Longrightarrow> handler_tool_id k = j \<and>
          hm_get (ro_name_to_id ?r) (handler_tool_name k) = Some j"
      "\<And>n j. hm_get (ro_name_to_id ?r) n = Some j \<Longrightarrow>
          \<exists>k. router_dispatch ?r j = Some k \<and> handler_tool_name k = n"
      "\<And>j. router_dispatch ?r j \<noteq> None \<Longrightarrow> j \<le> ro_max_tool_id ?r"
    unfolding router_inv_def by blast+
  have lim: "unat i < 8192" if "router_dispatch ?r i = Some h" for h
    using that inv(1) by (simp add: router_dispatch_def split: if_splits)
  show ?thesis
  proof
    assume "resolve_name ?r n = Some i"
    then obtain h where h: "router_dispatch ?r i = Some h" "handler_tool_name h = n"
      using inv(3) unfolding resolve_name_def by blast
    then show "\<exists>h. router_dispatch ?r i = Some h \<and> handler_tool_id h = i \<and> handler_tool_name h = n \<and>
        unat i < 8192 \<and> i \<le> ro_max_tool_id ?r"
      using inv(2) [OF h(1)] inv(4) [of i] lim [OF h(1)] by auto
  next
    assume "\<exists>h. router_dispatch ?r i = Some h \<and> handler_tool_id h = i \<and> handler_tool_name h = n \<and>
        unat i < 8192 \<and> i \<le> ro_max_tool_id ?r"
    then show "resolve_name ?r n = Some i" using inv(2) unfolding resolve_name_def by blast
  qed
qed

section \<open>The guards\<close>

lemma require_tool_iff: "require_tool m i = Inr () \<longleftrightarrow> has_tool m i"
  by (simp add: require_tool_def)

lemma validate_authorized_tool_iff:
  "validate_authorized_tool r m i args = Inr h \<longleftrightarrow>
     has_tool m i \<and> router_dispatch r i = Some h \<and> args_accepted (ts_input (th_schema h)) args"
proof -
  have ok: "(case x of Inl _ \<Rightarrow> Inl SchemaValidationFailed | Inr _ \<Rightarrow> Inr k) = Inr h \<longleftrightarrow>
      x = Inr () \<and> k = h" for x :: "dcp_error + unit" and k
    by (cases x) auto
  show ?thesis
    by (auto simp: validate_authorized_tool_def bind_result_eq_Inr require_tool_iff ok
        validate_accepts [symmetric] split: option.split)
qed

text \<open>The handler an authorized call may reach, and the extra conditions on a signed one.\<close>

definition tool_allowed :: "'w router \<Rightarrow> manifest \<Rightarrow> u16 \<Rightarrow> shared_args \<Rightarrow> 'w tool_handler option" where
  "tool_allowed r m i args =
     (case router_dispatch r i of
        None \<Rightarrow> None
      | Some h \<Rightarrow> if has_tool m i \<and> args_accepted (ts_input (th_schema h)) args then Some h else None)"

definition signature_admits ::
  "'sk crypto \<Rightarrow> u64 \<times> u64 \<Rightarrow> signed_invocation \<Rightarrow> bytes \<Rightarrow> nonce_store \<Rightarrow> shared_args \<Rightarrow> bool" where
  "signature_admits cr clock v pk store args \<longleftrightarrow>
     verify_invocation cr v pk = Inr () \<and> verify_args_hash cr v (sa_data args) \<and>
     unat (si_tool_id v) < 65536 \<and>
     is_ok (snd (check_nonce clock store (si_nonce v) (si_timestamp v)))"

lemma tool_allowed_eq: "tool_allowed r m i args = result_ok (validate_authorized_tool r m i args)"
proof -
  have "tool_allowed r m i args = Some h \<longleftrightarrow> validate_authorized_tool r m i args = Inr h" for h
    unfolding validate_authorized_tool_iff by (auto simp: tool_allowed_def split: option.split)
  then show ?thesis by (metis not_Some_eq result_ok_eq_Some)
qed

lemma admit_signed_eq:
  "result_ok (snd (admit_signed cr clock r m v pk store args)) =
     (if signature_admits cr clock v pk store args
      then tool_allowed r m (ucast (si_tool_id v)) args else None)"
  unfolding tool_allowed_eq signature_admits_def
  by (cases "verify_invocation cr v pk";
      cases "check_nonce clock store (si_nonce v) (si_timestamp v)";
      cases "snd (check_nonce clock store (si_nonce v) (si_timestamp v))")
    (simp_all add: admit_signed_def not_less)

text \<open>C2: The execution gate. The router runs a handler for an authorized call exactly when the
  negotiated manifest grants the tool, a handler is registered at its id, and its schema accepts the
  arguments; for a signed call, exactly when moreover the signature and the argument hash verify,
  the tool id fits 16 bits and the replay guard accepts the nonce. In every other case the world is
  unchanged and the call fails; unguarded execution always fails.\<close>

theorem execution_gate:
  "router_execute r tool_id args w = (w, Inl CapabilityDenied) \<and>
   (case tool_allowed r m tool_id args of
      Some h \<Rightarrow> execute_authorized r m tool_id args w = run_handler h args w
    | None \<Rightarrow> fst (execute_authorized r m tool_id args w) = w \<and>
        \<not> is_ok (snd (execute_authorized r m tool_id args w))) \<and>
   (case (if signature_admits cr clock v pk store args
          then tool_allowed r m (ucast (si_tool_id v)) args else None) of
      Some h \<Rightarrow> snd (execute_signed_authorized cr clock r m v pk store args w) = run_handler h args w
    | None \<Rightarrow> fst (snd (execute_signed_authorized cr clock r m v pk store args w)) = w \<and>
        \<not> is_ok (snd (snd (execute_signed_authorized cr clock r m v pk store args w))))"
proof -
  have "case result_ok (validate_authorized_tool r m tool_id args) of
      Some h \<Rightarrow> execute_authorized r m tool_id args w = run_handler h args w
    | None \<Rightarrow> fst (execute_authorized r m tool_id args w) = w \<and>
        \<not> is_ok (snd (execute_authorized r m tool_id args w))"
    by (cases "validate_authorized_tool r m tool_id args") (simp_all add: execute_authorized_def)
  moreover have "case result_ok (snd (admit_signed cr clock r m v pk store args)) of
      Some h \<Rightarrow> snd (execute_signed_authorized cr clock r m v pk store args w) = run_handler h args w
    | None \<Rightarrow> fst (snd (execute_signed_authorized cr clock r m v pk store args w)) = w \<and>
        \<not> is_ok (snd (snd (execute_signed_authorized cr clock r m v pk store args w)))"
    by (cases "admit_signed cr clock r m v pk store args";
        cases "snd (admit_signed cr clock r m v pk store args)")
      (simp_all add: execute_signed_authorized_def)
  ultimately show ?thesis
    by (simp only: router_execute_def admit_signed_eq simp_thms flip: tool_allowed_eq)
qed

section \<open>Signed calls run at most once\<close>

type_synonym signed_call = "(u64 \<times> u64) \<times> signed_invocation \<times> bytes \<times> manifest \<times> shared_args"

text \<open>The nonces and timestamps of the calls whose handler is reached, in order.\<close>

fun signed_runs ::
  "'sk crypto \<Rightarrow> 'w router \<Rightarrow> nonce_store \<Rightarrow> signed_call list \<Rightarrow> (u64 \<times> u64) list" where
  "signed_runs cr r store [] = []"
| "signed_runs cr r store ((clock, v, pk, m, args) # cs) =
     (case admit_signed cr clock r m v pk store args of
        (store', Inl e) \<Rightarrow> signed_runs cr r store' cs
      | (store', Inr h) \<Rightarrow> (si_nonce v, si_timestamp v) # signed_runs cr r store' cs)"

fun calls_clock_sorted :: "u64 \<Rightarrow> signed_call list \<Rightarrow> bool" where
  "calls_clock_sorted now [] \<longleftrightarrow> True"
| "calls_clock_sorted now ((clock, _) # cs) \<longleftrightarrow>
     now \<le> fst clock \<and> fst clock \<le> snd clock \<and> calls_clock_sorted (snd clock) cs"

text \<open>The calls that get as far as the replay guard, as the guard sees them.\<close>

fun guard_calls :: "'sk crypto \<Rightarrow> signed_call list \<Rightarrow> ((u64 \<times> u64) \<times> u64 \<times> u64) list" where
  "guard_calls cr [] = []"
| "guard_calls cr ((clock, v, pk, m, args) # cs) =
     (if verify_invocation cr v pk = Inr () \<and> verify_args_hash cr v (sa_data args) \<and>
         unat (si_tool_id v) < 65536
      then (clock, si_nonce v, si_timestamp v) # guard_calls cr cs else guard_calls cr cs)"

lemma guard_clock_mono:
  "now \<le> now' \<Longrightarrow> nonce_guard.clock_ok now' rs \<Longrightarrow> nonce_guard.clock_ok now rs"
  by (cases rs) auto

lemma guard_calls_clock:
  "calls_clock_sorted now cs \<Longrightarrow> nonce_guard.clock_ok now (guard_calls cr cs)"
proof (induction now cs rule: calls_clock_sorted.induct)
  case (1 now)
  then show ?case by simp
next
  case (2 now clock c cs)
  obtain v pk m args where c: "c = (v, pk, m, args)" by (cases c)
  from 2 have "nonce_guard.clock_ok (snd clock) (guard_calls cr cs)" and "now \<le> snd clock"
    by auto
  with 2 guard_clock_mono show ?case by (auto simp: c)
qed

lemma signed_runs_accepted:
  "set (signed_runs cr r store cs) \<subseteq> set (nonce_guard.accepted store (guard_calls cr cs)) \<and>
   (distinct (nonce_guard.accepted store (guard_calls cr cs)) \<longrightarrow> distinct (signed_runs cr r store cs))"
proof (induction cs arbitrary: store)
  case Nil
  then show ?case by simp
next
  case (Cons c cs)
  obtain clock v pk m args where c: "c = (clock, v, pk, m, args)" by (cases c)
  obtain store' res where check: "check_nonce clock store (si_nonce v) (si_timestamp v) = (store', res)"
    by (cases "check_nonce clock store (si_nonce v) (si_timestamp v)")
  show ?case
  proof (cases "verify_invocation cr v pk = Inr () \<and> verify_args_hash cr v (sa_data args) \<and>
         unat (si_tool_id v) < 65536")
    case True
    show ?thesis
    proof (cases res)
      case (Inl e)
      with True check Cons [of store'] show ?thesis by (simp add: c admit_signed_def)
    next
      case (Inr u)
      have "admit_signed cr clock r m v pk store args =
          (store', validate_authorized_tool r m (ucast (si_tool_id v)) args)"
        using True check Inr by (simp add: admit_signed_def)
      with True check Inr Cons [of store'] show ?thesis
        by (cases "validate_authorized_tool r m (ucast (si_tool_id v)) args") (auto simp: c)
    qed
  next
    case False
    then have "\<exists>e. admit_signed cr clock r m v pk store args = (store, Inl e)"
      by (cases "verify_invocation cr v pk") (auto simp: admit_signed_def)
    with False Cons [of store] show ?thesis by (auto simp: c)
  qed
qed

text \<open>C3: Signed calls run at most once. Whatever signed requests reach the router, honest, forged or
  replayed, with whatever keys, manifests and arguments, as long as the clock does not run
  backwards no two requests with the same nonce and timestamp ever reach a handler, even when the
  replay guard drops expired nonces to make room.\<close>

theorem signed_calls_run_at_most_once:
  assumes "calls_clock_sorted now calls"
  shows "distinct (signed_runs cr r (nonce_store_with_config max_nonces expiration) calls)"
proof -
  have "nonce_inv (nonce_store_with_config max_nonces expiration)"
    by (simp add: nonce_inv_def nonce_store_with_config_def)
  then have "distinct (nonce_guard.accepted (nonce_store_with_config max_nonces expiration)
      (guard_calls cr calls))"
    using nonce_guard.accepted_once guard_calls_clock [OF assms] by blast
  then show ?thesis using signed_runs_accepted by blast
qed

definition echo_handler :: "nat tool_handler" where
  "echo_handler = \<lparr>th_schema = \<lparr>ts_name = [101], ts_id = 3, ts_description = [],
     ts_input = input_schema_new\<rparr>, th_execute = (\<lambda>a w. (w + 1, Inr ToolEmpty))\<rparr>"

lemma signed_calls_run_at_most_once_witness:
  "let r = fst (router_register router_new echo_handler); m = set_tool (manifest_new 1) 3;
       v = sign_invocation toy_crypto [1] 3 17 1000 [];
       call = (\<lambda>t. ((t, t), v, replicate 32 0, m, \<lparr>sa_data = [], sa_layout = 0\<rparr>))
   in signed_runs toy_crypto r (nonce_store_with_config 8 300) [call 1000, call 1001] = [(17, 1000)] \<and>
      distinct (signed_runs toy_crypto r (nonce_store_with_config 8 300) [call 1000, call 1001])"
proof -
  define r where "r = fst (router_register router_new echo_handler)"
  define m where "m = set_tool (manifest_new 1) 3"
  define v where "v = sign_invocation toy_crypto [1] 3 17 1000 []"
  define a where "a = \<lparr>sa_data = [], sa_layout = 0 :: u64\<rparr>"
  have sig: "verify_invocation toy_crypto v (replicate 32 0) = Inr ()"
    "verify_args_hash toy_crypto v []" "si_tool_id v = 3" "si_nonce v = 17" "si_timestamp v = 1000"
    using sign_invocation_verifies [OF toy_crypto_laws, of "[1]" 3 17 1000 "[]"]
    by (simp_all add: v_def public_key_bytes_def toy_crypto_def sign_invocation_def Let_def)
  have disp: "router_dispatch r 3 = Some echo_handler"
    by (simp add: r_def router_register_def router_new_def echo_handler_def handler_tool_id_def
        handler_tool_name_def ROUTER_MAX_TOOLS_def MAX_TOOLS_def hm_contains_def pad_handlers_def
        router_dispatch_def Let_def)
  have tool: "has_tool m 3"
    by (simp add: m_def tool_class.has_grant wf_manifest_new MAX_TOOLS_def)
  have "validate_shared_args (ts_input (th_schema echo_handler)) a = Inr ()"
    by (simp add: echo_handler_def input_schema_new_def validate_shared_args_def a_def
        validate_required_def check_undeclared_iff arg_at_def layout_nibble_def
        arg_type_from_u8_def bind_result_eq_Inr)
  with disp tool have valid: "validate_authorized_tool r m 3 a = Inr echo_handler"
    by (simp add: validate_authorized_tool_def require_tool_def)
  have "signed_runs toy_crypto r (nonce_store_with_config 8 300)
      [((1000, 1000), v, replicate 32 0, m, a), ((1001, 1001), v, replicate 32 0, m, a)] = [(17, 1000)]"
    using sig valid
    by (simp add: admit_signed_def a_def check_nonce_def nonce_store_with_config_def
        nonce_is_expired_def hm_contains_def)
  moreover have "distinct (signed_runs toy_crypto r (nonce_store_with_config 8 300)
      [((1000, 1000), v, replicate 32 0, m, a), ((1001, 1001), v, replicate 32 0, m, a)])"
    by (rule signed_calls_run_at_most_once [of 1000]) simp
  ultimately show ?thesis by (simp only: Let_def simp_thms flip: r_def m_def v_def a_def)
qed

end
