(* ===== verification/Server.thy ===== *)
theory Server
  imports Router Audit_Log
begin

text \<open>
  The server (\<open>src/src/server/mod.rs\<close>): sessions, metrics, tool invocation and its audit trail. A
  session is shared behind an \<open>Arc\<close>: the registry maps an id to a reference into a store of session
  objects, and a client may keep the reference. Clock readings are arguments, locks are never
  poisoned, and each method is one step.
\<close>

section \<open>Sessions\<close>

datatype protocol_version = Mcp | DcpV1

record session =
  se_id :: u64
  se_protocol :: protocol_version
  se_created_at :: u64
  se_last_activity :: u64
  se_data :: "(text, bytes) hmap"
  se_message_count :: u64

definition session_new :: "u64 \<Rightarrow> u64 \<Rightarrow> session" where
  "session_new now i =
     \<lparr>se_id = i, se_protocol = Mcp, se_created_at = now, se_last_activity = now, se_data = [],
      se_message_count = 0\<rparr>"

definition session_touch :: "u64 \<Rightarrow> session \<Rightarrow> session" where
  "session_touch now s = s\<lparr>se_last_activity := now\<rparr>"

definition increment_messages :: "session \<Rightarrow> session \<times> u64" where
  "increment_messages s = (s\<lparr>se_message_count := se_message_count s + 1\<rparr>, se_message_count s)"

definition session_get_data :: "session \<Rightarrow> text \<Rightarrow> bytes option" where
  "session_get_data s key = hm_get (se_data s) key"

definition session_set_data :: "text \<Rightarrow> bytes \<Rightarrow> session \<Rightarrow> session" where
  "session_set_data key v s = s\<lparr>se_data := hm_insert key v (se_data s)\<rparr>"

definition upgrade_protocol :: "protocol_version \<Rightarrow> session \<Rightarrow> session" where
  "upgrade_protocol version s = s\<lparr>se_protocol := version\<rparr>"

definition is_dcp :: "session \<Rightarrow> bool" where
  "is_dcp s \<longleftrightarrow> se_protocol s = DcpV1"

section \<open>Metrics\<close>

record metrics =
  mt_mcp_messages :: u64
  mt_dcp_messages :: u64
  mt_mcp_bytes :: u64
  mt_dcp_bytes :: u64
  mt_mcp_latency_us :: u64
  mt_dcp_latency_us :: u64
  mt_tool_invocations :: u64
  mt_errors :: u64

definition metrics_default :: metrics where
  "metrics_default =
     \<lparr>mt_mcp_messages = 0, mt_dcp_messages = 0, mt_mcp_bytes = 0, mt_dcp_bytes = 0,
      mt_mcp_latency_us = 0, mt_dcp_latency_us = 0, mt_tool_invocations = 0, mt_errors = 0\<rparr>"

definition record_mcp :: "u64 \<Rightarrow> u64 \<Rightarrow> metrics \<Rightarrow> metrics" where
  "record_mcp bytes latency_us m =
     m\<lparr>mt_mcp_messages := mt_mcp_messages m + 1, mt_mcp_bytes := mt_mcp_bytes m + bytes,
       mt_mcp_latency_us := mt_mcp_latency_us m + latency_us\<rparr>"

definition record_dcp :: "u64 \<Rightarrow> u64 \<Rightarrow> metrics \<Rightarrow> metrics" where
  "record_dcp bytes latency_us m =
     m\<lparr>mt_dcp_messages := mt_dcp_messages m + 1, mt_dcp_bytes := mt_dcp_bytes m + bytes,
       mt_dcp_latency_us := mt_dcp_latency_us m + latency_us\<rparr>"

definition record_invocation :: "metrics \<Rightarrow> metrics" where
  "record_invocation m = m\<lparr>mt_tool_invocations := mt_tool_invocations m + 1\<rparr>"

definition record_error :: "metrics \<Rightarrow> metrics" where
  "record_error m = m\<lparr>mt_errors := mt_errors m + 1\<rparr>"

definition average :: "u64 \<Rightarrow> u64 \<Rightarrow> u64" where
  "average sum_us count = (if count = 0 then 0 else sum_us div count)"

definition avg_mcp_latency_us :: "metrics \<Rightarrow> u64" where
  "avg_mcp_latency_us m = average (mt_mcp_latency_us m) (mt_mcp_messages m)"

definition avg_dcp_latency_us :: "metrics \<Rightarrow> u64" where
  "avg_dcp_latency_us m = average (mt_dcp_latency_us m) (mt_dcp_messages m)"

definition avg_mcp_size :: "metrics \<Rightarrow> u64" where
  "avg_mcp_size m = average (mt_mcp_bytes m) (mt_mcp_messages m)"

definition avg_dcp_size :: "metrics \<Rightarrow> u64" where
  "avg_dcp_size m = average (mt_dcp_bytes m) (mt_dcp_messages m)"

record metrics_snapshot =
  ms_mcp_messages :: u64
  ms_dcp_messages :: u64
  ms_mcp_bytes :: u64
  ms_dcp_bytes :: u64
  ms_avg_mcp_latency_us :: u64
  ms_avg_dcp_latency_us :: u64
  ms_tool_invocations :: u64
  ms_errors :: u64

definition snapshot :: "metrics \<Rightarrow> metrics_snapshot" where
  "snapshot m =
     \<lparr>ms_mcp_messages = mt_mcp_messages m, ms_dcp_messages = mt_dcp_messages m,
      ms_mcp_bytes = mt_mcp_bytes m, ms_dcp_bytes = mt_dcp_bytes m,
      ms_avg_mcp_latency_us = avg_mcp_latency_us m, ms_avg_dcp_latency_us = avg_dcp_latency_us m,
      ms_tool_invocations = mt_tool_invocations m, ms_errors = mt_errors m\<rparr>"

section \<open>The server\<close>

record server_config =
  cfg_max_sessions :: nat
  cfg_session_timeout_secs :: u64
  cfg_enable_metrics :: bool
  cfg_server_name :: "text"
  cfg_server_version :: "text"

record 'w server =
  sv_router :: "'w router"
  sv_config :: server_config
  sv_sessions :: "(u64, nat) hmap"
  sv_store :: "session list"
  sv_session_counter :: u64
  sv_metrics :: metrics
  sv_security_audit :: audit_log

definition server_new :: "'w router \<Rightarrow> server_config \<Rightarrow> 'w server" where
  "server_new r cfg =
     \<lparr>sv_router = r, sv_config = cfg, sv_sessions = [], sv_store = [], sv_session_counter = 1,
      sv_metrics = metrics_default, sv_security_audit = audit_log_new\<rparr>"

definition create_session :: "u64 \<Rightarrow> 'w server \<Rightarrow> 'w server \<times> (dcp_error + nat)" where
  "create_session now s =
     (if hm_len (sv_sessions s) \<ge> cfg_max_sessions (sv_config s) then (s, Inl ResourceExhausted)
      else let i = sv_session_counter s; ref = length (sv_store s)
           in (s\<lparr>sv_session_counter := i + 1, sv_store := sv_store s @ [session_new now i],
                 sv_sessions := hm_insert i ref (sv_sessions s)\<rparr>, Inr ref))"

definition get_session :: "'w server \<Rightarrow> u64 \<Rightarrow> nat option" where
  "get_session s i = hm_get (sv_sessions s) i"

definition remove_session :: "u64 \<Rightarrow> 'w server \<Rightarrow> 'w server \<times> nat option" where
  "remove_session i s =
     (s\<lparr>sv_sessions := hm_remove i (sv_sessions s)\<rparr>, hm_get (sv_sessions s) i)"

definition session_count :: "'w server \<Rightarrow> nat" where
  "session_count s = hm_len (sv_sessions s)"

text \<open>A client method on a session reference it holds (\<open>touch\<close>, \<open>set_data\<close>, ...).\<close>

definition update_session :: "nat \<Rightarrow> (session \<Rightarrow> session) \<Rightarrow> 'w server \<Rightarrow> 'w server" where
  "update_session ref f s = s\<lparr>sv_store := (sv_store s)[ref := f (sv_store s ! ref)]\<rparr>"

definition upgrade_session :: "u64 \<Rightarrow> u64 \<Rightarrow> 'w server \<Rightarrow> 'w server \<times> (dcp_error + unit)" where
  "upgrade_session now i s =
     (case get_session s i of
        None \<Rightarrow> (s, Inl SessionNotFound)
      | Some ref \<Rightarrow>
          let old = sv_store s ! ref;
              new_session = (session_new now i)
                \<lparr>se_protocol := DcpV1,
                 se_data := fold (\<lambda>(k, v) d. hm_insert k v d) (se_data old) []\<rparr>
          in (s\<lparr>sv_store := sv_store s @ [new_session],
                sv_sessions := hm_insert i (length (sv_store s)) (sv_sessions s)\<rparr>, Inr ()))"

definition session_expired :: "u64 \<Rightarrow> 'w server \<Rightarrow> nat \<Rightarrow> bool" where
  "session_expired now s ref \<longleftrightarrow>
     now - se_last_activity (sv_store s ! ref) > cfg_session_timeout_secs (sv_config s)"

definition cleanup_expired_sessions :: "u64 \<Rightarrow> 'w server \<Rightarrow> 'w server \<times> nat" where
  "cleanup_expired_sessions now s =
     (let expired = map fst (filter (\<lambda>(i, ref). session_expired now s ref) (sv_sessions s))
      in (s\<lparr>sv_sessions := fold hm_remove expired (sv_sessions s)\<rparr>, length expired))"

section \<open>Invocation and audit\<close>

fun signed_error_reason :: "security_error \<Rightarrow> audit_action \<times> text" where
  "signed_error_reason InvalidSignature = (SignatureRejected, ascii ''invalid_signature'')"
| "signed_error_reason ArgsHashMismatch = (SignatureRejected, ascii ''args_hash_mismatch'')"
| "signed_error_reason ReplayAttack = (ReplayRejected, ascii ''replay_attack'')"
| "signed_error_reason ExpiredTimestamp = (ReplayRejected, ascii ''expired_timestamp'')"
| "signed_error_reason CapacityExceeded = (ReplayRejected, ascii ''replay_capacity_exceeded'')"
| "signed_error_reason InsufficientCapabilities = (CapabilityDeniedAction, ascii ''capability_denied'')"
| "signed_error_reason SchemaValidationFailed = (ValidationRejected, ascii ''validation_failed'')"

text \<open>The three receipts the server writes, and the methods that record them.\<close>

definition signed_error_event :: "u64 \<Rightarrow> security_error \<Rightarrow> signed_invocation \<Rightarrow> audit_event" where
  "signed_error_event now error v =
     (let (action, reason) = signed_error_reason error
      in with_field (ascii ''tool_id'') (decimal (unat (si_tool_id v)))
           (with_method (ascii ''dcp.tool.invoke_signed_authorized'')
             (audit_event_new now action reason)))"

definition raw_denial_event :: "u64 \<Rightarrow> u16 \<Rightarrow> audit_event" where
  "raw_denial_event now tool_id =
     with_field (ascii ''tool_id'') (decimal (unat tool_id))
       (with_method (ascii ''dcp.tool.invoke'')
         (audit_event_new now CapabilityDeniedAction (ascii ''raw_invoke_denied'')))"

definition raw_name_denial_event :: "u64 \<Rightarrow> text \<Rightarrow> audit_event" where
  "raw_name_denial_event now name =
     with_field (ascii ''tool_name'') name
       (with_method (ascii ''dcp.tool.invoke_by_name'')
         (audit_event_new now CapabilityDeniedAction (ascii ''raw_invoke_by_name_denied'')))"

definition audit_event_to :: "audit_event \<Rightarrow> 'w server \<Rightarrow> 'w server" where
  "audit_event_to e s = s\<lparr>sv_security_audit := audit_record e (sv_security_audit s)\<rparr>"

definition audit_signed_invocation_error ::
  "u64 \<Rightarrow> security_error \<Rightarrow> signed_invocation \<Rightarrow> 'w server \<Rightarrow> 'w server" where
  "audit_signed_invocation_error now error v = audit_event_to (signed_error_event now error v)"

definition audit_raw_invoke_denial :: "u64 \<Rightarrow> u16 \<Rightarrow> 'w server \<Rightarrow> 'w server" where
  "audit_raw_invoke_denial now tool_id = audit_event_to (raw_denial_event now tool_id)"

definition audit_raw_invoke_by_name_denial :: "u64 \<Rightarrow> text \<Rightarrow> 'w server \<Rightarrow> 'w server" where
  "audit_raw_invoke_by_name_denial now name = audit_event_to (raw_name_denial_event now name)"

definition count_metric :: "(metrics \<Rightarrow> metrics) \<Rightarrow> 'w server \<Rightarrow> 'w server" where
  "count_metric f s =
     (if cfg_enable_metrics (sv_config s) then s\<lparr>sv_metrics := f (sv_metrics s)\<rparr> else s)"

definition invoke :: "u64 \<Rightarrow> u16 \<Rightarrow> shared_args \<Rightarrow> 'w server \<times> 'w \<Rightarrow> ('w server \<times> 'w) \<times> (dcp_error + tool_result)"
where
  "invoke now tool_id args sw =
     (case sw of (s, w) \<Rightarrow>
        ((audit_raw_invoke_denial now tool_id (count_metric record_error s), w), Inl CapabilityDenied))"

definition invoke_authorized ::
  "manifest \<Rightarrow> u16 \<Rightarrow> shared_args \<Rightarrow> 'w server \<times> 'w \<Rightarrow> ('w server \<times> 'w) \<times> (security_error + tool_result)"
where
  "invoke_authorized capabilities tool_id args sw =
     (case sw of (s, w) \<Rightarrow>
        let s1 = count_metric record_invocation s in
        case execute_authorized (sv_router s1) capabilities tool_id args w of
          (w', res) \<Rightarrow> ((s1, w'), res))"

definition invoke_signed_authorized ::
  "'sk crypto \<Rightarrow> u64 \<times> u64 \<Rightarrow> u64 \<Rightarrow> manifest \<Rightarrow> signed_invocation \<Rightarrow> bytes \<Rightarrow> shared_args \<Rightarrow>
   nonce_store \<Rightarrow> 'w server \<times> 'w \<Rightarrow> nonce_store \<times> ('w server \<times> 'w) \<times> (security_error + tool_result)"
where
  "invoke_signed_authorized cr clock now capabilities v public_key args store sw =
     (case sw of (s, w) \<Rightarrow>
        case execute_signed_authorized cr clock (sv_router s) capabilities v public_key store args w of
          (store', w', res) \<Rightarrow>
            let s1 = count_metric (if is_ok res then record_invocation else record_error) s;
                s2 = (case res of Inl e \<Rightarrow> audit_signed_invocation_error now e v s1 | Inr _ \<Rightarrow> s1)
            in (store', (s2, w'), res))"

definition invoke_by_name ::
  "u64 \<Rightarrow> text \<Rightarrow> shared_args \<Rightarrow> 'w server \<times> 'w \<Rightarrow> ('w server \<times> 'w) \<times> (dcp_error + tool_result)" where
  "invoke_by_name now name args sw =
     (case sw of (s, w) \<Rightarrow>
        ((audit_raw_invoke_by_name_denial now name (count_metric record_error s), w),
         Inl CapabilityDenied))"

definition invoke_by_name_authorized ::
  "manifest \<Rightarrow> text \<Rightarrow> shared_args \<Rightarrow> 'w server \<times> 'w \<Rightarrow> ('w server \<times> 'w) \<times> (security_error + tool_result)"
where
  "invoke_by_name_authorized capabilities name args sw =
     (case resolve_name (sv_router (fst sw)) name of
        None \<Rightarrow> (sw, Inl InsufficientCapabilities)
      | Some tool_id \<Rightarrow> invoke_authorized capabilities tool_id args sw)"

record server_info =
  sif_name :: "text"
  sif_version :: "text"
  sif_protocol_version :: "text"
  sif_capabilities :: server_capabilities

definition get_server_info :: "'w server \<Rightarrow> server_info" where
  "get_server_info s =
     \<lparr>sif_name = cfg_server_name (sv_config s), sif_version = cfg_server_version (sv_config s),
      sif_protocol_version = ascii ''1.0'', sif_capabilities = router_capabilities (sv_router s)\<rparr>"

section \<open>The session registry\<close>

text \<open>Methods a client calls on a session it holds, and the operations on the registry.\<close>

datatype session_op = Touch u64 | IncrementMessages | SetData "text" bytes

fun session_apply :: "session_op \<Rightarrow> session \<Rightarrow> session" where
  "session_apply (Touch now) s = session_touch now s"
| "session_apply IncrementMessages s = fst (increment_messages s)"
| "session_apply (SetData key v) s = session_set_data key v s"

datatype server_op =
  CreateSession u64 | RemoveSession u64 | OnSession nat session_op | UpgradeSession u64 u64
  | CleanupSessions u64

fun server_step :: "'w server \<Rightarrow> server_op \<Rightarrow> 'w server \<times> unit" where
  "server_step s (CreateSession now) = (fst (create_session now s), ())"
| "server_step s (RemoveSession i) = (fst (remove_session i s), ())"
| "server_step s (OnSession ref m) = (update_session ref (session_apply m) s, ())"
| "server_step s (UpgradeSession now i) = (fst (upgrade_session now i s), ())"
| "server_step s (CleanupSessions now) = (fst (cleanup_expired_sessions now s), ())"

definition registry_inv :: "'w server \<Rightarrow> bool" where
  "registry_inv s \<longleftrightarrow> (\<forall>x \<in> set (sv_store s). hm_wf (se_data x)) \<and>
     hm_wf (sv_sessions s) \<and> hm_len (sv_sessions s) \<le> cfg_max_sessions (sv_config s) \<and>
     (\<forall>i ref. get_session s i = Some ref \<longrightarrow>
        ref < length (sv_store s) \<and> se_id (sv_store s ! ref) = i)"

lemma registry_inv_new: "registry_inv (server_new r cfg)"
  by (simp add: registry_inv_def server_new_def get_session_def)

lemma session_apply_id [simp]: "se_id (session_apply m s) = se_id s"
  by (cases m) (simp_all add: session_touch_def increment_messages_def session_set_data_def)

lemma session_apply_wf [simp]: "hm_wf (se_data s) \<Longrightarrow> hm_wf (se_data (session_apply m s))"
  by (cases m) (simp_all add: session_touch_def increment_messages_def session_set_data_def)

lemma store_update_id:
  "se_id ((xs[k := session_apply m (xs ! k)]) ! j) = se_id (xs ! j)"
  by (cases "k = j"; cases "j < length xs") (simp_all add: list_update_beyond)

lemma fold_hm_insert_wf: "hm_wf acc \<Longrightarrow> hm_wf (fold (\<lambda>(k, v) d. hm_insert k v d) ps acc)"
  by (induction ps arbitrary: acc) auto

lemma fold_hm_insert_get:
  "hm_wf ps \<Longrightarrow> hm_get (fold (\<lambda>(k, v) d. hm_insert k v d) ps acc) j =
     (case hm_get ps j of Some v \<Rightarrow> Some v | None \<Rightarrow> hm_get acc j)"
proof (induction ps arbitrary: acc)
  case Nil
  then show ?case by simp
next
  case (Cons p ps)
  obtain k v where p: "p = (k, v)" by (cases p)
  from Cons.prems have wf: "hm_wf ps" and "k \<notin> fst ` set ps" by (auto simp: hm_wf_def p)
  then have "hm_get ps k = None" by (simp add: hm_get_def map_of_eq_None_iff)
  moreover have "hm_get (p # ps) j = (if j = k then Some v else hm_get ps j)"
    by (simp add: hm_get_def p)
  ultimately show ?case using Cons.IH [OF wf, of "hm_insert k v acc"]
    by (auto simp: p split: option.split)
qed

lemma registry_inv_create: "registry_inv s \<Longrightarrow> registry_inv (fst (create_session now s))"
  by (auto simp: registry_inv_def create_session_def Let_def get_session_def session_new_def
      nth_append hm_len_insert less_Suc_eq split: if_splits)

lemma registry_inv_update:
  "registry_inv s \<Longrightarrow> registry_inv (update_session ref (session_apply m) s)"
proof -
  assume inv: "registry_inv s"
  have "hm_wf (se_data x)"
    if "x \<in> set ((sv_store s)[ref := session_apply m (sv_store s ! ref)])" for x
  proof (cases "ref < length (sv_store s)")
    case True
    then have "hm_wf (se_data (sv_store s ! ref))" using inv by (simp add: registry_inv_def)
    then show ?thesis using that inv
      by (auto simp: registry_inv_def dest!: set_update_subset_insert [THEN subsetD])
  next
    case False
    then show ?thesis using that inv by (simp add: registry_inv_def list_update_beyond)
  qed
  with inv show ?thesis
    by (simp add: registry_inv_def update_session_def get_session_def store_update_id)
qed

lemma registry_inv_upgrade: "registry_inv s \<Longrightarrow> registry_inv (fst (upgrade_session now i s))"
  by (auto simp: registry_inv_def upgrade_session_def Let_def get_session_def session_new_def
      nth_append hm_len_insert_present less_Suc_eq fold_hm_insert_wf split: option.splits if_splits)

lemma fold_hm_remove:
  "hm_get (fold hm_remove ks m) j = (if j \<in> set ks then None else hm_get m j)"
  "hm_len (fold hm_remove ks m) \<le> hm_len m"
  "hm_wf m \<Longrightarrow> hm_wf (fold hm_remove ks m)"
proof -
  show "hm_get (fold hm_remove ks m) j = (if j \<in> set ks then None else hm_get m j)"
    by (induction ks arbitrary: m) auto
  show "hm_len (fold hm_remove ks m) \<le> hm_len m"
    by (induction ks arbitrary: m) (auto intro: order_trans hm_len_remove_le)
  show "hm_wf m \<Longrightarrow> hm_wf (fold hm_remove ks m)"
    by (induction ks arbitrary: m) auto
qed

lemma registry_inv_cleanup:
  "registry_inv s \<Longrightarrow> registry_inv (fst (cleanup_expired_sessions now s))"
  by (auto simp: registry_inv_def cleanup_expired_sessions_def Let_def get_session_def fold_hm_remove
      intro: order_trans [OF fold_hm_remove(2)] split: if_splits)

lemma registry_inv_remove: "registry_inv s \<Longrightarrow> registry_inv (fst (remove_session i s))"
  by (auto simp: registry_inv_def remove_session_def get_session_def
      intro: order_trans [OF hm_len_remove_le] split: if_splits)

lemma registry_inv_step: "registry_inv s \<Longrightarrow> registry_inv (fst (server_step s a))"
  by (cases a) (simp_all add: registry_inv_create registry_inv_remove registry_inv_update
      registry_inv_upgrade registry_inv_cleanup)

interpretation session_machine: invariant_machine server_step registry_inv
  by unfold_locales (rule registry_inv_step)

lemma cfg_step [simp]: "sv_config (fst (server_step s a)) = sv_config s"
  by (cases a) (simp_all add: create_session_def remove_session_def update_session_def
      upgrade_session_def cleanup_expired_sessions_def Let_def split: option.split)

lemma cfg_run [simp]: "sv_config (run_ops server_step s as) = sv_config s"
  by (induction as arbitrary: s) simp_all

lemma registry_refs_inject:
  "registry_inv s \<Longrightarrow> get_session s i = Some ref \<Longrightarrow> get_session s j = Some ref \<longleftrightarrow> j = i"
  unfolding registry_inv_def by blast


text \<open>What a lookup by id shows of the registered session.\<close>

definition session_view :: "'w server \<Rightarrow> u64 \<Rightarrow> session option" where
  "session_view s i = map_option ((!) (sv_store s)) (get_session s i)"

lemma view_update:
  assumes "registry_inv s"
  shows "session_view (update_session ref f s) j =
    (if get_session s j = Some ref then map_option f (session_view s j) else session_view s j)"
proof -
  have "ref' < length (sv_store s)" if "get_session s j = Some ref'" for ref'
    using assms that by (simp add: registry_inv_def)
  then show ?thesis
    by (cases "get_session s j")
      (auto simp: session_view_def update_session_def get_session_def nth_list_update)
qed

text \<open>Session isolation. At any point of any run, a client's method call through the handle that
  a lookup of session \<open>i\<close> returned changes session \<open>i\<close> as the method says and no other session.\<close>

theorem session_isolation:
  assumes "get_session (run_ops server_step (server_new r cfg) ops) i = Some ref"
  shows "session_view (update_session ref (session_apply m) (run_ops server_step (server_new r cfg) ops)) j =
    (if j = i then map_option (session_apply m) (session_view (run_ops server_step (server_new r cfg) ops) j)
     else session_view (run_ops server_step (server_new r cfg) ops) j)"
proof -
  have "registry_inv (run_ops server_step (server_new r cfg) ops)"
    by (rule session_machine.run_inv) (rule registry_inv_new)
  with assms show ?thesis by (simp add: view_update registry_refs_inject)
qed

text \<open>A configuration and a run for the witnesses: one session with one entry.\<close>

definition sample_config :: server_config where
  "sample_config =
     \<lparr>cfg_max_sessions = 2, cfg_session_timeout_secs = 3600, cfg_enable_metrics = True,
      cfg_server_name = ascii ''dcp-server'', cfg_server_version = ascii ''0.1.0''\<rparr>"

definition sample_ops :: "server_op list" where
  "sample_ops = [CreateSession 10, CreateSession 20, OnSession 0 (SetData [107] [1, 2])]"

lemma sample_run:
  "run_ops server_step (server_new router_new sample_config) sample_ops =
     (server_new router_new sample_config)\<lparr>sv_sessions := [(1, 0), (2, 1)], sv_session_counter := 3,
        sv_store := [(session_new 10 1)\<lparr>se_data := [([107], [1, 2])]\<rparr>, session_new 20 2]\<rparr>"
  by (simp add: sample_ops_def sample_config_def server_new_def create_session_def Let_def hm_len_def
      hm_insert_def update_session_def session_set_data_def session_new_def)

lemma sample_data: "session_get_data (x\<lparr>se_data := [(k, v)]\<rparr>) k = Some v"
  by (simp add: session_get_data_def hm_get_def)

theorem session_isolation_witness:
  "session_view (update_session 0 (session_apply (SetData [107] [7]))
      (run_ops server_step (server_new router_new sample_config) sample_ops)) 2 =
    Some (session_new 20 2)"
  using session_isolation [of router_new sample_config sample_ops 1 0 "SetData [107] [7]" 2]
  by (simp add: sample_run get_session_def hm_get_def session_view_def)

lemma upgrade_view:
  assumes inv: "registry_inv s" and ref: "get_session s i = Some ref"
    and s'_def: "s' = fst (upgrade_session now i s)"
  shows "session_view s' j =
      (if j = i then Some ((session_new now i)\<lparr>se_protocol := DcpV1,
         se_data := fold (\<lambda>(k, v) d. hm_insert k v d) (se_data (sv_store s ! ref)) []\<rparr>)
       else session_view s j)"
    and "get_session s' j \<noteq> Some ref"
proof -
  have lt: "ref' < length (sv_store s)" if "get_session s j = Some ref'" for j ref'
    using inv that by (simp add: registry_inv_def)
  then have lt_ref: "ref < length (sv_store s)" using ref by blast
  show "get_session s' j \<noteq> Some ref"
    using lt_ref registry_refs_inject [OF inv ref, of j] ref
    by (auto simp: s'_def upgrade_session_def Let_def get_session_def)
  show "session_view s' j = (if j = i then Some ((session_new now i)\<lparr>se_protocol := DcpV1,
         se_data := fold (\<lambda>(k, v) d. hm_insert k v d) (se_data (sv_store s ! ref)) []\<rparr>)
       else session_view s j)"
    using ref lt [of j]
    by (cases "get_session s j")
      (auto simp: s'_def upgrade_session_def Let_def get_session_def session_view_def nth_append)
qed

text \<open>Protocol upgrade. Upgrading a registered session makes it a DCP session with the same data
  under every key and leaves every other session as it was; its counters start again, and a handle
  obtained before the upgrade is detached: no later method call through it reaches any registered
  session.\<close>

theorem upgrade_keeps_data:
  assumes "get_session (run_ops server_step (server_new r cfg) ops) i = Some ref"
  shows "(case session_view (fst (upgrade_session now i (run_ops server_step (server_new r cfg) ops))) j of
      None \<Rightarrow> j \<noteq> i \<and> session_view (run_ops server_step (server_new r cfg) ops) j = None
    | Some new \<Rightarrow>
        if j = i then is_dcp new \<and> se_id new = i \<and> se_message_count new = 0 \<and>
          se_last_activity new = now \<and>
          session_get_data new =
            session_get_data (sv_store (run_ops server_step (server_new r cfg) ops) ! ref)
        else session_view (run_ops server_step (server_new r cfg) ops) j = Some new) \<and>
    session_view (update_session ref (session_apply m)
        (fst (upgrade_session now i (run_ops server_step (server_new r cfg) ops)))) j =
      session_view (fst (upgrade_session now i (run_ops server_step (server_new r cfg) ops))) j"
proof -
  define s where "s = run_ops server_step (server_new r cfg) ops"
  have inv: "registry_inv s"
    unfolding s_def by (rule session_machine.run_inv) (rule registry_inv_new)
  have ref: "get_session s i = Some ref" using assms by (simp add: s_def)
  have "ref < length (sv_store s)" using inv ref by (simp add: registry_inv_def)
  then have "hm_wf (se_data (sv_store s ! ref))" using inv by (simp add: registry_inv_def)
  then have "session_get_data ((session_new now i)\<lparr>se_protocol := DcpV1,
        se_data := fold (\<lambda>(k, v) d. hm_insert k v d) (se_data (sv_store s ! ref)) []\<rparr>) =
      session_get_data (sv_store s ! ref)"
    by (auto simp: session_get_data_def fold_hm_insert_get fun_eq_iff split: option.split)
  then show ?thesis
    unfolding s_def [symmetric]
    using view_update [OF registry_inv_upgrade [OF inv]] upgrade_view(2) [OF inv ref refl]
    by (auto simp: upgrade_view(1) [OF inv ref refl] is_dcp_def session_new_def split: option.split)
qed

theorem upgrade_keeps_data_witness:
  "\<exists>new. session_view (fst (upgrade_session 50 1
       (run_ops server_step (server_new router_new sample_config) sample_ops))) 1 = Some new \<and>
     is_dcp new \<and> session_get_data new [107] = Some [1, 2]"
  using upgrade_keeps_data [where r = router_new and cfg = sample_config and ops = sample_ops
      and i = 1 and ref = 0 and now = 50 and j = 1 and m = IncrementMessages]
  by (auto simp: sample_run get_session_def hm_get_def sample_data split: option.splits)

section \<open>Clean-up\<close>

lemma cleanup_filter:
  assumes "hm_wf m"
  shows "fold hm_remove (map fst (filter P m)) m = filter (\<lambda>x. \<not> P x) m"
proof -
  have "fold hm_remove ks m = filter (\<lambda>x. fst x \<notin> set ks) m" for ks
    by (induction ks arbitrary: m) (auto simp: hm_remove_def AList.delete_eq filter_filter intro: filter_cong)
  moreover have "fst x \<notin> fst ` set (filter P m) \<longleftrightarrow> \<not> P x" if "x \<in> set m" for x
    using assms that by (force simp: hm_wf_def distinct_map inj_on_def)
  ultimately show ?thesis by (simp cong: filter_cong)
qed

text \<open>Expiry. At any point of any run a clean-up removes exactly the registered sessions whose
  age, computed modulo \<open>2\<^sup>6\<^sup>4\<close>, exceeds the timeout, keeps every other one untouched, and
  reports how many it removed.\<close>

theorem cleanup_removes_expired:
  fixes r :: "'w router"
  shows "session_view (fst (cleanup_expired_sessions now (run_ops server_step (server_new r cfg) ops))) i =
      (case session_view (run_ops server_step (server_new r cfg) ops) i of
         None \<Rightarrow> None
       | Some x \<Rightarrow> if now - se_last_activity x > cfg_session_timeout_secs cfg then None else Some x) \<and>
    snd (cleanup_expired_sessions now (run_ops server_step (server_new r cfg) ops)) =
      session_count (run_ops server_step (server_new r cfg) ops) -
      session_count (fst (cleanup_expired_sessions now (run_ops server_step (server_new r cfg) ops)))"
proof -
  define s where "s = run_ops server_step (server_new r cfg) ops"
  have inv: "registry_inv s"
    unfolding s_def by (rule session_machine.run_inv) (rule registry_inv_new)
  have cfg: "sv_config s = cfg" by (simp add: s_def server_new_def)
  have wf: "hm_wf (sv_sessions s)" using inv by (simp add: registry_inv_def)
  have "fst (cleanup_expired_sessions now s) =
      s\<lparr>sv_sessions := hm_retain (\<lambda>i ref. \<not> session_expired now s ref) (sv_sessions s)\<rparr>"
    by (simp add: cleanup_expired_sessions_def Let_def cleanup_filter [OF wf] hm_retain_def
        case_prod_unfold)
  then have "session_view (fst (cleanup_expired_sessions now s)) i =
      (case session_view s i of
         None \<Rightarrow> None
       | Some x \<Rightarrow> if now - se_last_activity x > cfg_session_timeout_secs cfg then None else Some x)"
    by (auto simp: session_view_def get_session_def hm_get_retain [OF wf] session_expired_def cfg
        split: option.split)
  moreover have "snd (cleanup_expired_sessions now s) =
      session_count s - session_count (fst (cleanup_expired_sessions now s))"
    using sum_length_filter_compl [of "\<lambda>(i, ref). session_expired now s ref" "sv_sessions s"]
    by (simp add: cleanup_expired_sessions_def Let_def cleanup_filter [OF wf] session_count_def
        hm_len_def)
  ultimately show ?thesis by (simp only: s_def simp_thms)
qed

section \<open>Accounting for calls\<close>

text \<open>The calls a client can make on the server, and their outcome with the server's own errors and
  the router's.\<close>

datatype server_call =
  RawInvoke u64 u16 shared_args
| RawByName u64 "text" shared_args
| AuthorizedCall manifest u16 shared_args
| AuthorizedByName manifest "text" shared_args
| SignedCall "u64 \<times> u64" u64 manifest signed_invocation bytes shared_args

type_synonym call_outcome = "(dcp_error + security_error) + tool_result"

fun lift_error :: "('e \<Rightarrow> 'f) \<Rightarrow> 'e + 'a \<Rightarrow> 'f + 'a" where
  "lift_error f (Inl e) = Inl (f e)"
| "lift_error f (Inr x) = Inr x"

fun server_dispatch ::
  "'sk crypto \<Rightarrow> nonce_store \<times> 'w server \<times> 'w \<Rightarrow> server_call \<Rightarrow>
   (nonce_store \<times> 'w server \<times> 'w) \<times> call_outcome" where
  "server_dispatch cr (st, sw) (RawInvoke now i args) =
     (case invoke now i args sw of (sw', res) \<Rightarrow> ((st, sw'), lift_error Inl res))"
| "server_dispatch cr (st, sw) (RawByName now n args) =
     (case invoke_by_name now n args sw of (sw', res) \<Rightarrow> ((st, sw'), lift_error Inl res))"
| "server_dispatch cr (st, sw) (AuthorizedCall m i args) =
     (case invoke_authorized m i args sw of (sw', res) \<Rightarrow> ((st, sw'), lift_error Inr res))"
| "server_dispatch cr (st, sw) (AuthorizedByName m n args) =
     (case invoke_by_name_authorized m n args sw of (sw', res) \<Rightarrow> ((st, sw'), lift_error Inr res))"
| "server_dispatch cr (st, sw) (SignedCall clock now m v pk args) =
     (case invoke_signed_authorized cr clock now m v pk args st sw of
        (st', sw', res) \<Rightarrow> ((st', sw'), lift_error Inr res))"

text \<open>The receipt each call leaves, and which calls count as an error or as an invocation.\<close>

fun call_receipts :: "server_call \<times> call_outcome \<Rightarrow> audit_event list" where
  "call_receipts (RawInvoke now i args, res) = [raw_denial_event now i]"
| "call_receipts (RawByName now n args, res) = [raw_name_denial_event now n]"
| "call_receipts (SignedCall clock now m v pk args, Inl (Inr e)) = [signed_error_event now e v]"
| "call_receipts (call, res) = []"

fun counts_error :: "server_call \<times> call_outcome \<Rightarrow> bool" where
  "counts_error (RawInvoke now i args, res) \<longleftrightarrow> True"
| "counts_error (RawByName now n args, res) \<longleftrightarrow> True"
| "counts_error (SignedCall clock now m v pk args, res) \<longleftrightarrow> \<not> is_ok res"
| "counts_error (call, res) \<longleftrightarrow> False"

fun counts_invocation :: "'w router \<Rightarrow> server_call \<times> call_outcome \<Rightarrow> bool" where
  "counts_invocation r (AuthorizedCall m i args, res) \<longleftrightarrow> True"
| "counts_invocation r (AuthorizedByName m n args, res) \<longleftrightarrow> resolve_name r n \<noteq> None"
| "counts_invocation r (SignedCall clock now m v pk args, res) \<longleftrightarrow> is_ok res"
| "counts_invocation r (call, res) \<longleftrightarrow> False"

definition metric_increment :: "'w server \<Rightarrow> bool \<Rightarrow> u64" where
  "metric_increment s b = (if cfg_enable_metrics (sv_config s) \<and> b then 1 else 0)"

lemma is_ok_lift [simp]: "is_ok (lift_error f x) = is_ok x"
  by (cases x) simp_all

lemma server_dispatch_account:
  assumes "server_dispatch cr (st, s, w) c = ((st', s', w'), res)"
  shows "sv_router s' = sv_router s \<and> sv_config s' = sv_config s \<and>
    sv_security_audit s' = fold audit_record (call_receipts (c, res)) (sv_security_audit s) \<and>
    mt_errors (sv_metrics s') = mt_errors (sv_metrics s) + metric_increment s (counts_error (c, res)) \<and>
    mt_tool_invocations (sv_metrics s') = mt_tool_invocations (sv_metrics s) +
      metric_increment s (counts_invocation (sv_router s) (c, res))"
proof -
  note defs = count_metric_def audit_event_to_def metric_increment_def record_error_def
    record_invocation_def
  show ?thesis
  proof (cases c)
    case (RawInvoke now i args)
    with assms show ?thesis by (auto simp: invoke_def audit_raw_invoke_denial_def defs)
  next
    case (RawByName now n args)
    with assms show ?thesis by (auto simp: invoke_by_name_def audit_raw_invoke_by_name_denial_def defs)
  next
    case (AuthorizedCall m i args)
    with assms show ?thesis by (auto simp: invoke_authorized_def defs split: prod.splits)
  next
    case (AuthorizedByName m n args)
    with assms show ?thesis
      by (auto simp: invoke_by_name_authorized_def invoke_authorized_def defs
          split: prod.splits option.splits)
  next
    case (SignedCall clock now m v pk args)
    obtain st1 w1 r1 where ex: "execute_signed_authorized cr clock (sv_router s) m v pk st args w =
        (st1, w1, r1)" by (metis prod_cases3)
    show ?thesis
      using assms by (cases r1)
        (auto simp: SignedCall invoke_signed_authorized_def ex audit_signed_invocation_error_def defs)
  qed
qed

lemma server_run_account:
  shows "sv_security_audit (fst (snd (run_ops (server_dispatch cr) (st, s, w) cs))) =
      fold audit_record (concat (map call_receipts (zip cs (run_outs (server_dispatch cr) (st, s, w) cs)))) (sv_security_audit s) \<and>
    mt_errors (sv_metrics (fst (snd (run_ops (server_dispatch cr) (st, s, w) cs)))) =
      mt_errors (sv_metrics s) + (if cfg_enable_metrics (sv_config s)
        then of_nat (length (filter counts_error (zip cs (run_outs (server_dispatch cr) (st, s, w) cs)))) else 0) \<and>
    mt_tool_invocations (sv_metrics (fst (snd (run_ops (server_dispatch cr) (st, s, w) cs)))) =
      mt_tool_invocations (sv_metrics s) + (if cfg_enable_metrics (sv_config s)
        then of_nat (length (filter (counts_invocation (sv_router s)) (zip cs (run_outs (server_dispatch cr) (st, s, w) cs)))) else 0)"
proof (induction cs arbitrary: st s w)
  case Nil
  then show ?case by simp
next
  case (Cons c cs)
  obtain st' s' w' res where call: "server_dispatch cr (st, s, w) c = ((st', s', w'), res)"
    by (metis prod.exhaust)
  from Cons.IH [of st' s' w'] server_dispatch_account [OF call] show ?case
    by (auto simp: call metric_increment_def)
qed


end
