(* ===== verification/Ring_Concurrent.thy ===== *)
theory Ring_Concurrent
  imports Ring_Buffer
begin

text \<open>
  The ring buffer of \<open>src/src/stream/ring_buffer.rs\<close> shared by one producer thread and one consumer
  thread. Every atomic access of \<open>push\<close> and \<open>pop\<close> and every byte they copy is a step, and the steps of
  the two threads interleave freely (sequentially consistent memory; the compare-and-swap may fail
  spuriously). The bytes whose push has been published and the bytes that pops have taken are recorded
  beside the state. \<open>clear\<close> is not part of these runs.
\<close>

section \<open>Threads\<close>

text \<open>A push: load the counter, reserve, copy byte by byte, publish. The copy of a possibly wrapped
  range visits \<open>(start + i) mod capacity\<close> for each \<open>i\<close>.\<close>

datatype producer = PIdle | PLoaded bytes u32 | PCopy bytes nat

text \<open>A pop: load the write position, copy out byte by byte, advance the read position, release.\<close>

datatype consumer = CIdle | CLoaded nat u64 | CCopy nat bytes | CRelease nat

type_synonym spsc = "ring \<times> producer \<times> consumer \<times> bytes \<times> bytes"

inductive spsc_step :: "spsc \<Rightarrow> spsc \<Rightarrow> bool" where
  push_load: "length data \<le> rb_capacity r \<Longrightarrow>
    spsc_step (r, PIdle, c, sent, got) (r, PLoaded data (rb_available r), c, sent, got)"
| push_refused: "fst (try_reserve current (of_nat (length data))) = False \<Longrightarrow>
    spsc_step (r, PLoaded data current, c, sent, got) (r, PIdle, c, sent, got)"
| push_retry: "fst (try_reserve current (of_nat (length data))) \<Longrightarrow>
    spsc_step (r, PLoaded data current, c, sent, got)
      (r, PLoaded data (rb_available r), c, sent, got)"
| push_reserve: "try_reserve current (of_nat (length data)) = (True, left) \<Longrightarrow>
    rb_available r = current \<Longrightarrow>
    spsc_step (r, PLoaded data current, c, sent, got)
      (r\<lparr>rb_available := left\<rparr>, PCopy data 0, c, sent, got)"
| push_copy: "i < length data \<Longrightarrow>
    spsc_step (r, PCopy data i, c, sent, got)
      (r\<lparr>rb_buffer := (rb_buffer r)
          [(ring_index r (rb_write_pos r) + i) mod rb_capacity r := data ! i]\<rparr>,
       PCopy data (i + 1), c, sent, got)"
| push_publish: "i = length data \<Longrightarrow>
    spsc_step (r, PCopy data i, c, sent, got)
      (r\<lparr>rb_write_pos := rb_write_pos r + of_nat (length data)\<rparr>, PIdle, c, sent @ data, got)"
| pop_load: "spsc_step (r, p, CIdle, sent, got) (r, p, CLoaded n (rb_write_pos r), sent, got)"
| pop_start: "to_read = min n (unat (w - rb_read_pos r)) \<Longrightarrow>
    spsc_step (r, p, CLoaded n w, sent, got)
      (r, p, if to_read = 0 then CIdle else CCopy to_read [], sent, got)"
| pop_copy: "length out < k \<Longrightarrow>
    spsc_step (r, p, CCopy k out, sent, got)
      (r, p, CCopy k (out @ [rb_buffer r !
          ((ring_index r (rb_read_pos r) + length out) mod rb_capacity r)]), sent, got)"
| pop_advance: "length out = k \<Longrightarrow>
    spsc_step (r, p, CCopy k out, sent, got)
      (r\<lparr>rb_read_pos := rb_read_pos r + of_nat k\<rparr>, p, CRelease k, sent, got @ out)"
| pop_release:
    "spsc_step (r, p, CRelease k, sent, got)
      (r\<lparr>rb_available := release (rb_available r) (of_nat k)\<rparr>, p, CIdle, sent, got)"

definition spsc_init :: "nat \<Rightarrow> spsc" where
  "spsc_init requested = (ring_new requested, PIdle, CIdle, [], [])"

section \<open>Invariant\<close>

text \<open>Space the producer has reserved and not yet published, and space the consumer has freed and not
  yet given back.\<close>

fun reserved :: "producer \<Rightarrow> nat" where
  "reserved (PCopy data i) = length data"
| "reserved p = 0"

fun unreleased :: "consumer \<Rightarrow> nat" where
  "unreleased (CRelease k) = k"
| "unreleased c = 0"

definition ring_shape :: "ring \<Rightarrow> bool" where
  "ring_shape r \<longleftrightarrow> (\<exists>k. 4 \<le> k \<and> k < 32 \<and> rb_capacity r = 2 ^ k) \<and>
     rb_mask r = rb_capacity r - 1 \<and> length (rb_buffer r) = rb_capacity r"

text \<open>The buffer holds stream position \<open>j\<close> at index \<open>j\<close> modulo the capacity, for every position between
  the cursors.\<close>

definition holds_range :: "ring \<Rightarrow> nat \<Rightarrow> bytes \<Rightarrow> bool" where
  "holds_range r from xs \<longleftrightarrow>
     (\<forall>j < length xs. rb_buffer r ! ((from + j) mod rb_capacity r) = xs ! j)"

fun producer_ok :: "ring \<Rightarrow> nat \<Rightarrow> producer \<Rightarrow> bool" where
  "producer_ok r n PIdle \<longleftrightarrow> True"
| "producer_ok r n (PLoaded data current) \<longleftrightarrow> length data \<le> rb_capacity r"
| "producer_ok r n (PCopy data i) \<longleftrightarrow> i \<le> length data \<and> holds_range r n (take i data)"

fun consumer_ok :: "bytes \<Rightarrow> nat \<Rightarrow> consumer \<Rightarrow> bool" where
  "consumer_ok sent n CIdle \<longleftrightarrow> True"
| "consumer_ok sent n (CLoaded m w) \<longleftrightarrow> (\<exists>l. w = of_nat l \<and> n \<le> l \<and> l \<le> length sent)"
| "consumer_ok sent n (CCopy k out) \<longleftrightarrow>
     n + k \<le> length sent \<and> length out \<le> k \<and> out = take (length out) (drop n sent)"
| "consumer_ok sent n (CRelease k) \<longleftrightarrow> True"

definition spsc_inv :: "spsc \<Rightarrow> bool" where
  "spsc_inv s \<longleftrightarrow>
     (case s of (r, p, c, sent, got) \<Rightarrow>
        ring_shape r \<and> length got \<le> length sent \<and> got = take (length got) sent \<and>
        rb_write_pos r = of_nat (length sent) \<and> rb_read_pos r = of_nat (length got) \<and>
        unat (rb_available r) + reserved p + length sent + unreleased c =
          rb_capacity r + length got \<and>
        holds_range r (length got) (drop (length got) sent) \<and>
        producer_ok r (length sent) p \<and> consumer_ok sent (length got) c)"

section \<open>Indices\<close>

lemma ring_shapeD:
  assumes "ring_shape r"
  shows "0 < rb_capacity r" "rb_capacity r < 2 ^ 32" "rb_capacity r dvd 2 ^ 64"
    "length (rb_buffer r) = rb_capacity r"
proof -
  from assms obtain k where k: "4 \<le> k" "k < 32" "rb_capacity r = 2 ^ k"
    by (auto simp: ring_shape_def)
  have "(2 :: nat) ^ k dvd 2 ^ 64" by (rule le_imp_power_dvd) (use k in simp)
  moreover have "(2 :: nat) ^ k < 2 ^ 32" by (rule power_strict_increasing) (use k in simp_all)
  ultimately show "0 < rb_capacity r" "rb_capacity r < 2 ^ 32" "rb_capacity r dvd 2 ^ 64"
    "length (rb_buffer r) = rb_capacity r"
    using assms k by (simp_all add: ring_shape_def)
qed

lemma shape_index:
  assumes "ring_shape r"
  shows "(ring_index r (of_nat n) + i) mod rb_capacity r = (n + i) mod rb_capacity r"
proof -
  let ?r = "r\<lparr>rb_available := of_nat (rb_capacity r), rb_write_pos := 0, rb_read_pos := 0\<rparr>"
  note cap = ring_shapeD [OF assms]
  have "unat (of_nat (rb_capacity r) :: u32) = rb_capacity r"
    using cap by (simp add: unat_of_nat_small)
  then have "ring_inv ?r" using assms by (simp add: ring_inv_def ring_shape_def ring_len_def)
  then have "ring_index r (of_nat n) = unat (of_nat n :: u64) mod rb_capacity r"
    using ring_index_mod [of ?r "of_nat n"] by (simp add: ring_index_def)
  also have "\<dots> = n mod rb_capacity r"
    using cap by (simp add: unat_of_nat mod_mod_cancel)
  finally show ?thesis by (simp add: mod_add_left_eq)
qed

lemma mod_distinct:
  assumes "a < b" and "b < a + c"
  shows "(a :: nat) mod c \<noteq> b mod c"
proof
  assume "a mod c = b mod c"
  then have "c dvd b - a" using assms(1) by (metis less_imp_le_nat mod_eq_dvd_iff_nat)
  with assms show False by (auto dest: dvd_imp_le)
qed

lemma holds_range_write:
  assumes "holds_range r n xs" and "n + length xs \<le> b" and "b < n + rb_capacity r"
  shows "holds_range (r\<lparr>rb_buffer := (rb_buffer r)[b mod rb_capacity r := v]\<rparr>) n xs"
proof -
  have "b mod rb_capacity r \<noteq> (n + j) mod rb_capacity r" if "j < length xs" for j
    by (rule not_sym, rule mod_distinct) (use that assms in simp_all)
  with assms(1) show ?thesis by (simp add: holds_range_def)
qed

lemma holds_range_snoc:
  assumes "ring_shape r" and "holds_range r n xs" and "length xs < rb_capacity r"
  shows "holds_range (r\<lparr>rb_buffer := (rb_buffer r)[(n + length xs) mod rb_capacity r := v]\<rparr>) n (xs @ [v])"
  using holds_range_write [OF assms(2) le_refl, of v] assms ring_shapeD [OF assms(1)]
  by (auto simp: holds_range_def nth_append less_Suc_eq)

lemma holds_range_append:
  "holds_range r n (xs @ ys) \<longleftrightarrow> holds_range r n xs \<and> holds_range r (n + length xs) ys"
  unfolding holds_range_def
  by (auto simp: nth_append add.assoc) (metis add_diff_inverse_nat nat_add_left_cancel_less)

text \<open>The cursors and the counter do not matter for what the buffer holds.\<close>

lemma shape_updates [simp]:
  "ring_shape (r\<lparr>rb_available := a\<rparr>) = ring_shape r"
  "ring_shape (r\<lparr>rb_write_pos := w\<rparr>) = ring_shape r"
  "ring_shape (r\<lparr>rb_read_pos := w\<rparr>) = ring_shape r"
  "holds_range (r\<lparr>rb_available := a\<rparr>) n xs = holds_range r n xs"
  "holds_range (r\<lparr>rb_write_pos := w\<rparr>) n xs = holds_range r n xs"
  "holds_range (r\<lparr>rb_read_pos := w\<rparr>) n xs = holds_range r n xs"
  "producer_ok (r\<lparr>rb_available := a\<rparr>) n p = producer_ok r n p"
  "producer_ok (r\<lparr>rb_read_pos := w\<rparr>) n p = producer_ok r n p"
proof -
  show holds: "holds_range (r\<lparr>rb_available := a\<rparr>) n xs = holds_range r n xs"
    "holds_range (r\<lparr>rb_read_pos := w\<rparr>) n xs = holds_range r n xs" for xs n
    by (simp_all add: holds_range_def)
  show "producer_ok (r\<lparr>rb_available := a\<rparr>) n p = producer_ok r n p"
    "producer_ok (r\<lparr>rb_read_pos := w\<rparr>) n p = producer_ok r n p"
    by (cases p; simp add: holds)+
qed (simp_all add: ring_shape_def holds_range_def)

section \<open>Every step keeps the invariant\<close>

lemma inv_push_reserve:
  assumes inv: "spsc_inv (r, PLoaded data (rb_available r), c, sent, got)"
    and ok: "try_reserve (rb_available r) (of_nat (length data)) = (True, left)"
  shows "spsc_inv (r\<lparr>rb_available := left\<rparr>, PCopy data 0, c, sent, got)"
proof -
  have shape: "ring_shape r" and len: "length data \<le> rb_capacity r"
    using inv by (simp_all add: spsc_inv_def)
  have n: "unat (of_nat (length data) :: u32) = length data"
    using ring_shapeD [OF shape] len by (simp add: unat_of_nat_small)
  have left: "left = rb_available r - of_nat (length data)"
    and le: "length data \<le> unat (rb_available r)"
    using ok n by (auto simp: try_reserve_def word_less_nat_alt split: if_splits)
  have "unat left = unat (rb_available r) - length data"
    using le n by (simp add: left unat_sub word_le_nat_alt)
  with inv le show ?thesis by (simp add: spsc_inv_def) (simp add: holds_range_def)
qed

lemma inv_push_copy:
  assumes inv: "spsc_inv (r, PCopy data i, c, sent, got)" and i: "i < length data"
  shows "spsc_inv (r\<lparr>rb_buffer := (rb_buffer r)
      [(ring_index r (rb_write_pos r) + i) mod rb_capacity r := data ! i]\<rparr>,
    PCopy data (i + 1), c, sent, got)"
proof -
  let ?r = "r\<lparr>rb_buffer := (rb_buffer r)[(length sent + i) mod rb_capacity r := data ! i]\<rparr>"
  have shape: "ring_shape r" and W: "rb_write_pos r = of_nat (length sent)"
    and room: "unat (rb_available r) + length data + length sent + unreleased c =
        rb_capacity r + length got" "length got \<le> length sent"
    and old: "holds_range r (length got) (drop (length got) sent)"
    and new: "holds_range r (length sent) (take i data)"
    using inv by (simp_all add: spsc_inv_def)
  have "holds_range ?r (length got) (drop (length got) sent)"
    by (rule holds_range_write [OF old]) (use room i in simp_all)
  moreover have "holds_range ?r (length sent) (take (i + 1) data)"
    using holds_range_snoc [OF shape new, of "data ! i"] i room
    by (simp add: take_Suc_conv_app_nth)
  ultimately show ?thesis
    using inv i by (simp add: spsc_inv_def W shape_index [OF shape] ring_shape_def)
qed

lemma inv_push_publish:
  assumes inv: "spsc_inv (r, PCopy data (length data), c, sent, got)"
  shows "spsc_inv (r\<lparr>rb_write_pos := rb_write_pos r + of_nat (length data)\<rparr>, PIdle, c, sent @ data, got)"
proof -
  have "consumer_ok (sent @ data) (length got) c"
    using inv by (cases c) (auto simp: spsc_inv_def)
  moreover have "holds_range r (length got) (drop (length got) sent @ data)"
    using inv by (simp add: spsc_inv_def holds_range_append)
  ultimately show ?thesis using inv by (simp add: spsc_inv_def)
qed

lemma inv_pop_start:
  assumes inv: "spsc_inv (r, p, CLoaded n w, sent, got)"
    and k: "k = min n (unat (w - rb_read_pos r))"
  shows "spsc_inv (r, p, if k = 0 then CIdle else CCopy k [], sent, got)"
proof -
  from inv obtain l where l: "w = of_nat l" "length got \<le> l" "l \<le> length sent"
    and R: "rb_read_pos r = of_nat (length got)" and shape: "ring_shape r"
    and room: "length sent - length got \<le> rb_capacity r"
    by (auto simp: spsc_inv_def)
  have "w - rb_read_pos r = of_nat (l - length got)" using l R by (simp add: of_nat_diff)
  moreover have "l - length got < 2 ^ 64" using l room ring_shapeD(2) [OF shape] by simp
  ultimately have "unat (w - rb_read_pos r) = l - length got" by (simp add: unat_of_nat_small)
  with k l inv show ?thesis by (auto simp: spsc_inv_def)
qed

lemma inv_pop_copy:
  assumes inv: "spsc_inv (r, p, CCopy k out, sent, got)" and lt: "length out < k"
  shows "spsc_inv (r, p, CCopy k (out @ [rb_buffer r !
      ((ring_index r (rb_read_pos r) + length out) mod rb_capacity r)]), sent, got)"
proof -
  have shape: "ring_shape r" and R: "rb_read_pos r = of_nat (length got)"
    and k: "length got + k \<le> length sent" and out: "out = take (length out) (drop (length got) sent)"
    and held: "holds_range r (length got) (drop (length got) sent)"
    using inv by (simp_all add: spsc_inv_def)
  have "rb_buffer r ! ((length got + length out) mod rb_capacity r) = drop (length got) sent ! length out"
    using held k lt unfolding holds_range_def by simp
  then have "take (Suc (length out)) (drop (length got) sent) =
      out @ [rb_buffer r ! ((length got + length out) mod rb_capacity r)]"
    using out k lt by (simp add: take_Suc_conv_app_nth)
  with inv lt show ?thesis by (simp add: spsc_inv_def R shape_index [OF shape])
qed

lemma inv_pop_advance:
  assumes inv: "spsc_inv (r, p, CCopy (length out) out, sent, got)"
  shows "spsc_inv (r\<lparr>rb_read_pos := rb_read_pos r + of_nat (length out)\<rparr>, p, CRelease (length out),
    sent, got @ out)"
proof -
  let ?L = "length got" and ?k = "length out"
  have k: "?L + ?k \<le> length sent" and out: "out = take ?k (drop ?L sent)"
    and got: "got = take ?L sent" and held: "holds_range r ?L (drop ?L sent)"
    using inv by (simp_all add: spsc_inv_def)
  have "got @ out = take (?L + ?k) sent" using got out by (metis take_add)
  moreover have "holds_range r (?L + ?k) (drop (?L + ?k) sent)"
    using held holds_range_append [of r ?L out "drop ?k (drop ?L sent)"] append_take_drop_id
    by (metis add.commute drop_drop out)
  ultimately show ?thesis
    using inv k by (simp add: spsc_inv_def)
qed

lemma inv_pop_release:
  assumes inv: "spsc_inv (r, p, CRelease k, sent, got)"
  shows "spsc_inv (r\<lparr>rb_available := release (rb_available r) (of_nat k)\<rparr>, p, CIdle, sent, got)"
proof -
  have shape: "ring_shape r" and room: "unat (rb_available r) + k \<le> rb_capacity r"
    using inv by (simp_all add: spsc_inv_def)
  then have "unat (rb_available r) + k < 2 ^ 32" using ring_shapeD(2) [OF shape] by simp
  then have "unat (release (rb_available r) (of_nat k)) = unat (rb_available r) + k"
    by (simp add: release_def unat_word_ariths unat_of_nat)
  then show ?thesis using inv by (simp add: spsc_inv_def)
qed

lemma spsc_inv_step: "spsc_step s t \<Longrightarrow> spsc_inv s \<Longrightarrow> spsc_inv t"
proof (induction rule: spsc_step.induct)
  case (push_load data r c sent got)
  then show ?case by (simp add: spsc_inv_def)
next
  case (push_refused current data r c sent got)
  then show ?case by (simp add: spsc_inv_def)
next
  case (push_retry current data r c sent got)
  then show ?case by (simp add: spsc_inv_def)
next
  case (pop_load r p sent got n)
  then show ?case by (auto simp: spsc_inv_def)
next
  case (push_reserve current data left r c sent got)
  then show ?case using inv_push_reserve [of r data c sent got left] by simp
next
  case (push_copy i data r c sent got)
  then show ?case using inv_push_copy by simp
next
  case (push_publish i data r c sent got)
  then show ?case using inv_push_publish by simp
next
  case (pop_start to_read n w r p sent got)
  then show ?case using inv_pop_start by simp
next
  case (pop_copy out k r p sent got)
  then show ?case using inv_pop_copy by simp
next
  case (pop_advance out k r p sent got)
  from pop_advance(1) [symmetric] pop_advance(2) show ?case using inv_pop_advance by simp
next
  case (pop_release r p k sent got)
  then show ?case using inv_pop_release by simp
qed

lemma spsc_inv_reach: "spsc_step\<^sup>*\<^sup>* s t \<Longrightarrow> spsc_inv s \<Longrightarrow> spsc_inv t"
  by (induction rule: rtranclp_induct) (auto intro: spsc_inv_step)

lemma spsc_inv_init:
  assumes "requested \<le> 2 ^ 31"
  shows "spsc_inv (spsc_init requested)"
proof -
  have inv: "ring_inv (ring_new requested)" using assms by (rule ring_new_inv)
  then have "ring_shape (ring_new requested)" by (simp add: ring_inv_def ring_shape_def)
  moreover have "unat (rb_available (ring_new requested)) = rb_capacity (ring_new requested)"
    using inv by (simp add: ring_inv_def ring_len_def ring_new_def Let_def)
  ultimately show ?thesis
    by (simp add: spsc_inv_def spsc_init_def holds_range_def) (simp add: ring_new_def Let_def)
qed

text \<open>C16: FIFO under concurrency. With one producer thread and one consumer thread whose atomic
  accesses and byte copies interleave in any way, the bytes that pops have taken are at every moment
  a prefix of the bytes that pushes have published: nothing is lost, reordered, torn or read before
  it is written, and the bytes in flight never exceed the capacity.\<close>

theorem spsc_fifo:
  assumes "requested \<le> 2 ^ 31"
    and "spsc_step\<^sup>*\<^sup>* (spsc_init requested) (r, p, c, sent, got)"
  shows "(\<exists>rest. sent = got @ rest \<and> length rest \<le> rb_capacity r) \<and>
    (case c of CCopy k out \<Rightarrow> \<exists>rest. sent = got @ out @ rest | _ \<Rightarrow> True)"
proof -
  have inv: "spsc_inv (r, p, c, sent, got)"
    using assms(2) by (rule spsc_inv_reach) (rule spsc_inv_init [OF assms(1)])
  then have "got = take (length got) sent" by (simp add: spsc_inv_def)
  then have pre: "sent = got @ drop (length got) sent" by (metis append_take_drop_id)
  moreover have "length (drop (length got) sent) \<le> rb_capacity r"
    using inv by (auto simp: spsc_inv_def)
  moreover have "\<exists>rest. sent = got @ out @ rest" if "c = CCopy k out" for k out
  proof -
    have "out = take (length out) (drop (length got) sent)" using inv that by (simp add: spsc_inv_def)
    then have "drop (length got) sent = out @ drop (length out) (drop (length got) sent)"
      by (metis append_take_drop_id)
    with pre show ?thesis by metis
  qed
  ultimately show ?thesis by (auto split: consumer.split)
qed

text \<open>A push of one byte and a pop of it.\<close>

definition sample_ring :: "u64 \<Rightarrow> u64 \<Rightarrow> ring" where
  "sample_ring w r =
     (ring_new 16)\<lparr>rb_available := 15, rb_buffer := (replicate 16 0)[0 := 7],
       rb_write_pos := w, rb_read_pos := r\<rparr>"

lemma sample_new:
  "ring_new 16 = \<lparr>rb_buffer = replicate 16 0, rb_write_pos = 0, rb_read_pos = 0, rb_capacity = 16,
     rb_mask = 15, rb_available = 16\<rparr>"
  by (simp add: ring_new_def Let_def pow2_from.simps)

lemma sample_spsc:
  "spsc_step\<^sup>*\<^sup>* (spsc_init 16) (sample_ring 1 1, PIdle, CRelease 1, [7], [7])"
proof -
  note single = r_into_rtranclp [of spsc_step]
  have "spsc_step\<^sup>*\<^sup>* (spsc_init 16) (ring_new 16, PLoaded [7] 16, CIdle, [], [])"
    using push_load [of "[7]" "ring_new 16" CIdle "[]" "[]"]
    by (intro single) (simp add: spsc_init_def sample_new)
  also have "spsc_step\<^sup>*\<^sup>* \<dots> ((ring_new 16)\<lparr>rb_available := 15\<rparr>, PCopy [7] 0, CIdle, [], [])"
    by (intro single push_reserve) (simp_all add: sample_new try_reserve_def)
  also have "spsc_step\<^sup>*\<^sup>* \<dots> (sample_ring 0 0, PCopy [7] (0 + 1), CIdle, [], [])"
    using push_copy [of 0 "[7]" "(ring_new 16)\<lparr>rb_available := 15\<rparr>" CIdle "[]" "[]"]
    by (intro single) (simp add: sample_ring_def sample_new ring_index_def)
  also have "spsc_step\<^sup>*\<^sup>* \<dots> (sample_ring 1 0, PIdle, CIdle, [7], [])"
    using push_publish [of 1 "[7]" "sample_ring 0 0" CIdle "[]" "[]"]
    by (intro single) (simp add: sample_ring_def sample_new)
  also have "spsc_step\<^sup>*\<^sup>* \<dots> (sample_ring 1 0, PIdle, CLoaded 4 1, [7], [])"
    using pop_load [of "sample_ring 1 0" PIdle "[7]" "[]" 4]
    by (intro single) (simp add: sample_ring_def sample_new)
  also have "spsc_step\<^sup>*\<^sup>* \<dots> (sample_ring 1 0, PIdle, CCopy 1 [], [7], [])"
    using pop_start [of 1 4 1 "sample_ring 1 0" PIdle "[7]" "[]"]
    by (intro single) (simp add: sample_ring_def sample_new)
  also have "spsc_step\<^sup>*\<^sup>* \<dots> (sample_ring 1 0, PIdle, CCopy 1 [7], [7], [])"
    using pop_copy [of "[]" 1 "sample_ring 1 0" PIdle "[7]" "[]"]
    by (intro single) (simp add: sample_ring_def sample_new ring_index_def)
  also have "spsc_step\<^sup>*\<^sup>* \<dots> (sample_ring 1 1, PIdle, CRelease 1, [7], [7])"
    using pop_advance [of "[7]" 1 "sample_ring 1 0" PIdle "[7]" "[]"]
    by (intro single) (simp add: sample_ring_def sample_new)
  finally show ?thesis .
qed

theorem spsc_fifo_witness: "\<exists>rest. [7] = ([7] :: bytes) @ rest \<and> length rest \<le> (16 :: nat)"
  using spsc_fifo [OF _ sample_spsc] by (simp add: sample_ring_def sample_new)

end
