(* ===== verification/Framing.thy ===== *)
theory Framing
  imports Dcp_Prelude
begin

text \<open>
  Length-prefixed framing over a byte stream (\<open>src/src/transport/framing.rs\<close>): a version byte, a
  big-endian length and the payload. The codec keeps the bytes received so far and takes complete
  frames off their front.
\<close>

section \<open>Frame header\<close>

definition PROTOCOL_VERSION :: u8 where "PROTOCOL_VERSION = 1"

definition MAX_MESSAGE_SIZE :: u32 where "MAX_MESSAGE_SIZE = 16 * 1024 * 1024"

definition FRAME_HEADER_SIZE :: nat where [codec_simps]: "FRAME_HEADER_SIZE = 5"

record frame_header =
  fh_version :: u8
  fh_length :: u32

definition fh_new :: "u32 \<Rightarrow> frame_header" where
  "fh_new len = \<lparr>fh_version = PROTOCOL_VERSION, fh_length = len\<rparr>"

definition fh_encode :: "frame_header \<Rightarrow> bytes \<Rightarrow> bytes" where
  [codec_simps]: "fh_encode h dst = dst @ [fh_version h] @ be_bytes 4 (fh_length h)"

definition fh_decode :: "bytes \<Rightarrow> frame_header option" where
  "fh_decode src =
     (if length src < FRAME_HEADER_SIZE then None
      else Some \<lparr>fh_version = src ! 0, fh_length = be_word (slice 1 5 src)\<rparr>)"

definition fh_frame_size :: "frame_header \<Rightarrow> nat" where
  "fh_frame_size h = FRAME_HEADER_SIZE + unat (fh_length h)"

datatype frame_error = MessageTooLarge u32 u32 | InvalidVersion u8 | Incomplete | EmptyMessage

section \<open>Codec\<close>

record frame_codec =
  fc_max_size :: u32
  fc_read_buffer :: bytes

definition frame_codec_new :: frame_codec where
  "frame_codec_new = \<lparr>fc_max_size = MAX_MESSAGE_SIZE, fc_read_buffer = []\<rparr>"

definition codec_with_max_size :: "u32 \<Rightarrow> frame_codec" where
  "codec_with_max_size max_size = \<lparr>fc_max_size = max_size, fc_read_buffer = []\<rparr>"

definition codec_feed :: "frame_codec \<Rightarrow> bytes \<Rightarrow> frame_codec" where
  "codec_feed c data = c\<lparr>fc_read_buffer := fc_read_buffer c @ data\<rparr>"

definition has_complete_frame :: "frame_codec \<Rightarrow> bool" where
  "has_complete_frame c \<longleftrightarrow>
     (if length (fc_read_buffer c) < FRAME_HEADER_SIZE then False
      else case fh_decode (fc_read_buffer c) of
        None \<Rightarrow> False
      | Some h \<Rightarrow>
          if fh_version h \<noteq> PROTOCOL_VERSION \<or> fh_length h > fc_max_size c then True
          else length (fc_read_buffer c) \<ge> fh_frame_size h)"

definition codec_clear :: "frame_codec \<Rightarrow> frame_codec" where
  "codec_clear c = c\<lparr>fc_read_buffer := []\<rparr>"

text \<open>\<open>decode_from\<close> advances the buffer it is given; the first component is what is left of it.\<close>

definition decode_from :: "frame_codec \<Rightarrow> bytes \<Rightarrow> bytes \<times> (frame_error + bytes option)" where
  "decode_from c src =
     (if length src < FRAME_HEADER_SIZE then (src, Inr None)
      else case fh_decode src of
        None \<Rightarrow> (src, Inl Incomplete)
      | Some h \<Rightarrow>
          if fh_version h \<noteq> PROTOCOL_VERSION then (src, Inl (InvalidVersion (fh_version h)))
          else if fh_length h > fc_max_size c
            then (src, Inl (MessageTooLarge (fh_length h) (fc_max_size c)))
          else if length src < fh_frame_size h then (src, Inr None)
          else let rest = drop FRAME_HEADER_SIZE src
               in (drop (unat (fh_length h)) rest, Inr (Some (take (unat (fh_length h)) rest))))"

definition codec_decode :: "frame_codec \<Rightarrow> frame_codec \<times> (frame_error + bytes option)" where
  "codec_decode c =
     (case snd (decode_from c (fc_read_buffer c)) of
        Inr (Some bytes) \<Rightarrow>
          (c\<lparr>fc_read_buffer := drop (FRAME_HEADER_SIZE + length bytes) (fc_read_buffer c)\<rparr>,
           Inr (Some bytes))
      | Inr None \<Rightarrow> (c, Inr None)
      | Inl error \<Rightarrow> (c\<lparr>fc_read_buffer := []\<rparr>, Inl error))"

text \<open>The length is the message's, modulo \<open>2\<^sup>3\<^sup>2\<close>.\<close>

definition codec_encode :: "frame_codec \<Rightarrow> bytes \<Rightarrow> bytes \<Rightarrow> bytes \<times> (frame_error + unit)" where
  "codec_encode c msg dst =
     (let len = of_nat (length msg)
      in if len > fc_max_size c then (dst, Inl (MessageTooLarge len (fc_max_size c)))
         else (fh_encode (fh_new len) dst @ msg, Inr ()))"

definition encode_to_bytes :: "frame_codec \<Rightarrow> bytes \<Rightarrow> frame_error + bytes" where
  "encode_to_bytes c msg =
     (case codec_encode c msg [] of (dst, res) \<Rightarrow> bind_result res (\<lambda>_. Inr dst))"

definition frame_message :: "bytes \<Rightarrow> frame_error + bytes" where
  "frame_message msg = encode_to_bytes frame_codec_new msg"

definition unframe_message :: "bytes \<Rightarrow> frame_error + bytes option" where
  "unframe_message data = snd (decode_from frame_codec_new data)"

section \<open>Frames\<close>

text \<open>The bytes of one frame.\<close>

definition frame_bytes :: "bytes \<Rightarrow> bytes" where
  "frame_bytes msg = fh_encode (fh_new (of_nat (length msg))) [] @ msg"

lemma length_fh_encode [simp]: "length (fh_encode h dst) = length dst + 5"
  by (simp add: codec_simps)

lemma fh_decode_encode: "fh_decode (fh_encode h [] @ rest) = Some h"
  by (simp add: fh_decode_def codec_simps slice_Cons_skip slice_hit)

lemma fh_decode_sound:
  assumes "fh_decode bs = Some h"
  shows "5 \<le> length bs \<and> take 5 bs = fh_encode h []"
proof -
  from assms have len: "5 \<le> length bs" and h: "h = \<lparr>fh_version = bs ! 0, fh_length = be_word (slice 1 5 bs)\<rparr>"
    by (auto simp: fh_decode_def FRAME_HEADER_SIZE_def split: if_splits)
  then show ?thesis
    using slice_Cons_nth [of 0 bs 1 5] by (cases "bs = []") (simp_all add: codec_simps take_eq_slice)
qed

interpretation frame_header_codec: prefix_codec "\<lambda>h. fh_encode h []" fh_decode "\<lambda>_. True" 5
  by unfold_locales
    (use fh_decode_encode [of _ "[]"] fh_decode_encode fh_decode_sound in auto)

lemma length_framed_bytes [simp]: "length (frame_bytes msg) = 5 + length msg"
  by (simp add: frame_bytes_def)

text \<open>What \<open>decode_from\<close> does, in terms of the header it reads.\<close>

lemma decode_from_header:
  "decode_from c (fh_encode h [] @ rest) =
     (if fh_version h \<noteq> 1 then (fh_encode h [] @ rest, Inl (InvalidVersion (fh_version h)))
      else if fh_length h > fc_max_size c
        then (fh_encode h [] @ rest, Inl (MessageTooLarge (fh_length h) (fc_max_size c)))
      else if length rest < unat (fh_length h) then (fh_encode h [] @ rest, Inr None)
      else (drop (unat (fh_length h)) rest, Inr (Some (take (unat (fh_length h)) rest))))"
  by (simp add: decode_from_def fh_decode_encode FRAME_HEADER_SIZE_def PROTOCOL_VERSION_def
      fh_frame_size_def Let_def)

lemma decode_from_short: "length src < 5 \<Longrightarrow> decode_from c src = (src, Inr None)"
  by (simp add: decode_from_def FRAME_HEADER_SIZE_def)

lemma header_or_short:
  obtains "length src < 5" | h rest where "src = fh_encode h [] @ rest"
  using fh_decode_sound [of src] by (metis append_take_drop_id fh_decode_def FRAME_HEADER_SIZE_def)

lemma unat_le_max: "unat n \<le> unat (m :: u32) \<longleftrightarrow> n \<le> m"
  by (simp add: word_le_nat_alt)

lemma decode_from_iff:
  "decode_from c src = (rest, Inr (Some msg)) \<longleftrightarrow>
     src = frame_bytes msg @ rest \<and> length msg \<le> unat (fc_max_size c)"
proof (cases rule: header_or_short [of src])
  case 1
  then show ?thesis using length_framed_bytes [of msg] by (auto simp: decode_from_short)
next
  case (2 h bs)
  have "src = frame_bytes msg @ rest \<and> length msg \<le> unat (fc_max_size c) \<longleftrightarrow>
      h = fh_new (of_nat (length msg)) \<and> bs = msg @ rest \<and> length msg \<le> unat (fc_max_size c)"
    using frame_header_codec.enc_inject [of h "fh_new (of_nat (length msg))"]
    by (auto simp: 2 frame_bytes_def)
  also have "\<dots> \<longleftrightarrow> fh_version h = 1 \<and> fh_length h \<le> fc_max_size c \<and>
      unat (fh_length h) = length msg \<and> bs = msg @ rest"
    using unat_u32_less [of "fc_max_size c"]
    by (cases h) (auto simp: fh_new_def PROTOCOL_VERSION_def unat_of_nat_small word_le_nat_alt
        word_unat_eq_iff)
  also have "\<dots> \<longleftrightarrow> decode_from c src = (rest, Inr (Some msg))"
    unfolding 2 decode_from_header by (auto simp: not_less append_eq_conv_conj)
  finally show ?thesis by simp
qed

text \<open>A frame is decoded exactly. Taking a frame off a buffer returns a payload exactly when the
  buffer starts with the frame of a payload within the size limit, and leaves exactly the bytes
  behind it.\<close>

theorem frame_decode_exact:
  "decode_from c src = (rest, Inr (Some msg)) \<longleftrightarrow>
     src = frame_bytes msg @ rest \<and> length msg \<le> unat (fc_max_size c)"
  by (rule decode_from_iff)

lemma encode_is_frame:
  "encode_to_bytes c msg =
     (if of_nat (length msg) > fc_max_size c
      then Inl (MessageTooLarge (of_nat (length msg)) (fc_max_size c)) else Inr (frame_bytes msg))"
  by (simp add: encode_to_bytes_def codec_encode_def Let_def frame_bytes_def)

section \<open>The stream of frames\<close>

datatype codec_op = Feed bytes | Poll

fun codec_step :: "frame_codec \<Rightarrow> codec_op \<Rightarrow> frame_codec \<times> (frame_error + bytes option)" where
  "codec_step c (Feed data) = (codec_feed c data, Inr None)"
| "codec_step c Poll = codec_decode c"

fun fed :: "codec_op list \<Rightarrow> bytes" where
  "fed [] = []"
| "fed (Feed data # ops) = data @ fed ops"
| "fed (Poll # ops) = fed ops"

text \<open>The messages among the results of the operations.\<close>

fun decoded :: "(frame_error + bytes option) list \<Rightarrow> bytes list" where
  "decoded [] = []"
| "decoded (Inr (Some msg) # rs) = msg # decoded rs"
| "decoded (r # rs) = decoded rs"

definition frames :: "bytes list \<Rightarrow> bytes" where
  "frames msgs = concat (map frame_bytes msgs)"

lemma frames_simps [simp]: "frames [] = []" "frames (m # ms) = frame_bytes m @ frames ms"
  by (simp_all add: frames_def)

lemma fed_append: "fed (as @ bs) = fed as @ fed bs"
  by (induction as rule: fed.induct) simp_all

lemma decoded_append: "decoded (rs @ qs) = decoded rs @ decoded qs"
  by (induction rs rule: decoded.induct) simp_all

lemma decode_incomplete:
  assumes "src @ tail = frame_bytes msg @ rest" and "length src < length (frame_bytes msg)"
    and "length msg \<le> unat (fc_max_size c)"
  shows "decode_from c src = (src, Inr None)"
proof (cases rule: header_or_short [of src])
  case 1
  then show ?thesis by (rule decode_from_short)
next
  case (2 h bs)
  then have "fh_encode h [] = fh_encode (fh_new (of_nat (length msg))) []"
    using assms(1) by (simp add: frame_bytes_def)
  then have "h = fh_new (of_nat (length msg))" by (simp add: frame_header_codec.enc_inject)
  with 2 assms(2,3) unat_u32_less [of "fc_max_size c"] show ?thesis
    by (simp add: decode_from_header fh_new_def PROTOCOL_VERSION_def unat_of_nat_small
        word_less_nat_alt)
qed

lemma poll_frames:
  assumes "fc_read_buffer c @ rest = frames ms"
    and "list_all (\<lambda>m. length m \<le> unat (fc_max_size c)) ms"
  obtains (frame) m ms' b where "ms = m # ms'" "b @ rest = frames ms'"
      "codec_decode c = (c\<lparr>fc_read_buffer := b\<rparr>, Inr (Some m))"
    | (wait) "codec_decode c = (c, Inr None)" "rest = [] \<longrightarrow> ms = []"
proof (cases ms)
  case Nil
  with assms(1) wait show ?thesis by (simp add: codec_decode_def decode_from_short)
next
  case (Cons m ms')
  with assms(2) have m: "length m \<le> unat (fc_max_size c)" by simp
  have eq: "fc_read_buffer c @ rest = frame_bytes m @ frames ms'" using assms(1) Cons by simp
  show ?thesis
  proof (cases "length (fc_read_buffer c) < length (frame_bytes m)")
    case True
    with decode_incomplete [OF eq True m] eq show ?thesis
      by (intro wait) (auto simp: codec_decode_def)
  next
    case False
    then have "take (5 + length m) (fc_read_buffer c) = frame_bytes m"
      using arg_cong [OF eq, of "take (5 + length m)"] by simp
    then obtain b where b: "fc_read_buffer c = frame_bytes m @ b"
      by (metis append_take_drop_id)
    then have "decode_from c (fc_read_buffer c) = (b, Inr (Some m))"
      using m by (simp add: decode_from_iff)
    with b eq Cons show ?thesis
      by (intro frame [of m ms' b]) (simp_all add: codec_decode_def FRAME_HEADER_SIZE_def)
  qed
qed

lemma run_frames:
  assumes "fc_read_buffer c @ fed ops @ rest = frames ms"
    and "list_all (\<lambda>m. length m \<le> unat (fc_max_size c)) ms"
  shows "\<exists>left. ms = decoded (run_outs codec_step c ops) @ left \<and>
      fc_read_buffer (run_ops codec_step c ops) @ rest = frames left \<and>
      fc_max_size (run_ops codec_step c ops) = fc_max_size c \<and>
      list_all is_ok (run_outs codec_step c ops)"
  using assms
proof (induction ops arbitrary: c ms)
  case Nil
  then show ?case by simp
next
  case (Cons a ops)
  show ?case
  proof (cases a)
    case (Feed d)
    from Cons.IH [of "codec_feed c d" ms] Cons.prems show ?thesis
      by (simp add: Feed codec_feed_def)
  next
    case Poll
    from Cons.prems have buf: "fc_read_buffer c @ (fed ops @ rest) = frames ms" by (simp add: Poll)
    show ?thesis
    proof (cases rule: poll_frames [OF buf Cons.prems(2)])
      case (1 m ms' b)
      with Cons.IH [of "c\<lparr>fc_read_buffer := b\<rparr>" ms'] Cons.prems show ?thesis
        by (auto simp: Poll)
    next
      case 2
      with Cons.IH [of c ms] Cons.prems show ?thesis by (simp add: Poll)
    qed
  qed
qed

lemma polls_drain:
  assumes "fc_read_buffer c = frames ms" and "length ms \<le> n"
    and "list_all (\<lambda>m. length m \<le> unat (fc_max_size c)) ms"
  shows "decoded (run_outs codec_step c (replicate n Poll)) = ms"
  using assms
proof (induction n arbitrary: c ms)
  case 0
  then show ?case by simp
next
  case (Suc n)
  have buf: "fc_read_buffer c @ [] = frames ms" using Suc.prems by simp
  show ?case
  proof (cases rule: poll_frames [OF buf Suc.prems(3)])
    case (1 m ms' b)
    with Suc.IH [of "c\<lparr>fc_read_buffer := b\<rparr>" ms'] Suc.prems show ?thesis by simp
  next
    case 2
    with Suc.IH [of c "[]"] Suc.prems show ?thesis by simp
  qed
qed

text \<open>C20: Framing is lossless. Messages within the size limit, framed one after the other, come out
  of the codec intact and in order, however the byte stream is cut into reads and whenever the reader
  polls, once everything has arrived and been polled; no operation on the way reports an error.\<close>

theorem messages_survive_segmentation:
  assumes "list_all (\<lambda>m. length m \<le> unat limit) msgs"
    and "fed ops = concat (map frame_bytes msgs)"
    and "length msgs \<le> n"
  shows "decoded (run_outs codec_step (codec_with_max_size limit) (ops @ replicate n Poll)) = msgs \<and>
    list_all is_ok (run_outs codec_step (codec_with_max_size limit) (ops @ replicate n Poll))"
proof -
  let ?c = "codec_with_max_size limit" and ?d = "run_ops codec_step (codec_with_max_size limit) ops"
  have start: "fc_read_buffer ?c @ fed ops @ [] = frames msgs"
    "list_all (\<lambda>m. length m \<le> unat (fc_max_size ?c)) msgs"
    using assms by (simp_all add: codec_with_max_size_def frames_def)
  obtain left where l: "msgs = decoded (run_outs codec_step ?c ops) @ left"
      "fc_read_buffer ?d = frames left" "fc_max_size ?d = limit" "list_all is_ok (run_outs codec_step ?c ops)"
    using run_frames [OF start] by (auto simp: codec_with_max_size_def)
  have ok: "list_all (\<lambda>m. length m \<le> unat (fc_max_size ?d)) left" "length left \<le> n"
    using assms(1,3) l(1,3) by (auto simp: list_all_iff dest: arg_cong [of _ _ length])
  have "fed (replicate n Poll) = []" by (induction n) simp_all
  then have "list_all is_ok (run_outs codec_step ?d (replicate n Poll))"
    using run_frames [of ?d "replicate n Poll" "[]" left] l(2) ok(1) by auto
  with l(1,4) polls_drain [OF l(2) ok(2,1)] show ?thesis
    by (simp add: run_outs_append decoded_append)
qed

lemma sample_frames:
  "concat (map frame_bytes [[7, 8], []]) = [1, 0, 0, 0, 2, 7, 8, 1, 0, 0, 0, 0]"
  by code_simp

theorem messages_survive_segmentation_witness:
  "decoded (run_outs codec_step (codec_with_max_size 10)
     ([Feed [1, 0], Poll, Feed [0, 0, 2, 7], Poll, Feed [8, 1, 0, 0, 0, 0]] @ replicate 2 Poll)) =
   [[7, 8], []]"
  using messages_survive_segmentation [of 10 "[[7, 8], []]"
      "[Feed [1, 0], Poll, Feed [0, 0, 2, 7], Poll, Feed [8, 1, 0, 0, 0, 0]]" 2]
  by (simp only: sample_frames) simp

end
