(* ===== verification/Shutdown.thy ===== *)
theory Shutdown
  imports Dcp_Prelude
begin

text \<open>
  Graceful shutdown (\<open>src/src/shutdown/mod.rs\<close>). The coordinator is two flags and a counter of requests
  in flight, all atomics. Any number of threads start requests and call \<open>shutdown\<close> at the same time, so
  every atomic access is a step of its own and the steps of the threads interleave freely; memory is
  sequentially consistent. Durations and clock readings are natural numbers. The sends on the
  notification channel are counted; the text of the progress messages is not modelled.
\<close>

section \<open>The coordinator\<close>

record coordinator =
  sd_shutdown :: bool
  sd_in_flight :: u64
  sd_notifications :: nat
  sd_drain_timeout :: nat
  sd_initiated :: bool

definition coordinator_new :: "nat \<Rightarrow> coordinator" where
  "coordinator_new drain_timeout =
     \<lparr>sd_shutdown = False, sd_in_flight = 0, sd_notifications = 0, sd_drain_timeout = drain_timeout,
      sd_initiated = False\<rparr>"

definition set_drain_timeout :: "nat \<Rightarrow> coordinator \<Rightarrow> coordinator" where
  "set_drain_timeout t c = c\<lparr>sd_drain_timeout := t\<rparr>"

text \<open>The read-modify-write accesses: \<open>fetch_add\<close>, and \<open>fetch_update\<close> with \<open>checked_sub\<close>.\<close>

definition count_in :: "coordinator \<Rightarrow> coordinator" where
  "count_in c = c\<lparr>sd_in_flight := sd_in_flight c + 1\<rparr>"

definition decrement_in_flight :: "coordinator \<Rightarrow> coordinator" where
  "decrement_in_flight c =
     (if sd_in_flight c = 0 then c else c\<lparr>sd_in_flight := sd_in_flight c - 1\<rparr>)"

text \<open>A call of \<open>shutdown\<close> by one thread: swap \<open>initiated\<close>, store the flag, notify.\<close>

datatype caller = Calling | MustStore | MustNotify | Returned

fun caller_step :: "coordinator \<Rightarrow> caller \<Rightarrow> coordinator \<times> caller" where
  "caller_step c Calling =
     (c\<lparr>sd_initiated := True\<rparr>, if sd_initiated c then Returned else MustStore)"
| "caller_step c MustStore = (c\<lparr>sd_shutdown := True\<rparr>, MustNotify)"
| "caller_step c MustNotify = (c\<lparr>sd_notifications := sd_notifications c + 1\<rparr>, Returned)"
| "caller_step c Returned = (c, Returned)"

text \<open>A request of one thread: \<open>request_start\<close> checks the flag, counts itself, checks again and backs
  out when shutdown came in between; an admitted request ends by dropping its guard.\<close>

datatype worker = Starting | Checked | Counted | Backing | Admitted | Refused | Finished

fun worker_step :: "coordinator \<Rightarrow> worker \<Rightarrow> coordinator \<times> worker" where
  "worker_step c Starting = (c, if sd_shutdown c then Refused else Checked)"
| "worker_step c Checked = (count_in c, Counted)"
| "worker_step c Counted = (c, if sd_shutdown c then Backing else Admitted)"
| "worker_step c Backing = (decrement_in_flight c, Refused)"
| "worker_step c Admitted = (decrement_in_flight c, Finished)"
| "worker_step c Refused = (c, Starting)"
| "worker_step c Finished = (c, Starting)"

text \<open>The same operations when nothing interferes.\<close>

definition shutdown :: "coordinator \<Rightarrow> coordinator" where
  "shutdown c =
     (if sd_initiated c then c
      else c\<lparr>sd_initiated := True, sd_shutdown := True, sd_notifications := sd_notifications c + 1\<rparr>)"

definition request_start :: "coordinator \<Rightarrow> coordinator \<times> bool" where
  "request_start c = (if sd_shutdown c then (c, False) else (count_in c, True))"

definition try_request_start :: "coordinator \<Rightarrow> coordinator \<times> unit option" where
  "try_request_start c = (case request_start c of (c', active) \<Rightarrow> (c', if active then Some () else None))"

definition guard_drop :: "bool \<Rightarrow> coordinator \<Rightarrow> coordinator" where
  "guard_drop active c = (if active then decrement_in_flight c else c)"

definition increment_in_flight :: "coordinator \<Rightarrow> coordinator" where
  "increment_in_flight c = (if sd_shutdown c then c else count_in c)"

text \<open>\<open>wait_drain\<close> polls: the value of the counter and the clock at each round of the loop; \<open>None\<close> while
  it still waits after these rounds.\<close>

fun wait_loop :: "nat \<Rightarrow> (u64 \<times> nat) list \<Rightarrow> bool option" where
  "wait_loop deadline [] = None"
| "wait_loop deadline ((in_flight, now) # rounds) =
     (if in_flight > 0 then (if now > deadline then Some False else wait_loop deadline rounds)
      else Some True)"

definition wait_drain_with_timeout :: "nat \<Rightarrow> nat \<Rightarrow> (u64 \<times> nat) list \<Rightarrow> bool option" where
  "wait_drain_with_timeout start timeout rounds = wait_loop (start + timeout) rounds"

definition wait_drain :: "coordinator \<Rightarrow> nat \<Rightarrow> (u64 \<times> nat) list \<Rightarrow> bool option" where
  "wait_drain c start rounds = wait_drain_with_timeout start (sd_drain_timeout c) rounds"

record progress =
  pg_initiated :: bool
  pg_in_flight :: u64
  pg_elapsed :: "nat option"
  pg_timeout :: nat

definition coordinator_progress :: "nat option \<Rightarrow> coordinator \<Rightarrow> progress" where
  "coordinator_progress elapsed c =
     \<lparr>pg_initiated = sd_shutdown c, pg_in_flight = sd_in_flight c, pg_elapsed = elapsed,
      pg_timeout = sd_drain_timeout c\<rparr>"

definition is_complete :: "progress \<Rightarrow> bool" where
  "is_complete p \<longleftrightarrow> pg_initiated p \<and> pg_in_flight p = 0"

definition is_timed_out :: "progress \<Rightarrow> bool" where
  "is_timed_out p \<longleftrightarrow> (case pg_elapsed p of Some e \<Rightarrow> e \<ge> pg_timeout p | None \<Rightarrow> False)"

section \<open>Interleavings\<close>

type_synonym shutdown_system = "coordinator \<times> worker list \<times> caller list"

inductive system_step :: "shutdown_system \<Rightarrow> shutdown_system \<Rightarrow> bool" where
  worker: "i < length ws \<Longrightarrow> worker_step c (ws ! i) = (c', w) \<Longrightarrow>
     system_step (c, ws, cs) (c', ws[i := w], cs)"
| caller: "i < length cs \<Longrightarrow> caller_step c (cs ! i) = (c', k) \<Longrightarrow>
     system_step (c, ws, cs) (c', ws, cs[i := k])"

inductive_cases system_stepE: "system_step (c, ws, cs) s"

definition system_init :: "nat \<Rightarrow> nat \<Rightarrow> nat \<Rightarrow> shutdown_system" where
  "system_init timeout n m = (coordinator_new timeout, replicate n Starting, replicate m Calling)"

abbreviation system_reach :: "shutdown_system \<Rightarrow> shutdown_system \<Rightarrow> bool" where
  "system_reach \<equiv> system_step\<^sup>*\<^sup>*"

text \<open>A thread that has counted itself and not yet counted itself out; a caller on its way.\<close>

fun holds_count :: "worker \<Rightarrow> bool" where
  "holds_count Counted = True" | "holds_count Backing = True" | "holds_count Admitted = True"
| "holds_count w = False"

fun on_its_way :: "caller \<Rightarrow> bool" where
  "on_its_way MustStore = True" | "on_its_way MustNotify = True" | "on_its_way k = False"

definition counter_inv :: "shutdown_system \<Rightarrow> bool" where
  "counter_inv s \<longleftrightarrow>
     (case s of (c, ws, cs) \<Rightarrow>
        length ws < 2 ^ 64 \<and> unat (sd_in_flight c) = length (filter holds_count ws) \<and>
        length (filter on_its_way cs) + sd_notifications c = of_bool (sd_initiated c) \<and>
        (sd_shutdown c \<longrightarrow> sd_initiated c))"

lemma length_filter_update:
  assumes "i < length xs"
  shows "length (filter P (xs[i := y])) + of_bool (P (xs ! i)) = length (filter P xs) + of_bool (P y)"
proof -
  have "length (filter P xs) =
      length (filter P (take i xs)) + of_bool (P (xs ! i)) + length (filter P (drop (Suc i) xs))"
    by (subst id_take_nth_drop [OF assms]) simp
  then show ?thesis using assms by (simp add: upd_conv_take_nth_drop)
qed

lemma unat_succ_u64: "Suc (unat (n :: u64)) < 2 ^ 64 \<Longrightarrow> unat (n + 1) = Suc (unat n)"
  by (simp add: unat_word_ariths)

lemma unat_pred_u64: "unat (n :: u64) = Suc k \<Longrightarrow> n \<noteq> 0 \<and> unat (n - 1) = k"
  by (metis diff_Suc_1 nat.distinct(1) unat_0 unat_minus_one)

lemma counter_inv_init: "n < 2 ^ 64 \<Longrightarrow> counter_inv (system_init timeout n m)"
  by (simp add: counter_inv_def system_init_def coordinator_new_def)

lemma counter_inv_worker:
  assumes inv: "counter_inv (c, ws, cs)" and i: "i < length ws"
    and step: "worker_step c (ws ! i) = (c', w)"
  shows "counter_inv (c', ws[i := w], cs)"
proof -
  note upd = length_filter_update [OF i, of holds_count w]
  have n: "unat (sd_in_flight c) = length (filter holds_count ws)"
    and lt: "length (filter holds_count (ws[i := w])) < 2 ^ 64"
    using inv length_filter_le [of holds_count "ws[i := w]"]
    by (auto simp: counter_inv_def intro: le_less_trans)
  have "unat (sd_in_flight c') = length (filter holds_count (ws[i := w]))"
  proof (cases "ws ! i")
    case Checked
    with step upd n lt show ?thesis by (auto simp: count_in_def unat_succ_u64)
  next
    case Backing
    with step upd n unat_pred_u64 [of "sd_in_flight c"] show ?thesis
      by (auto simp: decrement_in_flight_def)
  next
    case Admitted
    with step upd n unat_pred_u64 [of "sd_in_flight c"] show ?thesis
      by (auto simp: decrement_in_flight_def)
  qed (use step upd n in \<open>auto split: if_splits\<close>)
  moreover have "sd_shutdown c' = sd_shutdown c \<and> sd_initiated c' = sd_initiated c \<and>
      sd_notifications c' = sd_notifications c"
    using step by (cases "ws ! i") (auto simp: count_in_def decrement_in_flight_def split: if_splits)
  ultimately have "unat (sd_in_flight c') = length (filter holds_count (ws[i := w])) \<and>
      sd_shutdown c' = sd_shutdown c \<and> sd_initiated c' = sd_initiated c \<and>
      sd_notifications c' = sd_notifications c"
    by blast
  with inv show ?thesis by (simp add: counter_inv_def)
qed

lemma counter_inv_caller:
  assumes inv: "counter_inv (c, ws, cs)" and i: "i < length cs"
    and step: "caller_step c (cs ! i) = (c', k)"
  shows "counter_inv (c', ws, cs[i := k])"
proof -
  have "0 < length (filter on_its_way cs)" if "on_its_way (cs ! i)"
    using i that nth_mem [OF i] by (auto simp: filter_empty_conv)
  then show ?thesis
    using inv step length_filter_update [OF i, of on_its_way k]
    by (cases "cs ! i"; cases "sd_initiated c")
      (auto simp: counter_inv_def simp del: length_0_conv length_greater_0_conv)
qed

lemma counter_inv_step: "system_step s t \<Longrightarrow> counter_inv s \<Longrightarrow> counter_inv t"
  by (induction rule: system_step.induct) (auto intro: counter_inv_worker counter_inv_caller)

lemma counter_inv_reach: "system_reach s t \<Longrightarrow> counter_inv s \<Longrightarrow> counter_inv t"
  by (induction rule: rtranclp_induct) (auto intro: counter_inv_step)

text \<open>After the flag is up and no count is held, nobody is ever admitted again.\<close>

definition drained :: "shutdown_system \<Rightarrow> bool" where
  "drained s \<longleftrightarrow> (case s of (c, ws, cs) \<Rightarrow> sd_shutdown c \<and> Admitted \<notin> set ws)"

lemma drained_step: "system_step s t \<Longrightarrow> drained s \<Longrightarrow> drained t"
proof (induction rule: system_step.induct)
  case (worker i ws c c' w cs)
  then have "sd_shutdown c' \<and> w \<noteq> Admitted"
    by (cases "ws ! i") (auto simp: drained_def count_in_def decrement_in_flight_def split: if_splits)
  with worker show ?case
    by (auto simp: drained_def dest: set_update_subset_insert [THEN subsetD])
next
  case (caller i cs c c' k ws)
  then show ?case by (cases "cs ! i") (auto simp: drained_def)
qed

lemma drained_reach: "system_reach s t \<Longrightarrow> drained s \<Longrightarrow> drained t"
  by (induction rule: rtranclp_induct) (auto intro: drained_step)

text \<open>C17: Draining is final. However the requests and the shutdown calls interleave, once the shutdown
  flag is up and the counter reads zero, no request is being served and none is ever admitted
  afterwards: a thread that slipped past the first check backs out at the second.\<close>

theorem drain_is_final:
  assumes "n < 2 ^ 64"
    and "system_reach (system_init timeout n m) (c, ws, cs)"
    and "sd_shutdown c" and "sd_in_flight c = 0"
    and "system_reach (c, ws, cs) (c', ws', cs')"
  shows "Admitted \<notin> set ws \<and> Admitted \<notin> set ws'"
proof -
  have "counter_inv (c, ws, cs)"
    using assms(2) by (rule counter_inv_reach) (rule counter_inv_init [OF assms(1)])
  then have "filter holds_count ws = []" using assms(4) by (simp add: counter_inv_def)
  then have "\<forall>w \<in> set ws. \<not> holds_count w" by (simp add: filter_empty_conv)
  then have "drained (c, ws, cs)" using assms(3) by (auto simp: drained_def)
  with drained_reach [OF assms(5)] show ?thesis by (simp add: drained_def)
qed

text \<open>A thread that has passed the first check when shutdown comes.\<close>

lemma sample_worker: "system_reach (c, [w], cs) (fst (worker_step c w), [snd (worker_step c w)], cs)"
  using worker [of 0 "[w]" c "fst (worker_step c w)" "snd (worker_step c w)" cs] by simp

lemma sample_caller: "system_reach (c, ws, [k]) (fst (caller_step c k), ws, [snd (caller_step c k)])"
  using caller [of 0 "[k]" c "fst (caller_step c k)" "snd (caller_step c k)" ws] by simp

definition sample_stopped :: coordinator where
  "sample_stopped = (coordinator_new 30)\<lparr>sd_initiated := True, sd_shutdown := True\<rparr>"

lemma sample_reach:
  "system_reach (system_init 30 1 1) (sample_stopped, [Checked], [MustNotify])"
proof -
  let ?c = "(coordinator_new 30)\<lparr>sd_initiated := True\<rparr>"
  have "system_reach (coordinator_new 30, [Starting], [Calling]) (coordinator_new 30, [Checked], [Calling])"
    using sample_worker [of "coordinator_new 30" Starting "[Calling]"] by (simp add: coordinator_new_def)
  also have "system_reach \<dots> (?c, [Checked], [MustStore])"
    using sample_caller [of "coordinator_new 30" "[Checked]" Calling] by (simp add: coordinator_new_def)
  also have "system_reach \<dots> (sample_stopped, [Checked], [MustNotify])"
    using sample_caller [of ?c "[Checked]" MustStore] by (simp add: sample_stopped_def)
  finally show ?thesis by (simp add: system_init_def)
qed

theorem drain_is_final_witness: "Admitted \<notin> set [Checked] \<and> Admitted \<notin> set [Counted]"
  using drain_is_final [OF _ sample_reach _ _ sample_worker [of sample_stopped Checked "[MustNotify]"]]
  by (simp add: sample_stopped_def coordinator_new_def)

text \<open>The calls of \<open>shutdown\<close> notify at most once, and the operations without interference are the
  steps of one thread in a row.\<close>

lemma shutdown_is_steps:
  "shutdown c =
     (case caller_step c Calling of (c1, k1) \<Rightarrow>
        (case caller_step c1 k1 of (c2, k2) \<Rightarrow> fst (caller_step c2 k2)))"
  by (simp add: shutdown_def)

lemma request_start_is_steps:
  "(case worker_step c Starting of (c1, w1) \<Rightarrow>
      if w1 = Refused then (c1, False)
      else (case worker_step c1 w1 of (c2, w2) \<Rightarrow>
        (case worker_step c2 w2 of (c3, w3) \<Rightarrow> (c3, w3 = Admitted)))) = request_start c"
  by (simp add: request_start_def count_in_def)

text \<open>The polling loop is decided by the first round that does not ask for more waiting, and it stops at
  the latest at the first reading behind the deadline.\<close>

lemma wait_loop_first:
  "wait_loop d rounds =
     (case dropWhile (\<lambda>(n, t). n > 0 \<and> t \<le> d) rounds of [] \<Rightarrow> None | (n, t) # _ \<Rightarrow> Some (n = 0))"
  by (induction d rounds rule: wait_loop.induct) (auto simp: word_gt_0)

lemma wait_loop_returns:
  "list_ex (\<lambda>(n, t). n = 0 \<or> t > d) rounds \<Longrightarrow> \<exists>b. wait_loop d rounds = Some b"
  by (induction d rounds rule: wait_loop.induct) auto

lemma strictly_increasing_reach:
  "sorted_wrt (<) ts \<Longrightarrow> \<forall>t \<in> set ts. start \<le> t \<Longrightarrow> i < length ts \<Longrightarrow> start + i \<le> (ts ! i :: nat)"
proof (induction i)
  case (Suc i)
  then have "ts ! i < ts ! Suc i" by (simp add: sorted_wrt_iff_nth_less)
  with Suc show ?case by fastforce
qed simp


definition sample_rounds :: "(u64 \<times> nat) list" where
  "sample_rounds = [(3, 100), (2, 101), (2, 102), (1, 103)]"


end
