(* ===== verification/Tool_Context.thy ===== *)
theory Tool_Context
  imports Wire_Errors
begin

text \<open>
  The shared tool context (\<open>src/src/context/mod.rs\<close>): one byte buffer that holds a magic number, a
  conversation id, a message counter and 25 tool-state slots, read and written through casts at fixed
  offsets. The specification is a table of slots.
\<close>

section \<open>Layout\<close>

definition CONTEXT_MAGIC :: u64 where "CONTEXT_MAGIC = 0x4443505F43545831"
definition MAX_TOOL_STATES :: nat where [codec_simps]: "MAX_TOOL_STATES = 25"
definition CONVERSATION_ID_OFFSET :: nat where [codec_simps]: "CONVERSATION_ID_OFFSET = 8"
definition MESSAGE_COUNT_OFFSET :: nat where [codec_simps]: "MESSAGE_COUNT_OFFSET = 16"
definition TOOL_STATES_OFFSET :: nat where [codec_simps]: "TOOL_STATES_OFFSET = 24"
definition TOOL_STATE_SIZE :: nat where [codec_simps]: "TOOL_STATE_SIZE = 40"

record tool_state =
  tst_tool_id :: u32
  tst_flags :: u32
  tst_last_invoked :: u64
  tst_data :: bytes

text \<open>The type \<open>[u8; 24]\<close> fixes the length of the data.\<close>

definition wf_tool_state :: "tool_state \<Rightarrow> bool" where
  "wf_tool_state t \<longleftrightarrow> length (tst_data t) = 24"

definition tool_state_new :: "u32 \<Rightarrow> tool_state" where
  "tool_state_new tool_id =
     \<lparr>tst_tool_id = tool_id, tst_flags = 0, tst_last_invoked = 0, tst_data = replicate 24 0\<rparr>"

definition tool_state_as_bytes :: "tool_state \<Rightarrow> bytes" where
  [codec_simps]: "tool_state_as_bytes t =
     le_bytes 4 (tst_tool_id t) @ le_bytes 4 (tst_flags t) @ le_bytes 8 (tst_last_invoked t) @ tst_data t"

text \<open>The pointer cast to \<open>&ToolState\<close>.\<close>

definition tool_state_cast :: "bytes \<Rightarrow> tool_state" where
  [codec_simps]: "tool_state_cast bs =
     \<lparr>tst_tool_id = le_word (slice 0 4 bs), tst_flags = le_word (slice 4 8 bs),
      tst_last_invoked = le_word (slice 8 16 bs), tst_data = slice 16 40 bs\<rparr>"

definition tool_state_from_bytes :: "bytes \<Rightarrow> dcp_error + tool_state" where
  "tool_state_from_bytes bs =
     (if length bs < TOOL_STATE_SIZE then Inl InsufficientData else Inr (tool_state_cast bs))"

record context_layout =
  lay_header :: u64
  lay_conversation_id :: u64
  lay_message_count :: u64
  lay_tool_states :: "tool_state list"

definition LAYOUT_SIZE :: nat where
  [codec_simps]: "LAYOUT_SIZE = 8 + 8 + 8 + MAX_TOOL_STATES * TOOL_STATE_SIZE"

definition layout_new :: "u64 \<Rightarrow> context_layout" where
  "layout_new conversation_id =
     \<lparr>lay_header = CONTEXT_MAGIC, lay_conversation_id = conversation_id, lay_message_count = 0,
      lay_tool_states = replicate MAX_TOOL_STATES (tool_state_new 0)\<rparr>"

definition layout_as_bytes :: "context_layout \<Rightarrow> bytes" where
  "layout_as_bytes l =
     le_bytes 8 (lay_header l) @ le_bytes 8 (lay_conversation_id l) @ le_bytes 8 (lay_message_count l) @
     concat (map tool_state_as_bytes (lay_tool_states l))"

definition tool_state_offset :: "nat \<Rightarrow> nat" where
  [codec_simps]: "tool_state_offset index = TOOL_STATES_OFFSET + index * TOOL_STATE_SIZE"

definition slot_cast :: "bytes \<Rightarrow> nat \<Rightarrow> tool_state" where
  "slot_cast buffer index =
     tool_state_cast (slice (tool_state_offset index) (tool_state_offset index + TOOL_STATE_SIZE) buffer)"

definition layout_cast :: "bytes \<Rightarrow> context_layout" where
  "layout_cast bs =
     \<lparr>lay_header = le_word (slice 0 8 bs), lay_conversation_id = le_word (slice 8 16 bs),
      lay_message_count = le_word (slice 16 24 bs),
      lay_tool_states = map (slot_cast bs) [0..<MAX_TOOL_STATES]\<rparr>"

definition layout_from_bytes :: "bytes \<Rightarrow> dcp_error + context_layout" where
  "layout_from_bytes bs =
     (if length bs < LAYOUT_SIZE then Inl InsufficientData
      else if lay_header (layout_cast bs) \<noteq> CONTEXT_MAGIC then Inl InvalidMagic
      else Inr (layout_cast bs))"

section \<open>The context\<close>

record dcp_context =
  cx_buffer :: bytes
  cx_version :: u32

definition context_new :: "u64 \<Rightarrow> dcp_context" where
  "context_new conversation_id =
     \<lparr>cx_buffer = copy_at 0 (layout_as_bytes (layout_new conversation_id)) (replicate LAYOUT_SIZE 0),
      cx_version = 1\<rparr>"

definition context_from_shared :: "bytes \<Rightarrow> dcp_error + dcp_context" where
  "context_from_shared buffer =
     (if length buffer < LAYOUT_SIZE then Inl InsufficientData
      else if le_word (slice 0 8 buffer) \<noteq> CONTEXT_MAGIC then Inl InvalidMagic
      else Inr \<lparr>cx_buffer = buffer, cx_version = 1\<rparr>)"

definition conversation_id :: "dcp_context \<Rightarrow> u64" where
  "conversation_id c = lay_conversation_id (layout_cast (cx_buffer c))"

definition message_count :: "dcp_context \<Rightarrow> u64" where
  "message_count c = le_word (slice MESSAGE_COUNT_OFFSET (MESSAGE_COUNT_OFFSET + 8) (cx_buffer c))"

definition increment_message_count :: "dcp_context \<Rightarrow> dcp_context \<times> u64" where
  "increment_message_count c =
     (let old = message_count c
      in (c\<lparr>cx_buffer := copy_at MESSAGE_COUNT_OFFSET (le_bytes 8 (old + 1)) (cx_buffer c)\<rparr>, old + 1))"

definition get_tool_state :: "dcp_context \<Rightarrow> nat \<Rightarrow> tool_state option" where
  "get_tool_state c index =
     (if index \<ge> MAX_TOOL_STATES then None else Some (slot_cast (cx_buffer c) index))"

text \<open>The scanning loops: the first slot, among the given ones, with a given id.\<close>

fun find_slot :: "dcp_context \<Rightarrow> u32 \<Rightarrow> nat list \<Rightarrow> nat option" where
  "find_slot c tool_id [] = None"
| "find_slot c tool_id (i # is) =
     (case get_tool_state c i of
        Some t \<Rightarrow> if tst_tool_id t = tool_id then Some i else find_slot c tool_id is
      | None \<Rightarrow> find_slot c tool_id is)"

definition find_tool_state :: "dcp_context \<Rightarrow> u32 \<Rightarrow> tool_state option" where
  "find_tool_state c tool_id =
     (case find_slot c tool_id [0..<MAX_TOOL_STATES] of None \<Rightarrow> None | Some i \<Rightarrow> get_tool_state c i)"

definition update_tool_state :: "dcp_context \<Rightarrow> nat \<Rightarrow> tool_state \<Rightarrow> dcp_context \<times> (dcp_error + unit)" where
  "update_tool_state c index t =
     (if index \<ge> MAX_TOOL_STATES then (c, Inl OutOfBounds)
      else (c\<lparr>cx_buffer := copy_at (tool_state_offset index) (tool_state_as_bytes t) (cx_buffer c)\<rparr>,
            Inr ()))"

definition set_tool_state :: "dcp_context \<Rightarrow> tool_state \<Rightarrow> dcp_context \<times> (dcp_error + nat)" where
  "set_tool_state c t =
     (case find_slot c (tst_tool_id t) [0..<MAX_TOOL_STATES] of
        Some i \<Rightarrow> (case update_tool_state c i t of (c', res) \<Rightarrow> (c', bind_result res (\<lambda>_. Inr i)))
      | None \<Rightarrow>
          (case find_slot c 0 [0..<MAX_TOOL_STATES] of
             Some i \<Rightarrow> (case update_tool_state c i t of (c', res) \<Rightarrow> (c', bind_result res (\<lambda>_. Inr i)))
           | None \<Rightarrow> (c, Inl OutOfBounds)))"

definition clear_tool_state :: "dcp_context \<Rightarrow> nat \<Rightarrow> dcp_context \<times> (dcp_error + unit)" where
  "clear_tool_state c index = update_tool_state c index (tool_state_new 0)"

section \<open>The casts\<close>

lemma tool_state_cast_as_bytes:
  "wf_tool_state t \<Longrightarrow> tool_state_cast (tool_state_as_bytes t @ rest) = t"
  by (simp add: codec_simps slice_split wf_tool_state_def)

lemma tool_state_as_bytes_cast: "40 \<le> length bs \<Longrightarrow> tool_state_as_bytes (tool_state_cast bs) = take 40 bs"
  by (simp add: codec_simps slice_build)

lemma length_tool_state_as_bytes [simp]: "wf_tool_state t \<Longrightarrow> length (tool_state_as_bytes t) = 40"
  by (simp add: codec_simps wf_tool_state_def)

lemma wf_tool_state_cast: "40 \<le> length bs \<Longrightarrow> wf_tool_state (tool_state_cast bs)"
  by (simp add: codec_simps wf_tool_state_def)

lemma wf_tool_state_new [simp]: "wf_tool_state (tool_state_new i)"
  by (simp add: wf_tool_state_def tool_state_new_def)

interpretation tool_state_codec: prefix_codec tool_state_as_bytes
  "\<lambda>bs. result_ok (tool_state_from_bytes bs)" wf_tool_state 40
proof unfold_locales
  fix t bs rest
  show "wf_tool_state t \<Longrightarrow> length (tool_state_as_bytes t) = 40" by simp
  show app: "wf_tool_state t \<Longrightarrow> result_ok (tool_state_from_bytes (tool_state_as_bytes t @ rest)) = Some t" for t rest
    by (simp add: tool_state_from_bytes_def TOOL_STATE_SIZE_def tool_state_cast_as_bytes)
  then show "wf_tool_state t \<Longrightarrow> result_ok (tool_state_from_bytes (tool_state_as_bytes t)) = Some t"
    by (metis append_Nil2)
  show "result_ok (tool_state_from_bytes bs) = Some t \<Longrightarrow>
      wf_tool_state t \<and> 40 \<le> length bs \<and> take 40 bs = tool_state_as_bytes t"
    by (auto simp: tool_state_from_bytes_def TOOL_STATE_SIZE_def wf_tool_state_cast
        tool_state_as_bytes_cast split: if_splits)
qed

section \<open>Slots\<close>

lemma slice_concat:
  assumes "\<forall>x \<in> set xs. length (f x) = n" and "i < length xs"
  shows "slice (i * n) (i * n + n) (concat (map f xs)) = f (xs ! i)"
  using assms
proof (induction xs arbitrary: i)
  case Nil
  then show ?case by simp
next
  case (Cons x xs)
  then show ?case
    by (cases i) (simp_all add: slice_hit slice_skip add.commute)
qed

definition context_inv :: "dcp_context \<Rightarrow> bool" where
  "context_inv c \<longleftrightarrow> LAYOUT_SIZE \<le> length (cx_buffer c) \<and> le_word (slice 0 8 (cx_buffer c)) = CONTEXT_MAGIC"

lemma layout_size: "LAYOUT_SIZE = 1024"
  by (simp add: codec_simps)

lemma offset_bound: "i < 25 \<Longrightarrow> tool_state_offset i + 40 \<le> 1024"
  by (simp add: codec_simps)

lemma slot_cast_copy:
  assumes "1024 \<le> length buffer" and "i < 25" and "wf_tool_state t"
  shows "slot_cast (copy_at (tool_state_offset i) (tool_state_as_bytes t) buffer) j =
    (if j = i then t else slot_cast buffer j)"
proof (cases "j = i")
  case True
  have "slice (tool_state_offset i) (tool_state_offset i + 40)
      (copy_at (tool_state_offset i) (tool_state_as_bytes t) buffer) = tool_state_as_bytes t"
    using slice_copy_same [of "tool_state_offset i" "tool_state_as_bytes t" buffer] assms
      offset_bound [OF assms(2)] by simp
  with True tool_state_cast_as_bytes [OF assms(3), of "[]"] show ?thesis
    by (simp add: slot_cast_def TOOL_STATE_SIZE_def)
next
  case False
  then have "j < i \<or> i < j" by arith
  then have "tool_state_offset j + 40 \<le> tool_state_offset i \<or>
      tool_state_offset i + 40 \<le> tool_state_offset j"
    by (auto simp: codec_simps)
  with False show ?thesis
    using slice_copy_other [of "tool_state_offset i" "tool_state_as_bytes t" buffer
        "tool_state_offset j + 40" "tool_state_offset j"] assms offset_bound [OF assms(2)]
    by (simp add: slot_cast_def TOOL_STATE_SIZE_def)
qed

text \<open>Writing a slot keeps the header; writing the counter keeps the slots.\<close>

lemma header_copy_slot:
  assumes "1024 \<le> length buffer" and "i < 25" and "wf_tool_state t" and "b \<le> 24"
  shows "slice a b (copy_at (tool_state_offset i) (tool_state_as_bytes t) buffer) = slice a b buffer"
proof -
  have "24 \<le> tool_state_offset i" by (simp add: codec_simps)
  then show ?thesis
    using slice_copy_other [of "tool_state_offset i" "tool_state_as_bytes t" buffer b a] assms
      offset_bound [OF assms(2)] by simp
qed

lemma slot_copy_count:
  assumes "1024 \<le> length buffer"
  shows "slot_cast (copy_at 16 (le_bytes 8 (w :: u64)) buffer) j = slot_cast buffer j"
  using slice_copy_other [of 16 "le_bytes 8 w" buffer "tool_state_offset j + 40" "tool_state_offset j"] assms
  by (simp add: slot_cast_def codec_simps)

section \<open>Refinement of a table\<close>

record tool_table =
  tt_conversation :: u64
  tt_count :: u64
  tt_slots :: "tool_state list"

definition context_abs :: "dcp_context \<Rightarrow> tool_table" where
  "context_abs c =
     \<lparr>tt_conversation = conversation_id c, tt_count = message_count c,
      tt_slots = map (slot_cast (cx_buffer c)) [0..<25]\<rparr>"

definition first_slot :: "tool_state list \<Rightarrow> u32 \<Rightarrow> nat option" where
  "first_slot slots tool_id = find (\<lambda>i. tst_tool_id (slots ! i) = tool_id) [0..<length slots]"

text \<open>The slot a state goes to: its own, or else the first free one.\<close>

definition slot_for :: "tool_state list \<Rightarrow> u32 \<Rightarrow> nat option" where
  "slot_for slots tool_id =
     (case first_slot slots tool_id of Some i \<Rightarrow> Some i | None \<Rightarrow> first_slot slots 0)"

text \<open>The calls a client makes; a state that does not fit the type \<open>[u8; 24]\<close> does not exist in the
  program and is ignored on both sides.\<close>

datatype context_op = CxIncrement | CxUpdate nat tool_state | CxSet tool_state | CxClear nat
  | CxGet nat | CxFind u32 | CxIds

datatype context_out = CountOut u64 | UnitOutcome "dcp_error + unit" | SlotOutcome "dcp_error + nat"
  | StateOut "tool_state option" | IdsOut u64 u64 | IgnoredOut

fun context_step :: "dcp_context \<Rightarrow> context_op \<Rightarrow> dcp_context \<times> context_out" where
  "context_step c CxIncrement = (case increment_message_count c of (c', n) \<Rightarrow> (c', CountOut n))"
| "context_step c (CxUpdate i t) =
     (if wf_tool_state t then (case update_tool_state c i t of (c', res) \<Rightarrow> (c', UnitOutcome res))
      else (c, IgnoredOut))"
| "context_step c (CxSet t) =
     (if wf_tool_state t then (case set_tool_state c t of (c', res) \<Rightarrow> (c', SlotOutcome res))
      else (c, IgnoredOut))"
| "context_step c (CxClear i) = (case clear_tool_state c i of (c', res) \<Rightarrow> (c', UnitOutcome res))"
| "context_step c (CxGet i) = (c, StateOut (get_tool_state c i))"
| "context_step c (CxFind n) = (c, StateOut (find_tool_state c n))"
| "context_step c CxIds = (c, IdsOut (conversation_id c) (message_count c))"

definition table_put :: "tool_table \<Rightarrow> nat \<Rightarrow> tool_state \<Rightarrow> tool_table" where
  "table_put t i x = t\<lparr>tt_slots := (tt_slots t)[i := x]\<rparr>"

fun table_step :: "tool_table \<Rightarrow> context_op \<Rightarrow> tool_table \<times> context_out" where
  "table_step t CxIncrement = (t\<lparr>tt_count := tt_count t + 1\<rparr>, CountOut (tt_count t + 1))"
| "table_step t (CxUpdate i x) =
     (if \<not> wf_tool_state x then (t, IgnoredOut)
      else if i < 25 then (table_put t i x, UnitOutcome (Inr ())) else (t, UnitOutcome (Inl OutOfBounds)))"
| "table_step t (CxSet x) =
     (if \<not> wf_tool_state x then (t, IgnoredOut)
      else case slot_for (tt_slots t) (tst_tool_id x) of
        Some i \<Rightarrow> (table_put t i x, SlotOutcome (Inr i))
      | None \<Rightarrow> (t, SlotOutcome (Inl OutOfBounds)))"
| "table_step t (CxClear i) =
     (if i < 25 then (table_put t i (tool_state_new 0), UnitOutcome (Inr ()))
      else (t, UnitOutcome (Inl OutOfBounds)))"
| "table_step t (CxGet i) = (t, StateOut (if i < 25 then Some (tt_slots t ! i) else None))"
| "table_step t (CxFind n) =
     (t, StateOut (map_option ((!) (tt_slots t)) (first_slot (tt_slots t) n)))"
| "table_step t CxIds = (t, IdsOut (tt_conversation t) (tt_count t))"

lemma find_slot_eq:
  "set is \<subseteq> {..<25} \<Longrightarrow>
   find_slot c n is = find (\<lambda>i. tst_tool_id (slot_cast (cx_buffer c) i) = n) is"
  by (induction "is") (auto simp: get_tool_state_def MAX_TOOL_STATES_def)

lemma find_eq_on: "(\<And>x. x \<in> set xs \<Longrightarrow> P x = Q x) \<Longrightarrow> find P xs = find Q xs"
  by (induction xs) auto

lemma first_slot_lt: "first_slot xs n = Some i \<Longrightarrow> i < length xs"
  by (auto simp: first_slot_def find_Some_iff)

lemma find_slot_abs:
  "find_slot c n [0..<MAX_TOOL_STATES] = first_slot (tt_slots (context_abs c)) n"
proof -
  have "find_slot c n [0..<25] = find (\<lambda>i. tst_tool_id (slot_cast (cx_buffer c) i) = n) [0..<25]"
    by (rule find_slot_eq) auto
  also have "\<dots> = find (\<lambda>i. tst_tool_id (map (slot_cast (cx_buffer c)) [0..<25] ! i) = n) [0..<25]"
    by (rule find_eq_on) (simp add: nth_map)
  finally show ?thesis by (simp add: first_slot_def context_abs_def MAX_TOOL_STATES_def)
qed

lemma context_update:
  assumes "context_inv c" and "i < 25" and "wf_tool_state t"
  shows "\<exists>c'. update_tool_state c i t = (c', Inr ()) \<and> context_inv c' \<and>
    context_abs c' = table_put (context_abs c) i t"
proof -
  let ?c = "c\<lparr>cx_buffer := copy_at (tool_state_offset i) (tool_state_as_bytes t) (cx_buffer c)\<rparr>"
  have len: "1024 \<le> length (cx_buffer c)" using assms(1) by (simp add: context_inv_def layout_size)
  note hdr = header_copy_slot [OF len assms(2,3)]
  have "length (cx_buffer ?c) = length (cx_buffer c)"
    using offset_bound [OF assms(2)] len assms(3) by simp
  then have "context_inv ?c" using assms(1) by (simp add: context_inv_def hdr)
  moreover have "map (slot_cast (cx_buffer ?c)) [0..<25] = (map (slot_cast (cx_buffer c)) [0..<25])[i := t]"
    by (intro nth_equalityI) (simp_all add: slot_cast_copy [OF len assms(2,3)] nth_list_update)
  then have "context_abs ?c = table_put (context_abs c) i t"
    by (simp add: context_abs_def table_put_def conversation_id_def layout_cast_def message_count_def
        MESSAGE_COUNT_OFFSET_def hdr)
  ultimately show ?thesis using assms(2) by (simp add: update_tool_state_def MAX_TOOL_STATES_def)
qed

lemma context_increment:
  assumes "context_inv c"
  shows "\<exists>c'. increment_message_count c = (c', tt_count (context_abs c) + 1) \<and> context_inv c' \<and>
    context_abs c' = (context_abs c)\<lparr>tt_count := tt_count (context_abs c) + 1\<rparr>"
proof -
  let ?w = "message_count c + 1"
  let ?c = "c\<lparr>cx_buffer := copy_at 16 (le_bytes 8 ?w) (cx_buffer c)\<rparr>"
  have len: "1024 \<le> length (cx_buffer c)" using assms by (simp add: context_inv_def layout_size)
  have hdr: "slice a b (cx_buffer ?c) = slice a b (cx_buffer c)" if "b \<le> 16" for a b
    using slice_copy_other [of 16 "le_bytes 8 ?w" "cx_buffer c" b a] that len by simp
  have "slice 16 24 (cx_buffer ?c) = le_bytes 8 ?w"
    using slice_copy_same [of 16 "le_bytes 8 ?w" "cx_buffer c"] len by simp
  then have "message_count ?c = ?w" by (simp add: message_count_def MESSAGE_COUNT_OFFSET_def)
  moreover have "context_inv ?c" using assms len hdr by (simp add: context_inv_def)
  moreover have "conversation_id ?c = conversation_id c"
    using hdr by (simp add: conversation_id_def layout_cast_def)
  ultimately show ?thesis
    by (simp add: increment_message_count_def Let_def MESSAGE_COUNT_OFFSET_def context_abs_def
        slot_copy_count [OF len])
qed

lemma length_slots [simp]: "length (tt_slots (context_abs c)) = 25"
  by (simp add: context_abs_def)

lemma get_tool_state_abs:
  "get_tool_state c i = (if i < 25 then Some (tt_slots (context_abs c) ! i) else None)"
  by (simp add: get_tool_state_def MAX_TOOL_STATES_def context_abs_def)

lemma first_slot_abs_lt: "first_slot (tt_slots (context_abs c)) n = Some i \<Longrightarrow> i < 25"
  using first_slot_lt [of "tt_slots (context_abs c)" n i] by simp

lemma context_set:
  assumes "context_inv c" and "wf_tool_state t"
  shows "case slot_for (tt_slots (context_abs c)) (tst_tool_id t) of
      None \<Rightarrow> set_tool_state c t = (c, Inl OutOfBounds)
    | Some i \<Rightarrow> \<exists>c'. set_tool_state c t = (c', Inr i) \<and> context_inv c' \<and>
        context_abs c' = table_put (context_abs c) i t"
proof (cases "slot_for (tt_slots (context_abs c)) (tst_tool_id t)")
  case None
  then show ?thesis
    by (simp add: slot_for_def set_tool_state_def find_slot_abs split: option.splits)
next
  case (Some i)
  then have "i < 25" by (auto simp: slot_for_def dest: first_slot_abs_lt split: option.splits)
  from context_update [OF assms(1) this assms(2)] obtain c' where
    "update_tool_state c i t = (c', Inr ())" "context_inv c'"
    "context_abs c' = table_put (context_abs c) i t" by blast
  with Some show ?thesis
    by (auto simp: slot_for_def set_tool_state_def find_slot_abs split: option.splits)
qed

lemma context_step_refines:
  assumes "context_inv c"
  shows "context_inv (fst (context_step c a)) \<and>
    table_step (context_abs c) a = (context_abs (fst (context_step c a)), snd (context_step c a))"
proof (cases a)
  case CxIncrement
  with context_increment [OF assms] show ?thesis by auto
next
  case (CxUpdate i t)
  show ?thesis
  proof (cases "wf_tool_state t \<and> i < 25")
    case True
    with context_update [OF assms, of i t] CxUpdate show ?thesis by auto
  next
    case False
    with assms CxUpdate show ?thesis by (auto simp: update_tool_state_def MAX_TOOL_STATES_def)
  qed
next
  case (CxSet t)
  show ?thesis
  proof (cases "wf_tool_state t")
    case True
    then show ?thesis
      using assms CxSet context_set [OF assms True] by (auto split: option.splits)
  next
    case False
    with assms CxSet show ?thesis by simp
  qed
next
  case (CxClear i)
  with assms context_update [OF assms, of i "tool_state_new 0"] show ?thesis
    by (cases "i < 25") (auto simp: clear_tool_state_def update_tool_state_def MAX_TOOL_STATES_def)
next
  case (CxGet i)
  with assms show ?thesis by (simp add: get_tool_state_abs)
next
  case (CxFind n)
  with assms show ?thesis
    by (auto simp: find_tool_state_def find_slot_abs get_tool_state_abs split: option.split
        dest: first_slot_abs_lt)
next
  case CxIds
  with assms show ?thesis by (simp add: context_abs_def)
qed

interpretation context_machine: refinement_machine context_step context_inv context_abs table_step
  by unfold_locales (simp_all add: context_step_refines)

lemma context_new_abs:
  "context_inv (context_new n) \<and>
   context_abs (context_new n) =
     \<lparr>tt_conversation = n, tt_count = 0, tt_slots = replicate 25 (tool_state_new 0)\<rparr>"
proof -
  let ?slots = "concat (map tool_state_as_bytes (replicate 25 (tool_state_new 0)))"
  have rep: "length (concat (replicate k xs)) = k * length xs" for k and xs :: bytes
    by (induction k) simp_all
  have len: "length ?slots = 1000"
    by (simp add: rep)
  have buf: "cx_buffer (context_new n) =
      le_bytes 8 CONTEXT_MAGIC @ le_bytes 8 n @ le_bytes 8 (0 :: u64) @ ?slots"
    using len by (simp add: context_new_def layout_as_bytes_def layout_new_def copy_at_def layout_size
        MAX_TOOL_STATES_def)
  have "slot_cast (cx_buffer (context_new n)) i = tool_state_new 0" if "i < 25" for i
  proof -
    have "slice (24 + i * 40) (24 + i * 40 + 40) (cx_buffer (context_new n)) =
        slice (i * 40) (i * 40 + 40) ?slots"
      by (simp only: buf) (simp add: slice_skip add.commute)
    also have "\<dots> = tool_state_as_bytes (tool_state_new 0)"
      using that by (subst slice_concat) auto
    finally show ?thesis
      using tool_state_cast_as_bytes [of "tool_state_new 0" "[]"] 
      by (simp add: slot_cast_def tool_state_offset_def TOOL_STATES_OFFSET_def TOOL_STATE_SIZE_def)
  qed
  then have "map (slot_cast (cx_buffer (context_new n))) [0..<25] = replicate 25 (tool_state_new 0)"
    by (intro nth_equalityI) simp_all
  moreover have "slice 0 8 (cx_buffer (context_new n)) = le_bytes 8 CONTEXT_MAGIC"
    "slice 8 16 (cx_buffer (context_new n)) = le_bytes 8 n"
    "slice 16 24 (cx_buffer (context_new n)) = le_bytes 8 (0 :: u64)"
    by (simp_all only: buf) (simp_all add: slice_hit slice_skip)
  moreover have "length (cx_buffer (context_new n)) = 1024" by (simp only: buf) (simp add: rep)
  ultimately show ?thesis
    by (simp add: context_inv_def context_abs_def layout_size conversation_id_def layout_cast_def
        message_count_def MESSAGE_COUNT_OFFSET_def)
qed

text \<open>C21: The shared context is a table. Whatever sequence of operations runs on a fresh context, the
  byte buffer with its casts and offsets answers every call as a table of 25 slots, a counter and a
  conversation id does; in particular no write to one slot reaches another slot or the header.\<close>

theorem context_refines_table:
  "run_outs context_step (context_new n) ops =
   run_outs table_step
     \<lparr>tt_conversation = n, tt_count = 0, tt_slots = replicate 25 (tool_state_new 0)\<rparr> ops"
  by (rule context_machine.run_outputs) (use context_new_abs in simp)

text \<open>Looking up an id after a state was put in its slot.\<close>

lemma first_slot_update:
  assumes "slot_for slots (tst_tool_id t) = Some i" and "n \<noteq> 0"
  shows "map_option ((!) (slots[i := t])) (first_slot (slots[i := t]) n) =
    (if n = tst_tool_id t then Some t else map_option ((!) slots) (first_slot slots n))"
proof -
  have i: "i < length slots" and at: "tst_tool_id (slots ! i) = tst_tool_id t \<or> tst_tool_id (slots ! i) = 0"
    and first: "tst_tool_id t \<noteq> 0 \<Longrightarrow> j < i \<Longrightarrow> tst_tool_id (slots ! j) \<noteq> tst_tool_id t" for j
    using assms(1)
    by (auto simp: slot_for_def first_slot_def find_Some_iff find_None_iff split: option.splits)
  show ?thesis
  proof (cases "n = tst_tool_id t")
    case True
    then have "first_slot (slots[i := t]) n = Some i"
      using i first assms(2)
      by (auto simp: first_slot_def find_Some_iff nth_list_update intro!: exI [of _ i])
    with True i show ?thesis by simp
  next
    case False
    have "first_slot (slots[i := t]) n = first_slot slots n"
      unfolding first_slot_def length_list_update
      by (rule find_eq_on) (use False at assms(2) i in \<open>auto simp: nth_list_update\<close>)
    moreover have "j \<noteq> i" if "first_slot slots n = Some j" for j
      using that False at assms(2) by (auto simp: first_slot_def find_Some_iff)
    ultimately show ?thesis
      using False by (cases "first_slot slots n") (auto simp: nth_list_update)
  qed
qed

lemma find_tool_state_abs:
  "find_tool_state c n =
     map_option ((!) (tt_slots (context_abs c))) (first_slot (tt_slots (context_abs c)) n)"
  by (auto simp: find_tool_state_def find_slot_abs get_tool_state_abs split: option.split
      dest: first_slot_abs_lt)

text \<open>Tool states by id. At any point of any run, storing a state makes it the one found under its
  id and leaves the state found under every other id as it was; it fails, changing nothing, exactly
  when neither a slot with this id nor a free one exists. (Id 0 marks free slots.)\<close>

theorem set_then_find:
  assumes "wf_tool_state t" and "tid \<noteq> 0"
  shows "case set_tool_state (run_ops context_step (context_new n) ops) t of
      (c', Inr i) \<Rightarrow> i < 25 \<and> find_tool_state c' tid =
        (if tid = tst_tool_id t then Some t
         else find_tool_state (run_ops context_step (context_new n) ops) tid)
    | (c', Inl e) \<Rightarrow> e = OutOfBounds \<and> c' = run_ops context_step (context_new n) ops \<and>
        find_tool_state c' (tst_tool_id t) = None \<and> find_tool_state c' 0 = None"
proof -
  let ?c = "run_ops context_step (context_new n) ops"
  have inv: "context_inv ?c"
    by (rule context_machine.run_inv) (use context_new_abs in simp)
  show ?thesis
  proof (cases "slot_for (tt_slots (context_abs ?c)) (tst_tool_id t)")
    case None
    with context_set [OF inv assms(1)] show ?thesis
      by (auto simp: find_tool_state_abs slot_for_def split: option.splits)
  next
    case (Some i)
    with context_set [OF inv assms(1)] obtain c' where
      c': "set_tool_state ?c t = (c', Inr i)" "context_abs c' = table_put (context_abs ?c) i t"
      by auto
    moreover have "i < 25" using Some by (auto simp: slot_for_def dest: first_slot_abs_lt split: option.splits)
    ultimately show ?thesis
      using first_slot_update [OF Some assms(2)]
      by (simp add: find_tool_state_abs table_put_def)
  qed
qed

lemma tool_id_new: "tst_tool_id (tool_state_new i) = i"
  by (simp add: tool_state_new_def)

theorem set_then_find_witness:
  "case set_tool_state (context_new 5) (tool_state_new 7) of
     (c', Inr i) \<Rightarrow> find_tool_state c' 7 = Some (tool_state_new 7) | (c', Inl e) \<Rightarrow> e = OutOfBounds"
  using set_then_find [of "tool_state_new 7" 7 5 "[]"]
  by (auto simp: tool_id_new split: prod.splits sum.splits)

end
