(* ===== verification/Json_Rpc.thy ===== *)
theory Json_Rpc
  imports Redaction
begin

text \<open>
  JSON-RPC 2.0 messages (\<open>src/src/compat/json_rpc.rs\<close>): the detector of duplicate object keys,
  the parsers and formatters of requests and responses, and the checks on ids and method names.
  \<open>serde_json\<close> itself is a parameter: how a text is read, how a value is printed, and how its
  generated reader makes an error object of a value.
\<close>

section \<open>The JSON library\<close>

text \<open>What a deserializer shows a visitor: a scalar, a sequence or a map, read lazily. A sequence or
  a map ends with the error that stopped the reading, if any; a value may itself fail to read.\<close>

datatype json_doc =
    DocScalar
  | DocSeq "json_doc list" "text option"
  | DocMap "(text \<times> json_doc) list" "text option"
  | DocFail "text"

text \<open>What a serializer is given: a value, or a struct with its fields in the declared order.\<close>

datatype ser = SerValue json | SerStruct "(text \<times> ser) list"

fun ser_value :: "ser \<Rightarrow> json" where
  "ser_value (SerValue v) = v"
| "ser_value (SerStruct fs) = json_object (map (\<lambda>(k, s). (k, ser_value s)) fs)"

section \<open>Data\<close>

type_synonym i64 = "64 word"
type_synonym i32 = "32 word"

definition JSONRPC_VERSION :: "text" where "JSONRPC_VERSION = ascii ''2.0''"

definition DEFAULT_MAX_JSONRPC_REQUEST_SIZE :: nat where
  "DEFAULT_MAX_JSONRPC_REQUEST_SIZE = 10 * 1024 * 1024"

definition MAX_JSONRPC_ID_STRING_BYTES :: nat where "MAX_JSONRPC_ID_STRING_BYTES = 256"

datatype json_rpc_parse_error =
    InvalidJson "text" | MissingVersion | InvalidVersion | MissingMethod | MissingId
  | InvalidStructure | RequestTooLarge | RequestIdTooLarge | RequestIdSensitive | DuplicateField
  | BatchUnsupported

definition DUPLICATE_FIELD_MESSAGE :: "text" where
  "DUPLICATE_FIELD_MESSAGE = ascii ''duplicate JSON object field''"

definition REQUEST_ENVELOPE_FIELDS :: "text list" where
  "REQUEST_ENVELOPE_FIELDS = map ascii [''jsonrpc'', ''method'', ''params'', ''id'']"

definition RESPONSE_ENVELOPE_FIELDS :: "text list" where
  "RESPONSE_ENVELOPE_FIELDS = map ascii [''jsonrpc'', ''result'', ''error'', ''id'']"

datatype request_id = IdString "text" | IdNumber i64 | IdNull | IdMissing

record json_rpc_request =
  rq_jsonrpc :: "text"
  rq_method :: "text"
  rq_params :: "json option"
  rq_id :: request_id

record json_rpc_error =
  je_code :: i32
  je_message :: "text"
  je_data :: "json option"

record json_rpc_response =
  rp_jsonrpc :: "text"
  rp_result :: "json option"
  rp_error :: "json_rpc_error option"
  rp_id :: request_id

text \<open>The library: \<open>Deserializer::from_str\<close> with what its \<open>end\<close> reports, the display of a custom
  error, \<open>from_str\<close> to a value, \<open>from_value\<close> to an error object, and \<open>to_string\<close>.\<close>

record serde_json =
  sj_stream :: "text \<Rightarrow> json_doc \<times> text option"
  sj_custom :: "text \<Rightarrow> text"
  sj_value :: "text \<Rightarrow> text + json"
  sj_error_object :: "json \<Rightarrow> json_rpc_error option"
  sj_print :: "ser \<Rightarrow> text + text"

section \<open>Duplicate keys\<close>

fun detect_doc :: "text \<Rightarrow> json_doc \<Rightarrow> text + unit"
  and detect_seq :: "text \<Rightarrow> json_doc list \<Rightarrow> text option \<Rightarrow> text + unit"
  and detect_map :: "text \<Rightarrow> text list \<Rightarrow> (text \<times> json_doc) list \<Rightarrow> text option \<Rightarrow> text + unit" where
  "detect_doc dup DocScalar = Inr ()"
| "detect_doc dup (DocFail e) = Inl e"
| "detect_doc dup (DocSeq ds e) = detect_seq dup ds e"
| "detect_doc dup (DocMap ms e) = detect_map dup [] ms e"
| "detect_seq dup [] e = (case e of None \<Rightarrow> Inr () | Some m \<Rightarrow> Inl m)"
| "detect_seq dup (d # ds) e = bind_result (detect_doc dup d) (\<lambda>_. detect_seq dup ds e)"
| "detect_map dup seen [] e = (case e of None \<Rightarrow> Inr () | Some m \<Rightarrow> Inl m)"
| "detect_map dup seen ((k, d) # ms) e =
     (if k \<in> set seen then Inl dup
      else bind_result (detect_doc dup d) (\<lambda>_. detect_map dup (k # seen) ms e))"

definition map_json_error :: "text \<Rightarrow> json_rpc_parse_error" where
  "map_json_error error =
     (if contains_text DUPLICATE_FIELD_MESSAGE error then DuplicateField else InvalidJson error)"

fun map_err :: "('e \<Rightarrow> 'f) \<Rightarrow> 'e + 'a \<Rightarrow> 'f + 'a" where
  "map_err f (Inl e) = Inl (f e)"
| "map_err f (Inr x) = Inr x"

definition ensure_no_duplicate_object_fields ::
  "serde_json \<Rightarrow> text \<Rightarrow> json_rpc_parse_error + unit" where
  "ensure_no_duplicate_object_fields sj json =
     bind_result
       (map_err map_json_error
         (detect_doc (sj_custom sj DUPLICATE_FIELD_MESSAGE) (fst (sj_stream sj json))))
       (\<lambda>_. case snd (sj_stream sj json) of
              None \<Rightarrow> Inr () | Some e \<Rightarrow> Inl (map_json_error e))"

section \<open>Checks\<close>

definition ensure_only_known_fields ::
  "json_map \<Rightarrow> text list \<Rightarrow> json_rpc_parse_error + unit" where
  "ensure_only_known_fields obj allowed =
     (if list_ex (\<lambda>(key, v). key \<notin> set allowed) obj then Inl InvalidStructure else Inr ())"

definition validate_request_id :: "request_id \<Rightarrow> json_rpc_parse_error + unit" where
  "validate_request_id i =
     (case i of
        IdString s \<Rightarrow>
          if text_len s > MAX_JSONRPC_ID_STRING_BYTES then Inl RequestIdTooLarge
          else if sanitize_text s \<noteq> s then Inl RequestIdSensitive
          else Inr ()
      | _ \<Rightarrow> Inr ())"

definition validate_method_name :: "text \<Rightarrow> json_rpc_parse_error + unit" where
  "validate_method_name m =
     (if m = [] \<or> starts_with (ascii ''rpc.'') m \<or> list_ex char_is_control m
      then Inl InvalidStructure else Inr ())"

definition validate_response_shape :: "json_rpc_response \<Rightarrow> json_rpc_parse_error + unit" where
  "validate_response_shape response =
     (if rp_jsonrpc response \<noteq> JSONRPC_VERSION then Inl InvalidVersion
      else if rp_id response = IdMissing then Inl MissingId
      else if (rp_result response \<noteq> None) = (rp_error response \<noteq> None) then Inl InvalidStructure
      else validate_request_id (rp_id response))"

definition parse_request_id_value ::
  "json option \<Rightarrow> request_id \<Rightarrow> json_rpc_parse_error + request_id" where
  "parse_request_id_value v missing_id =
     bind_result
       (case v of
          None \<Rightarrow> Inr missing_id
        | Some (JString s) \<Rightarrow> Inr (IdString s)
        | Some (JNumber n) \<Rightarrow>
            (case number_as_i64 n of Some i \<Rightarrow> Inr (IdNumber i) | None \<Rightarrow> Inl InvalidStructure)
        | Some JNull \<Rightarrow> Inr IdNull
        | Some _ \<Rightarrow> Inl InvalidStructure)
       (\<lambda>i. bind_result (validate_request_id i) (\<lambda>_. Inr i))"

definition try_from_json_value :: "json \<Rightarrow> json_rpc_parse_error + request_id" where
  "try_from_json_value v = parse_request_id_value (Some v) IdMissing"

section \<open>Requests and responses\<close>

definition request_new :: "text \<Rightarrow> json option \<Rightarrow> request_id \<Rightarrow> json_rpc_request" where
  "request_new m params i =
     \<lparr>rq_jsonrpc = JSONRPC_VERSION, rq_method = m, rq_params = params, rq_id = i\<rparr>"

definition request_notification :: "text \<Rightarrow> json option \<Rightarrow> json_rpc_request" where
  "request_notification m params = request_new m params IdMissing"

definition is_notification :: "json_rpc_request \<Rightarrow> bool" where
  "is_notification r \<longleftrightarrow> rq_id r = IdMissing"

definition response_success :: "request_id \<Rightarrow> json \<Rightarrow> json_rpc_response" where
  "response_success i result =
     \<lparr>rp_jsonrpc = JSONRPC_VERSION, rp_result = Some result, rp_error = None, rp_id = i\<rparr>"

definition response_error :: "request_id \<Rightarrow> json_rpc_error \<Rightarrow> json_rpc_response" where
  "response_error i e =
     \<lparr>rp_jsonrpc = JSONRPC_VERSION, rp_result = None, rp_error = Some e, rp_id = i\<rparr>"

definition response_is_success :: "json_rpc_response \<Rightarrow> bool" where
  "response_is_success r \<longleftrightarrow> rp_result r \<noteq> None \<and> rp_error r = None"

definition response_is_error :: "json_rpc_response \<Rightarrow> bool" where
  "response_is_error r \<longleftrightarrow> rp_error r \<noteq> None"

definition error_new :: "i32 \<Rightarrow> text \<Rightarrow> json_rpc_error" where
  "error_new code message = \<lparr>je_code = code, je_message = sanitize_text message, je_data = None\<rparr>"

definition error_with_data :: "i32 \<Rightarrow> text \<Rightarrow> json \<Rightarrow> json_rpc_error" where
  "error_with_data code message data =
     \<lparr>je_code = code, je_message = sanitize_text message,
      je_data = Some (sanitize_json_value data)\<rparr>"

definition parse_error :: json_rpc_error where
  "parse_error = error_new (- 32700) (ascii ''Parse error'')"

definition invalid_request :: json_rpc_error where
  "invalid_request = error_new (- 32600) (ascii ''Invalid Request'')"

definition method_not_found :: json_rpc_error where
  "method_not_found = error_new (- 32601) (ascii ''Method not found'')"

definition invalid_params :: json_rpc_error where
  "invalid_params = error_new (- 32602) (ascii ''Invalid params'')"

definition internal_error :: json_rpc_error where
  "internal_error = error_new (- 32603) (ascii ''Internal error'')"

section \<open>Parsing\<close>

definition ok_or :: "'e \<Rightarrow> 'a option \<Rightarrow> 'e + 'a" where
  "ok_or e v = (case v of None \<Rightarrow> Inl e | Some x \<Rightarrow> Inr x)"

text \<open>The version and the method of an envelope.\<close>

definition check_version :: "json_map \<Rightarrow> json_rpc_parse_error + unit" where
  "check_version obj =
     bind_result (ok_or MissingVersion (Option.bind (jm_get obj (ascii ''jsonrpc'')) as_str))
       (\<lambda>version. if version \<noteq> JSONRPC_VERSION then Inl InvalidVersion else Inr ())"

definition is_container :: "json \<Rightarrow> bool" where
  "is_container v \<longleftrightarrow> as_object v \<noteq> None \<or> as_array v \<noteq> None"

definition parse_request_value :: "json \<Rightarrow> json_rpc_parse_error + json_rpc_request" where
  "parse_request_value v =
     (if as_array v \<noteq> None then Inl BatchUnsupported
      else
        bind_result (ok_or InvalidStructure (as_object v)) (\<lambda>obj.
        bind_result (ensure_only_known_fields obj REQUEST_ENVELOPE_FIELDS) (\<lambda>_.
        bind_result (check_version obj) (\<lambda>_.
        bind_result (ok_or MissingMethod (Option.bind (jm_get obj (ascii ''method'')) as_str)) (\<lambda>m.
        bind_result (validate_method_name m) (\<lambda>_.
          if jm_contains obj (ascii ''result'') \<or> jm_contains obj (ascii ''error'')
          then Inl InvalidStructure
          else
            let params = jm_get obj (ascii ''params'')
            in if \<not> pred_option is_container params then Inl InvalidStructure
               else
                 bind_result (parse_request_id_value (jm_get obj (ascii ''id'')) IdMissing) (\<lambda>i.
                   Inr (request_new m params i))))))))"

definition parse_request_with_limit ::
  "serde_json \<Rightarrow> text \<Rightarrow> nat \<Rightarrow> json_rpc_parse_error + json_rpc_request" where
  "parse_request_with_limit sj json max_size =
     (if text_len json > max_size then Inl RequestTooLarge
      else
        bind_result (ensure_no_duplicate_object_fields sj json) (\<lambda>_.
        bind_result (map_err map_json_error (sj_value sj json)) parse_request_value))"

definition parse_request :: "serde_json \<Rightarrow> text \<Rightarrow> json_rpc_parse_error + json_rpc_request" where
  "parse_request sj json = parse_request_with_limit sj json DEFAULT_MAX_JSONRPC_REQUEST_SIZE"

definition parse_response_value ::
  "serde_json \<Rightarrow> json \<Rightarrow> json_rpc_parse_error + json_rpc_response" where
  "parse_response_value sj v =
     bind_result (ok_or InvalidStructure (as_object v)) (\<lambda>obj.
     bind_result (ensure_only_known_fields obj RESPONSE_ENVELOPE_FIELDS) (\<lambda>_.
     bind_result (check_version obj) (\<lambda>_.
       if jm_contains obj (ascii ''method'') \<or> jm_contains obj (ascii ''params'')
       then Inl InvalidStructure
       else
         bind_result (parse_request_id_value (jm_get obj (ascii ''id'')) IdMissing) (\<lambda>i.
           if i = IdMissing then Inl MissingId
           else
             let result = jm_get obj (ascii ''result'')
             in bind_result
                  (case jm_get obj (ascii ''error'') of
                     None \<Rightarrow> Inr None
                   | Some e \<Rightarrow> map_err (\<lambda>_. InvalidStructure)
                       (ok_or () (map_option Some (sj_error_object sj e))))
                  (\<lambda>error.
                    if (result \<noteq> None) = (error \<noteq> None) then Inl InvalidStructure
                    else Inr \<lparr>rp_jsonrpc = JSONRPC_VERSION, rp_result = result, rp_error = error,
                              rp_id = i\<rparr>)))))"

definition parse_response_with_limit ::
  "serde_json \<Rightarrow> text \<Rightarrow> nat \<Rightarrow> json_rpc_parse_error + json_rpc_response" where
  "parse_response_with_limit sj json max_size =
     (if text_len json > max_size then Inl RequestTooLarge
      else
        bind_result (ensure_no_duplicate_object_fields sj json) (\<lambda>_.
        bind_result (map_err map_json_error (sj_value sj json)) (parse_response_value sj)))"

definition parse_response :: "serde_json \<Rightarrow> text \<Rightarrow> json_rpc_parse_error + json_rpc_response" where
  "parse_response sj json = parse_response_with_limit sj json DEFAULT_MAX_JSONRPC_REQUEST_SIZE"

section \<open>Formatting\<close>

text \<open>What the derived serializers emit: an untagged id is its contents or null, an absent optional
  field is left out.\<close>

fun id_json :: "request_id \<Rightarrow> json" where
  "id_json (IdString s) = JString s"
| "id_json (IdNumber i) = JNumber (number_from_i64 i)"
| "id_json IdNull = JNull"
| "id_json IdMissing = JNull"

definition opt_field :: "string \<Rightarrow> ser option \<Rightarrow> (text \<times> ser) list" where
  "opt_field k v = (case v of None \<Rightarrow> [] | Some s \<Rightarrow> [(ascii k, s)])"

definition request_ser :: "json_rpc_request \<Rightarrow> ser" where
  "request_ser r =
     SerStruct
       ([(ascii ''jsonrpc'', SerValue (JString (rq_jsonrpc r))),
         (ascii ''method'', SerValue (JString (rq_method r)))] @
        opt_field ''params'' (map_option SerValue (rq_params r)) @
        (if rq_id r = IdMissing then [] else [(ascii ''id'', SerValue (id_json (rq_id r)))]))"

definition error_ser :: "json_rpc_error \<Rightarrow> ser" where
  "error_ser e =
     SerStruct
       ([(ascii ''code'', SerValue (JNumber (number_from_i64 (scast (je_code e))))),
         (ascii ''message'', SerValue (JString (je_message e)))] @
        opt_field ''data'' (map_option SerValue (je_data e)))"

definition response_ser :: "json_rpc_response \<Rightarrow> ser" where
  "response_ser r =
     SerStruct
       ([(ascii ''jsonrpc'', SerValue (JString (rp_jsonrpc r)))] @
        opt_field ''result'' (map_option SerValue (rp_result r)) @
        opt_field ''error'' (map_option error_ser (rp_error r)) @
        [(ascii ''id'', SerValue (id_json (rp_id r)))])"

definition format_request :: "serde_json \<Rightarrow> json_rpc_request \<Rightarrow> json_rpc_parse_error + text" where
  "format_request sj r =
     (if rq_jsonrpc r \<noteq> JSONRPC_VERSION then Inl InvalidVersion
      else
        bind_result (validate_method_name (rq_method r)) (\<lambda>_.
        bind_result (validate_request_id (rq_id r)) (\<lambda>_.
          map_err InvalidJson (sj_print sj (request_ser r)))))"

definition sanitize_error :: "json_rpc_error \<Rightarrow> json_rpc_error" where
  "sanitize_error e =
     e\<lparr>je_message := sanitize_text (je_message e),
       je_data := map_option sanitize_json_value (je_data e)\<rparr>"

definition sanitize_response :: "json_rpc_response \<Rightarrow> json_rpc_response" where
  "sanitize_response r = r\<lparr>rp_error := map_option sanitize_error (rp_error r)\<rparr>"

definition format_response :: "serde_json \<Rightarrow> json_rpc_response \<Rightarrow> json_rpc_parse_error + text" where
  "format_response sj r =
     bind_result (validate_response_shape r) (\<lambda>_.
       map_err InvalidJson (sj_print sj (response_ser (sanitize_response r))))"

section \<open>Duplicate keys are found at every depth\<close>

fun doc_reads :: "json_doc \<Rightarrow> bool" where
  "doc_reads DocScalar \<longleftrightarrow> True"
| "doc_reads (DocFail e) \<longleftrightarrow> False"
| "doc_reads (DocSeq ds e) \<longleftrightarrow> e = None \<and> list_all doc_reads ds"
| "doc_reads (DocMap ms e) \<longleftrightarrow> e = None \<and> list_all (\<lambda>(k, d). doc_reads d) ms"

fun doc_unique :: "json_doc \<Rightarrow> bool" where
  "doc_unique (DocSeq ds e) \<longleftrightarrow> list_all doc_unique ds"
| "doc_unique (DocMap ms e) \<longleftrightarrow> distinct (map fst ms) \<and> list_all (\<lambda>(k, d). doc_unique d) ms"
| "doc_unique d \<longleftrightarrow> True"

lemma detect_doc_ok:
  "detect_doc dup d = Inr () \<longleftrightarrow> doc_reads d \<and> doc_unique d"
  "detect_seq dup ds e = Inr () \<longleftrightarrow>
     e = None \<and> list_all (\<lambda>d. doc_reads d \<and> doc_unique d) ds"
  "detect_map dup seen ms e = Inr () \<longleftrightarrow>
     e = None \<and> distinct (map fst ms) \<and> set seen \<inter> set (map fst ms) = {} \<and>
     list_all (\<lambda>(k, d). doc_reads d \<and> doc_unique d) ms"
  by (induction dup d and dup ds e and dup seen ms e rule: detect_doc_detect_seq_detect_map.induct)
     (auto simp: bind_result_eq_Inr list_all_iff split: option.splits)

lemma detect_doc_dup:
  "doc_reads d \<Longrightarrow> detect_doc dup d \<in> {Inr (), Inl dup}"
  "e = None \<Longrightarrow> list_all doc_reads ds \<Longrightarrow> detect_seq dup ds e \<in> {Inr (), Inl dup}"
  "e = None \<Longrightarrow> list_all (\<lambda>(k, d). doc_reads d) ms \<Longrightarrow> detect_map dup seen ms e \<in> {Inr (), Inl dup}"
  by (induction dup d and dup ds e and dup seen ms e rule: detect_doc_detect_seq_detect_map.induct)
     auto

lemma map_err_eq_Inr [simp]: "map_err f r = Inr x \<longleftrightarrow> r = Inr x"
  by (cases r) auto

lemma no_duplicates_ok:
  "ensure_no_duplicate_object_fields sj t = Inr () \<longleftrightarrow>
     doc_reads (fst (sj_stream sj t)) \<and> doc_unique (fst (sj_stream sj t)) \<and>
     snd (sj_stream sj t) = None"
  by (auto simp: ensure_no_duplicate_object_fields_def bind_result_eq_Inr detect_doc_ok
      split: option.splits)

text \<open>Ambiguous documents are refused. A text whose document repeats a key in any of its objects,
  however deeply nested, is never parsed to a request or a response, and when the document is
  otherwise well-formed the reported error is exactly the duplicate field.\<close>

theorem duplicate_keys_refused:
  assumes "contains_text DUPLICATE_FIELD_MESSAGE (sj_custom sj DUPLICATE_FIELD_MESSAGE)"
    and "\<not> doc_unique (fst (sj_stream sj t))"
  shows "\<not> is_ok (parse_request_with_limit sj t limit) \<and>
    \<not> is_ok (parse_response_with_limit sj t limit) \<and>
    (text_len t \<le> limit \<and> doc_reads (fst (sj_stream sj t)) \<longrightarrow>
      parse_request_with_limit sj t limit = Inl DuplicateField \<and>
      parse_response_with_limit sj t limit = Inl DuplicateField)"
proof -
  let ?dup = "sj_custom sj DUPLICATE_FIELD_MESSAGE" and ?d = "fst (sj_stream sj t)"
  have bad: "ensure_no_duplicate_object_fields sj t \<noteq> Inr ()" using assms(2) by (simp add: no_duplicates_ok)
  then obtain e where e: "ensure_no_duplicate_object_fields sj t = Inl e"
    by (cases "ensure_no_duplicate_object_fields sj t") auto
  moreover have "e = DuplicateField" if "doc_reads ?d"
  proof -
    have "detect_doc ?dup ?d = Inl ?dup"
      using detect_doc_dup(1) [OF that, of ?dup] assms(2) detect_doc_ok(1) [of ?dup ?d] by auto
    then have "ensure_no_duplicate_object_fields sj t = Inl DuplicateField"
      using assms(1) by (simp add: ensure_no_duplicate_object_fields_def map_json_error_def)
    with e show ?thesis by simp
  qed
  ultimately show ?thesis
    by (auto simp: parse_request_with_limit_def parse_response_with_limit_def)
qed

definition sample_duplicate :: serde_json where
  "sample_duplicate =
     \<lparr>sj_stream = (\<lambda>t. (DocSeq [DocMap [(ascii ''id'', DocScalar), (ascii ''id'', DocScalar)] None] None,
                         None)),
      sj_custom = (\<lambda>m. m @ ascii '' at line 1 column 14''),
      sj_value = (\<lambda>t. Inr (JArray [json_object [(ascii ''id'', JNull)]])),
      sj_error_object = (\<lambda>v. None), sj_print = (\<lambda>s. Inl [])\<rparr>"

lemma duplicate_keys_refused_witness:
  "parse_request_with_limit sample_duplicate (ascii ''[{id:1,id:2}]'') 64 = Inl DuplicateField"
proof -
  have "contains_text DUPLICATE_FIELD_MESSAGE (sj_custom sample_duplicate DUPLICATE_FIELD_MESSAGE)"
    by code_simp
  moreover have "\<not> doc_unique (fst (sj_stream sample_duplicate (ascii ''[{id:1,id:2}]'')))"
    "doc_reads (fst (sj_stream sample_duplicate (ascii ''[{id:1,id:2}]'')))"
    by (simp_all add: sample_duplicate_def)
  moreover have "text_len (ascii ''[{id:1,id:2}]'') \<le> 64" by code_simp
  ultimately show ?thesis using duplicate_keys_refused by blast
qed

section \<open>What is parsed\<close>

definition method_ok :: "text \<Rightarrow> bool" where
  "method_ok m \<longleftrightarrow> m \<noteq> [] \<and> \<not> (\<exists>r. m = ascii ''rpc.'' @ r) \<and> (\<forall>c \<in> set m. \<not> char_is_control c)"

definition id_ok :: "request_id \<Rightarrow> bool" where
  "id_ok i \<longleftrightarrow> (\<forall>s. i = IdString s \<longrightarrow> text_len s \<le> 256 \<and> \<not> looks_sensitive_value s)"

lemma validate_method_name_ok: "validate_method_name m = Inr () \<longleftrightarrow> method_ok m"
  by (auto simp: validate_method_name_def method_ok_def starts_with_iff list_ex_iff)

lemma validate_request_id_ok: "validate_request_id i = Inr () \<longleftrightarrow> id_ok i"
  by (cases i) (auto simp: validate_request_id_def id_ok_def MAX_JSONRPC_ID_STRING_BYTES_def
      sanitize_text_def dest: REDACTED_not_sensitive(1) [THEN notE])

fun id_field :: "request_id \<Rightarrow> json option \<Rightarrow> bool" where
  "id_field (IdString s) v \<longleftrightarrow> v = Some (JString s)"
| "id_field (IdNumber i) v \<longleftrightarrow> (\<exists>n. v = Some (JNumber n) \<and> number_as_i64 n = Some i)"
| "id_field IdNull v \<longleftrightarrow> v = Some JNull"
| "id_field IdMissing v \<longleftrightarrow> v = None"

lemma parse_request_id_value_ok:
  "parse_request_id_value v IdMissing = Inr i \<longleftrightarrow> id_field i v \<and> id_ok i"
proof -
  have "(case v of
          None \<Rightarrow> Inr IdMissing
        | Some (JString s) \<Rightarrow> Inr (IdString s)
        | Some (JNumber n) \<Rightarrow>
            (case number_as_i64 n of Some i \<Rightarrow> Inr (IdNumber i) | None \<Rightarrow> Inl InvalidStructure)
        | Some JNull \<Rightarrow> Inr IdNull
        | Some _ \<Rightarrow> Inl InvalidStructure) = Inr i \<longleftrightarrow> id_field i v"
    by (cases i) (auto split: option.splits json.splits)
  then show ?thesis
    by (simp add: parse_request_id_value_def bind_result_eq_Inr validate_request_id_ok)
qed

definition known_fields :: "json_map \<Rightarrow> text list \<Rightarrow> bool" where
  "known_fields obj allowed \<longleftrightarrow> fst ` set obj \<subseteq> set allowed"

lemma ensure_only_known_fields_ok:
  "ensure_only_known_fields obj allowed = Inr () \<longleftrightarrow> known_fields obj allowed"
  by (auto simp: ensure_only_known_fields_def known_fields_def list_ex_iff)

lemma known_field_get:
  "known_fields obj allowed \<Longrightarrow> k \<notin> set allowed \<Longrightarrow> jm_get obj k = None"
  using jm_contains_iff [of obj k] by (auto simp: known_fields_def jm_contains_def)

lemma ok_or_eq_Inr [simp]: "ok_or e v = Inr x \<longleftrightarrow> v = Some x"
  by (cases v) (auto simp: ok_or_def)

lemma as_simps [simp]:
  "as_str v = Some s \<longleftrightarrow> v = JString s" "as_object v = Some m \<longleftrightarrow> v = JObject m"
  "as_array v = Some vs \<longleftrightarrow> v = JArray vs"
  by (auto simp: as_str_def as_object_def as_array_def split: json.splits)

lemma check_version_ok:
  "check_version obj = Inr () \<longleftrightarrow> jm_get obj (ascii ''jsonrpc'') = Some (JString JSONRPC_VERSION)"
  by (auto simp: check_version_def bind_result_eq_Inr bind_eq_Some_conv)

lemma request_new_eq:
  "request_new m params i = r \<longleftrightarrow> rq_jsonrpc r = JSONRPC_VERSION \<and> rq_method r = m \<and>
     rq_params r = params \<and> rq_id r = i"
  by (cases r) (auto simp: request_new_def)

lemma parse_request_value_ok:
  "parse_request_value v = Inr r \<longleftrightarrow>
     (\<exists>obj. v = JObject obj \<and> known_fields obj REQUEST_ENVELOPE_FIELDS \<and>
        jm_get obj (ascii ''jsonrpc'') = Some (JString JSONRPC_VERSION) \<and>
        rq_jsonrpc r = JSONRPC_VERSION \<and>
        jm_get obj (ascii ''method'') = Some (JString (rq_method r)) \<and> method_ok (rq_method r) \<and>
        jm_get obj (ascii ''params'') = rq_params r \<and> pred_option is_container (rq_params r) \<and>
        id_field (rq_id r) (jm_get obj (ascii ''id'')) \<and> id_ok (rq_id r))"
proof (cases v)
  case (JObject obj)
  have "\<not> jm_contains obj (ascii ''result'')" "\<not> jm_contains obj (ascii ''error'')"
    if "known_fields obj REQUEST_ENVELOPE_FIELDS"
    using known_field_get [OF that] by (simp_all add: jm_contains_def REQUEST_ENVELOPE_FIELDS_def)
  then show ?thesis
    by (auto simp: JObject parse_request_value_def as_array_def as_object_def ok_or_def [of _ "Some _"]
        bind_result_eq_Inr ensure_only_known_fields_ok check_version_ok bind_eq_Some_conv
        validate_method_name_ok parse_request_id_value_ok request_new_eq Let_def)
qed (auto simp: parse_request_value_def as_array_def as_object_def ok_or_def)

section \<open>Round trips\<close>

lemma jm_fold_get:
  "jm_get (fold (\<lambda>(k, v). jm_insert k v) kvs m) k =
     (case map_of (rev kvs) k of None \<Rightarrow> jm_get m k | Some v \<Rightarrow> Some v)"
  by (induction kvs arbitrary: m) (auto split: option.splits simp: map_add_Some_iff map_add_def)

lemma jm_of_list_get: "jm_get (jm_of_list kvs) k = map_of (rev kvs) k"
  by (simp add: jm_of_list_def jm_fold_get split: option.splits)

lemma jm_of_list_keys: "fst ` set (jm_of_list kvs) = fst ` set kvs"
proof -
  have "fst ` set (fold (\<lambda>(k, v). jm_insert k v) kvs m) = fst ` set m \<union> fst ` set kvs" for m
    by (induction kvs arbitrary: m) (simp_all add: split_beta jm_insert_keys)
  from this [of "[]"] show ?thesis by (simp add: jm_of_list_def)
qed

text \<open>A printed text reads back when the library finds a well-formed document in it, without repeated
  keys, and the value it was printed from.\<close>

definition reads_back :: "serde_json \<Rightarrow> text \<Rightarrow> json \<Rightarrow> bool" where
  "reads_back sj t v \<longleftrightarrow> doc_reads (fst (sj_stream sj t)) \<and> doc_unique (fst (sj_stream sj t)) \<and>
     snd (sj_stream sj t) = None \<and> sj_value sj t = Inr v"

text \<open>C26: The requests the parser accepts. A text parses to a request exactly when it is
  within the size limit, repeats no key in any object, and holds an object with no field outside the envelope, version 2.0, a method that is non-empty, outside the
  reserved \<open>rpc.\<close> names and free of control characters, parameters that are an object or an array
  if present, and an id that is absent, null, a 64-bit integer, or a string of at most 256 bytes that
  carries no secret; and the request is made of these fields.\<close>

theorem parse_request_exact:
  "parse_request_with_limit sj t limit = Inr r \<longleftrightarrow>
     text_len t \<le> limit \<and>
     (\<exists>obj. reads_back sj t (JObject obj) \<and> known_fields obj REQUEST_ENVELOPE_FIELDS \<and>
        jm_get obj (ascii ''jsonrpc'') = Some (JString JSONRPC_VERSION) \<and>
        rq_jsonrpc r = JSONRPC_VERSION \<and>
        jm_get obj (ascii ''method'') = Some (JString (rq_method r)) \<and> method_ok (rq_method r) \<and>
        jm_get obj (ascii ''params'') = rq_params r \<and> pred_option is_container (rq_params r) \<and>
        id_field (rq_id r) (jm_get obj (ascii ''id'')) \<and> id_ok (rq_id r))"
  by (auto simp: parse_request_with_limit_def bind_result_eq_Inr no_duplicates_ok reads_back_def
      parse_request_value_ok)

lemma id_field_json [simp]: "id_field i (Some (id_json i)) \<longleftrightarrow> i \<noteq> IdMissing"
  by (cases i) auto

lemma opt_field_map [simp]:
  "map (\<lambda>(k, s). (k, ser_value s)) (opt_field k v) =
     (case v of None \<Rightarrow> [] | Some s \<Rightarrow> [(ascii k, ser_value s)])"
  by (cases v) (auto simp: opt_field_def)

text \<open>Requests survive the wire. A request the formatter accepts, with parameters the protocol
  allows, is parsed back unchanged from its text, id and parameters included, whenever the library
  reads back what it printed.\<close>

theorem request_round_trip:
  assumes "format_request sj r = Inr t" and "pred_option is_container (rq_params r)"
    and "reads_back sj t (ser_value (request_ser r))" and "text_len t \<le> limit"
  shows "parse_request_with_limit sj t limit = Inr r"
proof -
  have ok: "rq_jsonrpc r = JSONRPC_VERSION" "method_ok (rq_method r)" "id_ok (rq_id r)"
    using assms(1) by (auto simp: format_request_def bind_result_eq_Inr validate_method_name_ok
        validate_request_id_ok split: if_splits)
  obtain obj where obj: "ser_value (request_ser r) = JObject obj"
    "known_fields obj REQUEST_ENVELOPE_FIELDS"
    "jm_get obj (ascii ''jsonrpc'') = Some (JString (rq_jsonrpc r))"
    "jm_get obj (ascii ''method'') = Some (JString (rq_method r))"
    "jm_get obj (ascii ''params'') = rq_params r"
    "id_field (rq_id r) (jm_get obj (ascii ''id''))"
    by (cases "rq_params r")
       (auto simp: request_ser_def json_object_def known_fields_def jm_of_list_keys jm_of_list_get
         REQUEST_ENVELOPE_FIELDS_def split: if_splits)
  have "parse_request_value (ser_value (request_ser r)) = Inr r"
    unfolding parse_request_value_ok using obj ok assms(2) by auto
  with assms(3,4) show ?thesis
    by (simp add: parse_request_with_limit_def reads_back_def no_duplicates_ok [THEN iffD2])
qed

text \<open>A library that prints one request and reads it back.\<close>

definition one_document :: "text \<Rightarrow> ser \<Rightarrow> serde_json" where
  "one_document t s =
     \<lparr>sj_stream = (\<lambda>u. if u = t then (DocMap [] None, None) else (DocFail [], None)),
      sj_custom = (\<lambda>m. m), sj_value = (\<lambda>u. if u = t then Inr (ser_value s) else Inl []),
      sj_error_object = (\<lambda>v. Some (error_new (- 32601) (ascii ''Method not found''))),
      sj_print = (\<lambda>x. if x = s then Inr t else Inl [])\<rparr>"

lemma one_document_reads_back: "reads_back (one_document t s) t (ser_value s)"
  by (simp add: reads_back_def one_document_def)

definition sample_request :: json_rpc_request where
  "sample_request =
     request_new (ascii ''tools/call'') (Some (json_object [(ascii ''name'', JString (ascii ''x''))]))
       (IdNumber 7)"

definition sample_text :: "text" where
  "sample_text =
     ascii ''{\"jsonrpc\":\"2.0\",\"method\":\"tools/call\",\"params\":{\"name\":\"x\"},\"id\":7}''"

lemma request_round_trip_witness:
  "parse_request_with_limit (one_document sample_text (request_ser sample_request)) sample_text 100 =
     Inr sample_request"
proof (rule request_round_trip [OF _ _ one_document_reads_back])
  show "format_request (one_document sample_text (request_ser sample_request)) sample_request =
      Inr sample_text"
    by (simp add: format_request_def one_document_def sample_request_def request_new_def
        validate_method_name_def validate_request_id_def) code_simp
  show "pred_option is_container (rq_params sample_request)"
    by (simp add: sample_request_def request_new_def is_container_def json_object_def as_object_def)
  show "text_len sample_text \<le> 100" by code_simp
qed

lemma reads_back_no_duplicates: "reads_back sj t v \<Longrightarrow> ensure_no_duplicate_object_fields sj t = Inr ()"
  by (simp add: reads_back_def no_duplicates_ok)

text \<open>The generated reader of error objects undoes the generated writer, except that it takes a null
  \<open>data\<close> for an absent one.\<close>

definition read_error_back :: "json_rpc_error \<Rightarrow> json_rpc_error" where
  "read_error_back e = e\<lparr>je_data := (if je_data e = Some JNull then None else je_data e)\<rparr>"

definition read_response_back :: "json_rpc_response \<Rightarrow> json_rpc_response" where
  "read_response_back r = r\<lparr>rp_error := map_option read_error_back (rp_error r)\<rparr>"

lemma validate_response_shape_ok:
  "validate_response_shape r = Inr () \<longleftrightarrow>
     rp_jsonrpc r = JSONRPC_VERSION \<and> rp_id r \<noteq> IdMissing \<and>
     (rp_result r \<noteq> None) \<noteq> (rp_error r \<noteq> None) \<and> id_ok (rp_id r)"
  by (auto simp: validate_response_shape_def validate_request_id_ok)

definition error_clean :: "json_rpc_error \<Rightarrow> bool" where
  "error_clean e \<longleftrightarrow> \<not> looks_sensitive_value (je_message e) \<and> pred_option json_clean (je_data e)"

lemma sanitize_error_clean: "error_clean (sanitize_error e)"
  by (simp add: error_clean_def sanitize_error_def sanitized_not_sensitive(1) option.pred_map
      comp_def sanitize_json_value_clean option.pred_True)

text \<open>Responses survive the wire, redacted. What the formatter prints for a response is parsed
  back, whenever the library reads back what it printed, to that response with its error redacted: it
  has exactly one of a result and an error, an id that is not missing, and an error whose message and
  data carry no secret.\<close>

theorem response_round_trip:
  assumes "format_response sj r = Inr t"
    and "reads_back sj t (ser_value (response_ser (sanitize_response r)))"
    and "\<And>e. rp_error (sanitize_response r) = Some e \<Longrightarrow>
      sj_error_object sj (ser_value (error_ser e)) = Some (read_error_back e)"
    and "text_len t \<le> limit"
  shows "parse_response_with_limit sj t limit = Inr (read_response_back (sanitize_response r)) \<and>
    rp_id r \<noteq> IdMissing \<and> id_ok (rp_id r) \<and> (rp_result r \<noteq> None) \<noteq> (rp_error r \<noteq> None) \<and>
    pred_option error_clean (rp_error (sanitize_response r))"
proof -
  let ?r = "sanitize_response r"
  have r: "rp_jsonrpc r = JSONRPC_VERSION" "rp_id r \<noteq> IdMissing" "id_ok (rp_id r)"
    "(rp_result r \<noteq> None) \<noteq> (rp_error r \<noteq> None)"
    using assms(1) by (auto simp: format_response_def bind_result_eq_Inr validate_response_shape_ok)
  then have s: "rp_jsonrpc ?r = JSONRPC_VERSION" "rp_id ?r = rp_id r" "rp_result ?r = rp_result r"
    by (simp_all add: sanitize_response_def)
  obtain obj where obj: "ser_value (response_ser ?r) = JObject obj"
    "known_fields obj RESPONSE_ENVELOPE_FIELDS"
    "jm_get obj (ascii ''jsonrpc'') = Some (JString JSONRPC_VERSION)"
    "jm_get obj (ascii ''result'') = rp_result ?r"
    "jm_get obj (ascii ''error'') = map_option (\<lambda>e. ser_value (error_ser e)) (rp_error ?r)"
    "jm_get obj (ascii ''id'') = Some (id_json (rp_id ?r))"
    using r s by (cases "rp_result ?r"; cases "rp_error ?r")
       (auto simp: response_ser_def json_object_def known_fields_def jm_of_list_keys jm_of_list_get
         RESPONSE_ENVELOPE_FIELDS_def split: if_splits)
  have none: "\<not> jm_contains obj (ascii ''method'')" "\<not> jm_contains obj (ascii ''params'')"
    using known_field_get [OF obj(2)] by (simp_all add: jm_contains_def RESPONSE_ENVELOPE_FIELDS_def)
  have "parse_request_id_value (jm_get obj (ascii ''id'')) IdMissing = Inr (rp_id r)"
    using r s by (simp add: parse_request_id_value_ok obj)
  moreover have "ensure_only_known_fields obj RESPONSE_ENVELOPE_FIELDS = Inr ()" "check_version obj = Inr ()"
    using obj(2,3) by (simp_all add: check_version_ok ensure_only_known_fields_ok)
  moreover have "read_response_back ?r =
      \<lparr>rp_jsonrpc = JSONRPC_VERSION, rp_result = rp_result ?r,
       rp_error = map_option read_error_back (rp_error ?r), rp_id = rp_id r\<rparr>"
    using s by (intro json_rpc_response.equality) (simp_all add: read_response_back_def)
  moreover have "(rp_error ?r \<noteq> None) = (rp_error r \<noteq> None)" by (simp add: sanitize_response_def)
  ultimately have "parse_response_value sj (JObject obj) = Inr (read_response_back ?r)"
    using r s none obj(4,5) assms(3)
    by (cases "rp_error ?r")
       (auto simp: parse_response_value_def as_object_def ok_or_def [of _ "Some _"] Let_def)
  moreover have "pred_option error_clean (rp_error ?r)"
    by (simp add: sanitize_response_def option.pred_map comp_def sanitize_error_clean option.pred_True)
  ultimately show ?thesis
    using r assms(2,4) reads_back_no_duplicates [OF assms(2)]
    by (simp add: parse_response_with_limit_def reads_back_def obj(1))
qed

definition sample_response :: json_rpc_response where
  "sample_response =
     response_error (IdString (ascii ''a'')) (error_new (- 32601) (ascii ''Method not found''))"

lemma not_found_text: "sanitize_text (ascii ''Method not found'') = ascii ''Method not found''"
  by code_simp

lemma response_round_trip_witness:
  "parse_response_with_limit
     (one_document sample_text (response_ser (sanitize_response sample_response))) sample_text 100 =
   Inr (read_response_back (sanitize_response sample_response))"
proof (rule conjunct1 [OF response_round_trip [OF _ one_document_reads_back]])
  let ?sj = "one_document sample_text (response_ser (sanitize_response sample_response))"
  have "validate_request_id (IdString (ascii ''a'')) = Inr ()" by code_simp
  then have "validate_response_shape sample_response = Inr ()"
    by (simp add: validate_response_shape_def sample_response_def response_error_def)
  then show "format_response ?sj sample_response = Inr sample_text"
    by (simp add: format_response_def one_document_def)
  have e: "rp_error (sanitize_response sample_response) = Some (error_new (- 32601) (ascii ''Method not found''))"
    using not_found_text
    by (simp add: sample_response_def response_error_def sanitize_response_def sanitize_error_def
        error_new_def)
  show "sj_error_object ?sj (ser_value (error_ser e)) = Some (read_error_back e)"
    if "rp_error (sanitize_response sample_response) = Some e" for e
  proof -
    from that e have "e = error_new (- 32601) (ascii ''Method not found'')" by simp
    then show ?thesis by (simp add: one_document_def read_error_back_def error_new_def)
  qed
  show "text_len sample_text \<le> 100" by code_simp
qed

end
