(* ===== verification/Doubles.thy ===== *)
theory Doubles
  imports Text "HOL-Library.Log_Nat"
begin

text \<open>
  Doubles (\<open>f64\<close>) as the code uses them. A double is its bit pattern. Arithmetic takes the exact
  rational result and rounds it to the nearest double, ties to even; \<open>f64_display\<close> is what \<open>{}\<close> prints, the
  shortest decimal that reads back, without an exponent. A NaN result is the quiet NaN.
\<close>

section \<open>Comparison\<close>

definition f64_is_nan :: "u64 \<Rightarrow> bool" where
  "f64_is_nan b \<longleftrightarrow> unat b mod 2 ^ 63 > 0x7FF0000000000000"

definition f64_is_finite :: "u64 \<Rightarrow> bool" where
  "f64_is_finite b \<longleftrightarrow> unat b mod 2 ^ 63 < 0x7FF0000000000000"

definition f64_key :: "u64 \<Rightarrow> int" where
  "f64_key b = (if unat b < 2 ^ 63 then int (unat b) else - int (unat b mod 2 ^ 63))"

definition f64_less :: "u64 \<Rightarrow> u64 \<Rightarrow> bool" where
  "f64_less a b \<longleftrightarrow> \<not> f64_is_nan a \<and> \<not> f64_is_nan b \<and> f64_key a < f64_key b"

definition f64_le :: "u64 \<Rightarrow> u64 \<Rightarrow> bool" where
  "f64_le a b \<longleftrightarrow> \<not> f64_is_nan a \<and> \<not> f64_is_nan b \<and> f64_key a \<le> f64_key b"

lemma f64_le_trans: "f64_le a b \<Longrightarrow> f64_le b c \<Longrightarrow> f64_le a c"
  by (auto simp: f64_le_def)

section \<open>Rounding\<close>

definition f64_nan :: u64 where "f64_nan = 0x7FF8000000000000"
definition f64_infinity :: u64 where "f64_infinity = 0x7FF0000000000000"

definition f64_negative :: "u64 \<Rightarrow> bool" where
  "f64_negative b \<longleftrightarrow> unat b \<ge> 2 ^ 63"

text \<open>The magnitude of a finite double is \<open>m * 2 ^ e / 2 ^ 1074\<close>.\<close>

definition f64_parts :: "u64 \<Rightarrow> nat \<times> nat" where
  "f64_parts b =
     (let k = unat b mod 2 ^ 63; e = k div 2 ^ 52; m = k mod 2 ^ 52
      in if e = 0 then (m, 0) else (2 ^ 52 + m, e - 1))"

definition f64_num :: "u64 \<Rightarrow> nat" where
  "f64_num b = (case f64_parts b of (m, e) \<Rightarrow> m * 2 ^ e)"

definition div_round :: "nat \<Rightarrow> nat \<Rightarrow> nat" where
  "div_round n d =
     (let q = n div d; r = n mod d
      in if 2 * r > d \<or> 2 * r = d \<and> odd q then q + 1 else q)"

text \<open>The double nearest to \<open>n / d\<close>: the exponent first, from the binary lengths of \<open>n\<close> and of \<open>d\<close>.\<close>

definition f64_of_ratio :: "nat \<Rightarrow> nat \<Rightarrow> u64" where
  "f64_of_ratio n d =
     (let N = n * 2 ^ 1074;
          guess = floorlog 2 N - floorlog 2 d - 53;
          e = (if N div (d * 2 ^ guess) < 2 ^ 53 then guess else guess + 1);
          m = div_round N (d * 2 ^ e);
          k = (if m < 2 ^ 52 then m else e * 2 ^ 52 + m)
      in if k \<ge> 0x7FF0000000000000 then f64_infinity else of_nat k)"

definition f64_with_sign :: "bool \<Rightarrow> u64 \<Rightarrow> u64" where
  "f64_with_sign negative b = (if negative then b OR 0x8000000000000000 else b)"

section \<open>Arithmetic and conversions\<close>

definition f64_mul :: "u64 \<Rightarrow> u64 \<Rightarrow> u64" where
  "f64_mul a b =
     (let s = (f64_negative a \<noteq> f64_negative b)
      in if f64_is_nan a \<or> f64_is_nan b then f64_nan
         else if \<not> f64_is_finite a \<or> \<not> f64_is_finite b
         then (if f64_key a = 0 \<or> f64_key b = 0 then f64_nan else f64_with_sign s f64_infinity)
         else f64_with_sign s (f64_of_ratio (f64_num a * f64_num b) (2 ^ 2148)))"

definition f64_div :: "u64 \<Rightarrow> u64 \<Rightarrow> u64" where
  "f64_div a b =
     (let s = (f64_negative a \<noteq> f64_negative b)
      in if f64_is_nan a \<or> f64_is_nan b then f64_nan
         else if \<not> f64_is_finite a
         then (if f64_is_finite b then f64_with_sign s f64_infinity else f64_nan)
         else if \<not> f64_is_finite b then f64_with_sign s 0
         else if f64_key b = 0 then (if f64_key a = 0 then f64_nan else f64_with_sign s f64_infinity)
         else f64_with_sign s (f64_of_ratio (f64_num a) (f64_num b)))"

text \<open>The sum of two doubles that are not negative.\<close>

definition f64_add_pos :: "u64 \<Rightarrow> u64 \<Rightarrow> u64" where
  "f64_add_pos a b =
     (if f64_is_nan a \<or> f64_is_nan b then f64_nan
      else if \<not> f64_is_finite a \<or> \<not> f64_is_finite b then f64_infinity
      else f64_of_ratio (f64_num a + f64_num b) (2 ^ 1074))"

definition f64_of_u64 :: "u64 \<Rightarrow> u64" where
  "f64_of_u64 v = f64_of_ratio (unat v) 1"

text \<open>\<open>as u64\<close> drops the fraction and saturates.\<close>

definition f64_to_u64 :: "u64 \<Rightarrow> u64" where
  "f64_to_u64 b =
     (if f64_is_nan b \<or> f64_negative b then 0
      else if \<not> f64_is_finite b then - 1
      else of_nat (min (f64_num b div 2 ^ 1074) (2 ^ 64 - 1)))"

section \<open>Printing\<close>

text \<open>\<open>k\<close> digits: \<open>d\<close> with \<open>d * 10 ^ up / 10 ^ down\<close> next to \<open>n / 2 ^ 1074\<close>, below or above, the nearer of those
  that read back, the upper one in a tie.\<close>

definition digits_near :: "u64 \<Rightarrow> nat \<Rightarrow> nat \<Rightarrow> nat option" where
  "digits_near b up down =
     (let n = f64_num b * 10 ^ down; d = 2 ^ 1074 * 10 ^ up; lo = n div d; hi = lo + 1;
          back = (\<lambda>x. f64_of_ratio (x * 10 ^ up) (10 ^ down) = b)
      in if n mod d = 0 then Some lo
         else if back lo \<and> (\<not> back hi \<or> 2 * (n mod d) < d) then Some lo
         else if back hi then Some hi else None)"

text \<open>Decimals are tried from the coarsest position; every double has at most 1074 of them.\<close>

fun shortest_fraction :: "u64 \<Rightarrow> nat \<Rightarrow> nat \<Rightarrow> nat \<times> nat" where
  "shortest_fraction b down 0 = (f64_num b * 10 ^ down div 2 ^ 1074, down)"
| "shortest_fraction b down (Suc fuel) =
     (case digits_near b 0 down of
        Some x \<Rightarrow> (x, down)
      | None \<Rightarrow> shortest_fraction b (Suc down) fuel)"

fun shortest_digits :: "u64 \<Rightarrow> nat \<Rightarrow> nat \<times> nat" where
  "shortest_digits b 0 = shortest_fraction b 0 1074"
| "shortest_digits b (Suc up) =
     (case digits_near b (Suc up) 0 of
        Some x \<Rightarrow> if x = 0 then shortest_digits b up else (x * 10 ^ Suc up, 0)
      | None \<Rightarrow> shortest_digits b up)"

definition fraction_text :: "nat \<Rightarrow> nat \<Rightarrow> text" where
  "fraction_text x down =
     (let t = decimal (x mod 10 ^ down) in replicate (down - length t) 48 @ t)"

definition f64_display :: "u64 \<Rightarrow> text" where
  "f64_display b =
     (if f64_is_nan b then ascii ''NaN''
      else
        (if f64_negative b then ascii ''-'' else []) @
        (if \<not> f64_is_finite b then ascii ''inf''
         else let m = b AND 0x7FFFFFFFFFFFFFFF; (x, down) = shortest_digits m 308
              in if down = 0 then decimal x
                 else decimal (x div 10 ^ down) @ ascii ''.'' @ fraction_text x down))"

end
