(* ===== verification/Mcp_Trackers.thy ===== *)
theory Mcp_Trackers
  imports Json_Rpc Doubles
begin

text \<open>
  The small registries of the MCP layer (\<open>src/src/compat/mcp2025.rs\<close>): resource subscriptions,
  resource templates, progress and notifications. Every async method holds its lock to the end and is
  one step; a broadcast channel is the list of what was sent. A double is its bit pattern with the
  comparison of IEEE 754.
\<close>

section \<open>Doubles\<close>

definition F64_ZERO :: u64 where "F64_ZERO = 0"
definition F64_ONE :: u64 where "F64_ONE = 0x3FF0000000000000"

definition f64_clamp :: "u64 \<Rightarrow> u64 \<Rightarrow> u64 \<Rightarrow> u64" where
  "f64_clamp x lo hi =
     (let y = (if f64_less x lo then lo else x)
      in if f64_less hi y then hi else y)"

definition unit_progress :: "u64 \<Rightarrow> bool" where
  "unit_progress p \<longleftrightarrow> f64_is_nan p \<or> \<not> f64_less p F64_ZERO \<and> \<not> f64_less F64_ONE p"

lemma f64_constants: "\<not> f64_is_nan F64_ZERO" "\<not> f64_is_nan F64_ONE" "f64_key F64_ZERO = 0"
  "f64_key F64_ONE = 0x3FF0000000000000"
  by (simp_all add: f64_is_nan_def f64_key_def F64_ZERO_def F64_ONE_def)

lemma unit_progress_clamp: "unit_progress (f64_clamp p F64_ZERO F64_ONE)"
  by (auto simp: unit_progress_def f64_clamp_def f64_less_def Let_def f64_constants)

lemma unit_progress_ends: "unit_progress F64_ZERO" "unit_progress F64_ONE"
  by (auto simp: unit_progress_def f64_less_def f64_constants)

section \<open>Subscriptions\<close>

definition DEFAULT_MAX_SUBSCRIBERS_PER_RESOURCE :: nat where
  "DEFAULT_MAX_SUBSCRIBERS_PER_RESOURCE = 1024"

record subscription_tracker =
  sb_max :: nat
  sb_subscriptions :: "(text, text list) hmap"

definition tracker_with_max :: "nat \<Rightarrow> subscription_tracker" where
  "tracker_with_max n = \<lparr>sb_max = n, sb_subscriptions = []\<rparr>"

definition tracker_new :: subscription_tracker where
  "tracker_new = tracker_with_max DEFAULT_MAX_SUBSCRIBERS_PER_RESOURCE"

definition get_subscribers :: "subscription_tracker \<Rightarrow> text \<Rightarrow> text list" where
  "get_subscribers s uri = (case hm_get (sb_subscriptions s) uri of None \<Rightarrow> [] | Some ids \<Rightarrow> ids)"

definition tracker_subscribe ::
  "text \<Rightarrow> text \<Rightarrow> subscription_tracker \<Rightarrow> bool \<times> subscription_tracker" where
  "tracker_subscribe uri who s =
     (let subscribers = get_subscribers s uri;
          entered = s\<lparr>sb_subscriptions := hm_insert uri subscribers (sb_subscriptions s)\<rparr>
      in if who \<in> set subscribers then (True, entered)
         else if length subscribers \<ge> sb_max s then (False, entered)
         else (True, s\<lparr>sb_subscriptions := hm_insert uri (subscribers @ [who]) (sb_subscriptions s)\<rparr>))"

definition tracker_unsubscribe ::
  "text \<Rightarrow> text \<Rightarrow> subscription_tracker \<Rightarrow> bool \<times> subscription_tracker" where
  "tracker_unsubscribe uri who s =
     (case hm_get (sb_subscriptions s) uri of
        None \<Rightarrow> (True, s)
      | Some subscribers \<Rightarrow>
          let kept = filter (\<lambda>i. i \<noteq> who) subscribers;
              removed = length kept < length subscribers;
              m = hm_insert uri kept (sb_subscriptions s)
          in (removed, s\<lparr>sb_subscriptions := (if kept = [] then hm_remove uri m else m)\<rparr>))"

definition is_subscribed :: "subscription_tracker \<Rightarrow> text \<Rightarrow> text \<Rightarrow> bool" where
  "is_subscribed s uri who \<longleftrightarrow> who \<in> set (get_subscribers s uri)"

definition subscription_count :: "subscription_tracker \<Rightarrow> text \<Rightarrow> nat" where
  "subscription_count s uri = length (get_subscribers s uri)"

definition tracker_clear :: "subscription_tracker \<Rightarrow> subscription_tracker" where
  "tracker_clear s = s\<lparr>sb_subscriptions := []\<rparr>"

datatype tracker_op = TrSubscribe "text" "text" | TrUnsubscribe "text" "text" | TrClear

definition tracker_step :: "tracker_op \<Rightarrow> subscription_tracker \<Rightarrow> subscription_tracker" where
  "tracker_step oper s =
     (case oper of
        TrSubscribe uri who \<Rightarrow> snd (tracker_subscribe uri who s)
      | TrUnsubscribe uri who \<Rightarrow> snd (tracker_unsubscribe uri who s)
      | TrClear \<Rightarrow> tracker_clear s)"

definition tracker_inv :: "subscription_tracker \<Rightarrow> bool" where
  "tracker_inv s \<longleftrightarrow> (\<forall>uri. distinct (get_subscribers s uri) \<and> length (get_subscribers s uri) \<le> sb_max s)"

lemma subscribers_after_subscribe:
  "get_subscribers (snd (tracker_subscribe uri who s)) u =
     (if u = uri \<and> who \<notin> set (get_subscribers s uri) \<and> length (get_subscribers s uri) < sb_max s
      then get_subscribers s u @ [who] else get_subscribers s u)"
  by (auto simp: tracker_subscribe_def get_subscribers_def Let_def)

lemma subscribers_after_unsubscribe:
  "get_subscribers (snd (tracker_unsubscribe uri who s)) u =
     (if u = uri then filter (\<lambda>i. i \<noteq> who) (get_subscribers s u) else get_subscribers s u)"
  by (auto simp: tracker_unsubscribe_def get_subscribers_def Let_def split: option.splits)

lemma subscribe_accepted:
  "fst (tracker_subscribe uri who s) \<longleftrightarrow>
     who \<in> set (get_subscribers s uri) \<or> length (get_subscribers s uri) < sb_max s"
  by (simp add: tracker_subscribe_def Let_def)

lemma tracker_max_step: "sb_max (tracker_step oper s) = sb_max s"
  by (auto simp: tracker_step_def tracker_subscribe_def tracker_unsubscribe_def tracker_clear_def Let_def
      split: tracker_op.splits option.splits)

lemma tracker_inv_step: "tracker_inv s \<Longrightarrow> tracker_inv (tracker_step oper s)"
proof (cases oper)
  case (TrUnsubscribe uri who)
  assume "tracker_inv s"
  with TrUnsubscribe show ?thesis
    using tracker_max_step [of oper s]
    by (simp add: tracker_inv_def tracker_step_def subscribers_after_unsubscribe)
       (metis length_filter_le le_trans)
next
  case (TrSubscribe uri who)
  assume "tracker_inv s"
  with TrSubscribe show ?thesis
    using tracker_max_step [of oper s]
    by (auto simp: tracker_inv_def tracker_step_def subscribers_after_subscribe)
next
  case TrClear
  then show ?thesis by (simp add: tracker_inv_def tracker_step_def tracker_clear_def get_subscribers_def)
qed

lemma tracker_inv_run: "tracker_inv s \<Longrightarrow> tracker_inv (fold tracker_step ops s) \<and>
    sb_max (fold tracker_step ops s) = sb_max s"
  by (induction ops arbitrary: s) (auto simp: tracker_inv_step tracker_max_step)

text \<open>Subscriptions. In every history of the tracker no resource has a repeated subscriber or more
  than the limit; a subscription is refused exactly when the resource is full of others, an accepted
  one is in force afterwards, an ended one is not, and neither touches any other subscription.\<close>

theorem subscriptions_exact:
  fixes ops n
  shows "let s = fold tracker_step ops (tracker_with_max n)
    in distinct (get_subscribers s u) \<and> subscription_count s u \<le> n \<and>
      (fst (tracker_subscribe uri who s) \<longleftrightarrow> is_subscribed s uri who \<or> subscription_count s uri < n) \<and>
      (is_subscribed (snd (tracker_subscribe uri who s)) u w \<longleftrightarrow>
         is_subscribed s u w \<or> u = uri \<and> w = who \<and> subscription_count s uri < n) \<and>
      (is_subscribed (snd (tracker_unsubscribe uri who s)) u w \<longleftrightarrow>
         is_subscribed s u w \<and> \<not> (u = uri \<and> w = who))"
proof -
  define s where "s = fold tracker_step ops (tracker_with_max n)"
  have "tracker_inv (tracker_with_max n)"
    by (simp add: tracker_inv_def tracker_with_max_def get_subscribers_def)
  from tracker_inv_run [OF this, of ops]
  have "tracker_inv s" "sb_max s = n" by (simp_all add: s_def tracker_with_max_def)
  then show ?thesis
    unfolding Let_def s_def [symmetric]
    by (auto simp: tracker_inv_def subscription_count_def is_subscribed_def subscribe_accepted
        subscribers_after_subscribe subscribers_after_unsubscribe)
qed

section \<open>Resource templates\<close>

record resource_template =
  tm_uri_template :: "text"
  tm_name :: "text"
  tm_description :: "text option"
  tm_mime_type :: "text option"

definition template_new :: "text \<Rightarrow> text \<Rightarrow> resource_template" where
  "template_new uri_template name =
     \<lparr>tm_uri_template = uri_template, tm_name = name, tm_description = None, tm_mime_type = None\<rparr>"

definition template_with_description :: "text \<Rightarrow> resource_template \<Rightarrow> resource_template" where
  "template_with_description t m = m\<lparr>tm_description := Some t\<rparr>"

definition template_with_mime_type :: "text \<Rightarrow> resource_template \<Rightarrow> resource_template" where
  "template_with_mime_type t m = m\<lparr>tm_mime_type := Some t\<rparr>"

record template_param =
  tp_name :: "text"
  tp_value :: "text"

text \<open>The inner loops: a name up to its closing brace, and a value up to the next literal.\<close>

fun template_name :: "text \<Rightarrow> text \<times> text" where
  "template_name [] = ([], [])"
| "template_name (c # cs) =
     (if c = 125 then ([], cs) else let (n, rest) = template_name cs in (c # n, rest))"

definition take_value :: "nat option \<Rightarrow> text \<Rightarrow> text \<times> text" where
  "take_value stop uri = (takeWhile (\<lambda>c. Some c \<noteq> stop) uri, dropWhile (\<lambda>c. Some c \<noteq> stop) uri)"

definition peek :: "text \<Rightarrow> nat option" where
  "peek cs = (case cs of [] \<Rightarrow> None | c # _ \<Rightarrow> Some c)"

lemma template_name_length: "length (snd (template_name cs)) \<le> length cs"
  by (induction cs) (auto simp: split_beta)

function placeholders_loop :: "text \<Rightarrow> text list" where
  "placeholders_loop [] = []"
| "placeholders_loop (c # cs) =
     (if c = 123 then
        let (n, rest) = template_name cs
        in if n \<noteq> [] then n # placeholders_loop rest else placeholders_loop rest
      else placeholders_loop cs)"
  by pat_completeness auto

termination placeholders_loop
proof (relation "measure length", simp, goal_cases)
  case (1 c cs x n rest)
  then show ?case using template_name_length [of cs] by (metis in_measure le_imp_less_Suc length_Cons snd_conv)
next
  case (2 c cs x n rest)
  then show ?case using template_name_length [of cs] by (metis in_measure le_imp_less_Suc length_Cons snd_conv)
next
  case (3 c cs)
  then show ?case by simp
qed

definition placeholders :: "resource_template \<Rightarrow> text list" where
  "placeholders t = placeholders_loop (tm_uri_template t)"

function extract_loop :: "text \<Rightarrow> text \<Rightarrow> template_param list \<Rightarrow> template_param list option" where
  "extract_loop [] uri params = (if uri = [] then Some params else None)"
| "extract_loop (tc # ts) uri params =
     (if tc = 123 then
        let (n, rest) = template_name ts;
            (v, uri') = take_value (peek rest) uri
        in extract_loop rest uri'
             (if n \<noteq> [] then params @ [\<lparr>tp_name = n, tp_value = v\<rparr>] else params)
      else case uri of
             [] \<Rightarrow> None
           | uc # us \<Rightarrow> if uc = tc then extract_loop ts us params else None)"
  by pat_completeness auto

termination extract_loop
proof (relation "measure (\<lambda>(t, _, _). length t)", simp, goal_cases)
  case (1 tc ts uri params x n rest)
  then show ?case
    using template_name_length [of ts]
    by (simp add: prod_eq_iff)
next
  case (2 tc ts uri params uc us)
  then show ?case by simp
qed

definition extract_params :: "text \<Rightarrow> text \<Rightarrow> template_param list option" where
  "extract_params uri template = extract_loop template uri []"

type_synonym template_registry = "resource_template list"

definition template_register :: "resource_template \<Rightarrow> template_registry \<Rightarrow> template_registry" where
  "template_register t reg = reg @ [t]"

definition template_unregister :: "text \<Rightarrow> template_registry \<Rightarrow> bool \<times> template_registry" where
  "template_unregister uri reg =
     (let kept = filter (\<lambda>t. tm_uri_template t \<noteq> uri) reg in (length kept < length reg, kept))"

fun template_match_uri ::
  "template_registry \<Rightarrow> text \<Rightarrow> (resource_template \<times> template_param list) option" where
  "template_match_uri [] uri = None"
| "template_match_uri (t # ts) uri =
     (case extract_params uri (tm_uri_template t) of
        Some params \<Rightarrow> Some (t, params)
      | None \<Rightarrow> template_match_uri ts uri)"

text \<open>A template read as literals and named holes, and what filling its holes gives.\<close>

datatype template_seg = Literal nat | Hole "text"

function template_segs :: "text \<Rightarrow> template_seg list" where
  "template_segs [] = []"
| "template_segs (c # cs) =
     (if c = 123 then let (n, rest) = template_name cs in Hole n # template_segs rest
      else Literal c # template_segs cs)"
  by pat_completeness auto

termination template_segs
proof (relation "measure length", simp, goal_cases)
  case (1 c cs x n rest)
  then show ?case using template_name_length [of cs] by (metis in_measure le_imp_less_Suc length_Cons snd_conv)
next
  case (2 c cs)
  then show ?case by simp
qed

fun fill_segs :: "template_seg list \<Rightarrow> text list \<Rightarrow> text" where
  "fill_segs [] vs = []"
| "fill_segs (Literal c # ss) vs = c # fill_segs ss vs"
| "fill_segs (Hole n # ss) vs = hd vs @ fill_segs ss (tl vs)"

lemma take_value_append: "take_value stop uri = (v, rest) \<Longrightarrow> v @ rest = uri"
  by (auto simp: take_value_def)

lemma extract_loop_sound:
  assumes "extract_loop t uri params = Some ps" and "Hole [] \<notin> set (template_segs t)"
  shows "\<exists>qs. ps = params @ qs \<and> fill_segs (template_segs t) (map tp_value qs) = uri \<and>
    map tp_name qs = placeholders_loop t"
  using assms
proof (induction t uri params rule: extract_loop.induct)
  case (1 uri params)
  then show ?case by (auto split: if_splits)
next
  case (2 tc ts uri params)
  show ?case
  proof (cases "tc = 123")
    case True
    obtain n rest where n: "template_name ts = (n, rest)" by (cases "template_name ts")
    obtain v uri' where v: "take_value (peek rest) uri = (v, uri')" by (cases "take_value (peek rest) uri")
    have segs: "template_segs (tc # ts) = Hole n # template_segs rest" using True n by simp
    with "2.prems"(2) have holes: "n \<noteq> []" "Hole [] \<notin> set (template_segs rest)" by auto
    then have "extract_loop rest uri' (params @ [\<lparr>tp_name = n, tp_value = v\<rparr>]) = Some ps"
      using "2.prems"(1) True n v by simp
    then obtain qs where qs: "ps = (params @ [\<lparr>tp_name = n, tp_value = v\<rparr>]) @ qs"
      "fill_segs (template_segs rest) (map tp_value qs) = uri'" "map tp_name qs = placeholders_loop rest"
      using "2.IH"(1) [OF True n [symmetric] refl v [symmetric] refl] holes by auto
    moreover have "v @ uri' = uri" using take_value_append [OF v] .
    ultimately show ?thesis
      using True n holes segs by (intro exI [of _ "\<lparr>tp_name = n, tp_value = v\<rparr> # qs"]) simp
  next
    case False
    with "2.prems" obtain us where us: "uri = tc # us" "extract_loop ts us params = Some ps"
      by (auto split: list.splits if_splits)
    with "2.IH"(2) [OF False us(1)] "2.prems"(2) False obtain qs where
      "ps = params @ qs" "fill_segs (template_segs ts) (map tp_value qs) = us"
      "map tp_name qs = placeholders_loop ts" by auto
    with False us show ?thesis by auto
  qed
qed

text \<open>Template parameters. Whatever parameters are extracted from a URI, filling them into the
  template gives back that URI, character by character, and their names are the template's
  placeholders in order; the parameters reported by the registry are those of the first template
  that matches.\<close>

theorem template_params_rebuild:
  assumes "extract_params uri (tm_uri_template t) = Some ps"
    and "Hole [] \<notin> set (template_segs (tm_uri_template t))"
  shows "fill_segs (template_segs (tm_uri_template t)) (map tp_value ps) = uri \<and>
    map tp_name ps = placeholders t \<and>
    (list_all (\<lambda>u. extract_params uri (tm_uri_template u) = None) us \<longrightarrow>
      template_match_uri (us @ t # ts) uri = Some (t, ps))"
proof -
  have "list_all (\<lambda>u. extract_params uri (tm_uri_template u) = None) us \<Longrightarrow>
      template_match_uri (us @ t # ts) uri = Some (t, ps)"
    using assms(1) by (induction us) simp_all
  then show ?thesis
    using extract_loop_sound [OF assms(1) [unfolded extract_params_def] assms(2)]
    by (auto simp: placeholders_def)
qed

definition sample_template :: resource_template where
  "sample_template =
     \<lparr>tm_uri_template = ascii ''db://{table}/{row}'', tm_name = ascii ''rows'', tm_description = None,
      tm_mime_type = None\<rparr>"

lemma template_params_rebuild_witness:
  "\<exists>ps. extract_params (ascii ''db://users/7'') (tm_uri_template sample_template) = Some ps \<and>
     map tp_name ps = placeholders sample_template"
proof -
  have "extract_params (ascii ''db://users/7'') (tm_uri_template sample_template) \<noteq> None" by code_simp
  moreover have "Hole [] \<notin> set (template_segs (tm_uri_template sample_template))" by code_simp
  ultimately show ?thesis using template_params_rebuild by blast
qed

section \<open>Progress\<close>

record progress_notification =
  pn_progress_token :: "text"
  pn_progress :: u64
  pn_total :: "u64 option"

record progress_state =
  ps_token :: "text"
  ps_progress :: u64
  ps_total :: "u64 option"
  ps_completed :: bool

record progress_tracker =
  pt_states :: "(text, progress_state) hmap"
  pt_sent :: "progress_notification list"

definition progress_new :: progress_tracker where
  "progress_new = \<lparr>pt_states = [], pt_sent = []\<rparr>"

definition progress_start :: "text \<Rightarrow> u64 option \<Rightarrow> progress_tracker \<Rightarrow> progress_tracker" where
  "progress_start token n p =
     p\<lparr>pt_states := hm_insert token
         \<lparr>ps_token = token, ps_progress = F64_ZERO, ps_total = n, ps_completed = False\<rparr> (pt_states p)\<rparr>"

definition progress_report :: "text \<Rightarrow> progress_state \<Rightarrow> progress_tracker \<Rightarrow> progress_tracker" where
  "progress_report token st p =
     p\<lparr>pt_states := hm_insert token st (pt_states p),
       pt_sent := pt_sent p @ [\<lparr>pn_progress_token = token, pn_progress = ps_progress st,
                                 pn_total = ps_total st\<rparr>]\<rparr>"

definition progress_update :: "text \<Rightarrow> u64 \<Rightarrow> progress_tracker \<Rightarrow> bool \<times> progress_tracker" where
  "progress_update token x p =
     (case hm_get (pt_states p) token of
        None \<Rightarrow> (False, p)
      | Some st \<Rightarrow>
          if \<not> ps_completed st
          then (True, progress_report token (st\<lparr>ps_progress := f64_clamp x F64_ZERO F64_ONE\<rparr>) p)
          else (False, p))"

definition progress_complete :: "text \<Rightarrow> progress_tracker \<Rightarrow> bool \<times> progress_tracker" where
  "progress_complete token p =
     (case hm_get (pt_states p) token of
        None \<Rightarrow> (False, p)
      | Some st \<Rightarrow>
          if \<not> ps_completed st
          then (True, progress_report token (st\<lparr>ps_progress := F64_ONE, ps_completed := True\<rparr>) p)
          else (False, p))"

definition progress_remove :: "text \<Rightarrow> progress_tracker \<Rightarrow> progress_tracker" where
  "progress_remove token p = p\<lparr>pt_states := hm_remove token (pt_states p)\<rparr>"

definition is_tracking :: "progress_tracker \<Rightarrow> text \<Rightarrow> bool" where
  "is_tracking p token \<longleftrightarrow> hm_contains (pt_states p) token"

datatype progress_op = PrStart "text" "u64 option" | PrUpdate "text" u64 | PrComplete "text"
  | PrRemove "text"

definition progress_step :: "progress_op \<Rightarrow> progress_tracker \<Rightarrow> progress_tracker" where
  "progress_step oper p =
     (case oper of
        PrStart t n \<Rightarrow> progress_start t n p
      | PrUpdate t x \<Rightarrow> snd (progress_update t x p)
      | PrComplete t \<Rightarrow> snd (progress_complete t p)
      | PrRemove t \<Rightarrow> progress_remove t p)"

definition progress_inv :: "progress_tracker \<Rightarrow> bool" where
  "progress_inv p \<longleftrightarrow>
     (\<forall>t st. hm_get (pt_states p) t = Some st \<longrightarrow> ps_token st = t \<and> unit_progress (ps_progress st) \<and>
        (ps_completed st \<longrightarrow> ps_progress st = F64_ONE)) \<and>
     (\<forall>n \<in> set (pt_sent p). unit_progress (pn_progress n))"

lemma progress_inv_report:
  assumes "progress_inv p" and "ps_token st = t" and "unit_progress (ps_progress st)"
    and "ps_completed st \<longrightarrow> ps_progress st = F64_ONE"
  shows "progress_inv (progress_report t st p)"
  using assms by (auto simp: progress_inv_def progress_report_def)

lemma progress_inv_token: "progress_inv p \<Longrightarrow> hm_get (pt_states p) t = Some st \<Longrightarrow> ps_token st = t"
  by (simp add: progress_inv_def)

lemma progress_inv_step: "progress_inv p \<Longrightarrow> progress_inv (progress_step oper p)"
proof (cases oper)
  case (PrUpdate t x)
  assume "progress_inv p"
  with PrUpdate show ?thesis
    by (auto simp: progress_step_def progress_update_def unit_progress_clamp progress_inv_token
        intro!: progress_inv_report split: option.splits)
next
  case (PrComplete t)
  assume "progress_inv p"
  with PrComplete show ?thesis
    by (auto simp: progress_step_def progress_complete_def unit_progress_ends progress_inv_token
        intro!: progress_inv_report split: option.splits)
qed (auto simp: progress_step_def progress_start_def progress_remove_def progress_inv_def
    unit_progress_ends)

text \<open>A completed token stays silent: it sends nothing until it is started again.\<close>

definition completed_at :: "progress_tracker \<Rightarrow> text \<Rightarrow> bool" where
  "completed_at p t \<longleftrightarrow> (\<exists>st. hm_get (pt_states p) t = Some st \<and> ps_completed st)"

definition sent_for :: "text \<Rightarrow> progress_tracker \<Rightarrow> progress_notification list" where
  "sent_for t p = filter (\<lambda>n. pn_progress_token n = t) (pt_sent p)"

lemma silent_step:
  assumes "completed_at p t \<or> \<not> is_tracking p t" and "\<forall>n. oper \<noteq> PrStart t n"
  shows "sent_for t (progress_step oper p) = sent_for t p \<and>
    (completed_at (progress_step oper p) t \<or> \<not> is_tracking (progress_step oper p) t)"
  using assms
  by (cases oper)
     (auto simp: progress_step_def progress_start_def progress_update_def progress_complete_def
       progress_remove_def progress_report_def completed_at_def is_tracking_def hm_contains_def
       sent_for_def split: option.splits)

lemma silent_run:
  "completed_at p t \<or> \<not> is_tracking p t \<Longrightarrow> \<forall>n. PrStart t n \<notin> set ops \<Longrightarrow>
     sent_for t (fold progress_step ops p) = sent_for t p"
proof (induction ops arbitrary: p)
  case (Cons oper ops)
  have fresh: "\<forall>n. oper \<noteq> PrStart t n" using Cons.prems(2) by auto
  from silent_step [OF Cons.prems(1) fresh] Cons.IH [of "progress_step oper p"] Cons.prems(2)
  show ?case by auto
qed simp

lemma progress_inv_run: "progress_inv p \<Longrightarrow> progress_inv (fold progress_step ops p)"
  by (induction ops arbitrary: p) (auto simp: progress_inv_step)

text \<open>Progress reports. In every history each reported value lies between 0 and 1 unless it is
  not a number; completing a tracked request reports exactly 1 and succeeds once; and after that,
  until the token is started again, nothing more is reported for it.\<close>

theorem progress_sound:
  "(\<forall>n \<in> set (pt_sent (fold progress_step ops progress_new)). unit_progress (pn_progress n)) \<and>
   (fst (progress_complete t p) \<longrightarrow>
      pn_progress (last (pt_sent (snd (progress_complete t p)))) = F64_ONE \<and>
      \<not> fst (progress_complete t (snd (progress_complete t p))) \<and>
      ((\<forall>n. PrStart t n \<notin> set later) \<longrightarrow>
        sent_for t (fold progress_step later (snd (progress_complete t p))) =
        sent_for t (snd (progress_complete t p))))"
proof -
  have "progress_inv progress_new" by (simp add: progress_inv_def progress_new_def)
  from progress_inv_run [OF this, of ops]
  have "\<forall>n \<in> set (pt_sent (fold progress_step ops progress_new)). unit_progress (pn_progress n)"
    by (simp add: progress_inv_def)
  moreover have "completed_at (snd (progress_complete t p)) t"
    "pn_progress (last (pt_sent (snd (progress_complete t p)))) = F64_ONE"
    if "fst (progress_complete t p)"
    using that by (auto simp: progress_complete_def progress_report_def completed_at_def split: option.splits)
  moreover have "\<not> fst (progress_complete t q)" if "completed_at q t" for q
    using that by (auto simp: progress_complete_def completed_at_def)
  ultimately show ?thesis using silent_run [of "snd (progress_complete t p)" t later] by blast
qed

lemma progress_sound_witness:
  "let p = progress_start (ascii ''t'') None progress_new
   in sent_for (ascii ''t'')
        (fold progress_step [PrUpdate (ascii ''t'') 0, PrRemove (ascii ''t'')]
          (snd (progress_complete (ascii ''t'') p))) =
      sent_for (ascii ''t'') (snd (progress_complete (ascii ''t'') p))"
proof -
  have "fst (progress_complete (ascii ''t'') (progress_start (ascii ''t'') None progress_new))"
    by (simp add: progress_complete_def progress_start_def progress_new_def)
  then show ?thesis
    using progress_sound [of "[]" "ascii ''t''" "progress_start (ascii ''t'') None progress_new"
        "[PrUpdate (ascii ''t'') 0, PrRemove (ascii ''t'')]"]
    by (simp add: Let_def)
qed

end
