(* ===== verification/Tool_Arguments.thy ===== *)
theory Tool_Arguments
  imports Json_Rpc Schema
begin

text \<open>
  Arguments of a tool call between JSON and shared bytes (\<open>encode_json_arguments\<close> and its helpers,
  and \<open>tool_input_schema_json\<close>, in \<open>src/src/compat/complete_adapter.rs\<close>). Printing a nested value and
  converting a number to a double are the library's.
\<close>

section \<open>Adapter errors\<close>

datatype complete_adapter_error =
    AdapterParseError json_rpc_parse_error
  | UnknownTool "text"
  | AdapterDcpError dcp_error
  | AdapterResourceError "text"
  | PromptError "text"
  | SerializationError "text"
  | InvalidParams "text"
  | InvalidRequest "text"
  | LifecycleNotInitialized
  | LifecycleAlreadyInitialized
  | AdapterCapabilityDenied
  | AdapterCapacityExceeded "text" nat

section \<open>The published schema\<close>

fun json_type_name :: "arg_type \<Rightarrow> text" where
  "json_type_name ArgNull = ascii ''null''"
| "json_type_name ArgBool = ascii ''boolean''"
| "json_type_name ArgI32 = ascii ''integer''"
| "json_type_name ArgI64 = ascii ''integer''"
| "json_type_name ArgF64 = ascii ''number''"
| "json_type_name ArgString = ascii ''string''"
| "json_type_name ArgBytes = ascii ''string''"
| "json_type_name ArgArray = ascii ''array''"
| "json_type_name ArgObject = ascii ''object''"

definition property_json :: "field_def \<Rightarrow> json" where
  "property_json f =
     json_object
       ([(ascii ''type'', JString (json_type_name (fd_field_type f)))] @
        (if fd_field_type f \<in> {ArgString, ArgBytes} \<and> fd_size f > 0
         then [(ascii ''maxLength'', JNumber (PosInt (ucast (fd_size f))))] else []) @
        (case fd_enum_range f of
           None \<Rightarrow> []
         | Some (mn, mx) \<Rightarrow>
             [(ascii ''minimum'', JNumber (PosInt (ucast mn))),
              (ascii ''maximum'', JNumber (PosInt (ucast mx)))]))"

definition tool_input_schema_json :: "input_schema \<Rightarrow> json" where
  "tool_input_schema_json s =
     (let numbered = zip [0..<16] (take 16 (is_fields s));
          properties = jm_of_list (map (\<lambda>(idx, f). (fd_name f, property_json f)) numbered);
          required = map (\<lambda>(idx, f). JString (fd_name f))
            (filter (\<lambda>(idx, f). is_required s idx) numbered)
      in json_object
           ([(ascii ''type'', JString (ascii ''object'')),
             (ascii ''properties'', JObject properties),
             (ascii ''additionalProperties'', JBool False)] @
            (if required \<noteq> [] then [(ascii ''required'', JArray required)] else [])))"

section \<open>Encoding\<close>

record args_library =
  ax_to_vec :: "json \<Rightarrow> text + bytes"
  ax_as_f64 :: "json_number \<Rightarrow> u64 option"

definition mismatch :: complete_adapter_error where
  "mismatch = InvalidParams (ascii ''argument type mismatch'')"

definition out_of_range :: complete_adapter_error where
  "out_of_range = InvalidParams (ascii ''argument out of range'')"

definition too_large :: complete_adapter_error where
  "too_large = InvalidParams (ascii ''argument too large'')"

definition validate_field_capacity :: "field_def \<Rightarrow> nat \<Rightarrow> complete_adapter_error + unit" where
  "validate_field_capacity f minimum =
     (if unat (fd_size f) \<ge> minimum then Inr () else Inl (AdapterDcpError ValidationFailed))"

definition write_field :: "bytes \<Rightarrow> field_def \<Rightarrow> bytes \<Rightarrow> complete_adapter_error + bytes" where
  "write_field buffer f bs =
     (let offset = unat (fd_offset f)
      in bind_result (ok_or (AdapterDcpError OutOfBounds) (usize_checked_add offset (length bs))) (\<lambda>stop.
           if length bs > unat (fd_size f) \<or> stop > length buffer then Inl (AdapterDcpError OutOfBounds)
           else Inr (copy_at offset bs buffer)))"

definition write_printed :: "args_library \<Rightarrow> bytes \<Rightarrow> field_def \<Rightarrow> json \<Rightarrow> complete_adapter_error + bytes" where
  "write_printed lib buffer f v =
     bind_result (map_err SerializationError (ax_to_vec lib v)) (\<lambda>bs.
       if length bs > unat (fd_size f) then Inl too_large else write_field buffer f bs)"

definition json_i64 :: "json \<Rightarrow> i64 option" where
  "json_i64 v = (case v of JNumber n \<Rightarrow> number_as_i64 n | _ \<Rightarrow> None)"

definition json_u64 :: "json \<Rightarrow> u64 option" where
  "json_u64 v = (case v of JNumber n \<Rightarrow> number_as_u64 n | _ \<Rightarrow> None)"

definition json_f64 :: "args_library \<Rightarrow> json \<Rightarrow> u64 option" where
  "json_f64 lib v = (case v of JNumber n \<Rightarrow> ax_as_f64 lib n | _ \<Rightarrow> None)"

definition encode_json_argument ::
  "args_library \<Rightarrow> bytes \<Rightarrow> field_def \<Rightarrow> json \<Rightarrow> complete_adapter_error + bytes" where
  "encode_json_argument lib buffer f v =
     (case fd_field_type f of
        ArgNull \<Rightarrow> if v = JNull then Inr buffer else Inl mismatch
      | ArgBool \<Rightarrow>
          bind_result (validate_field_capacity f 1) (\<lambda>_.
          bind_result (ok_or mismatch (as_bool v)) (\<lambda>b.
            write_field buffer f [if b then 1 else 0]))
      | ArgI32 \<Rightarrow>
          (case fd_enum_range f of
             Some (minimum, maximum) \<Rightarrow>
               bind_result (validate_field_capacity f 1) (\<lambda>_.
               bind_result (ok_or mismatch (json_u64 v)) (\<lambda>u.
                 if unat u < unat minimum \<or> unat u > unat maximum then Inl out_of_range
                 else write_field buffer f [ucast u]))
           | None \<Rightarrow>
               bind_result (validate_field_capacity f 4) (\<lambda>_.
               bind_result (ok_or mismatch (json_i64 v)) (\<lambda>i.
                 if sint i < - (2 ^ 31) \<or> sint i \<ge> 2 ^ 31 then Inl out_of_range
                 else write_field buffer f (le_bytes 4 (ucast i :: u32)))))
      | ArgI64 \<Rightarrow>
          bind_result (validate_field_capacity f 8) (\<lambda>_.
          bind_result (ok_or mismatch (json_i64 v)) (\<lambda>i. write_field buffer f (le_bytes 8 i)))
      | ArgF64 \<Rightarrow>
          bind_result (validate_field_capacity f 8) (\<lambda>_.
          bind_result (ok_or mismatch (json_f64 lib v)) (\<lambda>x. write_field buffer f (le_bytes 8 x)))
      | ArgArray \<Rightarrow> if as_array v = None then Inl mismatch else write_printed lib buffer f v
      | ArgObject \<Rightarrow> if as_object v = None then Inl mismatch else write_printed lib buffer f v
      | _ \<Rightarrow>
          bind_result (ok_or mismatch (as_str v)) (\<lambda>s.
            if text_len s > unat (fd_size f) then Inl too_large
            else write_field buffer f (utf8_bytes s)))"

text \<open>The length of the buffer: the end of the last declared field.\<close>

fun declared_len :: "field_def list \<Rightarrow> nat \<Rightarrow> complete_adapter_error + nat" where
  "declared_len [] max_len = Inr max_len"
| "declared_len (f # fs) max_len =
     (case usize_checked_add (unat (fd_offset f)) (unat (fd_size f)) of
        None \<Rightarrow> Inl (AdapterDcpError OutOfBounds)
      | Some end_ \<Rightarrow> declared_len fs (max max_len end_))"

fun encode_fields ::
  "args_library \<Rightarrow> input_schema \<Rightarrow> json_map \<Rightarrow> nat \<Rightarrow> field_def list \<Rightarrow> bytes \<Rightarrow> u64 \<Rightarrow>
   complete_adapter_error + bytes \<times> u64" where
  "encode_fields lib s arguments idx [] buffer layout = Inr (buffer, layout)"
| "encode_fields lib s arguments idx (f # fs) buffer layout =
     (if idx \<ge> 16 then Inl (AdapterDcpError ValidationFailed)
      else case jm_get arguments (fd_name f) of
          Some v \<Rightarrow>
            bind_result (encode_json_argument lib buffer f v) (\<lambda>buffer'.
              encode_fields lib s arguments (idx + 1) fs buffer'
                (layout OR push_bit (idx * 4) (ucast (arg_type_code (fd_field_type f)))))
        | None \<Rightarrow>
            if is_required s idx then Inl (InvalidParams (ascii ''missing required argument''))
            else encode_fields lib s arguments (idx + 1) fs buffer layout)"

definition encode_json_arguments ::
  "args_library \<Rightarrow> input_schema \<Rightarrow> json option \<Rightarrow> complete_adapter_error + bytes \<times> u64" where
  "encode_json_arguments lib s arguments =
     bind_result
       (case arguments of
          None \<Rightarrow> Inr []
        | Some v \<Rightarrow> ok_or (InvalidParams (ascii ''arguments must be object'')) (as_object v)) (\<lambda>args.
     bind_result (declared_len (is_fields s) 0) (\<lambda>max_len.
       if list_ex (\<lambda>(k, v). k \<notin> set (map fd_name (is_fields s))) args
       then Inl (InvalidParams (ascii ''unknown argument''))
       else encode_fields lib s args 0 (is_fields s) (replicate max_len 0) 0))"

section \<open>What encoding one argument writes\<close>

text \<open>The bytes of a value of a field's type.\<close>

definition field_bytes :: "args_library \<Rightarrow> field_def \<Rightarrow> json \<Rightarrow> bytes \<Rightarrow> bool" where
  "field_bytes lib f v bs \<longleftrightarrow>
     (case fd_field_type f of
        ArgNull \<Rightarrow> v = JNull \<and> bs = []
      | ArgBool \<Rightarrow> (\<exists>b. v = JBool b \<and> bs = [if b then 1 else 0])
      | ArgI32 \<Rightarrow>
          (case fd_enum_range f of
             Some (mn, mx) \<Rightarrow> \<exists>u. json_u64 v = Some u \<and> unat mn \<le> unat u \<and> unat u \<le> unat mx \<and> bs = [ucast u]
           | None \<Rightarrow> \<exists>i. json_i64 v = Some i \<and> - (2 ^ 31) \<le> sint i \<and> sint i < 2 ^ 31 \<and>
               bs = le_bytes 4 (ucast i :: u32))
      | ArgI64 \<Rightarrow> (\<exists>i. json_i64 v = Some i \<and> bs = le_bytes 8 i)
      | ArgF64 \<Rightarrow> (\<exists>x. json_f64 lib v = Some x \<and> bs = le_bytes 8 x)
      | ArgArray \<Rightarrow> (\<exists>vs. v = JArray vs \<and> ax_to_vec lib v = Inr bs)
      | ArgObject \<Rightarrow> (\<exists>m. v = JObject m \<and> ax_to_vec lib v = Inr bs)
      | _ \<Rightarrow> (\<exists>s. v = JString s \<and> bs = utf8_bytes s))"

lemma write_field_ok:
  "write_field buffer f bs = Inr buffer' \<longleftrightarrow>
     length bs \<le> unat (fd_size f) \<and> unat (fd_offset f) + length bs \<le> length buffer \<and>
     unat (fd_offset f) + length bs < 2 ^ 64 \<and> buffer' = copy_at (unat (fd_offset f)) bs buffer"
  by (auto simp: write_field_def Let_def bind_result_eq_Inr usize_checked_add_def)

lemma validate_field_capacity_ok: "validate_field_capacity f n = Inr () \<longleftrightarrow> n \<le> unat (fd_size f)"
  by (simp add: validate_field_capacity_def)

lemma as_bool_Some: "as_bool v = Some b \<longleftrightarrow> v = JBool b"
  by (cases v) (auto simp: as_bool_def)

lemma copy_at_nil [simp]: "copy_at i [] xs = xs"
  by (simp add: copy_at_def)

lemma as_container: "as_array v = None \<longleftrightarrow> (\<forall>vs. v \<noteq> JArray vs)" "as_object v = None \<longleftrightarrow> (\<forall>m. v \<noteq> JObject m)"
  by (cases v; simp add: as_array_def as_object_def)+

lemma write_printed_ok:
  "write_printed lib buffer f v = Inr buffer' \<longleftrightarrow>
     (\<exists>bs. ax_to_vec lib v = Inr bs \<and> write_field buffer f bs = Inr buffer')"
  by (cases "ax_to_vec lib v") (auto simp: write_printed_def write_field_ok)

lemma encode_argument_writes:
  assumes "encode_json_argument lib buffer f v = Inr buffer'"
  shows "\<exists>bs. field_bytes lib f v bs \<and> length bs \<le> unat (fd_size f) \<and>
    (bs \<noteq> [] \<longrightarrow> unat (fd_offset f) + length bs \<le> length buffer) \<and>
    buffer' = copy_at (unat (fd_offset f)) bs buffer"
proof -
  have *: "\<exists>bs. field_bytes lib f v bs \<and> length bs \<le> unat (fd_size f) \<and>
      (bs \<noteq> [] \<longrightarrow> unat (fd_offset f) + length bs \<le> length buffer) \<and>
      buffer' = copy_at (unat (fd_offset f)) bs buffer"
    if "field_bytes lib f v bs" "write_field buffer f bs = Inr buffer'" for bs
    using that by (auto simp: write_field_ok)
  note field = assms [unfolded encode_json_argument_def]
  show ?thesis
  proof (cases "fd_field_type f")
    case ArgNull
    then have "v = JNull" "buffer' = buffer" using field by (simp_all split: if_splits)
    then show ?thesis using ArgNull by (intro exI [of _ "[]"]) (simp add: field_bytes_def)
  next
    case ArgBool
    then obtain b where "as_bool v = Some b" "write_field buffer f [if b then 1 else 0] = Inr buffer'"
      using field by (auto simp: bind_result_eq_Inr)
    then show ?thesis using ArgBool by (intro *) (auto simp: field_bytes_def as_bool_Some)
  next
    case ArgI32
    show ?thesis
    proof (cases "fd_enum_range f")
      case None
      then obtain i where "json_i64 v = Some i" "- (2 ^ 31) \<le> sint i" "sint i < 2 ^ 31"
        "write_field buffer f (le_bytes 4 (ucast i :: u32)) = Inr buffer'"
        using field ArgI32 by (auto simp: bind_result_eq_Inr not_less split: if_splits)
      then show ?thesis using ArgI32 None by (intro *) (auto simp: field_bytes_def)
    next
      case (Some r)
      obtain mn mx where r: "r = (mn, mx)" by (cases r)
      then obtain u where "json_u64 v = Some u" "unat mn \<le> unat u" "unat u \<le> unat mx"
        "write_field buffer f [ucast u] = Inr buffer'"
        using field ArgI32 Some by (auto simp: bind_result_eq_Inr not_less split: if_splits)
      then show ?thesis using ArgI32 Some r by (intro *) (auto simp: field_bytes_def)
    qed
  next
    case ArgI64
    then obtain i where "json_i64 v = Some i" "write_field buffer f (le_bytes 8 i) = Inr buffer'"
      using field by (auto simp: bind_result_eq_Inr)
    then show ?thesis using ArgI64 by (intro *) (auto simp: field_bytes_def)
  next
    case ArgF64
    then obtain x where "json_f64 lib v = Some x" "write_field buffer f (le_bytes 8 x) = Inr buffer'"
      using field by (auto simp: bind_result_eq_Inr)
    then show ?thesis using ArgF64 by (intro *) (auto simp: field_bytes_def)
  next
    case ArgString
    then obtain s where "v = JString s" "write_field buffer f (utf8_bytes s) = Inr buffer'"
      using field by (auto simp: bind_result_eq_Inr split: if_splits)
    then show ?thesis using ArgString by (intro *) (auto simp: field_bytes_def)
  next
    case ArgBytes
    then obtain s where "v = JString s" "write_field buffer f (utf8_bytes s) = Inr buffer'"
      using field by (auto simp: bind_result_eq_Inr split: if_splits)
    then show ?thesis using ArgBytes by (intro *) (auto simp: field_bytes_def)
  next
    case ArgArray
    then obtain bs where "as_array v \<noteq> None" "ax_to_vec lib v = Inr bs" "write_field buffer f bs = Inr buffer'"
      using field by (auto simp: write_printed_ok split: if_splits)
    then show ?thesis using ArgArray by (intro *) (auto simp: field_bytes_def)
  next
    case ArgObject
    then obtain bs where "as_object v \<noteq> None" "ax_to_vec lib v = Inr bs" "write_field buffer f bs = Inr buffer'"
      using field by (auto simp: write_printed_ok split: if_splits)
    then show ?thesis using ArgObject by (intro *) (auto simp: field_bytes_def)
  qed
qed

lemma encode_argument_length:
  assumes "encode_json_argument lib buffer f v = Inr buffer'"
  shows "length buffer' = length buffer"
proof -
  from encode_argument_writes [OF assms] obtain bs where
    "bs \<noteq> [] \<longrightarrow> unat (fd_offset f) + length bs \<le> length buffer"
    "buffer' = copy_at (unat (fd_offset f)) bs buffer" by blast
  then show ?thesis by (cases "bs = []") simp_all
qed

section \<open>The encoded call\<close>

text \<open>A schema whose fields do not overlap, with enumerations on integer fields only and no
  requirement beyond its fields, as the schema's builders make them.\<close>

definition schema_wf :: "input_schema \<Rightarrow> bool" where
  "schema_wf s \<longleftrightarrow>
     (\<forall>i j. i < j \<and> j < length (is_fields s) \<longrightarrow>
        field_end (is_fields s ! i) \<le> unat (fd_offset (is_fields s ! j)) \<or>
        field_end (is_fields s ! j) \<le> unat (fd_offset (is_fields s ! i))) \<and>
     (\<forall>f \<in> set (is_fields s). fd_enum_range f \<noteq> None \<longrightarrow> fd_field_type f = ArgI32) \<and>
     (\<forall>i < 64. is_required s i \<longrightarrow> i < length (is_fields s))"

definition provided :: "json_map \<Rightarrow> field_def \<Rightarrow> json option" where
  "provided arguments f = jm_get arguments (fd_name f)"

text \<open>What the encoder guarantees of the field at \<open>idx\<close>: its tag, and its bytes at its place.\<close>

definition field_encoded ::
  "args_library \<Rightarrow> json_map \<Rightarrow> bytes \<Rightarrow> u64 \<Rightarrow> nat \<Rightarrow> field_def \<Rightarrow> bool" where
  "field_encoded lib arguments buffer layout idx f \<longleftrightarrow>
     (case provided arguments f of
        None \<Rightarrow> layout_nibble layout idx = 0
      | Some v \<Rightarrow> layout_nibble layout idx = arg_type_code (fd_field_type f) \<and>
          (\<exists>bs. field_bytes lib f v bs \<and> length bs \<le> unat (fd_size f) \<and>
             slice (unat (fd_offset f)) (unat (fd_offset f) + length bs) buffer = bs \<and>
             (bs \<noteq> [] \<longrightarrow> unat (fd_offset f) + length bs \<le> length buffer)))"

lemma layout_nibble_or:
  assumes "i < 16" and "j < 16" and "layout_nibble l i = 0"
  shows "layout_nibble (l OR push_bit (i * 4) (ucast (arg_type_code t))) j =
    (if j = i then arg_type_code t else layout_nibble l j)"
proof -
  have "bit (l AND NOT (push_bit (i * 4) 0xF)) k = bit l k" for k
  proof (cases "i * 4 \<le> k \<and> k < i * 4 + 4")
    case True
    then obtain m where m: "k = i * 4 + m" "m < 4" by (metis add_less_cancel_left le_Suc_ex)
    have "\<not> bit (layout_nibble l i) m" by (simp add: assms(3))
    with m have "\<not> bit l k" by (simp add: bit_layout_nibble)
    then show ?thesis by (simp add: bit_and_iff)
  next
    case False
    then have "\<not> bit (push_bit (i * 4) (0xF :: u64)) k"
      by (auto simp: bit_push_bit_iff bit_0xF)
    then show ?thesis by (auto simp: bit_and_iff bit_not_iff dest: bit_imp_le_length)
  qed
  then have "l AND NOT (push_bit (i * 4) 0xF) = l" by (intro bit_eqI) blast
  with layout_nibble_set [OF assms(1,2), of l t] show ?thesis by simp
qed

lemma field_encoded_kept:
  assumes "field_encoded lib arguments buffer layout k g"
    and "field_end g \<le> unat (fd_offset f) \<or> field_end f \<le> unat (fd_offset g)"
    and "length bs \<le> unat (fd_size f)" and "bs \<noteq> [] \<longrightarrow> unat (fd_offset f) + length bs \<le> length buffer"
    and "layout_nibble layout' k = layout_nibble layout k"
  shows "field_encoded lib arguments (copy_at (unat (fd_offset f)) bs buffer) layout' k g"
proof (cases "bs = []")
  case True
  then show ?thesis using assms(1,5) by (simp add: field_encoded_def split: option.splits)
next
  case False
  then have fits: "unat (fd_offset f) + length bs \<le> length buffer" using assms(4) by simp
  have "slice (unat (fd_offset g)) (unat (fd_offset g) + n) (copy_at (unat (fd_offset f)) bs buffer) =
      slice (unat (fd_offset g)) (unat (fd_offset g) + n) buffer" if "n \<le> unat (fd_size g)" for n
    using assms(2,3) that by (intro slice_copy_other [OF fits]) (auto simp: field_end_def)
  then show ?thesis
    using assms(1,5) fits unfolding field_encoded_def
    by (cases "provided arguments g") auto
qed

lemma encode_fields_ok:
  assumes "encode_fields lib s arguments idx fs buffer layout = Inr (buffer', layout')"
    and "schema_wf s" and "fs = drop idx (is_fields s)"
    and "\<And>k. k < idx \<Longrightarrow> k < length (is_fields s) \<Longrightarrow>
      field_encoded lib arguments buffer layout k (is_fields s ! k)"
    and "\<And>k. idx \<le> k \<Longrightarrow> k < 16 \<Longrightarrow> layout_nibble layout k = 0"
    and "idx \<le> length (is_fields s)" and "idx \<le> 16"
  shows "length buffer' = length buffer \<and> length (is_fields s) \<le> 16 \<and>
    (\<forall>k < length (is_fields s). field_encoded lib arguments buffer' layout' k (is_fields s ! k)) \<and>
    (\<forall>k < 16. length (is_fields s) \<le> k \<longrightarrow> layout_nibble layout' k = 0) \<and>
    (\<forall>k. idx \<le> k \<and> k < length (is_fields s) \<and> is_required s k \<longrightarrow>
       provided arguments (is_fields s ! k) \<noteq> None)"
  using assms
proof (induction lib s arguments idx fs buffer layout rule: encode_fields.induct)
  case (1 lib s arguments idx buffer layout)
  then have "idx = length (is_fields s)" by simp
  with 1 show ?case by auto
next
  case (2 lib s arguments idx f fs buffer layout)
  have lt: "idx < length (is_fields s)" and f: "is_fields s ! idx = f"
    and fs: "fs = drop (Suc idx) (is_fields s)"
    using "2.prems"(3) by (metis Cons_nth_drop_Suc drop_eq_Nil2 leI list.distinct(1) list.inject)+
  have small: "\<not> 16 \<le> idx" using "2.prems"(1) by (auto split: if_splits)
  have zero: "layout_nibble layout idx = 0" using "2.prems"(5) small by simp
  show ?case
  proof (cases "jm_get arguments (fd_name f)")
    case None
    then have rest: "\<not> is_required s idx"
      "encode_fields lib s arguments (idx + 1) fs buffer layout = Inr (buffer', layout')"
      using "2.prems"(1) small by (simp_all split: if_splits)
    have now: "field_encoded lib arguments buffer layout idx (is_fields s ! idx)"
      using None zero f by (simp add: field_encoded_def provided_def)
    have "field_encoded lib arguments buffer layout k (is_fields s ! k)" if "k < idx + 1" "k < length (is_fields s)" for k
      using that now "2.prems"(4) by (cases "k = idx") auto
    with "2.IH"(1) [OF small None rest(1) rest(2) "2.prems"(2)] fs lt small "2.prems"(5) rest(1)
    have "length buffer' = length buffer \<and> length (is_fields s) \<le> 16 \<and>
      (\<forall>k < length (is_fields s). field_encoded lib arguments buffer' layout' k (is_fields s ! k)) \<and>
      (\<forall>k < 16. length (is_fields s) \<le> k \<longrightarrow> layout_nibble layout' k = 0) \<and>
      (\<forall>k. idx + 1 \<le> k \<and> k < length (is_fields s) \<and> is_required s k \<longrightarrow>
         provided arguments (is_fields s ! k) \<noteq> None)" by simp
    with rest(1) show ?thesis by (metis Suc_eq_plus1 Suc_leI le_neq_implies_less)
  next
    case (Some v)
    then obtain buffer1 where b1: "encode_json_argument lib buffer f v = Inr buffer1"
      and rest: "encode_fields lib s arguments (idx + 1) fs buffer1
        (layout OR push_bit (idx * 4) (ucast (arg_type_code (fd_field_type f)))) = Inr (buffer', layout')"
      using "2.prems"(1) small by (auto simp: bind_result_eq_Inr)
    let ?layout = "layout OR push_bit (idx * 4) (ucast (arg_type_code (fd_field_type f)))"
    from encode_argument_writes [OF b1] obtain bs where bs: "field_bytes lib f v bs"
      "length bs \<le> unat (fd_size f)" "bs \<noteq> [] \<longrightarrow> unat (fd_offset f) + length bs \<le> length buffer"
      "buffer1 = copy_at (unat (fd_offset f)) bs buffer" by blast
    have nib: "layout_nibble ?layout k = (if k = idx then arg_type_code (fd_field_type f) else layout_nibble layout k)"
      if "k < 16" for k
      using layout_nibble_or [of idx k layout "fd_field_type f"] that small zero by simp
    have now: "field_encoded lib arguments buffer1 ?layout idx f"
      using Some bs nib small
      by (cases "bs = []") (auto simp: field_encoded_def provided_def slice_copy_same)
    have "field_encoded lib arguments buffer1 ?layout k (is_fields s ! k)"
      if "k < idx + 1" "k < length (is_fields s)" for k
    proof (cases "k = idx")
      case True
      then show ?thesis using now f by simp
    next
      case False
      then have k: "k < idx" using that by simp
      have "field_end (is_fields s ! k) \<le> unat (fd_offset f) \<or> field_end f \<le> unat (fd_offset (is_fields s ! k))"
        using "2.prems"(2) k lt f unfolding schema_wf_def by blast
      from field_encoded_kept [OF "2.prems"(4) [OF k that(2)] this bs(2,3)] show ?thesis
        using nib [of k] k small bs(4) by simp
    qed
    moreover have "layout_nibble ?layout k = 0" if "idx + 1 \<le> k" "k < 16" for k
      using nib [OF that(2)] that "2.prems"(5) by simp
    moreover have "length buffer1 = length buffer" using encode_argument_length [OF b1] .
    moreover have "provided arguments (is_fields s ! idx) \<noteq> None"
      using Some f by (simp add: provided_def)
    moreover have "fs = drop (idx + 1) (is_fields s)" "idx + 1 \<le> length (is_fields s)" "idx + 1 \<le> 16"
      using fs lt small by simp_all
    ultimately have "length buffer' = length buffer \<and> length (is_fields s) \<le> 16 \<and>
      (\<forall>k < length (is_fields s). field_encoded lib arguments buffer' layout' k (is_fields s ! k)) \<and>
      (\<forall>k < 16. length (is_fields s) \<le> k \<longrightarrow> layout_nibble layout' k = 0) \<and>
      (\<forall>k. idx + 1 \<le> k \<and> k < length (is_fields s) \<and> is_required s k \<longrightarrow>
         provided arguments (is_fields s ! k) \<noteq> None)"
      using "2.IH"(2) [OF small Some b1 rest "2.prems"(2)] by simp
    with \<open>provided arguments (is_fields s ! idx) \<noteq> None\<close>
    show ?thesis by (metis Suc_eq_plus1 Suc_leI le_neq_implies_less)
  qed
qed

definition data_len :: "input_schema \<Rightarrow> nat" where
  "data_len s = fold (\<lambda>f m. max m (field_end f)) (is_fields s) 0"

lemma declared_len_eq: "declared_len fs m = Inr (fold (\<lambda>f m. max m (field_end f)) fs m)"
  using field_end_checked by (induction fs arbitrary: m) (simp_all add: field_end_def)

lemma fold_max_bounds:
  "m \<le> fold (\<lambda>f m. max m (field_end f)) fs m \<and>
   (\<forall>f \<in> set fs. field_end f \<le> fold (\<lambda>f m. max m (field_end f)) fs m)"
proof (induction fs arbitrary: m)
  case (Cons f fs)
  from Cons [of "max m (field_end f)"] show ?case by auto
qed simp

lemma field_end_data_len: "f \<in> set (is_fields s) \<Longrightarrow> field_end f \<le> data_len s"
  using fold_max_bounds unfolding data_len_def by blast

lemma encode_json_arguments_ok:
  assumes "encode_json_arguments lib s arguments = Inr (buffer, layout)" and "schema_wf s"
  obtains args where "arguments = None \<and> args = [] \<or> arguments = Some (JObject args)"
    and "length buffer = data_len s" and "length (is_fields s) \<le> 16"
    and "\<And>k. k < length (is_fields s) \<Longrightarrow> field_encoded lib args buffer layout k (is_fields s ! k)"
    and "\<And>k. k < 16 \<Longrightarrow> length (is_fields s) \<le> k \<Longrightarrow> layout_nibble layout k = 0"
    and "\<And>k. k < length (is_fields s) \<Longrightarrow> is_required s k \<Longrightarrow> provided args (is_fields s ! k) \<noteq> None"
proof -
  obtain args where args: "arguments = None \<and> args = [] \<or> arguments = Some (JObject args)"
    "encode_fields lib s args 0 (is_fields s) (replicate (data_len s) 0) 0 = Inr (buffer, layout)"
    using assms(1)
    by (cases arguments)
       (auto simp: encode_json_arguments_def bind_result_eq_Inr declared_len_eq data_len_def split: if_splits)
  have zero: "layout_nibble 0 k = 0" for k by (simp add: layout_nibble_def)
  from encode_fields_ok [OF args(2) assms(2)] zero
  have "length buffer = data_len s \<and> length (is_fields s) \<le> 16 \<and>
    (\<forall>k < length (is_fields s). field_encoded lib args buffer layout k (is_fields s ! k)) \<and>
    (\<forall>k < 16. length (is_fields s) \<le> k \<longrightarrow> layout_nibble layout k = 0) \<and>
    (\<forall>k. k < length (is_fields s) \<and> is_required s k \<longrightarrow> provided args (is_fields s ! k) \<noteq> None)"
    by simp
  with args(1) that show thesis by blast
qed

lemma encoded_field_end:
  assumes "field_encoded lib args buffer layout k f" and "provided args f = Some v"
  obtains bs where "layout_nibble layout k = arg_type_code (fd_field_type f)" and "field_bytes lib f v bs"
    and "length bs \<le> unat (fd_size f)"
    and "slice (unat (fd_offset f)) (unat (fd_offset f) + length bs) buffer = bs"
    and "bs \<noteq> [] \<longrightarrow> unat (fd_offset f) + length bs \<le> length buffer"
  using assms by (auto simp: field_encoded_def)

lemma enum_byte_in_range:
  fixes u :: u64
  assumes "unat mn \<le> unat u" and "unat u \<le> unat mx"
  shows "mn \<le> (ucast u :: u8) \<and> ucast u \<le> (mx :: u8)"
proof -
  have "unat u < 256" using assms(2) unat_less_exp [of mx] by simp
  then have "unat (ucast u :: u8) = unat u" by (simp add: unsigned_ucast_eq take_bit_nat_eq_self)
  then show ?thesis using assms by (simp add: word_le_nat_alt)
qed

lemma encoded_field_fits:
  assumes "schema_wf s" and "f \<in> set (is_fields s)" and "length buffer = data_len s"
    and "field_encoded lib args buffer layout k f" and "provided args f = Some v"
  shows "field_fits \<lparr>sa_data = buffer, sa_layout = layout\<rparr> f"
proof (cases "fd_enum_range f")
  case None
  then show ?thesis using field_end_data_len [OF assms(2)] assms(3) by (simp add: field_fits_def)
next
  case (Some r)
  obtain mn mx where r: "r = (mn, mx)" by (cases r)
  have "fd_field_type f = ArgI32" using assms(1,2) Some by (auto simp: schema_wf_def)
  moreover from encoded_field_end [OF assms(4,5)] obtain bs where bs: "field_bytes lib f v bs"
    "slice (unat (fd_offset f)) (unat (fd_offset f) + length bs) buffer = bs"
    "bs \<noteq> [] \<longrightarrow> unat (fd_offset f) + length bs \<le> length buffer" by metis
  ultimately obtain u where "json_u64 v = Some u" and u: "unat mn \<le> unat u" "unat u \<le> unat mx" "bs = [ucast u]"
    using Some r unfolding field_bytes_def by fastforce
  then have u2: "slice (unat (fd_offset f)) (unat (fd_offset f) + 1) buffer = [ucast u]"
    "unat (fd_offset f) + 1 \<le> length buffer"
    using bs by simp_all
  then have nth: "buffer ! unat (fd_offset f) = ucast u"
    using slice_single [of "unat (fd_offset f)" buffer "unat (fd_offset f) + 1"] by simp
  with u2 Some r enum_byte_in_range [OF u(1,2)] field_end_data_len [OF assms(2)] assms(3)
  show ?thesis by (simp add: field_fits_def)
qed

text \<open>Which calls the validator lets through: the data must end with a provided argument, and a
  required field must not be of the null type.\<close>

definition last_provided :: "input_schema \<Rightarrow> json option \<Rightarrow> bool" where
  "last_provided s arguments \<longleftrightarrow> data_len s = 0 \<or>
     (\<exists>args f. arguments = Some (JObject args) \<and> f \<in> set (is_fields s) \<and> provided args f \<noteq> None \<and>
        fd_field_type f \<noteq> ArgNull \<and> field_end f = data_len s)"

definition no_null_required :: "input_schema \<Rightarrow> bool" where
  "no_null_required s \<longleftrightarrow>
     (\<forall>i < length (is_fields s). is_required s i \<longrightarrow> fd_field_type (is_fields s ! i) \<noteq> ArgNull)"

lemma encoded_validates:
  assumes "schema_wf s" and "encode_json_arguments lib s arguments = Inr (buffer, layout)"
  shows "validate_shared_args s \<lparr>sa_data = buffer, sa_layout = layout\<rparr> = Inr () \<longleftrightarrow>
    last_provided s arguments \<and> no_null_required s"
proof -
  let ?a = "\<lparr>sa_data = buffer, sa_layout = layout\<rparr>" and ?fs = "is_fields s"
  from encode_json_arguments_ok [OF assms(2,1)] obtain args where
    args: "arguments = None \<and> args = [] \<or> arguments = Some (JObject args)"
    and len: "length buffer = data_len s" "length ?fs \<le> 16"
    and enc: "\<And>k. k < length ?fs \<Longrightarrow> field_encoded lib args buffer layout k (?fs ! k)"
    and rest: "\<And>k. k < 16 \<Longrightarrow> length ?fs \<le> k \<Longrightarrow> layout_nibble layout k = 0"
    and req: "\<And>k. k < length ?fs \<Longrightarrow> is_required s k \<Longrightarrow> provided args (?fs ! k) \<noteq> None" by metis
  have null: "arg_at ?a k = Some ArgNull" if "layout_nibble layout k = 0" for k
    using that by (simp add: arg_at_def arg_type_from_u8_def)
  have tag: "arg_at ?a k = (if provided args (?fs ! k) = None then Some ArgNull else Some (fd_field_type (?fs ! k)))"
    if "k < length ?fs" for k
    using enc [OF that] null by (auto simp: field_encoded_def arg_at_def split: option.splits)
  have fits: "field_fits ?a (?fs ! k)" if "k < length ?fs" "provided args (?fs ! k) \<noteq> None" for k
    using encoded_field_fits [OF assms(1) _ len(1) enc] that by fastforce
  have present: "present ?a s k \<longleftrightarrow> k < length ?fs \<and> provided args (?fs ! k) \<noteq> None \<and>
      fd_field_type (?fs ! k) \<noteq> ArgNull" for k
    using tag [of k] by (auto simp: present_def split: if_splits)
  have none: "provided args f = None" if "arguments = None" for f
    using that args by (simp add: provided_def)
  have data: "buffer = [] \<or> (\<exists>k. present ?a s k \<and> length buffer \<le> field_end (?fs ! k)) \<longleftrightarrow>
      last_provided s arguments"
  proof -
    have "field_end (?fs ! k) = data_len s \<longleftrightarrow> data_len s \<le> field_end (?fs ! k)" if "k < length ?fs" for k
      using field_end_data_len [of "?fs ! k" s] that by auto
    then have "(\<exists>k. present ?a s k \<and> length buffer \<le> field_end (?fs ! k)) \<longleftrightarrow>
        (\<exists>f \<in> set ?fs. provided args f \<noteq> None \<and> fd_field_type f \<noteq> ArgNull \<and> field_end f = data_len s)"
      unfolding present len(1) by (auto simp: set_conv_nth)
    then show ?thesis using args none len(1) by (auto simp: last_provided_def)
  qed
  have required: "(\<forall>i < 64. is_required s i \<longrightarrow> present ?a s i) \<longleftrightarrow> no_null_required s"
    using assms(1) req len(2) unfolding present no_null_required_def schema_wf_def by auto
  have "\<forall>i < length ?fs. arg_at ?a i = Some ArgNull \<or>
      arg_at ?a i = Some (fd_field_type (?fs ! i)) \<and> field_fits ?a (?fs ! i)"
    using tag fits by auto
  moreover have "\<forall>i < 16. length ?fs \<le> i \<longrightarrow> arg_at ?a i = Some ArgNull" using rest null by blast
  moreover have "args_accepted s ?a \<longleftrightarrow>
      length ?fs \<le> 16 \<and>
      (\<forall>i < length ?fs. arg_at ?a i = Some ArgNull \<or>
        arg_at ?a i = Some (fd_field_type (?fs ! i)) \<and> field_fits ?a (?fs ! i)) \<and>
      (\<forall>i < 16. length ?fs \<le> i \<longrightarrow> arg_at ?a i = Some ArgNull) \<and>
      (buffer = [] \<or> (\<exists>i. present ?a s i \<and> length buffer \<le> field_end (?fs ! i))) \<and>
      (\<forall>i < 64. is_required s i \<longrightarrow> present ?a s i)"
    by (simp add: args_accepted_def)
  ultimately show ?thesis
    using len(2) data required by (simp add: validate_accepts)
qed


definition sample_schema :: input_schema where
  "sample_schema =
     set_required (add_field (add_field input_schema_new (field_new (ascii ''n'') ArgI32 0 4))
       (field_new (ascii ''s'') ArgString 4 8)) 0"

definition sample_library :: args_library where
  "sample_library = \<lparr>ax_to_vec = (\<lambda>v. Inl []), ax_as_f64 = (\<lambda>n. None)\<rparr>"

definition sample_arguments :: json where
  "sample_arguments =
     json_object [(ascii ''n'', JNumber (NegInt (- 5))), (ascii ''s'', JString (ascii ''hi''))]"

lemma sample_schema_fields:
  "is_fields sample_schema = [field_new (ascii ''n'') ArgI32 0 4, field_new (ascii ''s'') ArgString 4 8]"
  by (simp add: sample_schema_def set_required_def add_field_def input_schema_new_def)

lemma sample_schema_required: "is_required sample_schema i \<longleftrightarrow> i = 0"
  by (auto simp: sample_schema_def set_required_def add_field_def input_schema_new_def is_required_def
      and_exp_eq_0_iff_not_bit bit_1_iff)

lemma sample_schema_wf: "schema_wf sample_schema"
  by (auto simp: schema_wf_def sample_schema_fields sample_schema_required field_new_def field_end_def
      less_Suc_eq nth_Cons split: nat.splits)

lemma encode_i32_in_range:
  assumes "fd_field_type f = ArgI32" and "fd_enum_range f = None" and "4 \<le> unat (fd_size f)"
    and "unat (fd_offset f) + 4 \<le> length buffer" and "length buffer < 2 ^ 64"
    and "json_i64 v = Some i" and "- (2 ^ 31) \<le> sint i" and "sint i < 2 ^ 31"
  shows "encode_json_argument lib buffer f v =
    Inr (copy_at (unat (fd_offset f)) (le_bytes 4 (ucast i :: u32)) buffer)"
  using assms
  by (simp add: encode_json_argument_def validate_field_capacity_def ok_or_def write_field_ok)

lemma sample_first_encoded:
  assumes "json_i64 v = Some i" and "- (2 ^ 31) \<le> sint i" and "sint i < 2 ^ 31"
  shows "encode_json_argument sample_library (replicate 12 0) (field_new (ascii ''n'') ArgI32 0 4) v =
    Inr (copy_at 0 (le_bytes 4 (ucast i :: u32)) (replicate 12 0))"
  using encode_i32_in_range [of "field_new (ascii ''n'') ArgI32 0 4" "replicate 12 0", OF _ _ _ _ _ assms]
  by (simp add: field_new_def)

lemma sample_data_len: "data_len sample_schema = 12"
  by (simp add: data_len_def sample_schema_fields field_new_def field_end_def)

lemma encode_object:
  assumes "\<forall>k \<in> fst ` set args. k \<in> set (map fd_name (is_fields s))"
  shows "encode_json_arguments lib s (Some (JObject args)) =
    encode_fields lib s args 0 (is_fields s) (replicate (data_len s) 0) 0"
proof -
  have "\<not> list_ex (\<lambda>(k, v). k \<notin> set (map fd_name (is_fields s))) args"
    using assms by (fastforce simp: list_ex_iff)
  then show ?thesis
    by (simp add: encode_json_arguments_def as_object_def ok_or_def declared_len_eq data_len_def)
qed

lemma sample_names: "set (map fd_name (is_fields sample_schema)) = {ascii ''n'', ascii ''s''}"
  by (simp add: sample_schema_fields field_new_def)

lemma sample_encoded:
  "\<exists>buffer layout. encode_json_arguments sample_library sample_schema (Some sample_arguments) = Inr (buffer, layout)"
proof -
  let ?b = "copy_at 0 (le_bytes 4 (ucast (- 5 :: i64) :: u32)) (replicate 12 0)"
  obtain args where args: "sample_arguments = JObject args" "fst ` set args = {ascii ''n'', ascii ''s''}"
    "jm_get args (ascii ''n'') = Some (JNumber (NegInt (- 5)))"
    "jm_get args (ascii ''s'') = Some (JString (ascii ''hi''))"
    by (simp add: sample_arguments_def json_object_def jm_of_list_get jm_of_list_keys)
  have n: "encode_json_argument sample_library (replicate 12 0) (field_new (ascii ''n'') ArgI32 0 4)
      (JNumber (NegInt (- 5))) = Inr ?b"
    by (rule sample_first_encoded) (simp_all add: json_i64_def number_as_i64_def)
  have "text_len (ascii ''hi'') = 2" by code_simp
  then have s: "encode_json_argument sample_library ?b (field_new (ascii ''s'') ArgString 4 8) (JString (ascii ''hi'')) =
      Inr (copy_at 4 (utf8_bytes (ascii ''hi'')) ?b)"
    by (simp add: encode_json_argument_def field_new_def ok_or_def as_str_def write_field_ok length_utf8_bytes)
  have names: "fd_name (field_new (ascii ''n'') ArgI32 0 4) = ascii ''n''"
    "fd_name (field_new (ascii ''s'') ArgString 4 8) = ascii ''s''"
    by (simp_all add: field_new_def)
  have "encode_json_arguments sample_library sample_schema (Some (JObject args)) =
      encode_fields sample_library sample_schema args 0 (is_fields sample_schema) (replicate 12 0) 0"
    using encode_object [of args sample_schema] args(2) unfolding sample_names sample_data_len by simp
  also have "\<dots> = Inr (copy_at 4 (utf8_bytes (ascii ''hi'')) ?b,
      push_bit (0 * 4) (ucast (arg_type_code ArgI32)) OR push_bit ((0 + 1) * 4) (ucast (arg_type_code ArgString)))"
    unfolding sample_schema_fields encode_fields.simps names args(3,4) option.case n s bind_result.simps
    by (simp add: field_new_def)
  finally show ?thesis unfolding args(1) by blast
qed


text \<open>The optional argument at the end left out: the call encodes and is refused.\<close>

lemma omitted_optional_refused:
  "\<exists>buffer layout arguments.
     encode_json_arguments sample_library sample_schema (Some arguments) = Inr (buffer, layout) \<and>
     \<not> is_required sample_schema 1 \<and> json_get arguments (ascii ''s'') = None \<and>
     validate_shared_args sample_schema \<lparr>sa_data = buffer, sa_layout = layout\<rparr> \<noteq> Inr ()"
proof -
  define arguments where "arguments = json_object [(ascii ''n'', JNumber (PosInt 7))]"
  have json: "arguments = JObject [(ascii ''n'', JNumber (PosInt 7))]"
    by (simp add: arguments_def json_object_def jm_of_list_def)
  have n: "encode_json_argument sample_library (replicate 12 0) (field_new (ascii ''n'') ArgI32 0 4)
      (JNumber (PosInt 7)) = Inr (copy_at 0 (le_bytes 4 (ucast (7 :: i64) :: u32)) (replicate 12 0))"
    by (rule sample_first_encoded) (simp_all add: json_i64_def number_as_i64_def)
  obtain buffer layout where e:
    "encode_json_arguments sample_library sample_schema (Some arguments) = Inr (buffer, layout)"
  proof -
    have names: "fd_name (field_new (ascii ''n'') ArgI32 0 4) = ascii ''n''"
      "fd_name (field_new (ascii ''s'') ArgString 4 8) = ascii ''s''"
      by (simp_all add: field_new_def)
    let ?args = "[(ascii ''n'', JNumber (PosInt 7))]"
    have get: "jm_get ?args (ascii ''n'') = Some (JNumber (PosInt 7))" "jm_get ?args (ascii ''s'') = None"
      by (simp_all add: jm_get_def)
    have "encode_json_arguments sample_library sample_schema (Some (JObject ?args)) =
        encode_fields sample_library sample_schema ?args 0 (is_fields sample_schema) (replicate 12 0) 0"
      using encode_object [of ?args sample_schema] unfolding sample_names sample_data_len by simp
    also have "\<dots> = Inr (copy_at 0 (le_bytes 4 (ucast (7 :: i64) :: u32)) (replicate 12 0),
        push_bit (0 * 4) (ucast (arg_type_code ArgI32)))"
      unfolding sample_schema_fields encode_fields.simps names get option.case n bind_result.simps
      by (simp add: field_new_def sample_schema_required)
    finally show thesis using that unfolding json by blast
  qed
  have "\<not> last_provided sample_schema (Some arguments)"
    using sample_data_len
    by (auto simp: last_provided_def sample_schema_fields json provided_def field_new_def field_end_def jm_get_def)
  then have "validate_shared_args sample_schema \<lparr>sa_data = buffer, sa_layout = layout\<rparr> \<noteq> Inr ()"
    using encoded_validates [OF sample_schema_wf e] by simp
  moreover have "json_get arguments (ascii ''s'') = None" by (simp add: json json_get_def jm_get_def)
  ultimately show ?thesis using e sample_schema_required by auto
qed

section \<open>What the handler reads\<close>

definition argument_reads :: "args_library \<Rightarrow> shared_args \<Rightarrow> field_def \<Rightarrow> json \<Rightarrow> bool" where
  "argument_reads lib a f v \<longleftrightarrow>
     (let offset = unat (fd_offset f)
      in case fd_field_type f of
           ArgNull \<Rightarrow> v = JNull
         | ArgBool \<Rightarrow> (\<exists>b. v = JBool b \<and> read_bytes_at a offset 1 = Inr [if b then 1 else 0])
         | ArgI32 \<Rightarrow>
             (case fd_enum_range f of
                Some (mn, mx) \<Rightarrow> \<exists>u b. json_u64 v = Some u \<and> read_bytes_at a offset 1 = Inr [b] \<and>
                  unat b = unat u \<and> mn \<le> b \<and> b \<le> mx
              | None \<Rightarrow> \<exists>i. json_i64 v = Some i \<and> read_i32_at a offset = Inr (sint i))
         | ArgI64 \<Rightarrow> (\<exists>i. json_i64 v = Some i \<and> read_i64_at a offset = Inr (sint i))
         | ArgF64 \<Rightarrow> (\<exists>x. json_f64 lib v = Some x \<and> read_f64_at a offset = Inr x)
         | ArgString \<Rightarrow> (\<exists>s. v = JString s \<and>
             ((\<forall>c \<in> set s. is_scalar c) \<longrightarrow> read_str_at a offset (text_len s) = Inr s))
         | ArgBytes \<Rightarrow> (\<exists>s. v = JString s \<and> read_bytes_at a offset (text_len s) = Inr (utf8_bytes s))
         | _ \<Rightarrow> (\<exists>bs. ax_to_vec lib v = Inr bs \<and> read_bytes_at a offset (length bs) = Inr bs))"

lemma sint_narrow:
  fixes i :: i64
  assumes "- (2 ^ 31) \<le> sint i" and "sint i < 2 ^ 31"
  shows "sint (ucast i :: u32) = sint i"
proof -
  have "sint (ucast i :: u32) = signed_take_bit 31 (sint i)"
    by transfer (simp add: signed_take_bit_take_bit)
  then show ?thesis using assms by (simp add: signed_take_bit_int_eq_self)
qed

lemma le_word_le_bytes_4: "le_word (le_bytes 4 (w :: u32)) = w" and le_word_le_bytes_8: "le_word (le_bytes 8 (x :: u64)) = x"
  by (rule le_word_le_bytes; simp)+



end
