(* ===== verification/Prompts.thy ===== *)
theory Prompts
  imports Tool_Arguments
begin

text \<open>
  Prompt templates (\<open>PromptTemplate\<close> in \<open>src/src/compat/complete_adapter.rs\<close>): arguments, and the
  rendering that replaces each placeholder by its value. The arguments are a hash map; the list of
  its entries is the order in which the rendering loop meets them.
\<close>

record prompt_argument =
  pa_name :: "text"
  pa_description :: "text"
  pa_required :: bool

record prompt_template =
  pt_name :: "text"
  pt_description :: "text"
  pt_arguments :: "prompt_argument list"
  pt_template :: "text"

definition prompt_new :: "text \<Rightarrow> text \<Rightarrow> text \<Rightarrow> prompt_template" where
  "prompt_new name description template =
     \<lparr>pt_name = name, pt_description = description, pt_arguments = [], pt_template = template\<rparr>"

definition with_argument :: "text \<Rightarrow> text \<Rightarrow> bool \<Rightarrow> prompt_template \<Rightarrow> prompt_template" where
  "with_argument name description required p =
     p\<lparr>pt_arguments := pt_arguments p @
        [\<lparr>pa_name = name, pa_description = description, pa_required = required\<rparr>]\<rparr>"

definition has_argument :: "prompt_template \<Rightarrow> text \<Rightarrow> bool" where
  "has_argument p name = list_ex (\<lambda>arg. pa_name arg = name) (pt_arguments p)"

text \<open>\<open>str::replace\<close> for a non-empty pattern: left to right, without overlaps. The count is the number
  of characters of the match that are still to be skipped.\<close>

fun replace_loop :: "text \<Rightarrow> text \<Rightarrow> nat \<Rightarrow> text \<Rightarrow> text" where
  "replace_loop p r skip [] = []"
| "replace_loop p r (Suc skip) (x # xs) = replace_loop p r skip xs"
| "replace_loop p r 0 (x # xs) =
     (if starts_with p (x # xs) then r @ replace_loop p r (length p - 1) xs
      else x # replace_loop p r 0 xs)"

definition replace_text :: "text \<Rightarrow> text \<Rightarrow> text \<Rightarrow> text" where
  "replace_text p r t = replace_loop p r 0 t"

definition placeholder :: "text \<Rightarrow> text" where
  "placeholder key = ascii ''{{'' @ key @ ascii ''}}''"

fun missing_argument :: "prompt_argument list \<Rightarrow> (text, text) hmap \<Rightarrow> text option" where
  "missing_argument [] args = None"
| "missing_argument (arg # rest) args =
     (if pa_required arg \<and> \<not> hm_contains args (pa_name arg) then Some (pa_name arg)
      else missing_argument rest args)"

definition render :: "prompt_template \<Rightarrow> (text, text) hmap \<Rightarrow> complete_adapter_error + text" where
  "render p args =
     (if list_ex (\<lambda>(name, v). \<not> has_argument p name) args
      then Inl (InvalidParams (ascii ''unknown prompt argument''))
      else case missing_argument (pt_arguments p) args of
          Some name \<Rightarrow> Inl (PromptError (ascii ''missing required argument: '' @ name))
        | None \<Rightarrow> Inr (fold (\<lambda>(key, v) result. replace_text (placeholder key) v result) args (pt_template p)))"

section \<open>Rendering fills the slots\<close>

text \<open>A template as pieces: plain text, and slots for arguments. Plain text, names and values have no
  braces.\<close>

datatype piece = Plain "text" | Slot "text"

fun piece_text :: "piece \<Rightarrow> text" where
  "piece_text (Plain t) = t"
| "piece_text (Slot k) = placeholder k"

definition pieces_text :: "piece list \<Rightarrow> text" where
  "pieces_text ps = concat (map piece_text ps)"

lemma pieces_text_simps [simp]:
  "pieces_text [] = []" "pieces_text (p # ps) = piece_text p @ pieces_text ps"
  by (simp_all add: pieces_text_def)

definition brace_free :: "text \<Rightarrow> bool" where
  "brace_free t \<longleftrightarrow> set t \<inter> {123, 125} = {}"

fun piece_ok :: "piece \<Rightarrow> bool" where
  "piece_ok (Plain t) \<longleftrightarrow> brace_free t"
| "piece_ok (Slot k) \<longleftrightarrow> brace_free k"

fun fill :: "(text \<Rightarrow> text option) \<Rightarrow> piece \<Rightarrow> piece" where
  "fill f (Plain t) = Plain t"
| "fill f (Slot k) = (case f k of None \<Rightarrow> Slot k | Some v \<Rightarrow> Plain v)"

lemma placeholder_eq: "placeholder k = 123 # 123 # k @ [125, 125]"
  by (simp add: placeholder_def ascii_def)

lemma replace_skip: "replace_loop p r (length xs) (xs @ ys) = replace_loop p r 0 ys"
  by (induction xs) simp_all

lemma replace_free:
  "123 \<notin> set xs \<Longrightarrow> replace_loop (placeholder k) v 0 (xs @ ys) = xs @ replace_loop (placeholder k) v 0 ys"
  by (induction xs) (auto simp: placeholder_eq)

lemma starts_placeholder:
  assumes "brace_free k" and "brace_free j"
  shows "starts_with (placeholder k) (placeholder j @ t) \<longleftrightarrow> k = j"
proof -
  have "k = j" if "k @ [125, 125] @ s = j @ [125, 125] @ t" for s
  proof -
    have "takeWhile (\<lambda>c. c \<noteq> 125) (u @ [125, 125] @ w) = u" if "brace_free u" for u w :: "text"
      using that by (auto simp: brace_free_def takeWhile_append)
    from this [OF assms(1), of s] this [OF assms(2), of t] that show ?thesis by simp
  qed
  then show ?thesis by (auto simp: starts_with_iff placeholder_eq)
qed

lemma replace_other_slot:
  assumes "brace_free k" and "brace_free j" and "k \<noteq> j"
  shows "replace_loop (placeholder k) v 0 (placeholder j @ t) = placeholder j @ replace_loop (placeholder k) v 0 t"
proof -
  let ?r = "replace_loop (placeholder k) v 0"
  have "\<not> starts_with (placeholder k) (placeholder j @ t)" using starts_placeholder [OF assms(1,2)] assms(3) by simp
  then have "?r (placeholder j @ t) = 123 # ?r (123 # j @ [125, 125] @ t)" by (simp add: placeholder_eq)
  moreover have "?r (123 # j @ [125, 125] @ t) = 123 # ?r ((j @ [125, 125]) @ t)"
    using assms(2) by (cases j) (auto simp: placeholder_eq brace_free_def)
  moreover have "?r ((j @ [125, 125]) @ t) = (j @ [125, 125]) @ ?r t"
    using assms(2) by (intro replace_free) (auto simp: brace_free_def)
  ultimately show ?thesis by (simp add: placeholder_eq)
qed

lemma replace_same_slot: "replace_loop (placeholder k) v 0 (placeholder k @ t) = v @ replace_loop (placeholder k) v 0 t"
proof -
  have "placeholder k @ t = 123 # (123 # k @ [125, 125]) @ t" by (simp add: placeholder_eq)
  moreover have "starts_with (placeholder k) (placeholder k @ t)" by (auto simp: starts_with_iff)
  moreover have "replace_loop (placeholder k) v (length (placeholder k) - 1) ((123 # k @ [125, 125]) @ t) =
      replace_loop (placeholder k) v 0 t"
    using replace_skip [of "placeholder k" v "123 # k @ [125, 125]" t] by (simp add: placeholder_eq)
  ultimately show ?thesis by simp
qed

lemma replace_pieces:
  assumes "list_all piece_ok ps" and "brace_free k"
  shows "replace_text (placeholder k) v (pieces_text ps) = pieces_text (map (fill [k \<mapsto> v]) ps)"
  using assms(1)
proof (induction ps)
  case Nil
  then show ?case by (simp add: replace_text_def pieces_text_def)
next
  case (Cons p ps)
  let ?r = "replace_loop (placeholder k) v 0"
  have "list_all piece_ok ps" using Cons.prems by simp
  from Cons.IH [OF this] have IH: "?r (pieces_text ps) = pieces_text (map (fill [k \<mapsto> v]) ps)"
    unfolding replace_text_def .
  have "?r (piece_text p @ pieces_text ps) = piece_text (fill [k \<mapsto> v] p) @ ?r (pieces_text ps)"
  proof (cases p)
    case (Plain t)
    with Cons.prems have "123 \<notin> set t" by (simp add: brace_free_def)
    from replace_free [OF this, of k v "pieces_text ps"] Plain show ?thesis by simp
  next
    case (Slot j)
    with Cons.prems have "brace_free j" by simp
    with Slot replace_same_slot [of k v "pieces_text ps"]
      replace_other_slot [OF assms(2) \<open>brace_free j\<close>, of v "pieces_text ps"] show ?thesis
      by (cases "k = j") simp_all
  qed
  with IH show ?case by (simp only: replace_text_def pieces_text_simps list.map)
qed

lemma fill_ok: "piece_ok p \<Longrightarrow> \<forall>k v. f k = Some v \<longrightarrow> brace_free v \<Longrightarrow> piece_ok (fill f p)"
  by (cases p) (auto split: option.splits)

lemma fill_fill: "fill g (fill f p) = fill (g ++ f) p"
  by (cases p) (auto simp: map_add_def split: option.splits)

lemma fold_replace_pieces:
  assumes "list_all piece_ok ps" and "\<forall>(k, v) \<in> set args. brace_free k \<and> brace_free v"
    and "distinct (map fst args)"
  shows "fold (\<lambda>(key, v) result. replace_text (placeholder key) v result) args (pieces_text ps) =
    pieces_text (map (fill (hm_get args)) ps)"
  using assms
proof (induction args arbitrary: ps)
  case Nil
  have "fill (hm_get []) = id" by (rule ext, rename_tac p, case_tac p) simp_all
  then show ?case unfolding fold_simps by (metis list.map_id)
next
  case (Cons kv args)
  obtain k v where kv: "kv = (k, v)" by (cases kv)
  have ok: "list_all piece_ok (map (fill [k \<mapsto> v]) ps)"
    using Cons.prems fill_ok by (auto simp: list_all_iff kv split: if_splits)
  have "fill (hm_get args) (fill [k \<mapsto> v] p) = fill (hm_get (kv # args)) p" for p
  proof -
    have "map_of args k = None" using Cons.prems(3) kv by (simp add: map_of_eq_None_iff)
    then have "hm_get args ++ [k \<mapsto> v] = hm_get (kv # args)"
      by (auto simp: kv hm_get_def fun_eq_iff map_add_def)
    then show ?thesis by (simp add: fill_fill)
  qed
  with Cons.IH [OF ok] Cons.prems replace_pieces [of ps k v] show ?case by (simp add: kv comp_def)
qed

lemma missing_argument_iff:
  "missing_argument as args = None \<longleftrightarrow> (\<forall>a \<in> set as. pa_required a \<longrightarrow> hm_contains args (pa_name a))"
  by (induction as) auto

definition arguments_ok :: "prompt_template \<Rightarrow> (text, text) hmap \<Rightarrow> bool" where
  "arguments_ok p args \<longleftrightarrow>
     (\<forall>k \<in> fst ` set args. has_argument p k) \<and>
     (\<forall>a \<in> set (pt_arguments p). pa_required a \<longrightarrow> hm_contains args (pa_name a))"

lemma render_ok:
  "render p args = Inr t \<longleftrightarrow>
     arguments_ok p args \<and> t = fold (\<lambda>(key, v) result. replace_text (placeholder key) v result) args (pt_template p)"
proof (cases "list_ex (\<lambda>(name, v). \<not> has_argument p name) args")
  case True
  then have "\<not> arguments_ok p args" by (force simp: arguments_ok_def list_ex_iff)
  with True show ?thesis by (simp add: render_def)
next
  case False
  then have "\<forall>k \<in> fst ` set args. has_argument p k" by (force simp: list_ex_iff)
  with False show ?thesis
    by (cases "missing_argument (pt_arguments p) args")
       (auto simp: render_def arguments_ok_def simp flip: missing_argument_iff)
qed

text \<open>Prompts render their slots. A prompt renders exactly when every given argument is declared and
  every required one is given. If the template is plain text and slots, without stray braces, and
  the given values have no braces, then whatever order the map is walked in the result is the template
  with each given slot replaced by its value and the others left.\<close>

theorem prompt_renders_slots:
  assumes "pt_template p = pieces_text ps" and "list_all piece_ok ps"
    and "\<forall>(k, v) \<in> set args. brace_free k \<and> brace_free v" and "hm_wf args"
  shows "(is_ok (render p args) \<longleftrightarrow> arguments_ok p args) \<and>
    (arguments_ok p args \<longrightarrow> render p args = Inr (pieces_text (map (fill (hm_get args)) ps)))"
proof -
  have "is_ok (render p args) \<longleftrightarrow> (\<exists>t. render p args = Inr t)" by (cases "render p args") auto
  then show ?thesis
    using fold_replace_pieces [OF assms(2,3)] assms(1,4) by (simp add: render_ok hm_wf_def)
qed

definition sample_prompt :: prompt_template where
  "sample_prompt = with_argument (ascii ''who'') [] True
     (prompt_new (ascii ''greet'') [] (ascii ''Hello {{who}}!''))"

lemma prompt_renders_slots_witness:
  "render sample_prompt [(ascii ''who'', ascii ''Ada'')] = Inr (ascii ''Hello Ada!'')"
proof -
  let ?ps = "[Plain (ascii ''Hello ''), Slot (ascii ''who''), Plain (ascii ''!'')]"
    and ?args = "[(ascii ''who'', ascii ''Ada'')]"
  have "pt_template sample_prompt = pieces_text ?ps" "list_all piece_ok ?ps" by code_simp+
  moreover have "\<forall>(k, v) \<in> set ?args. brace_free k \<and> brace_free v" "hm_wf ?args" by code_simp+
  moreover have "arguments_ok sample_prompt ?args"
    by (simp add: arguments_ok_def sample_prompt_def with_argument_def prompt_new_def has_argument_def
        hm_contains_def hm_get_def)
  moreover have "pieces_text (map (fill (hm_get ?args)) ?ps) = ascii ''Hello Ada!''" by code_simp
  ultimately show ?thesis using prompt_renders_slots [of sample_prompt ?ps ?args] by simp
qed

text \<open>A value that is itself a placeholder is replaced in turn or not, as the walk over the map has it:
  the same call renders to two texts.\<close>

lemma render_depends_on_order:
  "let p = with_argument (ascii ''b'') [] False (with_argument (ascii ''a'') [] False
             (prompt_new [] [] (ascii ''{{a}}'')));
       ab = [(ascii ''a'', ascii ''{{b}}''), (ascii ''b'', ascii ''x'')]
   in render p ab = Inr (ascii ''x'') \<and> render p (rev ab) = Inr (ascii ''{{b}}'')"
  by code_simp

end
