(* ===== verification/Request_Replay.thy ===== *)
theory Request_Replay
  imports Text
begin

text \<open>
  Replay tracking for side-effecting JSON-RPC calls (\<open>src/src/compat/request_replay.rs\<close>): a set of
  seen keys and a queue that drops the oldest key when the window is full.
\<close>

definition DEFAULT_REQUEST_REPLAY_WINDOW :: nat where "DEFAULT_REQUEST_REPLAY_WINDOW = 1024"

record request_replay_guard =
  rg_seen :: "text set"
  rg_order :: "text list"
  rg_max_entries :: nat

definition replay_guard_new :: "nat \<Rightarrow> request_replay_guard" where
  "replay_guard_new n = \<lparr>rg_seen = {}, rg_order = [], rg_max_entries = n\<rparr>"

definition replay_guard_default :: request_replay_guard where
  "replay_guard_default = replay_guard_new DEFAULT_REQUEST_REPLAY_WINDOW"

text \<open>The loop that expires the oldest keys.\<close>

fun expire_keys :: "nat \<Rightarrow> text list \<Rightarrow> text set \<Rightarrow> text list \<times> text set" where
  "expire_keys n [] seen = ([], seen)"
| "expire_keys n (k # ks) seen =
     (if length (k # ks) > n then expire_keys n ks (seen - {k}) else (k # ks, seen))"

definition check_and_record ::
  "text \<Rightarrow> request_replay_guard \<Rightarrow> bool \<times> request_replay_guard" where
  "check_and_record key g =
     (if key \<in> rg_seen g then (False, g)
      else
        let (order, seen) = expire_keys (rg_max_entries g) (rg_order g @ [key]) (insert key (rg_seen g))
        in (True, g\<lparr>rg_seen := seen, rg_order := order\<rparr>))"

definition replay_key :: "text \<Rightarrow> text \<Rightarrow> text" where
  "replay_key m request_id = m @ ascii '':'' @ request_id"

section \<open>The guard is a window\<close>

definition last_n :: "nat \<Rightarrow> 'a list \<Rightarrow> 'a list" where
  "last_n n xs = drop (length xs - n) xs"

lemma last_n_snoc: "last_n n (xs @ [x]) = last_n n (last_n n xs @ [x])"
  by (cases "length xs \<le> n") (auto simp: last_n_def Suc_diff_le)

lemma last_n_idem [simp]: "last_n n (last_n n xs) = last_n n xs"
  by (simp add: last_n_def)

lemma expire_keys_eq:
  "distinct ks \<Longrightarrow> expire_keys n ks (set ks) = (last_n n ks, set (last_n n ks))"
proof (induction ks)
  case Nil
  then show ?case by (simp add: last_n_def)
next
  case (Cons k ks)
  then have "insert k (set ks) - {k} = set ks" by auto
  with Cons show ?case by (auto simp: last_n_def Suc_diff_le not_less)
qed

text \<open>The guard's specification: the keys accepted so far, in order. A key is accepted unless it is
  one of the last \<open>n\<close> accepted ones.\<close>

definition window_accepts :: "nat \<Rightarrow> text list \<Rightarrow> text \<Rightarrow> bool" where
  "window_accepts n acc key \<longleftrightarrow> key \<notin> set (last_n n acc)"

definition window_step :: "nat \<Rightarrow> text \<Rightarrow> text list \<Rightarrow> bool \<times> text list" where
  "window_step n key acc =
     (if window_accepts n acc key then (True, acc @ [key]) else (False, acc))"

definition guard_rel :: "nat \<Rightarrow> request_replay_guard \<Rightarrow> text list \<Rightarrow> bool" where
  "guard_rel n g acc \<longleftrightarrow> rg_max_entries g = n \<and> rg_order g = last_n n acc \<and>
     rg_seen g = set (last_n n acc) \<and> distinct (last_n n acc)"

lemma guard_rel_new: "guard_rel n (replay_guard_new n) []"
  by (simp add: guard_rel_def replay_guard_new_def last_n_def)

lemma distinct_last_n: "distinct xs \<Longrightarrow> distinct (last_n n xs)"
  by (simp add: last_n_def)

lemma guard_rel_step:
  assumes "guard_rel n g acc"
  shows "fst (check_and_record key g) = fst (window_step n key acc) \<and>
    guard_rel n (snd (check_and_record key g)) (snd (window_step n key acc))"
proof (cases "key \<in> set (last_n n acc)")
  case True
  then show ?thesis
    using assms by (simp add: check_and_record_def window_step_def window_accepts_def guard_rel_def)
next
  case False
  let ?ks = "last_n n acc @ [key]"
  have d: "distinct ?ks" using False assms by (simp add: guard_rel_def)
  have "insert key (set (last_n n acc)) = set ?ks" by simp
  then have "expire_keys n ?ks (insert key (set (last_n n acc))) = (last_n n ?ks, set (last_n n ?ks))"
    using expire_keys_eq [OF d] by simp
  then show ?thesis
    using False assms distinct_last_n [OF d, of n]
    by (simp add: check_and_record_def window_step_def window_accepts_def guard_rel_def
        last_n_snoc [of n acc key])
qed

primrec run_guard :: "text list \<Rightarrow> request_replay_guard \<Rightarrow> bool list \<times> request_replay_guard" where
  "run_guard [] g = ([], g)"
| "run_guard (k # ks) g =
     (let (b, g') = check_and_record k g; (bs, g'') = run_guard ks g' in (b # bs, g''))"

primrec run_window :: "nat \<Rightarrow> text list \<Rightarrow> text list \<Rightarrow> bool list \<times> text list" where
  "run_window n [] acc = ([], acc)"
| "run_window n (k # ks) acc =
     (let (b, acc') = window_step n k acc; (bs, acc'') = run_window n ks acc' in (b # bs, acc''))"

lemma guard_rel_run:
  "guard_rel n g acc \<Longrightarrow> fst (run_guard ks g) = fst (run_window n ks acc) \<and>
     guard_rel n (snd (run_guard ks g)) (snd (run_window n ks acc))"
proof (induction ks arbitrary: g acc)
  case (Cons k ks)
  from guard_rel_step [OF Cons.prems, of k] Cons.IH show ?case
    by (cases "check_and_record k g"; cases "window_step n k acc") (simp add: split_beta)
qed simp

text \<open>The replay window. Over any sequence of keys the guard answers as its specification: a key
  is refused exactly when it is among the last \<open>n\<close> accepted keys. The guard then holds exactly these
  keys, so it never holds more than \<open>n\<close>, and its set and its queue agree.\<close>

theorem replay_window_exact:
  "let (answers, g) = run_guard ks (replay_guard_new n); (spec, acc) = run_window n ks []
   in answers = spec \<and> rg_order g = last_n n acc \<and> rg_seen g = set (rg_order g) \<and>
      distinct (rg_order g) \<and> length (rg_order g) \<le> n"
  using guard_rel_run [OF guard_rel_new, of ks n]
  by (auto simp: guard_rel_def split_beta last_n_def)

text \<open>Keys of one method are as distinct as the ids.\<close>

lemma replay_key_inject [simp]: "replay_key m a = replay_key m b \<longleftrightarrow> a = b"
  by (simp add: replay_key_def)

lemma fresh_key_accepted: "key \<notin> rg_seen g \<Longrightarrow> fst (check_and_record key g)"
  by (simp add: check_and_record_def split_beta)

lemma check_refused: "\<not> fst (check_and_record key g) \<Longrightarrow> snd (check_and_record key g) = g"
  by (auto simp: check_and_record_def split_beta)

section \<open>Guarded sessions\<close>

text \<open>A machine whose messages may ask for a call under a key. The calls it records are those whose key
  its replay guard accepts.\<close>

primrec recorded_by ::
  "('m \<Rightarrow> 's \<Rightarrow> 's) \<Rightarrow> ('s \<Rightarrow> request_replay_guard) \<Rightarrow> ('m \<Rightarrow> 's \<Rightarrow> (text \<times> 'c) option) \<Rightarrow>
   'm list \<Rightarrow> 's \<Rightarrow> (text \<times> 'c) list" where
  "recorded_by step guard call [] s = []"
| "recorded_by step guard call (m # ms) s =
     (case call m s of
        None \<Rightarrow> []
      | Some kc \<Rightarrow> if fst kc \<in> rg_seen (guard s) then [] else [kc]) @
     recorded_by step guard call ms (step m s)"

text \<open>The contract of such a machine: a message without a call, or with a key seen before, keeps the
  effect and the guard; any other runs its call and records its key.\<close>

locale replay_guarded =
  fixes step :: "'m \<Rightarrow> 's \<Rightarrow> 's" and guard :: "'s \<Rightarrow> request_replay_guard"
    and call :: "'m \<Rightarrow> 's \<Rightarrow> (text \<times> 'c) option" and effect :: "'s \<Rightarrow> 'w"
    and run :: "text \<times> 'c \<Rightarrow> 'w \<Rightarrow> 'w"
  assumes guarded_step: "(effect (step m s), guard (step m s)) =
    (case call m s of
       None \<Rightarrow> (effect s, guard s)
     | Some kc \<Rightarrow>
         if fst kc \<in> rg_seen (guard s) then (effect s, guard s)
         else (run kc (effect s), snd (check_and_record (fst kc) (guard s))))"
begin

lemma session_effect:
  "guard_rel n (guard s) acc \<Longrightarrow>
   effect (fold step ms s) = fold run (recorded_by step guard call ms s) (effect s) \<and>
   guard_rel n (guard (fold step ms s)) (acc @ map fst (recorded_by step guard call ms s))"
proof (induction ms arbitrary: s acc)
  case (Cons m ms)
  show ?case
  proof (cases "\<exists>kc. call m s = Some kc \<and> fst kc \<notin> rg_seen (guard s)")
    case False
    then have "effect (step m s) = effect s \<and> guard (step m s) = guard s"
      using guarded_step [of m s] by (auto split: option.splits if_splits)
    with False Cons show ?thesis by (auto split: option.split)
  next
    case True
    then obtain kc where kc: "call m s = Some kc" "fst kc \<notin> rg_seen (guard s)" by blast
    then have step: "effect (step m s) = run kc (effect s)"
      "guard (step m s) = snd (check_and_record (fst kc) (guard s))"
      using guarded_step [of m s] by simp_all
    have "window_step n (fst kc) acc = (True, acc @ [fst kc])"
      using kc Cons.prems by (simp add: window_step_def window_accepts_def guard_rel_def)
    then have "guard_rel n (guard (step m s)) (acc @ [fst kc])"
      using guard_rel_step [OF Cons.prems, of "fst kc"] step by simp
    from Cons.IH [OF this] kc step show ?thesis by simp
  qed
qed simp

text \<open>From an empty guard: the session is the fold of its recorded calls, and no key repeats in the
  window.\<close>

lemma session_runs_once:
  assumes "guard s = replay_guard_default"
  shows "effect (fold step ms s) = fold run (recorded_by step guard call ms s) (effect s) \<and>
    distinct (last_n DEFAULT_REQUEST_REPLAY_WINDOW (map fst (recorded_by step guard call ms s)))"
proof -
  have "guard_rel DEFAULT_REQUEST_REPLAY_WINDOW (guard s) []"
    using guard_rel_new assms by (simp add: replay_guard_default_def)
  from session_effect [OF this, of ms] show ?thesis by (simp add: guard_rel_def)
qed

end

end
