(* ===== verification/Resource_Registry.thy ===== *)
theory Resource_Registry
  imports Text Hash_Map Capability
begin

text \<open>
  The resource registry (\<open>src/src/resource/mod.rs\<close>): URI templates, registered handlers, listing,
  reading and subscriptions. A handler (the \<open>ResourceHandler\<close> trait object) is a record of what its
  methods return, a subscriber's callback an opaque value, and a notification the list of the
  callbacks it calls. Base64 encoding is the caller's.
\<close>

section \<open>URI templates\<close>

text \<open>\<open>str::find\<close>: the text before the first occurrence and the text after it.\<close>

fun split_first :: "text \<Rightarrow> text \<Rightarrow> (text \<times> text) option" where
  "split_first p [] = (if p = [] then Some ([], []) else None)"
| "split_first p (x # xs) =
     (if starts_with p (x # xs) then Some ([], drop (length p) (x # xs))
      else map_option (\<lambda>(l, r). (x # l, r)) (split_first p xs))"

lemma split_first_eq: "split_first p t = Some (l, r) \<Longrightarrow> t = l @ p @ r"
  by (induction p t arbitrary: l r rule: split_first.induct)
     (auto simp: starts_with_iff split: if_splits)

text \<open>The loop that splits a template at its placeholders. An unclosed brace stops it, and what was
  left is pushed whole.\<close>

function template_parts :: "text \<Rightarrow> text list" where
  "template_parts current =
     (case split_first [123] current of
        None \<Rightarrow> [current]
      | Some (before, after) \<Rightarrow>
          (case split_first [125] after of
             None \<Rightarrow> [before, current]
           | Some (_, rest) \<Rightarrow> before # template_parts rest))"
  by pat_completeness auto

termination template_parts
proof (relation "measure length", simp, goal_cases)
  case (1 current p before after q inner rest)
  then have "current = before @ [123] @ after" "after = inner @ [125] @ rest"
    using split_first_eq by blast+
  then show ?case by simp
qed

declare template_parts.simps [simp del]

text \<open>The matching loop: \<open>first\<close> says that no part has been looked at, the result is what is left of
  the URI.\<close>

fun match_parts :: "bool \<Rightarrow> text list \<Rightarrow> text \<Rightarrow> text option" where
  "match_parts first [] uri = Some uri"
| "match_parts first (part # parts) uri =
     (if part = [] then match_parts False parts uri
      else case split_first part uri of
             None \<Rightarrow> None
           | Some (l, r) \<Rightarrow> if first \<and> l \<noteq> [] then None else match_parts False parts r)"

definition uri_matches_template :: "text \<Rightarrow> text \<Rightarrow> bool" where
  "uri_matches_template uri template =
     (let parts = template_parts template
      in case match_parts True parts uri of
           None \<Rightarrow> False
         | Some rest \<Rightarrow> if last parts \<noteq> [] then rest = [] else True)"

section \<open>Handlers\<close>

datatype resource_content =
    TextContent "text" "text" "text"
  | BlobContent "text" "text" "text"

fun content_uri :: "resource_content \<Rightarrow> text" where
  "content_uri (TextContent uri mime_type body) = uri"
| "content_uri (BlobContent uri mime_type blob) = uri"

record resource_info =
  in_uri :: "text"
  in_name :: "text"
  in_description :: "text option"
  in_mime_type :: "text option"

definition resource_info_new :: "text \<Rightarrow> text \<Rightarrow> resource_info" where
  "resource_info_new uri name =
     \<lparr>in_uri = uri, in_name = name, in_description = None, in_mime_type = None\<rparr>"

definition info_with_description :: "text \<Rightarrow> resource_info \<Rightarrow> resource_info" where
  "info_with_description t i = i\<lparr>in_description := Some t\<rparr>"

definition info_with_mime_type :: "text \<Rightarrow> resource_info \<Rightarrow> resource_info" where
  "info_with_mime_type t i = i\<lparr>in_mime_type := Some t\<rparr>"

record resource_list =
  rl_resources :: "resource_info list"
  rl_next_cursor :: "text option"

datatype resource_error = ResourceNotFound "text" | InvalidUri "text" | HandlerError "text"
  | ResourceCapacityExceeded "text" nat | SubscriptionNotSupported

record resource_handler =
  rh_uri_template :: "text"
  rh_list :: "text option \<Rightarrow> resource_error + resource_list"
  rh_read :: "text \<Rightarrow> resource_error + resource_content"
  rh_supports_subscribe :: bool
  rh_matches :: "text \<Rightarrow> bool"

text \<open>The in-memory handler, with the trait's default \<open>matches\<close>.\<close>

record memory_handler =
  mh_template :: "text"
  mh_resources :: "(text, resource_content) hmap"
  mh_supports_subscribe :: bool

definition memory_new :: "text \<Rightarrow> memory_handler" where
  "memory_new template =
     \<lparr>mh_template = template, mh_resources = [], mh_supports_subscribe = False\<rparr>"

definition with_subscriptions :: "memory_handler \<Rightarrow> memory_handler" where
  "with_subscriptions m = m\<lparr>mh_supports_subscribe := True\<rparr>"

definition add_resource :: "text \<Rightarrow> resource_content \<Rightarrow> memory_handler \<Rightarrow> memory_handler" where
  "add_resource uri content m = m\<lparr>mh_resources := hm_insert uri content (mh_resources m)\<rparr>"

definition content_mime_type :: "resource_content \<Rightarrow> text" where
  "content_mime_type c =
     (case c of TextContent uri mime_type body \<Rightarrow> mime_type | BlobContent uri mime_type blob \<Rightarrow> mime_type)"

definition memory_handler_of :: "memory_handler \<Rightarrow> resource_handler" where
  "memory_handler_of m =
     \<lparr>rh_uri_template = mh_template m,
      rh_list = (\<lambda>cursor. Inr
        \<lparr>rl_resources = map (\<lambda>(uri, content).
            (resource_info_new uri uri)\<lparr>in_mime_type := Some (content_mime_type content)\<rparr>)
            (mh_resources m),
         rl_next_cursor = None\<rparr>),
      rh_read = (\<lambda>uri. case hm_get (mh_resources m) uri of
          None \<Rightarrow> Inl (ResourceNotFound uri) | Some content \<Rightarrow> Inr content),
      rh_supports_subscribe = mh_supports_subscribe m,
      rh_matches = (\<lambda>uri. uri_matches_template uri (mh_template m))\<rparr>"

section \<open>The registry\<close>

record 'c resource_registry =
  rg_handlers :: "(u16 \<times> resource_handler) list"
  rg_subscriptions :: "(text, u64 list) hmap"
  rg_subscription_counter :: u64
  rg_callbacks :: "(u64, 'c) hmap"

definition registry_new :: "'c resource_registry" where
  "registry_new =
     \<lparr>rg_handlers = [], rg_subscriptions = [], rg_subscription_counter = 1, rg_callbacks = []\<rparr>"

definition resource_register ::
  "resource_handler \<Rightarrow> 'c resource_registry \<Rightarrow> (resource_error + u16) \<times> 'c resource_registry" where
  "resource_register h r =
     (if length (rg_handlers r) \<ge> MAX_RESOURCES
      then (Inl (ResourceCapacityExceeded (ascii ''resource'') MAX_RESOURCES), r)
      else
        let i = of_nat (length (rg_handlers r))
        in (Inr i, r\<lparr>rg_handlers := rg_handlers r @ [(i, h)]\<rparr>))"

definition handler_count :: "'c resource_registry \<Rightarrow> nat" where
  "handler_count r = length (rg_handlers r)"

definition match_uri :: "'c resource_registry \<Rightarrow> text \<Rightarrow> resource_handler option" where
  "match_uri r uri = map_option snd (List.find (\<lambda>(i, h). rh_matches h uri) (rg_handlers r))"

definition handler_id_for_uri :: "'c resource_registry \<Rightarrow> text \<Rightarrow> u16 option" where
  "handler_id_for_uri r uri = map_option fst (List.find (\<lambda>(i, h). rh_matches h uri) (rg_handlers r))"

definition handler_ids :: "'c resource_registry \<Rightarrow> u16 list" where
  "handler_ids r = map fst (rg_handlers r)"

definition allowed_uri_templates :: "'c resource_registry \<Rightarrow> (u16 \<Rightarrow> bool) \<Rightarrow> text list" where
  "allowed_uri_templates r allow =
     map (\<lambda>(i, h). rh_uri_template h) (filter (\<lambda>(i, h). allow i) (rg_handlers r))"

definition any_allowed_supports_subscribe :: "'c resource_registry \<Rightarrow> (u16 \<Rightarrow> bool) \<Rightarrow> bool" where
  "any_allowed_supports_subscribe r allow =
     list_ex (\<lambda>(i, h). allow i \<and> rh_supports_subscribe h) (rg_handlers r)"

fun list_handlers ::
  "text option \<Rightarrow> (u16 \<Rightarrow> bool) \<Rightarrow> (u16 \<times> resource_handler) list \<Rightarrow> resource_info list \<Rightarrow>
   resource_error + resource_info list" where
  "list_handlers cursor allow [] found = Inr found"
| "list_handlers cursor allow ((i, h) # hs) found =
     (if \<not> allow i then list_handlers cursor allow hs found
      else case rh_list h cursor of
             Inl e \<Rightarrow> Inl e
           | Inr l \<Rightarrow> list_handlers cursor allow hs (found @ rl_resources l))"

definition list_allowed ::
  "'c resource_registry \<Rightarrow> text option \<Rightarrow> (u16 \<Rightarrow> bool) \<Rightarrow> resource_error + resource_list" where
  "list_allowed r cursor allow =
     bind_result (list_handlers cursor allow (rg_handlers r) [])
       (\<lambda>found. Inr \<lparr>rl_resources = found, rl_next_cursor = None\<rparr>)"

definition list_all_resources :: "'c resource_registry \<Rightarrow> text option \<Rightarrow> resource_error + resource_list" where
  "list_all_resources r cursor = list_allowed r cursor (\<lambda>_. True)"

definition resource_read :: "'c resource_registry \<Rightarrow> text \<Rightarrow> resource_error + resource_content" where
  "resource_read r uri =
     (case match_uri r uri of None \<Rightarrow> Inl (ResourceNotFound uri) | Some h \<Rightarrow> rh_read h uri)"

definition ensure_subscribable :: "'c resource_registry \<Rightarrow> text \<Rightarrow> resource_error + unit" where
  "ensure_subscribable r uri =
     (case match_uri r uri of
        None \<Rightarrow> Inl (ResourceNotFound uri)
      | Some h \<Rightarrow>
          if \<not> rh_supports_subscribe h then Inl SubscriptionNotSupported
          else bind_result (rh_read h uri) (\<lambda>_. Inr ()))"

definition subscribers_of :: "'c resource_registry \<Rightarrow> text \<Rightarrow> u64 list" where
  "subscribers_of r uri = (case hm_get (rg_subscriptions r) uri of None \<Rightarrow> [] | Some ids \<Rightarrow> ids)"

definition resource_subscribe ::
  "text \<Rightarrow> 'c \<Rightarrow> 'c resource_registry \<Rightarrow> (resource_error + u64) \<times> 'c resource_registry" where
  "resource_subscribe uri callback r =
     (case match_uri r uri of
        None \<Rightarrow> (Inl (ResourceNotFound uri), r)
      | Some h \<Rightarrow>
          if \<not> rh_supports_subscribe h then (Inl SubscriptionNotSupported, r)
          else
            let i = rg_subscription_counter r
            in (Inr i, r\<lparr>rg_subscription_counter := i + 1,
                  rg_subscriptions := hm_insert uri (subscribers_of r uri @ [i]) (rg_subscriptions r),
                  rg_callbacks := hm_insert i callback (rg_callbacks r)\<rparr>))"

definition resource_unsubscribe :: "u64 \<Rightarrow> 'c resource_registry \<Rightarrow> bool \<times> 'c resource_registry" where
  "resource_unsubscribe i r =
     (if hm_contains (rg_callbacks r) i
      then (True, r\<lparr>rg_callbacks := hm_remove i (rg_callbacks r),
              rg_subscriptions :=
                map (\<lambda>(uri, ids). (uri, filter (\<lambda>j. j \<noteq> i) ids)) (rg_subscriptions r)\<rparr>)
      else (False, r))"

definition notify_change :: "text \<Rightarrow> 'c resource_registry \<Rightarrow> 'c list" where
  "notify_change uri r = List.map_filter (hm_get (rg_callbacks r)) (subscribers_of r uri)"

definition resource_subscription_count :: "'c resource_registry \<Rightarrow> text \<Rightarrow> nat" where
  "resource_subscription_count r uri = length (subscribers_of r uri)"

section \<open>Matches are instances of the template\<close>

fun interleave :: "text list \<Rightarrow> text list \<Rightarrow> text" where
  "interleave (g # gs) (p # ps) = g @ p @ interleave gs ps"
| "interleave gs ps = []"

lemma match_parts_sound:
  "match_parts first parts uri = Some rest \<Longrightarrow>
     \<exists>gaps. length gaps = length parts \<and> uri = interleave gaps parts @ rest \<and>
       (first \<and> parts \<noteq> [] \<longrightarrow> hd gaps = [])"
proof (induction first parts uri rule: match_parts.induct)
  case (2 first part parts uri)
  show ?case
  proof (cases "part = []")
    case True
    then obtain gaps where "length gaps = length parts" "uri = interleave gaps parts @ rest"
      using "2.IH"(1) "2.prems" by auto
    with True show ?thesis by (intro exI [of _ "[] # gaps"]) simp
  next
    case False
    then obtain l r where lr: "split_first part uri = Some (l, r)" "first \<longrightarrow> l = []"
      "match_parts False parts r = Some rest"
      using "2.prems" by (auto split: option.splits if_splits)
    then obtain gaps where "length gaps = length parts" "r = interleave gaps parts @ rest"
      using "2.IH"(2) [OF False lr(1) refl] by auto
    with split_first_eq [OF lr(1)] lr(2) show ?thesis by (intro exI [of _ "l # gaps"]) simp
  qed
qed simp

lemma template_parts_nonempty: "template_parts t \<noteq> []"
  by (subst template_parts.simps) (auto split: option.splits)

text \<open>Template matching is sound. A URI that matches a template is the template's literal parts in
  order with something in place of each placeholder: it starts with the first part, and it ends with
  the last part unless the template ends with a placeholder.\<close>

theorem template_match_sound:
  assumes "uri_matches_template uri template"
  shows "\<exists>gaps rest. length gaps = length (template_parts template) \<and> hd gaps = [] \<and>
    uri = interleave gaps (template_parts template) @ rest \<and>
    (rest = [] \<or> last (template_parts template) = [])"
proof -
  from assms obtain rest where "match_parts True (template_parts template) uri = Some rest"
    "rest = [] \<or> last (template_parts template) = []"
    by (auto simp: uri_matches_template_def Let_def split: option.splits if_splits)
  then show ?thesis
    using match_parts_sound [of True "template_parts template" uri rest] template_parts_nonempty
    by blast
qed

lemma template_match_sound_witness:
  "\<exists>gaps rest. ascii ''file:///a.txt'' =
     interleave gaps (template_parts (ascii ''file:///{path}'')) @ rest"
proof -
  have "uri_matches_template (ascii ''file:///a.txt'') (ascii ''file:///{path}'')" by code_simp
  from template_match_sound [OF this] show ?thesis by blast
qed

text \<open>The search for a part takes its first occurrence and never goes back, so an instance of the
  template can be missed.\<close>

lemma template_match_incomplete:
  "\<not> uri_matches_template (ascii ''db://x.txt.txt'') (ascii ''db://{name}.txt'')"
  by code_simp

section \<open>Ids name handlers\<close>

definition resources_inv :: "'c resource_registry \<Rightarrow> bool" where
  "resources_inv r \<longleftrightarrow> length (rg_handlers r) \<le> MAX_RESOURCES \<and>
     (\<forall>k < length (rg_handlers r). fst (rg_handlers r ! k) = of_nat k)"

lemma resources_inv_new: "resources_inv registry_new"
  by (simp add: resources_inv_def registry_new_def)

lemma resources_inv_register: "resources_inv r \<Longrightarrow> resources_inv (snd (resource_register h r))"
  by (auto simp: resources_inv_def resource_register_def Let_def nth_append less_Suc_eq)

lemma resources_inv_rest:
  "resources_inv r \<Longrightarrow> resources_inv (snd (resource_subscribe uri c r))"
  "resources_inv r \<Longrightarrow> resources_inv (snd (resource_unsubscribe i r))"
  by (auto simp: resources_inv_def resource_subscribe_def resource_unsubscribe_def Let_def
      split: option.splits)

lemma handler_at_id:
  assumes "resources_inv r" and "(i, h) \<in> set (rg_handlers r)"
  shows "unat i < length (rg_handlers r) \<and> rg_handlers r ! unat i = (i, h)"
proof -
  obtain k where k: "k < length (rg_handlers r)" "rg_handlers r ! k = (i, h)"
    using assms(2) by (auto simp: in_set_conv_nth)
  then have "i = of_nat k" using assms(1) by (metis fst_conv resources_inv_def)
  moreover have "k < 2 ^ LENGTH(16)" using k(1) assms(1) by (simp add: resources_inv_def MAX_RESOURCES_def)
  ultimately have "unat i = k" by (simp add: unat_of_nat_small)
  with k show ?thesis by simp
qed

datatype 'c resource_op = RegisterHandler resource_handler | SubscribeTo "text" 'c | UnsubscribeId u64

definition resource_step :: "'c resource_op \<Rightarrow> 'c resource_registry \<Rightarrow> 'c resource_registry" where
  "resource_step oper r =
     (case oper of
        RegisterHandler h \<Rightarrow> snd (resource_register h r)
      | SubscribeTo uri c \<Rightarrow> snd (resource_subscribe uri c r)
      | UnsubscribeId i \<Rightarrow> snd (resource_unsubscribe i r))"

lemma resources_inv_run: "resources_inv r \<Longrightarrow> resources_inv (fold resource_step ops r)"
  by (induction ops arbitrary: r)
     (auto simp: resource_step_def resources_inv_register resources_inv_rest split: resource_op.splits)

lemma find_Some_first:
  "List.find P xs = Some x \<Longrightarrow> P x \<and> x \<in> set xs"
  by (induction xs) (auto split: if_splits)

lemma list_handlers_sound:
  "list_handlers cursor allow hs found = Inr out \<Longrightarrow> x \<in> set out \<Longrightarrow>
     x \<in> set found \<or> (\<exists>(i, h) \<in> set hs. allow i \<and> (\<exists>l. rh_list h cursor = Inr l \<and> x \<in> set (rl_resources l)))"
  by (induction cursor allow hs found rule: list_handlers.induct)
     (fastforce split: if_splits sum.splits)+

definition handler_at :: "'c resource_registry \<Rightarrow> u16 \<Rightarrow> resource_handler \<Rightarrow> bool" where
  "handler_at r i h \<longleftrightarrow> unat i < length (rg_handlers r) \<and> rg_handlers r ! unat i = (i, h)"

text \<open>What reading gives when the handler with id \<open>i\<close> answers, or when no handler does.\<close>

definition reads_from :: "'c resource_registry \<Rightarrow> text \<Rightarrow> u16 option \<Rightarrow> bool" where
  "reads_from r uri owner =
     (case owner of
        None \<Rightarrow> resource_read r uri = Inl (ResourceNotFound uri) \<and> \<not> is_ok (ensure_subscribable r uri)
      | Some i \<Rightarrow> \<exists>h. handler_at r i h \<and> rh_matches h uri \<and> resource_read r uri = rh_read h uri \<and>
          is_ok (ensure_subscribable r uri) = (rh_supports_subscribe h \<and> is_ok (rh_read h uri)))"

definition listed_from :: "'c resource_registry \<Rightarrow> text option \<Rightarrow> (u16 \<Rightarrow> bool) \<Rightarrow> resource_info \<Rightarrow> bool" where
  "listed_from r cursor allow x \<longleftrightarrow>
     (\<exists>i h l. handler_at r i h \<and> allow i \<and> rh_list h cursor = Inr l \<and> x \<in> set (rl_resources l))"

text \<open>Resource ids are capabilities. In every history of the registry, the id reported for a URI
  is the position of the handler that will serve it: a read or a subscription check of that URI is
  answered by the handler registered under that id and by no other, and a URI without an id is not
  found. A listing restricted to some ids shows only resources of the handlers with these ids.\<close>

theorem checked_id_serves:
  "let r = fold resource_step ops registry_new
   in reads_from r uri (handler_id_for_uri r uri) \<and>
      (case list_allowed r cursor allow of
         Inl e \<Rightarrow> True | Inr l \<Rightarrow> list_all (listed_from r cursor allow) (rl_resources l))"
proof -
  define r where "r = fold resource_step ops registry_new"
  have wf: "resources_inv r" using resources_inv_run [OF resources_inv_new] by (simp add: r_def)
  have at: "handler_at r i h" if "(i, h) \<in> set (rg_handlers r)" for i h
    using handler_at_id [OF wf that] by (simp add: handler_at_def)
  have "reads_from r uri (handler_id_for_uri r uri)"
  proof (cases "List.find (\<lambda>(i, h). rh_matches h uri) (rg_handlers r)")
    case None
    then show ?thesis
      by (simp add: reads_from_def handler_id_for_uri_def resource_read_def match_uri_def
          ensure_subscribable_def)
  next
    case (Some ih)
    obtain i h where ih: "ih = (i, h)" by (cases ih)
    have ok: "is_ok (bind_result x (\<lambda>_. Inr ())) = is_ok x" for x :: "resource_error + resource_content"
      by (cases x) simp_all
    from find_Some_first [OF Some] ih have "rh_matches h uri" "handler_at r i h" by (auto intro: at)
    with Some ih ok show ?thesis
      by (auto simp: reads_from_def handler_id_for_uri_def resource_read_def match_uri_def
          ensure_subscribable_def)
  qed
  moreover have "list_all (listed_from r cursor allow) (rl_resources l)" if "list_allowed r cursor allow = Inr l" for l
  proof -
    from that have "list_handlers cursor allow (rg_handlers r) [] = Inr (rl_resources l)"
      by (auto simp: list_allowed_def bind_result_eq_Inr)
    from list_handlers_sound [OF this] at show ?thesis
      by (force simp: list_all_iff listed_from_def)
  qed
  ultimately show ?thesis unfolding Let_def r_def [symmetric] by (simp split: sum.splits)
qed

section \<open>Notifications reach the subscribers\<close>

text \<open>The specification: the active subscriptions in the order they were made.\<close>

type_synonym 'c subscriptions = "(u64 \<times> text \<times> 'c) list"

definition subscription_rel :: "nat \<Rightarrow> 'c resource_registry \<Rightarrow> 'c subscriptions \<Rightarrow> bool" where
  "subscription_rel n r act \<longleftrightarrow>
     distinct (map fst act) \<and> (\<forall>x \<in> set act. unat (fst x) < unat (rg_subscription_counter r)) \<and>
     unat (rg_subscription_counter r) \<le> Suc n \<and>
     (\<forall>uri. subscribers_of r uri = map fst (filter (\<lambda>x. fst (snd x) = uri) act)) \<and>
     (\<forall>i. hm_get (rg_callbacks r) i = map_option snd (map_of act i)) \<and> hm_wf (rg_subscriptions r)"

definition subscription_step ::
  "'c resource_op \<Rightarrow> 'c resource_registry \<Rightarrow> 'c subscriptions \<Rightarrow> 'c subscriptions" where
  "subscription_step oper r act =
     (case oper of
        RegisterHandler h \<Rightarrow> act
      | SubscribeTo uri c \<Rightarrow>
          (case fst (resource_subscribe uri c r) of Inl e \<Rightarrow> act | Inr i \<Rightarrow> act @ [(i, uri, c)])
      | UnsubscribeId i \<Rightarrow> filter (\<lambda>x. fst x \<noteq> i) act)"

fun subscriptions_after :: "'c resource_op list \<Rightarrow> 'c resource_registry \<Rightarrow> 'c subscriptions \<Rightarrow> 'c subscriptions" where
  "subscriptions_after [] r act = act"
| "subscriptions_after (oper # ops) r act =
     subscriptions_after ops (resource_step oper r) (subscription_step oper r act)"

lemma hm_get_map_values: "hm_get (map (\<lambda>(k, v). (k, f v)) m) k = map_option f (hm_get m k)"
  by (simp add: hm_get_def map_of_map)

lemma hm_wf_map_values: "hm_wf (map (\<lambda>(k, v). (k, f v)) m) = hm_wf m"
  by (simp add: hm_wf_def comp_def split_beta)

lemma map_of_filter_key: "map_of (filter (\<lambda>x. fst x \<noteq> i) act) j = (if j = i then None else map_of act j)"
  by (induction act) auto

lemma map_add_fresh:
  "map_of act i = None \<Longrightarrow> ([i \<mapsto> v] ++ map_of act) j = (if j = i then Some v else map_of act j)"
  by (cases "map_of act j") (auto simp: map_add_def)

lemma subscription_rel_step:
  assumes "subscription_rel n r act" and "Suc n < 2 ^ 64 - 1"
  shows "subscription_rel (Suc n) (resource_step oper r) (subscription_step oper r act)"
proof (cases oper)
  case (RegisterHandler h)
  with assms(1) show ?thesis
    by (auto simp: subscription_rel_def resource_step_def subscription_step_def resource_register_def
        Let_def subscribers_of_def)
next
  case (SubscribeTo uri c)
  show ?thesis
  proof (cases "fst (resource_subscribe uri c r)")
    case (Inl e)
    then have "snd (resource_subscribe uri c r) = r"
      by (auto simp: resource_subscribe_def Let_def split: option.splits if_splits)
    with Inl assms(1) SubscribeTo show ?thesis
      by (auto simp: subscription_rel_def resource_step_def subscription_step_def)
  next
    case (Inr i)
    let ?i = "rg_subscription_counter r"
    have i: "i = ?i" and r': "snd (resource_subscribe uri c r) =
        r\<lparr>rg_subscription_counter := ?i + 1,
          rg_subscriptions := hm_insert uri (subscribers_of r uri @ [?i]) (rg_subscriptions r),
          rg_callbacks := hm_insert ?i c (rg_callbacks r)\<rparr>"
      using Inr by (auto simp: resource_subscribe_def Let_def split: option.splits if_splits)
    have next_id: "unat (?i + 1) = Suc (unat ?i)"
      using assms by (simp add: subscription_rel_def unat_word_ariths)
    have fresh: "?i \<notin> fst ` set act" using assms(1) by (auto simp: subscription_rel_def)
    then have none: "map_of act ?i = None" by (simp add: map_of_eq_None_iff)
    have subs: "subscribers_of (snd (resource_subscribe uri c r)) u =
        (if u = uri then subscribers_of r u @ [?i] else subscribers_of r u)" for u
      by (simp add: r' subscribers_of_def)
    have "subscription_step oper r act = act @ [(?i, uri, c)]"
      using Inr i SubscribeTo by (simp add: subscription_step_def)
    moreover have "resource_step oper r = snd (resource_subscribe uri c r)"
      using SubscribeTo by (simp add: resource_step_def)
    ultimately show ?thesis
      using assms(1) fresh next_id subs none
      by (auto simp: subscription_rel_def map_add_fresh [OF none] r' less_Suc_eq)
  qed
next
  case (UnsubscribeId i)
  show ?thesis
  proof (cases "hm_contains (rg_callbacks r) i")
    case True
    have "subscribers_of (snd (resource_unsubscribe i r)) u = filter (\<lambda>j. j \<noteq> i) (subscribers_of r u)" for u
      using True by (simp add: resource_unsubscribe_def subscribers_of_def hm_get_map_values split: option.splits)
    moreover have "map fst (filter (\<lambda>x. fst (snd x) = u) (filter (\<lambda>x. fst x \<noteq> i) act)) =
        filter (\<lambda>j. j \<noteq> i) (map fst (filter (\<lambda>x. fst (snd x) = u) act))" for u
      by (induction act) auto
    ultimately show ?thesis
      using assms(1) True UnsubscribeId
      by (auto simp: subscription_rel_def resource_step_def subscription_step_def resource_unsubscribe_def
          map_of_filter_key hm_wf_map_values distinct_map_filter)
  next
    case False
    then have "map_of act i = None" using assms(1) by (simp add: subscription_rel_def hm_contains_def)
    then have "filter (\<lambda>x. fst x \<noteq> i) act = act" by (auto simp: map_of_eq_None_iff filter_id_conv)
    with False assms(1) UnsubscribeId show ?thesis
      by (auto simp: subscription_rel_def resource_step_def subscription_step_def resource_unsubscribe_def)
  qed
qed

lemma subscription_rel_run:
  assumes "subscription_rel n r act" and "n + length ops < 2 ^ 64 - 1"
  shows "subscription_rel (n + length ops) (fold resource_step ops r) (subscriptions_after ops r act)"
  using assms
proof (induction ops arbitrary: n r act)
  case (Cons oper ops)
  from subscription_rel_step [OF Cons.prems(1), of oper] Cons.prems(2)
  have "subscription_rel (Suc n) (resource_step oper r) (subscription_step oper r act)" by simp
  from Cons.IH [OF this] Cons.prems(2) show ?case by simp
qed simp

lemma notify_active:
  assumes "subscription_rel n r act"
  shows "notify_change uri r = map (\<lambda>x. snd (snd x)) (filter (\<lambda>x. fst (snd x) = uri) act)"
proof -
  have "List.map_filter (hm_get (rg_callbacks r)) (map fst xs) = map (\<lambda>x. snd (snd x)) xs"
    if "set xs \<subseteq> set act" for xs
    using that
  proof (induction xs)
    case (Cons x xs)
    have "map_of act (fst x) = Some (snd x)"
      using Cons.prems assms by (auto simp: subscription_rel_def)
    moreover have "hm_get (rg_callbacks r) (fst x) = map_option snd (map_of act (fst x))"
      using assms unfolding subscription_rel_def by blast
    ultimately have "hm_get (rg_callbacks r) (fst x) = Some (snd (snd x))" by simp
    with Cons show ?case by (simp add: List.map_filter_simps)
  qed (simp add: List.map_filter_simps)
  from this [of "filter (\<lambda>x. fst (snd x) = uri) act"] show ?thesis
    using assms by (simp add: notify_change_def subscription_rel_def)
qed

text \<open>Notifications reach exactly the subscribers. In every history with fewer than
  \<open>2 ^ 64 - 1\<close> operations, a change of a resource calls, in the order they subscribed, the callbacks of
  the subscriptions to that URI that were granted and not ended, each once; ids are never reused.\<close>

theorem notifications_reach_subscribers:
  assumes "length ops < 2 ^ 64 - 1"
  shows "let r = fold resource_step ops registry_new; act = subscriptions_after ops registry_new []
    in notify_change uri r = map (\<lambda>x. snd (snd x)) (filter (\<lambda>x. fst (snd x) = uri) act) \<and>
       resource_subscription_count r uri = length (notify_change uri r) \<and> distinct (map fst act)"
proof -
  have "subscription_rel 0 (registry_new :: 'a resource_registry) []"
    by (simp add: subscription_rel_def registry_new_def subscribers_of_def)
  from subscription_rel_run [OF this, of ops] assms
  have rel: "subscription_rel (length ops) (fold resource_step ops registry_new)
      (subscriptions_after ops registry_new [])" by simp
  then have "resource_subscription_count (fold resource_step ops registry_new) uri =
      length (filter (\<lambda>x. fst (snd x) = uri) (subscriptions_after ops registry_new []))"
    by (simp add: resource_subscription_count_def subscription_rel_def)
  with rel notify_active [OF rel] show ?thesis by (simp add: Let_def subscription_rel_def)
qed

definition sample_resource_ops :: "nat resource_op list" where
  "sample_resource_ops =
     [RegisterHandler (memory_handler_of (with_subscriptions (memory_new (ascii ''mem://{x}'')))),
      SubscribeTo (ascii ''mem://a'') 1, SubscribeTo (ascii ''mem://a'') 2, UnsubscribeId 1]"

lemma notifications_reach_subscribers_witness:
  "notify_change (ascii ''mem://a'') (fold resource_step sample_resource_ops registry_new) = [2]"
proof -
  have short: "length sample_resource_ops < 2 ^ 64 - 1" by (simp add: sample_resource_ops_def)
  have m: "uri_matches_template (ascii ''mem://a'') (ascii ''mem://{x}'')" by code_simp
  have "subscriptions_after sample_resource_ops registry_new [] = [(2, ascii ''mem://a'', 2)]"
    using m by (simp add: sample_resource_ops_def subscription_step_def resource_step_def resource_register_def
        resource_subscribe_def match_uri_def memory_handler_of_def with_subscriptions_def memory_new_def
        registry_new_def MAX_RESOURCES_def Let_def)
  with notifications_reach_subscribers [OF short, of "ascii ''mem://a''"] show ?thesis by (simp add: Let_def)
qed

end
