(* ===== verification/Roots.thy ===== *)
theory Roots
  imports Text "HOL-Library.Sublist"
begin

text \<open>
  Filesystem roots of the MCP adapters (\<open>RootsRegistry\<close> in \<open>src/src/compat/mcp2025.rs\<close>): the
  registry with its change notifications, the normalization of file URIs and the boundary check. The
  broadcast channel is the number of notifications sent.
\<close>

section \<open>Paths\<close>

text \<open>\<open>str::split\<close> at a character.\<close>

fun split_at_char :: "nat \<Rightarrow> text \<Rightarrow> text list" where
  "split_at_char c [] = [[]]"
| "split_at_char c (x # xs) =
     (if x = c then [] # split_at_char c xs
      else case split_at_char c xs of [] \<Rightarrow> [[x]] | p # ps \<Rightarrow> (x # p) # ps)"

fun join_text :: "text \<Rightarrow> text list \<Rightarrow> text" where
  "join_text sep [] = []"
| "join_text sep [p] = p"
| "join_text sep (p # q # ps) = p @ sep @ join_text sep (q # ps)"

fun strip_prefix :: "text \<Rightarrow> text \<Rightarrow> text option" where
  "strip_prefix [] t = Some t"
| "strip_prefix (p # ps) [] = None"
| "strip_prefix (p # ps) (x # xs) = (if p = x then strip_prefix ps xs else None)"

fun path_parts :: "text list \<Rightarrow> text list \<Rightarrow> text list option" where
  "path_parts parts [] = Some parts"
| "path_parts parts (p # ps) =
     (if p = [] \<or> p = ascii ''.'' then path_parts parts ps
      else if p = ascii ''..'' then (if parts = [] then None else path_parts (butlast parts) ps)
      else path_parts (parts @ [p]) ps)"

definition file_uri_parts :: "text \<Rightarrow> text list option" where
  "file_uri_parts uri =
     (case strip_prefix (ascii ''file://'') uri of
        None \<Rightarrow> None
      | Some raw_path \<Rightarrow>
          if raw_path = [] \<or> contains_text (ascii ''%'') raw_path \<or> contains_text [92] raw_path then None
          else path_parts [] (split_at_char 47 raw_path))"

definition normalize_file_uri_path :: "text \<Rightarrow> text option" where
  "normalize_file_uri_path uri =
     (case file_uri_parts uri of
        None \<Rightarrow> None
      | Some parts \<Rightarrow>
          if parts = [] then Some (ascii ''/'')
          else Some (ascii ''/'' @ join_text (ascii ''/'') parts))"

definition is_path_within_root :: "text \<Rightarrow> text \<Rightarrow> bool" where
  "is_path_within_root path root \<longleftrightarrow>
     root = ascii ''/'' \<or> path = root \<or>
     pred_option (starts_with (ascii ''/'')) (strip_prefix root path) \<and> strip_prefix root path \<noteq> None"

section \<open>The registry\<close>

record root =
  ro_uri :: "text"
  ro_name :: "text option"

record roots_registry =
  rr_roots :: "root list"
  rr_changes :: nat

definition root_new :: "text \<Rightarrow> root" where
  "root_new uri = \<lparr>ro_uri = uri, ro_name = None\<rparr>"

definition root_with_name :: "text \<Rightarrow> text \<Rightarrow> root" where
  "root_with_name uri name = \<lparr>ro_uri = uri, ro_name = Some name\<rparr>"

definition roots_new :: roots_registry where
  "roots_new = \<lparr>rr_roots = [], rr_changes = 0\<rparr>"

definition add_root :: "root \<Rightarrow> roots_registry \<Rightarrow> roots_registry" where
  "add_root r reg = reg\<lparr>rr_roots := rr_roots reg @ [r], rr_changes := rr_changes reg + 1\<rparr>"

definition remove_root :: "text \<Rightarrow> roots_registry \<Rightarrow> bool \<times> roots_registry" where
  "remove_root uri reg =
     (let kept = filter (\<lambda>r. ro_uri r \<noteq> uri) (rr_roots reg);
          removed = length kept < length (rr_roots reg)
      in (removed,
          reg\<lparr>rr_roots := kept, rr_changes := rr_changes reg + (if removed then 1 else 0)\<rparr>))"

definition roots_clear :: "roots_registry \<Rightarrow> roots_registry" where
  "roots_clear reg =
     (if rr_roots reg \<noteq> [] then reg\<lparr>rr_roots := [], rr_changes := rr_changes reg + 1\<rparr> else reg)"

definition allows_uri :: "roots_registry \<Rightarrow> text \<Rightarrow> bool" where
  "allows_uri reg uri =
     (if \<not> starts_with (ascii ''file://'') uri then True
      else if rr_roots reg = [] then False
      else
        case normalize_file_uri_path uri of
          None \<Rightarrow> False
        | Some uri_path \<Rightarrow>
            list_ex (\<lambda>r. case normalize_file_uri_path (ro_uri r) of
                None \<Rightarrow> False
              | Some root_path \<Rightarrow> is_path_within_root uri_path root_path) (rr_roots reg))"

section \<open>Components\<close>

lemma strip_prefix_eq: "strip_prefix p t = Some s \<longleftrightarrow> t = p @ s"
  by (induction p t rule: strip_prefix.induct) auto

lemma within_root_iff:
  "is_path_within_root path root \<longleftrightarrow>
     root = ascii ''/'' \<or> path = root \<or> (\<exists>s. path = root @ 47 # s)"
proof -
  have slash: "ascii ''/'' = [47]" by (simp add: ascii_def)
  have "pred_option (starts_with [47]) (strip_prefix root path) \<and> strip_prefix root path \<noteq> None \<longleftrightarrow>
      (\<exists>s. path = root @ 47 # s)"
    by (cases "strip_prefix root path") (auto simp: starts_with_iff simp flip: strip_prefix_eq)
  then show ?thesis by (simp add: is_path_within_root_def slash)
qed

text \<open>An ordinary path component names a file or directory: it is no way up and hides no separator.\<close>

definition plain_part :: "text \<Rightarrow> bool" where
  "plain_part p \<longleftrightarrow> p \<noteq> [] \<and> p \<noteq> ascii ''.'' \<and> p \<noteq> ascii ''..'' \<and> set p \<inter> {37, 47, 92} = {}"

lemma split_at_char_parts:
  "p \<in> set (split_at_char c t) \<Longrightarrow> set p \<subseteq> set t - {c}"
proof (induction t arbitrary: p)
  case (Cons x t)
  then show ?case
    by (cases "split_at_char c t") (fastforce split: if_splits)+
qed simp

lemma path_parts_plain:
  assumes "path_parts parts ps = Some qs" and "\<forall>p \<in> set parts. plain_part p"
    and "\<forall>p \<in> set ps. set p \<inter> {37, 47, 92} = {}"
  shows "\<forall>q \<in> set qs. plain_part q"
  using assms
proof (induction parts ps rule: path_parts.induct)
  case (2 parts p ps)
  have rest: "\<forall>p \<in> set ps. set p \<inter> {37, 47, 92} = {}" using "2.prems" by simp
  consider "p = [] \<or> p = ascii ''.''" | "\<not> (p = [] \<or> p = ascii ''.'')" "p = ascii ''..''"
    | "\<not> (p = [] \<or> p = ascii ''.'')" "p \<noteq> ascii ''..''" by blast
  then show ?case
  proof cases
    case 1
    then have "path_parts parts ps = Some qs" using "2.prems"(1) by (simp only: path_parts.simps if_True)
    with 1 show ?thesis using "2.IH"(1) "2.prems"(2) rest by blast
  next
    case 2
    then have up: "parts \<noteq> []" "path_parts (butlast parts) ps = Some qs"
      using "2.prems"(1) by (simp_all split: if_splits)
    with 2 show ?thesis using "2.IH"(2) "2.prems"(2) rest by (blast dest: in_set_butlastD)
  next
    case 3
    then have "path_parts (parts @ [p]) ps = Some qs" using "2.prems"(1) by simp
    moreover have "\<forall>x \<in> set (parts @ [p]). plain_part x"
      using 3 "2.prems"(2,3) by (simp add: plain_part_def)
    ultimately show ?thesis using "2.IH"(3) 3 rest by blast
  qed
qed simp

lemma contains_char: "contains_text [c] t \<longleftrightarrow> c \<in> set t"
  by (auto simp: contains_text_iff in_set_conv_decomp)

lemma file_uri_parts_plain:
  assumes "file_uri_parts uri = Some parts"
  shows "\<forall>p \<in> set parts. plain_part p"
proof -
  from assms obtain raw where raw: "contains_text (ascii ''%'') raw = False"
    "contains_text [92] raw = False" "path_parts [] (split_at_char 47 raw) = Some parts"
    by (auto simp: file_uri_parts_def split: option.splits if_splits)
  have "ascii ''%'' = [37]" by (simp add: ascii_def)
  with raw have "37 \<notin> set raw" "92 \<notin> set raw" by (simp_all add: contains_char)
  then have "\<forall>p \<in> set (split_at_char 47 raw). set p \<inter> {37, 47, 92} = {}"
    using split_at_char_parts [of _ 47 raw] by fastforce
  with path_parts_plain [OF raw(3)] show ?thesis by simp
qed

definition path_of :: "text list \<Rightarrow> text" where
  "path_of parts = concat (map ((#) 47) parts)"

lemma path_of_simps [simp]: "path_of [] = []" "path_of (p # ps) = 47 # p @ path_of ps"
  by (simp_all add: path_of_def)

lemma join_path_of: "parts \<noteq> [] \<Longrightarrow> ascii ''/'' @ join_text (ascii ''/'') parts = path_of parts"
proof (induction "ascii ''/''" parts rule: join_text.induct)
  case (3 p q ps)
  then show ?case by (simp add: ascii_def)
qed (simp_all add: ascii_def)

definition shown_path :: "text list \<Rightarrow> text" where
  "shown_path parts = (if parts = [] then ascii ''/'' else path_of parts)"

lemma normalized_eq: "normalize_file_uri_path uri = map_option shown_path (file_uri_parts uri)"
  by (auto simp: normalize_file_uri_path_def shown_path_def join_path_of split: option.splits)

lemma first_part_eq:
  assumes "a @ s = b @ t" and "47 \<notin> set a" and "47 \<notin> set b"
    and "s = [] \<or> hd s = 47" and "t = [] \<or> hd t = (47 :: nat)"
  shows "a = b \<and> s = t"
proof -
  have "takeWhile (\<lambda>c. c \<noteq> 47) (u @ v) = u" if "47 \<notin> set u" "v = [] \<or> hd v = (47 :: nat)" for u v
    using that by (cases v) (auto simp: takeWhile_append)
  from this [of a s] this [of b t] assms have "a = b" by simp
  with assms(1) show ?thesis by simp
qed

lemma path_of_start: "path_of parts = [] \<or> hd (path_of parts) = 47"
  by (cases parts) auto

lemma path_of_prefix:
  assumes "\<forall>p \<in> set ps. plain_part p" and "\<forall>q \<in> set qs. plain_part q"
  shows "(\<exists>s. path_of ps = path_of qs @ s \<and> (s = [] \<or> hd s = 47)) \<longleftrightarrow> prefix qs ps"
  using assms
proof (induction qs arbitrary: ps)
  case Nil
  then show ?case using path_of_start [of ps] by simp
next
  case (Cons q qs)
  show ?case
  proof (cases ps)
    case Nil
    then show ?thesis by simp
  next
    case (Cons p ps')
    have sep: "47 \<notin> set p" "47 \<notin> set q"
      using Cons.prems Cons by (auto simp: plain_part_def)
    have "path_of ps = path_of (q # qs) @ s \<longleftrightarrow> p = q \<and> path_of ps' = path_of qs @ s"
      if "s = [] \<or> hd s = 47" for s
    proof -
      have "path_of qs @ s = [] \<or> hd (path_of qs @ s) = 47"
        using that path_of_start [of qs] by (auto simp: hd_append)
      then show ?thesis
        using first_part_eq [of p "path_of ps'" q "path_of qs @ s"] sep path_of_start [of ps']
        by (auto simp: Cons)
    qed
    then have "(\<exists>s. path_of ps = path_of (q # qs) @ s \<and> (s = [] \<or> hd s = 47)) \<longleftrightarrow>
        p = q \<and> (\<exists>s. path_of ps' = path_of qs @ s \<and> (s = [] \<or> hd s = 47))" by blast
    with Cons.IH [of ps'] Cons.prems Cons show ?thesis by auto
  qed
qed

lemma within_root_parts:
  assumes "\<forall>p \<in> set ps. plain_part p" and "\<forall>q \<in> set qs. plain_part q"
  shows "is_path_within_root (shown_path ps) (shown_path qs) \<longleftrightarrow> prefix qs ps"
proof -
  have slash: "ascii ''/'' = [47]" by (simp add: ascii_def)
  have long: "path_of qs \<noteq> [47]" if "qs \<noteq> []"
    using that assms(2) by (cases qs) (auto simp: plain_part_def)
  have tail: "(\<exists>s. x = y @ s \<and> (s = [] \<or> hd s = 47)) \<longleftrightarrow> x = y \<or> (\<exists>s. x = y @ 47 # s)"
    for x y :: "text"
    by (metis append_Nil2 hd_Cons_tl list.sel(1))
  show ?thesis
  proof (cases "qs = []")
    case False
    have "\<not> (\<exists>s. [47] = path_of qs @ s \<and> (s = [] \<or> hd s = 47))"
      using False assms(2) by (cases qs) (auto simp: plain_part_def)
    then show ?thesis
      using False long path_of_prefix [OF assms]
      by (cases "ps = []") (auto simp: shown_path_def within_root_iff slash simp flip: tail)
  qed (simp add: within_root_iff shown_path_def)
qed


lemma uppercase_scheme_passes: "allows_uri roots_new (ascii ''FILE:///etc/passwd'')"
  by code_simp

text \<open>The change notifications count exactly the operations that changed the registry.\<close>

lemma roots_changes:
  "rr_changes (add_root r reg) = rr_changes reg + 1"
  "rr_changes (snd (remove_root uri reg)) =
     rr_changes reg + (if rr_roots (snd (remove_root uri reg)) \<noteq> rr_roots reg then 1 else 0)"
  "rr_changes (roots_clear reg) = rr_changes reg + (if rr_roots (roots_clear reg) \<noteq> rr_roots reg then 1 else 0)"
proof -
  have "length (filter P xs) < length xs \<longleftrightarrow> filter P xs \<noteq> xs" for P and xs :: "root list"
    using length_filter_less [of _ xs P] by (metis filter_True less_irrefl)
  then show "rr_changes (snd (remove_root uri reg)) =
     rr_changes reg + (if rr_roots (snd (remove_root uri reg)) \<noteq> rr_roots reg then 1 else 0)"
    by (simp add: remove_root_def Let_def)
qed (auto simp: add_root_def roots_clear_def)

end
