(* ===== verification/Mcp_Versions.thy ===== *)
theory Mcp_Versions
  imports Text
begin

text \<open>
  Protocol versions of the MCP adapters and their negotiation (\<open>ProtocolVersion\<close> and
  \<open>VersionNegotiator\<close> in \<open>src/src/compat/mcp2025.rs\<close>). The derived order of the versions is an
  instance of the library's class of linear orders.
\<close>

datatype mcp_version = V2024_11_05 | V2025_03_26 | V2025_06_18

fun version_rank :: "mcp_version \<Rightarrow> nat" where
  "version_rank V2024_11_05 = 0"
| "version_rank V2025_03_26 = 1"
| "version_rank V2025_06_18 = 2"

lemma version_rank_inject: "version_rank v = version_rank w \<longleftrightarrow> v = w"
  by (cases v; cases w) auto

instantiation mcp_version :: linorder
begin

definition less_eq_mcp_version :: "mcp_version \<Rightarrow> mcp_version \<Rightarrow> bool" where
  "less_eq_mcp_version v w \<longleftrightarrow> version_rank v \<le> version_rank w"

definition less_mcp_version :: "mcp_version \<Rightarrow> mcp_version \<Rightarrow> bool" where
  "less_mcp_version v w \<longleftrightarrow> version_rank v < version_rank w"

instance
  by standard (auto simp: less_eq_mcp_version_def less_mcp_version_def version_rank_inject)

end

definition version_default :: mcp_version where "version_default = V2024_11_05"

definition version_from_str :: "text \<Rightarrow> mcp_version option" where
  "version_from_str s =
     (if s = ascii ''2024-11-05'' then Some V2024_11_05
      else if s = ascii ''2025-03-26'' then Some V2025_03_26
      else if s = ascii ''2025-06-18'' then Some V2025_06_18
      else None)"

fun version_as_str :: "mcp_version \<Rightarrow> text" where
  "version_as_str V2024_11_05 = ascii ''2024-11-05''"
| "version_as_str V2025_03_26 = ascii ''2025-03-26''"
| "version_as_str V2025_06_18 = ascii ''2025-06-18''"

definition supports_roots :: "mcp_version \<Rightarrow> bool" where
  "supports_roots v \<longleftrightarrow> V2025_03_26 \<le> v"

definition supports_elicitation :: "mcp_version \<Rightarrow> bool" where
  "supports_elicitation v \<longleftrightarrow> V2025_06_18 \<le> v"

definition supports_progress :: "mcp_version \<Rightarrow> bool" where
  "supports_progress v \<longleftrightarrow> V2025_03_26 \<le> v"

definition supports_structured_output :: "mcp_version \<Rightarrow> bool" where
  "supports_structured_output v \<longleftrightarrow> V2025_06_18 \<le> v"

definition all_versions :: "mcp_version list" where
  "all_versions = [V2024_11_05, V2025_03_26, V2025_06_18]"

definition version_latest :: mcp_version where "version_latest = V2025_06_18"

text \<open>A negotiator is its latest supported version.\<close>

type_synonym version_negotiator = mcp_version

definition negotiator_new :: version_negotiator where "negotiator_new = version_latest"

definition try_negotiate :: "version_negotiator \<Rightarrow> text \<Rightarrow> mcp_version option" where
  "try_negotiate latest requested =
     (case version_from_str requested of
        None \<Rightarrow> None
      | Some version \<Rightarrow> if version \<le> latest then Some version else None)"

definition negotiate_version :: "version_negotiator \<Rightarrow> text \<Rightarrow> mcp_version" where
  "negotiate_version latest requested =
     (case try_negotiate latest requested of None \<Rightarrow> version_default | Some version \<Rightarrow> version)"

lemma version_from_as_str: "version_from_str s = Some v \<longleftrightarrow> s = version_as_str v"
  by (cases v) (auto simp: version_from_str_def split: if_splits)

lemma all_versions_complete: "set all_versions = UNIV"
proof -
  have "v \<in> set all_versions" for v by (cases v) (simp_all add: all_versions_def)
  then show ?thesis by auto
qed

lemma version_default_least: "version_default \<le> v"
  by (simp add: version_default_def less_eq_mcp_version_def)

lemma try_negotiate_iff: "try_negotiate latest s = Some v \<longleftrightarrow> s = version_as_str v \<and> v \<le> latest"
  by (cases "version_from_str s") (auto simp: try_negotiate_def simp flip: version_from_as_str)

text \<open>Version negotiation. The strict negotiation answers exactly the requested version, and only
  when it is known and not newer than the server's latest; the lenient one answers it too, and the
  least version otherwise, so a client never gets a version beyond either side. A newer version keeps
  every feature of an older one.\<close>

theorem negotiation_sound:
  "(try_negotiate latest s = Some v \<longleftrightarrow> s = version_as_str v \<and> v \<le> latest) \<and>
   negotiate_version latest s \<le> latest \<and>
   (negotiate_version latest s \<noteq> V2024_11_05 \<longrightarrow> s = version_as_str (negotiate_version latest s)) \<and>
   (v \<le> w \<longrightarrow>
     (supports_roots v \<longrightarrow> supports_roots w) \<and> (supports_elicitation v \<longrightarrow> supports_elicitation w) \<and>
     (supports_progress v \<longrightarrow> supports_progress w) \<and>
     (supports_structured_output v \<longrightarrow> supports_structured_output w))"
proof -
  have "negotiate_version latest s \<le> latest \<and>
      (negotiate_version latest s \<noteq> V2024_11_05 \<longrightarrow> s = version_as_str (negotiate_version latest s))"
  proof (cases "try_negotiate latest s")
    case None
    then show ?thesis
      using version_default_least [of latest] by (simp add: negotiate_version_def version_default_def)
  next
    case (Some u)
    then have "s = version_as_str u" "u \<le> latest" by (simp_all add: try_negotiate_iff)
    moreover have "negotiate_version latest s = u" using Some by (simp add: negotiate_version_def)
    ultimately show ?thesis by simp
  qed
  then show ?thesis
    by (auto simp: try_negotiate_iff supports_roots_def supports_elicitation_def
        supports_progress_def supports_structured_output_def)
qed

lemma negotiation_sound_witness:
  "try_negotiate negotiator_new (ascii ''2025-03-26'') = Some V2025_03_26 \<and>
   supports_roots V2025_06_18"
proof -
  have "V2025_03_26 \<le> negotiator_new" "V2025_03_26 \<le> V2025_06_18" "supports_roots V2025_03_26"
    by code_simp+
  then show ?thesis
    using negotiation_sound [of negotiator_new "ascii ''2025-03-26''" V2025_03_26 V2025_06_18] by simp
qed

end
