(* ===== verification/Cancellation.thy ===== *)
theory Cancellation
  imports Json_Rpc
begin

text \<open>
  Cancellation of requests (\<open>CancellationToken\<close> and \<open>CancellationManager\<close> in
  \<open>src/src/compat/mcp2025.rs\<close>). A token is shared behind an \<open>Arc\<close>: the manager maps a key to a
  reference into a store of tokens, and whoever created a token keeps its reference after the manager
  has forgotten it. The compare-and-exchange of a token and the write of its reason are one step.
\<close>

section \<open>Tokens\<close>

datatype cancellation_state = ActiveRequest | CancelledRequest | CompletedRequest

record cancellation_token =
  ct_request_id :: request_id
  ct_state :: u8
  ct_reason :: "text option"

definition token_new :: "request_id \<Rightarrow> cancellation_token" where
  "token_new i = \<lparr>ct_request_id = i, ct_state = 0, ct_reason = None\<rparr>"

definition token_state :: "cancellation_token \<Rightarrow> cancellation_state" where
  "token_state t =
     (if ct_state t = 1 then CancelledRequest
      else if ct_state t = 2 then CompletedRequest
      else ActiveRequest)"

definition token_is_cancelled :: "cancellation_token \<Rightarrow> bool" where
  "token_is_cancelled t \<longleftrightarrow> ct_state t = 1"

definition token_is_completed :: "cancellation_token \<Rightarrow> bool" where
  "token_is_completed t \<longleftrightarrow> ct_state t = 2"

definition token_cancel :: "text option \<Rightarrow> cancellation_token \<Rightarrow> bool \<times> cancellation_token" where
  "token_cancel reason t =
     (if ct_state t = 0 then (True, t\<lparr>ct_state := 1, ct_reason := reason\<rparr>) else (False, t))"

definition token_complete :: "cancellation_token \<Rightarrow> bool \<times> cancellation_token" where
  "token_complete t = (if ct_state t = 0 then (True, t\<lparr>ct_state := 2\<rparr>) else (False, t))"

section \<open>The manager\<close>

definition request_id_to_key :: "request_id \<Rightarrow> text" where
  "request_id_to_key i =
     (case i of
        IdNumber n \<Rightarrow> ascii ''n:'' @ decimal_int (sint n)
      | IdString s \<Rightarrow> ascii ''s:'' @ s
      | IdNull \<Rightarrow> ascii ''null''
      | IdMissing \<Rightarrow> ascii ''missing'')"

record cancellation_manager =
  cm_tokens :: "(text, nat) hmap"
  cm_store :: "cancellation_token list"

definition manager_new :: cancellation_manager where
  "manager_new = \<lparr>cm_tokens = [], cm_store = []\<rparr>"

definition create_token :: "request_id \<Rightarrow> cancellation_manager \<Rightarrow> nat \<times> cancellation_manager" where
  "create_token i m =
     (let t = length (cm_store m)
      in (t, m\<lparr>cm_tokens := hm_insert (request_id_to_key i) t (cm_tokens m),
              cm_store := cm_store m @ [token_new i]\<rparr>))"

definition get_token :: "request_id \<Rightarrow> cancellation_manager \<Rightarrow> nat option" where
  "get_token i m = hm_get (cm_tokens m) (request_id_to_key i)"

definition manager_cancel ::
  "request_id \<Rightarrow> text option \<Rightarrow> cancellation_manager \<Rightarrow> bool \<times> cancellation_manager" where
  "manager_cancel i reason m =
     (case get_token i m of
        None \<Rightarrow> (False, m)
      | Some t \<Rightarrow>
          let (done, token) = token_cancel reason (cm_store m ! t)
          in (done, m\<lparr>cm_store := (cm_store m)[t := token]\<rparr>))"

definition complete_token :: "nat \<Rightarrow> cancellation_manager \<Rightarrow> bool \<times> cancellation_manager" where
  "complete_token t m =
     (let (done, token) = token_complete (cm_store m ! t)
      in (done, m\<lparr>cm_store := (cm_store m)[t := token]\<rparr>))"

definition remove_token :: "request_id \<Rightarrow> cancellation_manager \<Rightarrow> cancellation_manager" where
  "remove_token i m = m\<lparr>cm_tokens := hm_remove (request_id_to_key i) (cm_tokens m)\<rparr>"

definition manager_is_cancelled :: "request_id \<Rightarrow> cancellation_manager \<Rightarrow> bool" where
  "manager_is_cancelled i m =
     (case get_token i m of None \<Rightarrow> False | Some t \<Rightarrow> token_is_cancelled (cm_store m ! t))"

definition active_count :: "cancellation_manager \<Rightarrow> nat" where
  "active_count m = hm_len (cm_tokens m)"

section \<open>Steps\<close>

datatype cancel_op = CreateToken request_id | CancelRequest request_id "text option"
  | CompleteToken nat | RemoveToken request_id

text \<open>Completing names a token somebody holds, so the reference is one the manager handed out.\<close>

definition cancel_step :: "cancel_op \<Rightarrow> cancellation_manager \<Rightarrow> bool \<times> cancellation_manager" where
  "cancel_step oper m =
     (case oper of
        CreateToken i \<Rightarrow> (True, snd (create_token i m))
      | CancelRequest i reason \<Rightarrow> manager_cancel i reason m
      | CompleteToken t \<Rightarrow> if t < length (cm_store m) then complete_token t m else (False, m)
      | RemoveToken i \<Rightarrow> (True, remove_token i m))"

inductive cancel_reach :: "cancellation_manager \<Rightarrow> cancellation_manager \<Rightarrow> bool" where
  refl: "cancel_reach m m"
| step: "cancel_reach m n \<Longrightarrow> cancel_reach m (snd (cancel_step oper n))"

inductive_cases cancel_reachE: "cancel_reach m n"

definition manager_ok :: "cancellation_manager \<Rightarrow> bool" where
  "manager_ok m \<longleftrightarrow>
     (\<forall>t \<in> set (cm_store m). ct_state t \<in> {0, 1, 2} \<and> (ct_state t \<noteq> 1 \<longrightarrow> ct_reason t = None)) \<and>
     (\<forall>k t. hm_get (cm_tokens m) k = Some t \<longrightarrow>
        t < length (cm_store m) \<and> k = request_id_to_key (ct_request_id (cm_store m ! t)))"

lemma key_inject [simp]: "request_id_to_key a = request_id_to_key b \<longleftrightarrow> a = b"
  by (cases a; cases b) (auto simp: request_id_to_key_def ascii_def dest: signed_word_eqI)

lemma token_settles:
  "ct_request_id (snd (token_cancel r t)) = ct_request_id t"
  "ct_request_id (snd (token_complete t)) = ct_request_id t"
  by (simp_all add: token_cancel_def token_complete_def)

lemma manager_ok_new: "manager_ok manager_new"
  by (simp add: manager_ok_def manager_new_def)

lemma manager_ok_store:
  assumes "manager_ok m" and "t < length (cm_store m)"
    and "ct_request_id token = ct_request_id (cm_store m ! t)"
    and "ct_state token \<in> {0, 1, 2}" "ct_state token \<noteq> 1 \<longrightarrow> ct_reason token = None"
  shows "manager_ok (m\<lparr>cm_store := (cm_store m)[t := token]\<rparr>)"
  using assms set_update_subset_insert [of "cm_store m" t token]
  unfolding manager_ok_def by (auto simp: nth_list_update)

lemma manager_ok_step: "manager_ok m \<Longrightarrow> manager_ok (snd (cancel_step oper m))"
proof (cases oper)
  case (CreateToken i)
  moreover assume "manager_ok m"
  ultimately show ?thesis
    by (auto simp: manager_ok_def cancel_step_def create_token_def Let_def token_new_def nth_append
        less_Suc_eq split: if_splits)
next
  case (CancelRequest i reason)
  moreover assume ok: "manager_ok m"
  moreover have "manager_ok (m\<lparr>cm_store := (cm_store m)[t := snd (token_cancel reason (cm_store m ! t))]\<rparr>)"
    if "get_token i m = Some t" for t
    using ok that nth_mem [of t "cm_store m"]
    by (intro manager_ok_store) (auto simp: manager_ok_def get_token_def token_cancel_def)
  ultimately show ?thesis
    by (simp add: cancel_step_def manager_cancel_def split_beta split: option.splits)
next
  case (CompleteToken t)
  moreover assume ok: "manager_ok m"
  moreover have "manager_ok (m\<lparr>cm_store := (cm_store m)[t := snd (token_complete (cm_store m ! t))]\<rparr>)"
    if "t < length (cm_store m)"
    using ok that nth_mem [OF that]
    by (intro manager_ok_store) (auto simp: manager_ok_def token_complete_def)
  ultimately show ?thesis
    by (simp add: cancel_step_def complete_token_def split_beta)
next
  case (RemoveToken i)
  moreover assume "manager_ok m"
  ultimately show ?thesis by (simp add: manager_ok_def cancel_step_def remove_token_def)
qed

lemma manager_ok_reach: "cancel_reach m n \<Longrightarrow> manager_ok m \<Longrightarrow> manager_ok n"
  by (induction rule: cancel_reach.induct) (auto intro: manager_ok_step)

section \<open>A decision is final\<close>

text \<open>A token of the store at \<open>n\<close> is the token at \<open>m\<close>, unless it was still active at \<open>m\<close>.\<close>

definition settled_kept :: "cancellation_manager \<Rightarrow> cancellation_manager \<Rightarrow> bool" where
  "settled_kept m n \<longleftrightarrow> length (cm_store m) \<le> length (cm_store n) \<and>
     (\<forall>t < length (cm_store m). ct_state (cm_store m ! t) \<noteq> 0 \<longrightarrow> cm_store n ! t = cm_store m ! t)"

lemma update_active_keeps_settled:
  "ct_state (ts ! u) = 0 \<Longrightarrow> ct_state (ts ! t) \<noteq> 0 \<Longrightarrow> ts[u := x] ! t = ts ! t"
  by (metis nth_list_update_neq)

lemma settled_kept_step: "settled_kept m (snd (cancel_step oper m))"
proof (cases oper)
  case (CancelRequest i reason)
  then show ?thesis
    by (auto simp: settled_kept_def cancel_step_def manager_cancel_def token_cancel_def split_beta
        update_active_keeps_settled split: option.splits)
qed (auto simp: settled_kept_def cancel_step_def create_token_def Let_def nth_append complete_token_def
    token_complete_def remove_token_def split_beta nth_list_update)

lemma settled_kept_trans: "settled_kept m n \<Longrightarrow> settled_kept n l \<Longrightarrow> settled_kept m l"
  unfolding settled_kept_def by (metis dual_order.trans order_less_le_trans)

lemma settled_kept_reach: "cancel_reach m n \<Longrightarrow> settled_kept m n"
proof (induction rule: cancel_reach.induct)
  case (refl m)
  then show ?case by (simp add: settled_kept_def)
next
  case (step m n oper)
  then show ?case using settled_kept_trans settled_kept_step by blast
qed


definition sample_manager :: cancellation_manager where
  "sample_manager = snd (cancel_step (CreateToken (IdNumber 7)) manager_new)"


end
