(* ===== verification/Elicitation.thy ===== *)
theory Elicitation
  imports Mcp_Trackers
begin

text \<open>
  Elicitation of user input (\<open>ElicitationHandler\<close> in \<open>src/src/compat/mcp2025.rs\<close>): restricted
  schemas, the validation of answers, and the table of pending requests. A request is created, then
  answered or not, then finished by its creator, who wakes up with the answer or the timeout and
  removes the entry; the one-shot channel of a request is a cell of the state. A text that the
  code formats with the standard library's number and list formatting is a parameter.
\<close>

section \<open>Schemas and answers\<close>

record property_schema =
  pr_type :: "text"
  pr_description :: "text option"
  pr_format :: "text option"
  pr_minimum :: "u64 option"
  pr_maximum :: "u64 option"
  pr_enum_values :: "text list option"

definition property_default :: property_schema where
  "property_default =
     \<lparr>pr_type = [], pr_description = None, pr_format = None, pr_minimum = None, pr_maximum = None,
      pr_enum_values = None\<rparr>"

definition property_string :: property_schema where
  "property_string = property_default\<lparr>pr_type := ascii ''string''\<rparr>"

definition property_number :: property_schema where
  "property_number = property_default\<lparr>pr_type := ascii ''number''\<rparr>"

definition property_boolean :: property_schema where
  "property_boolean = property_default\<lparr>pr_type := ascii ''boolean''\<rparr>"

definition property_enumeration :: "text list \<Rightarrow> property_schema" where
  "property_enumeration vs = property_default\<lparr>pr_type := ascii ''string'', pr_enum_values := Some vs\<rparr>"

definition property_with_description :: "text \<Rightarrow> property_schema \<Rightarrow> property_schema" where
  "property_with_description t p = p\<lparr>pr_description := Some t\<rparr>"

definition property_with_format :: "text \<Rightarrow> property_schema \<Rightarrow> property_schema" where
  "property_with_format t p = p\<lparr>pr_format := Some t\<rparr>"

definition property_with_minimum :: "u64 \<Rightarrow> property_schema \<Rightarrow> property_schema" where
  "property_with_minimum x p = p\<lparr>pr_minimum := Some x\<rparr>"

definition property_with_maximum :: "u64 \<Rightarrow> property_schema \<Rightarrow> property_schema" where
  "property_with_maximum x p = p\<lparr>pr_maximum := Some x\<rparr>"

record elicitation_schema =
  es_type :: "text"
  es_properties :: "(text, property_schema) hmap option"
  es_required :: "text list option"

definition schema_object :: elicitation_schema where
  "schema_object = \<lparr>es_type = ascii ''object'', es_properties = Some [], es_required = None\<rparr>"

definition with_property :: "text \<Rightarrow> property_schema \<Rightarrow> elicitation_schema \<Rightarrow> elicitation_schema" where
  "with_property name prop s =
     s\<lparr>es_properties :=
        Some (hm_insert name prop (case es_properties s of None \<Rightarrow> [] | Some m \<Rightarrow> m))\<rparr>"

definition with_required :: "text \<Rightarrow> elicitation_schema \<Rightarrow> elicitation_schema" where
  "with_required name s =
     s\<lparr>es_required := Some ((case es_required s of None \<Rightarrow> [] | Some r \<Rightarrow> r) @ [name])\<rparr>"

datatype elicitation_action = AcceptInput | DeclineInput | CancelInput

record elicitation_request =
  eq_message :: "text"
  eq_requested_schema :: "elicitation_schema option"

definition elicitation_request_new :: "text \<Rightarrow> elicitation_request" where
  "elicitation_request_new message = \<lparr>eq_message = message, eq_requested_schema = None\<rparr>"

definition elicitation_request_with_schema :: "text \<Rightarrow> elicitation_schema \<Rightarrow> elicitation_request" where
  "elicitation_request_with_schema message s = \<lparr>eq_message = message, eq_requested_schema = Some s\<rparr>"

record elicitation_response =
  el_action :: elicitation_action
  el_content :: "json option"

definition elicit_accept :: "json \<Rightarrow> elicitation_response" where
  "elicit_accept content = \<lparr>el_action = AcceptInput, el_content = Some content\<rparr>"

definition elicit_decline :: elicitation_response where
  "elicit_decline = \<lparr>el_action = DeclineInput, el_content = None\<rparr>"

definition elicit_cancel :: elicitation_response where
  "elicit_cancel = \<lparr>el_action = CancelInput, el_content = None\<rparr>"

datatype elicitation_error = ElicitCancelled | ElicitTimeout | ElicitValidationFailed "text"

text \<open>Formatting of enumeration lists and of doubles, and the conversion of a number to a double.\<close>

record elicit_library =
  lb_show_values :: "text list \<Rightarrow> text"
  lb_show_f64 :: "u64 \<Rightarrow> text"
  lb_as_f64 :: "json_number \<Rightarrow> u64 option"

section \<open>Validation\<close>

definition must :: "text \<Rightarrow> text \<Rightarrow> elicitation_error" where
  "must name what = ElicitValidationFailed (ascii ''field '' @ [39] @ name @ [39] @ ascii '' must be '' @ what)"

definition validate_property_type ::
  "elicit_library \<Rightarrow> text \<Rightarrow> property_schema \<Rightarrow> json \<Rightarrow> elicitation_error + unit" where
  "validate_property_type lb name schema v =
     (if pr_type schema = ascii ''string'' then
        (case as_str v of
           None \<Rightarrow> Inl (must name (ascii ''a string''))
         | Some s \<Rightarrow>
             (case pr_enum_values schema of
                None \<Rightarrow> Inr ()
              | Some vs \<Rightarrow>
                  if s \<notin> set vs then Inl (must name (ascii ''one of: '' @ lb_show_values lb vs))
                  else Inr ()))
      else if pr_type schema = ascii ''number'' then
        (case (case v of JNumber n \<Rightarrow> lb_as_f64 lb n | _ \<Rightarrow> None) of
           None \<Rightarrow> Inl (must name (ascii ''a number''))
         | Some n \<Rightarrow>
             (case pr_minimum schema of
                Some lo \<Rightarrow>
                  if f64_less n lo then Inl (must name (ascii ''>= '' @ lb_show_f64 lb lo)) else
                  (case pr_maximum schema of
                     Some hi \<Rightarrow> if f64_less hi n then Inl (must name (ascii ''<= '' @ lb_show_f64 lb hi)) else Inr ()
                   | None \<Rightarrow> Inr ())
              | None \<Rightarrow>
                  (case pr_maximum schema of
                     Some hi \<Rightarrow> if f64_less hi n then Inl (must name (ascii ''<= '' @ lb_show_f64 lb hi)) else Inr ()
                   | None \<Rightarrow> Inr ())))
      else if pr_type schema = ascii ''boolean'' then
        (if as_bool v = None then Inl (must name (ascii ''a boolean'')) else Inr ())
      else Inr ())"

fun check_required :: "json \<Rightarrow> text list \<Rightarrow> elicitation_error + unit" where
  "check_required content [] = Inr ()"
| "check_required content (field # fs) =
     (if json_get content field = None
      then Inl (ElicitValidationFailed (ascii ''missing required field: '' @ field))
      else check_required content fs)"

fun check_properties ::
  "elicit_library \<Rightarrow> json_map \<Rightarrow> (text, property_schema) hmap \<Rightarrow> elicitation_error + unit" where
  "check_properties lb obj [] = Inr ()"
| "check_properties lb obj ((name, prop_schema) # props) =
     (case jm_get obj name of
        None \<Rightarrow> check_properties lb obj props
      | Some v \<Rightarrow>
          bind_result (validate_property_type lb name prop_schema v)
            (\<lambda>_. check_properties lb obj props))"

definition validate_response ::
  "elicit_library \<Rightarrow> elicitation_schema \<Rightarrow> json \<Rightarrow> elicitation_error + unit" where
  "validate_response lb schema content =
     bind_result
       (case es_required schema of None \<Rightarrow> Inr () | Some required \<Rightarrow> check_required content required)
       (\<lambda>_. case (es_properties schema, as_object content) of
              (Some properties, Some obj) \<Rightarrow> check_properties lb obj properties
            | _ \<Rightarrow> Inr ())"

section \<open>Pending requests\<close>

record elicitation_handler =
  eh_pending :: "(text, nat) hmap"
  eh_channels :: "elicitation_response option list"
  eh_closed :: "nat set"

definition elicitation_new :: elicitation_handler where
  "elicitation_new = \<lparr>eh_pending = [], eh_channels = [], eh_closed = {}\<rparr>"

definition elicitation_id :: "u64 \<Rightarrow> text" where
  "elicitation_id n = ascii ''elicit-'' @ decimal (unat n)"

text \<open>\<open>create\<close> up to its wait; the counter is a global of the program.\<close>

definition elicit_begin ::
  "u64 \<Rightarrow> elicitation_handler \<Rightarrow> (text \<times> nat) \<times> u64 \<times> elicitation_handler" where
  "elicit_begin counter h =
     (let i = elicitation_id counter; ch = length (eh_channels h)
      in ((i, ch), counter + 1,
          h\<lparr>eh_pending := hm_insert i ch (eh_pending h), eh_channels := eh_channels h @ [None]\<rparr>))"

text \<open>The wait ends: the receiver has the response, or the timeout drops it.\<close>

definition elicit_wake :: "nat \<Rightarrow> elicitation_handler \<Rightarrow> elicitation_response option \<times> elicitation_handler" where
  "elicit_wake ch h = (eh_channels h ! ch, h\<lparr>eh_closed := insert ch (eh_closed h)\<rparr>)"

definition elicit_finish ::
  "elicit_library \<Rightarrow> elicitation_schema option \<Rightarrow> text \<Rightarrow> elicitation_response option \<Rightarrow>
   elicitation_handler \<Rightarrow> (elicitation_error + elicitation_response) \<times> elicitation_handler" where
  "elicit_finish lb requested_schema i result h =
     ((case result of
         None \<Rightarrow> Inl ElicitTimeout
       | Some response \<Rightarrow>
           (case (requested_schema, el_content response) of
              (Some schema, Some content) \<Rightarrow>
                bind_result (validate_response lb schema content) (\<lambda>_. Inr response)
            | _ \<Rightarrow> Inr response)),
      h\<lparr>eh_pending := hm_remove i (eh_pending h)\<rparr>)"

definition elicit_respond ::
  "text \<Rightarrow> elicitation_response \<Rightarrow> elicitation_handler \<Rightarrow> bool \<times> elicitation_handler" where
  "elicit_respond i response h =
     (case hm_get (eh_pending h) i of
        None \<Rightarrow> (False, h)
      | Some ch \<Rightarrow>
          let h' = h\<lparr>eh_pending := hm_remove i (eh_pending h)\<rparr>
          in if ch \<in> eh_closed h then (False, h')
             else (True, h'\<lparr>eh_channels := (eh_channels h)[ch := Some response]\<rparr>))"

definition pending_count :: "elicitation_handler \<Rightarrow> nat" where
  "pending_count h = hm_len (eh_pending h)"

section \<open>What an accepted answer satisfies\<close>

text \<open>The reading of a property schema as a type of JSON values.\<close>

definition has_property_type :: "elicit_library \<Rightarrow> property_schema \<Rightarrow> json \<Rightarrow> bool" where
  "has_property_type lb schema v \<longleftrightarrow>
     (pr_type schema = ascii ''string'' \<longrightarrow>
        (\<exists>s. v = JString s \<and> pred_option (\<lambda>vs. s \<in> set vs) (pr_enum_values schema))) \<and>
     (pr_type schema = ascii ''number'' \<longrightarrow>
        (\<exists>n x. v = JNumber n \<and> lb_as_f64 lb n = Some x \<and>
           pred_option (\<lambda>lo. \<not> f64_less x lo) (pr_minimum schema) \<and>
           pred_option (\<lambda>hi. \<not> f64_less hi x) (pr_maximum schema))) \<and>
     (pr_type schema = ascii ''boolean'' \<longrightarrow> (\<exists>b. v = JBool b))"

lemma as_bool_None: "as_bool v = None \<longleftrightarrow> (\<forall>b. v \<noteq> JBool b)"
  by (cases v) (auto simp: as_bool_def)

lemma json_number_case:
  "(case v of JNumber n \<Rightarrow> f n | _ \<Rightarrow> None) = Some x \<longleftrightarrow> (\<exists>n. v = JNumber n \<and> f n = Some x)"
  by (cases v) auto

lemma validate_property_type_ok:
  "validate_property_type lb name schema v = Inr () \<longleftrightarrow> has_property_type lb schema v"
proof -
  consider "pr_type schema = ascii ''string''" | "pr_type schema = ascii ''number''"
    | "pr_type schema = ascii ''boolean''"
    | "pr_type schema \<notin> {ascii ''string'', ascii ''number'', ascii ''boolean''}" by blast
  then show ?thesis
  proof cases
    case 1
    then show ?thesis
      by (cases v; cases "pr_enum_values schema")
         (auto simp: validate_property_type_def has_property_type_def as_str_def)
  next
    case 2
    let ?n = "case v of JNumber n \<Rightarrow> lb_as_f64 lb n | _ \<Rightarrow> None"
    have number: "?n = Some x \<longleftrightarrow> (\<exists>n. v = JNumber n \<and> lb_as_f64 lb n = Some x)" for x
      by (rule json_number_case)
    show ?thesis
    proof (cases ?n)
      case None
      then have "\<not> (\<exists>n x. v = JNumber n \<and> lb_as_f64 lb n = Some x)" using number by force
      with 2 None show ?thesis by (simp add: validate_property_type_def has_property_type_def)
    next
      case (Some x)
      then obtain n where "v = JNumber n" "lb_as_f64 lb n = Some x" using number by blast
      with 2 Some show ?thesis
        by (cases "pr_minimum schema"; cases "pr_maximum schema")
           (auto simp: validate_property_type_def has_property_type_def)
    qed
  next
    case 3
    then show ?thesis
      by (simp add: validate_property_type_def has_property_type_def as_bool_None)
  next
    case 4
    then show ?thesis by (simp add: validate_property_type_def has_property_type_def)
  qed
qed

lemma check_required_ok: "check_required content fs = Inr () \<longleftrightarrow> (\<forall>f \<in> set fs. json_get content f \<noteq> None)"
  by (induction fs) auto

lemma check_properties_ok:
  "check_properties lb obj props = Inr () \<longleftrightarrow>
     (\<forall>(name, schema) \<in> set props. pred_option (has_property_type lb schema) (jm_get obj name))"
  by (induction lb obj props rule: check_properties.induct)
     (auto simp: bind_result_eq_Inr validate_property_type_ok split: option.splits)

definition answers_schema :: "elicit_library \<Rightarrow> elicitation_schema \<Rightarrow> json \<Rightarrow> bool" where
  "answers_schema lb schema content \<longleftrightarrow>
     (\<forall>fs. es_required schema = Some fs \<longrightarrow> (\<forall>f \<in> set fs. json_get content f \<noteq> None)) \<and>
     (\<forall>props obj. es_properties schema = Some props \<and> content = JObject obj \<longrightarrow>
        (\<forall>(name, prop_schema) \<in> set props. pred_option (has_property_type lb prop_schema) (jm_get obj name)))"

definition answers_request ::
  "elicit_library \<Rightarrow> elicitation_schema option \<Rightarrow> elicitation_response \<Rightarrow> bool" where
  "answers_request lb requested response \<longleftrightarrow>
     (\<forall>schema content. requested = Some schema \<and> el_content response = Some content \<longrightarrow>
        answers_schema lb schema content)"

lemma validate_response_ok: "validate_response lb schema content = Inr () \<longleftrightarrow> answers_schema lb schema content"
  by (cases "es_required schema"; cases "es_properties schema"; cases content)
     (auto simp: validate_response_def answers_schema_def bind_result_eq_Inr check_required_ok
       check_properties_ok as_object_def)

text \<open>Elicited answers are typed. The validation of an answer succeeds exactly when every required
  field is present and each declared property that is present has its declared type: a string, from
  the enumeration if one is given, a number within its bounds, or a boolean; every other answer is an
  error, and the creator of the request gets an answer with content only if it passed.\<close>

theorem elicited_answers_typed:
  "(is_ok (validate_response lb schema content) \<longleftrightarrow> answers_schema lb schema content) \<and>
   (fst (elicit_finish lb requested i result h) = Inr response \<longleftrightarrow>
      result = Some response \<and>
      answers_request lb requested response) \<and>
   (fst (elicit_finish lb requested i result h) = Inl ElicitTimeout \<longleftrightarrow> result = None)"
proof -
  have ok: "is_ok r \<longleftrightarrow> r = Inr ()" for r :: "elicitation_error + unit" by (cases r) auto
  have no_timeout: "validate_response lb s c \<noteq> Inl ElicitTimeout" for s c
  proof -
    have "check_required c fs \<noteq> Inl ElicitTimeout" for fs by (induction fs) auto
    moreover have "validate_property_type lb n p v \<noteq> Inl ElicitTimeout" for n p v
      by (auto simp: validate_property_type_def must_def split: option.splits)
    then have "check_properties lb obj props \<noteq> Inl ElicitTimeout" for obj props
      by (induction lb obj props rule: check_properties.induct)
         (auto simp: bind_result_eq_Inl split: option.splits)
    ultimately show ?thesis
      by (auto simp: validate_response_def bind_result_eq_Inl split: option.splits)
  qed
  have checked: "bind_result (validate_response lb s c) (\<lambda>_. Inr r) = Inr response \<longleftrightarrow>
      r = response \<and> answers_schema lb s c"
    "bind_result (validate_response lb s c) (\<lambda>_. Inr r) \<noteq> Inl ElicitTimeout" for s c r
    using validate_response_ok [of lb s c] no_timeout [of s c]
    by (cases "validate_response lb s c"; auto)+
  have "fst (elicit_finish lb requested i (Some r) h) \<noteq> Inl ElicitTimeout \<and>
      (fst (elicit_finish lb requested i (Some r) h) = Inr response \<longleftrightarrow> r = response \<and>
        (\<forall>schema content. requested = Some schema \<and> el_content r = Some content \<longrightarrow>
          answers_schema lb schema content))" for r
    by (cases requested; cases "el_content r") (auto simp: elicit_finish_def checked)
  moreover have "fst (elicit_finish lb requested i None h) = Inl ElicitTimeout"
    by (simp add: elicit_finish_def)
  ultimately show ?thesis
    by (cases result) (auto simp: ok validate_response_ok answers_request_def)
qed

text \<open>Finishing a request leaves nothing behind, and the entry of an answered request is gone too.\<close>

lemma elicit_entries_removed:
  "hm_get (eh_pending (snd (elicit_finish lb requested i result h))) i = None"
  "hm_get (eh_pending (snd (elicit_respond i response h))) i = None"
  "fst (elicit_respond i response h) \<Longrightarrow>
     \<not> fst (elicit_respond i again (snd (elicit_respond i response h)))"
  by (auto simp: elicit_finish_def elicit_respond_def Let_def split: option.splits)

end
