(* ===== verification/Mcp_Adapter.thy ===== *)
theory Mcp_Adapter
  imports Prompts Router Audit_Log Request_Replay Resource_Registry Roots Mcp_Versions Cancellation
    Elicitation
begin

text \<open>
  The complete MCP adapter (\<open>CompleteMcpAdapter\<close> in \<open>src/src/compat/complete_adapter.rs\<close>): its state,
  registration of tools and prompts, the reading of the client's capabilities, the guards, and the
  answers to errors. Each method takes the state and returns it; an async method holds its locks as
  one step, the clock is read once per request, and the tools of the router act on a world that is
  part of the state. The JSON library, the conversions of tool output and the package version are a
  record of parameters.
\<close>

section \<open>State\<close>

record mcp_library =
  ml_serde :: serde_json
  ml_args :: args_library
  ml_from_slice :: "bytes \<Rightarrow> json option"
  ml_lossy :: "bytes \<Rightarrow> text"
  ml_version :: "text"

datatype log_level = LevelDebug | LevelInfo | LevelWarning | LevelError

record 'w mcp_adapter =
  ad_tool_cache :: "(text, u16) hmap"
  ad_id_to_name :: "(u16, text) hmap"
  ad_resources :: "unit resource_registry"
  ad_prompts :: "(text, prompt_template) hmap"
  ad_log_level :: log_level
  ad_server_name :: "text"
  ad_server_version :: "text"
  ad_protocol_version :: mcp_version
  ad_negotiator :: version_negotiator
  ad_roots :: roots_registry
  ad_subscriptions :: subscription_tracker
  ad_elicitation :: elicitation_handler
  ad_templates :: template_registry
  ad_cancellation :: cancellation_manager
  ad_progress :: progress_tracker
  ad_prompt_ids :: "(text, u16) hmap"
  ad_server_manifest :: manifest
  ad_authorization_policy :: "manifest option"
  ad_negotiated :: manifest
  ad_initialize_seen :: bool
  ad_initialized_seen :: bool
  ad_audit :: audit_log
  ad_replay :: request_replay_guard
  ad_max_request_size :: nat
  ad_world :: 'w

definition adapter_new :: "mcp_library \<Rightarrow> 'w \<Rightarrow> 'w mcp_adapter" where
  "adapter_new lib w =
     \<lparr>ad_tool_cache = [], ad_id_to_name = [], ad_resources = registry_new, ad_prompts = [],
      ad_log_level = LevelInfo, ad_server_name = ascii ''dcp-server'',
      ad_server_version = ml_version lib, ad_protocol_version = version_default,
      ad_negotiator = negotiator_new, ad_roots = roots_new, ad_subscriptions = tracker_new,
      ad_elicitation = elicitation_new, ad_templates = [], ad_cancellation = manager_new,
      ad_progress = progress_new, ad_prompt_ids = [], ad_server_manifest = manifest_new 1,
      ad_authorization_policy = None, ad_negotiated = manifest_new 1,
      ad_initialize_seen = False, ad_initialized_seen = False, ad_audit = audit_log_new,
      ad_replay = replay_guard_default, ad_max_request_size = DEFAULT_MAX_JSONRPC_REQUEST_SIZE,
      ad_world = w\<rparr>"

definition with_server_info :: "text \<Rightarrow> text \<Rightarrow> 'w mcp_adapter \<Rightarrow> 'w mcp_adapter" where
  "with_server_info name version a = a\<lparr>ad_server_name := name, ad_server_version := version\<rparr>"

definition with_max_request_size :: "nat \<Rightarrow> 'w mcp_adapter \<Rightarrow> 'w mcp_adapter" where
  "with_max_request_size n a = a\<lparr>ad_max_request_size := n\<rparr>"

definition with_authorization_policy :: "manifest \<Rightarrow> 'w mcp_adapter \<Rightarrow> 'w mcp_adapter" where
  "with_authorization_policy m a = a\<lparr>ad_authorization_policy := Some m\<rparr>"

definition log_level_from_str :: "text \<Rightarrow> log_level option" where
  "log_level_from_str s =
     (let lower = to_ascii_lowercase s
      in if lower = ascii ''debug'' then Some LevelDebug
         else if lower = ascii ''info'' then Some LevelInfo
         else if lower = ascii ''warning'' \<or> lower = ascii ''warn'' then Some LevelWarning
         else if lower = ascii ''error'' then Some LevelError
         else None)"

section \<open>Registration\<close>

definition record_event :: "audit_event \<Rightarrow> 'w mcp_adapter \<Rightarrow> 'w mcp_adapter" where
  "record_event e a = a\<lparr>ad_audit := audit_record e (ad_audit a)\<rparr>"

definition audit_tool_registration_failure ::
  "u64 \<Rightarrow> string \<Rightarrow> u16 \<Rightarrow> text \<Rightarrow> 'w mcp_adapter \<Rightarrow> 'w mcp_adapter" where
  "audit_tool_registration_failure now reason tool_id name a =
     record_event
       (with_field (ascii ''tool_name'') name
         (with_field (ascii ''tool_id'') (decimal (unat tool_id))
           (with_field (ascii ''operation'') (ascii ''tool_registration'')
             (with_field (ascii ''adapter'') (ascii ''complete_mcp'')
               (audit_event_new now ValidationRejected (ascii reason)))))) a"

definition register_tool ::
  "u64 \<Rightarrow> text \<Rightarrow> u16 \<Rightarrow> 'w mcp_adapter \<Rightarrow> (complete_adapter_error + u16) \<times> 'w mcp_adapter" where
  "register_tool now name tool_id a =
     (if unat tool_id \<ge> MAX_TOOLS then
        (Inl (AdapterCapacityExceeded (ascii ''tool'') MAX_TOOLS),
         audit_tool_registration_failure now ''tool_registration_capacity_exceeded'' tool_id name a)
      else if hm_contains (ad_tool_cache a) name then
        (Inl (InvalidRequest (ascii ''duplicate tool name'')),
         audit_tool_registration_failure now ''tool_registration_duplicate_name'' tool_id name a)
      else if hm_contains (ad_id_to_name a) tool_id then
        (Inl (InvalidRequest (ascii ''duplicate tool id'')),
         audit_tool_registration_failure now ''tool_registration_duplicate_id'' tool_id name a)
      else
        (Inr tool_id,
         a\<lparr>ad_tool_cache := hm_insert name tool_id (ad_tool_cache a),
           ad_id_to_name := hm_insert tool_id name (ad_id_to_name a),
           ad_server_manifest := set_tool (ad_server_manifest a) tool_id\<rparr>))"

definition register_prompt ::
  "prompt_template \<Rightarrow> 'w mcp_adapter \<Rightarrow> (complete_adapter_error + u16) \<times> 'w mcp_adapter" where
  "register_prompt template a =
     (if hm_contains (ad_prompt_ids a) (pt_name template) then
        (Inl (InvalidRequest (ascii ''duplicate prompt name'')), a)
      else if hm_len (ad_prompts a) \<ge> MAX_PROMPTS then
        (Inl (AdapterCapacityExceeded (ascii ''prompt'') MAX_PROMPTS), a)
      else
        let prompt_id = of_nat (hm_len (ad_prompts a))
        in (Inr prompt_id,
            a\<lparr>ad_prompt_ids := hm_insert (pt_name template) prompt_id (ad_prompt_ids a),
              ad_prompts := hm_insert (pt_name template) template (ad_prompts a),
              ad_server_manifest := set_prompt (ad_server_manifest a) prompt_id\<rparr>))"

section \<open>The client's capabilities\<close>

text \<open>The loop of \<open>set_manifest_ids\<close> over the listed ids.\<close>

fun set_ids ::
  "text \<Rightarrow> nat \<Rightarrow> (manifest \<Rightarrow> u16 \<Rightarrow> manifest) \<Rightarrow> json list \<Rightarrow> manifest \<Rightarrow>
   complete_adapter_error + manifest" where
  "set_ids field max_id_exclusive set_one [] m = Inr m"
| "set_ids field max_id_exclusive set_one (v # vs) m =
     (case json_u64 v of
        None \<Rightarrow> Inl (InvalidParams (ascii ''capability id must be integer''))
      | Some i \<Rightarrow>
          if unat i \<ge> max_id_exclusive
          then Inl (InvalidParams (field @ ascii '' capability id out of range''))
          else set_ids field max_id_exclusive set_one vs (set_one m (ucast i)))"

definition set_manifest_ids ::
  "json option \<Rightarrow> text \<Rightarrow> nat \<Rightarrow> (manifest \<Rightarrow> u16 \<Rightarrow> manifest) \<Rightarrow> manifest \<Rightarrow>
   complete_adapter_error + manifest" where
  "set_manifest_ids v field max_id_exclusive set_one m =
     (case v of
        None \<Rightarrow> Inr m
      | Some value \<Rightarrow>
          bind_result (ok_or (InvalidParams (ascii ''capability ids must be array'')) (as_array value))
            (\<lambda>ids. set_ids field max_id_exclusive set_one ids m))"

fun set_extensions :: "json list \<Rightarrow> manifest \<Rightarrow> complete_adapter_error + manifest" where
  "set_extensions [] m = Inr m"
| "set_extensions (v # vs) m =
     (case json_u64 v of
        None \<Rightarrow> Inl (InvalidParams (ascii ''capability id must be integer''))
      | Some i \<Rightarrow>
          if unat i \<ge> 64
          then Inl (InvalidParams (ascii ''extension capability id out of range''))
          else set_extensions vs (set_extension m (ucast i)))"

definition set_extension_ids :: "json option \<Rightarrow> manifest \<Rightarrow> complete_adapter_error + manifest" where
  "set_extension_ids v m =
     (case v of
        None \<Rightarrow> Inr m
      | Some value \<Rightarrow>
          bind_result (ok_or (InvalidParams (ascii ''capability ids must be array'')) (as_array value))
            (\<lambda>ids. set_extensions ids m))"

definition optional_object :: "json option \<Rightarrow> text \<Rightarrow> complete_adapter_error + json_map option" where
  "optional_object v field =
     (case v of
        None \<Rightarrow> Inr None
      | Some (JObject m) \<Rightarrow> Inr (Some m)
      | Some _ \<Rightarrow> Inl (InvalidParams (field @ ascii '' must be object'')))"

text \<open>The member of an optional object.\<close>

definition member :: "json_map option \<Rightarrow> string \<Rightarrow> json option" where
  "member obj k = Option.bind obj (\<lambda>m. jm_get m (ascii k))"

definition dcp_capabilities :: "json_map option \<Rightarrow> complete_adapter_error + json option" where
  "dcp_capabilities params =
     (case params of
        None \<Rightarrow> Inr None
      | Some p \<Rightarrow>
          let legacy = jm_get p (ascii ''dcpCapabilities'')
          in bind_result
               (case jm_get p (ascii ''capabilities'') of
                  None \<Rightarrow> Inr None
                | Some capabilities \<Rightarrow>
                    bind_result (optional_object (Some capabilities) (ascii ''capabilities''))
                      (\<lambda>c. Inr (member c ''dcp'')))
               (\<lambda>standard.
                 if legacy \<noteq> None \<and> standard \<noteq> None \<and> legacy \<noteq> standard
                 then Inl (InvalidParams (ascii ''conflicting dcp capabilities''))
                 else Inr (case standard of None \<Rightarrow> legacy | Some c \<Rightarrow> Some c)))"

definition client_manifest_from_initialize :: "json option \<Rightarrow> complete_adapter_error + manifest" where
  "client_manifest_from_initialize params =
     bind_result (optional_object params (ascii ''initialize params'')) (\<lambda>p.
     bind_result (dcp_capabilities p) (\<lambda>c.
     bind_result (optional_object c (ascii ''dcp capabilities'')) (\<lambda>capabilities.
       case capabilities of
         None \<Rightarrow> Inr (manifest_new 1)
       | Some caps \<Rightarrow>
           bind_result (set_manifest_ids (jm_get caps (ascii ''tools'')) (ascii ''tool'') MAX_TOOLS
             set_tool (manifest_new 1)) (\<lambda>m.
           bind_result (set_manifest_ids (jm_get caps (ascii ''resources'')) (ascii ''resource'')
             MAX_RESOURCES set_resource m) (\<lambda>m.
           bind_result (set_manifest_ids (jm_get caps (ascii ''prompts'')) (ascii ''prompt'')
             MAX_PROMPTS set_prompt m) (\<lambda>m.
             set_extension_ids (jm_get caps (ascii ''extensions'')) m))))))"

section \<open>Methods\<close>

definition one_of :: "string list \<Rightarrow> text \<Rightarrow> bool" where
  "one_of names m \<longleftrightarrow> m \<in> set (map ascii names)"

definition is_notification_only_method :: "text \<Rightarrow> bool" where
  "is_notification_only_method = one_of [''notifications/initialized'', ''notifications/cancelled'']"

definition is_server_to_client_request_method :: "text \<Rightarrow> bool" where
  "is_server_to_client_request_method =
     one_of [''roots/list'', ''elicitation/create'', ''sampling/createMessage'']"

definition is_remote_shutdown_method :: "text \<Rightarrow> bool" where
  "is_remote_shutdown_method =
     one_of [''shutdown'', ''exit'', ''terminate'', ''server/shutdown'', ''notifications/shutdown'']"

definition requires_initialized :: "text \<Rightarrow> bool" where
  "requires_initialized =
     one_of [''roots/list'', ''elicitation/create'', ''tools/list'', ''tools/call'', ''resources/list'',
       ''resources/read'', ''resources/subscribe'', ''resources/unsubscribe'', ''prompts/list'',
       ''prompts/get'', ''logging/setLevel'', ''sampling/createMessage'', ''completion/complete'']"

definition request_id_for_audit :: "request_id \<Rightarrow> text option" where
  "request_id_for_audit i =
     (case i of
        IdString s \<Rightarrow> Some s
      | IdNumber n \<Rightarrow> Some (decimal_int (sint n))
      | IdNull \<Rightarrow> Some (ascii ''null'')
      | IdMissing \<Rightarrow> None)"

text \<open>The key a call's id is recorded under.\<close>

definition call_key :: "request_id \<Rightarrow> text" where
  "call_key i =
     (case request_id_for_audit i of None \<Rightarrow> [] | Some s \<Rightarrow> replay_key (ascii ''tools/call'') s)"

definition request_event :: "u64 \<Rightarrow> audit_action \<Rightarrow> string \<Rightarrow> json_rpc_request \<Rightarrow> audit_event" where
  "request_event now action reason r =
     (let e = with_method (rq_method r) (audit_event_new now action (ascii reason))
      in case request_id_for_audit (rq_id r) of None \<Rightarrow> e | Some i \<Rightarrow> with_request_id i e)"

definition audit_request ::
  "u64 \<Rightarrow> audit_action \<Rightarrow> string \<Rightarrow> json_rpc_request \<Rightarrow> 'w mcp_adapter \<Rightarrow> 'w mcp_adapter" where
  "audit_request now action reason r a = record_event (request_event now action reason r) a"

section \<open>Guards\<close>

type_synonym ('a, 'w) answer = "(complete_adapter_error + 'a) \<times> 'w mcp_adapter"

text \<open>Sequencing of fallible steps on the state, and a check that only reads it.\<close>

definition then_do ::
  "('w mcp_adapter \<Rightarrow> ('a, 'w) answer) \<Rightarrow> ('a \<Rightarrow> 'w mcp_adapter \<Rightarrow> ('b, 'w) answer) \<Rightarrow>
   'w mcp_adapter \<Rightarrow> ('b, 'w) answer" where
  "then_do f g a = (case f a of (Inl e, a') \<Rightarrow> (Inl e, a') | (Inr x, a') \<Rightarrow> g x a')"

definition check_with ::
  "('w mcp_adapter \<Rightarrow> complete_adapter_error + 'a) \<Rightarrow> 'w mcp_adapter \<Rightarrow> ('a, 'w) answer" where
  "check_with f a = (f a, a)"

definition require_initialized_for_method ::
  "json_rpc_request \<Rightarrow> 'w mcp_adapter \<Rightarrow> complete_adapter_error + unit" where
  "require_initialized_for_method r a =
     (if \<not> requires_initialized (rq_method r) \<or> ad_initialized_seen a then Inr ()
      else Inl LifecycleNotInitialized)"

definition require_request_method ::
  "u64 \<Rightarrow> json_rpc_request \<Rightarrow> string \<Rightarrow> 'w mcp_adapter \<Rightarrow> (unit, 'w) answer" where
  "require_request_method now r expected a =
     (if rq_method r = ascii expected \<and> \<not> is_notification r then (Inr (), a)
      else (Inl (InvalidRequest (ascii expected @ ascii '' requires a JSON-RPC request id'')),
            audit_request now ValidationRejected ''invalid_request'' r a))"

definition require_notification_method ::
  "u64 \<Rightarrow> json_rpc_request \<Rightarrow> string \<Rightarrow> 'w mcp_adapter \<Rightarrow> (unit, 'w) answer" where
  "require_notification_method now r expected a =
     (if rq_method r = ascii expected \<and> is_notification r then (Inr (), a)
      else (Inl (InvalidRequest (ascii expected @ ascii '' requires a JSON-RPC notification'')),
            audit_request now ValidationRejected ''invalid_request'' r a))"

definition list_cursor :: "json_rpc_request \<Rightarrow> complete_adapter_error + text option" where
  "list_cursor r =
     bind_result (optional_object (rq_params r) (ascii ''list params'')) (\<lambda>params.
       case params of
         None \<Rightarrow> Inr None
       | Some p \<Rightarrow>
           if list_ex (\<lambda>(key, v). key \<noteq> ascii ''cursor'' \<and> key \<noteq> ascii ''_meta'') p
           then Inl (InvalidParams (ascii ''unsupported list param''))
           else if \<not> pred_option (\<lambda>meta. as_object meta \<noteq> None) (jm_get p (ascii ''_meta''))
           then Inl (InvalidParams (ascii ''list _meta must be object''))
           else case jm_get p (ascii ''cursor'') of
               None \<Rightarrow> Inr None
             | Some (JString cursor) \<Rightarrow> Inr (Some cursor)
             | Some _ \<Rightarrow> Inl (InvalidParams (ascii ''list cursor must be string'')))"

definition require_any_tool_capability :: "'w mcp_adapter \<Rightarrow> complete_adapter_error + unit" where
  "require_any_tool_capability a =
     (if tool_count (ad_negotiated a) > 0 then Inr () else Inl AdapterCapabilityDenied)"

definition require_any_resource_capability :: "'w mcp_adapter \<Rightarrow> complete_adapter_error + unit" where
  "require_any_resource_capability a =
     (if resource_count (ad_negotiated a) > 0 then Inr () else Inl AdapterCapabilityDenied)"

definition require_any_prompt_capability :: "'w mcp_adapter \<Rightarrow> complete_adapter_error + unit" where
  "require_any_prompt_capability a =
     (if prompt_count (ad_negotiated a) > 0 then Inr () else Inl AdapterCapabilityDenied)"

definition require_resource_uri_capability ::
  "text \<Rightarrow> 'w mcp_adapter \<Rightarrow> complete_adapter_error + unit" where
  "require_resource_uri_capability uri a =
     bind_result (ok_or AdapterCapabilityDenied (handler_id_for_uri (ad_resources a) uri)) (\<lambda>i.
       if has_resource (ad_negotiated a) i then Inr () else Inl AdapterCapabilityDenied)"

definition require_tool_capability :: "u16 \<Rightarrow> 'w mcp_adapter \<Rightarrow> complete_adapter_error + unit" where
  "require_tool_capability tool_id a =
     (case require_tool (ad_negotiated a) tool_id of
        Inr _ \<Rightarrow> Inr ()
      | Inl _ \<Rightarrow> Inl AdapterCapabilityDenied)"

definition record_tool_call_request_id ::
  "json_rpc_request \<Rightarrow> 'w mcp_adapter \<Rightarrow> bool \<times> 'w mcp_adapter" where
  "record_tool_call_request_id r a =
     (case request_id_for_audit (rq_id r) of
        None \<Rightarrow> (True, a)
      | Some i \<Rightarrow>
          let (fresh, g) = check_and_record (replay_key (ascii ''tools/call'') i) (ad_replay a)
          in (fresh, a\<lparr>ad_replay := g\<rparr>))"

definition tools_call_params_object :: "json option \<Rightarrow> complete_adapter_error + json_map" where
  "tools_call_params_object params =
     (case params of
        Some (JObject p) \<Rightarrow>
          if list_ex (\<lambda>(key, v). key \<noteq> ascii ''name'' \<and> key \<noteq> ascii ''arguments'' \<and> key \<noteq> ascii ''_meta'') p
          then Inl (InvalidParams (ascii ''tools/call params contain unsupported fields''))
          else if \<not> pred_option (\<lambda>meta. as_object meta \<noteq> None) (jm_get p (ascii ''_meta''))
          then Inl (InvalidParams (ascii ''tools/call _meta must be an object''))
          else Inr p
      | _ \<Rightarrow> Inl (InvalidParams (ascii ''tools/call params must be an object'')))"

section \<open>Answers\<close>

fun parse_error_display :: "json_rpc_parse_error \<Rightarrow> text" where
  "parse_error_display (InvalidJson m) = ascii ''invalid JSON: '' @ m"
| "parse_error_display MissingVersion = ascii ''missing jsonrpc field''"
| "parse_error_display InvalidVersion = ascii ''invalid jsonrpc version: expected 2.0''"
| "parse_error_display MissingMethod = ascii ''missing method field''"
| "parse_error_display MissingId = ascii ''missing id field''"
| "parse_error_display InvalidStructure = ascii ''invalid request structure''"
| "parse_error_display RequestTooLarge = ascii ''request too large''"
| "parse_error_display RequestIdTooLarge = ascii ''request id too large''"
| "parse_error_display RequestIdSensitive = ascii ''request id contains sensitive data''"
| "parse_error_display DuplicateField = ascii ''duplicate JSON object field''"
| "parse_error_display BatchUnsupported = ascii ''JSON-RPC batch requests are unsupported''"

definition adapter_parse_request ::
  "mcp_library \<Rightarrow> text \<Rightarrow> 'w mcp_adapter \<Rightarrow> complete_adapter_error + json_rpc_request" where
  "adapter_parse_request lib json a =
     map_err AdapterParseError (parse_request_with_limit (ml_serde lib) json (ad_max_request_size a))"

definition format_answer :: "mcp_library \<Rightarrow> json_rpc_response \<Rightarrow> complete_adapter_error + text" where
  "format_answer lib response =
     map_err (\<lambda>e. SerializationError (parse_error_display e)) (format_response (ml_serde lib) response)"

definition format_success :: "mcp_library \<Rightarrow> request_id \<Rightarrow> json \<Rightarrow> complete_adapter_error + text" where
  "format_success lib i result = format_answer lib (response_success i result)"

definition format_error :: "mcp_library \<Rightarrow> request_id \<Rightarrow> json_rpc_error \<Rightarrow> complete_adapter_error + text" where
  "format_error lib i e = format_answer lib (response_error i e)"

definition server_to_client_method_response ::
  "mcp_library \<Rightarrow> u64 \<Rightarrow> json_rpc_request \<Rightarrow> 'w mcp_adapter \<Rightarrow> (text, 'w) answer" where
  "server_to_client_method_response lib now r a =
     (format_error lib (rq_id r) method_not_found,
      audit_request now RequestRejected ''server_to_client_method'' r a)"

text \<open>The table of \<open>adapter_error_response\<close>: the receipt's action and reason, and the error reported.\<close>

fun error_report :: "complete_adapter_error \<Rightarrow> audit_action \<times> string \<times> json_rpc_error" where
  "error_report (InvalidParams m) = (ValidationRejected, ''invalid_params'', invalid_params)"
| "error_report (AdapterParseError (InvalidJson m)) = (ValidationRejected, ''parse_error'', parse_error)"
| "error_report (AdapterParseError RequestIdTooLarge) =
     (ValidationRejected, ''request_id_too_large'', invalid_request)"
| "error_report (AdapterParseError RequestIdSensitive) =
     (ValidationRejected, ''request_id_sensitive'', invalid_request)"
| "error_report (AdapterParseError BatchUnsupported) =
     (ValidationRejected, ''batch_unsupported'', invalid_request)"
| "error_report (AdapterParseError e) = (ValidationRejected, ''invalid_request'', invalid_request)"
| "error_report (InvalidRequest m) = (ValidationRejected, ''invalid_request'', invalid_request)"
| "error_report LifecycleNotInitialized =
     (RequestRejected, ''lifecycle_not_initialized'', invalid_request)"
| "error_report LifecycleAlreadyInitialized =
     (RequestRejected, ''lifecycle_already_initialized'', invalid_request)"
| "error_report (UnknownTool n) = (CapabilityDeniedAction, ''unknown_tool'', invalid_params)"
| "error_report AdapterCapabilityDenied =
     (CapabilityDeniedAction, ''capability_denied'', error_new (- 32001) (ascii ''Capability denied''))"
| "error_report (AdapterCapacityExceeded k n) =
     (ValidationRejected, ''capacity_exceeded'', invalid_request)"
| "error_report (AdapterDcpError e) =
     (RequestRejected, ''dcp_error'', error_new (- 32000) (ascii ''Request failed''))"
| "error_report (AdapterResourceError m) = (RequestRejected, ''not_found'', invalid_params)"
| "error_report (PromptError m) = (RequestRejected, ''not_found'', invalid_params)"
| "error_report (SerializationError m) = (RequestRejected, ''serialization_error'', internal_error)"

definition adapter_error_response ::
  "mcp_library \<Rightarrow> u64 \<Rightarrow> json_rpc_request \<Rightarrow> complete_adapter_error \<Rightarrow> 'w mcp_adapter \<Rightarrow>
   (text, 'w) answer" where
  "adapter_error_response lib now r e a =
     (let (action, reason, json_error) = error_report e
      in (format_error lib (rq_id r) json_error, audit_request now action reason r a))"

end
