(* ===== verification/Mcp_Handlers.thy ===== *)
theory Mcp_Handlers
  imports Mcp_Adapter
begin

text \<open>
  The methods of the complete MCP adapter and its dispatch (\<open>handle_request\<close> and the handlers it
  calls in \<open>src/src/compat/complete_adapter.rs\<close>). A handler answers with the text of a response or
  with an error and the new state; the iteration order of the hash maps of tools and prompts is their
  insertion order here.
\<close>

section \<open>Display of errors\<close>

fun dcp_error_display :: "dcp_error \<Rightarrow> text" where
  "dcp_error_display InsufficientData = ascii ''insufficient data for parsing''"
| "dcp_error_display InvalidMagic = ascii ''invalid magic number''"
| "dcp_error_display UnknownMessageType = ascii ''unknown message type''"
| "dcp_error_display ToolNotFound = ascii ''tool not found''"
| "dcp_error_display ValidationFailed = ascii ''schema validation failed''"
| "dcp_error_display HashMismatch = ascii ''hash mismatch''"
| "dcp_error_display SignatureInvalid = ascii ''signature invalid''"
| "dcp_error_display NonceReused = ascii ''nonce reused''"
| "dcp_error_display TimestampExpired = ascii ''timestamp expired''"
| "dcp_error_display ChecksumMismatch = ascii ''checksum mismatch''"
| "dcp_error_display Backpressure = ascii ''backpressure''"
| "dcp_error_display OutOfBounds = ascii ''out of bounds''"
| "dcp_error_display InternalError = ascii ''internal error''"
| "dcp_error_display ResourceExhausted = ascii ''resource exhausted''"
| "dcp_error_display SessionNotFound = ascii ''session not found''"
| "dcp_error_display CapabilityDenied = ascii ''capability denied''"

fun resource_error_display :: "resource_error \<Rightarrow> text" where
  "resource_error_display (ResourceNotFound t) = ascii ''resource not found: '' @ t"
| "resource_error_display (InvalidUri t) = ascii ''invalid URI: '' @ t"
| "resource_error_display (HandlerError t) = ascii ''handler error: '' @ t"
| "resource_error_display (ResourceCapacityExceeded kind n) = kind @ ascii '' capacity exceeded''"
| "resource_error_display SubscriptionNotSupported = ascii ''subscription not supported''"

definition from_resource_error :: "resource_error \<Rightarrow> complete_adapter_error" where
  "from_resource_error e = AdapterResourceError (resource_error_display e)"

section \<open>Reading parameters\<close>

text \<open>\<open>Value::get\<close> with a string key, and the chains of lookups the handlers start with.\<close>

definition value_get :: "json \<Rightarrow> string \<Rightarrow> json option" where
  "value_get v k = member (as_object v) k"

definition str_member :: "json_map \<Rightarrow> string \<Rightarrow> complete_adapter_error \<Rightarrow> complete_adapter_error + text" where
  "str_member m k e = ok_or e (Option.bind (jm_get m (ascii k)) as_str)"

definition str_param :: "json_rpc_request \<Rightarrow> string \<Rightarrow> string \<Rightarrow> complete_adapter_error + text" where
  "str_param r k complaint =
     ok_or (InvalidParams (ascii complaint))
       (Option.bind (Option.bind (rq_params r) (\<lambda>p. value_get p k)) as_str)"

definition initialized_request ::
  "u64 \<Rightarrow> json_rpc_request \<Rightarrow> string \<Rightarrow> 'w mcp_adapter \<Rightarrow> (unit, 'w) answer" where
  "initialized_request now r expected =
     then_do (require_request_method now r expected)
       (\<lambda>_. check_with (require_initialized_for_method r))"

section \<open>Lifecycle\<close>

definition requested_version :: "json_rpc_request \<Rightarrow> complete_adapter_error + text" where
  "requested_version r =
     (case Option.bind (rq_params r) (\<lambda>p. value_get p ''protocolVersion'') of
        None \<Rightarrow> Inr (ascii ''2024-11-05'')
      | Some (JString v) \<Rightarrow> Inr v
      | Some _ \<Rightarrow> Inl (InvalidParams (ascii ''protocolVersion must be string'')))"

text \<open>What the server offers: its tools and prompts, its resource handlers, cut by the policy.\<close>

definition server_grants :: "'w mcp_adapter \<Rightarrow> manifest" where
  "server_grants a =
     (let m = fold (\<lambda>i m. set_resource m i) (handler_ids (ad_resources a)) (ad_server_manifest a)
      in case ad_authorization_policy a of None \<Rightarrow> m | Some policy \<Rightarrow> manifest_intersect m policy)"

definition list_changed :: json where
  "list_changed = json_object [(ascii ''listChanged'', JBool True)]"

definition initialize_result :: "'w mcp_adapter \<Rightarrow> mcp_version \<Rightarrow> json" where
  "initialize_result a negotiated =
     (let m = ad_negotiated a;
          subscribe = any_allowed_supports_subscribe (ad_resources a) (has_resource m);
          capabilities = json_object
            ([(ascii ''logging'', JObject [])] @
             (if tool_count m > 0 then [(ascii ''tools'', list_changed)] else []) @
             (if resource_count m > 0
              then [(ascii ''resources'', json_object ([(ascii ''listChanged'', JBool True)] @
                      (if subscribe then [(ascii ''subscribe'', JBool True)] else [])))] else []) @
             (if prompt_count m > 0 then [(ascii ''prompts'', list_changed)] else []))
      in json_object
           [(ascii ''protocolVersion'', JString (version_as_str negotiated)),
            (ascii ''capabilities'', capabilities),
            (ascii ''serverInfo'', json_object
               [(ascii ''name'', JString (ad_server_name a)),
                (ascii ''version'', JString (ad_server_version a))])])"

text \<open>The client's manifest and the version an initialize request asks for.\<close>

definition initialize_request ::
  "json_rpc_request \<Rightarrow> 'w mcp_adapter \<Rightarrow> complete_adapter_error + manifest \<times> mcp_version" where
  "initialize_request r a =
     bind_result (client_manifest_from_initialize (rq_params r)) (\<lambda>client.
     bind_result (requested_version r) (\<lambda>requested.
     bind_result (ok_or (InvalidParams (ascii ''unsupported protocolVersion''))
       (try_negotiate (ad_negotiator a) requested)) (\<lambda>negotiated.
       Inr (client, negotiated))))"

definition handle_initialize ::
  "mcp_library \<Rightarrow> u64 \<Rightarrow> json_rpc_request \<Rightarrow> 'w mcp_adapter \<Rightarrow> (text, 'w) answer" where
  "handle_initialize lib now r =
     then_do (require_request_method now r ''initialize'') (\<lambda>_.
     then_do (check_with (initialize_request r)) (\<lambda>(client, negotiated) a.
       if ad_initialize_seen a
       then (Inl (InvalidRequest (ascii ''already initialized'')), a)
       else
         let a' = a\<lparr>ad_initialize_seen := True, ad_protocol_version := negotiated,
                    ad_negotiated := negotiate client (server_grants a)\<rparr>
         in (format_success lib (rq_id r) (initialize_result a' negotiated), a')))"

definition handle_initialized ::
  "u64 \<Rightarrow> json_rpc_request \<Rightarrow> 'w mcp_adapter \<Rightarrow> (text option, 'w) answer" where
  "handle_initialized now r a =
     (if rq_method r \<noteq> ascii ''notifications/initialized'' \<or> \<not> is_notification r then
        (Inl (InvalidRequest (ascii ''initialized must be a notifications/initialized notification'')),
         audit_request now ValidationRejected ''invalid_request'' r a)
      else if rq_params r \<noteq> None then
        (Inl (InvalidParams (ascii ''initialized notification must not include params'')), a)
      else if \<not> ad_initialize_seen a then (Inl LifecycleNotInitialized, a)
      else if ad_initialized_seen a then (Inl LifecycleAlreadyInitialized, a)
      else (Inr None, a\<lparr>ad_initialized_seen := True\<rparr>))"

definition handle_roots_list ::
  "mcp_library \<Rightarrow> u64 \<Rightarrow> json_rpc_request \<Rightarrow> 'w mcp_adapter \<Rightarrow> (text, 'w) answer" where
  "handle_roots_list lib now r =
     then_do (initialized_request now r ''roots/list'') (\<lambda>_. server_to_client_method_response lib now r)"

definition handle_elicitation_create ::
  "mcp_library \<Rightarrow> u64 \<Rightarrow> json_rpc_request \<Rightarrow> 'w mcp_adapter \<Rightarrow> (text, 'w) answer" where
  "handle_elicitation_create lib now r =
     then_do (initialized_request now r ''elicitation/create'')
       (\<lambda>_. server_to_client_method_response lib now r)"

definition handle_sampling_create_message ::
  "mcp_library \<Rightarrow> u64 \<Rightarrow> json_rpc_request \<Rightarrow> 'w mcp_adapter \<Rightarrow> (text, 'w) answer" where
  "handle_sampling_create_message lib now r =
     then_do (initialized_request now r ''sampling/createMessage'')
       (\<lambda>_. server_to_client_method_response lib now r)"

definition handle_ping ::
  "mcp_library \<Rightarrow> u64 \<Rightarrow> json_rpc_request \<Rightarrow> 'w mcp_adapter \<Rightarrow> (text, 'w) answer" where
  "handle_ping lib now r =
     then_do (require_request_method now r ''ping'')
       (\<lambda>_ a. (format_success lib (rq_id r) (JObject []), a))"

section \<open>Cancellation and progress\<close>

text \<open>The request a cancellation names, and its reason.\<close>

definition cancelled_id :: "json_map \<Rightarrow> complete_adapter_error + request_id" where
  "cancelled_id params =
     bind_result (ok_or (InvalidParams (ascii ''missing requestId'')) (jm_get params (ascii ''requestId'')))
       (\<lambda>v. case try_from_json_value v of
          Inr (IdNumber i) \<Rightarrow> Inr (IdNumber i)
        | Inr (IdString s) \<Rightarrow> Inr (IdString s)
        | Inl RequestIdTooLarge \<Rightarrow> Inl (AdapterParseError RequestIdTooLarge)
        | Inl RequestIdSensitive \<Rightarrow> Inl (AdapterParseError RequestIdSensitive)
        | _ \<Rightarrow> Inl (InvalidParams (ascii ''invalid requestId'')))"

definition cancelled_reason :: "json_map \<Rightarrow> complete_adapter_error + text option" where
  "cancelled_reason params =
     (case jm_get params (ascii ''reason'') of
        None \<Rightarrow> Inr None
      | Some (JString reason) \<Rightarrow> Inr (Some (sanitize_text reason))
      | Some _ \<Rightarrow> Inl (InvalidParams (ascii ''invalid cancellation reason'')))"

definition cancelled_params ::
  "json_rpc_request \<Rightarrow> complete_adapter_error + request_id \<times> text option" where
  "cancelled_params r =
     bind_result (ok_or (InvalidParams (ascii ''missing params'')) (Option.bind (rq_params r) as_object))
       (\<lambda>params.
         if list_ex (\<lambda>(key, v). key \<noteq> ascii ''requestId'' \<and> key \<noteq> ascii ''reason'') params
         then Inl (InvalidParams (ascii ''unsupported cancelled param''))
         else
           bind_result (cancelled_id params) (\<lambda>i.
           bind_result (cancelled_reason params) (\<lambda>reason. Inr (i, reason))))"

definition handle_cancelled ::
  "u64 \<Rightarrow> json_rpc_request \<Rightarrow> 'w mcp_adapter \<Rightarrow> (text option, 'w) answer" where
  "handle_cancelled now r =
     then_do (require_notification_method now r ''notifications/cancelled'') (\<lambda>_.
     then_do (check_with (\<lambda>_. cancelled_params r)) (\<lambda>(i, reason) a.
       (Inr None, a\<lparr>ad_cancellation := snd (manager_cancel i reason (ad_cancellation a))\<rparr>)))"

definition extract_progress_token :: "json_rpc_request \<Rightarrow> text option" where
  "extract_progress_token r =
     Option.bind (Option.bind (Option.bind (rq_params r) (\<lambda>p. value_get p ''_meta''))
       (\<lambda>m. value_get m ''progressToken'')) as_str"

section \<open>Tools\<close>

definition tool_listing :: "'w router \<Rightarrow> text \<times> u16 \<Rightarrow> json" where
  "tool_listing ro nt =
     (let (tool_name, tool_id) = nt;
          (description, input_schema) =
            (case router_tool_schema ro tool_id of
               Some schema \<Rightarrow> (ts_description schema, tool_input_schema_json (ts_input schema))
             | None \<Rightarrow>
                 (ascii ''Tool: '' @ tool_name,
                  json_object
                    [(ascii ''type'', JString (ascii ''object'')), (ascii ''properties'', JObject []),
                     (ascii ''additionalProperties'', JBool False)]))
      in json_object
           [(ascii ''name'', JString tool_name), (ascii ''description'', JString description),
            (ascii ''inputSchema'', input_schema)])"

definition handle_tools_list ::
  "mcp_library \<Rightarrow> 'w router \<Rightarrow> u64 \<Rightarrow> json_rpc_request \<Rightarrow> 'w mcp_adapter \<Rightarrow> (text, 'w) answer" where
  "handle_tools_list lib ro now r =
     then_do (initialized_request now r ''tools/list'') (\<lambda>_.
     then_do (check_with (\<lambda>_. list_cursor r)) (\<lambda>_.
     then_do (check_with require_any_tool_capability) (\<lambda>_ a.
       (format_success lib (rq_id r)
          (json_object [(ascii ''tools'', JArray (map (tool_listing ro)
             (filter (\<lambda>(tool_name, tool_id). has_tool (ad_negotiated a) tool_id) (ad_tool_cache a))))]),
        a))))"

text \<open>The checks of a tool call before its id is recorded: the tool and its encoded arguments.\<close>

definition tool_call ::
  "mcp_library \<Rightarrow> 'w router \<Rightarrow> json_rpc_request \<Rightarrow> 'w mcp_adapter \<Rightarrow>
   complete_adapter_error + u16 \<times> shared_args" where
  "tool_call lib ro r a =
     bind_result (tools_call_params_object (rq_params r)) (\<lambda>params.
     bind_result (str_member params ''name'' (InvalidParams (ascii ''missing tool name''))) (\<lambda>tool_name.
     bind_result (ok_or AdapterCapabilityDenied (hm_get (ad_tool_cache a) tool_name)) (\<lambda>tool_id.
     bind_result (require_tool_capability tool_id a) (\<lambda>_.
     bind_result (ok_or (AdapterDcpError ToolNotFound) (router_tool_schema ro tool_id)) (\<lambda>schema.
     bind_result (encode_json_arguments (ml_args lib) (ts_input schema)
         (jm_get params (ascii ''arguments''))) (\<lambda>(args_bytes, arg_layout).
       Inr (tool_id, \<lparr>sa_data = args_bytes, sa_layout = arg_layout\<rparr>)))))))"

fun map_call_error :: "security_error \<Rightarrow> complete_adapter_error" where
  "map_call_error SchemaValidationFailed = InvalidParams (ascii ''argument validation failed'')"
| "map_call_error _ = AdapterCapabilityDenied"

fun tool_result_value :: "mcp_library \<Rightarrow> tool_result \<Rightarrow> json" where
  "tool_result_value lib (ToolSuccess data) =
     (case ml_from_slice lib data of Some v \<Rightarrow> v | None \<Rightarrow> JString (ml_lossy lib data))"
| "tool_result_value lib ToolEmpty = JNull"
| "tool_result_value lib (ToolError e) = json_object [(ascii ''error'', JString (dcp_error_display e))]"

definition text_content :: "text \<Rightarrow> json" where
  "text_content t = json_object [(ascii ''type'', JString (ascii ''text'')), (ascii ''text'', JString t)]"

definition print_or_default :: "mcp_library \<Rightarrow> json \<Rightarrow> text" where
  "print_or_default lib v =
     (case sj_print (ml_serde lib) (SerValue v) of Inr t \<Rightarrow> t | Inl _ \<Rightarrow> [])"

definition run_tool ::
  "mcp_library \<Rightarrow> 'w router \<Rightarrow> json_rpc_request \<Rightarrow> u16 \<Rightarrow> shared_args \<Rightarrow> 'w mcp_adapter \<Rightarrow>
   (text, 'w) answer" where
  "run_tool lib ro r tool_id args a =
     (let (w, result) = execute_authorized ro (ad_negotiated a) tool_id args (ad_world a)
      in (bind_result (map_err map_call_error result) (\<lambda>tool_result.
            format_success lib (rq_id r)
              (json_object [(ascii ''content'',
                 JArray [text_content (print_or_default lib (tool_result_value lib tool_result))])])),
          a\<lparr>ad_world := w\<rparr>))"

definition replay_rejected :: json_rpc_error where
  "replay_rejected = error_new (- 32002) (ascii ''Request replay rejected'')"

definition handle_tools_call ::
  "mcp_library \<Rightarrow> 'w router \<Rightarrow> u64 \<Rightarrow> json_rpc_request \<Rightarrow> 'w mcp_adapter \<Rightarrow> (text, 'w) answer" where
  "handle_tools_call lib ro now r =
     then_do (initialized_request now r ''tools/call'') (\<lambda>_.
     then_do (check_with (tool_call lib ro r)) (\<lambda>(tool_id, args) a.
       let (fresh, a') = record_tool_call_request_id r a
       in if \<not> fresh
          then (format_error lib (rq_id r) replay_rejected,
                audit_request now ReplayRejected ''request_replay'' r a')
          else run_tool lib ro r tool_id args a'))"

section \<open>Resources\<close>

definition optional_string :: "text option \<Rightarrow> json" where
  "optional_string v = (case v of None \<Rightarrow> JNull | Some t \<Rightarrow> JString t)"

definition resource_info_json :: "resource_info \<Rightarrow> json" where
  "resource_info_json i =
     json_object
       [(ascii ''uri'', JString (in_uri i)), (ascii ''name'', JString (in_name i)),
        (ascii ''description'', optional_string (in_description i)),
        (ascii ''mimeType'', optional_string (in_mime_type i))]"

definition resource_template_json :: "resource_template \<Rightarrow> json" where
  "resource_template_json t =
     json_object
       ([(ascii ''uriTemplate'', JString (tm_uri_template t)), (ascii ''name'', JString (tm_name t))] @
        (case tm_description t of None \<Rightarrow> [] | Some d \<Rightarrow> [(ascii ''description'', JString d)]) @
        (case tm_mime_type t of None \<Rightarrow> [] | Some m \<Rightarrow> [(ascii ''mimeType'', JString m)]))"

definition resources_result :: "'w mcp_adapter \<Rightarrow> resource_list \<Rightarrow> json" where
  "resources_result a listed =
     (let allow = has_resource (ad_negotiated a);
          allowed_templates = allowed_uri_templates (ad_resources a) allow;
          resources = map resource_info_json
            (filter (\<lambda>i. allows_uri (ad_roots a) (in_uri i)) (rl_resources listed));
          templates = filter (\<lambda>t. tm_uri_template t \<in> set allowed_templates) (ad_templates a)
      in json_object
           ([(ascii ''resources'', JArray resources)] @
            (case rl_next_cursor listed of
               None \<Rightarrow> [] | Some cursor \<Rightarrow> [(ascii ''nextCursor'', JString cursor)]) @
            (if supports_roots (ad_protocol_version a) \<and> templates \<noteq> []
             then [(ascii ''resourceTemplates'', JArray (map resource_template_json templates))] else [])))"

definition handle_resources_list ::
  "mcp_library \<Rightarrow> u64 \<Rightarrow> json_rpc_request \<Rightarrow> 'w mcp_adapter \<Rightarrow> (text, 'w) answer" where
  "handle_resources_list lib now r =
     then_do (initialized_request now r ''resources/list'') (\<lambda>_.
     then_do (check_with (\<lambda>_. list_cursor r)) (\<lambda>cursor.
     then_do (check_with require_any_resource_capability) (\<lambda>_.
     then_do (check_with (\<lambda>a. map_err from_resource_error
         (list_allowed (ad_resources a) cursor (has_resource (ad_negotiated a))))) (\<lambda>listed a.
       (format_success lib (rq_id r) (resources_result a listed), a)))))"

text \<open>The URI parameter of a resource method, allowed by the negotiated manifest and the roots.\<close>

definition within_roots :: "text \<Rightarrow> 'w mcp_adapter \<Rightarrow> complete_adapter_error + unit" where
  "within_roots uri a =
     (if allows_uri (ad_roots a) uri then Inr ()
      else Inl (InvalidParams (ascii ''resource outside configured roots'')))"

definition resource_uri :: "json_rpc_request \<Rightarrow> 'w mcp_adapter \<Rightarrow> complete_adapter_error + text" where
  "resource_uri r a =
     bind_result (str_param r ''uri'' ''missing uri'') (\<lambda>uri.
     bind_result (require_resource_uri_capability uri a) (\<lambda>_.
     bind_result (within_roots uri a) (\<lambda>_. Inr uri)))"

fun content_json :: "resource_content \<Rightarrow> json" where
  "content_json (TextContent uri mime t) =
     json_object [(ascii ''uri'', JString uri), (ascii ''mimeType'', JString mime),
       (ascii ''text'', JString t)]"
| "content_json (BlobContent uri mime blob) =
     json_object [(ascii ''uri'', JString uri), (ascii ''mimeType'', JString mime),
       (ascii ''blob'', JString blob)]"

definition handle_resources_read ::
  "mcp_library \<Rightarrow> u64 \<Rightarrow> json_rpc_request \<Rightarrow> 'w mcp_adapter \<Rightarrow> (text, 'w) answer" where
  "handle_resources_read lib now r =
     then_do (initialized_request now r ''resources/read'') (\<lambda>_.
     then_do (check_with (resource_uri r)) (\<lambda>uri.
     then_do (check_with (\<lambda>a. map_err from_resource_error (resource_read (ad_resources a) uri)))
       (\<lambda>content a.
       (format_success lib (rq_id r)
          (json_object [(ascii ''contents'', JArray [content_json content])]), a))))"

definition handle_resources_subscribe ::
  "mcp_library \<Rightarrow> u64 \<Rightarrow> json_rpc_request \<Rightarrow> 'w mcp_adapter \<Rightarrow> (text, 'w) answer" where
  "handle_resources_subscribe lib now r =
     then_do (initialized_request now r ''resources/subscribe'') (\<lambda>_.
     then_do (check_with (resource_uri r)) (\<lambda>uri.
     then_do (check_with (\<lambda>a. map_err from_resource_error (ensure_subscribable (ad_resources a) uri)))
       (\<lambda>_ a.
         let (entered, s) = tracker_subscribe uri (ascii ''default'') (ad_subscriptions a);
             a' = a\<lparr>ad_subscriptions := s\<rparr>
         in if \<not> entered
            then (Inl (AdapterCapacityExceeded (ascii ''subscription'')
                    DEFAULT_MAX_SUBSCRIBERS_PER_RESOURCE), a')
            else (format_success lib (rq_id r) (JObject []), a'))))"

definition handle_resources_unsubscribe ::
  "mcp_library \<Rightarrow> u64 \<Rightarrow> json_rpc_request \<Rightarrow> 'w mcp_adapter \<Rightarrow> (text, 'w) answer" where
  "handle_resources_unsubscribe lib now r =
     then_do (initialized_request now r ''resources/unsubscribe'') (\<lambda>_.
     then_do (check_with (resource_uri r)) (\<lambda>uri a.
       (format_success lib (rq_id r) (JObject []),
        a\<lparr>ad_subscriptions := snd (tracker_unsubscribe uri (ascii ''default'') (ad_subscriptions a))\<rparr>)))"

section \<open>Prompts\<close>

definition prompt_argument_json :: "prompt_argument \<Rightarrow> json" where
  "prompt_argument_json p =
     json_object
       [(ascii ''name'', JString (pa_name p)), (ascii ''description'', JString (pa_description p)),
        (ascii ''required'', JBool (pa_required p))]"

definition prompt_json :: "prompt_template \<Rightarrow> json" where
  "prompt_json p =
     json_object
       [(ascii ''name'', JString (pt_name p)), (ascii ''description'', JString (pt_description p)),
        (ascii ''arguments'', JArray (map prompt_argument_json (pt_arguments p)))]"

definition handle_prompts_list ::
  "mcp_library \<Rightarrow> u64 \<Rightarrow> json_rpc_request \<Rightarrow> 'w mcp_adapter \<Rightarrow> (text, 'w) answer" where
  "handle_prompts_list lib now r =
     then_do (initialized_request now r ''prompts/list'') (\<lambda>_.
     then_do (check_with (\<lambda>_. list_cursor r)) (\<lambda>_.
     then_do (check_with require_any_prompt_capability) (\<lambda>_ a.
       (format_success lib (rq_id r)
          (json_object [(ascii ''prompts'', JArray (map (\<lambda>(k, p). prompt_json p)
             (filter (\<lambda>(k, p). case hm_get (ad_prompt_ids a) k of
                  None \<Rightarrow> False | Some prompt_id \<Rightarrow> has_prompt (ad_negotiated a) prompt_id)
                (ad_prompts a))))]),
        a))))"

text \<open>A prompt by name, when the negotiated manifest has its id.\<close>

definition allowed_prompt :: "text \<Rightarrow> 'w mcp_adapter \<Rightarrow> complete_adapter_error + prompt_template" where
  "allowed_prompt prompt_name a =
     bind_result (ok_or AdapterCapabilityDenied (hm_get (ad_prompt_ids a) prompt_name)) (\<lambda>prompt_id.
       if \<not> has_prompt (ad_negotiated a) prompt_id then Inl AdapterCapabilityDenied
       else ok_or (PromptError (ascii ''prompt not found'')) (hm_get (ad_prompts a) prompt_name))"

fun prompt_arguments ::
  "prompt_template \<Rightarrow> json_map \<Rightarrow> (text, text) hmap \<Rightarrow> complete_adapter_error + (text, text) hmap" where
  "prompt_arguments template [] args = Inr args"
| "prompt_arguments template ((key, v) # rest) args =
     (if \<not> has_argument template key then Inl (InvalidParams (ascii ''unknown prompt argument''))
      else case as_str v of
          None \<Rightarrow> Inl (InvalidParams (ascii ''invalid prompt argument''))
        | Some s \<Rightarrow> prompt_arguments template rest (hm_insert key s args))"

definition prompt_get ::
  "json_rpc_request \<Rightarrow> 'w mcp_adapter \<Rightarrow> complete_adapter_error + prompt_template \<times> text" where
  "prompt_get r a =
     bind_result (ok_or (InvalidParams (ascii ''missing params'')) (rq_params r)) (\<lambda>params.
     bind_result (ok_or (InvalidParams (ascii ''missing prompt name''))
       (Option.bind (value_get params ''name'') as_str)) (\<lambda>prompt_name.
     bind_result (allowed_prompt prompt_name a) (\<lambda>template.
     bind_result
       (case value_get params ''arguments'' of
          None \<Rightarrow> Inr []
        | Some v \<Rightarrow>
            bind_result (ok_or (InvalidParams (ascii ''invalid prompt arguments'')) (as_object v))
              (\<lambda>arguments. prompt_arguments template arguments [])) (\<lambda>args.
     bind_result (render template args) (\<lambda>rendered. Inr (template, rendered))))))"

definition handle_prompts_get ::
  "mcp_library \<Rightarrow> u64 \<Rightarrow> json_rpc_request \<Rightarrow> 'w mcp_adapter \<Rightarrow> (text, 'w) answer" where
  "handle_prompts_get lib now r =
     then_do (initialized_request now r ''prompts/get'') (\<lambda>_.
     then_do (check_with (prompt_get r)) (\<lambda>(template, rendered) a.
       (format_success lib (rq_id r)
          (json_object
             [(ascii ''description'', JString (pt_description template)),
              (ascii ''messages'', JArray [json_object
                 [(ascii ''role'', JString (ascii ''user'')),
                  (ascii ''content'', text_content rendered)]])]), a)))"

section \<open>Logging and completion\<close>

definition handle_logging_set_level ::
  "mcp_library \<Rightarrow> u64 \<Rightarrow> json_rpc_request \<Rightarrow> 'w mcp_adapter \<Rightarrow> (text, 'w) answer" where
  "handle_logging_set_level lib now r =
     then_do (initialized_request now r ''logging/setLevel'') (\<lambda>_.
     then_do (check_with (\<lambda>_. bind_result (str_param r ''level'' ''missing level'') (\<lambda>s.
         ok_or (InvalidParams (ascii ''invalid log level'')) (log_level_from_str s)))) (\<lambda>level a.
       (format_success lib (rq_id r) (JObject []), a\<lparr>ad_log_level := level\<rparr>)))"

definition invalid_ref :: complete_adapter_error where
  "invalid_ref = InvalidParams (ascii ''invalid ref'')"

definition invalid_argument :: complete_adapter_error where
  "invalid_argument = InvalidParams (ascii ''invalid argument'')"

definition object_member :: "json_map \<Rightarrow> string \<Rightarrow> complete_adapter_error \<Rightarrow> complete_adapter_error + json_map" where
  "object_member m k e = ok_or e (Option.bind (jm_get m (ascii k)) as_object)"

definition nonempty_member :: "json_map \<Rightarrow> string \<Rightarrow> complete_adapter_error + text" where
  "nonempty_member m k =
     bind_result (str_member m k invalid_ref) (\<lambda>s. if s = [] then Inl invalid_ref else Inr s)"

definition completion_ref ::
  "json_map \<Rightarrow> text \<Rightarrow> text \<Rightarrow> 'w mcp_adapter \<Rightarrow> complete_adapter_error + unit" where
  "completion_ref reference ref_type argument_name a =
     (if ref_type = ascii ''ref/prompt'' then
        bind_result (nonempty_member reference ''name'') (\<lambda>prompt_name.
        bind_result (allowed_prompt prompt_name a) (\<lambda>template.
          if \<not> has_argument template argument_name
          then Inl (InvalidParams (ascii ''unknown prompt argument'')) else Inr ()))
      else if ref_type = ascii ''ref/resource'' then
        bind_result (nonempty_member reference ''uri'') (\<lambda>uri.
        bind_result (require_resource_uri_capability uri a) (\<lambda>_. within_roots uri a))
      else Inl invalid_ref)"

definition completion_request :: "json_rpc_request \<Rightarrow> 'w mcp_adapter \<Rightarrow> complete_adapter_error + unit" where
  "completion_request r a =
     bind_result (ok_or (InvalidParams (ascii ''missing params'')) (Option.bind (rq_params r) as_object))
       (\<lambda>params.
     bind_result (object_member params ''ref'' invalid_ref) (\<lambda>reference.
     bind_result (str_member reference ''type'' invalid_ref) (\<lambda>ref_type.
     bind_result (object_member params ''argument'' invalid_argument) (\<lambda>argument.
     bind_result (str_member argument ''name'' invalid_argument) (\<lambda>argument_name.
     bind_result (str_member argument ''value'' invalid_argument) (\<lambda>argument_value.
       if argument_name = [] \<or> argument_value = [] then Inl invalid_argument
       else completion_ref reference ref_type argument_name a))))))"

definition handle_completion_complete ::
  "mcp_library \<Rightarrow> u64 \<Rightarrow> json_rpc_request \<Rightarrow> 'w mcp_adapter \<Rightarrow> (text, 'w) answer" where
  "handle_completion_complete lib now r =
     then_do (initialized_request now r ''completion/complete'') (\<lambda>_.
     then_do (check_with (completion_request r)) (\<lambda>_ a.
       (format_success lib (rq_id r)
          (json_object [(ascii ''completion'', json_object
             [(ascii ''values'', JArray []), (ascii ''hasMore'', JBool False)])]), a)))"

end
