(* ===== verification/Mcp_Dispatch.thy ===== *)
theory Mcp_Dispatch
  imports Mcp_Handlers
begin

text \<open>
  The dispatch of the complete MCP adapter (\<open>handle_request\<close> in
  \<open>src/src/compat/complete_adapter.rs\<close>) and what holds of every request: who is answered and how,
  which requests run a tool, what the handshake grants.
\<close>

section \<open>Dispatch\<close>

text \<open>The reason and the error reported for a message that does not parse.\<close>

fun unparsed_report :: "complete_adapter_error \<Rightarrow> string \<times> json_rpc_error" where
  "unparsed_report (AdapterParseError (InvalidJson m)) = (''parse_error'', parse_error)"
| "unparsed_report (AdapterParseError RequestTooLarge) = (''request_too_large'', invalid_request)"
| "unparsed_report (AdapterParseError RequestIdTooLarge) = (''request_id_too_large'', invalid_request)"
| "unparsed_report (AdapterParseError RequestIdSensitive) = (''request_id_sensitive'', invalid_request)"
| "unparsed_report (AdapterParseError BatchUnsupported) = (''batch_unsupported'', invalid_request)"
| "unparsed_report _ = (''invalid_request'', invalid_request)"

definition answer_some :: "(text, 'w) answer \<Rightarrow> (text option, 'w) answer" where
  "answer_some x = (case x of (Inl e, a) \<Rightarrow> (Inl e, a) | (Inr t, a) \<Rightarrow> (Inr (Some t), a))"

definition guarded_by ::
  "('w mcp_adapter \<Rightarrow> complete_adapter_error + unit) \<Rightarrow> ('w mcp_adapter \<Rightarrow> (text, 'w) answer) \<Rightarrow>
   'w mcp_adapter \<Rightarrow> (text option, 'w) answer" where
  "guarded_by check handler a = answer_some (then_do (check_with check) (\<lambda>_. handler) a)"

text \<open>The match on the method.\<close>

definition dispatch_method ::
  "mcp_library \<Rightarrow> 'w router \<Rightarrow> u64 \<Rightarrow> json_rpc_request \<Rightarrow> 'w mcp_adapter \<Rightarrow>
   (text option, 'w) answer" where
  "dispatch_method lib ro now r a =
     (let m = rq_method r in
      if m = ascii ''initialize'' then answer_some (handle_initialize lib now r a)
      else if m = ascii ''notifications/initialized'' then handle_initialized now r a
      else if m = ascii ''ping'' then answer_some (handle_ping lib now r a)
      else if is_server_to_client_request_method m
      then answer_some (server_to_client_method_response lib now r a)
      else if m = ascii ''tools/list''
      then guarded_by require_any_tool_capability (handle_tools_list lib ro now r) a
      else if m = ascii ''tools/call'' then answer_some (handle_tools_call lib ro now r a)
      else if m = ascii ''resources/list''
      then guarded_by require_any_resource_capability (handle_resources_list lib now r) a
      else if m = ascii ''resources/read''
      then guarded_by require_any_resource_capability (handle_resources_read lib now r) a
      else if m = ascii ''resources/subscribe''
      then guarded_by require_any_resource_capability (handle_resources_subscribe lib now r) a
      else if m = ascii ''resources/unsubscribe''
      then guarded_by require_any_resource_capability (handle_resources_unsubscribe lib now r) a
      else if m = ascii ''prompts/list''
      then guarded_by require_any_prompt_capability (handle_prompts_list lib now r) a
      else if m = ascii ''prompts/get''
      then guarded_by require_any_prompt_capability (handle_prompts_get lib now r) a
      else if m = ascii ''logging/setLevel'' then answer_some (handle_logging_set_level lib now r a)
      else if m = ascii ''completion/complete''
      then answer_some (handle_completion_complete lib now r a)
      else if m = ascii ''notifications/cancelled'' then handle_cancelled now r a
      else answer_some (format_error lib (rq_id r) method_not_found,
                        audit_request now RequestRejected ''method_not_found'' r a))"

text \<open>A parsed message.\<close>

definition handle_parsed ::
  "mcp_library \<Rightarrow> 'w router \<Rightarrow> u64 \<Rightarrow> json_rpc_request \<Rightarrow> 'w mcp_adapter \<Rightarrow>
   (text option, 'w) answer" where
  "handle_parsed lib ro now r a =
     (let notification = is_notification r in
      if is_remote_shutdown_method (rq_method r) then
        (let a' = audit_request now ShutdownRejected ''remote_shutdown_rejected'' r a
         in if notification then (Inr None, a')
            else answer_some (format_error lib (rq_id r) method_not_found, a'))
      else if notification \<and> \<not> is_notification_only_method (rq_method r) then
        (Inr None, audit_request now RequestRejected ''notification_not_allowed'' r a)
      else if \<not> notification \<and> is_notification_only_method (rq_method r) then
        answer_some (format_error lib (rq_id r) invalid_request,
          audit_request now ValidationRejected ''notification_method_with_id'' r a)
      else
        case (if notification then Inr () else require_initialized_for_method r a) of
          Inl e \<Rightarrow> answer_some (adapter_error_response lib now r e a)
        | Inr _ \<Rightarrow>
            (case dispatch_method lib ro now r a of
               (Inl e, a') \<Rightarrow>
                 if notification then (Inr None, snd (adapter_error_response lib now r e a'))
                 else answer_some (adapter_error_response lib now r e a')
             | (Inr t, a') \<Rightarrow> (Inr (if notification then None else t), a')))"

definition handle_request ::
  "mcp_library \<Rightarrow> 'w router \<Rightarrow> u64 \<Rightarrow> text \<Rightarrow> 'w mcp_adapter \<Rightarrow> (text option, 'w) answer" where
  "handle_request lib ro now json a =
     (case adapter_parse_request lib json a of
        Inl e \<Rightarrow>
          let (reason, json_error) = unparsed_report e
          in answer_some (format_error lib IdNull json_error,
               record_event (audit_event_new now ValidationRejected (ascii reason)) a)
      | Inr r \<Rightarrow> handle_parsed lib ro now r a)"

end
