(* ===== verification/Mcp_Safety.thy ===== *)
theory Mcp_Safety
  imports Mcp_Dispatch
begin

text \<open>
  What the complete MCP adapter promises over whole sessions (\<open>handle_request\<close> in
  \<open>src/src/compat/complete_adapter.rs\<close>): every request is answered once with its id, a tool runs only
  for an admitted call, the handshake is a three-state machine, and no call runs twice within the
  replay window.
\<close>

section \<open>Frames\<close>

text \<open>A step keeps an observation of the state.\<close>

definition keeps :: "('w mcp_adapter \<Rightarrow> 'o) \<Rightarrow> ('w mcp_adapter \<Rightarrow> ('a, 'w) answer) \<Rightarrow> bool" where
  "keeps obs f \<longleftrightarrow> (\<forall>a. obs (snd (f a)) = obs a)"

named_theorems frames

lemma keepsD: "keeps obs f \<Longrightarrow> obs (snd (f a)) = obs a"
  by (simp add: keeps_def)

lemma keeps_then_do [frames]:
  "keeps obs f \<Longrightarrow> (\<And>x. keeps obs (g x)) \<Longrightarrow> keeps obs (then_do f g)"
  by (simp add: keeps_def then_do_def split: prod.split sum.split) (metis snd_conv)

lemma keeps_check_with [frames]: "keeps obs (check_with f)"
  by (simp add: keeps_def check_with_def)

lemma keeps_pure [frames]: "keeps obs (\<lambda>a. (f a, a))"
  by (simp add: keeps_def)

lemma keeps_case_prod [frames]: "(\<And>x y. keeps obs (g x y)) \<Longrightarrow> keeps obs (case p of (x, y) \<Rightarrow> g x y)"
  by (cases p) simp

text \<open>Observations that no audit record changes.\<close>

definition audit_free :: "('w mcp_adapter \<Rightarrow> 'o) \<Rightarrow> bool" where
  "audit_free obs \<longleftrightarrow> (\<forall>a e. obs (record_event e a) = obs a)"

lemma audit_freeD [simp]: "audit_free obs \<Longrightarrow> obs (audit_request now act why r a) = obs a"
  "audit_free obs \<Longrightarrow> obs (record_event e a) = obs a"
  by (simp_all add: audit_free_def audit_request_def)

lemma keeps_guards [frames]:
  assumes "audit_free obs"
  shows "keeps obs (require_request_method now r m)"
    and "keeps obs (require_notification_method now r m)"
    and "keeps obs (initialized_request now r m)"
    and "keeps obs (server_to_client_method_response lib now r)"
    and "keeps obs (adapter_error_response lib now r e)"
proof -
  show req: "keeps obs (require_request_method now r m)"
    using assms by (simp add: keeps_def require_request_method_def)
  show "keeps obs (initialized_request now r m)"
    unfolding initialized_request_def by (intro frames req)
qed (use assms in \<open>simp_all add: keeps_def require_notification_method_def
      server_to_client_method_response_def adapter_error_response_def split: prod.split\<close>)

lemmas handler_defs = handle_initialize_def handle_ping_def handle_tools_list_def handle_tools_call_def
  handle_resources_list_def handle_resources_read_def handle_resources_subscribe_def
  handle_resources_unsubscribe_def handle_prompts_list_def handle_prompts_get_def
  handle_logging_set_level_def handle_completion_complete_def

lemma snd_answer_some [simp]: "snd (answer_some x) = snd x"
  by (simp add: answer_some_def split: prod.split sum.split)

lemma keeps_answer_some [frames]: "keeps obs f \<Longrightarrow> keeps obs (\<lambda>a. answer_some (f a))"
  by (simp add: keeps_def)

lemma keeps_guarded_by [frames]: "keeps obs h \<Longrightarrow> keeps obs (guarded_by check h)"
  unfolding guarded_by_def by (intro frames)

text \<open>What the read-only handlers keep, and what the others may change.\<close>

lemma keeps_readers [frames]:
  assumes "audit_free obs"
  shows "keeps obs (handle_ping lib now r)" and "keeps obs (handle_tools_list lib ro now r)"
    and "keeps obs (handle_resources_list lib now r)" and "keeps obs (handle_resources_read lib now r)"
    and "keeps obs (handle_prompts_list lib now r)" and "keeps obs (handle_prompts_get lib now r)"
    and "keeps obs (handle_completion_complete lib now r)"
  unfolding handler_defs by (intro frames assms)+

lemma keeps_writers:
  assumes "audit_free obs"
  shows "(\<And>a v. obs (a\<lparr>ad_log_level := v\<rparr>) = obs a) \<Longrightarrow> keeps obs (handle_logging_set_level lib now r)"
    and "(\<And>a v. obs (a\<lparr>ad_subscriptions := v\<rparr>) = obs a) \<Longrightarrow>
      keeps obs (handle_resources_subscribe lib now r)"
    and "(\<And>a v. obs (a\<lparr>ad_subscriptions := v\<rparr>) = obs a) \<Longrightarrow>
      keeps obs (handle_resources_unsubscribe lib now r)"
    and "(\<And>a v. obs (a\<lparr>ad_cancellation := v\<rparr>) = obs a) \<Longrightarrow> keeps obs (handle_cancelled now r)"
  unfolding handler_defs handle_cancelled_def
  by (intro frames assms, simp add: keeps_def Let_def split: prod.split)+

lemma keeps_initialized:
  assumes "audit_free obs" and "\<And>a. obs (a\<lparr>ad_initialized_seen := True\<rparr>) = obs a"
  shows "keeps obs (handle_initialized now r)"
  using assms by (simp add: keeps_def handle_initialized_def)

lemma keeps_initialize:
  assumes "audit_free obs"
    and "\<And>a v m. obs (a\<lparr>ad_initialize_seen := True, ad_protocol_version := v, ad_negotiated := m\<rparr>) = obs a"
  shows "keeps obs (handle_initialize lib now r)"
  unfolding handler_defs
  by (intro frames assms(1)) (simp add: keeps_def Let_def assms(2))

lemma keeps_tools_call:
  assumes "audit_free obs" and "\<And>a v. obs (a\<lparr>ad_replay := v\<rparr>) = obs a"
    and "\<And>a v. obs (a\<lparr>ad_world := v\<rparr>) = obs a"
  shows "keeps obs (handle_tools_call lib ro now r)"
proof -
  have "obs (snd (record_tool_call_request_id r a)) = obs a" for a
    using assms(2) by (simp add: record_tool_call_request_id_def split: option.split prod.split)
  moreover have "obs (snd (run_tool lib ro r i args a)) = obs a" for i args a
    using assms(3) by (simp add: run_tool_def Let_def split: prod.split)
  ultimately have "keeps obs (\<lambda>a. let (fresh, a') = record_tool_call_request_id r a
       in if \<not> fresh then (format_error lib (rq_id r) replay_rejected,
             audit_request now ReplayRejected ''request_replay'' r a')
          else run_tool lib ro r tool_id args a')" for tool_id args
    using assms(1) by (simp add: keeps_def split_beta)
  then show ?thesis
    unfolding handler_defs by (intro frames assms(1))
qed

section \<open>Which messages reach a handler\<close>

definition dispatched :: "json_rpc_request \<Rightarrow> 'w mcp_adapter \<Rightarrow> bool" where
  "dispatched r a \<longleftrightarrow>
     \<not> is_remote_shutdown_method (rq_method r) \<and>
     (is_notification r \<longleftrightarrow> is_notification_only_method (rq_method r)) \<and>
     (is_notification r \<or> requires_initialized (rq_method r) \<longrightarrow> is_notification r \<or> ad_initialized_seen a)"

lemma handle_parsed_obs:
  assumes "audit_free obs"
  shows "obs (snd (handle_parsed lib ro now r a)) =
    (if dispatched r a then obs (snd (dispatch_method lib ro now r a)) else obs a)"
proof (cases "dispatched r a")
  case True
  have "keeps obs (adapter_error_response lib now r e)" for e
    using assms by (rule keeps_guards)
  then have err: "obs (snd (adapter_error_response lib now r e b)) = obs b" for e b
    by (rule keepsD)
  show ?thesis
  proof (cases "dispatch_method lib ro now r a")
    case (Pair x b)
    with True err show ?thesis
      by (cases x) (auto simp: handle_parsed_def dispatched_def require_initialized_for_method_def Let_def)
  qed
next
  case False
  have "keeps obs (adapter_error_response lib now r e)" for e
    using assms by (rule keeps_guards)
  then have err: "obs (snd (adapter_error_response lib now r e b)) = obs b" for e b
    by (rule keepsD)
  from False show ?thesis
    using assms err
    by (auto simp: handle_parsed_def dispatched_def require_initialized_for_method_def Let_def)
qed

lemma handle_request_obs:
  assumes "audit_free obs"
  shows "obs (snd (handle_request lib ro now t a)) =
    (case adapter_parse_request lib t a of
       Inl e \<Rightarrow> obs a
     | Inr r \<Rightarrow> if dispatched r a then obs (snd (dispatch_method lib ro now r a)) else obs a)"
  using assms by (simp add: handle_request_def handle_parsed_obs split: sum.split prod.split)

text \<open>The dispatch keeps an observation when the writers that can be reached do.\<close>

lemma keeps_dispatch:
  assumes "audit_free obs"
    and "\<And>a v. obs (a\<lparr>ad_log_level := v\<rparr>) = obs a" and "\<And>a v. obs (a\<lparr>ad_subscriptions := v\<rparr>) = obs a"
    and "\<And>a v. obs (a\<lparr>ad_cancellation := v\<rparr>) = obs a"
    and "rq_method r = ascii ''initialize'' \<Longrightarrow> keeps obs (handle_initialize lib now r)"
    and "rq_method r = ascii ''notifications/initialized'' \<Longrightarrow> keeps obs (handle_initialized now r)"
    and "rq_method r = ascii ''tools/call'' \<Longrightarrow> keeps obs (handle_tools_call lib ro now r)"
  shows "obs (snd (dispatch_method lib ro now r a)) = obs a"
proof -
  note rd = keeps_readers [OF assms(1)] and wr = keeps_writers [OF assms(1)]
  have w: "keeps obs (handle_logging_set_level lib now r)" "keeps obs (handle_resources_subscribe lib now r)"
    "keeps obs (handle_resources_unsubscribe lib now r)" "keeps obs (handle_cancelled now r)"
    by (intro wr assms(2-4))+
  have g: "keeps obs (guarded_by check h) \<longleftrightarrow> True" if "keeps obs h" for check h
    using that keeps_guarded_by by simp
  have s: "keeps obs (server_to_client_method_response lib now r)"
    using assms(1) by (rule keeps_guards)
  show ?thesis
    using keepsD [OF rd(1)] keepsD [OF s] keepsD [OF w(1)] keepsD [OF w(4)] keepsD [OF rd(7)]
      keepsD [OF keeps_guarded_by [OF rd(2)]] keepsD [OF keeps_guarded_by [OF rd(3)]]
      keepsD [OF keeps_guarded_by [OF rd(4)]] keepsD [OF keeps_guarded_by [OF rd(5)]]
      keepsD [OF keeps_guarded_by [OF rd(6)]] keepsD [OF keeps_guarded_by [OF w(2)]]
      keepsD [OF keeps_guarded_by [OF w(3)]] keepsD [OF assms(5)] keepsD [OF assms(6)]
      keepsD [OF assms(7)] assms(1)
    by (simp add: dispatch_method_def Let_def)
qed

text \<open>What no message changes: the registrations and the configuration.\<close>

definition configuration :: "'w mcp_adapter \<Rightarrow> _" where
  "configuration a = (ad_tool_cache a, ad_id_to_name a, ad_resources a, ad_prompts a, ad_prompt_ids a,
     ad_server_manifest a, ad_authorization_policy a, ad_negotiator a, ad_max_request_size a)"

lemma configuration_updates [simp]:
  "configuration (a\<lparr>ad_log_level := l\<rparr>) = configuration a"
  "configuration (a\<lparr>ad_subscriptions := s\<rparr>) = configuration a"
  "configuration (a\<lparr>ad_cancellation := c\<rparr>) = configuration a"
  "configuration (a\<lparr>ad_replay := g\<rparr>) = configuration a"
  "configuration (a\<lparr>ad_world := w\<rparr>) = configuration a"
  "configuration (a\<lparr>ad_initialized_seen := b\<rparr>) = configuration a"
  "configuration (a\<lparr>ad_initialize_seen := b, ad_protocol_version := v, ad_negotiated := m\<rparr>) = configuration a"
  "configuration (record_event e a) = configuration a"
  by (simp_all add: configuration_def record_event_def)

lemma audit_free_configuration [simp]: "audit_free configuration"
  by (simp add: audit_free_def)

lemma configuration_kept [simp]:
  "configuration (snd (handle_request lib ro now t a)) = configuration a"
proof -
  have "configuration (snd (dispatch_method lib ro now r a)) = configuration a" for r
    by (rule keeps_dispatch) (simp_all add: keeps_initialize keeps_initialized keeps_tools_call)
  then show ?thesis by (simp add: handle_request_obs split: sum.split)
qed

section \<open>Tools run only for admitted calls\<close>

text \<open>The observation a tool call may change.\<close>

definition execution :: "'w mcp_adapter \<Rightarrow> 'w \<times> request_replay_guard" where
  "execution a = (ad_world a, ad_replay a)"

lemma execution_updates [simp]:
  "execution (a\<lparr>ad_log_level := l\<rparr>) = execution a"
  "execution (a\<lparr>ad_subscriptions := s\<rparr>) = execution a"
  "execution (a\<lparr>ad_cancellation := c\<rparr>) = execution a"
  "execution (a\<lparr>ad_initialized_seen := b\<rparr>) = execution a"
  "execution (a\<lparr>ad_initialize_seen := b, ad_protocol_version := v, ad_negotiated := m\<rparr>) = execution a"
  "execution (record_event e a) = execution a"
  by (simp_all add: execution_def record_event_def)

lemma audit_free_execution [simp]: "audit_free execution"
  by (simp add: audit_free_def)

lemma execution_other:
  "rq_method r \<noteq> ascii ''tools/call'' \<Longrightarrow> execution (snd (dispatch_method lib ro now r a)) = execution a"
  by (rule keeps_dispatch) (simp_all add: keeps_initialize keeps_initialized)

lemma dispatch_call:
  "rq_method r = ascii ''tools/call'' \<Longrightarrow>
   dispatch_method lib ro now r a = answer_some (handle_tools_call lib ro now r a)"
  by (simp add: dispatch_method_def is_server_to_client_request_method_def one_of_def)

lemma dispatched_call:
  "rq_method r = ascii ''tools/call'' \<Longrightarrow>
   dispatched r a \<longleftrightarrow> rq_id r \<noteq> IdMissing \<and> ad_initialized_seen a"
  by (auto simp: dispatched_def is_remote_shutdown_method_def is_notification_only_method_def
      requires_initialized_def one_of_def is_notification_def)

text \<open>A tool call that passes every check, with the key its id is recorded under.\<close>

definition checked_call ::
  "mcp_library \<Rightarrow> 'w router \<Rightarrow> text \<Rightarrow> 'w mcp_adapter \<Rightarrow> (text \<times> u16 \<times> shared_args) option" where
  "checked_call lib ro t a =
     (case adapter_parse_request lib t a of
        Inl e \<Rightarrow> None
      | Inr r \<Rightarrow>
          if rq_method r = ascii ''tools/call'' \<and> rq_id r \<noteq> IdMissing \<and> ad_initialized_seen a
          then map_option (Pair (call_key (rq_id r))) (result_ok (tool_call lib ro r a)) else None)"

definition admitted_call ::
  "mcp_library \<Rightarrow> 'w router \<Rightarrow> text \<Rightarrow> 'w mcp_adapter \<Rightarrow> ('w tool_handler \<times> shared_args) option" where
  "admitted_call lib ro t a =
     (case checked_call lib ro t a of
        None \<Rightarrow> None
      | Some (key, i, args) \<Rightarrow>
          if key \<in> rg_seen (ad_replay a) then None
          else map_option (\<lambda>h. (h, args)) (tool_allowed ro (ad_negotiated a) i args))"

lemma record_call_id:
  assumes "rq_id r \<noteq> IdMissing"
  shows "record_tool_call_request_id r a =
    (call_key (rq_id r) \<notin> rg_seen (ad_replay a),
     a\<lparr>ad_replay := snd (check_and_record (call_key (rq_id r)) (ad_replay a))\<rparr>)"
proof -
  obtain s where "request_id_for_audit (rq_id r) = Some s"
    using assms by (cases "rq_id r") (simp_all add: request_id_for_audit_def)
  moreover have "fst (check_and_record k g) \<longleftrightarrow> k \<notin> rg_seen g" for k g
    using fresh_key_accepted by (auto simp: check_and_record_def)
  ultimately show ?thesis
    by (simp add: record_tool_call_request_id_def call_key_def split_beta)
qed

lemma world_of_run:
  "ad_world (snd (run_tool lib ro r i args a)) =
     (case tool_allowed ro (ad_negotiated a) i args of
        None \<Rightarrow> ad_world a | Some h \<Rightarrow> fst (th_execute h args (ad_world a)))"
  by (auto simp: run_tool_def execute_authorized_def tool_allowed_eq run_handler_def Let_def
      split: prod.splits sum.splits)

lemma replay_of_run [simp]: "ad_replay (snd (run_tool lib ro r i args a)) = ad_replay a"
  by (simp add: run_tool_def split_beta)

lemma execution_call:
  assumes "rq_id r \<noteq> IdMissing" and "ad_initialized_seen a" and "rq_method r = ascii ''tools/call''"
  shows "execution (snd (handle_tools_call lib ro now r a)) =
    (case tool_call lib ro r a of
       Inl e \<Rightarrow> execution a
     | Inr (i, args) \<Rightarrow>
         if call_key (rq_id r) \<in> rg_seen (ad_replay a) then execution a
         else (case tool_allowed ro (ad_negotiated a) i args of
                 None \<Rightarrow> ad_world a | Some h \<Rightarrow> fst (th_execute h args (ad_world a)),
               snd (check_and_record (call_key (rq_id r)) (ad_replay a))))"
proof -
  have ini: "initialized_request now r ''tools/call'' a = (Inr (), a)"
    using assms by (simp add: initialized_request_def then_do_def require_request_method_def
        check_with_def require_initialized_for_method_def is_notification_def)
  have seen: "snd (check_and_record k g) = g" if "k \<in> rg_seen g" for k g
    using that by (simp add: check_and_record_def)
  show ?thesis
    using assms(1)
    by (auto simp: handle_tools_call_def then_do_def ini check_with_def record_call_id
        world_of_run seen execution_def audit_request_def record_event_def
        split: sum.split prod.split option.split)
qed

lemma execution_request:
  "execution (snd (handle_request lib ro now t a)) =
     (case checked_call lib ro t a of
        None \<Rightarrow> execution a
      | Some (key, i, args) \<Rightarrow>
          if key \<in> rg_seen (ad_replay a) then execution a
          else (case tool_allowed ro (ad_negotiated a) i args of
                  None \<Rightarrow> ad_world a | Some h \<Rightarrow> fst (th_execute h args (ad_world a)),
                snd (check_and_record key (ad_replay a))))"
proof (cases "adapter_parse_request lib t a")
  case (Inr r)
  show ?thesis
  proof (cases "rq_method r = ascii ''tools/call'' \<and> rq_id r \<noteq> IdMissing \<and> ad_initialized_seen a")
    case True
    then show ?thesis
      by (cases "tool_call lib ro r a")
        (auto simp: handle_request_obs Inr checked_call_def dispatched_call dispatch_call execution_call)
  next
    case False
    then show ?thesis
      by (cases "rq_method r = ascii ''tools/call''")
        (auto simp: handle_request_obs Inr checked_call_def dispatched_call execution_other)
  qed
qed (simp add: handle_request_obs checked_call_def)

lemma require_tool_capability_ok: "require_tool_capability i a = Inr () \<longleftrightarrow> has_tool (ad_negotiated a) i"
  by (simp add: require_tool_capability_def require_tool_def)

lemma tool_allowed_iff:
  "tool_allowed ro m i args = Some h \<longleftrightarrow>
     has_tool m i \<and> router_dispatch ro i = Some h \<and> args_accepted (ts_input (th_schema h)) args"
  by (simp add: tool_allowed_eq validate_authorized_tool_iff)

lemma admitted_iff:
  "admitted_call lib ro t a = Some (h, args) \<longleftrightarrow>
     (\<exists>r i. adapter_parse_request lib t a = Inr r \<and> rq_method r = ascii ''tools/call'' \<and>
        rq_id r \<noteq> IdMissing \<and> ad_initialized_seen a \<and> tool_call lib ro r a = Inr (i, args) \<and>
        call_key (rq_id r) \<notin> rg_seen (ad_replay a) \<and> tool_allowed ro (ad_negotiated a) i args = Some h)"
proof (cases "adapter_parse_request lib t a")
  case (Inr r)
  then show ?thesis
    by (cases "tool_call lib ro r a") (auto simp: admitted_call_def checked_call_def split: if_splits)
qed (simp add: admitted_call_def checked_call_def)

text \<open>C1: Tool execution gate of the adapter. Whatever text arrives, the world changes only when it
  is an admitted call, and then exactly by that tool's handler on the encoded arguments. A call is
  admitted when the message parses to a \<open>tools/call\<close> with an id, the handshake is complete, the named
  tool is registered, negotiated and present in the router, its arguments encode and validate against
  its schema, and its id is not in the replay window.\<close>

theorem adapter_runs_admitted_calls:
  "ad_world (snd (handle_request lib ro now t a)) =
     (case admitted_call lib ro t a of
        None \<Rightarrow> ad_world a | Some (h, args) \<Rightarrow> fst (th_execute h args (ad_world a))) \<and>
   (admitted_call lib ro t a = Some (h, args) \<longleftrightarrow>
     (\<exists>r params tool_name i.
        adapter_parse_request lib t a = Inr r \<and> rq_method r = ascii ''tools/call'' \<and>
        rq_id r \<noteq> IdMissing \<and> ad_initialized_seen a \<and>
        tools_call_params_object (rq_params r) = Inr params \<and>
        jm_get params (ascii ''name'') = Some (JString tool_name) \<and>
        hm_get (ad_tool_cache a) tool_name = Some i \<and> has_tool (ad_negotiated a) i \<and>
        router_dispatch ro i = Some h \<and>
        encode_json_arguments (ml_args lib) (ts_input (th_schema h)) (jm_get params (ascii ''arguments'')) =
          Inr (sa_data args, sa_layout args) \<and>
        args_accepted (ts_input (th_schema h)) args \<and>
        call_key (rq_id r) \<notin> rg_seen (ad_replay a)))"
proof -
  have fst_execution: "fst (execution b) = ad_world b" for b :: "'a mcp_adapter"
    by (simp add: execution_def)
  have world: "ad_world (snd (handle_request lib ro now t a)) =
     (case admitted_call lib ro t a of
        None \<Rightarrow> ad_world a | Some (h, args) \<Rightarrow> fst (th_execute h args (ad_world a)))"
    unfolding fst_execution [symmetric] execution_request
    by (auto simp: admitted_call_def fst_execution split: option.split)
  have call: "tool_call lib ro r a = Inr (i, args) \<longleftrightarrow>
     (\<exists>params tool_name schema.
        tools_call_params_object (rq_params r) = Inr params \<and>
        jm_get params (ascii ''name'') = Some (JString tool_name) \<and>
        hm_get (ad_tool_cache a) tool_name = Some i \<and> has_tool (ad_negotiated a) i \<and>
        router_tool_schema ro i = Some schema \<and>
        encode_json_arguments (ml_args lib) (ts_input schema) (jm_get params (ascii ''arguments'')) =
          Inr (sa_data args, sa_layout args))" for r i args
    by (cases args) (auto simp: tool_call_def bind_result_eq_Inr str_member_def bind_eq_Some_conv
        require_tool_capability_ok)
  show ?thesis
    by (rule conjI [OF world])
      (auto simp: admitted_iff call tool_allowed_iff router_tool_schema_def)
qed

section \<open>Sessions\<close>

primrec run_requests ::
  "mcp_library \<Rightarrow> 'w router \<Rightarrow> (u64 \<times> text) list \<Rightarrow> 'w mcp_adapter \<Rightarrow> 'w mcp_adapter" where
  "run_requests lib ro [] a = a"
| "run_requests lib ro (m # ms) a =
     run_requests lib ro ms (snd (handle_request lib ro (fst m) (snd m) a))"

text \<open>An adapter with any registrations that has seen no message yet.\<close>

definition unstarted :: "'w mcp_adapter \<Rightarrow> 'w mcp_adapter" where
  "unstarted a = a\<lparr>ad_initialize_seen := False, ad_initialized_seen := False,
     ad_negotiated := manifest_new 1, ad_protocol_version := version_default,
     ad_replay := replay_guard_default\<rparr>"

lemma unstarted_registered:
  "unstarted (adapter_new lib w) = adapter_new lib w"
  "unstarted a = a \<Longrightarrow> unstarted (snd (register_tool now n i a)) = snd (register_tool now n i a)"
  "unstarted a = a \<Longrightarrow> unstarted (snd (register_prompt p a)) = snd (register_prompt p a)"
  "unstarted a = a \<Longrightarrow> unstarted (with_authorization_policy m a) = with_authorization_policy m a"
  by (cases a; simp add: unstarted_def adapter_new_def register_tool_def register_prompt_def Let_def
      audit_tool_registration_failure_def record_event_def with_authorization_policy_def)+

text \<open>The handshake as a machine of three states: nothing agreed, the client's manifest and the
  version agreed, and confirmed by the client.\<close>

datatype handshake = Unopened | Opened manifest mcp_version | Confirmed manifest mcp_version

definition opens_session ::
  "mcp_library \<Rightarrow> 'w mcp_adapter \<Rightarrow> text \<Rightarrow> (manifest \<times> mcp_version) option" where
  "opens_session lib a t =
     (case adapter_parse_request lib t a of
        Inl e \<Rightarrow> None
      | Inr r \<Rightarrow>
          if rq_method r = ascii ''initialize'' \<and> rq_id r \<noteq> IdMissing
          then result_ok (initialize_request r a) else None)"

definition confirms_session :: "mcp_library \<Rightarrow> 'w mcp_adapter \<Rightarrow> text \<Rightarrow> bool" where
  "confirms_session lib a t =
     (case adapter_parse_request lib t a of
        Inl e \<Rightarrow> False
      | Inr r \<Rightarrow> r = request_notification (ascii ''notifications/initialized'') None)"

fun handshake_step :: "mcp_library \<Rightarrow> 'w mcp_adapter \<Rightarrow> u64 \<times> text \<Rightarrow> handshake \<Rightarrow> handshake" where
  "handshake_step lib a m Unopened =
     (case opens_session lib a (snd m) of None \<Rightarrow> Unopened | Some (c, v) \<Rightarrow> Opened c v)"
| "handshake_step lib a m (Opened c v) = (if confirms_session lib a (snd m) then Confirmed c v else Opened c v)"
| "handshake_step lib a m (Confirmed c v) = Confirmed c v"

definition lifecycle :: "'w mcp_adapter \<Rightarrow> bool \<times> bool \<times> manifest \<times> mcp_version" where
  "lifecycle a = (ad_initialize_seen a, ad_initialized_seen a, ad_negotiated a, ad_protocol_version a)"

fun lifecycle_of :: "manifest \<Rightarrow> handshake \<Rightarrow> bool \<times> bool \<times> manifest \<times> mcp_version" where
  "lifecycle_of grants Unopened = (False, False, manifest_new 1, version_default)"
| "lifecycle_of grants (Opened c v) = (True, False, negotiate c grants, v)"
| "lifecycle_of grants (Confirmed c v) = (True, True, negotiate c grants, v)"

lemma lifecycle_updates [simp]:
  "lifecycle (a\<lparr>ad_log_level := l\<rparr>) = lifecycle a"
  "lifecycle (a\<lparr>ad_subscriptions := s\<rparr>) = lifecycle a"
  "lifecycle (a\<lparr>ad_cancellation := c\<rparr>) = lifecycle a"
  "lifecycle (a\<lparr>ad_replay := g\<rparr>) = lifecycle a"
  "lifecycle (a\<lparr>ad_world := w\<rparr>) = lifecycle a"
  "lifecycle (record_event e a) = lifecycle a"
  by (simp_all add: lifecycle_def record_event_def)

lemma audit_free_lifecycle [simp]: "audit_free lifecycle"
  by (simp add: audit_free_def)

lemma lifecycle_other:
  assumes "rq_method r \<noteq> ascii ''initialize''" and "rq_method r \<noteq> ascii ''notifications/initialized''"
  shows "lifecycle (snd (dispatch_method lib ro now r a)) = lifecycle a"
  by (rule keeps_dispatch) (use assms in \<open>simp_all add: keeps_tools_call\<close>)

lemma dispatch_lifecycle:
  "rq_method r = ascii ''initialize'' \<Longrightarrow>
   dispatch_method lib ro now r a = answer_some (handle_initialize lib now r a)"
  "rq_method r = ascii ''notifications/initialized'' \<Longrightarrow>
   dispatch_method lib ro now r a = handle_initialized now r a"
  by (simp_all add: dispatch_method_def)

lemma dispatched_lifecycle:
  "rq_method r = ascii ''initialize'' \<Longrightarrow> dispatched r a \<longleftrightarrow> rq_id r \<noteq> IdMissing"
  "rq_method r = ascii ''notifications/initialized'' \<Longrightarrow> dispatched r a \<longleftrightarrow> rq_id r = IdMissing"
  by (auto simp: dispatched_def is_remote_shutdown_method_def is_notification_only_method_def
      requires_initialized_def one_of_def is_notification_def)

lemma lifecycle_initialize:
  assumes "rq_method r = ascii ''initialize''" and "rq_id r \<noteq> IdMissing"
  shows "lifecycle (snd (handle_initialize lib now r a)) =
    (case initialize_request r a of
       Inl e \<Rightarrow> lifecycle a
     | Inr (c, v) \<Rightarrow>
         if ad_initialize_seen a then lifecycle a
         else (True, ad_initialized_seen a, negotiate c (server_grants a), v))"
  using assms
  by (auto simp: handle_initialize_def then_do_def require_request_method_def check_with_def
      is_notification_def lifecycle_def Let_def split: sum.split)

lemma lifecycle_initialized:
  assumes "rq_method r = ascii ''notifications/initialized''" and "rq_id r = IdMissing"
  shows "lifecycle (snd (handle_initialized now r a)) =
    (if rq_params r = None \<and> ad_initialize_seen a
     then (True, True, ad_negotiated a, ad_protocol_version a) else lifecycle a)"
  using assms by (auto simp: handle_initialized_def is_notification_def lifecycle_def)

lemma parsed_version: "adapter_parse_request lib t a = Inr r \<Longrightarrow> rq_jsonrpc r = JSONRPC_VERSION"
  by (auto simp: adapter_parse_request_def parse_request_with_limit_def bind_result_eq_Inr
      parse_request_value_ok split: if_splits)

lemma lifecycle_request:
  "lifecycle (snd (handle_request lib ro now t a)) =
    (case opens_session lib a t of
       Some (c, v) \<Rightarrow>
         if ad_initialize_seen a then lifecycle a
         else (True, ad_initialized_seen a, negotiate c (server_grants a), v)
     | None \<Rightarrow>
         if confirms_session lib a t \<and> ad_initialize_seen a
         then (True, True, ad_negotiated a, ad_protocol_version a) else lifecycle a)"
proof (cases "adapter_parse_request lib t a")
  case (Inr r)
  have conf: "confirms_session lib a t \<longleftrightarrow>
      rq_method r = ascii ''notifications/initialized'' \<and> rq_id r = IdMissing \<and> rq_params r = None"
    using parsed_version [OF Inr]
    by (cases r) (auto simp: confirms_session_def Inr request_notification_def request_new_def)
  consider "rq_method r = ascii ''initialize''" | "rq_method r = ascii ''notifications/initialized''"
    | "rq_method r \<noteq> ascii ''initialize''" "rq_method r \<noteq> ascii ''notifications/initialized''" by blast
  then show ?thesis
  proof cases
    case 1
    then show ?thesis
      using lifecycle_initialize [OF 1, of lib now a]
      by (auto simp: handle_request_obs Inr dispatch_lifecycle dispatched_lifecycle opens_session_def conf
          split: sum.split)
  next
    case 2
    then show ?thesis
      using lifecycle_initialized [OF 2, of now a]
      by (auto simp: handle_request_obs Inr dispatch_lifecycle dispatched_lifecycle opens_session_def conf)
  next
    case 3
    then show ?thesis
      by (simp add: handle_request_obs Inr lifecycle_other opens_session_def conf)
  qed
qed (simp add: handle_request_obs opens_session_def confirms_session_def)

lemma configuration_parts:
  assumes "configuration b = configuration a"
  shows "adapter_parse_request lib t b = adapter_parse_request lib t a"
    and "opens_session lib b t = opens_session lib a t"
    and "confirms_session lib b t = confirms_session lib a t"
    and "server_grants b = server_grants a"
  using assms
  by (simp_all add: configuration_def adapter_parse_request_def opens_session_def
      confirms_session_def initialize_request_def server_grants_def split: sum.split)

lemma configuration_unstarted [simp]: "configuration (unstarted a) = configuration a"
  unfolding configuration_def unstarted_def by simp

lemma lifecycle_unstarted [simp]: "lifecycle (unstarted a) = lifecycle_of grants Unopened"
  by (simp add: lifecycle_def unstarted_def)

lemma opens_not_confirms: "opens_session lib a t = Some x \<Longrightarrow> \<not> confirms_session lib a t"
  by (auto simp: opens_session_def confirms_session_def request_notification_def request_new_def
      split: sum.splits if_splits)

lemma lifecycle_step:
  assumes "lifecycle b = lifecycle_of (server_grants a) s" and "configuration b = configuration a"
  shows "lifecycle (snd (handle_request lib ro (fst m) (snd m) b)) =
    lifecycle_of (server_grants a) (handshake_step lib a m s)"
  using assms(1) opens_not_confirms [of lib a "snd m"]
  unfolding lifecycle_request configuration_parts [OF assms(2)]
  by (cases s) (auto simp: lifecycle_def split: option.split)

lemma lifecycle_run:
  "lifecycle b = lifecycle_of (server_grants a) s \<Longrightarrow> configuration b = configuration a \<Longrightarrow>
   lifecycle (run_requests lib ro ms b) = lifecycle_of (server_grants a) (fold (handshake_step lib a) ms s)"
  by (induction ms arbitrary: b s) (simp_all add: lifecycle_step)

text \<open>C6: Handshake. Over any messages the adapter's lifecycle state is that of a machine of three
  states. The first well-formed initialize request fixes the version and the negotiated manifest,
  which is the client's manifest cut by what the server offers; only the bare initialized
  notification after it opens the session; nothing later changes version or manifest.\<close>

theorem handshake_machine:
  "lifecycle (run_requests lib ro ms (unstarted a)) =
     lifecycle_of (server_grants a) (fold (handshake_step lib a) ms Unopened)"
  by (rule lifecycle_run [OF lifecycle_unstarted configuration_unstarted])

section \<open>The calls of a session\<close>

text \<open>The calls whose id is recorded, in order: the key, the tool, its arguments, and the handler if
  it runs.\<close>

definition call_made ::
  "mcp_library \<Rightarrow> 'w router \<Rightarrow> u64 \<times> text \<Rightarrow> 'w mcp_adapter \<Rightarrow>
   (text \<times> u16 \<times> shared_args \<times> 'w tool_handler option) option" where
  "call_made lib ro m a =
     map_option (\<lambda>(key, i, args). (key, i, args, tool_allowed ro (ad_negotiated a) i args))
       (checked_call lib ro (snd m) a)"

definition message_step :: "mcp_library \<Rightarrow> 'w router \<Rightarrow> u64 \<times> text \<Rightarrow> 'w mcp_adapter \<Rightarrow> 'w mcp_adapter" where
  "message_step lib ro m a = snd (handle_request lib ro (fst m) (snd m) a)"

definition recorded_calls ::
  "mcp_library \<Rightarrow> 'w router \<Rightarrow> (u64 \<times> text) list \<Rightarrow> 'w mcp_adapter \<Rightarrow>
   (text \<times> u16 \<times> shared_args \<times> 'w tool_handler option) list" where
  "recorded_calls lib ro = recorded_by (message_step lib ro) ad_replay (call_made lib ro)"

lemma recorded_calls_simps [simp]:
  "recorded_calls lib ro [] a = []"
  "recorded_calls lib ro (m # ms) a =
     (case checked_call lib ro (snd m) a of
        None \<Rightarrow> []
      | Some (key, i, args) \<Rightarrow>
          if key \<in> rg_seen (ad_replay a) then []
          else [(key, i, args, tool_allowed ro (ad_negotiated a) i args)]) @
     recorded_calls lib ro ms (snd (handle_request lib ro (fst m) (snd m) a))"
  by (auto simp: recorded_calls_def call_made_def message_step_def split: option.split)

lemma run_requests_fold: "run_requests lib ro ms a = fold (message_step lib ro) ms a"
  by (induction ms arbitrary: a) (simp_all add: message_step_def)

fun run_call :: "text \<times> u16 \<times> shared_args \<times> 'w tool_handler option \<Rightarrow> 'w \<Rightarrow> 'w" where
  "run_call (key, i, args, None) w = w"
| "run_call (key, i, args, Some h) w = fst (th_execute h args w)"

lemma execution_recorded:
  "execution (snd (handle_request lib ro (fst m) (snd m) a)) =
    (case checked_call lib ro (snd m) a of
       None \<Rightarrow> execution a
     | Some (key, i, args) \<Rightarrow>
         if key \<in> rg_seen (ad_replay a) then execution a
         else (run_call (key, i, args, tool_allowed ro (ad_negotiated a) i args) (ad_world a),
               snd (check_and_record key (ad_replay a))))"
  by (auto simp: execution_request split: option.split)

interpretation complete: replay_guarded "message_step lib ro" ad_replay "call_made lib ro" ad_world run_call
  for lib :: mcp_library and ro :: "'w router"
proof
  fix m and s :: "'w mcp_adapter"
  show "(ad_world (message_step lib ro m s), ad_replay (message_step lib ro m s)) =
    (case call_made lib ro m s of
       None \<Rightarrow> (ad_world s, ad_replay s)
     | Some kc \<Rightarrow>
         if fst kc \<in> rg_seen (ad_replay s) then (ad_world s, ad_replay s)
         else (run_call kc (ad_world s), snd (check_and_record (fst kc) (ad_replay s))))"
    using execution_recorded [of lib ro m s]
    by (auto simp: call_made_def message_step_def execution_def split: option.split)
qed

text \<open>C7: Calls run once. In any session the world is the result of running, in order, the handlers of
  the recorded calls and nothing else; and among any 1024 calls recorded in a row no two have the same
  id, so a repeated or replayed call within this window never runs again.\<close>

theorem session_calls_run_once:
  "let calls = recorded_calls lib ro ms (unstarted a)
   in ad_world (run_requests lib ro ms (unstarted a)) = fold run_call calls (ad_world a) \<and>
      distinct (last_n DEFAULT_REQUEST_REPLAY_WINDOW (map fst calls))"
  using complete.session_runs_once [of "unstarted a" lib ro ms]
  by (simp add: Let_def run_requests_fold recorded_calls_def unstarted_def)

section \<open>Granted tools\<close>

lemma has_tool_set_resource [simp]: "has_tool (set_resource m i) j = has_tool m j"
  by (simp add: set_resource_def has_tool_def)

lemma has_tool_negotiate: "has_tool (negotiate c s) i \<longleftrightarrow> has_tool c i \<and> has_tool s i"
  by (simp add: negotiate_def manifest_intersect_def has_tool_def MAX_TOOLS_def bits_has_intersect)

lemma has_tool_server_grants:
  "has_tool (server_grants a) i \<longleftrightarrow>
     has_tool (ad_server_manifest a) i \<and> pred_option (\<lambda>p. has_tool p i) (ad_authorization_policy a)"
proof -
  have "has_tool (fold (\<lambda>i m. set_resource m i) is m) j = has_tool m j" for "is" m j
    by (induction "is" arbitrary: m) simp_all
  then show ?thesis
    using has_tool_negotiate by (auto simp: server_grants_def Let_def negotiate_def split: option.split)
qed

lemma confirmed_stays: "fold (handshake_step lib a) ms (Confirmed c v) = Confirmed c v"
  by (induction ms) simp_all

lemma granted_run:
  assumes "lifecycle b = lifecycle_of (server_grants a) s" and "configuration b = configuration a"
    and "(key, i, args, Some h) \<in> set (recorded_calls lib ro ms b)"
  shows "\<exists>c v. fold (handshake_step lib a) ms s = Confirmed c v \<and> has_tool (negotiate c (server_grants a)) i"
  using assms
proof (induction ms arbitrary: b s)
  case (Cons m ms)
  show ?case
  proof (cases "(key, i, args, Some h) \<in> set (recorded_calls lib ro ms (snd (handle_request lib ro (fst m) (snd m) b)))")
    case True
    then show ?thesis
      using Cons.IH [OF lifecycle_step [OF Cons.prems(1,2)]] Cons.prems(2) by simp
  next
    case False
    with Cons.prems(3) have "checked_call lib ro (snd m) b = Some (key, i, args)"
      and allowed: "tool_allowed ro (ad_negotiated b) i args = Some h"
      by (auto split: option.splits if_splits)
    then have "ad_initialized_seen b"
      by (auto simp: checked_call_def split: sum.splits if_splits)
    then obtain c v where "s = Confirmed c v" "ad_negotiated b = negotiate c (server_grants a)"
      using Cons.prems(1) by (cases s) (auto simp: lifecycle_def)
    with allowed show ?thesis by (simp add: confirmed_stays tool_allowed_iff)
  qed
qed simp

text \<open>C4: A tool runs only when granted three times. If any call of a session runs a tool, the client
  opened and confirmed the session, and the tool is in the manifest the client sent then, in the
  server's manifest, and in the authorization policy when there is one.\<close>

theorem session_runs_granted:
  "{i. \<exists>key args h. (key, i, args, Some h) \<in> set (recorded_calls lib ro ms (unstarted a))} \<subseteq>
   {i. \<exists>client v. fold (handshake_step lib a) ms Unopened = Confirmed client v \<and> has_tool client i \<and>
         has_tool (ad_server_manifest a) i \<and>
         pred_option (\<lambda>policy. has_tool policy i) (ad_authorization_policy a)}"
  using granted_run [OF lifecycle_unstarted configuration_unstarted]
  by (fastforce simp: has_tool_negotiate has_tool_server_grants)

section \<open>Answers\<close>

text \<open>The errors a client can be told, none of which depends on the failure's details.\<close>

definition reported_errors :: "json_rpc_error list" where
  "reported_errors =
     [parse_error, invalid_request, method_not_found, invalid_params, internal_error, replay_rejected,
      error_new (- 32001) (ascii ''Capability denied''), error_new (- 32000) (ascii ''Request failed'')]"

definition reportable :: "json_rpc_response \<Rightarrow> bool" where
  "reportable resp \<longleftrightarrow>
     rp_jsonrpc resp = JSONRPC_VERSION \<and>
     (rp_error resp = None \<and> rp_result resp \<noteq> None \<or>
      rp_result resp = None \<and> rp_error resp \<in> Some ` set reported_errors)"

text \<open>A handler's text, if it has one, is a response to the request.\<close>

definition answers :: "mcp_library \<Rightarrow> request_id \<Rightarrow> complete_adapter_error + text \<Rightarrow> bool" where
  "answers lib i x \<longleftrightarrow>
     (\<forall>t. x = Inr t \<longrightarrow> (\<exists>resp. rp_id resp = i \<and> reportable resp \<and> format_answer lib resp = Inr t))"

definition handler_answers ::
  "mcp_library \<Rightarrow> request_id \<Rightarrow> ('w mcp_adapter \<Rightarrow> (text, 'w) answer) \<Rightarrow> bool" where
  "handler_answers lib i f \<longleftrightarrow> (\<forall>a. answers lib i (fst (f a)))"

named_theorems answering

lemma answers_success [answering]: "answers lib i (format_success lib i v)"
  by (auto simp: answers_def format_success_def reportable_def response_success_def
      intro!: exI [of _ "response_success i v"])

lemma answers_error: "e \<in> set reported_errors \<Longrightarrow> answers lib i (format_error lib i e)"
  by (auto simp: answers_def format_error_def reportable_def response_error_def
      intro!: exI [of _ "response_error i e"])

lemma answers_failure [answering]: "answers lib i (Inl e)"
  by (simp add: answers_def)

lemma answers_bind [answering]: "(\<And>x. answers lib i (f x)) \<Longrightarrow> answers lib i (bind_result y f)"
  by (cases y) (simp_all add: answers_def)

lemma handler_answers_then_do [answering]:
  "(\<And>x. handler_answers lib i (g x)) \<Longrightarrow> handler_answers lib i (then_do f g)"
  by (auto simp: handler_answers_def then_do_def answers_failure split: prod.split sum.split)

lemma handler_answers_pure [answering]:
  "(\<And>a. answers lib i (f a)) \<Longrightarrow> handler_answers lib i (\<lambda>a. (f a, g a))"
  by (simp add: handler_answers_def)

lemma handler_answers_case_prod [answering]:
  "(\<And>x y. handler_answers lib i (g x y)) \<Longrightarrow> handler_answers lib i (case p of (x, y) \<Rightarrow> g x y)"
  by (cases p) simp

lemma handler_answers_listing [answering]:
  "handler_answers lib (rq_id r) (handle_ping lib now r)"
  "handler_answers lib (rq_id r) (handle_tools_list lib ro now r)"
  "handler_answers lib (rq_id r) (handle_resources_list lib now r)"
  "handler_answers lib (rq_id r) (handle_resources_read lib now r)"
  "handler_answers lib (rq_id r) (handle_resources_unsubscribe lib now r)"
  "handler_answers lib (rq_id r) (handle_prompts_list lib now r)"
  "handler_answers lib (rq_id r) (handle_prompts_get lib now r)"
  "handler_answers lib (rq_id r) (handle_logging_set_level lib now r)"
  "handler_answers lib (rq_id r) (handle_completion_complete lib now r)"
  unfolding handler_defs by (intro answering)+

lemma reported [simp]:
  "parse_error \<in> set reported_errors" "invalid_request \<in> set reported_errors"
  "method_not_found \<in> set reported_errors" "replay_rejected \<in> set reported_errors"
  "snd (snd (error_report e)) \<in> set reported_errors" "snd (unparsed_report e) \<in> set reported_errors"
proof -
  show "snd (snd (error_report e)) \<in> set reported_errors"
    by (cases e rule: error_report.cases) (simp_all add: reported_errors_def)
  show "snd (unparsed_report e) \<in> set reported_errors"
    by (cases e rule: unparsed_report.cases) (simp_all add: reported_errors_def)
qed (simp_all add: reported_errors_def)

lemma handler_answers_writing [answering]:
  "handler_answers lib (rq_id r) (handle_initialize lib now r)"
  "handler_answers lib (rq_id r) (handle_resources_subscribe lib now r)"
  "handler_answers lib (rq_id r) (server_to_client_method_response lib now r)"
  "handler_answers lib (rq_id r) (handle_tools_call lib ro now r)"
proof -
  show "handler_answers lib (rq_id r) (handle_initialize lib now r)"
    unfolding handler_defs
    by (intro answering) (simp add: handler_answers_def Let_def answers_success answers_failure)
  show "handler_answers lib (rq_id r) (handle_resources_subscribe lib now r)"
    unfolding handler_defs
    by (intro answering)
      (simp add: handler_answers_def Let_def answers_success answers_failure split: prod.split)
  show "handler_answers lib (rq_id r) (server_to_client_method_response lib now r)"
    by (simp add: handler_answers_def server_to_client_method_response_def answers_error)
  have "answers lib (rq_id r) (fst (run_tool lib ro r i args a))" for i args a
    by (simp add: run_tool_def split_beta answering)
  then show "handler_answers lib (rq_id r) (handle_tools_call lib ro now r)"
    unfolding handler_defs
    by (intro answering) (simp add: handler_answers_def answers_error split_beta)
qed

lemma adapter_error_answers [simp]: "answers lib (rq_id r) (fst (adapter_error_response lib now r e a))"
proof -
  have "snd (snd (error_report e)) \<in> set reported_errors" by simp
  then show ?thesis by (simp add: adapter_error_response_def split_beta answers_error)
qed

definition may_answer :: "mcp_library \<Rightarrow> request_id \<Rightarrow> complete_adapter_error + text option \<Rightarrow> bool" where
  "may_answer lib i y \<longleftrightarrow>
     (\<forall>t. y = Inr t \<longrightarrow>
        (\<exists>u resp. t = Some u \<and> rp_id resp = i \<and> reportable resp \<and> format_answer lib resp = Inr u))"

lemma may_answer_some [simp]: "may_answer lib i (fst (answer_some x)) \<longleftrightarrow> answers lib i (fst x)"
  by (cases "fst x"; cases x) (auto simp: may_answer_def answers_def answer_some_def)

lemma may_answer_handler: "handler_answers lib i f \<Longrightarrow> may_answer lib i (fst (answer_some (f a)))"
  by (simp add: handler_answers_def)

lemma may_answer_guarded: "handler_answers lib i f \<Longrightarrow> may_answer lib i (fst (guarded_by check f a))"
  unfolding guarded_by_def by (intro may_answer_handler answering)

lemma dispatch_answers:
  assumes "\<not> is_notification_only_method (rq_method r)"
  shows "may_answer lib (rq_id r) (fst (dispatch_method lib ro now r a))"
proof -
  have "answers lib (rq_id r) (fst (format_error lib (rq_id r) method_not_found, b))" for b :: "'a mcp_adapter"
    by (simp add: answers_error)
  moreover have "rq_method r \<noteq> ascii ''notifications/initialized''"
    "rq_method r \<noteq> ascii ''notifications/cancelled''"
    using assms by (auto simp: is_notification_only_method_def one_of_def)
  ultimately show ?thesis
    by (simp add: dispatch_method_def Let_def may_answer_guarded answering
        may_answer_handler [OF handler_answers_writing(1), unfolded may_answer_some]
        may_answer_handler [OF handler_answers_writing(3), unfolded may_answer_some]
        may_answer_handler [OF handler_answers_writing(4), unfolded may_answer_some]
        may_answer_handler [OF handler_answers_listing(1), unfolded may_answer_some]
        may_answer_handler [OF handler_answers_listing(8), unfolded may_answer_some]
        may_answer_handler [OF handler_answers_listing(9), unfolded may_answer_some])
qed

text \<open>The answer the client sees: a response with this id, as the library prints it.\<close>

definition answered :: "mcp_library \<Rightarrow> request_id \<Rightarrow> complete_adapter_error + text option \<Rightarrow> bool" where
  "answered lib i y \<longleftrightarrow>
     (\<exists>resp. rp_id resp = i \<and> reportable resp \<and>
        (case sj_print (ml_serde lib) (response_ser (sanitize_response resp)) of
           Inr t \<Rightarrow> y = Inr (Some t)
         | Inl m \<Rightarrow> y = Inl (SerializationError (ascii ''invalid JSON: '' @ m))))"

definition valid_id :: "request_id \<Rightarrow> bool" where
  "valid_id i \<longleftrightarrow> i \<noteq> IdMissing \<and> id_ok i"

lemma format_reportable:
  assumes "reportable resp" and "valid_id (rp_id resp)"
  shows "format_answer lib resp =
    (case sj_print (ml_serde lib) (response_ser (sanitize_response resp)) of
       Inr t \<Rightarrow> Inr t | Inl m \<Rightarrow> Inl (SerializationError (ascii ''invalid JSON: '' @ m)))"
  using assms
  by (auto simp: valid_id_def validate_request_id_ok [symmetric] format_answer_def format_response_def validate_response_shape_def reportable_def
      split: sum.split)

lemma answered_error:
  assumes "e \<in> set reported_errors" and "valid_id i"
  shows "answered lib i (fst (answer_some (format_error lib i e, a)))"
proof -
  have "reportable (response_error i e)" using assms by (simp add: reportable_def response_error_def)
  with assms(2) show ?thesis
    using format_reportable [of "response_error i e" lib]
    by (auto simp: answered_def answer_some_def format_error_def response_error_def
        intro!: exI [of _ "response_error i e"] split: sum.split)
qed

lemma answered_text:
  assumes "may_answer lib i (Inr t)" and "valid_id i"
  shows "answered lib i (Inr t)"
  using assms format_reportable
  by (fastforce simp: may_answer_def answered_def split: sum.splits)

lemma answered_report:
  assumes "valid_id (rq_id r)"
  shows "answered lib (rq_id r) (fst (answer_some (adapter_error_response lib now r e a)))"
proof -
  have "snd (snd (error_report e)) \<in> set reported_errors" by simp
  from answered_error [OF this assms] show ?thesis
    by (simp add: adapter_error_response_def split_beta)
qed

lemma parsed_answered:
  assumes "valid_id (rq_id r)"
  shows "answered lib (rq_id r) (fst (handle_parsed lib ro now r a))"
proof (cases "is_notification_only_method (rq_method r)")
  case True
  with assms show ?thesis
    by (auto simp: handle_parsed_def is_notification_def valid_id_def answered_error)
next
  case False
  note d = dispatch_answers [OF this, of lib ro now a]
  show ?thesis
    using assms d False valid_id_def [of "rq_id r"]
    by (cases "dispatch_method lib ro now r a")
      (auto simp: handle_parsed_def is_notification_def answered_error answered_report answered_text Let_def
        split: sum.split)
qed

text \<open>C5: Every request is answered once. A message that does not parse is answered under the null id, a
  notification never is, and any other request, whatever its method and parameters and whatever the
  tool does, is answered by exactly one response with its own id, which carries a result or one of eight
  fixed errors and no detail of the failure.\<close>

theorem requests_answered:
  "case adapter_parse_request lib t a of
     Inl e \<Rightarrow> answered lib IdNull (fst (handle_request lib ro now t a))
   | Inr r \<Rightarrow>
       if rq_id r = IdMissing then fst (handle_request lib ro now t a) = Inr None
       else answered lib (rq_id r) (fst (handle_request lib ro now t a))"
proof (cases "adapter_parse_request lib t a")
  case (Inl e)
  have "snd (unparsed_report e) \<in> set reported_errors" by simp
  then show ?thesis by (simp add: Inl handle_request_def split_beta answered_error valid_id_def id_ok_def)
next
  case (Inr r)
  have "fst (handle_parsed lib ro now r a) = Inr None" if "rq_id r = IdMissing"
    using that by (auto simp: handle_parsed_def is_notification_def Let_def split: sum.split prod.split)
  moreover have "id_ok (rq_id r)"
    using Inr by (auto simp: adapter_parse_request_def parse_request_with_limit_def bind_result_eq_Inr
        parse_request_value_ok split: if_splits)
  ultimately show ?thesis
    using parsed_answered [of r lib ro now a] by (simp add: Inr handle_request_def valid_id_def)
qed

end
