(* ===== verification/Stdio.thy ===== *)
theory Stdio
  imports Redaction
begin

text \<open>
  The standard I/O transport of the compatibility layer (\<open>src/src/compat/stdio.rs\<close>): reading bounded
  lines from a buffered reader, writing them, and the byte framer. A reader is the list of what its
  next fills return, an error or a run of bytes; an empty run or no more fills is the end of the input.
  Lines written to standard error are kept in the state.
\<close>

section \<open>Whitespace\<close>

definition is_whitespace :: "nat \<Rightarrow> bool" where
  "is_whitespace c \<longleftrightarrow>
     9 \<le> c \<and> c \<le> 13 \<or> c \<in> {32, 0x85, 0xA0, 0x1680} \<or> 0x2000 \<le> c \<and> c \<le> 0x200A \<or>
     c \<in> {0x2028, 0x2029, 0x202F, 0x205F, 0x3000}"

definition trim_start :: "text \<Rightarrow> text" where
  "trim_start t = dropWhile is_whitespace t"

definition trim_end :: "text \<Rightarrow> text" where
  "trim_end t = rev (dropWhile is_whitespace (rev t))"

definition trim_text :: "text \<Rightarrow> text" where
  "trim_text t = trim_end (trim_start t)"

definition trim_end_char :: "nat \<Rightarrow> text \<Rightarrow> text" where
  "trim_end_char c t = rev (dropWhile (\<lambda>x. x = c) (rev t))"

section \<open>Transport state\<close>

datatype stdio_error = IoFailed "text" | InvalidUtf8 | MessageTooLarge | TransportShutDown

record stdio_config =
  so_max_message_size :: nat
  so_auto_flush :: bool
  so_stderr_logging :: bool
  so_buffer_size :: nat

definition stdio_config_default :: stdio_config where
  "stdio_config_default =
     \<lparr>so_max_message_size = 10 * 1024 * 1024, so_auto_flush = True, so_stderr_logging = True,
      so_buffer_size = 4096\<rparr>"

record stdio_transport =
  sx_read_buffer :: "text"
  sx_config :: stdio_config
  sx_shutdown :: bool
  sx_stderr :: "text list"

definition stdio_with_config :: "stdio_config \<Rightarrow> stdio_transport" where
  "stdio_with_config cfg =
     \<lparr>sx_read_buffer = [], sx_config = cfg, sx_shutdown = False, sx_stderr = []\<rparr>"

definition stdio_new :: stdio_transport where
  "stdio_new = stdio_with_config stdio_config_default"

definition with_auto_flush :: "bool \<Rightarrow> stdio_transport \<Rightarrow> stdio_transport" where
  "with_auto_flush b s = s\<lparr>sx_config := (sx_config s)\<lparr>so_auto_flush := b\<rparr>\<rparr>"

definition stdio_shutdown :: "stdio_transport \<Rightarrow> stdio_transport" where
  "stdio_shutdown s = s\<lparr>sx_shutdown := True\<rparr>"

definition stdio_is_shutdown :: "stdio_transport \<Rightarrow> bool" where
  "stdio_is_shutdown s = sx_shutdown s"

definition format_log_line :: "text \<Rightarrow> text \<Rightarrow> text" where
  "format_log_line prefix message = ascii ''['' @ prefix @ ascii ''] '' @ sanitize_text message"

definition log_line :: "string \<Rightarrow> text \<Rightarrow> stdio_transport \<Rightarrow> stdio_transport" where
  "log_line prefix message s =
     (if so_stderr_logging (sx_config s)
      then s\<lparr>sx_stderr := sx_stderr s @ [format_log_line (ascii prefix) message]\<rparr> else s)"

definition log_stderr :: "text \<Rightarrow> stdio_transport \<Rightarrow> stdio_transport" where
  "log_stderr = log_line ''DCP''"

definition log_error :: "text \<Rightarrow> stdio_transport \<Rightarrow> stdio_transport" where
  "log_error = log_line ''DCP ERROR''"

definition log_debug :: "text \<Rightarrow> stdio_transport \<Rightarrow> stdio_transport" where
  "log_debug = log_line ''DCP DEBUG''"

section \<open>Reading\<close>

type_synonym reader = "(text + bytes) list"

text \<open>\<open>BufRead::fill_buf\<close> and \<open>consume\<close>.\<close>

fun fill_buf :: "reader \<Rightarrow> (text + bytes) \<times> reader" where
  "fill_buf [] = (Inr [], [])"
| "fill_buf (Inl e # r) = (Inl e, r)"
| "fill_buf (Inr c # r) = (Inr c, Inr c # r)"

fun reader_consume :: "nat \<Rightarrow> reader \<Rightarrow> reader" where
  "reader_consume n (Inr c # r) = (if drop n c = [] then r else Inr (drop n c) # r)"
| "reader_consume n r = r"

fun reader_size :: "reader \<Rightarrow> nat" where
  "reader_size [] = 0"
| "reader_size (Inl e # r) = Suc (reader_size r)"
| "reader_size (Inr c # r) = length c + reader_size r"

text \<open>Bytes up to the first newline, including it.\<close>

definition line_take :: "bytes \<Rightarrow> nat" where
  "line_take bs =
     (let k = length (takeWhile (\<lambda>b. b \<noteq> 10) bs) in if k < length bs then k + 1 else length bs)"

datatype read_line_outcome = LineRead | EofRead

lemma fill_buf_size: "fill_buf r = (Inr c, r') \<Longrightarrow> reader_size r' = reader_size r \<and> (c \<noteq> [] \<longrightarrow> (\<exists>s. r' = Inr c # s))"
  by (cases r rule: fill_buf.cases) auto

lemma line_take_bounds: "bs \<noteq> [] \<Longrightarrow> 0 < line_take bs \<and> line_take bs \<le> length bs"
  by (simp add: line_take_def Let_def)

lemma consume_size: "c \<noteq> [] \<Longrightarrow> 0 < n \<Longrightarrow> reader_size (reader_consume n (Inr c # s)) < reader_size (Inr c # s)"
  by auto

function read_line_bounded ::
  "stdio_transport \<Rightarrow> reader \<Rightarrow> (stdio_error + read_line_outcome) \<times> stdio_transport \<times> reader" where
  "read_line_bounded s r =
     (case fill_buf r of
        (Inl e, r') \<Rightarrow> (Inl (IoFailed e), s, r')
      | (Inr available, r') \<Rightarrow>
          if available = [] then
            (Inr (if sx_read_buffer s = [] then EofRead else LineRead), s, r')
          else
            let n = line_take available;
                limit = so_max_message_size (sx_config s)
            in if text_len (sx_read_buffer s) + n > limit then
                 let allowed = min (limit - text_len (sx_read_buffer s)) (length available);
                     consume_len = min (allowed + 1) (length available)
                 in if allowed > 0 \<and> from_utf8 (take allowed available) = None
                    then (Inl InvalidUtf8, s, r')
                    else (Inl MessageTooLarge,
                          (stdio_shutdown (log_error (ascii ''stdin message exceeded maximum size'') s))
                            \<lparr>sx_read_buffer := []\<rparr>,
                          reader_consume consume_len r')
               else
                 case from_utf8 (take n available) of
                   None \<Rightarrow> (Inl InvalidUtf8, s, r')
                 | Some piece \<Rightarrow>
                     let s' = s\<lparr>sx_read_buffer := sx_read_buffer s @ piece\<rparr>;
                         r'' = reader_consume n r'
                     in if sx_read_buffer s' \<noteq> [] \<and> last (sx_read_buffer s') = 10
                        then (Inr LineRead, s', r'')
                        else read_line_bounded s' r'')"
  by pat_completeness auto
termination
proof (relation "measure (\<lambda>(s, r). reader_size r)", goal_cases)
  case (2 s r x y available n limit piece s' r'')
  then show ?case
    using fill_buf_size [of r available y] line_take_bounds [of available]
    by (auto dest!: consume_size)
qed simp

declare read_line_bounded.simps [simp del]

text \<open>A line read with an empty buffer consumes something.\<close>

lemma read_line_progress:
  "read_line_bounded s r = (Inr LineRead, s', r') \<Longrightarrow>
   reader_size r' < reader_size r \<or> reader_size r' \<le> reader_size r \<and> sx_read_buffer s \<noteq> []"
proof (induction s r rule: read_line_bounded.induct)
  case (1 s r)
  show ?case
  proof (cases "fill_buf r")
    case (Pair x r1)
    then show ?thesis
    proof (cases x)
      case (Inr c)
      note f = fill_buf_size [OF Pair [unfolded Inr]]
      show ?thesis
      proof (cases "c = []")
        case True
        then show ?thesis using 1(2) f by (auto simp: read_line_bounded.simps [of s r] Pair Inr split: if_splits)
      next
        case False
        then obtain u where u: "r1 = Inr c # u" using f by blast
        have less: "reader_size (reader_consume (line_take c) r1) < reader_size r"
          using f consume_size [of c "line_take c" u] line_take_bounds [OF False] u False by simp
        from 1(2) False obtain piece where p: "from_utf8 (take (line_take c) c) = Some piece"
          "\<not> text_len (sx_read_buffer s) + line_take c > so_max_message_size (sx_config s)"
          by (auto simp: read_line_bounded.simps [of s r] Pair Inr Let_def split: if_splits option.splits)
        from 1(2) False p show ?thesis
          using less 1(1) [OF Pair [symmetric] Inr False refl refl p(2,1) refl refl]
          by (auto simp: read_line_bounded.simps [of s r] Pair Inr Let_def split: if_splits)
      qed
    qed (use 1(2) Pair in \<open>auto simp: read_line_bounded.simps [of s r]\<close>)
  qed
qed

function read_message ::
  "stdio_transport \<Rightarrow> reader \<Rightarrow> (stdio_error + text option) \<times> stdio_transport \<times> reader" where
  "read_message s r =
     (if stdio_is_shutdown s then (Inr None, s, r)
      else
        case read_line_bounded (s\<lparr>sx_read_buffer := []\<rparr>) r of
          (Inl e, s', r') \<Rightarrow> (Inl e, s', r')
        | (Inr EofRead, s', r') \<Rightarrow>
            (Inr None, stdio_shutdown (log_stderr (ascii ''EOF received on stdin, initiating shutdown'') s'), r')
        | (Inr LineRead, s', r') \<Rightarrow>
            let message = trim_end (sx_read_buffer s')
            in if message = [] then read_message s' r' else (Inr (Some message), s', r'))"
  by pat_completeness auto
termination
  by (relation "measure (\<lambda>(s, r). reader_size r)") (auto dest!: read_line_progress [OF sym])

declare read_message.simps [simp del]

lemma read_message_progress:
  "read_message s r = (Inr (Some m), s', r') \<Longrightarrow> reader_size r' < reader_size r"
proof (induction s r rule: read_message.induct)
  case (1 s r)
  from 1(2) obtain s1 r1 where l: "\<not> stdio_is_shutdown s"
    "read_line_bounded (s\<lparr>sx_read_buffer := []\<rparr>) r = (Inr LineRead, s1, r1)"
    by (auto simp: read_message.simps [of s r] split: if_splits prod.splits sum.splits read_line_outcome.splits)
  note less = read_line_progress [OF l(2), simplified]
  from 1(2) l show ?case
    using less 1(1) [OF l(1) l(2) [symmetric] refl refl refl refl]
    by (auto simp: read_message.simps [of s r] Let_def split: if_splits)
qed

text \<open>The messages until the end of the input, shutdown or an error.\<close>

function read_all_messages ::
  "stdio_transport \<Rightarrow> reader \<Rightarrow> text list \<Rightarrow> (stdio_error + text list) \<times> stdio_transport \<times> reader" where
  "read_all_messages s r messages =
     (if stdio_is_shutdown s then (Inr messages, s, r)
      else
        case read_message s r of
          (Inl e, s', r') \<Rightarrow> (Inl e, s', r')
        | (Inr None, s', r') \<Rightarrow> (Inr messages, s', r')
        | (Inr (Some m), s', r') \<Rightarrow> read_all_messages s' r' (messages @ [m]))"
  by pat_completeness auto
termination
  by (relation "measure (\<lambda>(s, r, ms). reader_size r)") (auto dest!: read_message_progress [OF sym])

declare read_all_messages.simps [simp del]

section \<open>Writing\<close>

text \<open>A writer's two operations on its state.\<close>

record 'o writer =
  wr_write :: "bytes \<Rightarrow> 'o \<Rightarrow> (text + unit) \<times> 'o"
  wr_flush :: "'o \<Rightarrow> (text + unit) \<times> 'o"

definition write_message ::
  "'o writer \<Rightarrow> text \<Rightarrow> stdio_transport \<Rightarrow> 'o \<Rightarrow> (stdio_error + unit) \<times> stdio_transport \<times> 'o" where
  "write_message w message s out =
     (if stdio_is_shutdown s then (Inl TransportShutDown, s, out)
      else if text_len message > so_max_message_size (sx_config s) then
        (Inl MessageTooLarge, log_error (ascii ''stdout message exceeded maximum size'') s, out)
      else
        case wr_write w (utf8_bytes (message @ [10])) out of
          (Inl e, out') \<Rightarrow> (Inl (IoFailed e), s, out')
        | (Inr _, out') \<Rightarrow>
            if so_auto_flush (sx_config s) then
              (case wr_flush w out' of
                 (Inl e, out'') \<Rightarrow> (Inl (IoFailed e), s, out'')
               | (Inr _, out'') \<Rightarrow> (Inr (), s, out''))
            else (Inr (), s, out'))"

definition stdio_frame_message :: "text \<Rightarrow> text" where
  "stdio_frame_message message = message @ [10]"

definition stdio_unframe_message :: "text \<Rightarrow> text" where
  "stdio_unframe_message data = trim_end_char 13 (trim_end_char 10 data)"

section \<open>The byte framer\<close>

record message_framer =
  mf_buffer :: bytes
  mf_max_size :: nat

definition framer_new :: message_framer where
  "framer_new = \<lparr>mf_buffer = [], mf_max_size = 10 * 1024 * 1024\<rparr>"

definition framer_with_max_size :: "nat \<Rightarrow> message_framer \<Rightarrow> message_framer" where
  "framer_with_max_size n f = f\<lparr>mf_max_size := n\<rparr>"

fun feed_bytes :: "bytes \<Rightarrow> text list \<Rightarrow> message_framer \<Rightarrow> (stdio_error + text list) \<times> message_framer" where
  "feed_bytes [] messages f = (Inr messages, f)"
| "feed_bytes (byte # data) messages f =
     (if byte = 10 then
        if mf_buffer f = [] then feed_bytes data messages f
        else
          case from_utf8 (mf_buffer f) of
            None \<Rightarrow> (Inl InvalidUtf8, f\<lparr>mf_buffer := []\<rparr>)
          | Some message \<Rightarrow>
              let trimmed = trim_text message
              in feed_bytes data (if trimmed \<noteq> [] then messages @ [trimmed] else messages)
                   (f\<lparr>mf_buffer := []\<rparr>)
      else if length (mf_buffer f) \<ge> mf_max_size f then (Inl MessageTooLarge, f\<lparr>mf_buffer := []\<rparr>)
      else feed_bytes data messages (f\<lparr>mf_buffer := mf_buffer f @ [byte]\<rparr>))"

definition framer_feed :: "bytes \<Rightarrow> message_framer \<Rightarrow> (stdio_error + text list) \<times> message_framer" where
  "framer_feed data f = feed_bytes data [] f"

definition framer_has_partial :: "message_framer \<Rightarrow> bool" where
  "framer_has_partial f \<longleftrightarrow> mf_buffer f \<noteq> []"

definition framer_buffer_size :: "message_framer \<Rightarrow> nat" where
  "framer_buffer_size f = length (mf_buffer f)"

definition framer_clear :: "message_framer \<Rightarrow> message_framer" where
  "framer_clear f = f\<lparr>mf_buffer := []\<rparr>"

section \<open>Newlines in UTF-8\<close>

definition scalars :: "text \<Rightarrow> bool" where
  "scalars t \<longleftrightarrow> (\<forall>c \<in> set t. is_scalar c)"

lemma scalars_simps [simp]:
  "scalars []" "scalars (c # t) \<longleftrightarrow> is_scalar c \<and> scalars t" "scalars (s @ t) \<longleftrightarrow> scalars s \<and> scalars t"
  by (auto simp: scalars_def)

lemma utf8_bytes_simps [simp]:
  "utf8_bytes [] = []" "utf8_bytes (s @ t) = utf8_bytes s @ utf8_bytes t" "utf8_bytes [10] = [10]"
  "utf8_bytes (10 # t) = 10 # utf8_bytes t"
  by (simp_all add: utf8_bytes_def utf8_char_def)

lemma utf8_bytes_Nil_iff [simp]: "utf8_bytes t = [] \<longleftrightarrow> t = []"
  by (cases t) (simp_all add: utf8_bytes_def utf8_char_def)

lemma from_utf8_scalars [simp]: "scalars t \<Longrightarrow> from_utf8 (utf8_bytes t) = Some t"
  by (simp add: from_utf8_bytes scalars_def)

lemma newline_scalar [simp]: "is_scalar 10"
  by (simp add: is_scalar_def)

lemma utf8_char_newline: "c \<noteq> 10 \<Longrightarrow> 10 \<notin> set (utf8_char c)"
  by (auto simp: utf8_char_def)

lemma newline_bytes:
  assumes "scalars t" and "10 \<notin> set t"
  shows "10 \<notin> set (utf8_bytes t)"
proof
  assume "10 \<in> set (utf8_bytes t)"
  then obtain c b where c: "c \<in> set t" "b \<in> set (utf8_char c)" "(of_nat b :: 8 word) = 10"
    by (auto simp: utf8_bytes_def)
  then have "b < 256" using assms(1) utf8_char_bytes by (auto simp: scalars_def)
  then have "unat (of_nat b :: 8 word) = b" by (simp add: unat_of_nat_small)
  with c(3) have "b = 10" by simp
  with c assms utf8_char_newline show False by metis
qed

lemma line_take_newline: "10 \<notin> set bs \<Longrightarrow> line_take (bs @ 10 # cs) = length bs + 1"
  by (simp add: line_take_def takeWhile_append)

lemma line_take_all: "10 \<notin> set bs \<Longrightarrow> line_take bs = length bs"
proof -
  assume "10 \<notin> set bs"
  then have tw: "takeWhile (\<lambda>b. b \<noteq> 10) bs = bs" by (auto simp: takeWhile_eq_all_conv)
  show ?thesis unfolding line_take_def tw by simp
qed

section \<open>Reading lines\<close>

text \<open>A reader whose fills end between characters, and what it delivers.\<close>

definition text_reader :: "text list \<Rightarrow> reader" where
  "text_reader ps = map (\<lambda>p. Inr (utf8_bytes p)) ps"

definition good_pieces :: "text list \<Rightarrow> bool" where
  "good_pieces ps \<longleftrightarrow> (\<forall>p \<in> set ps. p \<noteq> [] \<and> scalars p)"

lemma read_line_piece:
  assumes "p \<noteq> []" and "scalars p" and "n = line_take (utf8_bytes p)"
    and "take n (utf8_bytes p) = utf8_bytes q" and "scalars q"
    and "text_len (sx_read_buffer s) + n \<le> so_max_message_size (sx_config s)"
  shows "read_line_bounded s (text_reader (p # ps)) =
    (let s' = s\<lparr>sx_read_buffer := sx_read_buffer s @ q\<rparr>;
         r = reader_consume n (text_reader (p # ps))
     in if sx_read_buffer s' \<noteq> [] \<and> last (sx_read_buffer s') = 10
        then (Inr LineRead, s', r) else read_line_bounded s' r)"
  using assms
  by (simp add: read_line_bounded.simps [of s] text_reader_def Let_def)

lemma read_line_text:
  assumes "good_pieces ps" and "concat ps = l @ 10 # rest" and "10 \<notin> set l"
    and "text_len (sx_read_buffer s) + text_len l + 1 \<le> so_max_message_size (sx_config s)"
    and "10 \<notin> set (sx_read_buffer s)"
  shows "\<exists>ps'. read_line_bounded s (text_reader ps) =
      (Inr LineRead, s\<lparr>sx_read_buffer := sx_read_buffer s @ l @ [10]\<rparr>, text_reader ps') \<and>
    concat ps' = rest \<and> good_pieces ps'"
  using assms
proof (induction ps arbitrary: s l)
  case (Cons p ps)
  have p: "p \<noteq> []" "scalars p" and ps: "good_pieces ps"
    using Cons.prems(1) by (auto simp: good_pieces_def)
  show ?case
  proof (cases "10 \<in> set p")
    case True
    then obtain l' q where lq: "p = l' @ 10 # q" "10 \<notin> set l'" by (meson split_list_first)
    with Cons.prems(2,3) have "l' = l" "rest = q @ concat ps"
      by (auto simp: append_eq_append_conv2 append_eq_Cons_conv Cons_eq_append_conv)
    then have lq: "p = l @ [10] @ q" and rest: "rest = q @ concat ps" using lq by simp_all
    have sc: "scalars l" "scalars q" using p(2) lq by simp_all
    have b: "utf8_bytes p = utf8_bytes l @ 10 # utf8_bytes q" using lq by simp
    have n: "line_take (utf8_bytes p) = text_len l + 1"
      using newline_bytes [OF sc(1) Cons.prems(3)] b by (simp add: line_take_newline length_utf8_bytes)
    have t: "take (text_len l + 1) (utf8_bytes p) = utf8_bytes (l @ [10])"
      and d: "drop (text_len l + 1) (utf8_bytes p) = utf8_bytes q"
      using b by (simp_all add: length_utf8_bytes [symmetric])
    have "q = [] \<longleftrightarrow> length (utf8_bytes p) \<le> text_len l + 1"
      using d by (metis drop_eq_Nil utf8_bytes_Nil_iff)
    then have "read_line_bounded s (text_reader (p # ps)) =
        (Inr LineRead, s\<lparr>sx_read_buffer := sx_read_buffer s @ l @ [10]\<rparr>,
         text_reader (if q = [] then ps else q # ps))"
      using read_line_piece [OF p n [symmetric] t, of s ps] Cons.prems(4) sc d
      by (simp add: Let_def text_reader_def)
    moreover have "good_pieces (if q = [] then ps else q # ps)"
      using ps sc by (simp add: good_pieces_def)
    ultimately show ?thesis using rest by (intro exI [of _ "if q = [] then ps else q # ps"]) simp
  next
    case False
    with Cons.prems(2) obtain l' where l: "l = p @ l'" "concat ps = l' @ 10 # rest"
      by (auto simp: append_eq_append_conv2 append_eq_Cons_conv Cons_eq_append_conv)
    have n: "line_take (utf8_bytes p) = text_len p"
      using newline_bytes [OF p(2) False] by (simp add: line_take_all length_utf8_bytes)
    let ?s = "s\<lparr>sx_read_buffer := sx_read_buffer s @ p\<rparr>"
    have fits: "text_len (sx_read_buffer s) + text_len p \<le> so_max_message_size (sx_config s)"
      using Cons.prems(4) l by (simp add: text_len_def)
    have "last (sx_read_buffer s @ p) \<noteq> 10" using p False by (metis last_appendR last_in_set)
    then have "read_line_bounded s (text_reader (p # ps)) = read_line_bounded ?s (text_reader ps)"
      using read_line_piece [OF p n [symmetric], of p s ps] fits l p
      by (simp add: Let_def text_reader_def length_utf8_bytes)
    moreover have "\<exists>ps'. read_line_bounded ?s (text_reader ps) =
        (Inr LineRead, ?s\<lparr>sx_read_buffer := sx_read_buffer ?s @ l' @ [10]\<rparr>, text_reader ps') \<and>
      concat ps' = rest \<and> good_pieces ps'"
      by (rule Cons.IH [OF ps l(2)]) (use Cons.prems(3-5) l False in \<open>auto simp: text_len_def\<close>)
    ultimately show ?thesis using l by simp
  qed
qed simp

text \<open>A message that is one line: no newline, nothing to trim, within the limit.\<close>

definition sendable :: "nat \<Rightarrow> text \<Rightarrow> bool" where
  "sendable limit m \<longleftrightarrow> m \<noteq> [] \<and> scalars m \<and> 10 \<notin> set m \<and> \<not> is_whitespace (hd m) \<and>
     \<not> is_whitespace (last m) \<and> text_len m < limit"

lemma trim_sendable:
  assumes "sendable limit m"
  shows "trim_end (m @ [10]) = m" and "trim_text m = m"
proof -
  have m: "m \<noteq> []" "\<not> is_whitespace (hd m)" "\<not> is_whitespace (last m)" using assms by (simp_all add: sendable_def)
  then obtain c cs where c: "rev m = c # cs" "\<not> is_whitespace c"
    by (metis hd_rev list.exhaust_sel rev_is_Nil_conv)
  then have m_eq: "m = rev cs @ [c]" by (metis rev.simps(2) rev_rev_ident)
  have "is_whitespace 10" by (simp add: is_whitespace_def)
  with c show "trim_end (m @ [10]) = m" by (simp add: trim_end_def m_eq)
  have "trim_start m = m" using m by (cases m) (simp_all add: trim_start_def)
  then show "trim_text m = m" using c by (simp add: trim_text_def trim_end_def m_eq)
qed

lemma read_message_line:
  assumes "good_pieces ps" and "concat ps = m @ 10 # rest" and "sendable (so_max_message_size (sx_config s)) m"
    and "\<not> stdio_is_shutdown s"
  shows "\<exists>ps' s'. read_message s (text_reader ps) = (Inr (Some m), s', text_reader ps') \<and>
    concat ps' = rest \<and> good_pieces ps' \<and> sx_config s' = sx_config s \<and> \<not> stdio_is_shutdown s'"
proof -
  have "\<exists>ps'. read_line_bounded (s\<lparr>sx_read_buffer := []\<rparr>) (text_reader ps) =
      (Inr LineRead, (s\<lparr>sx_read_buffer := []\<rparr>)\<lparr>sx_read_buffer := sx_read_buffer (s\<lparr>sx_read_buffer := []\<rparr>) @ m @ [10]\<rparr>,
       text_reader ps') \<and> concat ps' = rest \<and> good_pieces ps'"
    by (rule read_line_text) (use assms in \<open>auto simp: sendable_def text_len_def\<close>)
  then obtain ps' where "read_line_bounded (s\<lparr>sx_read_buffer := []\<rparr>) (text_reader ps) =
      (Inr LineRead, s\<lparr>sx_read_buffer := m @ [10]\<rparr>, text_reader ps')" "concat ps' = rest" "good_pieces ps'"
    by auto
  moreover have "m \<noteq> []" using assms(3) by (simp add: sendable_def)
  ultimately show ?thesis
    using assms(4) trim_sendable(1) [OF assms(3)]
    by (auto simp: read_message.simps [of s] stdio_is_shutdown_def)
qed

lemma read_all_lines:
  assumes "good_pieces ps" and "concat ps = concat (map stdio_frame_message ms)"
    and "\<forall>m \<in> set ms. sendable (so_max_message_size (sx_config s)) m" and "\<not> stdio_is_shutdown s"
  shows "fst (read_all_messages s (text_reader ps) acc) = Inr (acc @ ms)"
  using assms
proof (induction ms arbitrary: ps s acc)
  case Nil
  then have "ps = []" by (cases ps) (auto simp: good_pieces_def)
  then show ?case
    using Nil.prems(4)
    by (simp add: text_reader_def read_all_messages.simps [of s] read_message.simps [of s]
        read_line_bounded.simps)
next
  case (Cons m ms)
  have "concat ps = m @ 10 # concat (map stdio_frame_message ms)"
    using Cons.prems(2) by (simp add: stdio_frame_message_def [of m])
  from read_message_line [OF Cons.prems(1) this _ Cons.prems(4)] Cons.prems(3) obtain ps' s' where
    r: "read_message s (text_reader ps) = (Inr (Some m), s', text_reader ps')"
    "concat ps' = concat (map stdio_frame_message ms)" "good_pieces ps'" "sx_config s' = sx_config s"
    "\<not> stdio_is_shutdown s'" by auto
  have "fst (read_all_messages s' (text_reader ps') (acc @ [m])) = Inr ((acc @ [m]) @ ms)"
    by (rule Cons.IH) (use Cons.prems(3) r in simp_all)
  then show ?case using r Cons.prems(4) by (simp add: read_all_messages.simps [of s])
qed

text \<open>Lines survive buffering. Messages framed one per line are read back in order and unchanged
  however the input is cut into fills, as long as no fill ends inside a character.\<close>

theorem stdio_reads_lines:
  assumes "good_pieces ps" and "concat ps = concat (map stdio_frame_message ms)"
    and "\<forall>m \<in> set ms. sendable (so_max_message_size (sx_config s)) m" and "\<not> stdio_is_shutdown s"
  shows "fst (read_all_messages s (text_reader ps) []) = Inr ms"
  using read_all_lines [OF assms, of "[]"] by simp

lemma stdio_reads_lines_witness:
  "fst (read_all_messages stdio_new (text_reader [[123], [233, 125, 10, 91], [93], [10]]) []) =
     Inr [[123, 233, 125], [91, 93]]"
  by (rule stdio_reads_lines)
    (simp_all add: good_pieces_def is_scalar_def stdio_frame_message_def sendable_def is_whitespace_def
      text_len_def len_utf8_def stdio_new_def stdio_with_config_def stdio_config_default_def
      stdio_is_shutdown_def)

text \<open>A fill that ends inside a character makes the reader fail, and the bytes stay unread.\<close>

lemma split_character_refused:
  "read_message stdio_new [Inr [0x22, 0xC3], Inr [0xA9, 0x22, 10]] =
     (Inl InvalidUtf8, stdio_new, [Inr [0x22, 0xC3], Inr [0xA9, 0x22, 10]])"
  by (simp add: read_message.simps read_line_bounded.simps line_take_def text_len_def from_utf8_def
      stdio_new_def stdio_with_config_def stdio_config_default_def stdio_is_shutdown_def Let_def)

text \<open>No message read is longer than the limit.\<close>

lemma text_len_trim_end: "text_len (trim_end t) \<le> text_len t"
proof -
  have "t = trim_end t @ rev (takeWhile is_whitespace (rev t))"
    by (metis rev_append rev_rev_ident takeWhile_dropWhile_id trim_end_def)
  then have "text_len t = text_len (trim_end t) + text_len (rev (takeWhile is_whitespace (rev t)))"
    by (metis map_append sum_list.append text_len_def)
  then show ?thesis by simp
qed

lemma len_decoded:
  "0xC2 \<le> a \<Longrightarrow> a < 0xE0 \<Longrightarrow> cont_byte b \<Longrightarrow> len_utf8 ((a - 0xC0) * 64 + (b - 0x80)) = 2"
  "0xE0 \<le> a \<Longrightarrow> a < 0xF0 \<Longrightarrow> cont_byte b \<Longrightarrow> cont_byte c \<Longrightarrow>
   x = (a - 0xE0) * 4096 + (b - 0x80) * 64 + (c - 0x80) \<Longrightarrow> 0x800 \<le> x \<Longrightarrow> len_utf8 x = 3"
  "0x10000 \<le> x \<Longrightarrow> len_utf8 x = 4"
  by (auto simp: len_utf8_def cont_byte_def)

lemma utf8_decode_len: "utf8_decode bs = Some t \<Longrightarrow> sum_list (map len_utf8 t) = length bs"
proof (induction bs arbitrary: t rule: utf8_decode.induct)
  case (2 a bs)
  show ?case
  proof (cases "a < 0x80")
    case True
    with 2 show ?thesis by (auto simp: len_utf8_def)
  next
    case a: False
    with 2(5) obtain b bs1 where b: "bs = b # bs1" by (cases bs) auto
    show ?thesis
    proof (cases "0xC2 \<le> a \<and> a < 0xE0")
      case True
      with 2(5) a b obtain t' where "cont_byte b" "utf8_decode bs1 = Some t'"
        "t = ((a - 0xC0) * 64 + (b - 0x80)) # t'" by (auto split: if_splits)
      with 2(2) [OF a b True] True b show ?thesis by (simp add: len_decoded)
    next
      case a2: False
      with 2(5) a b obtain c bs2 where c: "bs1 = c # bs2" by (cases bs1) auto
      show ?thesis
      proof (cases "0xE0 \<le> a \<and> a < 0xF0")
        case True
        define x where "x = (a - 0xE0) * 4096 + (b - 0x80) * 64 + (c - 0x80)"
        from 2(5) a a2 b c True obtain t' where t: "cont_byte b \<and> cont_byte c \<and> 0x800 \<le> x \<and> is_scalar x"
          "utf8_decode bs2 = Some t'" "t = x # t'" by (auto simp: x_def Let_def split: if_splits)
        then show ?thesis
          using 2(3) [OF a b a2 c True x_def t(1,2)] True b c len_decoded(2) [OF _ _ _ _ x_def] by simp
      next
        case a3: False
        with 2(5) a a2 b c obtain d bs3 where d: "bs2 = d # bs3" by (cases bs2) auto
        define x where "x = (a - 0xF0) * 262144 + (b - 0x80) * 4096 + (c - 0x80) * 64 + (d - 0x80)"
        from 2(5) a a2 a3 b c d obtain t' where t: "0xF0 \<le> a \<and> a < 0xF5 \<and> cont_byte b \<and> cont_byte c \<and>
            cont_byte d \<and> 0x10000 \<le> x \<and> is_scalar x"
          "utf8_decode bs3 = Some t'" "t = x # t'" by (auto simp: x_def Let_def split: if_splits)
        then show ?thesis
          using 2(4) [OF a b a2 c a3 d x_def t(1,2)] b c d by (simp add: len_decoded)
      qed
    qed
  qed
qed simp

lemma from_utf8_len: "from_utf8 bs = Some t \<Longrightarrow> text_len t = length bs"
  using utf8_decode_len by (fastforce simp: from_utf8_def text_len_def)

lemma sx_config_log [simp]:
  "sx_config (log_line prefix m s) = sx_config s" "sx_config (log_error m s) = sx_config s"
  "sx_config (log_stderr m s) = sx_config s" "sx_config (stdio_shutdown s) = sx_config s"
  "sx_config (s\<lparr>sx_read_buffer := b\<rparr>) = sx_config s"
  by (simp_all add: log_line_def log_error_def log_stderr_def stdio_shutdown_def)

lemma read_line_fits:
  "read_line_bounded s r = (x, s', r') \<Longrightarrow> sx_config s' = sx_config s \<and>
   (text_len (sx_read_buffer s) \<le> so_max_message_size (sx_config s) \<longrightarrow> x = Inr LineRead \<longrightarrow>
    text_len (sx_read_buffer s') \<le> so_max_message_size (sx_config s))"
proof (induction s r arbitrary: x s' r' rule: read_line_bounded.induct)
  case (1 s r)
  show ?case
  proof (cases "\<exists>c r1. fill_buf r = (Inr c, r1) \<and> c \<noteq> [] \<and>
      \<not> text_len (sx_read_buffer s) + line_take c > so_max_message_size (sx_config s) \<and>
      from_utf8 (take (line_take c) c) \<noteq> None")
    case True
    then obtain c r1 piece where c: "fill_buf r = (Inr c, r1)" "c \<noteq> []"
      "\<not> text_len (sx_read_buffer s) + line_take c > so_max_message_size (sx_config s)"
      "from_utf8 (take (line_take c) c) = Some piece" by auto
    let ?s = "s\<lparr>sx_read_buffer := sx_read_buffer s @ piece\<rparr>"
    have "text_len piece = line_take c" using from_utf8_len [OF c(4)] line_take_bounds [OF c(2)] by simp
    then have fits: "text_len (sx_read_buffer ?s) \<le> so_max_message_size (sx_config s)"
      using c(3) by (simp add: text_len_def)
    show ?thesis
      using 1(2) c fits 1(1) [OF c(1) [symmetric] refl c(2) refl refl c(3,4) refl refl]
      by (auto simp: read_line_bounded.simps [of s r] Let_def split: if_splits)
  next
    case False
    with 1(2) show ?thesis
      by (cases "fill_buf r"; cases "fst (fill_buf r)")
        (auto simp: read_line_bounded.simps [of s r] Let_def split: if_splits option.splits)
  qed
qed

lemma read_message_fits:
  "read_message s r = (x, s', r') \<Longrightarrow> sx_config s' = sx_config s \<and>
   (\<forall>m. x = Inr (Some m) \<longrightarrow> m \<noteq> [] \<and> text_len m \<le> so_max_message_size (sx_config s))"
proof (induction s r arbitrary: x s' r' rule: read_message.induct)
  case (1 s r)
  show ?case
  proof (cases "read_line_bounded (s\<lparr>sx_read_buffer := []\<rparr>) r")
    case (fields y s1 r1)
    note fit = read_line_fits [OF fields, simplified]
    show ?thesis
    proof (cases "\<not> stdio_is_shutdown s \<and> y = Inr LineRead \<and> trim_end (sx_read_buffer s1) = []")
      case True
      then have l: "\<not> stdio_is_shutdown s"
        "read_line_bounded (s\<lparr>sx_read_buffer := []\<rparr>) r = (Inr LineRead, s1, r1)"
        "trim_end (sx_read_buffer s1) = []" using fields by simp_all
      then have "read_message s1 r1 = (x, s', r')"
        using 1(2) by (simp add: read_message.simps [of s r])
      from 1(1) [OF l(1) l(2) [symmetric] refl refl refl refl l(3) this] fit show ?thesis by simp
    next
      case False
      with 1(2) fields fit text_len_trim_end [of "sx_read_buffer s1"] show ?thesis
        by (auto simp: read_message.simps [of s r] Let_def text_len_def
            split: if_splits sum.splits read_line_outcome.splits)
    qed
  qed
qed

lemma read_all_fits:
  "\<forall>m \<in> set acc. m \<noteq> [] \<and> text_len m \<le> so_max_message_size (sx_config s) \<Longrightarrow>
   read_all_messages s r acc = (Inr ms, s', r') \<Longrightarrow>
   \<forall>m \<in> set ms. m \<noteq> [] \<and> text_len m \<le> so_max_message_size (sx_config s)"
proof (induction s r acc arbitrary: ms s' r' rule: read_all_messages.induct)
  case (1 s r acc)
  show ?case
  proof (cases "read_message s r")
    case (fields y s1 r1)
    note fit = read_message_fits [OF fields]
    show ?thesis
    proof (cases "\<not> stdio_is_shutdown s \<and> (\<exists>m. y = Inr (Some m))")
      case True
      then obtain m where m: "\<not> stdio_is_shutdown s" "y = Inr (Some m)" by blast
      have "read_all_messages s1 r1 (acc @ [m]) = (Inr ms, s', r')"
        using 1(3) m(1) unfolding read_all_messages.simps [of s r acc] fields m(2) by simp
      moreover have "\<forall>m' \<in> set (acc @ [m]). m' \<noteq> [] \<and> text_len m' \<le> so_max_message_size (sx_config s1)"
        using 1(2) fit m by auto
      ultimately show ?thesis
        using 1(1) [OF m(1) fields [unfolded m(2), symmetric] refl refl refl] fit by metis
    next
      case False
      have "ms = acc"
      proof (cases "stdio_is_shutdown s")
        case True
        with 1(3) show ?thesis by (simp add: read_all_messages.simps [of s r acc])
      next
        case up: False
        with False consider e where "y = Inl e" | "y = Inr None" by (cases y) auto
        then show ?thesis
          using 1(3) up fields by cases (simp_all add: read_all_messages.simps [of s r acc])
      qed
      with 1(2) show ?thesis by simp
    qed
  qed
qed

text \<open>Bounded reading. Whatever bytes arrive in whatever fills, every message read is non-empty and
  no longer than the configured limit.\<close>

theorem stdio_messages_bounded:
  "case fst (read_all_messages s r []) of
     Inl e \<Rightarrow> True
   | Inr ms \<Rightarrow> list_all (\<lambda>m. m \<noteq> [] \<and> text_len m \<le> so_max_message_size (sx_config s)) ms"
  using read_all_fits [of "[]" s r]
  by (cases "read_all_messages s r []") (auto simp: list_all_iff split: sum.split)

section \<open>The framer\<close>

lemma feed_bytes_append:
  "feed_bytes (a @ b) acc f =
     (case feed_bytes a acc f of (Inl e, f') \<Rightarrow> (Inl e, f') | (Inr acc', f') \<Rightarrow> feed_bytes b acc' f')"
  by (induction a acc f rule: feed_bytes.induct) (simp_all add: Let_def split: option.split)

lemma feed_bytes_acc:
  "feed_bytes a acc f =
     (case feed_bytes a [] f of (Inl e, f') \<Rightarrow> (Inl e, f') | (Inr ms, f') \<Rightarrow> (Inr (acc @ ms), f'))"
proof (induction a arbitrary: acc f)
  case (Cons b a)
  have step: "feed_bytes a (xs @ ys) g =
      (case feed_bytes a ys g of (Inl e, f') \<Rightarrow> (Inl e, f') | (Inr ms, f') \<Rightarrow> (Inr (xs @ ms), f'))" for xs ys g
    unfolding Cons.IH [of "xs @ ys" g] Cons.IH [of ys g] by (simp split: prod.split sum.split)
  show ?case
    using Cons.IH [of acc] step [of acc]
    by (simp add: Let_def split: option.split)
qed simp

lemma feed_plain:
  "10 \<notin> set bs \<Longrightarrow> length (mf_buffer f) + length bs \<le> mf_max_size f \<Longrightarrow>
   feed_bytes bs acc f = (Inr acc, f\<lparr>mf_buffer := mf_buffer f @ bs\<rparr>)"
  by (induction bs arbitrary: f) auto

lemma feed_line:
  assumes "sendable (mf_max_size f) m" and "mf_buffer f = []"
  shows "feed_bytes (utf8_bytes (stdio_frame_message m)) acc f = (Inr (acc @ [m]), f)"
proof -
  have m: "m \<noteq> []" "scalars m" "10 \<notin> set m" "text_len m < mf_max_size f"
    using assms(1) by (simp_all add: sendable_def)
  have "feed_bytes (utf8_bytes m) acc f = (Inr acc, f\<lparr>mf_buffer := utf8_bytes m\<rparr>)"
    using feed_plain [OF newline_bytes [OF m(2,3)], of f acc] m(4) assms(2) by (simp add: length_utf8_bytes)
  then show ?thesis
    using m trim_sendable(2) [OF assms(1)] assms(2)
    by (simp add: stdio_frame_message_def feed_bytes_append)
qed

lemma feed_lines:
  "\<forall>m \<in> set ms. sendable (mf_max_size f) m \<Longrightarrow> mf_buffer f = [] \<Longrightarrow>
   feed_bytes (concat (map (\<lambda>m. utf8_bytes (stdio_frame_message m)) ms)) acc f = (Inr (acc @ ms), f)"
  by (induction ms arbitrary: acc) (simp_all add: feed_bytes_append feed_line)

text \<open>Feeding segment after segment, with all messages.\<close>

primrec feed_segments :: "bytes list \<Rightarrow> message_framer \<Rightarrow> stdio_error + text list" where
  "feed_segments [] f = Inr []"
| "feed_segments (seg # segs) f =
     (case framer_feed seg f of
        (Inl e, f') \<Rightarrow> Inl e
      | (Inr ms, f') \<Rightarrow> bind_result (feed_segments segs f') (\<lambda>rest. Inr (ms @ rest)))"

lemma feed_segments_concat: "feed_segments segs f = fst (framer_feed (concat segs) f)"
proof (induction segs arbitrary: f)
  case (Cons seg segs)
  obtain x f' where x: "feed_bytes seg [] f = (x, f')" by (cases "feed_bytes seg [] f")
  show ?case
  proof (cases x)
    case (Inl e)
    with x show ?thesis by (simp add: framer_feed_def feed_bytes_append)
  next
    case (Inr ms)
    have "feed_bytes (concat segs) ms f' =
        (case feed_bytes (concat segs) [] f' of (Inl e, g) \<Rightarrow> (Inl e, g) | (Inr ns, g) \<Rightarrow> (Inr (ms @ ns), g))"
      by (rule feed_bytes_acc)
    then show ?thesis
      by (simp add: framer_feed_def feed_bytes_append x Inr Cons.IH split: prod.split sum.split)
  qed
qed (simp add: framer_feed_def)

text \<open>Writing to a buffer.\<close>

definition buffer_writer :: "bytes writer" where
  "buffer_writer = \<lparr>wr_write = (\<lambda>bs out. (Inr (), out @ bs)), wr_flush = (\<lambda>out. (Inr (), out))\<rparr>"

primrec write_messages :: "text list \<Rightarrow> stdio_transport \<Rightarrow> bytes \<Rightarrow> stdio_error + bytes" where
  "write_messages [] s out = Inr out"
| "write_messages (m # ms) s out =
     (case write_message buffer_writer m s out of
        (Inl e, s', out') \<Rightarrow> Inl e
      | (Inr _, s', out') \<Rightarrow> write_messages ms s' out')"

lemma write_messages_ok:
  "\<forall>m \<in> set ms. text_len m \<le> so_max_message_size (sx_config s) \<Longrightarrow> \<not> stdio_is_shutdown s \<Longrightarrow>
   write_messages ms s out = Inr (out @ concat (map (\<lambda>m. utf8_bytes (stdio_frame_message m)) ms))"
  by (induction ms arbitrary: out) (simp_all add: write_message_def buffer_writer_def stdio_frame_message_def)

text \<open>Lines end to end. Messages one transport writes reach the framer of the other side in order
  and unchanged however the bytes are segmented on the way, inside characters too.\<close>

theorem stdio_end_to_end:
  assumes "\<forall>m \<in> set ms. sendable (so_max_message_size (sx_config s)) m \<and> sendable (mf_max_size f) m"
    and "\<not> stdio_is_shutdown s" and "mf_buffer f = []"
    and "write_messages ms s [] = Inr (concat segs)"
  shows "feed_segments segs f = Inr ms"
proof -
  have short: "\<forall>m \<in> set ms. text_len m \<le> so_max_message_size (sx_config s)"
    using assms(1) by (auto simp: sendable_def)
  have "write_messages ms s [] = Inr (concat (map (\<lambda>m. utf8_bytes (stdio_frame_message m)) ms))"
    using write_messages_ok [OF _ assms(2), of ms "[]"] short by simp
  with assms(4) have "concat segs = concat (map (\<lambda>m. utf8_bytes (stdio_frame_message m)) ms)" by simp
  then show ?thesis
    using feed_lines [of ms f "[]"] assms(1,3) by (simp add: feed_segments_concat framer_feed_def)
qed

lemma stdio_end_to_end_witness:
  "feed_segments [[0x22, 0xC3], [0xA9], [0x22, 10, 0x5B, 0x5D], [10]] framer_new =
     Inr [[0x22, 233, 0x22], [0x5B, 0x5D]]"
  by (rule stdio_end_to_end [where s = stdio_new])
    (simp_all add: sendable_def is_scalar_def is_whitespace_def text_len_def len_utf8_def stdio_new_def
      stdio_with_config_def stdio_config_default_def stdio_is_shutdown_def framer_new_def
      write_message_def buffer_writer_def utf8_bytes_def utf8_char_def)

text \<open>A line that is not UTF-8 discards the complete messages before it in the same chunk.\<close>

lemma framer_loses_messages:
  "framer_feed [0x7B, 0x7D, 10, 0xFF, 10] framer_new = (Inl InvalidUtf8, framer_new)"
  by (simp add: framer_feed_def framer_new_def from_utf8_def trim_text_def trim_start_def trim_end_def
      is_whitespace_def)

end
