(* ===== verification/Pipeline.thy ===== *)
theory Pipeline
  imports Mux_Connection
begin

text \<open>
  Request pipelining over a multiplexed connection (\<open>src/src/multiplex/pipeline.rs\<close>). A one-shot
  response channel is an index into the list of replies. Every operation is given whole; sending is also
  given as the atomic steps it awaits between, because its counter is not under the lock of the table.
\<close>

section \<open>State\<close>

record pipeline =
  pl_connection :: mux
  pl_request_id :: u64
  pl_pending :: "(u64, u16 \<times> nat) hmap"
  pl_max_in_flight :: nat
  pl_in_flight :: u64
  pl_replies :: "(mux_error + bytes) option list"

definition pipeline_new :: "mux \<Rightarrow> nat \<Rightarrow> pipeline" where
  "pipeline_new c max_in_flight =
     \<lparr>pl_connection = c, pl_request_id = 1, pl_pending = [], pl_max_in_flight = max_in_flight,
      pl_in_flight = 0, pl_replies = []\<rparr>"

definition in_flight_count :: "pipeline \<Rightarrow> nat" where
  "in_flight_count p = unat (pl_in_flight p)"

definition can_send_more :: "pipeline \<Rightarrow> bool" where
  "can_send_more p \<longleftrightarrow> in_flight_count p < pl_max_in_flight p"

section \<open>Sending, step by step\<close>

datatype sender =
    Sending bytes
  | Allowed bytes
  | Streaming bytes u16
  | Numbered bytes u16 u64 nat
  | Entered bytes u16 u64 nat
  | CountedIn bytes u16 u64 nat
  | Failing u16 u64 mux_error
  | Dropped u16 mux_error
  | Uncounted u16 mux_error
  | Sent "mux_error + nat"

fun sender_step :: "pipeline \<Rightarrow> sender \<Rightarrow> pipeline \<times> sender" where
  "sender_step p (Sending data) =
     (p, if \<not> can_send_more p then Sent (Inl SendBufferFull) else Allowed data)"
| "sender_step p (Allowed data) =
     (case open_stream (pl_connection p) of
        (c, Inl e) \<Rightarrow> (p\<lparr>pl_connection := c\<rparr>, Sent (Inl e))
      | (c, Inr i) \<Rightarrow> (p\<lparr>pl_connection := c\<rparr>, Streaming data i))"
| "sender_step p (Streaming data i) =
     (p\<lparr>pl_request_id := pl_request_id p + 1, pl_replies := pl_replies p @ [None]\<rparr>,
      Numbered data i (pl_request_id p) (length (pl_replies p)))"
| "sender_step p (Numbered data i r ch) =
     (p\<lparr>pl_pending := hm_insert r (i, ch) (pl_pending p)\<rparr>, Entered data i r ch)"
| "sender_step p (Entered data i r ch) =
     (p\<lparr>pl_in_flight := pl_in_flight p + 1\<rparr>, CountedIn data i r ch)"
| "sender_step p (CountedIn data i r ch) =
     (case mux_send (pl_connection p) i data of
        (c, Inl e) \<Rightarrow> (p\<lparr>pl_connection := c\<rparr>, Failing i r e)
      | (c, Inr _) \<Rightarrow> (p\<lparr>pl_connection := c\<rparr>, Sent (Inr ch)))"
| "sender_step p (Failing i r e) = (p\<lparr>pl_pending := hm_remove r (pl_pending p)\<rparr>, Dropped i e)"
| "sender_step p (Dropped i e) = (p\<lparr>pl_in_flight := pl_in_flight p - 1\<rparr>, Uncounted i e)"
| "sender_step p (Uncounted i e) =
     (p\<lparr>pl_connection := rollback_stream_open (pl_connection p) i\<rparr>, Sent (Inl e))"
| "sender_step p (Sent x) = (p, Sent x)"

section \<open>Whole operations\<close>

definition pipeline_send :: "bytes \<Rightarrow> pipeline \<Rightarrow> pipeline \<times> (mux_error + nat)" where
  "pipeline_send data p =
     (if \<not> can_send_more p then (p, Inl SendBufferFull)
      else
        case open_stream (pl_connection p) of
          (c, Inl e) \<Rightarrow> (p\<lparr>pl_connection := c\<rparr>, Inl e)
        | (c, Inr i) \<Rightarrow>
            let r = pl_request_id p; ch = length (pl_replies p);
                p1 = p\<lparr>pl_connection := c, pl_request_id := r + 1, pl_replies := pl_replies p @ [None],
                       pl_pending := hm_insert r (i, ch) (pl_pending p),
                       pl_in_flight := pl_in_flight p + 1\<rparr>
            in case mux_send c i data of
                 (c', Inl e) \<Rightarrow>
                   (p1\<lparr>pl_connection := rollback_stream_open c' i,
                       pl_pending := hm_remove r (pl_pending p1),
                       pl_in_flight := pl_in_flight p1 - 1\<rparr>, Inl e)
               | (c', Inr _) \<Rightarrow> (p1\<lparr>pl_connection := c'\<rparr>, Inr ch))"

text \<open>A batch stops at the first failure and then drops the receivers obtained so far.\<close>

fun send_batch :: "bytes list \<Rightarrow> pipeline \<Rightarrow> pipeline \<times> (mux_error + nat list)" where
  "send_batch [] p = (p, Inr [])"
| "send_batch (data # rest) p =
     (case pipeline_send data p of
        (p', Inl e) \<Rightarrow> (p', Inl e)
      | (p', Inr ch) \<Rightarrow>
          (case send_batch rest p' of
             (p'', Inl e) \<Rightarrow> (p'', Inl e)
           | (p'', Inr chs) \<Rightarrow> (p'', Inr (ch # chs))))"

definition find_pending :: "u16 \<Rightarrow> pipeline \<Rightarrow> (u64 \<times> nat) option" where
  "find_pending i p =
     map_option (\<lambda>(r, j, ch). (r, ch)) (List.find (\<lambda>(r, j, ch). j = i) (pl_pending p))"

definition deliver :: "nat \<Rightarrow> mux_error + bytes \<Rightarrow> pipeline \<Rightarrow> pipeline" where
  "deliver ch x p = p\<lparr>pl_replies := (pl_replies p)[ch := Some x]\<rparr>"

definition settle :: "u64 \<Rightarrow> nat \<Rightarrow> mux_error + bytes \<Rightarrow> pipeline \<Rightarrow> pipeline" where
  "settle r ch x p =
     deliver ch x (p\<lparr>pl_pending := hm_remove r (pl_pending p), pl_in_flight := pl_in_flight p - 1\<rparr>)"

definition process_response :: "u16 \<Rightarrow> bytes \<Rightarrow> pipeline \<Rightarrow> pipeline \<times> (mux_error + unit)" where
  "process_response i data p =
     (case find_pending i p of
        None \<Rightarrow> (p, Inr ())
      | Some (r, ch) \<Rightarrow>
          let p1 = settle r ch (Inr data) p; (c, x) = close_stream (pl_connection p1) i
          in (p1\<lparr>pl_connection := c\<rparr>, x))"

definition process_error :: "u16 \<Rightarrow> mux_error \<Rightarrow> pipeline \<Rightarrow> pipeline \<times> (mux_error + unit)" where
  "process_error i e p =
     (case find_pending i p of
        None \<Rightarrow> (p, Inr ())
      | Some (r, ch) \<Rightarrow> (settle r ch (Inl e) p, Inr ()))"

definition cancel_all :: "pipeline \<Rightarrow> pipeline" where
  "cancel_all p =
     (fold (\<lambda>(r, i, ch). deliver ch (Inl ConnectionClosed)) (pl_pending p) p)
       \<lparr>pl_pending := [], pl_in_flight := 0\<rparr>"

definition pending_requests :: "pipeline \<Rightarrow> nat" where
  "pending_requests p = hm_len (pl_pending p)"

text \<open>The whole send is its steps in a row.\<close>

lemma pipeline_send_is_steps:
  "(case ((\<lambda>(p, s). sender_step p s) ^^ 9) (p, Sending data) of (p', Sent x) \<Rightarrow> (p', x)) =
    pipeline_send data p"
  by (auto simp: eval_nat_numeral pipeline_send_def Let_def split: prod.split sum.split)

section \<open>No request is lost\<close>

datatype pipeline_op = PlSend bytes | PlResponse u16 bytes | PlError u16 mux_error | PlCancelAll
  | PlConnection mux_op

text \<open>The client with the receivers its callers hold.\<close>

fun pipeline_step :: "pipeline_op \<Rightarrow> pipeline \<times> nat list \<Rightarrow> pipeline \<times> nat list" where
  "pipeline_step (PlSend data) (p, held) =
     (case pipeline_send data p of (p', Inl e) \<Rightarrow> (p', held) | (p', Inr ch) \<Rightarrow> (p', ch # held))"
| "pipeline_step (PlResponse i data) (p, held) = (fst (process_response i data p), held)"
| "pipeline_step (PlError i e) (p, held) = (fst (process_error i e p), held)"
| "pipeline_step PlCancelAll (p, held) = (cancel_all p, held)"
| "pipeline_step (PlConnection oper) (p, held) =
     (p\<lparr>pl_connection := fst (mux_step (pl_connection p) oper)\<rparr>, held)"

definition awaited :: "pipeline \<Rightarrow> nat \<Rightarrow> bool" where
  "awaited p ch \<longleftrightarrow> (\<exists>r i. hm_get (pl_pending p) r = Some (i, ch))"

definition reply_of :: "pipeline \<Rightarrow> nat \<Rightarrow> (mux_error + bytes) option" where
  "reply_of p ch = (if ch < length (pl_replies p) then pl_replies p ! ch else None)"

definition counters_ok :: "nat \<Rightarrow> pipeline \<Rightarrow> bool" where
  "counters_ok n p \<longleftrightarrow>
     hm_wf (pl_pending p) \<and> unat (pl_in_flight p) = hm_len (pl_pending p) \<and>
     hm_len (pl_pending p) \<le> pl_max_in_flight p \<and> hm_len (pl_pending p) \<le> n \<and>
     unat (pl_request_id p) \<le> n + 1 \<and>
     (\<forall>r v. hm_get (pl_pending p) r = Some v \<longrightarrow> unat r < unat (pl_request_id p))"

definition channels_ok :: "pipeline \<Rightarrow> bool" where
  "channels_ok p \<longleftrightarrow>
     (\<forall>r i ch. hm_get (pl_pending p) r = Some (i, ch) \<longrightarrow>
        ch < length (pl_replies p) \<and> reply_of p ch = None \<and>
        (\<forall>r' j. hm_get (pl_pending p) r' = Some (j, ch) \<longrightarrow> r' = r))"

definition held_ok :: "pipeline \<times> nat list \<Rightarrow> bool" where
  "held_ok ph \<longleftrightarrow> (\<forall>ch \<in> set (snd ph). reply_of (fst ph) ch \<noteq> None \<or> awaited (fst ph) ch)"

definition pipeline_ok :: "nat \<Rightarrow> pipeline \<times> nat list \<Rightarrow> bool" where
  "pipeline_ok n ph \<longleftrightarrow> counters_ok n (fst ph) \<and> channels_ok (fst ph) \<and> held_ok ph"

definition replies_kept :: "pipeline \<Rightarrow> pipeline \<Rightarrow> bool" where
  "replies_kept p q \<longleftrightarrow> (\<forall>ch x. reply_of p ch = Some x \<longrightarrow> reply_of q ch = Some x)"

lemma pipeline_ignores [simp]:
  "reply_of (p\<lparr>pl_connection := c\<rparr>) = reply_of p" "awaited (p\<lparr>pl_connection := c\<rparr>) = awaited p"
  "counters_ok n (p\<lparr>pl_connection := c\<rparr>) = counters_ok n p"
  "channels_ok (p\<lparr>pl_connection := c\<rparr>) = channels_ok p"
  "reply_of (p\<lparr>pl_pending := m, pl_in_flight := w\<rparr>) = reply_of p"
  by (auto simp: fun_eq_iff reply_of_def awaited_def counters_ok_def channels_ok_def)

lemma pipeline_ok_connection:
  "pipeline_ok n (p\<lparr>pl_connection := c\<rparr>, held) = pipeline_ok n (p, held)"
  by (simp add: pipeline_ok_def held_ok_def)

lemma find_pending_get:
  assumes "hm_wf (pl_pending p)" and "find_pending i p = Some (r, ch)"
  shows "hm_get (pl_pending p) r = Some (i, ch)"
proof -
  obtain x where "List.find (\<lambda>(r, j, ch). j = i) (pl_pending p) = Some x" "(\<lambda>(r, j, ch). (r, ch)) x = (r, ch)"
    using assms(2) by (auto simp: find_pending_def)
  then have "(r, i, ch) \<in> set (pl_pending p)"
    by (cases x) (auto simp: find_Some_iff in_set_conv_nth)
  with assms(1) show ?thesis by (simp add: hm_get_in_set)
qed

lemma reply_settle: "reply_of (settle r ch x p) c = (if c = ch \<and> ch < length (pl_replies p) then Some x else reply_of p c)"
  by (simp add: reply_of_def settle_def deliver_def)

lemma pending_settle [simp]: "pl_pending (settle r ch x p) = hm_remove r (pl_pending p)"
  by (simp add: settle_def deliver_def)

lemma counters_settle:
  assumes "counters_ok n p" and "hm_get (pl_pending p) r = Some v"
  shows "counters_ok n (settle r ch x p)"
proof -
  have wf: "hm_wf (pl_pending p)" and c: "unat (pl_in_flight p) = hm_len (pl_pending p)"
    using assms(1) by (simp_all add: counters_ok_def)
  have "Suc (hm_len (hm_remove r (pl_pending p))) = hm_len (pl_pending p)"
    using hm_len_remove [of "pl_pending p" r] wf assms(2)
    by (cases "pl_pending p") (auto simp: hm_contains_def hm_len_def)
  moreover from this have "pl_in_flight p \<noteq> 0" using c by (metis nat.distinct(1) unat_0)
  ultimately have "unat (pl_in_flight p - 1) = hm_len (hm_remove r (pl_pending p))"
    "hm_len (hm_remove r (pl_pending p)) \<le> hm_len (pl_pending p)"
    using c unat_minus_one [of "pl_in_flight p"] by simp_all
  then show ?thesis
    using assms(1) by (auto simp: counters_ok_def settle_def deliver_def)
qed

lemma pipeline_ok_settle:
  assumes ok: "pipeline_ok n (p, held)" and get: "hm_get (pl_pending p) r = Some (i, ch)"
  shows "pipeline_ok n (settle r ch x p, held)" and "replies_kept p (settle r ch x p)"
proof -
  have ch: "channels_ok p" "counters_ok n p" "held_ok (p, held)" using ok by (simp_all add: pipeline_ok_def)
  then have len: "ch < length (pl_replies p)" "reply_of p ch = None" using get by (auto simp: channels_ok_def)
  have other: "c \<noteq> ch" if "hm_get (pl_pending p) r' = Some (j, c)" "r' \<noteq> r" for r' j c
    using that ch(1) get unfolding channels_ok_def by metis
  have "length (pl_replies (settle r ch x p)) = length (pl_replies p)"
    by (simp add: settle_def deliver_def)
  then have "channels_ok (settle r ch x p)"
    using ch(1) other unfolding channels_ok_def reply_settle pending_settle by (auto split: if_splits)
  moreover have "awaited (settle r ch x p) c" if "awaited p c" "c \<noteq> ch" for c
    using that get unfolding awaited_def pending_settle by (metis hm_get_remove option.inject prod.inject)
  then have "held_ok (settle r ch x p, held)"
    using ch(3) len by (auto simp: held_ok_def reply_settle)
  ultimately show "pipeline_ok n (settle r ch x p, held)"
    using counters_settle [OF ch(2) get] by (simp add: pipeline_ok_def)
  show "replies_kept p (settle r ch x p)"
    using len by (auto simp: replies_kept_def reply_settle)
qed

lemma reply_cancel:
  "reply_of (fold (\<lambda>(r, i, ch). deliver ch x) xs p) c =
     (if c < length (pl_replies p) \<and> c \<in> (\<lambda>(r, i, ch). ch) ` set xs then Some x else reply_of p c)"
proof -
  have "length (pl_replies (deliver ch x p)) = length (pl_replies p)"
    "reply_of (deliver ch x p) c = (if c = ch \<and> c < length (pl_replies p) then Some x else reply_of p c)"
    for ch p by (auto simp: deliver_def reply_of_def)
  then show ?thesis by (induction xs arbitrary: p) auto
qed

lemma deliver_fields:
  "pl_max_in_flight (fold (\<lambda>(r, i, ch). deliver ch x) xs p) = pl_max_in_flight p"
  "pl_request_id (fold (\<lambda>(r, i, ch). deliver ch x) xs p) = pl_request_id p"
  by (induction xs arbitrary: p) (auto simp: deliver_def)

lemma cancel_fields:
  "pl_pending (cancel_all p) = []" "pl_in_flight (cancel_all p) = 0"
  "pl_max_in_flight (cancel_all p) = pl_max_in_flight p" "pl_request_id (cancel_all p) = pl_request_id p"
  by (simp_all add: cancel_all_def deliver_fields)

lemma pipeline_ok_cancel:
  assumes ok: "pipeline_ok n (p, held)"
  shows "pipeline_ok n (cancel_all p, held)" and "replies_kept p (cancel_all p)"
proof -
  have ch: "channels_ok p" "counters_ok n p" "held_ok (p, held)" using ok by (simp_all add: pipeline_ok_def)
  have "(\<exists>r i. (r, i, c) \<in> set (pl_pending p)) \<longleftrightarrow> awaited p c" for c
    using ch(2) by (simp add: awaited_def hm_get_in_set counters_ok_def)
  then have waits: "c \<in> (\<lambda>(r, i, ch). ch) ` set (pl_pending p) \<longleftrightarrow> awaited p c" for c by force
  have len: "c < length (pl_replies p) \<and> reply_of p c = None" if "awaited p c" for c
    using that ch(1) by (auto simp: awaited_def channels_ok_def)
  have reply: "reply_of (cancel_all p) c = (if awaited p c then Some (Inl ConnectionClosed) else reply_of p c)" for c
    using waits [of c] len [of c] by (simp add: cancel_all_def reply_cancel)
  have "counters_ok n (cancel_all p)" "channels_ok (cancel_all p)" "held_ok (cancel_all p, held)"
    using ch by (auto simp: counters_ok_def channels_ok_def held_ok_def reply cancel_fields)
  then show "pipeline_ok n (cancel_all p, held)" by (simp add: pipeline_ok_def)
  show "replies_kept p (cancel_all p)" using len by (auto simp: replies_kept_def reply)
qed

text \<open>A send enters one request under a fresh id and channel, or changes nothing but the connection,
  the next id and the unused channels.\<close>

lemma pipeline_send_cases:
  obtains (kept) c e where "pipeline_send data p = (p\<lparr>pl_connection := c\<rparr>, Inl e)"
  | (undone) c i e where "pipeline_send data p =
      (p\<lparr>pl_connection := c, pl_request_id := pl_request_id p + 1, pl_replies := pl_replies p @ [None],
         pl_pending := hm_remove (pl_request_id p)
           (hm_insert (pl_request_id p) (i, length (pl_replies p)) (pl_pending p))\<rparr>, Inl e)"
  | (entered) c i where "can_send_more p" "pipeline_send data p =
      (p\<lparr>pl_connection := c, pl_request_id := pl_request_id p + 1, pl_replies := pl_replies p @ [None],
         pl_pending := hm_insert (pl_request_id p) (i, length (pl_replies p)) (pl_pending p),
         pl_in_flight := pl_in_flight p + 1\<rparr>, Inr (length (pl_replies p)))"
proof (cases "can_send_more p")
  case False
  then have "pipeline_send data p = (p\<lparr>pl_connection := pl_connection p\<rparr>, Inl SendBufferFull)"
    by (simp add: pipeline_send_def)
  then show ?thesis by (rule kept)
next
  case True
  obtain c y where o: "open_stream (pl_connection p) = (c, y)" by (cases "open_stream (pl_connection p)")
  show ?thesis
  proof (cases y)
    case (Inl e)
    with True o kept show ?thesis by (simp add: pipeline_send_def)
  next
    case (Inr i)
    obtain c' z where m: "mux_send c i data = (c', z)" by (cases "mux_send c i data")
    show ?thesis
    proof (cases z)
      case (Inl e)
      show ?thesis
        by (rule undone [where c = "rollback_stream_open c' i" and i = i and e = e])
          (simp add: pipeline_send_def True o m Inr Inl Let_def)
    next
      case (Inr u)
      then show ?thesis using True o m \<open>y = Inr i\<close>
        by (intro entered [where c = c' and i = i]) (simp_all add: pipeline_send_def Let_def)
    qed
  qed
qed

lemma reply_append:
  "reply_of (p\<lparr>pl_connection := c, pl_request_id := q, pl_replies := pl_replies p @ [None],
     pl_pending := m\<rparr>) ch = reply_of p ch"
  "reply_of (p\<lparr>pl_connection := c, pl_request_id := q, pl_replies := pl_replies p @ [None],
     pl_pending := m, pl_in_flight := w\<rparr>) ch = reply_of p ch"
  "reply_of (p\<lparr>pl_connection := c, pl_request_id := q, pl_replies := pl_replies p @ [None]\<rparr>) ch =
     reply_of p ch"
  by (simp_all add: reply_of_def nth_append)

lemma pipeline_ok_send:
  assumes ok: "pipeline_ok n (p, held)" and n: "n < 2 ^ 64 - 2"
  shows "pipeline_ok (Suc n) (pipeline_step (PlSend data) (p, held))"
    and "replies_kept p (fst (pipeline_step (PlSend data) (p, held)))"
proof -
  have ch: "channels_ok p" "counters_ok n p" "held_ok (p, held)" using ok by (simp_all add: pipeline_ok_def)
  let ?r = "pl_request_id p"
  have fresh: "hm_get (pl_pending p) ?r = None"
    using ch(2) by (cases "hm_get (pl_pending p) ?r") (auto simp: counters_ok_def)
  have nxt: "unat (?r + 1) = unat ?r + 1" "unat ?r \<le> n + 1"
    using n ch(2) by (auto simp: counters_ok_def unat_word_ariths)
  show "pipeline_ok (Suc n) (pipeline_step (PlSend data) (p, held))"
  proof (cases data p rule: pipeline_send_cases)
    case (kept c e)
    have "counters_ok (Suc n) p" using ch(2) by (auto simp: counters_ok_def)
    with kept ch show ?thesis by (simp add: pipeline_ok_connection) (simp add: pipeline_ok_def)
  next
    case (undone c i e)
    let ?m = "hm_remove ?r (hm_insert ?r (i, length (pl_replies p)) (pl_pending p))"
    have get: "hm_get ?m r = hm_get (pl_pending p) r" for r using fresh by simp
    have wf: "hm_wf (pl_pending p)" using ch(2) by (simp add: counters_ok_def)
    have len: "hm_len ?m = hm_len (pl_pending p)"
      using wf fresh by (simp add: hm_len_remove hm_len_insert hm_contains_def)
    have "counters_ok (Suc n) (fst (pipeline_send data p))"
      using ch(2) wf len nxt get unfolding undone counters_ok_def by (auto simp: less_Suc_eq)
    moreover have "channels_ok (fst (pipeline_send data p))"
      using ch(1) get unfolding undone channels_ok_def by (simp add: reply_append) (meson less_SucI)
    moreover have "held_ok (fst (pipeline_send data p), held)"
      using ch(3) get unfolding undone held_ok_def awaited_def by (simp add: reply_append)
    ultimately show ?thesis by (simp add: undone pipeline_ok_def)
  next
    case (entered c i)
    let ?ch = "length (pl_replies p)" and ?m = "hm_insert ?r (i, length (pl_replies p)) (pl_pending p)"
    have wf: "hm_wf (pl_pending p)" using ch(2) by (simp add: counters_ok_def)
    have len: "hm_len ?m = Suc (hm_len (pl_pending p))"
      using fresh by (simp add: hm_len_insert hm_contains_def)
    have small: "hm_len (pl_pending p) < pl_max_in_flight p" "unat (pl_in_flight p) \<le> n"
      using entered(1) ch(2) by (simp_all add: can_send_more_def in_flight_count_def counters_ok_def)
    have "unat (pl_in_flight p + 1) = unat (pl_in_flight p) + 1"
      using small(2) n by (auto simp: unat_word_ariths)
    then have "counters_ok (Suc n) (fst (pipeline_send data p))"
      using ch(2) wf len nxt small unfolding entered(2) counters_ok_def by (auto simp: less_Suc_eq)
    moreover have channels: "channels_ok (fst (pipeline_send data p))"
      unfolding entered(2) channels_ok_def fst_conv
    proof (intro allI impI)
      fix r j c'
      assume get: "hm_get (pl_pending (p\<lparr>pl_connection := c, pl_request_id := ?r + 1,
        pl_replies := pl_replies p @ [None], pl_pending := ?m, pl_in_flight := pl_in_flight p + 1\<rparr>)) r
          = Some (j, c')"
      have old: "c'' < ?ch \<and> reply_of p c'' = None \<and> (\<forall>r2 j2. hm_get (pl_pending p) r2 = Some (j2, c'') \<longrightarrow> r2 = r1)"
        if "hm_get (pl_pending p) r1 = Some (j1, c'')" for r1 j1 c''
        using ch(1) that unfolding channels_ok_def by blast
      have none: "reply_of p ?ch = None" by (simp add: reply_of_def)
      show "c' < length (pl_replies (p\<lparr>pl_connection := c, pl_request_id := ?r + 1,
          pl_replies := pl_replies p @ [None], pl_pending := ?m, pl_in_flight := pl_in_flight p + 1\<rparr>)) \<and>
        reply_of (p\<lparr>pl_connection := c, pl_request_id := ?r + 1,
          pl_replies := pl_replies p @ [None], pl_pending := ?m, pl_in_flight := pl_in_flight p + 1\<rparr>) c' = None \<and>
        (\<forall>r' j. hm_get (pl_pending (p\<lparr>pl_connection := c, pl_request_id := ?r + 1,
          pl_replies := pl_replies p @ [None], pl_pending := ?m, pl_in_flight := pl_in_flight p + 1\<rparr>)) r'
            = Some (j, c') \<longrightarrow> r' = r)"
        using get none old less_irrefl [of ?ch] unfolding reply_append
        by (cases "r = ?r") (auto split: if_splits dest: old)
    qed
    moreover have "held_ok (fst (pipeline_send data p), ?ch # held)"
    proof -
      have "awaited (fst (pipeline_send data p)) c'" if "awaited p c'" for c'
        using that fresh unfolding awaited_def entered(2) by simp (metis option.distinct(1))
      moreover have "awaited (fst (pipeline_send data p)) ?ch" by (auto simp: awaited_def entered(2))
      moreover have "reply_of (fst (pipeline_send data p)) = reply_of p"
        by (simp add: fun_eq_iff entered(2) reply_append)
      ultimately show ?thesis using ch(3) by (auto simp: held_ok_def)
    qed
    ultimately show ?thesis by (simp add: entered(2) pipeline_ok_def)
  qed
  show "replies_kept p (fst (pipeline_step (PlSend data) (p, held)))"
    by (cases data p rule: pipeline_send_cases)
      (simp_all add: replies_kept_def reply_append)
qed

lemma pipeline_ok_step:
  assumes "pipeline_ok n ph" and "n < 2 ^ 64 - 2"
  shows "pipeline_ok (Suc n) (pipeline_step oper ph) \<and> replies_kept (fst ph) (fst (pipeline_step oper ph))"
proof -
  obtain p held where ph: "ph = (p, held)" by (cases ph)
  have more: "pipeline_ok (Suc n) q" if "pipeline_ok n q" for q
    using that by (auto simp: pipeline_ok_def counters_ok_def)
  have wf: "hm_wf (pl_pending p)" using assms(1) ph by (simp add: pipeline_ok_def counters_ok_def)
  show ?thesis
  proof (cases oper)
    case (PlSend data)
    with pipeline_ok_send assms ph show ?thesis by simp
  next
    case (PlResponse i data)
    show ?thesis
    proof (cases "find_pending i p")
      case (Some rc)
      obtain r ch where "rc = (r, ch)" by (cases rc)
      with Some have f: "find_pending i p = Some (r, ch)" by simp
      from pipeline_ok_settle [OF assms(1) [unfolded ph] find_pending_get [OF wf f], of "Inr data"] f
      show ?thesis
        by (simp add: PlResponse ph process_response_def Let_def split_beta pipeline_ok_connection more
            replies_kept_def)
    qed (use assms in \<open>simp add: PlResponse ph process_response_def more replies_kept_def\<close>)
  next
    case (PlError i e)
    show ?thesis
    proof (cases "find_pending i p")
      case (Some rc)
      obtain r ch where "rc = (r, ch)" by (cases rc)
      with Some have f: "find_pending i p = Some (r, ch)" by simp
      from pipeline_ok_settle [OF assms(1) [unfolded ph] find_pending_get [OF wf f], of "Inl e"] f
      show ?thesis by (simp add: PlError ph process_error_def more)
    qed (use assms in \<open>simp add: PlError ph process_error_def more replies_kept_def\<close>)
  next
    case PlCancelAll
    with pipeline_ok_cancel assms ph show ?thesis by (simp add: more)
  next
    case (PlConnection x)
    with assms ph show ?thesis by (simp add: pipeline_ok_connection more replies_kept_def)
  qed
qed

lemma pipeline_ok_run:
  "pipeline_ok n ph \<Longrightarrow> n + length ops < 2 ^ 64 - 1 \<Longrightarrow>
   pipeline_ok (n + length ops) (fold pipeline_step ops ph) \<and>
   replies_kept (fst ph) (fst (fold pipeline_step ops ph))"
proof (induction ops arbitrary: n ph)
  case Nil
  then show ?case by (simp add: replies_kept_def)
next
  case (Cons oper ops)
  have "pipeline_ok (Suc n) (pipeline_step oper ph) \<and> replies_kept (fst ph) (fst (pipeline_step oper ph))"
    using pipeline_ok_step [of n ph oper] Cons.prems by simp
  with Cons.IH [of "Suc n" "pipeline_step oper ph"] Cons.prems(2) show ?case
    by (auto simp: replies_kept_def)
qed

lemma pipeline_ok_new: "pipeline_ok 0 (pipeline_new c m, [])"
  by (simp add: pipeline_ok_def counters_ok_def channels_ok_def held_ok_def pipeline_new_def)

lemma pipeline_max_step: "pl_max_in_flight (fst (pipeline_step oper (p, held))) = pl_max_in_flight p"
proof (cases oper)
  case (PlSend data)
  then show ?thesis by (cases data p rule: pipeline_send_cases) simp_all
qed (auto simp: process_response_def process_error_def settle_def deliver_def cancel_fields Let_def
    split: option.split prod.split)

lemma pipeline_max_run: "pl_max_in_flight (fst (fold pipeline_step ops ph)) = pl_max_in_flight (fst ph)"
proof (induction ops arbitrary: ph)
  case (Cons oper ops)
  then show ?case using pipeline_max_step [of oper "fst ph" "snd ph"] by simp
qed simp


definition sample_requests :: "pipeline_op list" where
  "sample_requests = [PlSend [1], PlSend [2], PlSend [3], PlResponse 2 [9]]"


lemmas pipeline_samples = pipeline_send_def can_send_more_def in_flight_count_def pipeline_new_def
  mux_new_def mux_with_limits_def open_stream_def register_stream_def queue_frame_def hm_contains_def
  hm_insert_def hm_get_def hm_remove_def MAX_STREAMS_def DEFAULT_MAX_SEND_QUEUE_LEN_def Let_def mux_send_def
  queue_send_def put_stream_def stream_state_new_def process_response_def find_pending_def settle_def
  deliver_def close_stream_def reply_of_def cancel_all_def pending_requests_def hm_len_def
  mux_close_def rollback_stream_open_def remove_stream_def

text \<open>The sample is not idle: two requests are sent, the third is refused, one is answered.\<close>

lemma sample_requests_run:
  "let (p, held) = fold pipeline_step sample_requests (pipeline_new mux_new 2, [])
   in held = [1, 0] \<and> in_flight_count p = 1 \<and> reply_of p 1 = Some (Inr [9]) \<and> reply_of p 0 = None"
  by (simp add: sample_requests_def pipeline_samples word_le_nat_alt)

section \<open>Interference\<close>

text \<open>When the connection fails and its requests are cancelled while a send is in progress, the send's
  own undoing decrements the counter again: it wraps around, and the client never sends again.\<close>

lemma funpow_numeral_apply: "(f ^^ numeral k) x = (f ^^ pred_numeral k) (f x)"
  by (simp add: numeral_eq_Suc funpow_swap1)

lemma unat_all_ones: "unat (- 1 :: u64) = 2 ^ 64 - 1"
  by (simp add: unat_word_ariths(1) unsigned_minus_1_eq_mask mask_eq_exp_minus_1)

lemma cancel_during_send_blocks:
  "let run = (\<lambda>n p s. ((\<lambda>(p, s). sender_step p s) ^^ n) (p, s));
       (p, s) = run 5 (pipeline_new mux_new 8) (Sending [7]);
       p = (cancel_all p)\<lparr>pl_connection := mux_close (pl_connection p)\<rparr>;
       (q, s) = run 4 p s
   in s = Sent (Inl ConnectionClosed) \<and> pl_in_flight q = - 1 \<and> pending_requests q = 0 \<and>
      \<not> can_send_more q"
  by (simp add: pipeline_samples funpow_numeral_apply word_le_nat_alt unat_all_ones)

end
