(* ===== verification/Legacy_Adapter.thy ===== *)
theory Legacy_Adapter
  imports Mcp_Handlers
begin

text \<open>
  The older MCP adapter (\<open>McpAdapter\<close> in \<open>src/src/compat/adapter.rs\<close>): a tool cache, an optional
  negotiated manifest and three methods. Every refusal is answered and leaves a receipt. The library
  record, the reading of a request id and the replay guard are those of the complete adapter.
\<close>

section \<open>State\<close>

datatype adapter_error =
    LegacyParseError json_rpc_parse_error
  | LegacyUnknownTool "text"
  | LegacyDcpError dcp_error
  | LegacySerializationError "text"
  | LegacyInvalidRequest "text"
  | LegacyInvalidParams "text"
  | LegacyCapacityExceeded "text" nat

record 'w legacy_adapter =
  lg_tool_cache :: "(text, u16) hmap"
  lg_id_to_name :: "(u16, text) hmap"
  lg_max_request_size :: nat
  lg_negotiated :: "manifest option"
  lg_audit :: audit_log
  lg_replay :: request_replay_guard
  lg_world :: 'w

type_synonym ('a, 'w) legacy_answer = "(adapter_error + 'a) \<times> 'w legacy_adapter"

definition legacy_new :: "'w \<Rightarrow> 'w legacy_adapter" where
  "legacy_new w =
     \<lparr>lg_tool_cache = [], lg_id_to_name = [], lg_max_request_size = DEFAULT_MAX_JSONRPC_REQUEST_SIZE,
      lg_negotiated = None, lg_audit = audit_log_new, lg_replay = replay_guard_default, lg_world = w\<rparr>"

definition legacy_with_max_size :: "nat \<Rightarrow> 'w legacy_adapter \<Rightarrow> 'w legacy_adapter" where
  "legacy_with_max_size n a = a\<lparr>lg_max_request_size := n\<rparr>"

definition with_negotiated_capabilities :: "manifest \<Rightarrow> 'w legacy_adapter \<Rightarrow> 'w legacy_adapter" where
  "with_negotiated_capabilities m a = a\<lparr>lg_negotiated := Some m\<rparr>"

section \<open>Receipts\<close>

definition legacy_record :: "audit_event \<Rightarrow> 'w legacy_adapter \<Rightarrow> 'w legacy_adapter" where
  "legacy_record e a = a\<lparr>lg_audit := audit_record e (lg_audit a)\<rparr>"

definition with_legacy :: "audit_event \<Rightarrow> audit_event" where
  "with_legacy = with_field (ascii ''adapter'') (ascii ''legacy_mcp'')"

definition with_optional_id :: "request_id \<Rightarrow> audit_event \<Rightarrow> audit_event" where
  "with_optional_id i e = (case request_id_for_audit i of None \<Rightarrow> e | Some s \<Rightarrow> with_request_id s e)"

definition audit_request_rejection ::
  "u64 \<Rightarrow> audit_action \<Rightarrow> string \<Rightarrow> json_rpc_request \<Rightarrow> 'w legacy_adapter \<Rightarrow> 'w legacy_adapter" where
  "audit_request_rejection now action reason r =
     legacy_record (with_optional_id (rq_id r)
       (with_legacy (with_method (rq_method r) (audit_event_new now action (ascii reason)))))"

definition audit_capability_denial :: "u64 \<Rightarrow> json_rpc_request \<Rightarrow> 'w legacy_adapter \<Rightarrow> 'w legacy_adapter" where
  "audit_capability_denial now r =
     legacy_record (with_optional_id (rq_id r)
       (with_legacy (with_method (rq_method r)
         (audit_event_new now CapabilityDeniedAction (ascii ''capability_denied'')))))"

definition legacy_registration_failure ::
  "u64 \<Rightarrow> string \<Rightarrow> u16 \<Rightarrow> text \<Rightarrow> 'w legacy_adapter \<Rightarrow> 'w legacy_adapter" where
  "legacy_registration_failure now reason tool_id name =
     legacy_record
       (with_field (ascii ''tool_name'') name
         (with_field (ascii ''tool_id'') (decimal (unat tool_id))
           (with_field (ascii ''operation'') (ascii ''tool_registration'')
             (with_legacy (audit_event_new now ValidationRejected (ascii reason))))))"

section \<open>Answers\<close>

definition legacy_format :: "mcp_library \<Rightarrow> json_rpc_response \<Rightarrow> adapter_error + text" where
  "legacy_format lib response =
     map_err (\<lambda>e. LegacySerializationError (parse_error_display e)) (format_response (ml_serde lib) response)"

definition format_success_response :: "mcp_library \<Rightarrow> request_id \<Rightarrow> json \<Rightarrow> adapter_error + text" where
  "format_success_response lib i result = legacy_format lib (response_success i result)"

definition format_error_response :: "mcp_library \<Rightarrow> request_id \<Rightarrow> json_rpc_error \<Rightarrow> adapter_error + text" where
  "format_error_response lib i e = legacy_format lib (response_error i e)"

fun validation_error_details :: "adapter_error \<Rightarrow> string \<times> json_rpc_error" where
  "validation_error_details (LegacyParseError (InvalidJson m)) = (''parse_error'', parse_error)"
| "validation_error_details (LegacyParseError RequestTooLarge) = (''request_too_large'', invalid_request)"
| "validation_error_details (LegacyParseError RequestIdTooLarge) =
     (''request_id_too_large'', invalid_request)"
| "validation_error_details (LegacyParseError RequestIdSensitive) =
     (''request_id_sensitive'', invalid_request)"
| "validation_error_details (LegacyParseError BatchUnsupported) = (''batch_unsupported'', invalid_request)"
| "validation_error_details (LegacyInvalidParams m) = (''invalid_params'', invalid_params)"
| "validation_error_details (LegacyParseError e) = (''invalid_request'', invalid_request)"
| "validation_error_details (LegacyInvalidRequest m) = (''invalid_request'', invalid_request)"
| "validation_error_details e = (''request_failed'', internal_error)"

definition validation_error_response ::
  "mcp_library \<Rightarrow> u64 \<Rightarrow> json_rpc_request option \<Rightarrow> adapter_error \<Rightarrow> 'w legacy_adapter \<Rightarrow>
   (text, 'w) legacy_answer" where
  "validation_error_response lib now request e a =
     (let (reason, json_error) = validation_error_details e;
          event = with_legacy (audit_event_new now ValidationRejected (ascii reason));
          (event, response_id) =
            (case request of
               Some r \<Rightarrow>
                 (with_optional_id (rq_id r) (with_method (rq_method r) event),
                  case rq_id r of IdMissing \<Rightarrow> IdNull | i \<Rightarrow> i)
             | None \<Rightarrow> (event, IdNull))
      in (format_error_response lib response_id json_error, legacy_record event a))"

definition capability_denied_response ::
  "mcp_library \<Rightarrow> u64 \<Rightarrow> json_rpc_request \<Rightarrow> 'w legacy_adapter \<Rightarrow> (text, 'w) legacy_answer" where
  "capability_denied_response lib now r a =
     (format_error_response lib (rq_id r) (error_new (- 32001) (ascii ''Capability denied'')),
      audit_capability_denial now r a)"

definition replay_rejected_response ::
  "mcp_library \<Rightarrow> u64 \<Rightarrow> json_rpc_request \<Rightarrow> 'w legacy_adapter \<Rightarrow> (text, 'w) legacy_answer" where
  "replay_rejected_response lib now r a =
     (format_error_response lib (rq_id r) (error_new (- 32002) (ascii ''Request replay rejected'')),
      audit_request_rejection now ReplayRejected ''request_replay'' r a)"

definition security_error_response ::
  "mcp_library \<Rightarrow> u64 \<Rightarrow> json_rpc_request \<Rightarrow> security_error \<Rightarrow> 'w legacy_adapter \<Rightarrow>
   (text, 'w) legacy_answer" where
  "security_error_response lib now r e =
     (case e of
        SchemaValidationFailed \<Rightarrow>
          validation_error_response lib now (Some r)
            (LegacyInvalidParams (ascii ''schema validation failed''))
      | _ \<Rightarrow> capability_denied_response lib now r)"

text \<open>The guard each handler starts with.\<close>

definition require_request_method_response ::
  "mcp_library \<Rightarrow> u64 \<Rightarrow> json_rpc_request \<Rightarrow> string \<Rightarrow>
   ('w legacy_adapter \<Rightarrow> (text, 'w) legacy_answer) \<Rightarrow> 'w legacy_adapter \<Rightarrow> (text, 'w) legacy_answer" where
  "require_request_method_response lib now r expected handler a =
     (if rq_method r = ascii expected \<and> \<not> is_notification r then handler a
      else validation_error_response lib now (Some r)
             (LegacyInvalidRequest (ascii expected @ ascii '' requires a JSON-RPC request id'')) a)"

section \<open>Registration\<close>

definition legacy_register_tool ::
  "u64 \<Rightarrow> text \<Rightarrow> u16 \<Rightarrow> 'w legacy_adapter \<Rightarrow> (u16, 'w) legacy_answer" where
  "legacy_register_tool now name tool_id a =
     (if unat tool_id \<ge> MAX_TOOLS then
        (Inl (LegacyCapacityExceeded (ascii ''tool'') MAX_TOOLS),
         legacy_registration_failure now ''tool_registration_capacity_exceeded'' tool_id name a)
      else if hm_contains (lg_tool_cache a) name then
        (Inl (LegacyInvalidRequest (ascii ''duplicate tool name'')),
         legacy_registration_failure now ''tool_registration_duplicate_name'' tool_id name a)
      else if hm_contains (lg_id_to_name a) tool_id then
        (Inl (LegacyInvalidRequest (ascii ''duplicate tool id'')),
         legacy_registration_failure now ''tool_registration_duplicate_id'' tool_id name a)
      else
        (Inr tool_id,
         a\<lparr>lg_tool_cache := hm_insert name tool_id (lg_tool_cache a),
           lg_id_to_name := hm_insert tool_id name (lg_id_to_name a)\<rparr>))"

definition resolve_tool_name :: "text \<Rightarrow> 'w legacy_adapter \<Rightarrow> u16 option" where
  "resolve_tool_name name a = hm_get (lg_tool_cache a) name"

definition resolve_tool_id :: "u16 \<Rightarrow> 'w legacy_adapter \<Rightarrow> text option" where
  "resolve_tool_id i a = hm_get (lg_id_to_name a) i"

definition legacy_tool_count :: "'w legacy_adapter \<Rightarrow> nat" where
  "legacy_tool_count a = hm_len (lg_tool_cache a)"

section \<open>Translation\<close>

definition legacy_parse_request ::
  "mcp_library \<Rightarrow> text \<Rightarrow> 'w legacy_adapter \<Rightarrow> adapter_error + json_rpc_request" where
  "legacy_parse_request lib json a =
     map_err LegacyParseError (parse_request_with_limit (ml_serde lib) json (lg_max_request_size a))"

definition translate_params :: "mcp_library \<Rightarrow> json option \<Rightarrow> bytes" where
  "translate_params lib params =
     (case params of Some v \<Rightarrow> utf8_bytes (print_or_default lib v) | None \<Rightarrow> [])"

definition translate_legacy_tool_arguments :: "json option \<Rightarrow> adapter_error + bytes" where
  "translate_legacy_tool_arguments arguments =
     (case arguments of
        None \<Rightarrow> Inr []
      | Some (JObject m) \<Rightarrow>
          if m = [] then Inr []
          else Inl (LegacyInvalidParams (ascii ''legacy tools/call arguments must be empty or omitted''))
      | Some _ \<Rightarrow> Inl (LegacyInvalidParams (ascii ''tools/call arguments must be an object'')))"

definition legacy_params_object :: "json \<Rightarrow> adapter_error + json_map" where
  "legacy_params_object params =
     bind_result
       (ok_or (LegacyInvalidParams (ascii ''tools/call params must be an object'')) (as_object params))
       (\<lambda>p.
         if list_ex (\<lambda>(key, v). key \<noteq> ascii ''name'' \<and> key \<noteq> ascii ''arguments'' \<and> key \<noteq> ascii ''_meta'') p
         then Inl (LegacyInvalidParams (ascii ''tools/call params contain unsupported fields''))
         else if \<not> pred_option (\<lambda>meta. as_object meta \<noteq> None) (jm_get p (ascii ''_meta''))
         then Inl (LegacyInvalidParams (ascii ''tools/call _meta must be an object''))
         else Inr p)"

fun translate_result :: "mcp_library \<Rightarrow> tool_result \<Rightarrow> json" where
  "translate_result lib (ToolSuccess data) =
     (case ml_from_slice lib data of Some v \<Rightarrow> v | None \<Rightarrow> JString (ml_lossy lib data))"
| "translate_result lib ToolEmpty = JNull"
| "translate_result lib (ToolError e) =
     json_object [(ascii ''error'', json_object
       [(ascii ''code'', JNumber (number_from_i64 (ucast (dcp_error_code e)))),
        (ascii ''message'', JString (dcp_error_display e))])]"

section \<open>Methods\<close>

definition legacy_initialize ::
  "mcp_library \<Rightarrow> u64 \<Rightarrow> json_rpc_request \<Rightarrow> 'w legacy_adapter \<Rightarrow> (text, 'w) legacy_answer" where
  "legacy_initialize lib now r =
     require_request_method_response lib now r ''initialize'' (\<lambda>a.
       let capabilities =
             (if lg_tool_cache a \<noteq> []
              then [(ascii ''tools'', json_object [(ascii ''listChanged'', JBool False)])] else [])
       in (format_success_response lib (rq_id r)
             (json_object
                [(ascii ''protocolVersion'', JString (ascii ''2024-11-05'')),
                 (ascii ''capabilities'', json_object capabilities),
                 (ascii ''serverInfo'', json_object
                    [(ascii ''name'', JString (ascii ''dcp-server'')),
                     (ascii ''version'', JString (ascii ''0.1.0''))])]), a))"

definition legacy_tool_listing :: "text \<Rightarrow> json" where
  "legacy_tool_listing name =
     json_object
       [(ascii ''name'', JString name), (ascii ''description'', JString (ascii ''Tool: '' @ name)),
        (ascii ''inputSchema'', json_object
           [(ascii ''type'', JString (ascii ''object'')), (ascii ''properties'', JObject [])])]"

definition legacy_tools_list ::
  "mcp_library \<Rightarrow> u64 \<Rightarrow> json_rpc_request \<Rightarrow> 'w legacy_adapter \<Rightarrow> (text, 'w) legacy_answer" where
  "legacy_tools_list lib now r =
     require_request_method_response lib now r ''tools/list'' (\<lambda>a.
       case lg_negotiated a of
         None \<Rightarrow> capability_denied_response lib now r a
       | Some capabilities \<Rightarrow>
           if tool_count capabilities > 0 then
             (format_success_response lib (rq_id r)
                (json_object [(ascii ''tools'', JArray (map (\<lambda>(name, i). legacy_tool_listing name)
                   (filter (\<lambda>(name, i). has_tool capabilities i) (lg_tool_cache a))))]), a)
           else capability_denied_response lib now r a)"

definition legacy_record_call_id :: "json_rpc_request \<Rightarrow> 'w legacy_adapter \<Rightarrow> bool \<times> 'w legacy_adapter" where
  "legacy_record_call_id r a =
     (case request_id_for_audit (rq_id r) of
        None \<Rightarrow> (True, a)
      | Some i \<Rightarrow>
          let (fresh, g) = check_and_record (replay_key (ascii ''tools/call'') i) (lg_replay a)
          in (fresh, a\<lparr>lg_replay := g\<rparr>))"

text \<open>The checks of a call up to the recording of its id: refused as invalid, denied, or a tool with its
  manifest and argument bytes.\<close>

datatype call_check = CallInvalid adapter_error | CallDenied | CallReady u16 manifest bytes

definition legacy_call :: "json_rpc_request \<Rightarrow> 'w legacy_adapter \<Rightarrow> call_check" where
  "legacy_call r a =
     (case rq_params r of
        None \<Rightarrow> CallInvalid (LegacyParseError InvalidStructure)
      | Some params_value \<Rightarrow>
          (case legacy_params_object params_value of
             Inl e \<Rightarrow> CallInvalid e
           | Inr params \<Rightarrow>
               (case Option.bind (jm_get params (ascii ''name'')) as_str of
                  None \<Rightarrow> CallInvalid (LegacyParseError InvalidStructure)
                | Some tool_name \<Rightarrow>
                    (case resolve_tool_name tool_name a of
                       None \<Rightarrow> CallDenied
                     | Some tool_id \<Rightarrow>
                         (case lg_negotiated a of
                            None \<Rightarrow> CallDenied
                          | Some capabilities \<Rightarrow>
                              (case translate_legacy_tool_arguments (jm_get params (ascii ''arguments'')) of
                                 Inl e \<Rightarrow> CallInvalid e
                               | Inr args_bytes \<Rightarrow> CallReady tool_id capabilities args_bytes))))))"

definition legacy_run ::
  "mcp_library \<Rightarrow> 'w router \<Rightarrow> u64 \<Rightarrow> json_rpc_request \<Rightarrow> u16 \<Rightarrow> manifest \<Rightarrow> bytes \<Rightarrow>
   'w legacy_adapter \<Rightarrow> (text, 'w) legacy_answer" where
  "legacy_run lib ro now r tool_id capabilities args_bytes a =
     (let (w, result) = execute_authorized ro capabilities tool_id
            \<lparr>sa_data = args_bytes, sa_layout = 0\<rparr> (lg_world a);
          a = a\<lparr>lg_world := w\<rparr>
      in case result of
           Inl e \<Rightarrow> security_error_response lib now r e a
         | Inr res \<Rightarrow>
             (format_success_response lib (rq_id r)
                (json_object [(ascii ''content'',
                   JArray [text_content (print_or_default lib (translate_result lib res))])]), a))"

definition legacy_tools_call ::
  "mcp_library \<Rightarrow> 'w router \<Rightarrow> u64 \<Rightarrow> json_rpc_request \<Rightarrow> 'w legacy_adapter \<Rightarrow>
   (text, 'w) legacy_answer" where
  "legacy_tools_call lib ro now r =
     require_request_method_response lib now r ''tools/call'' (\<lambda>a.
       case legacy_call r a of
         CallInvalid e \<Rightarrow> validation_error_response lib now (Some r) e a
       | CallDenied \<Rightarrow> capability_denied_response lib now r a
       | CallReady tool_id capabilities args_bytes \<Rightarrow>
           let (fresh, a') = legacy_record_call_id r a
           in if \<not> fresh then replay_rejected_response lib now r a'
              else legacy_run lib ro now r tool_id capabilities args_bytes a')"

section \<open>Dispatch\<close>

text \<open>The handlers' own errors of two kinds are answered too.\<close>

definition answer_late ::
  "mcp_library \<Rightarrow> u64 \<Rightarrow> json_rpc_request \<Rightarrow> (text, 'w) legacy_answer \<Rightarrow> (text, 'w) legacy_answer" where
  "answer_late lib now r response =
     (case response of
        (Inl (LegacyParseError e), a) \<Rightarrow>
          validation_error_response lib now (Some r) (LegacyParseError e) a
      | (Inl (LegacyInvalidRequest m), a) \<Rightarrow>
          validation_error_response lib now (Some r) (LegacyInvalidRequest m) a
      | _ \<Rightarrow> response)"

definition legacy_handle_request ::
  "mcp_library \<Rightarrow> 'w router \<Rightarrow> u64 \<Rightarrow> text \<Rightarrow> 'w legacy_adapter \<Rightarrow> (text, 'w) legacy_answer" where
  "legacy_handle_request lib ro now json a =
     (case legacy_parse_request lib json a of
        Inl e \<Rightarrow> validation_error_response lib now None e a
      | Inr r \<Rightarrow>
          if is_notification r then
            (format_error_response lib IdNull invalid_request,
             audit_request_rejection now RequestRejected ''notification_not_allowed'' r a)
          else
            answer_late lib now r
              (if rq_method r = ascii ''initialize'' then legacy_initialize lib now r a
               else if rq_method r = ascii ''tools/list'' then legacy_tools_list lib now r a
               else if rq_method r = ascii ''tools/call'' then legacy_tools_call lib ro now r a
               else (format_error_response lib (rq_id r) method_not_found,
                     audit_request_rejection now RequestRejected ''method_not_found'' r a)))"

section \<open>Tools run only for admitted calls\<close>

definition no_args :: shared_args where
  "no_args = \<lparr>sa_data = [], sa_layout = 0\<rparr>"

text \<open>A call that reaches the replay guard: its key, tool and manifest; then the handler it may run.\<close>

definition legacy_checked ::
  "mcp_library \<Rightarrow> text \<Rightarrow> 'w legacy_adapter \<Rightarrow> (text \<times> u16 \<times> manifest) option" where
  "legacy_checked lib t a =
     (case legacy_parse_request lib t a of
        Inl e \<Rightarrow> None
      | Inr r \<Rightarrow>
          if rq_method r = ascii ''tools/call'' \<and> rq_id r \<noteq> IdMissing
          then (case legacy_call r a of
                  CallReady i m b \<Rightarrow> Some (call_key (rq_id r), i, m)
                | _ \<Rightarrow> None)
          else None)"

definition legacy_made ::
  "mcp_library \<Rightarrow> 'w router \<Rightarrow> u64 \<times> text \<Rightarrow> 'w legacy_adapter \<Rightarrow> (text \<times> 'w tool_handler option) option" where
  "legacy_made lib ro m a =
     map_option (\<lambda>(key, i, capabilities). (key, tool_allowed ro capabilities i no_args))
       (legacy_checked lib (snd m) a)"

definition legacy_step :: "mcp_library \<Rightarrow> 'w router \<Rightarrow> u64 \<times> text \<Rightarrow> 'w legacy_adapter \<Rightarrow> 'w legacy_adapter" where
  "legacy_step lib ro m a = snd (legacy_handle_request lib ro (fst m) (snd m) a)"

fun run_bare_call :: "text \<times> 'w tool_handler option \<Rightarrow> 'w \<Rightarrow> 'w" where
  "run_bare_call (key, None) w = w"
| "run_bare_call (key, Some h) w = fst (th_execute h no_args w)"

definition legacy_execution :: "'w legacy_adapter \<Rightarrow> 'w \<times> request_replay_guard" where
  "legacy_execution a = (lg_world a, lg_replay a)"

lemma legacy_execution_record [simp]: "legacy_execution (legacy_record e a) = legacy_execution a"
  by (simp add: legacy_execution_def legacy_record_def)

lemma legacy_execution_answers [simp]:
  "legacy_execution (snd (validation_error_response lib now q e a)) = legacy_execution a"
  "legacy_execution (snd (capability_denied_response lib now r a)) = legacy_execution a"
  "legacy_execution (snd (replay_rejected_response lib now r a)) = legacy_execution a"
  "legacy_execution (snd (security_error_response lib now r d a)) = legacy_execution a"
  "legacy_execution (snd (answer_late lib now r x)) = legacy_execution (snd x)"
  "legacy_execution (audit_request_rejection now act why r a) = legacy_execution a"
proof -
  show v: "legacy_execution (snd (validation_error_response lib now q e a)) = legacy_execution a" for q e a
    by (cases q) (simp_all add: validation_error_response_def split_beta Let_def)
  show c: "legacy_execution (snd (capability_denied_response lib now r a)) = legacy_execution a"
    by (simp add: capability_denied_response_def audit_capability_denial_def)
  show "legacy_execution (snd (replay_rejected_response lib now r a)) = legacy_execution a"
    by (simp add: replay_rejected_response_def audit_request_rejection_def)
  show "legacy_execution (snd (security_error_response lib now r d a)) = legacy_execution a"
    by (simp add: security_error_response_def v c split: security_error.split)
  show "legacy_execution (snd (answer_late lib now r x)) = legacy_execution (snd x)"
    by (cases x) (simp add: answer_late_def v split: sum.split adapter_error.split)
  show "legacy_execution (audit_request_rejection now act why r a) = legacy_execution a"
    by (simp add: audit_request_rejection_def)
qed

lemma legacy_call_no_bytes: "legacy_call r a = CallReady i m b \<Longrightarrow> b = []"
  by (auto simp: legacy_call_def translate_legacy_tool_arguments_def
      split: option.splits sum.splits json.splits if_splits)

lemma legacy_record_id:
  assumes "rq_id r \<noteq> IdMissing"
  shows "legacy_record_call_id r a =
    (call_key (rq_id r) \<notin> rg_seen (lg_replay a),
     a\<lparr>lg_replay := snd (check_and_record (call_key (rq_id r)) (lg_replay a))\<rparr>)"
proof -
  obtain s where "request_id_for_audit (rq_id r) = Some s"
    using assms by (cases "rq_id r") (simp_all add: request_id_for_audit_def)
  moreover have "fst (check_and_record k g) \<longleftrightarrow> k \<notin> rg_seen g" for k g
    using fresh_key_accepted by (auto simp: check_and_record_def)
  ultimately show ?thesis
    by (simp add: legacy_record_call_id_def call_key_def split_beta)
qed

lemma legacy_execution_run:
  "legacy_execution (snd (legacy_run lib ro now r i m [] a)) =
     (run_bare_call (key, tool_allowed ro m i no_args) (lg_world a), lg_replay a)"
proof -
  have "legacy_execution (a\<lparr>lg_world := w\<rparr>) = (w, lg_replay a)" for w
    by (simp add: legacy_execution_def)
  then show ?thesis
    by (auto simp: legacy_run_def no_args_def [symmetric] execute_authorized_def tool_allowed_eq
        run_handler_def Let_def split: prod.split sum.split)
qed

lemma legacy_execution_step:
  "legacy_execution (legacy_step lib ro m a) =
     (case legacy_made lib ro m a of
        None \<Rightarrow> legacy_execution a
      | Some kc \<Rightarrow>
          if fst kc \<in> rg_seen (lg_replay a) then legacy_execution a
          else (run_bare_call kc (lg_world a), snd (check_and_record (fst kc) (lg_replay a))))"
proof (cases "legacy_parse_request lib (snd m) a")
  case (Inl e)
  then show ?thesis
    by (simp add: legacy_step_def legacy_handle_request_def legacy_made_def legacy_checked_def)
next
  case (Inr r)
  note simps = legacy_step_def legacy_handle_request_def legacy_made_def legacy_checked_def Inr
    is_notification_def require_request_method_response_def
  show ?thesis
  proof (cases "rq_method r = ascii ''tools/call'' \<and> rq_id r \<noteq> IdMissing")
    case False
    then show ?thesis
      by (auto simp: simps legacy_initialize_def legacy_tools_list_def Let_def split: option.split)
  next
    case True
    have seen: "legacy_execution (a\<lparr>lg_replay := snd (check_and_record k (lg_replay a))\<rparr>) = legacy_execution a"
      if "k \<in> rg_seen (lg_replay a)" for k
      using that by (simp add: check_and_record_def)
    show ?thesis
    proof (cases "legacy_call r a")
      case (CallReady i capabilities b)
      with legacy_call_no_bytes have "legacy_call r a = CallReady i capabilities []" by metis
      with True show ?thesis
        by (auto simp: simps legacy_tools_call_def legacy_record_id seen
            legacy_execution_run [where key = "call_key (rq_id r)"])
    qed (use True in \<open>simp_all add: simps legacy_tools_call_def\<close>)
  qed
qed

interpretation legacy: replay_guarded "legacy_step lib ro" lg_replay "legacy_made lib ro" lg_world run_bare_call
  for lib :: mcp_library and ro :: "'w router"
proof
  fix m and s :: "'w legacy_adapter"
  show "(lg_world (legacy_step lib ro m s), lg_replay (legacy_step lib ro m s)) =
    (case legacy_made lib ro m s of
       None \<Rightarrow> (lg_world s, lg_replay s)
     | Some kc \<Rightarrow>
         if fst kc \<in> rg_seen (lg_replay s) then (lg_world s, lg_replay s)
         else (run_bare_call kc (lg_world s), snd (check_and_record (fst kc) (lg_replay s))))"
    using legacy_execution_step [of lib ro m s] unfolding legacy_execution_def .
qed

lemma ready_iff:
  "(case x of None \<Rightarrow> CallInvalid e | Some y \<Rightarrow> f y) = CallReady i m b \<longleftrightarrow> (\<exists>y. x = Some y \<and> f y = CallReady i m b)"
  "(case x of None \<Rightarrow> CallDenied | Some y \<Rightarrow> f y) = CallReady i m b \<longleftrightarrow> (\<exists>y. x = Some y \<and> f y = CallReady i m b)"
  "(case z of Inl e \<Rightarrow> CallInvalid e | Inr y \<Rightarrow> f y) = CallReady i m b \<longleftrightarrow> (\<exists>y. z = Inr y \<and> f y = CallReady i m b)"
  by (auto split: option.split sum.split)

lemma named_iff: "Option.bind x as_str = Some s \<longleftrightarrow> x = Some (JString s)"
  by (cases x) (auto simp: as_str_def split: json.split)

text \<open>C8: Tool execution gate of the older adapter. Over any session the world is the result of running
  the recorded calls in order, without arguments; among any 1024 of them in a row no key repeats; and a
  handler runs for a message exactly when it parses to a \<open>tools/call\<close> with an id that is not in the
  replay window, its arguments are omitted or empty, and the named tool is registered, granted by the
  negotiated manifest, present in the router and accepts the empty argument record.\<close>

theorem legacy_runs_admitted_calls:
  "lg_world (fold (legacy_step lib ro) ms (legacy_new w\<lparr>lg_tool_cache := cache, lg_negotiated := m\<rparr>)) =
     fold run_bare_call (recorded_by (legacy_step lib ro) lg_replay (legacy_made lib ro) ms
       (legacy_new w\<lparr>lg_tool_cache := cache, lg_negotiated := m\<rparr>)) w \<and>
   distinct (last_n DEFAULT_REQUEST_REPLAY_WINDOW (map fst (recorded_by (legacy_step lib ro) lg_replay
     (legacy_made lib ro) ms (legacy_new w\<lparr>lg_tool_cache := cache, lg_negotiated := m\<rparr>)))) \<and>
   (legacy_made lib ro (now, t) a = Some (key, Some h) \<longleftrightarrow>
     (\<exists>r v params tool_name i capabilities.
        legacy_parse_request lib t a = Inr r \<and> rq_method r = ascii ''tools/call'' \<and>
        rq_id r \<noteq> IdMissing \<and> key = call_key (rq_id r) \<and>
        rq_params r = Some v \<and> legacy_params_object v = Inr params \<and>
        jm_get params (ascii ''name'') = Some (JString tool_name) \<and>
        jm_get params (ascii ''arguments'') \<in> {None, Some (JObject [])} \<and>
        hm_get (lg_tool_cache a) tool_name = Some i \<and> lg_negotiated a = Some capabilities \<and>
        has_tool capabilities i \<and> router_dispatch ro i = Some h \<and>
        args_accepted (ts_input (th_schema h)) no_args))"
proof -
  have args: "translate_legacy_tool_arguments x = Inr b \<longleftrightarrow> b = [] \<and> x \<in> {None, Some (JObject [])}" for x b
    by (auto simp: translate_legacy_tool_arguments_def split: option.splits json.splits)
  have ready: "legacy_call r a = CallReady i capabilities b \<longleftrightarrow>
    (\<exists>v params tool_name. rq_params r = Some v \<and> legacy_params_object v = Inr params \<and>
        jm_get params (ascii ''name'') = Some (JString tool_name) \<and>
        jm_get params (ascii ''arguments'') \<in> {None, Some (JObject [])} \<and>
        hm_get (lg_tool_cache a) tool_name = Some i \<and> lg_negotiated a = Some capabilities \<and> b = [])" for r i capabilities b
    unfolding legacy_call_def ready_iff resolve_tool_name_def args named_iff by auto
  have allowed: "tool_allowed ro capabilities i no_args = Some h \<longleftrightarrow>
     has_tool capabilities i \<and> router_dispatch ro i = Some h \<and> args_accepted (ts_input (th_schema h)) no_args" for capabilities i
    by (auto simp: tool_allowed_def split: option.split)
  have checked: "legacy_checked lib t a = Some (k, i, capabilities) \<longleftrightarrow>
     (\<exists>r. legacy_parse_request lib t a = Inr r \<and> rq_method r = ascii ''tools/call'' \<and> rq_id r \<noteq> IdMissing \<and>
        k = call_key (rq_id r) \<and> legacy_call r a = CallReady i capabilities [])" for k i capabilities
    using legacy_call_no_bytes [of _ a i capabilities]
    by (auto simp: legacy_checked_def split: sum.split call_check.splits)
  have "legacy_made lib ro (now, t) a = Some (key, Some h) \<longleftrightarrow>
    (\<exists>i capabilities. legacy_checked lib t a = Some (key, i, capabilities) \<and>
       tool_allowed ro capabilities i no_args = Some h)"
    by (auto simp: legacy_made_def)
  moreover have "lg_replay (legacy_new w\<lparr>lg_tool_cache := cache, lg_negotiated := m\<rparr>) = replay_guard_default"
    "lg_world (legacy_new w\<lparr>lg_tool_cache := cache, lg_negotiated := m\<rparr>) = w"
    by (simp_all add: legacy_new_def)
  ultimately show ?thesis
    using legacy.session_runs_once [of "legacy_new w\<lparr>lg_tool_cache := cache, lg_negotiated := m\<rparr>" lib ro ms]
    unfolding checked ready allowed by (simp; blast)
qed

section \<open>Every message is answered, every refusal has a receipt\<close>

definition legacy_errors :: "json_rpc_error list" where
  "legacy_errors =
     [parse_error, invalid_request, method_not_found, invalid_params, internal_error,
      error_new (- 32001) (ascii ''Capability denied''),
      error_new (- 32002) (ascii ''Request replay rejected'')]"

text \<open>What a receipt of this adapter says of the request it refuses, if the message was one.\<close>

definition legacy_receipt :: "u64 \<Rightarrow> json_rpc_request option \<Rightarrow> audit_event \<Rightarrow> bool" where
  "legacy_receipt now q e \<longleftrightarrow>
     ae_timestamp e = now \<and>
     ae_fields e = [(sanitize_audit_field_key (ascii ''adapter''),
       sanitize_audit_field_value (ascii ''adapter'') (ascii ''legacy_mcp''))] \<and>
     ae_method e = map_option (\<lambda>r. sanitize_audit_text (rq_method r)) q \<and>
     ae_request_id e = map_option sanitize_audit_text (Option.bind q (\<lambda>r. request_id_for_audit (rq_id r)))"

definition legacy_printed :: "mcp_library \<Rightarrow> json_rpc_response \<Rightarrow> adapter_error + text" where
  "legacy_printed lib resp =
     (case sj_print (ml_serde lib) (response_ser (sanitize_response resp)) of
        Inr t \<Rightarrow> Inr t
      | Inl m \<Rightarrow> Inl (LegacySerializationError (ascii ''invalid JSON: '' @ m)))"

text \<open>One response with this id: a result and an unchanged log, or a fixed error and one more receipt.\<close>

definition legacy_outcome ::
  "mcp_library \<Rightarrow> u64 \<Rightarrow> json_rpc_request option \<Rightarrow> request_id \<Rightarrow> audit_log \<Rightarrow>
   (text, 'w) legacy_answer \<Rightarrow> bool" where
  "legacy_outcome lib now q i l x \<longleftrightarrow>
     (\<exists>resp. rp_jsonrpc resp = JSONRPC_VERSION \<and> rp_id resp = i \<and> fst x = legacy_printed lib resp \<and>
        (rp_error resp = None \<and> rp_result resp \<noteq> None \<and> lg_audit (snd x) = l \<or>
         rp_result resp = None \<and> rp_error resp \<in> Some ` set legacy_errors \<and>
         (\<exists>e. legacy_receipt now q e \<and> lg_audit (snd x) = audit_record e l)))"

lemma legacy_format_printed:
  assumes "rp_jsonrpc resp = JSONRPC_VERSION" and "rp_id resp \<noteq> IdMissing" and "id_ok (rp_id resp)"
    and "(rp_result resp \<noteq> None) \<noteq> (rp_error resp \<noteq> None)"
  shows "legacy_format lib resp = legacy_printed lib resp"
  using assms
  by (auto simp: legacy_format_def legacy_printed_def format_response_def validate_response_shape_def
      validate_request_id_ok [symmetric] split: sum.split)

lemma success_outcome:
  assumes "i \<noteq> IdMissing" and "id_ok i" and "lg_audit a = l"
  shows "legacy_outcome lib now q i l (format_success_response lib i v, a)"
  using assms legacy_format_printed [of "response_success i v" lib]
  by (auto simp: legacy_outcome_def format_success_response_def response_success_def
      intro!: exI [of _ "response_success i v"])

lemma refusal_outcome:
  assumes "i \<noteq> IdMissing" and "id_ok i" and "err \<in> set legacy_errors" and "legacy_receipt now q e"
    and "lg_audit a = l"
  shows "legacy_outcome lib now q i l (format_error_response lib i err, legacy_record e a)"
proof -
  have "format_error_response lib i err = legacy_printed lib (response_error i err)"
    using assms legacy_format_printed [of "response_error i err" lib]
    by (simp add: format_error_response_def response_error_def)
  moreover have "lg_audit (legacy_record e a) = audit_record e l"
    using assms(5) by (simp add: legacy_record_def)
  ultimately show ?thesis
    unfolding legacy_outcome_def using assms(3,4)
    by (intro exI [of _ "response_error i err"]) (auto simp: response_error_def)
qed

lemma receipt_of_request:
  "legacy_receipt now (Some r) (with_optional_id (rq_id r)
     (with_legacy (with_method (rq_method r) (audit_event_new now act why))))"
  "legacy_receipt now (Some r) (with_optional_id (rq_id r)
     (with_method (rq_method r) (with_legacy (audit_event_new now act why))))"
  "legacy_receipt now None (with_legacy (audit_event_new now act why))"
  by (auto simp: legacy_receipt_def with_optional_id_def with_legacy_def with_method_def with_field_def
      audit_event_new_def with_request_id_def hm_insert_def hm_remove_def split: option.split)

lemma details_listed: "snd (validation_error_details e) \<in> set legacy_errors"
  by (cases e rule: validation_error_details.cases) (simp_all add: legacy_errors_def)

lemma errors_listed:
  "invalid_request \<in> set legacy_errors" "method_not_found \<in> set legacy_errors"
  "error_new (- 32001) (ascii ''Capability denied'') \<in> set legacy_errors"
  "error_new (- 32002) (ascii ''Request replay rejected'') \<in> set legacy_errors"
  by (simp_all add: legacy_errors_def)

lemma refusals:
  assumes "rq_id r \<noteq> IdMissing" and "id_ok (rq_id r)" and "lg_audit a = l"
  shows "legacy_outcome lib now (Some r) (rq_id r) l (validation_error_response lib now (Some r) e a)"
    and "legacy_outcome lib now (Some r) (rq_id r) l (capability_denied_response lib now r a)"
    and "legacy_outcome lib now (Some r) (rq_id r) l (replay_rejected_response lib now r a)"
    and "legacy_outcome lib now (Some r) (rq_id r) l (security_error_response lib now r d a)"
    and "legacy_outcome lib now (Some r) (rq_id r) l
      (format_error_response lib (rq_id r) method_not_found, audit_request_rejection now act why r a)"
proof -
  have own: "(case rq_id r of IdMissing \<Rightarrow> IdNull | i \<Rightarrow> i) = rq_id r"
    using assms(1) by (cases "rq_id r") simp_all
  note refuse = refusal_outcome [OF assms(1,2) _ _ assms(3)]
  show v: "legacy_outcome lib now (Some r) (rq_id r) l (validation_error_response lib now (Some r) e a)" for e
    unfolding validation_error_response_def
    by (simp add: split_beta Let_def own refuse details_listed receipt_of_request)
  show c: "legacy_outcome lib now (Some r) (rq_id r) l (capability_denied_response lib now r a)"
    by (simp add: capability_denied_response_def audit_capability_denial_def refuse errors_listed
        receipt_of_request)
  show "legacy_outcome lib now (Some r) (rq_id r) l (replay_rejected_response lib now r a)"
    by (simp add: replay_rejected_response_def audit_request_rejection_def refuse errors_listed
        receipt_of_request)
  show "legacy_outcome lib now (Some r) (rq_id r) l (security_error_response lib now r d a)"
    by (simp add: security_error_response_def v c split: security_error.split)
  show "legacy_outcome lib now (Some r) (rq_id r) l
      (format_error_response lib (rq_id r) method_not_found, audit_request_rejection now act why r a)"
    by (simp add: audit_request_rejection_def refuse errors_listed receipt_of_request)
qed

lemma guarded_outcome:
  assumes "rq_id r \<noteq> IdMissing" and "id_ok (rq_id r)"
    and "legacy_outcome lib now (Some r) (rq_id r) (lg_audit a) (h a)"
  shows "legacy_outcome lib now (Some r) (rq_id r) (lg_audit a)
    (require_request_method_response lib now r m h a)"
  using assms(3) by (simp add: require_request_method_response_def refusals(1) [OF assms(1,2) HOL.refl])

lemma call_outcome:
  assumes "rq_id r \<noteq> IdMissing" and "id_ok (rq_id r)"
  shows "legacy_outcome lib now (Some r) (rq_id r) (lg_audit a) (legacy_tools_call lib ro now r a)"
proof -
  have run: "legacy_outcome lib now (Some r) (rq_id r) (lg_audit b) (legacy_run lib ro now r i m args b)" for i m args b
    by (simp add: legacy_run_def split_beta Let_def refusals(4) [OF assms] success_outcome [OF assms]
        split: sum.split)
  have kept: "lg_audit (snd (legacy_record_call_id r a)) = lg_audit a"
    by (simp add: legacy_record_call_id_def split: option.split prod.split)
  have "legacy_outcome lib now (Some r) (rq_id r) (lg_audit a)
    (case legacy_call r a of
         CallInvalid e \<Rightarrow> validation_error_response lib now (Some r) e a
       | CallDenied \<Rightarrow> capability_denied_response lib now r a
       | CallReady tool_id capabilities args_bytes \<Rightarrow>
           let (fresh, a') = legacy_record_call_id r a
           in if \<not> fresh then replay_rejected_response lib now r a'
              else legacy_run lib ro now r tool_id capabilities args_bytes a')"
    using kept run [of "snd (legacy_record_call_id r a)"]
    by (simp add: split_beta Let_def refusals [OF assms] split: call_check.split)
  then show ?thesis unfolding legacy_tools_call_def by (rule guarded_outcome [OF assms])
qed

text \<open>C9: Every message is answered and every refusal has a receipt. Whatever text arrives at the older
  adapter, it answers with exactly one response, whose id is the request's own (the null id for a message
  that does not parse and for a notification). Either the response carries a result and the audit log is
  unchanged, or it carries one of seven fixed errors and the log has exactly one more receipt, which
  names this adapter and the request's method and id.\<close>

theorem legacy_refusals_have_receipts:
  "case legacy_parse_request lib t a of
     Inl e \<Rightarrow> legacy_outcome lib now None IdNull (lg_audit a) (legacy_handle_request lib ro now t a)
   | Inr r \<Rightarrow> legacy_outcome lib now (Some r) (if rq_id r = IdMissing then IdNull else rq_id r)
       (lg_audit a) (legacy_handle_request lib ro now t a)"
proof (cases "legacy_parse_request lib t a")
  case (Inl e)
  show ?thesis
    using refusal_outcome [of IdNull "snd (validation_error_details e)" now None _ a "lg_audit a" lib]
    by (simp add: Inl legacy_handle_request_def validation_error_response_def split_beta Let_def
        details_listed receipt_of_request id_ok_def)
next
  case (Inr r)
  have ok: "id_ok (rq_id r)"
    using Inr by (auto simp: legacy_parse_request_def parse_request_with_limit_def bind_result_eq_Inr
        parse_request_value_ok split: if_splits sum.splits)
  show ?thesis
  proof (cases "rq_id r = IdMissing")
    case True
    then show ?thesis
      using refusal_outcome [of IdNull invalid_request now "Some r" _ a "lg_audit a" lib]
        receipt_of_request(1) [of now r]
      by (simp add: Inr legacy_handle_request_def is_notification_def audit_request_rejection_def
          errors_listed id_ok_def)
  next
    case False
    have late: "legacy_outcome lib now (Some r) (rq_id r) (lg_audit a) (answer_late lib now r x)"
      if x: "legacy_outcome lib now (Some r) (rq_id r) (lg_audit a) x" for x :: "(text, 'a) legacy_answer"
    proof -
      obtain resp where "fst x = legacy_printed lib resp" using x unfolding legacy_outcome_def by blast
      then have "answer_late lib now r x = x"
        by (cases x; cases "sj_print (ml_serde lib) (response_ser (sanitize_response resp))")
          (simp_all add: legacy_printed_def answer_late_def)
      with x show ?thesis by simp
    qed
    have "legacy_outcome lib now (Some r) (rq_id r) (lg_audit a) (legacy_initialize lib now r a)"
      "legacy_outcome lib now (Some r) (rq_id r) (lg_audit a) (legacy_tools_list lib now r a)"
      unfolding legacy_initialize_def legacy_tools_list_def
      by (rule guarded_outcome [OF False ok];
          simp add: Let_def success_outcome [OF False ok HOL.refl] refusals(2) [OF False ok HOL.refl] split: option.split)+
    then show ?thesis
      using False
      by (simp add: Inr legacy_handle_request_def is_notification_def late call_outcome [OF False ok]
          refusals(5) [OF False ok HOL.refl])
  qed
qed

end
