(* ===== verification/Sse_Events.thy ===== *)
theory Sse_Events
  imports Stdio Json_Rpc
begin

text \<open>
  Server-sent events (the first half of \<open>src/src/compat/sse.rs\<close>): an event, its text form with the
  redaction of ids and payloads, and the reading of an event stream as the HTML standard prescribes it,
  against which the text form is proved.
\<close>

section \<open>Events\<close>

datatype sse_event_type = SseMessage | SseEndpoint | SseError | SsePing

fun event_type_as_str :: "sse_event_type \<Rightarrow> text" where
  "event_type_as_str SseMessage = ascii ''message''"
| "event_type_as_str SseEndpoint = ascii ''endpoint''"
| "event_type_as_str SseError = ascii ''error''"
| "event_type_as_str SsePing = ascii ''ping''"

record sse_event =
  sv_event_type :: sse_event_type
  sv_data :: "text"
  sv_id :: "text option"
  sv_retry :: "32 word option"

definition sse_event_of :: "sse_event_type \<Rightarrow> text \<Rightarrow> sse_event" where
  "sse_event_of ty data = \<lparr>sv_event_type = ty, sv_data = data, sv_id = None, sv_retry = None\<rparr>"

definition sse_message :: "text \<Rightarrow> sse_event" where
  "sse_message data = sse_event_of SseMessage data"

definition sse_endpoint :: "text \<Rightarrow> sse_event" where
  "sse_endpoint url = sse_event_of SseEndpoint url"

definition sse_error :: "text \<Rightarrow> sse_event" where
  "sse_error message = sse_event_of SseError (sanitize_text message)"

definition sse_ping :: sse_event where
  "sse_ping = sse_event_of SsePing []"

section \<open>Sanitizing\<close>

definition sanitize_replay_payload :: "serde_json \<Rightarrow> text \<Rightarrow> text" where
  "sanitize_replay_payload sj json =
     (case sj_value sj json of
        Inl _ \<Rightarrow> sanitize_text json
      | Inr v \<Rightarrow>
          let sanitized = sanitize_json_value v
          in if sanitized = v then json
             else (case sj_print sj (SerValue sanitized) of
                     Inr t \<Rightarrow> t
                   | Inl _ \<Rightarrow> sanitize_text json))"

definition sanitize_sse_field :: "text \<Rightarrow> text" where
  "sanitize_sse_field v = map (\<lambda>c. if c = 13 \<or> c = 10 then 32 else c) (sanitize_text v)"

fun crlf_to_lf :: "text \<Rightarrow> text" where
  "crlf_to_lf (a # b # t) = (if a = 13 \<and> b = 10 then 10 # crlf_to_lf t else a # crlf_to_lf (b # t))"
| "crlf_to_lf t = t"

definition sanitize_sse_data :: "serde_json \<Rightarrow> text \<Rightarrow> text" where
  "sanitize_sse_data sj v = replace_char 13 10 (crlf_to_lf (sanitize_replay_payload sj v))"

definition sse_with_id :: "text \<Rightarrow> sse_event \<Rightarrow> sse_event" where
  "sse_with_id i e = e\<lparr>sv_id := Some (sanitize_sse_field i)\<rparr>"

definition sse_with_retry :: "32 word \<Rightarrow> sse_event \<Rightarrow> sse_event" where
  "sse_with_retry ms e = e\<lparr>sv_retry := Some ms\<rparr>"

section \<open>The text form\<close>

text \<open>\<open>str::lines\<close>: pieces ended by a line feed, less a carriage return before it; a last piece
  without one counts unless it is empty.\<close>

fun lines_loop :: "text \<Rightarrow> text \<Rightarrow> text list" where
  "lines_loop cur [] = (if cur = [] then [] else [rev cur])"
| "lines_loop cur (c # t) =
     (if c = 10
      then rev (case cur of [] \<Rightarrow> [] | x # xs \<Rightarrow> if x = 13 then xs else cur) # lines_loop [] t
      else lines_loop (c # cur) t)"

definition text_lines :: "text \<Rightarrow> text list" where
  "text_lines t = lines_loop [] t"

definition text_writeln :: "text \<Rightarrow> text" where
  "text_writeln t = t @ [10]"

definition sse_format :: "serde_json \<Rightarrow> sse_event \<Rightarrow> text" where
  "sse_format sj e =
     (let data = sanitize_sse_data sj (sv_data e)
      in text_writeln (ascii ''event: '' @ event_type_as_str (sv_event_type e)) @
         (case sv_id e of
            None \<Rightarrow> []
          | Some i \<Rightarrow> text_writeln (ascii ''id: '' @ sanitize_sse_field i)) @
         (case sv_retry e of
            None \<Rightarrow> []
          | Some ms \<Rightarrow> text_writeln (ascii ''retry: '' @ decimal (unat ms))) @
         concat (map (\<lambda>l. text_writeln (ascii ''data: '' @ l)) (text_lines data)) @
         (if data = [] then text_writeln (ascii ''data:'') else []) @
         text_writeln [])"

text \<open>\<open>str::parse::<u64>\<close>: an optional plus sign and at least one digit.\<close>

definition parse_u64 :: "text \<Rightarrow> u64 option" where
  "parse_u64 t =
     (let digits = (case t of [] \<Rightarrow> t | c # r \<Rightarrow> if c = 43 then r else t)
      in if digits = [] \<or> \<not> list_all is_ascii_digit digits then None
         else if decimal_value digits < 2 ^ 64 then Some (of_nat (decimal_value digits)) else None)"

definition numeric_id :: "sse_event \<Rightarrow> u64 option" where
  "numeric_id e = Option.bind (sv_id e) parse_u64"

section \<open>Reading an event stream\<close>

text \<open>The complete lines of a stream: a carriage return, a line feed or both end a line.\<close>

fun stream_lines :: "text \<Rightarrow> text \<Rightarrow> text list" where
  "stream_lines cur [] = []"
| "stream_lines cur [c] = (if c = 13 \<or> c = 10 then [rev cur] else [])"
| "stream_lines cur (c # d # t) =
     (if c = 13 \<and> d = 10 then rev cur # stream_lines [] t
      else if c = 13 \<or> c = 10 then rev cur # stream_lines [] (d # t)
      else stream_lines (c # cur) (d # t))"

record sse_reader =
  rd_type :: "text"
  rd_data :: "text"
  rd_last_id :: "text"
  rd_retry :: "nat option"
  rd_events :: "(text \<times> text \<times> text) list"

definition reader_start :: sse_reader where
  "reader_start = \<lparr>rd_type = [], rd_data = [], rd_last_id = [], rd_retry = None, rd_events = []\<rparr>"

definition process_field :: "text \<Rightarrow> text \<Rightarrow> sse_reader \<Rightarrow> sse_reader" where
  "process_field field v s =
     (if field = ascii ''event'' then s\<lparr>rd_type := v\<rparr>
      else if field = ascii ''data'' then s\<lparr>rd_data := rd_data s @ v @ [10]\<rparr>
      else if field = ascii ''id'' then (if 0 \<in> set v then s else s\<lparr>rd_last_id := v\<rparr>)
      else if field = ascii ''retry''
      then (if v \<noteq> [] \<and> list_all is_ascii_digit v then s\<lparr>rd_retry := Some (decimal_value v)\<rparr> else s)
      else s)"

definition dispatch_event :: "sse_reader \<Rightarrow> sse_reader" where
  "dispatch_event s =
     (if rd_data s = [] then s\<lparr>rd_type := []\<rparr>
      else s\<lparr>rd_type := [], rd_data := [],
             rd_events := rd_events s @
               [(if rd_type s = [] then ascii ''message'' else rd_type s, rd_last_id s,
                 butlast (rd_data s))]\<rparr>)"

definition read_sse_line :: "text \<Rightarrow> sse_reader \<Rightarrow> sse_reader" where
  "read_sse_line l s =
     (if l = [] then dispatch_event s
      else if 58 \<notin> set l then process_field l [] s
      else
        let field = takeWhile (\<lambda>c. c \<noteq> 58) l; rest = tl (dropWhile (\<lambda>c. c \<noteq> 58) l)
        in if field = [] then s
           else process_field field (case rest of [] \<Rightarrow> [] | c # r \<Rightarrow> if c = 32 then r else rest) s)"

definition read_stream :: "text \<Rightarrow> sse_reader" where
  "read_stream t = fold read_sse_line (stream_lines [] t) reader_start"

section \<open>What a client receives\<close>

text \<open>The data less one final line feed.\<close>

definition chomp :: "text \<Rightarrow> text" where
  "chomp t = (if t \<noteq> [] \<and> last t = 10 then butlast t else t)"

text \<open>The effect of one event on the client: its type, the id in force and its payload.\<close>

definition receive :: "serde_json \<Rightarrow> sse_event \<Rightarrow> sse_reader \<Rightarrow> sse_reader" where
  "receive sj e s =
     (let last = (case sv_id e of
            Some i \<Rightarrow> if 0 \<in> set (sanitize_sse_field i) then rd_last_id s else sanitize_sse_field i
          | None \<Rightarrow> rd_last_id s)
      in s\<lparr>rd_last_id := last,
           rd_retry := (case sv_retry e of Some ms \<Rightarrow> Some (unat ms) | None \<Rightarrow> rd_retry s),
           rd_events := rd_events s @
             [(event_type_as_str (sv_event_type e), last, chomp (sanitize_sse_data sj (sv_data e)))]\<rparr>)"

lemma no_cr_data: "13 \<notin> set (sanitize_sse_data sj t)"
  by (auto simp: sanitize_sse_data_def replace_char_def)

lemma plain_field: "13 \<notin> set (sanitize_sse_field t)" "10 \<notin> set (sanitize_sse_field t)"
  by (auto simp: sanitize_sse_field_def)

lemma stream_lines_writeln:
  assumes "13 \<notin> set l" and "10 \<notin> set l"
  shows "stream_lines cur (l @ 10 # t) = (rev cur @ l) # stream_lines [] t"
  using assms
proof (induction l arbitrary: cur)
  case Nil
  then show ?case by (cases t) simp_all
next
  case (Cons c l)
  then show ?case by (cases l) (use Cons.IH [of "c # cur"] in \<open>auto\<close>)
qed

lemma stream_lines_written:
  assumes "\<forall>l \<in> set ls. 13 \<notin> set l \<and> 10 \<notin> set l"
  shows "stream_lines [] (concat (map text_writeln ls) @ t) = ls @ stream_lines [] t"
  using assms by (induction ls) (simp_all add: text_writeln_def stream_lines_writeln)

text \<open>The lines of a text without carriage returns, and the text back from them.\<close>

lemma lines_loop_plain:
  assumes "13 \<notin> set cur" and "13 \<notin> set t" and "10 \<notin> set cur"
  shows "\<forall>l \<in> set (lines_loop cur t). 13 \<notin> set l \<and> 10 \<notin> set l"
  using assms by (induction cur t rule: lines_loop.induct) (auto split: list.split)

lemma lines_loop_join:
  assumes "13 \<notin> set cur" and "13 \<notin> set t" and "10 \<notin> set cur"
  shows "concat (map (\<lambda>l. l @ [10]) (lines_loop cur t)) =
    (if rev cur @ t = [] then [] else chomp (rev cur @ t) @ [10])"
  using assms
proof (induction cur t rule: lines_loop.induct)
  case (1 cur)
  then have "cur = [] \<or> last (rev cur) \<noteq> 10" by (cases cur) auto
  then show ?case by (auto simp: chomp_def)
next
  case (2 cur c t)
  then show ?case
    by (cases "t = []") (auto simp: chomp_def butlast_append split: list.split)
qed

section \<open>The text form is read back\<close>

lemma type_not_empty [simp]: "event_type_as_str ty \<noteq> []"
  by (cases ty) (simp_all add: ascii_def)

lemma plain_type: "13 \<notin> set (event_type_as_str ty)" "10 \<notin> set (event_type_as_str ty)"
  by (cases ty; simp add: ascii_def)+

lemma read_fields:
  "read_sse_line (ascii ''event: '' @ v) s = s\<lparr>rd_type := v\<rparr>"
  "read_sse_line (ascii ''id: '' @ v) s = (if 0 \<in> set v then s else s\<lparr>rd_last_id := v\<rparr>)"
  "read_sse_line (ascii ''data: '' @ v) s = s\<lparr>rd_data := rd_data s @ v @ [10]\<rparr>"
  "read_sse_line (ascii ''data:'') s = s\<lparr>rd_data := rd_data s @ [10]\<rparr>"
  "read_sse_line (ascii ''retry: '' @ decimal n) s = s\<lparr>rd_retry := Some n\<rparr>"
  "read_sse_line [] s = dispatch_event s"
proof -
  have "decimal n \<noteq> []" "list_all is_ascii_digit (decimal n)"
    using decimal_digits [of n] decimal.simps [of n] by (auto simp: list_all_iff is_ascii_digit_def)
  then show "read_sse_line (ascii ''retry: '' @ decimal n) s = s\<lparr>rd_retry := Some n\<rparr>"
    by (simp add: read_sse_line_def process_field_def ascii_def decimal_value_decimal)
qed (simp_all add: read_sse_line_def process_field_def ascii_def)


text \<open>The lines of an event.\<close>

definition format_lines :: "serde_json \<Rightarrow> sse_event \<Rightarrow> text list" where
  "format_lines sj e =
     (let data = sanitize_sse_data sj (sv_data e)
      in [ascii ''event: '' @ event_type_as_str (sv_event_type e)] @
         (case sv_id e of None \<Rightarrow> [] | Some i \<Rightarrow> [ascii ''id: '' @ sanitize_sse_field i]) @
         (case sv_retry e of None \<Rightarrow> [] | Some ms \<Rightarrow> [ascii ''retry: '' @ decimal (unat ms)]) @
         (if data = [] then [ascii ''data:''] else map (\<lambda>l. ascii ''data: '' @ l) (text_lines data)) @ [[]])"

lemma sse_format_lines: "sse_format sj e = concat (map text_writeln (format_lines sj e))"
  by (auto simp: sse_format_def format_lines_def Let_def comp_def text_lines_def split: option.split)

lemma format_lines_plain: "\<forall>l \<in> set (format_lines sj e). 13 \<notin> set l \<and> 10 \<notin> set l"
proof -
  have "13 \<notin> set (ascii ''data: '' @ l) \<and> 10 \<notin> set (ascii ''data: '' @ l)"
    if "l \<in> set (text_lines (sanitize_sse_data sj (sv_data e)))" for l
    using that lines_loop_plain [of "[]" "sanitize_sse_data sj (sv_data e)"] no_cr_data
    by (auto simp: text_lines_def ascii_def)
  moreover have "13 \<notin> set (decimal n) \<and> 10 \<notin> set (decimal n)" for n
    using decimal_digits [of n] by auto
  ultimately show ?thesis
    using plain_type [of "sv_event_type e"] plain_field
    by (auto simp: format_lines_def Let_def ascii_def split: option.split)
qed

lemma read_data_lines:
  "fold read_sse_line (map (\<lambda>l. ascii ''data: '' @ l) ls) s =
     s\<lparr>rd_data := rd_data s @ concat (map (\<lambda>l. l @ [10]) ls)\<rparr>"
  by (induction ls arbitrary: s) (simp_all add: read_fields)

lemma read_event:
  assumes "rd_data s = []" and "rd_type s = []"
  shows "fold read_sse_line (format_lines sj e) s = receive sj e s"
proof -
  let ?d = "sanitize_sse_data sj (sv_data e)"
  have data: "fold read_sse_line
      (if ?d = [] then [ascii ''data:''] else map (\<lambda>l. ascii ''data: '' @ l) (text_lines ?d)) u =
    u\<lparr>rd_data := rd_data u @ chomp ?d @ [10]\<rparr>" for u
    using lines_loop_join [of "[]" ?d] no_cr_data
    by (auto simp: read_data_lines read_fields text_lines_def chomp_def)
  show ?thesis
    using assms
    by (cases s; cases "sv_id e"; cases "sv_retry e")
      (simp_all add: format_lines_def Let_def data dispatch_event_def read_fields receive_def)
qed

lemma receive_keeps [simp]: "rd_data (receive sj e s) = rd_data s" "rd_type (receive sj e s) = rd_type s"
  by (simp_all add: receive_def Let_def)

lemma read_formatted:
  "rd_data s = [] \<Longrightarrow> rd_type s = [] \<Longrightarrow>
   fold read_sse_line (concat (map (format_lines sj) es)) s = fold (receive sj) es s"
  by (induction es arbitrary: s) (simp_all add: read_event)

lemma sse_events_received:
  "read_stream (concat (map (sse_format sj) es)) = fold (receive sj) es reader_start"
proof -
  have "concat (map (sse_format sj) es) = concat (map text_writeln (concat (map (format_lines sj) es))) @ []"
    by (induction es) (simp_all add: sse_format_lines)
  moreover have "\<forall>l \<in> set (concat (map (format_lines sj) es)). 13 \<notin> set l \<and> 10 \<notin> set l"
    using format_lines_plain by auto
  ultimately have "stream_lines [] (concat (map (sse_format sj) es)) = concat (map (format_lines sj) es)"
    using stream_lines_written by (metis append_Nil2 stream_lines.simps(1))
  then show ?thesis
    by (simp add: read_stream_def read_formatted reader_start_def)
qed

text \<open>C36: No event can forge another. Whatever the payloads, ids and retry times of a sequence of events
  (line breaks, colons, whole protocol lines), a client that reads their texts as the standard prescribes
  receives exactly these events, in order: each with its own type, its sanitized id (the previous one when
  it has none) and its sanitized payload, less one final line feed.\<close>

theorem sse_events_read_back:
  "read_stream (concat (map (sse_format sj) es)) = fold (receive sj) es reader_start"
  by (rule sse_events_received)

end
