(* ===== verification/Sse.thy ===== *)
theory Sse
  imports Sse_Events Request_Replay
begin

text \<open>
  The server-sent events transport (the second half of \<open>src/src/compat/sse.rs\<close>): the bounded buffer
  of events for clients that reconnect, the transport that numbers and buffers events, and the bounded
  queue of messages posted by clients.
\<close>

section \<open>The event buffer\<close>

datatype sse_replay_error = StaleEventId | FutureEventId

record event_buffer =
  eb_events :: "(u64 \<times> text) list"
  eb_max_size :: nat

definition event_buffer_new :: "nat \<Rightarrow> event_buffer" where
  "event_buffer_new n = \<lparr>eb_events = [], eb_max_size = n\<rparr>"

text \<open>The loop that removes the oldest events.\<close>

fun evict_oldest :: "nat \<Rightarrow> (u64 \<times> text) list \<Rightarrow> (u64 \<times> text) list" where
  "evict_oldest n [] = []"
| "evict_oldest n (e # es) = (if length (e # es) \<ge> n then evict_oldest n es else e # es)"

definition event_buffer_push :: "u64 \<Rightarrow> text \<Rightarrow> event_buffer \<Rightarrow> event_buffer" where
  "event_buffer_push i formatted b =
     (if eb_max_size b = 0 then b
      else b\<lparr>eb_events := evict_oldest (eb_max_size b) (eb_events b) @ [(i, formatted)]\<rparr>)"

definition events_after :: "u64 \<Rightarrow> event_buffer \<Rightarrow> text list" where
  "events_after last_id b = map snd (filter (\<lambda>(i, formatted). i > last_id) (eb_events b))"

definition latest_event_id :: "event_buffer \<Rightarrow> u64 option" where
  "latest_event_id b = (if eb_events b = [] then None else Some (fst (last (eb_events b))))"

definition oldest_event_id :: "event_buffer \<Rightarrow> u64 option" where
  "oldest_event_id b = (case eb_events b of [] \<Rightarrow> None | e # es \<Rightarrow> Some (fst e))"

definition event_buffer_len :: "event_buffer \<Rightarrow> nat" where
  "event_buffer_len b = length (eb_events b)"

definition event_buffer_clear :: "event_buffer \<Rightarrow> event_buffer" where
  "event_buffer_clear b = b\<lparr>eb_events := []\<rparr>"

section \<open>The transport\<close>

record sse_transport =
  se_counter :: u64
  se_retry_ms :: "32 word"
  se_buffer :: event_buffer

definition sse_with_buffer_size :: "nat \<Rightarrow> sse_transport" where
  "sse_with_buffer_size n = \<lparr>se_counter = 0, se_retry_ms = 3000, se_buffer = event_buffer_new n\<rparr>"

definition sse_new :: sse_transport where
  "sse_new = sse_with_buffer_size 100"

definition sse_set_retry :: "32 word \<Rightarrow> sse_transport \<Rightarrow> sse_transport" where
  "sse_set_retry ms t = t\<lparr>se_retry_ms := ms\<rparr>"

definition sse_content_type :: "text" where "sse_content_type = ascii ''text/event-stream''"

definition sse_headers :: "(text \<times> text) list" where
  "sse_headers =
     [(ascii ''Content-Type'', ascii ''text/event-stream''), (ascii ''Cache-Control'', ascii ''no-cache''),
      (ascii ''Connection'', ascii ''keep-alive'')]"

definition sse_next_id :: "sse_transport \<Rightarrow> u64 \<times> sse_transport" where
  "sse_next_id t = (se_counter t + 1, t\<lparr>se_counter := se_counter t + 1\<rparr>)"

definition sse_buffer_event :: "u64 \<Rightarrow> text \<Rightarrow> sse_transport \<Rightarrow> sse_transport" where
  "sse_buffer_event i formatted t = t\<lparr>se_buffer := event_buffer_push i formatted (se_buffer t)\<rparr>"

definition numbered :: "u64 \<Rightarrow> sse_event \<Rightarrow> sse_event" where
  "numbered i e = sse_with_id (decimal (unat i)) e"

definition sse_format_response :: "serde_json \<Rightarrow> text \<Rightarrow> sse_transport \<Rightarrow> text \<times> sse_transport" where
  "sse_format_response sj json t =
     (let (i, t1) = sse_next_id t;
          formatted = sse_format sj (sse_with_retry (se_retry_ms t) (numbered i (sse_message json)));
          replay = sse_format sj (sse_with_retry (se_retry_ms t)
            (numbered i (sse_message (sanitize_replay_payload sj json))))
      in (formatted, sse_buffer_event i replay t1))"

definition sse_format_error :: "serde_json \<Rightarrow> text \<Rightarrow> sse_transport \<Rightarrow> text \<times> sse_transport" where
  "sse_format_error sj message t =
     (let (i, t1) = sse_next_id t;
          formatted = sse_format sj (numbered i (sse_error (sanitize_text message)))
      in (formatted, sse_buffer_event i formatted t1))"

definition sse_format_ping :: "serde_json \<Rightarrow> text" where
  "sse_format_ping sj = sse_format sj sse_ping"

definition sse_format_endpoint :: "serde_json \<Rightarrow> text \<Rightarrow> sse_transport \<Rightarrow> text \<times> sse_transport" where
  "sse_format_endpoint sj url t =
     (let (i, t1) = sse_next_id t
      in (sse_format sj (numbered i (sse_endpoint (sanitize_text url))), t1))"

definition parse_last_event_id :: "text \<Rightarrow> u64 option" where
  "parse_last_event_id header = parse_u64 (trim_text header)"

definition get_replay_events :: "u64 \<Rightarrow> sse_transport \<Rightarrow> text list" where
  "get_replay_events last_event_id t = events_after last_event_id (se_buffer t)"

definition checked_replay_events :: "u64 \<Rightarrow> sse_transport \<Rightarrow> sse_replay_error + text list" where
  "checked_replay_events last_event_id t =
     (let b = se_buffer t in
      if eb_events b = [] then
        (if last_event_id > se_counter t then Inl FutureEventId
         else if se_counter t > 0 \<and> last_event_id < se_counter t then Inl StaleEventId
         else Inr [])
      else if (case latest_event_id b of None \<Rightarrow> False | Some latest \<Rightarrow> last_event_id > latest)
      then Inl FutureEventId
      else if (case oldest_event_id b of
                 None \<Rightarrow> False
               | Some oldest \<Rightarrow> last_event_id < (if oldest = 0 then 0 else oldest - 1))
      then Inl StaleEventId
      else Inr (events_after last_event_id b))"

definition current_event_id :: "sse_transport \<Rightarrow> u64" where
  "current_event_id t = se_counter t"

definition sse_buffer_stats :: "sse_transport \<Rightarrow> nat \<times> u64 option" where
  "sse_buffer_stats t = (event_buffer_len (se_buffer t), latest_event_id (se_buffer t))"

definition sse_reset :: "sse_transport \<Rightarrow> sse_transport" where
  "sse_reset t = t\<lparr>se_counter := 0, se_buffer := event_buffer_clear (se_buffer t)\<rparr>"

section \<open>Posted messages\<close>

definition DEFAULT_MAX_SSE_PENDING_RESPONSES :: nat where "DEFAULT_MAX_SSE_PENDING_RESPONSES = 1024"

definition DEFAULT_MAX_SSE_PENDING_RESPONSE_BYTES :: nat where
  "DEFAULT_MAX_SSE_PENDING_RESPONSE_BYTES =
     DEFAULT_MAX_JSONRPC_REQUEST_SIZE * DEFAULT_MAX_SSE_PENDING_RESPONSES"

record sse_message_handler =
  mh_responses :: "text list"
  mh_max_message_size :: nat
  mh_max_pending :: nat
  mh_max_pending_bytes :: nat

definition message_handler_new :: sse_message_handler where
  "message_handler_new =
     \<lparr>mh_responses = [], mh_max_message_size = DEFAULT_MAX_JSONRPC_REQUEST_SIZE,
      mh_max_pending = DEFAULT_MAX_SSE_PENDING_RESPONSES,
      mh_max_pending_bytes = DEFAULT_MAX_SSE_PENDING_RESPONSE_BYTES\<rparr>"

definition with_max_message_size :: "nat \<Rightarrow> sse_message_handler \<Rightarrow> sse_message_handler" where
  "with_max_message_size n q = q\<lparr>mh_max_message_size := n\<rparr>"

definition with_max_pending_responses :: "nat \<Rightarrow> sse_message_handler \<Rightarrow> sse_message_handler" where
  "with_max_pending_responses n q = q\<lparr>mh_max_pending := n\<rparr>"

definition with_max_pending_response_bytes :: "nat \<Rightarrow> sse_message_handler \<Rightarrow> sse_message_handler" where
  "with_max_pending_response_bytes n q = q\<lparr>mh_max_pending_bytes := n\<rparr>"

definition is_supported_sse_notification :: "text \<Rightarrow> bool" where
  "is_supported_sse_notification m \<longleftrightarrow>
     m \<in> set (map ascii [''notifications/initialized'', ''notifications/cancelled''])"

definition is_supported_sse_post_method :: "text \<Rightarrow> bool" where
  "is_supported_sse_post_method m \<longleftrightarrow>
     m \<in> set (map ascii
       [''initialize'', ''ping'', ''tools/list'', ''tools/call'', ''resources/list'', ''resources/read'',
        ''resources/subscribe'', ''resources/unsubscribe'', ''prompts/list'', ''prompts/get'',
        ''logging/setLevel'', ''completion/complete'']) \<or>
     is_supported_sse_notification m"

definition invalid_notification :: "text" where
  "invalid_notification = ascii ''Invalid JSON-RPC notification params''"

definition validate_supported_sse_notification :: "json_rpc_request \<Rightarrow> text + unit" where
  "validate_supported_sse_notification r =
     (if rq_method r = ascii ''notifications/initialized'' then
        (if rq_params r = None then Inr () else Inl invalid_notification)
      else if rq_method r \<noteq> ascii ''notifications/cancelled'' then Inr ()
      else
        bind_result (ok_or invalid_notification (Option.bind (rq_params r) as_object)) (\<lambda>params.
          if list_ex (\<lambda>(key, v). key \<noteq> ascii ''requestId'' \<and> key \<noteq> ascii ''reason'') params
          then Inl invalid_notification
          else
            bind_result (ok_or invalid_notification (jm_get params (ascii ''requestId''))) (\<lambda>request_id.
            bind_result (map_err (\<lambda>_. invalid_notification) (try_from_json_value request_id)) (\<lambda>_.
              if \<not> pred_option (\<lambda>reason. as_str reason \<noteq> None) (jm_get params (ascii ''reason''))
              then Inl invalid_notification
              else Inr ()))))"

text \<open>\<open>saturating_add\<close> on \<open>usize\<close>.\<close>

definition saturating_add :: "nat \<Rightarrow> nat \<Rightarrow> nat" where
  "saturating_add a b = min (a + b) (2 ^ 64 - 1)"

definition queued_bytes :: "text list \<Rightarrow> nat" where
  "queued_bytes responses = fold (\<lambda>response n. saturating_add n (text_len response)) responses 0"

definition handle_message ::
  "serde_json \<Rightarrow> text \<Rightarrow> sse_message_handler \<Rightarrow> (text + unit) \<times> sse_message_handler" where
  "handle_message sj json q =
     (case parse_request_with_limit sj json (mh_max_message_size q) of
        Inl _ \<Rightarrow> (Inl (ascii ''Invalid JSON-RPC request''), q)
      | Inr r \<Rightarrow>
          if \<not> is_supported_sse_post_method (rq_method r)
          then (Inl (ascii ''Unsupported JSON-RPC method on SSE POST''), q)
          else
            case validate_supported_sse_notification r of
              Inl e \<Rightarrow> (Inl e, q)
            | Inr _ \<Rightarrow>
                let notification_only = is_supported_sse_notification (rq_method r) in
                if is_notification r \<and> \<not> notification_only
                then (Inl (ascii ''JSON-RPC notification not accepted on SSE POST''), q)
                else if \<not> is_notification r \<and> notification_only
                then (Inl (ascii ''JSON-RPC notification method must not include id''), q)
                else if is_notification r then (Inr (), q)
                else if length (mh_responses q) \<ge> mh_max_pending q
                then (Inl (ascii ''SSE response queue full''), q)
                else
                  let sanitized = sanitize_replay_payload sj json in
                  if saturating_add (queued_bytes (mh_responses q)) (text_len sanitized) >
                     mh_max_pending_bytes q
                  then (Inl (ascii ''SSE response queue byte budget exceeded''), q)
                  else (Inr (), q\<lparr>mh_responses := mh_responses q @ [sanitized]\<rparr>))"

definition take_responses :: "sse_message_handler \<Rightarrow> text list \<times> sse_message_handler" where
  "take_responses q = (mh_responses q, q\<lparr>mh_responses := []\<rparr>)"

definition sse_has_pending :: "sse_message_handler \<Rightarrow> bool" where
  "sse_has_pending q \<longleftrightarrow> mh_responses q \<noteq> []"

record sse_endpoint_config =
  sc_events_path :: "text"
  sc_messages_path :: "text"
  sc_ping_interval_secs :: u64
  sc_buffer_size :: nat
  sc_retry_ms :: "32 word"

definition sse_endpoint_config_default :: sse_endpoint_config where
  "sse_endpoint_config_default =
     \<lparr>sc_events_path = ascii ''/events'', sc_messages_path = ascii ''/message'', sc_ping_interval_secs = 30,
      sc_buffer_size = 100, sc_retry_ms = 3000\<rparr>"

section \<open>Reconnection\<close>

datatype sse_op = SendResponse "text" | SendError "text" | SendPing | SendEndpoint "text"

fun sse_step :: "serde_json \<Rightarrow> sse_op \<Rightarrow> sse_transport \<Rightarrow> sse_transport" where
  "sse_step sj (SendResponse json) t = snd (sse_format_response sj json t)"
| "sse_step sj (SendError m) t = snd (sse_format_error sj m t)"
| "sse_step sj SendPing t = t"
| "sse_step sj (SendEndpoint url) t = snd (sse_format_endpoint sj url t)"

text \<open>The events a client should be able to ask for again, with their numbers, after \<open>n\<close> numbers.\<close>

fun sent_events :: "serde_json \<Rightarrow> 32 word \<Rightarrow> nat \<Rightarrow> sse_op list \<Rightarrow> (nat \<times> text) list" where
  "sent_events sj ms n [] = []"
| "sent_events sj ms n (SendResponse json # ops) =
     (Suc n, sse_format sj (sse_with_retry ms (sse_with_id (decimal (Suc n))
        (sse_message (sanitize_replay_payload sj json))))) # sent_events sj ms (Suc n) ops"
| "sent_events sj ms n (SendError m # ops) =
     (Suc n, sse_format sj (sse_with_id (decimal (Suc n)) (sse_error (sanitize_text m)))) #
       sent_events sj ms (Suc n) ops"
| "sent_events sj ms n (SendPing # ops) = sent_events sj ms n ops"
| "sent_events sj ms n (SendEndpoint url # ops) = sent_events sj ms (Suc n) ops"

definition holds_last :: "nat \<Rightarrow> nat \<Rightarrow> 32 word \<Rightarrow> (nat \<times> text) list \<Rightarrow> sse_transport \<Rightarrow> bool" where
  "holds_last cap n ms h t \<longleftrightarrow>
     eb_max_size (se_buffer t) = cap \<and> unat (se_counter t) = n \<and> se_retry_ms t = ms \<and>
     map (\<lambda>(i, e). (unat i, e)) (eb_events (se_buffer t)) = last_n cap h \<and>
     sorted_wrt (<) (map fst h) \<and> (\<forall>p \<in> set h. fst p \<le> n)"

lemma evict_oldest_eq: "0 < n \<Longrightarrow> evict_oldest n es = last_n (n - 1) es"
  by (induction es) (auto simp: last_n_def Suc_diff_le not_le)

lemma last_n_push: "0 < n \<Longrightarrow> last_n n (h @ [e]) = last_n (n - 1) (last_n n h) @ [e]"
proof (cases n)
  case (Suc m)
  then show ?thesis by (cases "length h \<le> m") (auto simp: last_n_def Suc_diff_Suc not_le)
qed simp

lemma last_n_map: "last_n n (map f xs) = map f (last_n n xs)"
  by (simp add: last_n_def drop_map)

lemma holds_last_push:
  assumes "holds_last cap n ms h t" and "Suc n < 2 ^ 64"
  shows "holds_last cap (Suc n) ms (h @ [(Suc n, x)]) (sse_buffer_event (se_counter t + 1) x
    (t\<lparr>se_counter := se_counter t + 1\<rparr>))"
proof -
  have n: "unat (se_counter t) = n" using assms(1) by (simp add: holds_last_def)
  then have i: "unat (se_counter t + 1) = Suc n" using assms(2) by (simp add: unat_word_ariths)
  have "\<forall>p \<in> set h. fst p \<le> n" and sorted: "sorted_wrt (<) (map fst h)"
    using assms(1) by (simp_all add: holds_last_def)
  then have order: "sorted_wrt (<) (map fst (h @ [(Suc n, x)])) \<and> (\<forall>p \<in> set (h @ [(Suc n, x)]). fst p \<le> Suc n)"
    by (auto simp: sorted_wrt_append less_Suc_eq_le)
  have events: "map (\<lambda>(i, e). (unat i, e)) (eb_events (se_buffer t)) = last_n cap h"
    and cap: "eb_max_size (se_buffer t) = cap" using assms(1) by (simp_all add: holds_last_def)
  have "map (\<lambda>(i, e). (unat i, e)) (eb_events (event_buffer_push (se_counter t + 1) x (se_buffer t))) =
    last_n cap (h @ [(Suc n, x)])"
  proof (cases "cap = 0")
    case True
    then show ?thesis using events cap by (simp add: event_buffer_push_def last_n_def)
  next
    case False
    then have "map (\<lambda>(i, e). (unat i, e)) (last_n (cap - 1) (eb_events (se_buffer t))) =
        last_n (cap - 1) (last_n cap h)"
      using events by (simp flip: last_n_map)
    with False cap i show ?thesis
      by (simp add: event_buffer_push_def evict_oldest_eq last_n_push)
  qed
  then show ?thesis
    using assms(1) i order by (simp add: holds_last_def sse_buffer_event_def event_buffer_push_def)
qed

lemma holds_last_run:
  assumes "holds_last cap n ms h t" and "n + length ops < 2 ^ 64"
  shows "\<exists>m. holds_last cap m ms (h @ sent_events sj ms n ops) (fold (sse_step sj) ops t)"
  using assms
proof (induction ops arbitrary: n h t)
  case Nil
  then show ?case by auto
next
  case (Cons op ops)
  have room: "Suc n < 2 ^ 64" "Suc n + length ops < 2 ^ 64" "n + length ops < 2 ^ 64"
    using Cons.prems(2) by simp_all
  have i: "unat (se_counter t + 1) = Suc n" "se_retry_ms t = ms"
    using Cons.prems(1) room(1) by (auto simp: holds_last_def unat_word_ariths)
  note push = holds_last_push [OF Cons.prems(1) room(1)]
  have skip: "holds_last cap (Suc n) ms h (t\<lparr>se_counter := se_counter t + 1\<rparr>)"
    using Cons.prems(1) i by (auto simp: holds_last_def)
  show ?case
  proof (cases op)
    case (SendResponse json)
    from Cons.IH [OF push room(2)] show ?thesis
      by (simp add: SendResponse sse_format_response_def sse_next_id_def Let_def numbered_def i)
  next
    case (SendError m)
    from Cons.IH [OF push room(2)] show ?thesis
      by (simp add: SendError sse_format_error_def sse_next_id_def Let_def numbered_def i)
  next
    case SendPing
    with Cons.IH [OF Cons.prems(1) room(3)] show ?thesis by simp
  next
    case (SendEndpoint url)
    with Cons.IH [OF skip room(2)] show ?thesis
      by (simp add: sse_format_endpoint_def sse_next_id_def Let_def)
  qed
qed

lemma last_largest:
  "sorted_wrt (<) (map fst h) \<Longrightarrow> p \<in> set h \<Longrightarrow> (fst p :: nat) \<le> fst (last h)"
  by (induction h) (auto simp: less_imp_le)

lemma last_n_suffix: "\<exists>old. h = old @ last_n n h"
  by (metis append_take_drop_id last_n_def)

lemma holds_last_after:
  assumes "holds_last cap n ms h t"
  shows "get_replay_events k t = map snd (filter (\<lambda>(i, e). i > unat k) (last_n cap h))"
proof -
  have "map snd (filter (\<lambda>(i, e). i > k) es) =
      map snd (filter (\<lambda>(i, e). i > unat k) (map (\<lambda>(i, e). (unat i, e)) es))"
    for es :: "(u64 \<times> text) list"
    by (induction es) (auto simp: word_less_nat_alt)
  then show ?thesis
    using assms by (simp add: get_replay_events_def events_after_def holds_last_def)
qed

text \<open>The answer to a client that has seen event \<open>k\<close>.\<close>

lemma checked_replay_holds:
  assumes h: "holds_last cap n ms h t"
  shows "case checked_replay_events k t of
     Inr evs \<Rightarrow> evs = map snd (filter (\<lambda>(i, e). i > unat k) h)
   | Inl FutureEventId \<Rightarrow> filter (\<lambda>(i, e). i \<ge> unat k) h = []
   | Inl StaleEventId \<Rightarrow> Suc (unat k) \<le> n \<and> Suc (unat k) \<notin> fst ` set (last_n cap h)"
proof -
  let ?kept = "last_n cap h"
  obtain old where old: "h = old @ ?kept" using last_n_suffix by blast
  have kept: "map (\<lambda>(i, e). (unat i, e)) (eb_events (se_buffer t)) = ?kept"
    and n: "unat (se_counter t) = n" and le: "\<forall>p \<in> set h. fst p \<le> n"
    and sorted: "sorted_wrt (<) (map fst (old @ ?kept))"
    using h old by (simp_all add: holds_last_def)
  have before: "fst p < fst q" if "p \<in> set old" "q \<in> set ?kept" for p q
    using sorted that by (auto simp: sorted_wrt_append)
  show ?thesis
  proof (cases "eb_events (se_buffer t)")
    case Nil
    then have "?kept = []" using kept by simp
    moreover have "filter (\<lambda>(i, e). i \<ge> unat k) h = []" if "unat k > n"
      using le that by (auto simp: filter_empty_conv)
    moreover have "filter (\<lambda>(i, e). i > unat k) h = []" if "unat k \<ge> n"
      using le that by (auto simp: filter_empty_conv)
    ultimately show ?thesis
      using n Nil by (auto simp: checked_replay_events_def word_less_nat_alt not_less)
  next
    case (Cons e es)
    let ?latest = "unat (fst (last (e # es)))" and ?oldest = "unat (fst e)"
    have first: "?kept = (?oldest, snd e) # map (\<lambda>(i, e). (unat i, e)) es"
      using kept Cons by (cases e) simp
    have lastk: "last ?kept = (?latest, snd (last (e # es)))"
      using kept [symmetric] Cons by (simp add: last_map split_beta)
    have top: "fst p \<le> ?latest" if "p \<in> set h" for p
    proof -
      have "last h = last ?kept" using old first by (metis last_appendR list.distinct(1))
      then show ?thesis using that last_largest [of h p] sorted old lastk by simp
    qed
    have low: "?oldest \<le> fst p" if "p \<in> set ?kept" for p
      using that sorted first by (auto simp: sorted_wrt_append)
    have future: "filter (\<lambda>(i, e). i \<ge> unat k) h = []" if "unat k > ?latest"
      using top that by (fastforce simp: filter_empty_conv)
    have stale: "Suc (unat k) \<le> n \<and> Suc (unat k) \<notin> fst ` set ?kept" if "Suc (unat k) < ?oldest"
      using that low le old first by (force simp del: last_n_def)
    have fresh: "filter (\<lambda>(i, e). i > unat k) h = filter (\<lambda>(i, e). i > unat k) ?kept"
      if "\<not> Suc (unat k) < ?oldest"
    proof -
      have "\<not> fst p > unat k" if "p \<in> set old" for p
        using before [OF that, of "(?oldest, snd e)"] first \<open>\<not> Suc (unat k) < ?oldest\<close> by simp
      then have "filter (\<lambda>(i, e). i > unat k) old = []" by (auto simp: filter_empty_conv)
      then show ?thesis by (subst old) simp
    qed
    have low_iff: "k < (if fst e = 0 then 0 else fst e - 1) \<longleftrightarrow> Suc (unat k) < ?oldest"
      using unat_minus_one [of "fst e"] unat_gt_0 [of "fst e"] by (auto simp: word_less_nat_alt)
    have "checked_replay_events k t =
      (if unat k > ?latest then Inl FutureEventId
       else if Suc (unat k) < ?oldest then Inl StaleEventId
       else Inr (get_replay_events k t))"
    proof -
      have ends: "latest_event_id (se_buffer t) = Some (fst (last (e # es)))"
        "oldest_event_id (se_buffer t) = Some (fst e)"
        by (simp_all add: latest_event_id_def oldest_event_id_def Cons)
      show ?thesis
        unfolding checked_replay_events_def Let_def ends option.case low_iff get_replay_events_def
        by (simp add: Cons word_less_nat_alt)
    qed
    then show ?thesis
      using future stale fresh holds_last_after [OF h, of k] by simp
  qed
qed


text \<open>The sample: an endpoint, three responses and an error over a buffer of two events.\<close>

definition sample_traffic :: "sse_op list" where
  "sample_traffic = [SendEndpoint (ascii ''/message''), SendResponse (ascii ''1''), SendResponse (ascii ''2''),
     SendPing, SendResponse (ascii ''3''), SendError (ascii ''late'')]"


section \<open>Two gaps\<close>

text \<open>An endpoint event takes a number but is not buffered: a client whose last event it is asks from
  the future.\<close>

lemma endpoint_id_is_future:
  "checked_replay_events 2
     (fold (sse_step sj) [SendResponse json, SendEndpoint url] (sse_with_buffer_size 100)) = Inl FutureEventId"
  by (simp add: sse_with_buffer_size_def event_buffer_new_def sse_format_response_def sse_next_id_def
      sse_format_endpoint_def sse_buffer_event_def event_buffer_push_def checked_replay_events_def
      latest_event_id_def Let_def word_less_nat_alt)

text \<open>Numbering and buffering are two steps: two responses that interleave are buffered out of order, and
  a client that has seen the later one asks from the future.\<close>

lemma interleaved_responses_disorder:
  "let (i, t1) = sse_next_id (sse_with_buffer_size 100); (j, t2) = sse_next_id t1;
       t = sse_buffer_event i a (sse_buffer_event j b t2)
   in checked_replay_events j t = Inl FutureEventId \<and> get_replay_events 0 t = [b, a]"
  by (simp add: sse_with_buffer_size_def event_buffer_new_def sse_next_id_def sse_buffer_event_def
      event_buffer_push_def checked_replay_events_def latest_event_id_def Let_def word_less_nat_alt
      get_replay_events_def events_after_def)

section \<open>Event ids survive the trip\<close>

lemma decimal_not_sensitive: "\<not> looks_sensitive_value (decimal n)"
proof -
  have digits: "\<forall>c \<in> set (decimal n). 48 \<le> c \<and> c \<le> 57" by (rule decimal_digits)
  have lower: "to_ascii_lowercase (decimal n) = decimal n"
    using digits by (auto simp: to_ascii_lowercase_def ascii_lower_def is_ascii_uppercase_def intro!: map_idI)
  have "concat (map utf8_char (decimal n)) = decimal n"
    using digits by (intro utf8_ascii) auto
  then have "percent_decode_ascii (decimal n) = decimal n"
    using digits by (auto simp: percent_decode_ascii_def intro!: percent_decode_plain)
  then have decoded: "percent_decode_ascii_repeated (decimal n) = decimal n"
    by (simp add: percent_decode_ascii_repeated_def MAX_PERCENT_DECODE_PASSES_def numeral_eq_Suc)
  have absent: "\<not> contains_text p (decimal n)" if "\<not> set p \<subseteq> {48..57}" for p
    using that digits by (auto simp: contains_text_iff)
  have "\<not> text_looks_sensitive (decimal n)"
    by (auto simp: text_looks_sensitive_def contains_sensitive_assignment_def list_ex_iff Let_def
        dest!: absent [THEN notE, rotated]) (auto simp: ascii_def)
  then show ?thesis by (simp add: looks_sensitive_value_def Let_def lower decoded)
qed

lemma sanitized_decimal: "sanitize_sse_field (decimal n) = decimal n"
  using decimal_digits [of n]
  by (auto simp: sanitize_sse_field_def sanitize_text_def decimal_not_sensitive intro!: map_idI)

lemma parse_u64_decimal: "parse_u64 (decimal (unat i)) = Some i"
proof -
  have digits: "list_all is_ascii_digit (decimal (unat i))" "decimal (unat i) \<noteq> []"
    using decimal_digits [of "unat i"] decimal.simps [of "unat i"]
    by (auto simp: list_all_iff is_ascii_digit_def)
  then obtain c r where "decimal (unat i) = c # r" and "c \<noteq> 43"
    by (cases "decimal (unat i)") (auto simp: is_ascii_digit_def)
  then have "(case decimal (unat i) of [] \<Rightarrow> decimal (unat i) | c # r \<Rightarrow> if c = 43 then r else decimal (unat i)) =
      decimal (unat i)" by simp
  moreover have "unat i < 2 ^ 64" using unsigned_less [of i, where 'a = nat] by simp
  ultimately show ?thesis
    using digits by (simp add: parse_u64_def decimal_value_decimal)
qed

lemma trim_decimal: "trim_text (decimal n) = decimal n"
proof -
  have "dropWhile is_whitespace t = t" if "\<forall>c \<in> set t. 48 \<le> c \<and> c \<le> (57 :: nat)" for t
    using that by (cases t) (auto simp: is_whitespace_def)
  then show ?thesis
    using decimal_digits [of n] by (simp add: trim_text_def trim_start_def trim_end_def)
qed

lemma receive_numbered:
  "rd_last_id (receive sj (sse_with_retry ms (numbered i e)) s) = decimal (unat i)"
  "rd_last_id (receive sj (numbered i e) s) = decimal (unat i)"
  using decimal_digits [of "unat i"]
  by (auto simp: receive_def Let_def numbered_def sse_with_id_def sse_with_retry_def sanitized_decimal)

text \<open>What is sent to a client.\<close>

fun sse_sent :: "serde_json \<Rightarrow> sse_op \<Rightarrow> sse_transport \<Rightarrow> text" where
  "sse_sent sj (SendResponse json) t = fst (sse_format_response sj json t)"
| "sse_sent sj (SendError m) t = fst (sse_format_error sj m t)"
| "sse_sent sj SendPing t = sse_format_ping sj"
| "sse_sent sj (SendEndpoint url) t = fst (sse_format_endpoint sj url t)"

fun sse_live :: "serde_json \<Rightarrow> sse_op list \<Rightarrow> sse_transport \<Rightarrow> text" where
  "sse_live sj [] t = []"
| "sse_live sj (op # ops) t = sse_sent sj op t @ sse_live sj ops (sse_step sj op t)"

definition takes_number :: "sse_op \<Rightarrow> bool" where
  "takes_number op \<longleftrightarrow> op \<noteq> SendPing"

fun live_event :: "sse_op \<Rightarrow> sse_transport \<Rightarrow> sse_event" where
  "live_event (SendResponse json) t =
     sse_with_retry (se_retry_ms t) (numbered (se_counter t + 1) (sse_message json))"
| "live_event (SendError m) t = numbered (se_counter t + 1) (sse_error (sanitize_text m))"
| "live_event SendPing t = sse_ping"
| "live_event (SendEndpoint url) t = numbered (se_counter t + 1) (sse_endpoint (sanitize_text url))"

fun live_events :: "serde_json \<Rightarrow> sse_op list \<Rightarrow> sse_transport \<Rightarrow> sse_event list" where
  "live_events sj [] t = []"
| "live_events sj (op # ops) t = live_event op t # live_events sj ops (sse_step sj op t)"

lemma sse_sent_format: "sse_sent sj op t = sse_format sj (live_event op t)"
  by (cases op) (simp_all add: sse_format_response_def sse_format_error_def sse_format_ping_def
      sse_format_endpoint_def sse_next_id_def Let_def)

lemma sse_live_format: "sse_live sj ops t = concat (map (sse_format sj) (live_events sj ops t))"
  by (induction ops arbitrary: t) (simp_all add: sse_sent_format)

lemma counter_step: "se_counter (sse_step sj op t) = (if takes_number op then se_counter t + 1 else se_counter t)"
  by (cases op) (simp_all add: takes_number_def sse_format_response_def sse_format_error_def
      sse_format_endpoint_def sse_next_id_def sse_buffer_event_def Let_def)

lemma last_id_step:
  "rd_last_id (receive sj (live_event op t) s) =
     (if takes_number op then decimal (unat (se_counter t + 1)) else rd_last_id s)"
proof -
  have "rd_last_id (receive sj sse_ping s) = rd_last_id s"
    by (simp add: receive_def sse_ping_def sse_event_of_def)
  then show ?thesis by (cases op) (simp_all add: receive_numbered takes_number_def)
qed

lemma last_id_run:
  "rd_last_id (fold (receive sj) (live_events sj ops t) s) =
     (if list_ex takes_number ops then decimal (unat (se_counter (fold (sse_step sj) ops t))) else rd_last_id s)"
proof (induction ops arbitrary: t s)
  case (Cons op ops)
  have "se_counter (fold (sse_step sj) ops u) = se_counter u" if "\<not> list_ex takes_number ops" for u
    using that by (induction ops arbitrary: u) (simp_all add: counter_step)
  then show ?case
    by (auto simp: Cons.IH last_id_step counter_step)
qed simp

lemma live_counts:
  "length (rd_events (fold (receive sj) (live_events sj ops t) s)) = length (rd_events s) + length ops"
  by (induction ops arbitrary: t s) (simp_all add: receive_def Let_def)

text \<open>A client knows where to resume. Whatever is sent, a client that reads the stream receives one
  event per message sent, and the id it will present when it reconnects parses to the number of the last
  event that took one; before any such event it presents none.\<close>

theorem sse_client_resumes:
  "let r = read_stream (sse_live sj ops (sse_with_buffer_size cap)) in
     length (rd_events r) = length ops \<and>
     parse_last_event_id (rd_last_id r) =
       (if list_ex takes_number ops
        then Some (current_event_id (fold (sse_step sj) ops (sse_with_buffer_size cap))) else None)"
proof -
  have "read_stream (sse_live sj ops t) = fold (receive sj) (live_events sj ops t) reader_start" for t
    unfolding sse_live_format
    using sse_events_received by blast
  then show ?thesis
    by (simp add: Let_def live_counts last_id_run reader_start_def current_event_id_def
        parse_last_event_id_def trim_decimal parse_u64_decimal)
      (simp add: trim_text_def trim_start_def trim_end_def parse_u64_def)
qed

section \<open>The posted messages\<close>

text \<open>Posts and takes over a handler; the second component collects what was taken, the third what was
  accepted for an answer.\<close>

datatype post_op = PostMessage "text" | TakeResponses

fun post_step ::
  "serde_json \<Rightarrow> post_op \<Rightarrow> sse_message_handler \<times> text list \<times> text list \<Rightarrow>
   sse_message_handler \<times> text list \<times> text list" where
  "post_step sj (PostMessage json) (q, taken, accepted) =
     (case handle_message sj json q of
        (x, q') \<Rightarrow>
          (q', taken, accepted @ (if x = Inr () \<and> mh_responses q' \<noteq> mh_responses q then [json] else [])))"
| "post_step sj TakeResponses (q, taken, accepted) =
     (case take_responses q of (rs, q') \<Rightarrow> (q', taken @ rs, accepted))"

text \<open>The messages the endpoint takes: one of the two notifications, well formed, or a request of a known
  method for which there is room.\<close>

definition post_accepted :: "serde_json \<Rightarrow> text \<Rightarrow> sse_message_handler \<Rightarrow> bool" where
  "post_accepted sj json q \<longleftrightarrow>
     (\<exists>r. parse_request_with_limit sj json (mh_max_message_size q) = Inr r \<and>
        (if rq_id r = IdMissing
         then is_supported_sse_notification (rq_method r) \<and> validate_supported_sse_notification r = Inr ()
         else is_supported_sse_post_method (rq_method r) \<and>
           \<not> is_supported_sse_notification (rq_method r) \<and>
           length (mh_responses q) < mh_max_pending q \<and>
           saturating_add (queued_bytes (mh_responses q)) (text_len (sanitize_replay_payload sj json)) \<le>
             mh_max_pending_bytes q))"

lemma queued_bytes_eq: "queued_bytes rs = min (sum_list (map text_len rs)) (2 ^ 64 - 1)"
proof -
  have "fold (\<lambda>response n. saturating_add n (text_len response)) rs a =
      min (a + sum_list (map text_len rs)) (2 ^ 64 - 1)" if "a \<le> 2 ^ 64 - 1" for a
    using that by (induction rs arbitrary: a) (auto simp: saturating_add_def)
  from this [of 0] show ?thesis by (simp add: queued_bytes_def)
qed

lemma handle_message_cases:
  obtains (refused) e where "handle_message sj json q = (Inl e, q)" and "\<not> post_accepted sj json q"
  | (noted) "handle_message sj json q = (Inr (), q)" and "post_accepted sj json q"
  | (queued) "handle_message sj json q =
        (Inr (), q\<lparr>mh_responses := mh_responses q @ [sanitize_replay_payload sj json]\<rparr>)"
      and "post_accepted sj json q" and "length (mh_responses q) < mh_max_pending q"
      and "saturating_add (queued_bytes (mh_responses q)) (text_len (sanitize_replay_payload sj json)) \<le>
        mh_max_pending_bytes q"
proof (cases "parse_request_with_limit sj json (mh_max_message_size q)")
  case (Inl e)
  show ?thesis by (rule refused) (simp_all add: handle_message_def post_accepted_def Inl)
next
  case (Inr r)
  have plain: "validate_supported_sse_notification r = Inr ()"
    if "\<not> is_supported_sse_notification (rq_method r)"
    using that by (simp add: validate_supported_sse_notification_def is_supported_sse_notification_def)
  have supported: "is_supported_sse_notification m \<Longrightarrow> is_supported_sse_post_method m" for m
    by (simp add: is_supported_sse_post_method_def)
  note simps = handle_message_def post_accepted_def Inr is_notification_def Let_def
  show ?thesis
  proof (cases "rq_id r = IdMissing")
    case True
    show ?thesis
    proof (cases "is_supported_sse_notification (rq_method r) \<and> validate_supported_sse_notification r = Inr ()")
      case known: True
      show ?thesis by (rule noted) (use True known in \<open>simp_all add: simps supported\<close>)
    next
      case False
      then have "\<exists>e. handle_message sj json q = (Inl e, q)"
        using True plain by (auto simp: simps split: sum.split)
      then obtain e where "handle_message sj json q = (Inl e, q)" ..
      then show ?thesis by (rule refused) (use True False in \<open>auto simp: simps\<close>)
    qed
  next
    case False
    let ?room = "length (mh_responses q) < mh_max_pending q \<and>
        saturating_add (queued_bytes (mh_responses q)) (text_len (sanitize_replay_payload sj json)) \<le>
          mh_max_pending_bytes q"
    show ?thesis
    proof (cases "is_supported_sse_post_method (rq_method r) \<and>
        \<not> is_supported_sse_notification (rq_method r) \<and> ?room")
      case room: True
      show ?thesis by (rule queued) (use False room plain in \<open>simp_all add: simps\<close>)
    next
      case no_room: False
      then have "\<exists>e. handle_message sj json q = (Inl e, q)"
        using False plain by (auto simp: simps not_less not_le split: sum.split)
      then obtain e where "handle_message sj json q = (Inl e, q)" ..
      then show ?thesis by (rule refused) (use False no_room in \<open>auto simp: simps\<close>)
    qed
  qed
qed

text \<open>The queue's invariant over posts and takes.\<close>

definition posts_kept :: "serde_json \<Rightarrow> nat \<Rightarrow> nat \<Rightarrow> sse_message_handler \<times> text list \<times> text list \<Rightarrow> bool" where
  "posts_kept sj n b s \<longleftrightarrow>
     (case s of (q, taken, accepted) \<Rightarrow>
        taken @ mh_responses q = map (sanitize_replay_payload sj) accepted \<and>
        mh_max_pending q = n \<and> mh_max_pending_bytes q = b \<and>
        length (mh_responses q) \<le> n \<and> queued_bytes (mh_responses q) \<le> b)"

lemma posts_kept_step:
  assumes "posts_kept sj n b s"
  shows "posts_kept sj n b (post_step sj op s)"
proof -
  obtain q taken accepted where s: "s = (q, taken, accepted)" by (cases s)
  show ?thesis
  proof (cases op)
    case (PostMessage json)
    show ?thesis
    proof (cases sj json q rule: handle_message_cases)
      case queued
      moreover have "queued_bytes (mh_responses q @ [x]) = saturating_add (queued_bytes (mh_responses q)) (text_len x)" for x
        by (simp add: queued_bytes_def)
      ultimately show ?thesis
        using assms by (simp add: s PostMessage posts_kept_def flip: append_assoc)
    qed (use assms in \<open>simp_all add: s PostMessage posts_kept_def\<close>)
  next
    case TakeResponses
    then show ?thesis using assms by (simp add: s posts_kept_def take_responses_def queued_bytes_def)
  qed
qed

text \<open>Posted messages queue in order and within bounds. Over any posts and takes the messages taken and
  still queued are exactly the accepted requests, sanitized, each once and in order of arrival; the queue
  never exceeds its two limits; and a message is accepted exactly when it is a well-formed notification
  of the two known ones, or a request of a known method for which there is room.\<close>

theorem sse_posts_queue:
  "let (q, taken, accepted) = fold (post_step sj) ops
         (with_max_pending_response_bytes b (with_max_pending_responses n message_handler_new), [], [])
   in taken @ mh_responses q = map (sanitize_replay_payload sj) accepted \<and>
      length (mh_responses q) \<le> n \<and> min (sum_list (map text_len (mh_responses q))) (2 ^ 64 - 1) \<le> b \<and>
      (fst (handle_message sj json q) = Inr () \<longleftrightarrow> post_accepted sj json q)"
proof -
  define s where "s = fold (post_step sj) ops
         (with_max_pending_response_bytes b (with_max_pending_responses n message_handler_new), [], [])"
  have "posts_kept sj n b (fold (post_step sj) ops s0)" if "posts_kept sj n b s0" for s0
    using that by (induction ops arbitrary: s0) (simp_all add: posts_kept_step)
  then have "posts_kept sj n b s"
    by (simp add: s_def posts_kept_def with_max_pending_response_bytes_def with_max_pending_responses_def
        message_handler_new_def queued_bytes_def)
  moreover have "fst (handle_message sj json q) = Inr () \<longleftrightarrow> post_accepted sj json q" for q
    by (cases sj json q rule: handle_message_cases) simp_all
  ultimately show ?thesis
    by (cases s) (simp add: posts_kept_def queued_bytes_eq flip: s_def)
qed

end
