(* ===== verification/Mcp_Extended.thy ===== *)
theory Mcp_Extended
  imports Mcp_Trackers Mcp_Dispatch
begin

text \<open>
  Structured content, notifications and the extended adapter (the last parts of
  \<open>src/src/compat/mcp2025.rs\<close>). The JSON a value serializes to follows its \<open>serde\<close> attributes. The
  broadcast channel is the list of what was sent and the number of receivers; a double that is not finite
  serializes to null.
\<close>

section \<open>Structured content\<close>

record annotations =
  an_audience :: "text list option"
  an_priority :: "u64 option"

definition annotations_new :: annotations where
  "annotations_new = \<lparr>an_audience = None, an_priority = None\<rparr>"

definition with_audience :: "text list \<Rightarrow> annotations \<Rightarrow> annotations" where
  "with_audience roles a = a\<lparr>an_audience := Some roles\<rparr>"

definition with_priority :: "u64 \<Rightarrow> annotations \<Rightarrow> annotations" where
  "with_priority p a = a\<lparr>an_priority := Some (f64_clamp p F64_ZERO F64_ONE)\<rparr>"

datatype content =
    TextContent "text"
  | ImageContent "text" "text"
  | ResourceRef "text"

record annotated_content =
  ac_content :: content
  ac_annotations :: "annotations option"

definition annotated_new :: "content \<Rightarrow> annotated_content" where
  "annotated_new c = \<lparr>ac_content = c, ac_annotations = None\<rparr>"

definition with_annotations :: "annotations \<Rightarrow> annotated_content \<Rightarrow> annotated_content" where
  "with_annotations an c = c\<lparr>ac_annotations := Some an\<rparr>"

record enhanced_tool_result =
  et_content :: "annotated_content list"
  et_is_error :: "bool option"

definition enhanced_success :: "annotated_content list \<Rightarrow> enhanced_tool_result" where
  "enhanced_success cs = \<lparr>et_content = cs, et_is_error = None\<rparr>"

definition enhanced_error :: "text \<Rightarrow> enhanced_tool_result" where
  "enhanced_error message =
     \<lparr>et_content = [\<lparr>ac_content = TextContent message,
        ac_annotations = Some (with_priority F64_ONE annotations_new)\<rparr>], et_is_error = Some True\<rparr>"

definition enhanced_text :: "text \<Rightarrow> enhanced_tool_result" where
  "enhanced_text t = enhanced_success [annotated_new (TextContent t)]"

definition f64_json :: "u64 \<Rightarrow> json" where
  "f64_json b = (if f64_is_finite b then JNumber (FloatBits b) else JNull)"

text \<open>A field that is skipped when absent.\<close>

definition optional_field :: "string \<Rightarrow> json option \<Rightarrow> (text \<times> json) list" where
  "optional_field k v = (case v of None \<Rightarrow> [] | Some x \<Rightarrow> [(ascii k, x)])"

definition annotations_json :: "annotations \<Rightarrow> json" where
  "annotations_json an =
     json_object
       (optional_field ''audience'' (map_option (\<lambda>roles. JArray (map JString roles)) (an_audience an)) @
        optional_field ''priority'' (map_option f64_json (an_priority an)))"

fun content_fields :: "content \<Rightarrow> (text \<times> json) list" where
  "content_fields (TextContent t) = [(ascii ''type'', JString (ascii ''text'')), (ascii ''text'', JString t)]"
| "content_fields (ImageContent data mime) =
     [(ascii ''type'', JString (ascii ''image'')), (ascii ''data'', JString data),
      (ascii ''mimeType'', JString mime)]"
| "content_fields (ResourceRef uri) = [(ascii ''type'', JString (ascii ''resource'')), (ascii ''uri'', JString uri)]"

definition annotated_content_json :: "annotated_content \<Rightarrow> json" where
  "annotated_content_json c =
     json_object (content_fields (ac_content c) @
       optional_field ''annotations'' (map_option annotations_json (ac_annotations c)))"

definition enhanced_result_json :: "enhanced_tool_result \<Rightarrow> json" where
  "enhanced_result_json r =
     json_object ((ascii ''content'', JArray (map annotated_content_json (et_content r))) #
       optional_field ''isError'' (map_option JBool (et_is_error r)))"

section \<open>Notifications\<close>

record cancellation_notification =
  cn_request_id :: request_id
  cn_reason :: "text option"

datatype notification =
    ToolsListChanged
  | ResourcesListChanged
  | PromptsListChanged
  | RootsListChanged
  | ProgressNotified progress_notification
  | CancelledNotified cancellation_notification

fun notification_method :: "notification \<Rightarrow> text" where
  "notification_method ToolsListChanged = ascii ''notifications/tools/list_changed''"
| "notification_method ResourcesListChanged = ascii ''notifications/resources/list_changed''"
| "notification_method PromptsListChanged = ascii ''notifications/prompts/list_changed''"
| "notification_method RootsListChanged = ascii ''notifications/roots/list_changed''"
| "notification_method (ProgressNotified p) = ascii ''notifications/progress''"
| "notification_method (CancelledNotified c) = ascii ''notifications/cancelled''"

fun notification_params :: "notification \<Rightarrow> json option" where
  "notification_params (ProgressNotified p) =
     Some (json_object
       ([(ascii ''progressToken'', JString (pn_progress_token p)), (ascii ''progress'', f64_json (pn_progress p))] @
        optional_field ''total'' (map_option (\<lambda>n. JNumber (PosInt n)) (pn_total p))))"
| "notification_params (CancelledNotified c) =
     Some (json_object
       ((ascii ''requestId'', id_json (cn_request_id c)) #
        optional_field ''reason'' (map_option JString (cn_reason c))))"
| "notification_params _ = None"

definition notification_json :: "notification \<Rightarrow> json" where
  "notification_json n =
     json_object
       ([(ascii ''jsonrpc'', JString (ascii ''2.0'')), (ascii ''method'', JString (notification_method n))] @
        optional_field ''params'' (notification_params n))"

definition to_json_rpc :: "serde_json \<Rightarrow> notification \<Rightarrow> text" where
  "to_json_rpc sj n = (case sj_print sj (SerValue (notification_json n)) of Inr t \<Rightarrow> t | Inl _ \<Rightarrow> [])"

record notification_manager =
  nm_sent :: "notification list"
  nm_receivers :: nat

definition notifications_new :: notification_manager where
  "notifications_new = \<lparr>nm_sent = [], nm_receivers = 0\<rparr>"

definition send_notification :: "notification \<Rightarrow> notification_manager \<Rightarrow> notification_manager" where
  "send_notification n m = m\<lparr>nm_sent := nm_sent m @ [n]\<rparr>"

definition subscribe_notifications :: "notification_manager \<Rightarrow> notification_manager" where
  "subscribe_notifications m = m\<lparr>nm_receivers := nm_receivers m + 1\<rparr>"

definition subscriber_count :: "notification_manager \<Rightarrow> nat" where
  "subscriber_count m = nm_receivers m"

definition notify_tools_changed :: "notification_manager \<Rightarrow> notification_manager" where
  "notify_tools_changed = send_notification ToolsListChanged"

definition notify_resources_changed :: "notification_manager \<Rightarrow> notification_manager" where
  "notify_resources_changed = send_notification ResourcesListChanged"

definition notify_prompts_changed :: "notification_manager \<Rightarrow> notification_manager" where
  "notify_prompts_changed = send_notification PromptsListChanged"

definition notify_roots_changed :: "notification_manager \<Rightarrow> notification_manager" where
  "notify_roots_changed = send_notification RootsListChanged"

definition notify_progress ::
  "text \<Rightarrow> u64 \<Rightarrow> u64 option \<Rightarrow> notification_manager \<Rightarrow> notification_manager" where
  "notify_progress token p n =
     send_notification (ProgressNotified
       \<lparr>pn_progress_token = token, pn_progress = f64_clamp p F64_ZERO F64_ONE, pn_total = n\<rparr>)"

definition notify_cancelled :: "request_id \<Rightarrow> text option \<Rightarrow> notification_manager \<Rightarrow> notification_manager" where
  "notify_cancelled i reason = send_notification (CancelledNotified \<lparr>cn_request_id = i, cn_reason = reason\<rparr>)"

section \<open>The extended adapter\<close>

record extended_adapter =
  xa_negotiator :: version_negotiator
  xa_version :: mcp_version
  xa_roots :: roots_registry
  xa_elicitation :: elicitation_handler
  xa_elicitation_timeout_secs :: u64
  xa_templates :: template_registry
  xa_subscriptions :: subscription_tracker
  xa_notifications :: notification_manager
  xa_cancellation :: cancellation_manager
  xa_progress :: progress_tracker
  xa_ping_timeout_secs :: u64

definition ping_config_default :: u64 where "ping_config_default = 30"

definition extended_new :: extended_adapter where
  "extended_new =
     \<lparr>xa_negotiator = negotiator_new, xa_version = version_default, xa_roots = roots_new,
      xa_elicitation = elicitation_new, xa_elicitation_timeout_secs = 300, xa_templates = [],
      xa_subscriptions = tracker_new, xa_notifications = notifications_new,
      xa_cancellation = manager_new, xa_progress = progress_new,
      xa_ping_timeout_secs = ping_config_default\<rparr>"

definition with_ping_timeout :: "u64 \<Rightarrow> extended_adapter \<Rightarrow> extended_adapter" where
  "with_ping_timeout secs x = x\<lparr>xa_ping_timeout_secs := secs\<rparr>"

definition with_elicitation_timeout :: "u64 \<Rightarrow> extended_adapter \<Rightarrow> extended_adapter" where
  "with_elicitation_timeout secs x =
     x\<lparr>xa_elicitation := elicitation_new, xa_elicitation_timeout_secs := secs\<rparr>"

definition set_negotiated_version :: "mcp_version \<Rightarrow> extended_adapter \<Rightarrow> extended_adapter" where
  "set_negotiated_version v x = x\<lparr>xa_version := v\<rparr>"

definition extended_negotiate :: "text \<Rightarrow> extended_adapter \<Rightarrow> mcp_version \<times> extended_adapter" where
  "extended_negotiate requested x =
     (let v = negotiate_version (xa_negotiator x) requested in (v, x\<lparr>xa_version := v\<rparr>))"

definition extended_supports_roots :: "extended_adapter \<Rightarrow> bool" where
  "extended_supports_roots x = supports_roots (xa_version x)"

definition extended_supports_elicitation :: "extended_adapter \<Rightarrow> bool" where
  "extended_supports_elicitation x = supports_elicitation (xa_version x)"

definition extended_supports_progress :: "extended_adapter \<Rightarrow> bool" where
  "extended_supports_progress x = supports_progress (xa_version x)"

definition extended_supports_structured :: "extended_adapter \<Rightarrow> bool" where
  "extended_supports_structured x = supports_structured_output (xa_version x)"

definition build_capabilities :: "extended_adapter \<Rightarrow> json" where
  "build_capabilities x =
     (let version = xa_version x;
          capabilities = jm_of_list
            [(ascii ''tools'', list_changed),
             (ascii ''resources'', json_object
                [(ascii ''subscribe'', JBool True), (ascii ''listChanged'', JBool True)]),
             (ascii ''prompts'', list_changed),
             (ascii ''logging'', JObject [])];
          capabilities = (if supports_roots version
            then jm_insert (ascii ''roots'') list_changed capabilities else capabilities);
          capabilities = (if supports_elicitation version
            then jm_insert (ascii ''elicitation'') (JObject []) capabilities else capabilities)
      in JObject capabilities)"

definition is_method_available :: "text \<Rightarrow> extended_adapter \<Rightarrow> bool" where
  "is_method_available m x =
     (if m = ascii ''roots/list'' then supports_roots (xa_version x)
      else if m = ascii ''elicitation/create'' then supports_elicitation (xa_version x)
      else True)"

definition create_cancellation_token :: "request_id \<Rightarrow> extended_adapter \<Rightarrow> nat \<times> extended_adapter" where
  "create_cancellation_token i x =
     (let (t, c) = create_token i (xa_cancellation x) in (t, x\<lparr>xa_cancellation := c\<rparr>))"

definition start_progress :: "text \<Rightarrow> u64 option \<Rightarrow> extended_adapter \<Rightarrow> extended_adapter" where
  "start_progress token n x = x\<lparr>xa_progress := progress_start token n (xa_progress x)\<rparr>"

definition update_progress :: "text \<Rightarrow> u64 \<Rightarrow> extended_adapter \<Rightarrow> bool \<times> extended_adapter" where
  "update_progress token p x =
     (let (known, tr) = progress_update token p (xa_progress x) in (known, x\<lparr>xa_progress := tr\<rparr>))"

definition complete_progress :: "text \<Rightarrow> extended_adapter \<Rightarrow> bool \<times> extended_adapter" where
  "complete_progress token x =
     (let (known, tr) = progress_complete token (xa_progress x) in (known, x\<lparr>xa_progress := tr\<rparr>))"

definition extended_notify ::
  "(notification_manager \<Rightarrow> notification_manager) \<Rightarrow> extended_adapter \<Rightarrow> extended_adapter" where
  "extended_notify send x = x\<lparr>xa_notifications := send (xa_notifications x)\<rparr>"

section \<open>Capabilities and methods agree\<close>

text \<open>The extended adapter advertises what it serves. Whatever was negotiated, the capability object
  offers roots exactly when \<open>roots/list\<close> is available and elicitation exactly when \<open>elicitation/create\<close>
  is, every other method is available, and both answers follow the version negotiated last.\<close>

theorem extended_capabilities_honest:
  "let (v, x') = extended_negotiate requested x in
     v = (case version_from_str requested of
            Some w \<Rightarrow> if w \<le> xa_negotiator x then w else version_default | None \<Rightarrow> version_default) \<and>
     (json_get (build_capabilities x') (ascii ''roots'') \<noteq> None) = is_method_available (ascii ''roots/list'') x' \<and>
     (json_get (build_capabilities x') (ascii ''elicitation'') \<noteq> None) =
       is_method_available (ascii ''elicitation/create'') x' \<and>
     is_method_available (ascii ''roots/list'') x' = (v \<in> {V2025_03_26, V2025_06_18}) \<and>
     is_method_available (ascii ''elicitation/create'') x' = (v = V2025_06_18) \<and>
     {m. \<not> is_method_available m x'} \<subseteq> {ascii ''roots/list'', ascii ''elicitation/create''}"
proof -
  have roots: "supports_roots v \<longleftrightarrow> v \<in> {V2025_03_26, V2025_06_18}" for v
    by (cases v) (simp_all add: supports_roots_def less_eq_mcp_version_def)
  have elicit: "supports_elicitation v \<longleftrightarrow> v = V2025_06_18" for v
    by (cases v) (simp_all add: supports_elicitation_def less_eq_mcp_version_def)
  have caps: "(json_get (build_capabilities y) (ascii ''roots'') \<noteq> None) = supports_roots (xa_version y)"
    "(json_get (build_capabilities y) (ascii ''elicitation'') \<noteq> None) = supports_elicitation (xa_version y)" for y
    by (simp_all add: build_capabilities_def json_get_def Let_def jm_of_list_get)
  have version: "negotiate_version latest requested =
      (case version_from_str requested of
         Some w \<Rightarrow> if w \<le> latest then w else version_default | None \<Rightarrow> version_default)" for latest
    by (simp add: negotiate_version_def try_negotiate_def split: option.split)
  show ?thesis
    unfolding extended_negotiate_def Let_def prod.case caps
    by (auto simp: version is_method_available_def roots elicit split: if_splits)
qed

section \<open>Notifications on the wire\<close>

lemma notification_parsed:
  assumes "reads_back sj t (notification_json n)" and "text_len t \<le> limit"
  shows "parse_request_with_limit sj t limit =
    Inr (request_notification (notification_method n) (notification_params n))"
proof -
  let ?r = "request_notification (notification_method n) (notification_params n)"
  have "method_ok (notification_method n)"
    by (cases n) (simp_all add: method_ok_def char_is_control_def starts_with_iff ascii_def)
  moreover have "pred_option is_container (notification_params n)"
    by (cases n) (simp_all add: is_container_def json_object_def)
  moreover obtain obj where "notification_json n = JObject obj"
    "known_fields obj REQUEST_ENVELOPE_FIELDS"
    "jm_get obj (ascii ''jsonrpc'') = Some (JString JSONRPC_VERSION)"
    "jm_get obj (ascii ''method'') = Some (JString (notification_method n))"
    "jm_get obj (ascii ''params'') = notification_params n" "jm_get obj (ascii ''id'') = None"
    by (cases "notification_params n")
      (simp_all add: notification_json_def json_object_def known_fields_def jm_of_list_keys jm_of_list_get
        REQUEST_ENVELOPE_FIELDS_def JSONRPC_VERSION_def optional_field_def)
  ultimately have "parse_request_value (notification_json n) = Inr ?r"
    unfolding parse_request_value_ok by (simp add: request_notification_def request_new_def id_ok_def)
  with assms show ?thesis
    by (simp add: parse_request_with_limit_def reads_back_def no_duplicates_ok [THEN iffD2])
qed

lemma cancelled_params_sent:
  assumes "cn_request_id c \<notin> {IdNull, IdMissing}" and "id_ok (cn_request_id c)"
  shows "cancelled_params (request_notification m (notification_params (CancelledNotified c))) =
    Inr (cn_request_id c, map_option sanitize_text (cn_reason c))"
proof -
  have read: "try_from_json_value (id_json i) = Inr i" if "i \<notin> {IdNull, IdMissing}" "id_ok i" for i
    using that unfolding try_from_json_value_def parse_request_id_value_ok by auto
  obtain params where params: "notification_params (CancelledNotified c) = Some (JObject params)"
    "fst ` set params \<subseteq> {ascii ''requestId'', ascii ''reason''}"
    "jm_get params (ascii ''requestId'') = Some (id_json (cn_request_id c))"
    "jm_get params (ascii ''reason'') = map_option JString (cn_reason c)"
    by (cases "cn_reason c") (simp_all add: json_object_def jm_of_list_keys jm_of_list_get optional_field_def)
  have "\<not> list_ex (\<lambda>(key, v). key \<noteq> ascii ''requestId'' \<and> key \<noteq> ascii ''reason'') params"
    using params(2) by (auto simp: list_ex_iff)
  moreover have "cancelled_id params = Inr (cn_request_id c)"
    using assms read [of "cn_request_id c"]
    by (cases "cn_request_id c") (simp_all add: cancelled_id_def params ok_or_def)
  moreover have "cancelled_reason params = Inr (map_option sanitize_text (cn_reason c))"
    by (cases "cn_reason c") (simp_all add: cancelled_reason_def params)
  ultimately show ?thesis
    using params(1) by (simp add: cancelled_params_def request_notification_def request_new_def as_object_def ok_or_def)
qed

text \<open>Cancellation reaches the request. When one side announces through its notification manager that a
  request is cancelled, the other side's adapter, given the text of the announcement, silently cancels
  exactly the token of that request, with the reason redacted, and changes nothing else.\<close>

theorem announced_cancellation_cancels:
  assumes "cn_request_id c \<notin> {IdNull, IdMissing}" and "id_ok (cn_request_id c)"
    and "sj_print (ml_serde lib) (SerValue (notification_json (CancelledNotified c))) = Inr t"
    and "reads_back (ml_serde lib) t (notification_json (CancelledNotified c))"
    and "text_len t \<le> ad_max_request_size a"
  shows "handle_request lib ro now (to_json_rpc (ml_serde lib) (CancelledNotified c)) a =
    (Inr None, a\<lparr>ad_cancellation :=
       snd (manager_cancel (cn_request_id c) (map_option sanitize_text (cn_reason c)) (ad_cancellation a))\<rparr>)"
proof -
  let ?r = "request_notification (ascii ''notifications/cancelled'') (notification_params (CancelledNotified c))"
  have "adapter_parse_request lib (to_json_rpc (ml_serde lib) (CancelledNotified c)) a = Inr ?r"
    using notification_parsed [OF assms(4,5)] by (simp add: adapter_parse_request_def to_json_rpc_def assms(3))
  moreover have r: "rq_method ?r = ascii ''notifications/cancelled''" "rq_id ?r = IdMissing"
    by (simp_all add: request_notification_def request_new_def)
  moreover have "handle_cancelled now ?r a =
     (Inr None, a\<lparr>ad_cancellation :=
       snd (manager_cancel (cn_request_id c) (map_option sanitize_text (cn_reason c)) (ad_cancellation a))\<rparr>)"
    using cancelled_params_sent [OF assms(1,2)] r
    by (simp add: handle_cancelled_def then_do_def check_with_def require_notification_method_def
        is_notification_def)
  ultimately show ?thesis
    by (simp add: handle_request_def handle_parsed_def dispatch_method_def is_notification_def Let_def
        is_remote_shutdown_method_def is_notification_only_method_def one_of_def
        is_server_to_client_request_method_def)
qed

definition sample_cancellation :: cancellation_notification where
  "sample_cancellation = \<lparr>cn_request_id = IdNumber 7, cn_reason = Some (ascii ''late'')\<rparr>"

definition sample_announcement :: "text" where
  "sample_announcement =
     ascii ''{\"jsonrpc\":\"2.0\",\"method\":\"notifications/cancelled\",\"params\":{\"reason\":\"late\",\"requestId\":7}}''"

definition wire_library :: mcp_library where
  "wire_library =
     \<lparr>ml_serde = one_document sample_announcement (SerValue (notification_json (CancelledNotified sample_cancellation))),
      ml_args = \<lparr>ax_to_vec = (\<lambda>_. Inl []), ax_as_f64 = (\<lambda>_. None)\<rparr>, ml_from_slice = (\<lambda>_. None), ml_lossy = (\<lambda>_. []), ml_version = ascii ''0.1.0''\<rparr>"

lemma announced_cancellation_cancels_witness:
  "handle_request wire_library router_new 0
     (to_json_rpc (ml_serde wire_library) (CancelledNotified sample_cancellation))
     (adapter_new wire_library ()) =
   (Inr None, (adapter_new wire_library ())\<lparr>ad_cancellation :=
      snd (manager_cancel (cn_request_id sample_cancellation)
        (map_option sanitize_text (cn_reason sample_cancellation))
        (ad_cancellation (adapter_new wire_library ())))\<rparr>)"
proof (rule announced_cancellation_cancels)
  show "cn_request_id sample_cancellation \<notin> {IdNull, IdMissing}" "id_ok (cn_request_id sample_cancellation)"
    by (simp_all add: sample_cancellation_def id_ok_def)
  show "sj_print (ml_serde wire_library) (SerValue (notification_json (CancelledNotified sample_cancellation))) =
      Inr sample_announcement"
    by (simp add: wire_library_def one_document_def)
  show "reads_back (ml_serde wire_library) sample_announcement
      (notification_json (CancelledNotified sample_cancellation))"
    using one_document_reads_back [of sample_announcement
      "SerValue (notification_json (CancelledNotified sample_cancellation))"]
    by (simp add: wire_library_def)
  have "text_len sample_announcement \<le> 100" by code_simp
  then show "text_len sample_announcement \<le> ad_max_request_size (adapter_new wire_library ())"
    by (simp add: adapter_new_def DEFAULT_MAX_JSONRPC_REQUEST_SIZE_def)
qed

end
