(* ===== verification/Schema_Convert.thy ===== *)
theory Schema_Convert
  imports Json
begin

text \<open>
  The schema converter (\<open>src/src/cli/convert.rs\<close>): MCP tool descriptions, the binary DCP schema with its
  reader and writer, and the conversions in both directions. The reader keeps the source's offsets. The
  hash of a tool name is a parameter; an error is a constructor in place of its English text.
\<close>

section \<open>Data\<close>

record mcp_property =
  mp_prop_type :: "text"
  mp_description :: "text"
  mp_enum_values :: "text list"
  mp_default :: "json option"

record mcp_input_schema =
  mi_schema_type :: "text"
  mi_properties :: "(text, mcp_property) hmap"
  mi_required :: "text list"

record mcp_schema =
  ms_name :: "text"
  ms_description :: "text"
  ms_input_schema :: mcp_input_schema

datatype field_type = FtNull | FtBool | FtI32 | FtI64 | FtF64 | FtString | FtBytes | FtArray | FtObject

fun field_type_code :: "field_type \<Rightarrow> u8" where
  "field_type_code FtNull = 0"
| "field_type_code FtBool = 1"
| "field_type_code FtI32 = 2"
| "field_type_code FtI64 = 3"
| "field_type_code FtF64 = 4"
| "field_type_code FtString = 5"
| "field_type_code FtBytes = 6"
| "field_type_code FtArray = 7"
| "field_type_code FtObject = 8"

record schema_field =
  sf_name :: "text"
  sf_type :: field_type
  sf_offset :: u16
  sf_size :: u16

record binary_schema =
  bs_name :: "text"
  bs_tool_id :: u16
  bs_description :: "text"
  bs_fields :: "schema_field list"
  bs_required_mask :: u64

fun default_size :: "field_type \<Rightarrow> u16" where
  "default_size FtNull = 0"
| "default_size FtBool = 1"
| "default_size FtI32 = 4"
| "default_size FtI64 = 8"
| "default_size FtF64 = 8"
| "default_size FtString = 8"
| "default_size FtBytes = 8"
| "default_size FtArray = 8"
| "default_size FtObject = 8"

definition from_mcp_type :: "text \<Rightarrow> field_type" where
  "from_mcp_type t =
     (if t = ascii ''boolean'' then FtBool
      else if t = ascii ''integer'' then FtI64
      else if t = ascii ''number'' then FtF64
      else if t = ascii ''string'' then FtString
      else if t = ascii ''array'' then FtArray
      else if t = ascii ''object'' then FtObject
      else if t = ascii ''null'' then FtNull
      else FtString)"

section \<open>The binary form\<close>

definition field_to_bytes :: "schema_field \<Rightarrow> bytes" where
  "field_to_bytes f =
     of_nat (text_len (sf_name f)) # utf8_bytes (sf_name f) @ [field_type_code (sf_type f)] @
     le_bytes 2 (sf_offset f) @ le_bytes 2 (sf_size f)"

definition schema_to_bytes :: "binary_schema \<Rightarrow> bytes" where
  "schema_to_bytes s =
     [0xDC, 0x53] @ [1] @ le_bytes 2 (bs_tool_id s) @ [of_nat (text_len (bs_name s))] @
     le_bytes 2 (of_nat (text_len (bs_description s)) :: u16) @ [of_nat (length (bs_fields s))] @
     le_bytes 8 (bs_required_mask s) @ utf8_bytes (bs_name s) @ utf8_bytes (bs_description s) @
     concat (map field_to_bytes (bs_fields s))"

datatype schema_error =
    ShortSchemaHeader
  | BadSchemaMagic
  | BadSchemaVersion u8
  | ShortSchemaName
  | BadNameEncoding
  | ShortSchemaDescription
  | BadDescriptionEncoding
  | ShortField
  | ShortFieldData
  | BadFieldNameEncoding
  | BadFieldType u8
  | TooManyFields

definition field_type_from :: "u8 \<Rightarrow> field_type option" where
  "field_type_from b =
     List.find (\<lambda>t. field_type_code t = b)
       [FtNull, FtBool, FtI32, FtI64, FtF64, FtString, FtBytes, FtArray, FtObject]"

text \<open>One round of the loop over the fields: the field at an offset and the offset behind it.\<close>

definition read_field :: "bytes \<Rightarrow> nat \<Rightarrow> schema_error + schema_field \<times> nat" where
  "read_field bs off =
     (if off \<ge> length bs then Inl ShortField
      else
        let field_name_len = unat (bs ! off); off = off + 1
        in if off + field_name_len + 5 > length bs then Inl ShortFieldData
           else case from_utf8 (slice off (off + field_name_len) bs) of
               None \<Rightarrow> Inl BadFieldNameEncoding
             | Some field_name \<Rightarrow>
                 let off = off + field_name_len
                 in case field_type_from (bs ! off) of
                      None \<Rightarrow> Inl (BadFieldType (bs ! off))
                    | Some ty \<Rightarrow>
                        let off = off + 1;
                            field_offset = le_word (slice off (off + 2) bs); off = off + 2;
                            field_size = le_word (slice off (off + 2) bs); off = off + 2
                        in Inr (\<lparr>sf_name = field_name, sf_type = ty, sf_offset = field_offset,
                                  sf_size = field_size\<rparr>, off))"

definition schema_from_bytes :: "bytes \<Rightarrow> schema_error + binary_schema" where
  "schema_from_bytes bs =
     (if length bs < 17 then Inl ShortSchemaHeader
      else if bs ! 0 \<noteq> 0xDC \<or> bs ! 1 \<noteq> 0x53 then Inl BadSchemaMagic
      else if bs ! 2 \<noteq> 1 then Inl (BadSchemaVersion (bs ! 2))
      else
        let tool_id = le_word (slice 3 5 bs); name_len = unat (bs ! 5);
            desc_len = unat (le_word (slice 6 8 bs) :: u16); field_count = unat (bs ! 8);
            required_mask = le_word (slice 9 17 bs); off = 17
        in if off + name_len > length bs then Inl ShortSchemaName
           else case from_utf8 (slice off (off + name_len) bs) of
               None \<Rightarrow> Inl BadNameEncoding
             | Some name \<Rightarrow>
                 let off = off + name_len
                 in if off + desc_len > length bs then Inl ShortSchemaDescription
                    else case from_utf8 (slice off (off + desc_len) bs) of
                        None \<Rightarrow> Inl BadDescriptionEncoding
                      | Some description \<Rightarrow>
                          let off = off + desc_len
                          in bind_result (read_many read_field field_count bs off) (\<lambda>(fs, off).
                               Inr \<lparr>bs_name = name, bs_tool_id = tool_id, bs_description = description,
                                    bs_fields = fs, bs_required_mask = required_mask\<rparr>))"

section \<open>Conversion\<close>

text \<open>The loop over the sorted property names, with the fields so far, the offset and the mask.\<close>

fun convert_fields ::
  "mcp_input_schema \<Rightarrow> nat \<Rightarrow> text list \<Rightarrow> schema_field list \<Rightarrow> u16 \<Rightarrow> u64 \<Rightarrow>
   schema_error + schema_field list \<times> u64" where
  "convert_fields input idx [] fs current_offset required_mask = Inr (fs, required_mask)"
| "convert_fields input idx (name # names) fs current_offset required_mask =
     (if idx \<ge> 64 then Inl TooManyFields
      else
        let prop = the (hm_get (mi_properties input) name);
            ty = from_mcp_type (mp_prop_type prop); n = default_size ty
        in convert_fields input (Suc idx) names
             (fs @ [\<lparr>sf_name = name, sf_type = ty, sf_offset = current_offset, sf_size = n\<rparr>])
             (current_offset + n)
             (if name \<in> set (mi_required input)
              then required_mask OR push_bit idx 1 else required_mask))"

definition convert_mcp_to_dcp :: "(bytes \<Rightarrow> bytes) \<Rightarrow> mcp_schema \<Rightarrow> schema_error + binary_schema" where
  "convert_mcp_to_dcp hash mcp =
     bind_result
       (convert_fields (ms_input_schema mcp) 0 (sort (map fst (mi_properties (ms_input_schema mcp)))) [] 0 0)
       (\<lambda>(fs, required_mask).
         Inr \<lparr>bs_name = ms_name mcp, bs_tool_id = le_word (take 2 (hash (utf8_bytes (ms_name mcp)))),
              bs_description = ms_description mcp, bs_fields = fs, bs_required_mask = required_mask\<rparr>)"

fun mcp_type_name :: "field_type \<Rightarrow> text" where
  "mcp_type_name FtNull = ascii ''null''"
| "mcp_type_name FtBool = ascii ''boolean''"
| "mcp_type_name FtI32 = ascii ''integer''"
| "mcp_type_name FtI64 = ascii ''integer''"
| "mcp_type_name FtF64 = ascii ''number''"
| "mcp_type_name FtString = ascii ''string''"
| "mcp_type_name FtBytes = ascii ''string''"
| "mcp_type_name FtArray = ascii ''array''"
| "mcp_type_name FtObject = ascii ''object''"

definition plain_property :: "text \<Rightarrow> mcp_property" where
  "plain_property t = \<lparr>mp_prop_type = t, mp_description = [], mp_enum_values = [], mp_default = None\<rparr>"

text \<open>\<open>1 << idx\<close> on a \<open>u64\<close>: the shift count wraps at 64.\<close>

definition required_bit :: "u64 \<Rightarrow> nat \<Rightarrow> bool" where
  "required_bit m idx \<longleftrightarrow> m AND push_bit (idx mod 64) 1 \<noteq> 0"

definition convert_dcp_to_mcp :: "binary_schema \<Rightarrow> mcp_schema" where
  "convert_dcp_to_mcp dcp =
     \<lparr>ms_name = bs_name dcp, ms_description = bs_description dcp,
      ms_input_schema =
        \<lparr>mi_schema_type = ascii ''object'',
         mi_properties = fold (\<lambda>f. hm_insert (sf_name f) (plain_property (mcp_type_name (sf_type f))))
           (bs_fields dcp) [],
         mi_required = map (\<lambda>(idx, f). sf_name f)
           (filter (\<lambda>(idx, f). required_bit (bs_required_mask dcp) idx)
             (enumerate 0 (bs_fields dcp)))\<rparr>\<rparr>"

section \<open>The reader accepts exactly what the writer writes\<close>

definition field_ok :: "schema_field \<Rightarrow> bool" where
  "field_ok f \<longleftrightarrow> (\<forall>c \<in> set (sf_name f). is_scalar c) \<and> text_len (sf_name f) < 256"

definition schema_ok :: "binary_schema \<Rightarrow> bool" where
  "schema_ok s \<longleftrightarrow>
     (\<forall>c \<in> set (bs_name s). is_scalar c) \<and> text_len (bs_name s) < 256 \<and>
     (\<forall>c \<in> set (bs_description s). is_scalar c) \<and> text_len (bs_description s) < 65536 \<and>
     length (bs_fields s) < 256 \<and> list_all field_ok (bs_fields s)"

lemma field_type_from_iff: "field_type_from b = Some t \<longleftrightarrow> b = field_type_code t"
  by (cases t) (auto simp: field_type_from_def)

lemma unat_u8_of_nat: "n < 256 \<Longrightarrow> unat (of_nat n :: u8) = n"
  by (simp add: unat_of_nat)

lemma slice_behind: "length p = off \<Longrightarrow> slice (off + a) (off + b) (p @ d) = slice a b d"
  by (simp add: slice_def)

lemma slice_two: "slice 0 2 (a # b # r) = [a, b]"
  by (simp add: slice_def)

lemma le_bytes_two: "le_bytes 2 (le_word [a, b] :: u16) = [a, b]"
  by (rule le_bytes_le_word) simp_all

lemma text_at:
  assumes "n \<le> length d"
  shows "from_utf8 (slice 0 n d) = Some t \<longleftrightarrow>
    (\<forall>c \<in> set t. is_scalar c) \<and> text_len t = n \<and> (\<exists>rest. d = utf8_bytes t @ rest)"
proof
  assume "from_utf8 (slice 0 n d) = Some t"
  then have t: "\<forall>c \<in> set t. is_scalar c" "take n d = utf8_bytes t" by (simp_all add: from_utf8_iff slice_def)
  have "text_len t = n" using assms by (simp flip: length_utf8_bytes t(2))
  moreover have "d = utf8_bytes t @ drop n d" by (simp flip: t(2))
  ultimately show "(\<forall>c \<in> set t. is_scalar c) \<and> text_len t = n \<and> (\<exists>rest. d = utf8_bytes t @ rest)"
    using t(1) by blast
qed (auto simp: from_utf8_iff slice_def length_utf8_bytes)

lemma read_field_Cons:
  assumes "length p = off"
  shows "read_field (p @ b # q) off =
    (let n = unat b
     in if length q < n + 5 then Inl ShortFieldData
        else case from_utf8 (slice 0 n q) of
            None \<Rightarrow> Inl BadFieldNameEncoding
          | Some name \<Rightarrow>
              (case field_type_from (q ! n) of
                 None \<Rightarrow> Inl (BadFieldType (q ! n))
               | Some ty \<Rightarrow>
                   Inr (\<lparr>sf_name = name, sf_type = ty, sf_offset = le_word (slice (n + 1) (n + 3) q),
                          sf_size = le_word (slice (n + 3) (n + 5) q)\<rparr>, off + n + 6)))"
proof -
  have at: "(p @ b # q) ! Suc (off + k) = q ! k" for k
    using assms by (simp add: nth_append)
  have sl: "slice (Suc (off + i)) (Suc (off + j)) (p @ b # q) = slice i j q" for i j
    using slice_behind [of "p @ [b]" "Suc off" i j q] assms by simp
  show ?thesis
    using sl [of 0 "unat b"] sl [of "unat b + 1" "unat b + 3"] sl [of "unat b + 3" "unat b + 5"] at [of "unat b"]
    by (simp add: read_field_def Let_def assms [symmetric] nth_append numeral_eq_Suc split: option.split)
qed

lemma read_field_behind:
  assumes "length p = off"
  shows "read_field (p @ d) off = Inr (x, off') \<longleftrightarrow>
    field_ok x \<and> (\<exists>rest. d = field_to_bytes x @ rest) \<and> off' = off + length (field_to_bytes x)"
proof (cases d)
  case Nil
  then show ?thesis using assms by (simp add: read_field_def field_to_bytes_def)
next
  case (Cons b q)
  let ?n = "unat b"
  show ?thesis
  proof
    assume "read_field (p @ d) off = Inr (x, off')"
    then obtain name ty where n: "?n + 5 \<le> length q" and name: "from_utf8 (slice 0 ?n q) = Some name"
      and ty: "field_type_from (q ! ?n) = Some ty"
      and x: "x = \<lparr>sf_name = name, sf_type = ty, sf_offset = le_word (slice (?n + 1) (?n + 3) q),
        sf_size = le_word (slice (?n + 3) (?n + 5) q)\<rparr>" and off': "off' = off + ?n + 6"
      by (auto simp: Cons read_field_Cons [OF assms] Let_def split: if_splits option.splits)
    from name n obtain rest where nm: "\<forall>c \<in> set name. is_scalar c" "text_len name = ?n" "q = utf8_bytes name @ rest"
      by (auto simp: text_at)
    then have "5 \<le> length rest" using n by (simp add: length_utf8_bytes)
    then obtain c o1 o2 s1 s2 r where rest: "rest = c # o1 # o2 # s1 # s2 # r"
      by (auto simp: numeral_eq_Suc Suc_le_length_iff)
    have "?n < 256" using unsigned_less [of b] by simp
    moreover have "slice (?n + 1) (?n + 3) q = [o1, o2]" "slice (?n + 3) (?n + 5) q = [s1, s2]" "q ! ?n = c"
      using nm rest by (simp_all add: slice_def length_utf8_bytes nth_append flip: nm(2))
    moreover from this nm rest ty have "d = field_to_bytes x @ r"
      by (simp add: x field_to_bytes_def Cons field_type_from_iff le_bytes_two del: le_bytes.simps le_word.simps)
    ultimately show "field_ok x \<and> (\<exists>rest. d = field_to_bytes x @ rest) \<and> off' = off + length (field_to_bytes x)"
      using nm off' by (auto simp: x field_ok_def field_to_bytes_def length_utf8_bytes simp del: le_bytes.simps le_word.simps)
  next
    assume r: "field_ok x \<and> (\<exists>rest. d = field_to_bytes x @ rest) \<and> off' = off + length (field_to_bytes x)"
    then obtain rest where q: "q = utf8_bytes (sf_name x) @ [field_type_code (sf_type x)] @
        le_bytes 2 (sf_offset x) @ le_bytes 2 (sf_size x) @ rest"
      and b: "?n = text_len (sf_name x)" and sc: "\<forall>c \<in> set (sf_name x). is_scalar c"
      by (auto simp: field_ok_def field_to_bytes_def Cons unat_u8_of_nat)
    have "?n + 5 \<le> length q" by (simp add: q b length_utf8_bytes)
    moreover have "from_utf8 (slice 0 ?n q) = Some (sf_name x)" "field_type_from (q ! ?n) = Some (sf_type x)"
      "slice (?n + 1) (?n + 3) q = le_bytes 2 (sf_offset x)" "slice (?n + 3) (?n + 5) q = le_bytes 2 (sf_size x)"
      using sc by (simp_all add: from_utf8_iff q b length_utf8_bytes field_type_from_iff nth_append slice_def
          del: le_bytes.simps)
    moreover have "off' = off + ?n + 6" using r by (simp add: field_to_bytes_def b length_utf8_bytes)
    ultimately show "read_field (p @ d) off = Inr (x, off')"
      by (simp add: Cons read_field_Cons [OF assms] Let_def del: le_bytes.simps)
  qed
qed

interpretation schema_fields: record_reader field_to_bytes read_field field_ok
proof
  fix off off' :: nat and bs :: bytes and x
  assume "off \<le> length bs"
  then show "read_field bs off = Inr (x, off') \<longleftrightarrow>
    field_ok x \<and> (\<exists>rest. drop off bs = field_to_bytes x @ rest) \<and> off' = off + length (field_to_bytes x)"
    using read_field_behind [of "take off bs" off "drop off bs"] by simp
qed

lemma schema_header:
  assumes "length bs \<ge> 17"
  shows "bs = [bs ! 0, bs ! 1, bs ! 2] @ slice 3 5 bs @ [bs ! 5] @ slice 6 8 bs @ [bs ! 8] @ slice 9 17 bs @ drop 17 bs"
proof -
  have "drop 17 bs = slice 17 (length bs) bs" "slice 0 (length bs) bs = bs" by (simp_all add: slice_def)
  moreover have "bs \<noteq> []" "Suc 0 \<le> length bs" using assms by auto
  ultimately show ?thesis using assms by (simp add: slice_build)
qed

lemma text_at_offset:
  assumes "off + n \<le> length bs"
  shows "from_utf8 (slice off (off + n) bs) = Some t \<longleftrightarrow>
    (\<forall>c \<in> set t. is_scalar c) \<and> text_len t = n \<and> (\<exists>rest. drop off bs = utf8_bytes t @ rest)"
  using text_at [of n "drop off bs" t] assms by (simp add: slice_def)

lemma drop_behind: "drop off bs = xs @ rest \<Longrightarrow> drop (off + length xs) bs = rest"
  by (metis add.commute append_eq_conv_conj drop_drop)

lemma schema_read:
  "schema_from_bytes bs = Inr s \<longleftrightarrow>
    17 \<le> length bs \<and> [bs ! 0, bs ! 1, bs ! 2] = [0xDC, 0x53, 1] \<and>
    bs_tool_id s = le_word (slice 3 5 bs) \<and> bs_required_mask s = le_word (slice 9 17 bs) \<and>
    text_len (bs_name s) = unat (bs ! 5) \<and> (\<forall>c \<in> set (bs_name s). is_scalar c) \<and>
    text_len (bs_description s) = unat (le_word (slice 6 8 bs) :: u16) \<and>
    (\<forall>c \<in> set (bs_description s). is_scalar c) \<and>
    length (bs_fields s) = unat (bs ! 8) \<and> list_all field_ok (bs_fields s) \<and>
    (\<exists>rest. drop 17 bs = utf8_bytes (bs_name s) @ utf8_bytes (bs_description s) @
       concat (map field_to_bytes (bs_fields s)) @ rest)" (is "_ = ?r")
proof
  let ?n = "unat (bs ! 5)" and ?m = "unat (le_word (slice 6 8 bs) :: u16)"
  assume "schema_from_bytes bs = Inr s"
  then obtain name description fs off where
    h: "17 \<le> length bs" "[bs ! 0, bs ! 1, bs ! 2] = [0xDC, 0x53, 1]"
    and name: "17 + ?n \<le> length bs" "from_utf8 (slice 17 (17 + ?n) bs) = Some name"
    and desc: "17 + ?n + ?m \<le> length bs" "from_utf8 (slice (17 + ?n) (17 + ?n + ?m) bs) = Some description"
    and fs: "read_many read_field (unat (bs ! 8)) bs (17 + ?n + ?m) = Inr (fs, off)"
    and s: "s = \<lparr>bs_name = name, bs_tool_id = le_word (slice 3 5 bs), bs_description = description,
      bs_fields = fs, bs_required_mask = le_word (slice 9 17 bs)\<rparr>"
    by (auto simp: schema_from_bytes_def Let_def bind_result_eq_Inr split: if_splits option.splits)
  from name text_at_offset obtain r1 where 1: "\<forall>c \<in> set name. is_scalar c" "text_len name = ?n"
    "drop 17 bs = utf8_bytes name @ r1" by blast
  from desc text_at_offset obtain r2 where 2: "\<forall>c \<in> set description. is_scalar c"
    "text_len description = ?m" "drop (17 + ?n) bs = utf8_bytes description @ r2" by blast
  from fs schema_fields.read_many_at [OF desc(1)] obtain r3 where 3: "length fs = unat (bs ! 8)"
    "list_all field_ok fs" "drop (17 + ?n + ?m) bs = concat (map field_to_bytes fs) @ r3" by blast
  have "r1 = utf8_bytes description @ r2" "r2 = concat (map field_to_bytes fs) @ r3"
    using drop_behind [OF 1(3)] drop_behind [OF 2(3)] 1 2 3 by (simp_all add: length_utf8_bytes)
  then show ?r using h 1 2 3 by (auto simp: s)
next
  assume r: ?r
  then obtain rest where d: "drop 17 bs = utf8_bytes (bs_name s) @ utf8_bytes (bs_description s) @
       concat (map field_to_bytes (bs_fields s)) @ rest" by blast
  let ?n = "text_len (bs_name s)" and ?m = "text_len (bs_description s)"
  note d2 = drop_behind [OF d, unfolded length_utf8_bytes]
  note d3 = drop_behind [OF d2, unfolded length_utf8_bytes]
  have len: "17 + ?n + ?m \<le> length bs"
  proof -
    have "length bs - 17 \<ge> ?n + ?m" by (simp add: d length_utf8_bytes flip: length_drop)
    moreover have "17 \<le> length bs" using r by blast
    ultimately show ?thesis by linarith
  qed
  have "from_utf8 (slice 17 (17 + ?n) bs) = Some (bs_name s)"
    "from_utf8 (slice (17 + ?n) (17 + ?n + ?m) bs) = Some (bs_description s)"
    using text_at_offset [of 17 ?n bs] text_at_offset [of "17 + ?n" ?m bs] len d d2 r by auto
  moreover have "\<exists>off. read_many read_field (length (bs_fields s)) bs (17 + ?n + ?m) = Inr (bs_fields s, off)"
    using schema_fields.read_many_at [OF len] d3 r by auto
  ultimately show "schema_from_bytes bs = Inr s"
    using r len by (auto simp: schema_from_bytes_def Let_def)
qed

lemma schema_written:
  assumes "schema_ok s"
  shows "schema_from_bytes (schema_to_bytes s @ rest) = Inr s"
proof -
  let ?bs = "schema_to_bytes s @ rest"
  have "slice 3 5 ?bs = le_bytes 2 (bs_tool_id s)" "slice 9 17 ?bs = le_bytes 8 (bs_required_mask s)"
    "slice 6 8 ?bs = le_bytes 2 (of_nat (text_len (bs_description s)) :: u16)"
    "drop 17 ?bs = utf8_bytes (bs_name s) @ utf8_bytes (bs_description s) @
       concat (map field_to_bytes (bs_fields s)) @ rest"
    by (simp_all add: schema_to_bytes_def slice_split drop_Cons' del: le_bytes.simps)
  moreover have "?bs ! 5 = of_nat (text_len (bs_name s))" "?bs ! 8 = of_nat (length (bs_fields s))"
    by (simp_all add: schema_to_bytes_def nth_append nth_Cons' del: le_bytes.simps)
  moreover have "17 \<le> length ?bs" "[?bs ! 0, ?bs ! 1, ?bs ! 2] = [0xDC, 0x53, 1]"
    by (simp_all add: schema_to_bytes_def del: le_bytes.simps)
  ultimately show ?thesis
    using assms unfolding schema_read
    by (simp add: schema_ok_def unat_u8_of_nat unat_of_nat del: le_bytes.simps)
qed

lemma schema_reads_only_written:
  assumes "schema_from_bytes bs = Inr s"
  shows "schema_ok s \<and> (\<exists>rest. bs = schema_to_bytes s @ rest)"
proof -
  note r = assms [unfolded schema_read]
  from r obtain rest where d: "drop 17 bs = utf8_bytes (bs_name s) @ utf8_bytes (bs_description s) @
       concat (map field_to_bytes (bs_fields s)) @ rest" by blast
  have two: "le_bytes 2 (le_word (slice 3 5 bs) :: u16) = slice 3 5 bs"
    "le_bytes 2 (le_word (slice 6 8 bs) :: u16) = slice 6 8 bs"
    "le_bytes 8 (le_word (slice 9 17 bs) :: u64) = slice 9 17 bs"
    using r by (auto intro!: le_bytes_le_word)
  have "bs = schema_to_bytes s @ rest"
    using schema_header [of bs] r two
    by (simp add: schema_to_bytes_def d del: le_bytes.simps)
  moreover have "schema_ok s"
    using r unsigned_less [of "bs ! 5", where 'a = nat] unsigned_less [of "bs ! 8", where 'a = nat]
      unsigned_less [of "le_word (slice 6 8 bs) :: u16", where 'a = nat]
    by (simp add: schema_ok_def)
  ultimately show ?thesis by blast
qed

text \<open>C39: A binary schema is read exactly from the bytes the writer produces for it, with any bytes behind it:
  the reader accepts an input if and only if it starts with the written form of a schema whose name,
  description, field names and field count fit their length bytes, and then returns that schema.\<close>

theorem schema_bytes_exact:
  "schema_from_bytes bs = Inr s \<longleftrightarrow> schema_ok s \<and> (\<exists>rest. bs = schema_to_bytes s @ rest)"
  using schema_written schema_reads_only_written by blast

section \<open>The conversion\<close>

fun field_layout :: "mcp_input_schema \<Rightarrow> text list \<Rightarrow> u16 \<Rightarrow> schema_field list" where
  "field_layout input [] off = []"
| "field_layout input (name # names) off =
     (let ty = from_mcp_type (mp_prop_type (the (hm_get (mi_properties input) name)))
      in \<lparr>sf_name = name, sf_type = ty, sf_offset = off, sf_size = default_size ty\<rparr> #
         field_layout input names (off + default_size ty))"

lemma convert_fields_layout:
  "idx + length names \<le> 64 \<Longrightarrow>
   \<exists>m'. convert_fields input idx names fs off m = Inr (fs @ field_layout input names off, m') \<and>
     (\<forall>i < 64. bit m' i \<longleftrightarrow> bit m i \<or>
        idx \<le> i \<and> i < idx + length names \<and> names ! (i - idx) \<in> set (mi_required input))"
proof (induction names arbitrary: idx fs off m)
  case Nil
  then show ?case by auto
next
  case (Cons name names)
  let ?ty = "from_mcp_type (mp_prop_type (the (hm_get (mi_properties input) name)))"
  let ?f = "\<lparr>sf_name = name, sf_type = ?ty, sf_offset = off, sf_size = default_size ?ty\<rparr>"
  let ?m = "if name \<in> set (mi_required input) then m OR push_bit idx 1 else m"
  have "bit ?m i \<longleftrightarrow> bit m i \<or> i = idx \<and> name \<in> set (mi_required input)" if "i < 64" for i
    using that by (auto simp: bit_simps)
  moreover have "idx \<le> i \<and> i < idx + length (name # names) \<and> (name # names) ! (i - idx) \<in> R \<longleftrightarrow>
      i = idx \<and> name \<in> R \<or> Suc idx \<le> i \<and> i < Suc idx + length names \<and> names ! (i - Suc idx) \<in> R" for i R
    by (cases "i = idx") (auto simp: nth_Cons' Suc_le_eq)
  ultimately show ?case
    using Cons.IH [of "Suc idx" "fs @ [?f]" "off + default_size ?ty" ?m] Cons.prems
    by (auto simp: Let_def)
qed

lemma convert_fields_too_many:
  "64 < idx + length names \<Longrightarrow> names \<noteq> [] \<Longrightarrow> convert_fields input idx names fs off m = Inl TooManyFields"
proof (induction names arbitrary: idx fs off m)
  case (Cons name names)
  then show ?case by (cases "names = []") (simp_all add: Let_def)
qed simp

lemma field_layout_names [simp]: "map sf_name (field_layout input names off) = names"
  by (induction names arbitrary: off) (simp_all add: Let_def)

lemma length_field_layout [simp]: "length (field_layout input names off) = length names"
  by (induction names arbitrary: off) (simp_all add: Let_def)

lemma field_layout_types:
  "\<forall>f \<in> set (field_layout input names off).
     sf_type f = from_mcp_type (mp_prop_type (the (hm_get (mi_properties input) (sf_name f)))) \<and>
     sf_size f = default_size (sf_type f)"
  by (induction names arbitrary: off) (simp_all add: Let_def)

lemma field_layout_name: "i < length names \<Longrightarrow> sf_name (field_layout input names off ! i) = names ! i"
  by (metis field_layout_names length_field_layout nth_map)

lemma layout_field_ok:
  assumes "f \<in> set (field_layout input names off)"
    and "\<forall>name \<in> set names. (\<forall>c \<in> set name. is_scalar c) \<and> text_len name < 256"
  shows "field_ok f"
proof -
  have "sf_name f \<in> set names" using assms(1) by (metis field_layout_names imageI set_map)
  with assms(2) show ?thesis by (simp add: field_ok_def)
qed

lemma default_size_le: "unat (default_size t) \<le> 8"
  by (cases t) simp_all

lemma field_layout_offsets:
  "unat off + 8 * length names < 2 ^ 16 \<Longrightarrow> i < length names \<Longrightarrow>
   unat (sf_offset (field_layout input names off ! i)) =
     unat off + sum_list (map (unat \<circ> sf_size) (take i (field_layout input names off)))"
proof (induction names arbitrary: off i)
  case (Cons name names)
  define ty where "ty = from_mcp_type (mp_prop_type (the (hm_get (mi_properties input) name)))"
  have "unat off + unat (default_size ty) < 2 ^ 16"
    using Cons.prems(1) default_size_le [of ty] by simp
  then have "unat (off + default_size ty) = unat off + unat (default_size ty)"
    by (simp add: unat_word_ariths)
  then show ?case
    using Cons.IH [of "off + default_size ty" "i - 1"] Cons.prems default_size_le [of ty]
    by (cases i) (simp_all add: Let_def flip: ty_def)
qed simp

lemma required_bit_iff: "i < 64 \<Longrightarrow> required_bit m i \<longleftrightarrow> bit m i"
  by (simp add: required_bit_def bit_iff_and_push_bit_not_eq_0)

lemma enumerate_filter:
  "(\<And>i. i < length xs \<Longrightarrow> P (n + i) \<longleftrightarrow> Q (xs ! i)) \<Longrightarrow>
   map (\<lambda>(i, x). g x) (filter (\<lambda>(i, x). P i) (enumerate n xs)) = map g (filter Q xs)"
proof (induction xs arbitrary: n)
  case (Cons x xs)
  from Cons.prems [of 0] have "P n \<longleftrightarrow> Q x" by simp
  moreover have "P (Suc n + i) \<longleftrightarrow> Q (xs ! i)" if "i < length xs" for i
    using Cons.prems [of "Suc i"] that by simp
  ultimately show ?case using Cons.IH [of "Suc n"] by simp
qed simp

lemma hm_get_None_iff: "hm_get m k = None \<longleftrightarrow> k \<notin> set (map fst m)"
  by (simp add: hm_get_def map_of_eq_None_iff)

lemma inserted_other:
  "k \<notin> sf_name ` set fs \<Longrightarrow> hm_get (fold (\<lambda>f. hm_insert (sf_name f) (g f)) fs m) k = hm_get m k"
  by (induction fs arbitrary: m) auto

lemma inserted_field:
  "distinct (map sf_name fs) \<Longrightarrow> f \<in> set fs \<Longrightarrow>
   hm_get (fold (\<lambda>f. hm_insert (sf_name f) (g f)) fs m) (sf_name f) = Some (g f)"
  by (induction fs arbitrary: m) (auto simp: inserted_other)

definition schema_texts_ok :: "mcp_schema \<Rightarrow> bool" where
  "schema_texts_ok mcp \<longleftrightarrow>
     (\<forall>c \<in> set (ms_name mcp). is_scalar c) \<and> text_len (ms_name mcp) < 256 \<and>
     (\<forall>c \<in> set (ms_description mcp). is_scalar c) \<and> text_len (ms_description mcp) < 65536 \<and>
     (\<forall>name \<in> set (map fst (mi_properties (ms_input_schema mcp))).
        (\<forall>c \<in> set name. is_scalar c) \<and> text_len name < 256)"

definition fields_packed :: "schema_field list \<Rightarrow> bool" where
  "fields_packed fs \<longleftrightarrow>
     list_all (\<lambda>i. unat (sf_offset (fs ! i)) = sum_list (map (unat \<circ> sf_size) (take i fs))) [0..<length fs]"

lemma converted_schema:
  assumes "hm_wf (mi_properties (ms_input_schema mcp))" and "hm_len (mi_properties (ms_input_schema mcp)) \<le> 64"
  defines "input \<equiv> ms_input_schema mcp" and "names \<equiv> sort (map fst (mi_properties (ms_input_schema mcp)))"
  obtains dcp where "convert_mcp_to_dcp hash mcp = Inr dcp" "bs_name dcp = ms_name mcp"
    "bs_description dcp = ms_description mcp" "bs_fields dcp = field_layout input names 0"
    "\<And>i. i < length names \<Longrightarrow> bit (bs_required_mask dcp) i \<longleftrightarrow> names ! i \<in> set (mi_required input)"
proof -
  have n: "length names \<le> 64" using assms by (simp add: names_def hm_len_def)
  then obtain m' where "convert_fields input 0 names [] 0 0 = Inr (field_layout input names 0, m')"
    "\<forall>i < 64. bit m' i \<longleftrightarrow> i < length names \<and> names ! i \<in> set (mi_required input)"
    using convert_fields_layout [of 0 names input "[]" 0 0] by auto
  with n show thesis
    by (intro that) (auto simp: convert_mcp_to_dcp_def input_def names_def)
qed

lemma conversion_exact:
  assumes wf: "hm_wf (mi_properties (ms_input_schema mcp))" and le: "hm_len (mi_properties (ms_input_schema mcp)) \<le> 64"
    and ok: "schema_texts_ok mcp"
  shows "\<exists>dcp out. convert_mcp_to_dcp hash mcp = Inr dcp \<and>
    schema_from_bytes (schema_to_bytes dcp) = Inr dcp \<and> fields_packed (bs_fields dcp) \<and>
    convert_dcp_to_mcp dcp = out \<and> ms_name out = ms_name mcp \<and> ms_description out = ms_description mcp \<and>
    mi_required (ms_input_schema out) =
      filter (\<lambda>name. name \<in> set (mi_required (ms_input_schema mcp)))
        (sort (map fst (mi_properties (ms_input_schema mcp)))) \<and>
    (\<forall>name. hm_get (mi_properties (ms_input_schema out)) name =
       map_option (\<lambda>p. plain_property (mcp_type_name (from_mcp_type (mp_prop_type p))))
         (hm_get (mi_properties (ms_input_schema mcp)) name))"
proof -
  define input where "input = ms_input_schema mcp"
  define names where "names = sort (map fst (mi_properties input))"
  let ?fs = "field_layout input names 0"
  obtain dcp where c: "convert_mcp_to_dcp hash mcp = Inr dcp" "bs_name dcp = ms_name mcp"
    "bs_description dcp = ms_description mcp" "bs_fields dcp = ?fs"
    "\<And>i. i < length names \<Longrightarrow> bit (bs_required_mask dcp) i \<longleftrightarrow> names ! i \<in> set (mi_required input)"
    using converted_schema [OF wf le, of hash] by (auto simp: input_def names_def)
  have n: "length names \<le> 64" "distinct names" "set names = set (map fst (mi_properties input))"
    using wf le by (simp_all add: names_def input_def hm_len_def hm_wf_def)
  have ok: "schema_ok dcp"
    using ok n c by (auto simp: schema_ok_def schema_texts_ok_def input_def list_all_iff
        intro!: layout_field_ok)
  have packed: "fields_packed (bs_fields dcp)"
    using field_layout_offsets [of 0 names _ input] n by (simp add: fields_packed_def list_all_iff c)
  have req: "mi_required (ms_input_schema (convert_dcp_to_mcp dcp)) =
      filter (\<lambda>name. name \<in> set (mi_required input)) names"
  proof -
    have "required_bit (bs_required_mask dcp) (0 + i) \<longleftrightarrow> sf_name (?fs ! i) \<in> set (mi_required input)"
      if "i < length ?fs" for i
      using that c(5) n by (simp add: required_bit_iff field_layout_name)
    then have "mi_required (ms_input_schema (convert_dcp_to_mcp dcp)) =
        map sf_name (filter (\<lambda>f. sf_name f \<in> set (mi_required input)) ?fs)"
      using enumerate_filter [of ?fs "required_bit (bs_required_mask dcp)" 0
          "\<lambda>f. sf_name f \<in> set (mi_required input)" sf_name]
      by (simp add: convert_dcp_to_mcp_def c)
    also have "\<dots> = filter (\<lambda>name. name \<in> set (mi_required input)) (map sf_name ?fs)"
      by (simp only: filter_map comp_def)
    finally show ?thesis by simp
  qed
  have props: "hm_get (mi_properties (ms_input_schema (convert_dcp_to_mcp dcp))) name =
       map_option (\<lambda>p. plain_property (mcp_type_name (from_mcp_type (mp_prop_type p))))
         (hm_get (mi_properties input) name)" for name
  proof (cases "name \<in> set names")
    case True
    then obtain f where "f \<in> set ?fs" "sf_name f = name"
      by (metis field_layout_names imageE set_map)
    moreover from True n obtain p where "hm_get (mi_properties input) name = Some p"
      using hm_get_None_iff [of "mi_properties input" name] by auto
    ultimately show ?thesis
      using inserted_field [of ?fs f "\<lambda>f. plain_property (mcp_type_name (sf_type f))" "[]"] n field_layout_types [of input names 0]
      by (auto simp: convert_dcp_to_mcp_def c)
  next
    case False
    moreover from this have "name \<notin> sf_name ` set ?fs"
      by (metis field_layout_names set_map)
    ultimately show ?thesis
      using n hm_get_None_iff [of "mi_properties input" name]
      by (simp add: convert_dcp_to_mcp_def c inserted_other)
  qed
  have "schema_from_bytes (schema_to_bytes dcp) = Inr dcp"
    using schema_written [OF ok, of "[]"] by simp
  moreover have "ms_name (convert_dcp_to_mcp dcp) = ms_name mcp"
    "ms_description (convert_dcp_to_mcp dcp) = ms_description mcp"
    by (simp_all add: convert_dcp_to_mcp_def c(2,3))
  ultimately show ?thesis
    using c(1) packed req props unfolding names_def input_def
    by (intro exI [of _ dcp] exI [of _ "convert_dcp_to_mcp dcp"] conjI allI HOL.refl)
qed

text \<open>A tool of at most 64 properties whose texts fit converts to a binary schema that survives being
  written and read. Its fields are packed, each at the sum of the sizes of those before it. Converted
  back it has the tool's name and description, its properties with their types
  normalised, and as required names those of the tool's list that are properties, in sorted order.\<close>

theorem schema_conversion_exact:
  assumes "hm_wf (mi_properties (ms_input_schema mcp))" and "hm_len (mi_properties (ms_input_schema mcp)) \<le> 64"
    and "schema_texts_ok mcp"
  shows "\<exists>dcp out. convert_mcp_to_dcp hash mcp = Inr dcp \<and>
    schema_from_bytes (schema_to_bytes dcp) = Inr dcp \<and> fields_packed (bs_fields dcp) \<and>
    convert_dcp_to_mcp dcp = out \<and> ms_name out = ms_name mcp \<and> ms_description out = ms_description mcp \<and>
    mi_required (ms_input_schema out) =
      filter (\<lambda>name. name \<in> set (mi_required (ms_input_schema mcp)))
        (sort (map fst (mi_properties (ms_input_schema mcp)))) \<and>
    (\<forall>name. hm_get (mi_properties (ms_input_schema out)) name =
       map_option (\<lambda>p. plain_property (mcp_type_name (from_mcp_type (mp_prop_type p))))
         (hm_get (mi_properties (ms_input_schema mcp)) name))"
  using assms by (rule conversion_exact)

definition sample_tool_schema :: mcp_schema where
  "sample_tool_schema = \<lparr>ms_name = ascii ''read'', ms_description = ascii ''reads'',
     ms_input_schema = \<lparr>mi_schema_type = ascii ''object'',
       mi_properties = [(ascii ''path'', plain_property (ascii ''string'')), (ascii ''all'', plain_property (ascii ''boolean''))],
       mi_required = [ascii ''path'']\<rparr>\<rparr>"

theorem schema_conversion_exact_witness:
  "\<exists>dcp out. convert_mcp_to_dcp (\<lambda>_. [1, 2]) sample_tool_schema = Inr dcp \<and>
    schema_from_bytes (schema_to_bytes dcp) = Inr dcp \<and> fields_packed (bs_fields dcp) \<and>
    convert_dcp_to_mcp dcp = out \<and> ms_name out = ascii ''read'' \<and>
    mi_required (ms_input_schema out) = [ascii ''path'']"
proof -
  have "hm_wf (mi_properties (ms_input_schema sample_tool_schema))"
    "hm_len (mi_properties (ms_input_schema sample_tool_schema)) \<le> 64"
    by (simp_all add: sample_tool_schema_def hm_wf_def hm_len_def ascii_def)
  moreover have "schema_texts_ok sample_tool_schema"
    by (simp add: sample_tool_schema_def schema_texts_ok_def ascii_def is_scalar_def text_len_def len_utf8_def)
  moreover have "filter (\<lambda>name. name \<in> set (mi_required (ms_input_schema sample_tool_schema)))
      (sort (map fst (mi_properties (ms_input_schema sample_tool_schema)))) = [ascii ''path'']"
    by (simp add: sample_tool_schema_def ascii_def)
  moreover have "ms_name sample_tool_schema = ascii ''read''" by (simp add: sample_tool_schema_def)
  ultimately show ?thesis
    using schema_conversion_exact [of sample_tool_schema "\<lambda>_. [1, 2]"] by auto
qed

text \<open>A tool of more than 64 properties is refused.\<close>

lemma too_many_properties_refused:
  "64 < hm_len (mi_properties (ms_input_schema mcp)) \<Longrightarrow> convert_mcp_to_dcp hash mcp = Inl TooManyFields"
  using convert_fields_too_many [of 0 "sort (map fst (mi_properties (ms_input_schema mcp)))"
      "ms_input_schema mcp" "[]" 0 0]
  by (auto simp: convert_mcp_to_dcp_def hm_len_def simp flip: length_0_conv)

end
