(* ===== verification/Formats.thy ===== *)
theory Formats
  imports Redaction Doubles
begin

text \<open>
  What the observability modules share: the number formats of the standard library they print with, the
  escaping of a JSON string with a reader for it, and the contract of the two sanitizers of keyed values.
\<close>

section \<open>Numbers\<close>

fun hex :: "nat \<Rightarrow> text" where
  "hex n = (if n < 16 then [hex_digit n] else hex (n div 16) @ [hex_digit (n mod 16)])"

declare hex.simps [simp del]

text \<open>A width with leading zeros, as in \<open>{:04x}\<close>.\<close>

definition zero_pad :: "nat \<Rightarrow> text \<Rightarrow> text" where
  "zero_pad w t = replicate (w - length t) 48 @ t"

definition hex_text_value :: "text \<Rightarrow> nat" where
  "hex_text_value t = foldl (\<lambda>a c. a * 16 + the (hex_value c)) 0 t"

lemma hex_text_value_snoc: "hex_text_value (t @ [c]) = hex_text_value t * 16 + the (hex_value c)"
  by (simp add: hex_text_value_def)

lemma hex_text_value_hex: "hex_text_value (hex n) = n"
proof (induction n rule: hex.induct)
  case (1 n)
  show ?case
  proof (cases "n < 16")
    case True
    then show ?thesis by (subst hex.simps) (simp add: hex_text_value_def hex_value_digit)
  next
    case False
    then show ?thesis
      using 1 [OF False] by (subst hex.simps) (simp add: hex_text_value_snoc hex_value_digit)
  qed
qed

lemma zero_pad_value:
  assumes "f 48 = 0"
  shows "foldl (\<lambda>a c. a * B + f c) (0 :: nat) (zero_pad w t) = foldl (\<lambda>a c. a * B + f c) 0 t"
proof -
  have "foldl (\<lambda>a c. a * B + f c) (0 :: nat) (replicate k 48) = 0" for k
    using assms by (induction k) simp_all
  then show ?thesis by (simp add: zero_pad_def)
qed

lemma hex_value_zero_pad: "hex_text_value (zero_pad w (hex n)) = n"
  using zero_pad_value [of "\<lambda>c. the (hex_value c)" 16 w "hex n"] hex_text_value_hex [of n]
  by (simp add: hex_text_value_def hex_value_def)

lemma decimal_value_zero_pad: "decimal_value (zero_pad w (decimal n)) = n"
  using zero_pad_value [of "\<lambda>c. c - 48" 10 w "decimal n"] decimal_value_decimal [of n]
  by (simp add: decimal_value_def)

lemma hex_chars: "\<forall>c \<in> set (hex n). 48 \<le> c \<and> c \<noteq> 45"
proof (induction n rule: hex.induct)
  case (1 n)
  then show ?case by (subst hex.simps) (auto simp: hex_digit_def)
qed

lemma zero_pad_chars: "\<forall>c \<in> set t. 48 \<le> c \<and> c \<noteq> 45 \<Longrightarrow> \<forall>c \<in> set (zero_pad w t). 48 \<le> c \<and> c \<noteq> 45"
  by (auto simp: zero_pad_def)

section \<open>JSON strings\<close>

definition escape_char :: "nat \<Rightarrow> text" where
  "escape_char c =
     (if c = 34 then [92, 34] else if c = 92 then [92, 92] else if c = 10 then [92, 110]
      else if c = 13 then [92, 114] else if c = 9 then [92, 116]
      else if char_is_control c then [92, 117] @ zero_pad 4 (hex c) else [c])"

definition escape_json_string :: "text \<Rightarrow> text" where
  "escape_json_string s = [34] @ concat (map escape_char s) @ [34]"

text \<open>The characters of a JSON string behind its opening quote, read as RFC 8259 has them.\<close>

fun read_string :: "text \<Rightarrow> (text \<times> text) option" where
  "read_string (c # cs) =
     (if c = 34 then Some ([], cs)
      else if c = 92 then
        (case cs of
           [] \<Rightarrow> None
         | e # r \<Rightarrow>
             if e = 117 then
               (case r of
                  a # b # x # y # r' \<Rightarrow>
                    if list_all (\<lambda>d. hex_value d \<noteq> None) [a, b, x, y]
                    then map_option (\<lambda>(s, rest). (hex_text_value [a, b, x, y] # s, rest)) (read_string r')
                    else None
                | _ \<Rightarrow> None)
             else
               (case map_of [(34, 34), (92, 92), (47, 47), (98, 8), (102, 12), (110, 10), (114, 13), (116, 9)] e of
                  None \<Rightarrow> None
                | Some d \<Rightarrow> map_option (\<lambda>(s, rest). (d # s, rest)) (read_string r)))
      else if c < 32 then None
      else map_option (\<lambda>(s, rest). (c # s, rest)) (read_string cs))"
| "read_string [] = None"

declare read_string.simps [simp del]

lemma read_string_end: "read_string (34 # t) = Some ([], t)"
  by (subst read_string.simps) simp

lemma read_string_plain:
  "32 \<le> c \<Longrightarrow> c \<noteq> 34 \<Longrightarrow> c \<noteq> 92 \<Longrightarrow>
   read_string (c # t) = map_option (\<lambda>(s, rest). (c # s, rest)) (read_string t)"
  by (subst read_string.simps) simp

lemma read_string_escaped:
  "(e, d) \<in> {(34, 34), (92, 92), (110, 10), (114, 13), (116, 9)} \<Longrightarrow>
   read_string (92 # e # t) = map_option (\<lambda>(s, rest). (d # s, rest)) (read_string t)"
  by (subst read_string.simps) auto

lemma read_string_code:
  "list_all (\<lambda>d. hex_value d \<noteq> None) [a, b, x, y] \<Longrightarrow>
   read_string (92 # 117 # a # b # x # y # t) =
     map_option (\<lambda>(s, rest). (hex_text_value [a, b, x, y] # s, rest)) (read_string t)"
  by (subst read_string.simps) simp

lemma zero_pad_hex_4:
  assumes "c < 256"
  shows "zero_pad 4 (hex c) = [48, 48, hex_digit (c div 16), hex_digit (c mod 16)]"
proof (cases "c < 16")
  case True
  then have "hex c = [hex_digit c]" by (subst hex.simps) simp
  then show ?thesis using True by (simp add: zero_pad_def hex_digit_def numeral_3_eq_3)
next
  case False
  then have "c div 16 < 16" using assms by (simp add: div_less_iff_less_mult)
  then have "hex (c div 16) = [hex_digit (c div 16)]" by (subst hex.simps) simp
  then have "hex c = [hex_digit (c div 16), hex_digit (c mod 16)]"
    using False by (subst hex.simps) simp
  then show ?thesis by (simp add: zero_pad_def numeral_2_eq_2)
qed

lemma read_escaped_char:
  "read_string (escape_char c @ t) = map_option (\<lambda>(s, rest). (c # s, rest)) (read_string t)"
proof -
  consider "c = 34" | "c = 92" | "c = 10" | "c = 13" | "c = 9" | "c \<notin> {34, 92}" "\<not> char_is_control c"
    | "c \<notin> {34, 92, 10, 13, 9}" "char_is_control c" by auto
  then show ?thesis
  proof cases
    case 6
    then have "escape_char c = [c]" "32 \<le> c" by (auto simp: escape_char_def char_is_control_def)
    then show ?thesis using 6 by (simp add: read_string_plain)
  next
    case 7
    then have c: "c < 256" by (auto simp: char_is_control_def)
    then have "c div 16 < 16" by (simp add: div_less_iff_less_mult)
    moreover have "hex_value 48 = Some 0" by (simp add: hex_value_def)
    moreover have "escape_char c = [92, 117] @ zero_pad 4 (hex c)" using 7 by (simp add: escape_char_def)
    ultimately show ?thesis
      by (simp add: zero_pad_hex_4 [OF c] read_string_code hex_value_digit hex_text_value_def)
  qed (simp_all add: escape_char_def read_string_escaped)
qed

lemma read_escaped: "read_string (concat (map escape_char s) @ 34 # rest) = Some (s, rest)"
  by (induction s) (simp_all add: read_escaped_char read_string_end)

lemma escape_char_printable: "\<forall>d \<in> set (escape_char c). 32 \<le> d"
proof (cases "char_is_control c")
  case True
  then have c: "c < 256" by (auto simp: char_is_control_def)
  show ?thesis
    using True zero_pad_hex_4 [OF c] by (simp add: escape_char_def) (simp add: hex_digit_def)
qed (auto simp: escape_char_def char_is_control_def)

lemma escaped_printable: "\<forall>d \<in> set (escape_json_string s). 32 \<le> d"
  using escape_char_printable by (auto simp: escape_json_string_def)

section \<open>JSON literals\<close>

text \<open>A number without an exponent, \<open>true\<close>, \<open>false\<close> or \<open>null\<close>.\<close>

definition natural_text :: "text \<Rightarrow> bool" where
  "natural_text t \<longleftrightarrow>
     t \<noteq> [] \<and> list_all is_ascii_digit t \<and> (hd t = 48 \<longrightarrow> length t = 1)"

definition magnitude_text :: "text \<Rightarrow> bool" where
  "magnitude_text t \<longleftrightarrow>
     (let n = takeWhile (\<lambda>c. c \<noteq> 46) t; r = dropWhile (\<lambda>c. c \<noteq> 46) t
      in natural_text n \<and> (r = [] \<or> tl r \<noteq> [] \<and> list_all is_ascii_digit (tl r)))"

definition json_literal :: "text \<Rightarrow> bool" where
  "json_literal t \<longleftrightarrow>
     t = ascii ''true'' \<or> t = ascii ''false'' \<or> t = ascii ''null'' \<or>
     magnitude_text (case t of [] \<Rightarrow> t | c # r \<Rightarrow> if c = 45 then r else t)"

lemma natural_decimal: "natural_text (decimal n)"
proof (induction n rule: decimal.induct)
  case (1 n)
  show ?case
  proof (cases "n < 10")
    case True
    then show ?thesis by (subst decimal.simps) (simp add: natural_text_def is_ascii_digit_def)
  next
    case False
    then obtain c r where d: "decimal (n div 10) = c # r" and c: "c = 48 \<longrightarrow> r = []"
      and digits: "list_all is_ascii_digit (c # r)"
      using 1 [OF False] by (cases "decimal (n div 10)") (auto simp: natural_text_def)
    have "c \<noteq> 48"
    proof
      assume "c = 48"
      then have "decimal (n div 10) = [48]" using c d by simp
      then have "n div 10 = 0" using decimal_value_decimal [of "n div 10"] by (simp add: decimal_value_def)
      then show False using False by simp
    qed
    moreover have "decimal n = c # r @ [48 + n mod 10]"
      using False d by (subst decimal.simps) simp
    ultimately show ?thesis using digits by (simp add: natural_text_def is_ascii_digit_def)
  qed
qed

lemma natural_no_dot: "natural_text t \<Longrightarrow> \<forall>c \<in> set t. c \<noteq> 46"
  by (auto simp: natural_text_def list_all_iff is_ascii_digit_def)

lemma magnitude_natural:
  assumes "natural_text t"
  shows "magnitude_text t"
proof -
  have parts: "takeWhile (\<lambda>c. c \<noteq> 46) t = t" "dropWhile (\<lambda>c. c \<noteq> 46) t = []"
    using natural_no_dot [OF assms] by (simp_all add: takeWhile_eq_all_conv dropWhile_eq_Nil_conv)
  show ?thesis unfolding magnitude_text_def Let_def parts using assms by simp
qed

lemma magnitude_fraction:
  assumes "natural_text t" and "f \<noteq> []" and "list_all is_ascii_digit f"
  shows "magnitude_text (t @ 46 # f)"
  using assms natural_no_dot [OF assms(1)]
  by (simp add: magnitude_text_def takeWhile_append dropWhile_append takeWhile_eq_all_conv dropWhile_eq_Nil_conv)

lemma json_literal_magnitude:
  assumes "magnitude_text t"
  shows "json_literal t" "json_literal (45 # t)"
proof -
  have "t = c # r \<Longrightarrow> c \<noteq> 45" for c r
    using assms by (auto simp: magnitude_text_def natural_text_def is_ascii_digit_def Let_def)
  then show "json_literal t" using assms by (cases t) (simp_all add: json_literal_def)
  show "json_literal (45 # t)" using assms by (simp add: json_literal_def)
qed

lemma json_literal_decimal: "json_literal (decimal n)"
  by (intro json_literal_magnitude magnitude_natural natural_decimal)

lemma json_literal_decimal_int: "json_literal (decimal_int i)"
  by (simp add: decimal_int_def json_literal_magnitude magnitude_natural natural_decimal)

lemma json_literal_bool: "json_literal (ascii ''true'')" "json_literal (ascii ''false'')" "json_literal (ascii ''null'')"
  by (simp_all add: json_literal_def)

lemma fraction_text_digits: "fraction_text x down \<noteq> []" "list_all is_ascii_digit (fraction_text x down)"
proof -
  have d: "natural_text (decimal (x mod 10 ^ down))" by (rule natural_decimal)
  then show "fraction_text x down \<noteq> []" by (simp add: fraction_text_def Let_def natural_text_def)
  show "list_all is_ascii_digit (fraction_text x down)"
    using d by (auto simp: fraction_text_def Let_def natural_text_def list_all_iff is_ascii_digit_def)
qed

lemma json_literal_display:
  assumes "f64_is_finite b"
  shows "json_literal (f64_display b)"
proof -
  have "\<not> f64_is_nan b" using assms by (simp add: f64_is_nan_def f64_is_finite_def)
  moreover obtain x down where d: "shortest_digits (b AND 0x7FFFFFFFFFFFFFFF) 308 = (x, down)" by fastforce
  moreover define m where "m = (if down = 0 then decimal x
      else decimal (x div 10 ^ down) @ ascii ''.'' @ fraction_text x down)"
  moreover have "magnitude_text m"
    by (simp add: m_def ascii_def magnitude_natural magnitude_fraction natural_decimal fraction_text_digits)
  ultimately show ?thesis
    using assms json_literal_magnitude [of m]
    by (cases "down = 0") (simp_all add: m_def f64_display_def ascii_def)
qed

section \<open>Keyed values\<close>

text \<open>What a table of attributes that went through the sanitizers guarantees: no key looks like a secret, no value
  shows one, and under a sensitive key there is the placeholder.\<close>

definition fields_clean :: "('v \<Rightarrow> bool) \<Rightarrow> 'v \<Rightarrow> (text, 'v) hmap \<Rightarrow> bool" where
  "fields_clean quiet hidden m \<longleftrightarrow>
     list_all (\<lambda>(k, v). \<not> looks_sensitive_value k \<and> quiet v \<and> (is_sensitive_key k \<longrightarrow> v = hidden)) m"

locale field_sanitizer =
  fixes sanitize :: "text \<Rightarrow> 'v \<Rightarrow> 'v" and quiet :: "'v \<Rightarrow> bool" and hidden :: 'v
  assumes sensitive_hidden: "is_sensitive_key k \<Longrightarrow> sanitize k v = hidden"
    and sanitized_quiet: "quiet (sanitize k v)"
begin

lemma clean_empty: "fields_clean quiet hidden []"
  by (simp add: fields_clean_def)

lemma clean_insert:
  assumes "fields_clean quiet hidden m"
  shows "fields_clean quiet hidden (hm_insert (sanitize_field_key k) (sanitize k v) m)"
proof -
  have "is_sensitive_key (sanitize_field_key k) \<longrightarrow> sanitize k v = hidden"
    using sanitize_field_key_sensitive sensitive_hidden by blast
  then have "fields_clean quiet hidden ((sanitize_field_key k, sanitize k v) # m)"
    using assms sanitized_quiet by (simp add: fields_clean_def sanitized_not_sensitive)
  then show ?thesis
    using hm_insert_entries [of "sanitize_field_key k" "sanitize k v" m]
    by (auto simp: fields_clean_def list_all_iff)
qed

lemma clean_inserts:
  "fields_clean quiet hidden m \<Longrightarrow>
   fields_clean quiet hidden (fold (\<lambda>(k, v). hm_insert (sanitize_field_key k) (sanitize k v)) kvs m)"
  by (induction kvs arbitrary: m) (auto simp: clean_insert)

end

end
