(* ===== verification/Logging.thy ===== *)
theory Logging
  imports Formats
begin

text \<open>
  Structured logging (\<open>src/src/observability/logging.rs\<close>): levels, entries with their builders, the sanitized
  copy, the JSON line and the text line of an entry, the calendar behind the timestamps and the logger with its
  sink. Clock readings are arguments; a hash map iterates in the order of its list.
\<close>

section \<open>Levels, configuration and values\<close>

datatype logging_level = LvTrace | LvDebug | LvInfo | LvWarn | LvError

fun log_level_rank :: "logging_level \<Rightarrow> nat" where
  "log_level_rank LvTrace = 0"
| "log_level_rank LvDebug = 1"
| "log_level_rank LvInfo = 2"
| "log_level_rank LvWarn = 3"
| "log_level_rank LvError = 4"

text \<open>The derived order of the source: the order of the constructors.\<close>

instantiation logging_level :: linorder
begin

definition less_eq_logging_level :: "logging_level \<Rightarrow> logging_level \<Rightarrow> bool" where
  "less_eq_logging_level a b \<longleftrightarrow> log_level_rank a \<le> log_level_rank b"

definition less_logging_level :: "logging_level \<Rightarrow> logging_level \<Rightarrow> bool" where
  "less_logging_level a b \<longleftrightarrow> log_level_rank a < log_level_rank b"

instance
proof
  fix a b :: logging_level
  show "a \<le> b \<Longrightarrow> b \<le> a \<Longrightarrow> a = b"
    by (cases a; cases b) (simp_all add: less_eq_logging_level_def)
qed (auto simp: less_eq_logging_level_def less_logging_level_def)

end

fun log_level_name :: "logging_level \<Rightarrow> text" where
  "log_level_name LvTrace = ascii ''TRACE''"
| "log_level_name LvDebug = ascii ''DEBUG''"
| "log_level_name LvInfo = ascii ''INFO''"
| "log_level_name LvWarn = ascii ''WARN''"
| "log_level_name LvError = ascii ''ERROR''"

text \<open>Upper case as far as a comparison with a level name can tell. Beside the ASCII letters only a few characters
  have an upper case made of ASCII letters (the dotless i, the long s, the f and st ligatures); every other character
  has one with a character outside ASCII and stands for itself here.\<close>

definition upper_char :: "nat \<Rightarrow> text" where
  "upper_char c =
     (if 97 \<le> c \<and> c \<le> 122 then [c - 32]
      else case map_of [(0x131, ''I''), (0x17F, ''S''), (0xDF, ''SS''), (0xFB00, ''FF''), (0xFB01, ''FI''), (0xFB02, ''FL''),
             (0xFB03, ''FFI''), (0xFB04, ''FFL''), (0xFB05, ''ST''), (0xFB06, ''ST'')] c of
          Some s \<Rightarrow> ascii s
        | None \<Rightarrow> [c])"

definition logging_level_from_str :: "text \<Rightarrow> logging_level option" where
  "logging_level_from_str s =
     (let u = concat (map upper_char s)
      in if u = ascii ''TRACE'' then Some LvTrace
         else if u = ascii ''DEBUG'' then Some LvDebug
         else if u = ascii ''INFO'' then Some LvInfo
         else if u = ascii ''WARN'' \<or> u = ascii ''WARNING'' then Some LvWarn
         else if u = ascii ''ERROR'' then Some LvError
         else None)"

datatype log_format = LogJson | LogText

record log_config =
  lc_level :: logging_level
  lc_format :: log_format
  lc_include_timestamp :: bool
  lc_include_location :: bool
  lc_service_name :: "text"

definition log_config_default :: log_config where
  "log_config_default = \<lparr>lc_level = LvInfo, lc_format = LogJson, lc_include_timestamp = True,
     lc_include_location = False, lc_service_name = ascii ''dcp-server''\<rparr>"

datatype log_value = LogString "text" | LogInt "64 word" | LogFloat u64 | LogBool bool | LogNull

definition log_value_of_i32 :: "32 word \<Rightarrow> log_value" where
  "log_value_of_i32 v = LogInt (scast v)"

definition log_value_of_u64 :: "u64 \<Rightarrow> log_value" where
  "log_value_of_u64 v = LogInt v"

definition bool_text :: "bool \<Rightarrow> text" where
  "bool_text b = (if b then ascii ''true'' else ascii ''false'')"

fun log_value_display :: "log_value \<Rightarrow> text" where
  "log_value_display (LogString s) = s"
| "log_value_display (LogInt i) = decimal_int (sint i)"
| "log_value_display (LogFloat d) = f64_display d"
| "log_value_display (LogBool b) = bool_text b"
| "log_value_display LogNull = ascii ''null''"

fun sanitize_log_value :: "text \<Rightarrow> log_value \<Rightarrow> log_value" where
  "sanitize_log_value key (LogString v) = LogString (sanitize_field_value key v)"
| "sanitize_log_value key other = (if is_sensitive_key key then LogString REDACTED else other)"

section \<open>Entries\<close>

record log_entry =
  le_level :: logging_level
  le_message :: "text"
  le_timestamp :: u64
  le_request_id :: "text option"
  le_trace_id :: "text option"
  le_fields :: "(text, log_value) hmap"
  le_file :: "text option"
  le_line :: "32 word option"

definition log_entry_new :: "u64 \<Rightarrow> logging_level \<Rightarrow> text \<Rightarrow> log_entry" where
  "log_entry_new now level message =
     \<lparr>le_level = level, le_message = sanitize_text message, le_timestamp = now, le_request_id = None,
      le_trace_id = None, le_fields = [], le_file = None, le_line = None\<rparr>"

definition log_with_request_id :: "text \<Rightarrow> log_entry \<Rightarrow> log_entry" where
  "log_with_request_id request_id e = e\<lparr>le_request_id := Some (sanitize_text request_id)\<rparr>"

definition log_with_trace_id :: "text \<Rightarrow> log_entry \<Rightarrow> log_entry" where
  "log_with_trace_id trace_id e = e\<lparr>le_trace_id := Some (sanitize_text trace_id)\<rparr>"

definition log_with_field :: "text \<Rightarrow> log_value \<Rightarrow> log_entry \<Rightarrow> log_entry" where
  "log_with_field key v e =
     e\<lparr>le_fields := hm_insert (sanitize_field_key key) (sanitize_log_value key v) (le_fields e)\<rparr>"

definition log_with_location :: "text \<Rightarrow> 32 word \<Rightarrow> log_entry \<Rightarrow> log_entry" where
  "log_with_location file line e = e\<lparr>le_file := Some file, le_line := Some line\<rparr>"

definition log_sanitized_copy :: "log_entry \<Rightarrow> log_entry" where
  "log_sanitized_copy e =
     \<lparr>le_level = le_level e, le_message = sanitize_text (le_message e), le_timestamp = le_timestamp e,
      le_request_id = map_option sanitize_text (le_request_id e),
      le_trace_id = map_option sanitize_text (le_trace_id e),
      le_fields = fold (\<lambda>(key, v). hm_insert (sanitize_field_key key) (sanitize_log_value key v)) (le_fields e) [],
      le_file = map_option sanitize_text (le_file e), le_line = le_line e\<rparr>"

definition optional_text :: "('a \<Rightarrow> text) \<Rightarrow> 'a option \<Rightarrow> text" where
  "optional_text f v = (case v of None \<Rightarrow> [] | Some x \<Rightarrow> f x)"

definition log_value_json :: "log_value \<Rightarrow> text" where
  "log_value_json v = (case v of LogString s \<Rightarrow> escape_json_string s | _ \<Rightarrow> log_value_display v)"

definition quoted :: "string \<Rightarrow> text" where
  "quoted s = [34] @ ascii s @ [34]"

definition entry_to_json :: "text \<Rightarrow> log_entry \<Rightarrow> text" where
  "entry_to_json service_name e =
     (let entry = log_sanitized_copy e;
          json = [123] @
            quoted ''timestamp'' @ [58] @ decimal (unat (le_timestamp entry)) @ [44] @
            quoted ''level'' @ [58] @ [34] @ log_level_name (le_level entry) @ [34] @ [44] @
            quoted ''message'' @ [58] @ escape_json_string (le_message entry) @ [44] @
            quoted ''service'' @ [58] @ escape_json_string (sanitize_text service_name) @ [44] @
            optional_text (\<lambda>x. quoted ''request_id'' @ [58] @ escape_json_string x @ [44]) (le_request_id entry) @
            optional_text (\<lambda>x. quoted ''trace_id'' @ [58] @ escape_json_string x @ [44]) (le_trace_id entry) @
            optional_text (\<lambda>x. quoted ''file'' @ [58] @ escape_json_string x @ [44]) (le_file entry) @
            optional_text (\<lambda>x. quoted ''line'' @ [58] @ decimal (unat x) @ [44]) (le_line entry) @
            concat (map (\<lambda>(safe_key, v). escape_json_string safe_key @ [58] @ log_value_json v @ [44])
              (le_fields entry))
      in (if last json = 44 then butlast json else json) @ [125])"

section \<open>Timestamps\<close>

definition is_leap_year :: "int \<Rightarrow> bool" where
  "is_leap_year year \<longleftrightarrow> year mod 4 = 0 \<and> year mod 100 \<noteq> 0 \<or> year mod 400 = 0"

definition days_in_year :: "int \<Rightarrow> int" where
  "days_in_year year = (if is_leap_year year then 366 else 365)"

function year_loop :: "int \<Rightarrow> int \<Rightarrow> int \<times> int" where
  "year_loop remaining year =
     (if remaining < days_in_year year then (remaining, year)
      else year_loop (remaining - days_in_year year) (year + 1))"
  by pat_completeness auto
termination
  by (relation "measure (nat \<circ> fst)") (auto simp: days_in_year_def split: if_splits)

declare year_loop.simps [simp del]

definition days_in_months :: "int \<Rightarrow> int list" where
  "days_in_months year =
     (if is_leap_year year then [31, 29, 31, 30, 31, 30, 31, 31, 30, 31, 30, 31]
      else [31, 28, 31, 30, 31, 30, 31, 31, 30, 31, 30, 31])"

fun month_loop :: "int list \<Rightarrow> int \<Rightarrow> int \<Rightarrow> int \<times> int" where
  "month_loop [] remaining month = (remaining, month)"
| "month_loop (days_in_month # ms) remaining month =
     (if remaining < days_in_month then (remaining, month)
      else month_loop ms (remaining - days_in_month) (month + 1))"

definition days_to_ymd :: "int \<Rightarrow> int \<times> int \<times> int" where
  "days_to_ymd days =
     (let (remaining, year) = year_loop days 1970;
          (remaining, month) = month_loop (days_in_months year) remaining 1
      in (year, month, remaining + 1))"

definition padded :: "nat \<Rightarrow> int \<Rightarrow> text" where
  "padded w i = zero_pad w (decimal (nat i))"

definition format_timestamp :: "u64 \<Rightarrow> text" where
  "format_timestamp millis =
     (let secs = uint millis div 1000; ms = uint millis mod 1000;
          days_since_epoch = secs div 86400; time_of_day = secs mod 86400;
          hours = time_of_day div 3600; minutes = time_of_day mod 3600 div 60; seconds = time_of_day mod 60;
          (year, month, day) = days_to_ymd days_since_epoch
      in padded 4 year @ ascii ''-'' @ padded 2 month @ ascii ''-'' @ padded 2 day @ ascii ''T'' @
         padded 2 hours @ ascii '':'' @ padded 2 minutes @ ascii '':'' @ padded 2 seconds @ ascii ''.'' @
         padded 3 ms @ ascii ''Z'')"

definition entry_to_text :: "log_entry \<Rightarrow> text" where
  "entry_to_text e =
     (let entry = log_sanitized_copy e
      in format_timestamp (le_timestamp entry) @ ascii '' ['' @ log_level_name (le_level entry) @ ascii ''] '' @
         le_message entry @
         optional_text (\<lambda>x. ascii '' request_id='' @ x) (le_request_id entry) @
         concat (map (\<lambda>(key, v). ascii '' '' @ key @ ascii ''='' @ log_value_display v) (le_fields entry)))"

section \<open>The logger\<close>

record structured_logger =
  sg_config :: log_config
  sg_sink :: "log_entry list"

definition logger_new :: "log_config \<Rightarrow> structured_logger" where
  "logger_new config = \<lparr>sg_config = config, sg_sink = []\<rparr>"

definition log_is_enabled :: "structured_logger \<Rightarrow> logging_level \<Rightarrow> bool" where
  "log_is_enabled g level \<longleftrightarrow> level \<ge> lc_level (sg_config g)"

definition log_set_level :: "logging_level \<Rightarrow> structured_logger \<Rightarrow> structured_logger" where
  "log_set_level level g = g\<lparr>sg_config := (sg_config g)\<lparr>lc_level := level\<rparr>\<rparr>"

text \<open>The line the entry is formatted to is returned beside the new state; the code drops it.\<close>

definition log_emit :: "log_entry \<Rightarrow> structured_logger \<Rightarrow> structured_logger \<times> text option" where
  "log_emit e g =
     (let entry = log_sanitized_copy e
      in if le_level entry < lc_level (sg_config g) then (g, None)
         else (g\<lparr>sg_sink := sg_sink g @ [entry]\<rparr>,
               Some (case lc_format (sg_config g) of
                       LogJson \<Rightarrow> entry_to_json (lc_service_name (sg_config g)) entry
                     | LogText \<Rightarrow> entry_to_text entry)))"

definition log_entries :: "structured_logger \<Rightarrow> log_entry list" where
  "log_entries g = sg_sink g"

definition log_clear :: "structured_logger \<Rightarrow> structured_logger" where
  "log_clear g = g\<lparr>sg_sink := []\<rparr>"

text \<open>A builder holds a logger and an entry.\<close>

definition log_builder :: "structured_logger \<Rightarrow> u64 \<Rightarrow> logging_level \<Rightarrow> text \<Rightarrow> structured_logger \<times> log_entry" where
  "log_builder g now level message = (g, log_entry_new now level message)"

definition builder_request_id ::
  "text \<Rightarrow> structured_logger \<times> log_entry \<Rightarrow> structured_logger \<times> log_entry" where
  "builder_request_id request_id b = (fst b, (snd b)\<lparr>le_request_id := Some (sanitize_text request_id)\<rparr>)"

definition builder_trace_id ::
  "text \<Rightarrow> structured_logger \<times> log_entry \<Rightarrow> structured_logger \<times> log_entry" where
  "builder_trace_id trace_id b = (fst b, (snd b)\<lparr>le_trace_id := Some (sanitize_text trace_id)\<rparr>)"

definition builder_field ::
  "text \<Rightarrow> log_value \<Rightarrow> structured_logger \<times> log_entry \<Rightarrow> structured_logger \<times> log_entry" where
  "builder_field key v b =
     (fst b, (snd b)\<lparr>le_fields := hm_insert (sanitize_field_key key) (sanitize_log_value key v) (le_fields (snd b))\<rparr>)"

definition builder_emit :: "structured_logger \<times> log_entry \<Rightarrow> structured_logger \<times> text option" where
  "builder_emit b = log_emit (snd b) (fst b)"

section \<open>The calendar\<close>

text \<open>The days of the Gregorian calendar before a year, and the number of a date from 1970-01-01.\<close>

definition year_start :: "int \<Rightarrow> int" where
  "year_start y = 365 * (y - 1) + (y - 1) div 4 - (y - 1) div 100 + (y - 1) div 400"

definition valid_date :: "int \<Rightarrow> int \<Rightarrow> int \<Rightarrow> bool" where
  "valid_date y m d \<longleftrightarrow> 1 \<le> m \<and> m \<le> 12 \<and> 1 \<le> d \<and> d \<le> days_in_months y ! nat (m - 1)"

definition day_number :: "int \<Rightarrow> int \<Rightarrow> int \<Rightarrow> int" where
  "day_number y m d = year_start y - year_start 1970 + sum_list (take (nat (m - 1)) (days_in_months y)) + d - 1"

lemma div_step:
  assumes "(0 :: int) < k"
  shows "(y - 1) div k = (if y mod k = 0 then y div k - 1 else y div k)"
proof -
  have y: "y = k * (y div k) + y mod k" "0 \<le> y mod k" "y mod k < k" using assms by simp_all
  show ?thesis
  proof (cases "y mod k = 0")
    case True
    have "k * (y div k - 1) = k * (y div k) - k" by (simp add: right_diff_distrib)
    then have "y - 1 = k * (y div k - 1) + (k - 1)" using y(1) True by linarith
    then have "(y - 1) div k = y div k - 1" by (rule int_div_pos_eq) (use assms in auto)
    then show ?thesis using True by simp
  next
    case False
    have "y - 1 = k * (y div k) + (y mod k - 1)" using y(1) by simp
    then have "(y - 1) div k = y div k" by (rule int_div_pos_eq) (use False y(2,3) in auto)
    then show ?thesis using False by simp
  qed
qed

lemma year_start_Suc: "year_start (y + 1) = year_start y + days_in_year y"
proof -
  have "y mod 100 = 0 \<Longrightarrow> y mod 4 = 0"
    using dvd_trans [of 4 100 y] by (simp add: dvd_eq_mod_eq_0 [symmetric])
  moreover have "y mod 400 = 0 \<Longrightarrow> y mod 100 = 0"
    using dvd_trans [of 100 400 y] by (simp add: dvd_eq_mod_eq_0 [symmetric])
  ultimately show ?thesis
    using div_step [of 4 y] div_step [of 100 y] div_step [of 400 y]
    by (auto simp: year_start_def days_in_year_def is_leap_year_def)
qed

lemma days_in_year_pos: "0 < days_in_year y"
  by (simp add: days_in_year_def)

lemma year_loop_sound:
  "0 \<le> r \<Longrightarrow> year_loop r y = (r', y') \<Longrightarrow>
   y \<le> y' \<and> 0 \<le> r' \<and> r' < days_in_year y' \<and> r' + year_start y' = r + year_start y"
proof (induction r y rule: year_loop.induct)
  case (1 r y)
  show ?case
  proof (cases "r < days_in_year y")
    case True
    then show ?thesis using 1 by (simp add: year_loop.simps [of r y])
  next
    case False
    then have "year_loop (r - days_in_year y) (y + 1) = (r', y')"
      using 1 by (simp add: year_loop.simps [of r y])
    from 1(1) [OF False _ this] show ?thesis using False year_start_Suc [of y] by simp
  qed
qed

lemma month_loop_sound:
  "0 \<le> r \<Longrightarrow> r < sum_list ms \<Longrightarrow> month_loop ms r m = (r', m') \<Longrightarrow>
   \<exists>k < length ms. m' = m + int k \<and> 0 \<le> r' \<and> r' < ms ! k \<and> r = r' + sum_list (take k ms)"
proof (induction ms arbitrary: r m)
  case (Cons d ms)
  show ?case
  proof (cases "r < d")
    case True
    then show ?thesis using Cons.prems by (intro exI [of _ 0]) simp
  next
    case False
    with Cons.IH [of "r - d" "m + 1"] Cons.prems obtain k where
      "k < length ms" "m' = m + 1 + int k" "0 \<le> r'" "r' < ms ! k" "r - d = r' + sum_list (take k ms)"
      by auto
    then show ?thesis by (intro exI [of _ "Suc k"]) simp
  qed
qed simp

lemma sum_days_in_months: "sum_list (days_in_months y) = days_in_year y"
  by (simp add: days_in_months_def days_in_year_def)

lemma days_to_ymd_exact:
  assumes "0 \<le> days" and "days_to_ymd days = (y, m, d)"
  shows "1970 \<le> y \<and> valid_date y m d \<and> day_number y m d = days"
proof -
  obtain r y' where y: "year_loop days 1970 = (r, y')" by fastforce
  obtain r' m' where m: "month_loop (days_in_months y') r 1 = (r', m')" by fastforce
  have e: "y = y'" "m = m'" "d = r' + 1" using assms(2) y m by (simp_all add: days_to_ymd_def)
  have year: "1970 \<le> y" "0 \<le> r" "r < days_in_year y" "r + year_start y = days + year_start 1970"
    using year_loop_sound [OF assms(1) y] by (simp_all add: e)
  then obtain k where "k < length (days_in_months y)" "m = 1 + int k" "0 \<le> r'" "r' < days_in_months y ! k"
    "r = r' + sum_list (take k (days_in_months y))"
    using month_loop_sound [OF year(2) _ m] by (auto simp: e sum_days_in_months)
  moreover have "length (days_in_months y) = 12" by (simp add: days_in_months_def)
  ultimately show ?thesis using year by (simp add: valid_date_def day_number_def e)
qed

lemma time_parts:
  "(t :: int) = a * 3600 + b \<Longrightarrow> b = m * 60 + s \<Longrightarrow> x = (n * 86400 + t) * 1000 + r \<Longrightarrow>
   x = (((n * 24 + a) * 60 + m) * 60 + s) * 1000 + r"
  by simp

text \<open>The timestamp of a log line is the Gregorian date and time of its instant: the text is a valid date from 1970 on
  and a time of day, each part padded to its width, whose distance from the start of 1970 is the reading in milliseconds.\<close>

theorem log_timestamp_exact:
  "\<exists>year month day hours minutes seconds ms.
     1970 \<le> year \<and> valid_date year month day \<and> 0 \<le> hours \<and> hours < 24 \<and> 0 \<le> minutes \<and> minutes < 60 \<and>
     0 \<le> seconds \<and> seconds < 60 \<and> 0 \<le> ms \<and> ms < 1000 \<and>
     uint millis = (((day_number year month day * 24 + hours) * 60 + minutes) * 60 + seconds) * 1000 + ms \<and>
     format_timestamp millis =
       padded 4 year @ ascii ''-'' @ padded 2 month @ ascii ''-'' @ padded 2 day @ ascii ''T'' @
       padded 2 hours @ ascii '':'' @ padded 2 minutes @ ascii '':'' @ padded 2 seconds @ ascii ''.'' @
       padded 3 ms @ ascii ''Z''"
proof -
  define secs where "secs = uint millis div 1000"
  define tod where "tod = secs mod 86400"
  obtain year month day where ymd: "days_to_ymd (secs div 86400) = (year, month, day)" by (cases "days_to_ymd (secs div 86400)")
  have "0 \<le> secs" using pos_imp_zdiv_nonneg_iff [of 1000 "uint millis"] by (simp add: secs_def)
  then have date: "1970 \<le> year" "valid_date year month day" "day_number year month day = secs div 86400"
    using days_to_ymd_exact [OF _ ymd] by (simp_all add: pos_imp_zdiv_nonneg_iff)
  have tod: "0 \<le> tod" "tod < 86400" by (simp_all add: tod_def)
  have time: "0 \<le> tod div 3600" "tod div 3600 < 24" "0 \<le> tod mod 3600 div 60" "tod mod 3600 div 60 < 60"
  proof -
    have parts: "tod = tod div 3600 * 3600 + tod mod 3600" "0 \<le> tod mod 3600" "tod mod 3600 < 3600" by simp_all
    have minutes: "tod mod 3600 = tod mod 3600 div 60 * 60 + tod mod 3600 mod 60" "0 \<le> tod mod 3600 mod 60" by simp_all
    show "0 \<le> tod div 3600" using tod by (simp add: pos_imp_zdiv_nonneg_iff)
    show "0 \<le> tod mod 3600 div 60" using parts by (simp add: pos_imp_zdiv_nonneg_iff)
    show "tod div 3600 < 24" using tod parts by linarith
    show "tod mod 3600 div 60 < 60" using parts minutes by linarith
  qed
  have instant: "uint millis = (((day_number year month day * 24 + tod div 3600) * 60 + tod mod 3600 div 60) * 60 + tod mod 60) * 1000 +
      uint millis mod 1000"
  proof -
    have "tod = tod div 3600 * 3600 + tod mod 3600" by simp
    moreover have "tod mod 3600 = tod mod 3600 div 60 * 60 + tod mod 60"
      using mod_mod_cancel [of 60 3600 tod] by (simp add: minus_mod_eq_div_mult [symmetric])
    moreover have "uint millis = (day_number year month day * 86400 + tod) * 1000 + uint millis mod 1000"
      by (simp add: date(3) tod_def) (simp add: secs_def)
    ultimately show ?thesis by (rule time_parts)
  qed
  have fmt: "format_timestamp millis =
      padded 4 year @ ascii ''-'' @ padded 2 month @ ascii ''-'' @ padded 2 day @ ascii ''T'' @
      padded 2 (tod div 3600) @ ascii '':'' @ padded 2 (tod mod 3600 div 60) @ ascii '':'' @ padded 2 (tod mod 60) @ ascii ''.'' @
      padded 3 (uint millis mod 1000) @ ascii ''Z''"
    unfolding format_timestamp_def Let_def secs_def [symmetric] ymd tod_def [symmetric] by simp
  have small: "0 \<le> tod mod 60" "tod mod 60 < 60" "0 \<le> uint millis mod 1000" "uint millis mod 1000 < 1000"
    by simp_all
  show ?thesis
    by (intro exI [of _ year] exI [of _ month] exI [of _ day] exI [of _ "tod div 3600"]
        exI [of _ "tod mod 3600 div 60"] exI [of _ "tod mod 60"] exI [of _ "uint millis mod 1000"] conjI)
      (fact date(1) date(2) time small instant fmt)+
qed

section \<open>Reading a JSON line back\<close>

text \<open>A reader of an object whose members are strings and literals, with no spaces: what a log line is made of.\<close>

type_synonym json_scalar = "text + text"

definition read_scalar :: "text \<Rightarrow> (json_scalar \<times> text) option" where
  "read_scalar t =
     (case t of
        [] \<Rightarrow> None
      | c # r \<Rightarrow>
          if c = 34 then map_option (\<lambda>(s, rest). (Inl s, rest)) (read_string r)
          else
            let l = takeWhile (\<lambda>c. c \<noteq> 44 \<and> c \<noteq> 125) t
            in if json_literal l then Some (Inr l, dropWhile (\<lambda>c. c \<noteq> 44 \<and> c \<noteq> 125) t) else None)"

definition read_member :: "text \<Rightarrow> ((text \<times> json_scalar) \<times> text) option" where
  "read_member t =
     (case t of
        c # r \<Rightarrow>
          if c = 34 then
            (case read_string r of
               Some (k, d # r') \<Rightarrow>
                 if d = 58 then map_option (\<lambda>(v, rest). ((k, v), rest)) (read_scalar r') else None
             | _ \<Rightarrow> None)
          else None
      | [] \<Rightarrow> None)"

fun read_members :: "nat \<Rightarrow> text \<Rightarrow> (text \<times> json_scalar) list option" where
  "read_members 0 t = None"
| "read_members (Suc n) t =
     (case read_member t of
        Some (m, c # rest) \<Rightarrow>
          if c = 125 \<and> rest = [] then Some [m]
          else if c = 44 then map_option (\<lambda>ms. m # ms) (read_members n rest)
          else None
      | _ \<Rightarrow> None)"

definition read_object :: "text \<Rightarrow> (text \<times> json_scalar) list option" where
  "read_object t =
     (case t of c # r \<Rightarrow> if c = 123 then read_members (length r) r else None | [] \<Rightarrow> None)"

definition scalar_text :: "json_scalar \<Rightarrow> text" where
  "scalar_text v = (case v of Inl s \<Rightarrow> escape_json_string s | Inr l \<Rightarrow> l)"

definition member_text :: "text \<times> json_scalar \<Rightarrow> text" where
  "member_text m = escape_json_string (fst m) @ [58] @ scalar_text (snd m)"

definition scalar_ok :: "json_scalar \<Rightarrow> bool" where
  "scalar_ok v \<longleftrightarrow> (case v of Inl s \<Rightarrow> True | Inr l \<Rightarrow> json_literal l)"

lemma literal_chars:
  assumes "json_literal l"
  shows "l \<noteq> []" "hd l \<noteq> 34" "\<forall>c \<in> set l. 32 \<le> c \<and> c \<noteq> 44 \<and> c \<noteq> 125"
proof -
  have mag: "m \<noteq> [] \<and> hd m \<noteq> 34 \<and> (\<forall>c \<in> set m. 32 \<le> c \<and> c \<noteq> 44 \<and> c \<noteq> 125)" if m: "magnitude_text m" for m
  proof -
    let ?n = "takeWhile (\<lambda>c. c \<noteq> 46) m" and ?r = "dropWhile (\<lambda>c. c \<noteq> 46) m"
    have n: "?n \<noteq> []" "\<forall>c \<in> set ?n. 48 \<le> c \<and> c \<le> 57"
      using m by (auto simp: magnitude_text_def natural_text_def list_all_iff is_ascii_digit_def Let_def)
    have "c = 46 \<or> 48 \<le> c \<and> c \<le> 57" if "c \<in> set ?r" for c
      using m that hd_dropWhile [of "\<lambda>c. c \<noteq> 46" m]
      by (cases ?r) (auto simp: magnitude_text_def list_all_iff is_ascii_digit_def Let_def)
    with n(2) have "\<forall>c \<in> set (?n @ ?r). c = 46 \<or> 48 \<le> c \<and> c \<le> 57"
      by (simp only: set_append) blast
    then have all: "\<forall>c \<in> set m. c = 46 \<or> 48 \<le> c \<and> c \<le> 57" by (simp only: takeWhile_dropWhile_id)
    moreover have "m \<noteq> []" using n(1) by auto
    ultimately show ?thesis by (cases m) auto
  qed
  consider "l \<in> {ascii ''true'', ascii ''false'', ascii ''null''}" | "magnitude_text l" | r where "l = 45 # r" "magnitude_text r"
    using assms by (auto simp: json_literal_def split: list.splits if_splits)
  then have "l \<noteq> [] \<and> hd l \<noteq> 34 \<and> (\<forall>c \<in> set l. 32 \<le> c \<and> c \<noteq> 44 \<and> c \<noteq> 125)"
  proof cases
    case 1
    then show ?thesis by (auto simp: ascii_def)
  next
    case 2
    then show ?thesis by (rule mag)
  next
    case (3 r)
    then show ?thesis using mag [of r] by simp
  qed
  then show "l \<noteq> []" "hd l \<noteq> 34" "\<forall>c \<in> set l. 32 \<le> c \<and> c \<noteq> 44 \<and> c \<noteq> 125" by blast+
qed

lemma read_scalar_text:
  assumes "scalar_ok v" and "c = 44 \<or> c = 125"
  shows "read_scalar (scalar_text v @ c # rest) = Some (v, c # rest)"
proof (cases v)
  case (Inl s)
  then show ?thesis
    by (simp add: scalar_text_def read_scalar_def escape_json_string_def read_escaped)
next
  case (Inr l)
  then have l: "json_literal l" using assms(1) by (simp add: scalar_ok_def)
  then obtain d r where d: "l = d # r" "d \<noteq> 34"
    using literal_chars [OF l] by (cases l) auto
  have "takeWhile (\<lambda>c. c \<noteq> 44 \<and> c \<noteq> 125) (l @ c # rest) = l"
    "dropWhile (\<lambda>c. c \<noteq> 44 \<and> c \<noteq> 125) (l @ c # rest) = c # rest"
    using literal_chars(3) [OF l] assms(2) by (auto simp: takeWhile_append dropWhile_append)
  moreover have "l @ c # rest = d # r @ c # rest" by (simp add: d)
  ultimately show ?thesis using l d Inr by (auto simp: scalar_text_def read_scalar_def Let_def)
qed

lemma read_member_text:
  assumes "scalar_ok (snd m)" and "c = 44 \<or> c = 125"
  shows "read_member (member_text m @ c # rest) = Some (m, c # rest)"
  using read_scalar_text [OF assms, of rest]
  by (simp add: member_text_def read_member_def escape_json_string_def read_escaped)

lemma read_members_text:
  "ms \<noteq> [] \<Longrightarrow> list_all (\<lambda>m. scalar_ok (snd m)) ms \<Longrightarrow> length ms \<le> n \<Longrightarrow>
   read_members n (butlast (concat (map (\<lambda>m. member_text m @ [44]) ms)) @ [125]) = Some ms"
proof (induction ms arbitrary: n)
  case (Cons m ms)
  then obtain n' where n: "n = Suc n'" by (cases n) auto
  show ?case
  proof (cases "ms = []")
    case True
    then show ?thesis using Cons.prems read_member_text [of m 125 "[]"] by (simp add: n butlast_append)
  next
    case False
    then have "concat (map (\<lambda>m. member_text m @ [44]) ms) \<noteq> []" by (cases ms) auto
    then have "butlast (concat (map (\<lambda>m. member_text m @ [44]) (m # ms))) @ [125] =
        member_text m @ 44 # butlast (concat (map (\<lambda>m. member_text m @ [44]) ms)) @ [125]"
      by (simp add: butlast_append)
    moreover have "read_members n' (butlast (concat (map (\<lambda>m. member_text m @ [44]) ms)) @ [125]) = Some ms"
      using Cons.IH [OF False] Cons.prems by (simp add: n)
    ultimately show ?thesis using Cons.prems by (simp add: n read_member_text)
  qed
qed simp

text \<open>The members a log line has.\<close>

fun log_scalar :: "log_value \<Rightarrow> json_scalar" where
  "log_scalar (LogString s) = Inl s"
| "log_scalar v = Inr (log_value_display v)"

definition optional_member :: "string \<Rightarrow> ('a \<Rightarrow> json_scalar) \<Rightarrow> 'a option \<Rightarrow> (text \<times> json_scalar) list" where
  "optional_member name f v = (case v of None \<Rightarrow> [] | Some x \<Rightarrow> [(ascii name, f x)])"

definition entry_members :: "text \<Rightarrow> log_entry \<Rightarrow> (text \<times> json_scalar) list" where
  "entry_members service e =
     [(ascii ''timestamp'', Inr (decimal (unat (le_timestamp e)))),
      (ascii ''level'', Inl (log_level_name (le_level e))),
      (ascii ''message'', Inl (le_message e)),
      (ascii ''service'', Inl (sanitize_text service))] @
     optional_member ''request_id'' Inl (le_request_id e) @
     optional_member ''trace_id'' Inl (le_trace_id e) @
     optional_member ''file'' Inl (le_file e) @
     optional_member ''line'' (\<lambda>n. Inr (decimal (unat n))) (le_line e) @
     map (\<lambda>(k, v). (k, log_scalar v)) (le_fields e)"

fun finite_log_value :: "log_value \<Rightarrow> bool" where
  "finite_log_value (LogFloat d) = f64_is_finite d"
| "finite_log_value v = True"

lemma scalar_text_log: "scalar_text (log_scalar v) = log_value_json v"
  by (cases v) (simp_all add: scalar_text_def log_value_json_def)

lemma scalar_ok_log: "finite_log_value v \<Longrightarrow> scalar_ok (log_scalar v)"
  by (cases v) (simp_all add: scalar_ok_def json_literal_decimal_int json_literal_display bool_text_def json_literal_bool)

lemma escape_plain: "\<forall>c \<in> set s. 32 \<le> c \<and> c < 127 \<and> c \<noteq> 34 \<and> c \<noteq> 92 \<Longrightarrow> escape_json_string s = [34] @ s @ [34]"
  unfolding escape_json_string_def
  by (induction s) (simp_all add: escape_char_def char_is_control_def)

lemma quoted_escape: "\<forall>c \<in> set (ascii s). 32 \<le> c \<and> c < 127 \<and> c \<noteq> 34 \<and> c \<noteq> 92 \<Longrightarrow> quoted s = escape_json_string (ascii s)"
  by (simp add: quoted_def escape_plain)

lemma level_name_escape: "escape_json_string (log_level_name l) = [34] @ log_level_name l @ [34]"
  by (cases l) (simp_all add: escape_plain ascii_def)

lemma optional_member_text:
  assumes "\<forall>c \<in> set (ascii name). 32 \<le> c \<and> c < 127 \<and> c \<noteq> 34 \<and> c \<noteq> 92"
  shows "concat (map (\<lambda>m. member_text m @ [44]) (optional_member name f v)) =
    optional_text (\<lambda>x. quoted name @ [58] @ scalar_text (f x) @ [44]) v"
  by (cases v) (simp_all add: optional_member_def optional_text_def member_text_def quoted_escape [OF assms])

lemma entry_to_json_members:
  "entry_to_json service e =
     [123] @ butlast (concat (map (\<lambda>m. member_text m @ [44]) (entry_members service (log_sanitized_copy e)))) @ [125]"
proof -
  let ?E = "log_sanitized_copy e"
  let ?ms = "concat (map (\<lambda>m. member_text m @ [44]) (entry_members service ?E))"
  have fields: "concat (map (\<lambda>m. member_text m @ [44]) (map (\<lambda>(k, v). (k, log_scalar v)) kvs)) =
      concat (map (\<lambda>(safe_key, v). escape_json_string safe_key @ [58] @ log_value_json v @ [44]) kvs)" for kvs
    by (induction kvs) (auto simp: member_text_def scalar_text_log)
  have plain: "\<forall>c \<in> set (ascii s). 32 \<le> c \<and> c < 127 \<and> c \<noteq> 34 \<and> c \<noteq> 92"
    if "s \<in> {''timestamp'', ''level'', ''message'', ''service'', ''request_id'', ''trace_id'', ''file'', ''line''}" for s
    using that by (auto simp: ascii_def)
  have ms: "?ms =
      quoted ''timestamp'' @ [58] @ decimal (unat (le_timestamp ?E)) @ [44] @
      quoted ''level'' @ [58] @ [34] @ log_level_name (le_level ?E) @ [34] @ [44] @
      quoted ''message'' @ [58] @ escape_json_string (le_message ?E) @ [44] @
      quoted ''service'' @ [58] @ escape_json_string (sanitize_text service) @ [44] @
      optional_text (\<lambda>x. quoted ''request_id'' @ [58] @ escape_json_string x @ [44]) (le_request_id ?E) @
      optional_text (\<lambda>x. quoted ''trace_id'' @ [58] @ escape_json_string x @ [44]) (le_trace_id ?E) @
      optional_text (\<lambda>x. quoted ''file'' @ [58] @ escape_json_string x @ [44]) (le_file ?E) @
      optional_text (\<lambda>x. quoted ''line'' @ [58] @ decimal (unat x) @ [44]) (le_line ?E) @
      concat (map (\<lambda>(safe_key, v). escape_json_string safe_key @ [58] @ log_value_json v @ [44]) (le_fields ?E))"
    by (simp only: entry_members_def map_append concat_append fields optional_member_text [OF plain] insert_iff simp_thms
        list.map concat.simps)
      (simp add: member_text_def quoted_escape [OF plain] level_name_escape scalar_text_def)
  have "?ms \<noteq> [] \<and> last ?ms = 44"
    by (cases "entry_members service ?E" rule: rev_cases) (simp_all add: entry_members_def)
  then have "last ([123] @ ?ms) = 44" "butlast ([123] @ ?ms) = [123] @ butlast ?ms" by simp_all
  then show ?thesis unfolding entry_to_json_def Let_def ms [symmetric] by simp
qed

lemma entry_members_ok:
  assumes "list_all (finite_log_value \<circ> snd) (le_fields (log_sanitized_copy e))"
  shows "list_all (\<lambda>m. scalar_ok (snd m)) (entry_members service (log_sanitized_copy e))"
  using assms scalar_ok_log
  by (auto simp: entry_members_def optional_member_def scalar_ok_def json_literal_decimal list_all_iff split: option.splits)

lemma log_line_readable:
  assumes "list_all (finite_log_value \<circ> snd) (le_fields (log_sanitized_copy e))"
  shows "read_object (entry_to_json service e) = Some (entry_members service (log_sanitized_copy e))"
proof -
  let ?ms = "entry_members service (log_sanitized_copy e)"
  let ?t = "butlast (concat (map (\<lambda>m. member_text m @ [44]) ?ms)) @ [125]"
  have "length ms \<le> length (concat (map (\<lambda>m. member_text m @ [44]) ms))" for ms
    by (induction ms) auto
  from this [of ?ms] have "length ?ms \<le> length ?t" by simp
  moreover have "?ms \<noteq> []" by (simp add: entry_members_def)
  ultimately have "read_members (length ?t) ?t = Some ?ms"
    using read_members_text [OF _ entry_members_ok [OF assms]] by blast
  moreover have "entry_to_json service e = 123 # ?t" by (simp add: entry_to_json_members)
  ultimately show ?thesis unfolding read_object_def by (simp del: read_members.simps length_append)
qed

lemma member_printable: "scalar_ok (snd m) \<Longrightarrow> \<forall>c \<in> set (member_text m). 32 \<le> c"
  using literal_chars(3) escaped_printable
  by (auto simp: member_text_def scalar_text_def scalar_ok_def split: sum.splits)

lemma log_line_printable:
  assumes "list_all (finite_log_value \<circ> snd) (le_fields (log_sanitized_copy e))"
  shows "list_all (\<lambda>c. 32 \<le> c) (entry_to_json service e)"
proof -
  let ?ms = "entry_members service (log_sanitized_copy e)"
  have "\<forall>m \<in> set ?ms. \<forall>c \<in> set (member_text m). 32 \<le> c"
    using entry_members_ok [OF assms, of service] member_printable unfolding list_all_iff by blast
  then have "\<forall>c \<in> set (concat (map (\<lambda>m. member_text m @ [44]) ?ms)). 32 \<le> c" by auto
  then show ?thesis by (auto simp: entry_to_json_members list_all_iff dest: in_set_butlastD)
qed

text \<open>C40: The JSON line of an entry whose doubles are finite is one line of printable characters, and reading it as a
  JSON object gives exactly the members of the sanitized entry: no text, whatever it contains, can end its
  string early or add a member.\<close>

theorem log_line_reads_back:
  assumes "list_all (finite_log_value \<circ> snd) (le_fields (log_sanitized_copy e))"
  shows "read_object (entry_to_json service e) = Some (entry_members service (log_sanitized_copy e)) \<and>
    list_all (\<lambda>c. 32 \<le> c) (entry_to_json service e)"
  using log_line_readable [OF assms] log_line_printable [OF assms] by blast

definition sample_entry :: log_entry where
  "sample_entry = log_with_field (ascii ''n'') (LogInt 5) (log_entry_new 1 LvInfo (ascii ''a'' @ [34, 10] @ ascii ''b''))"

lemma sample_entry_copy:
  "log_sanitized_copy sample_entry =
     \<lparr>le_level = LvInfo, le_message = ascii ''a'' @ [34, 10] @ ascii ''b'', le_timestamp = 1, le_request_id = None,
      le_trace_id = None, le_fields = [(ascii ''n'', LogInt 5)], le_file = None, le_line = None\<rparr>"
  by code_simp

theorem log_line_reads_back_witness:
  "read_object (entry_to_json (ascii ''svc'') sample_entry) =
     Some (entry_members (ascii ''svc'') (log_sanitized_copy sample_entry)) \<and>
   list_all (\<lambda>c. 32 \<le> c) (entry_to_json (ascii ''svc'') sample_entry) \<and>
   le_message (log_sanitized_copy sample_entry) = ascii ''a'' @ [34, 10] @ ascii ''b''"
proof -
  have "list_all (finite_log_value \<circ> snd) (le_fields (log_sanitized_copy sample_entry))"
    by (simp add: sample_entry_copy)
  from log_line_reads_back [OF this, of "ascii ''svc''"] show ?thesis by (simp add: sample_entry_copy)
qed

text \<open>A double that is not finite is written as Rust prints it, which is not JSON.\<close>

lemma nan_breaks_log_line:
  "read_object (entry_to_json [] (log_with_field (ascii ''x'') (LogFloat f64_nan) (log_entry_new 1 LvInfo []))) = None"
proof -
  define e where "e = log_with_field (ascii ''x'') (LogFloat f64_nan) (log_entry_new 1 LvInfo [])"
  have copy: "log_sanitized_copy e = \<lparr>le_level = LvInfo, le_message = [], le_timestamp = 1, le_request_id = None,
      le_trace_id = None, le_fields = [(ascii ''x'', LogFloat f64_nan)], le_file = None, le_line = None\<rparr>"
    unfolding e_def by code_simp
  have quiet: "\<not> looks_sensitive_value []" by code_simp
  have nan: "f64_display f64_nan = ascii ''NaN''"
    by (simp add: f64_display_def f64_is_nan_def f64_nan_def)
  have "entry_to_json [] e = ascii ''{'' @ quoted ''timestamp'' @ ascii '':1,'' @ quoted ''level'' @ ascii '':'' @ quoted ''INFO'' @
      ascii '','' @ quoted ''message'' @ ascii '':'' @ quoted [] @ ascii '','' @ quoted ''service'' @ ascii '':'' @ quoted [] @
      ascii '','' @ quoted ''x'' @ ascii '':NaN}''"
    unfolding entry_to_json_def copy Let_def
    by (simp add: optional_text_def log_value_json_def nan escape_json_string_def escape_char_def char_is_control_def quoted_def
        sanitize_text_def quiet decimal.simps ascii_def)
  then show ?thesis unfolding e_def [symmetric] by (simp only:) code_simp
qed

text \<open>A caller's field named like a member of every line gives a second member of that name.\<close>

lemma field_repeats_level:
  "map_option (map fst) (read_object (entry_to_json []
     (log_with_field (ascii ''level'') LogNull (log_entry_new 1 LvInfo [])))) =
   Some (map ascii [''timestamp'', ''level'', ''message'', ''service'', ''level''])"
  by code_simp

text \<open>The text format does not escape: a line break in a message starts a line of its own.\<close>

lemma text_message_raw:
  assumes "\<not> looks_sensitive_value m"
  shows "entry_to_text (log_entry_new now level m) =
    format_timestamp now @ ascii '' ['' @ log_level_name level @ ascii ''] '' @ m"
  using assms by (simp add: entry_to_text_def log_sanitized_copy_def log_entry_new_def sanitize_text_def optional_text_def)

section \<open>No secret reaches the sink\<close>

fun log_value_quiet :: "log_value \<Rightarrow> bool" where
  "log_value_quiet (LogString s) \<longleftrightarrow> \<not> looks_sensitive_value s"
| "log_value_quiet v \<longleftrightarrow> True"

definition entry_clean :: "log_entry \<Rightarrow> bool" where
  "entry_clean e \<longleftrightarrow>
     \<not> looks_sensitive_value (le_message e) \<and>
     list_all (\<lambda>t. case t of None \<Rightarrow> True | Some x \<Rightarrow> \<not> looks_sensitive_value x)
       [le_request_id e, le_trace_id e, le_file e] \<and>
     fields_clean log_value_quiet (LogString REDACTED) (le_fields e)"

interpretation log_fields: field_sanitizer sanitize_log_value log_value_quiet "LogString REDACTED"
proof
  show "is_sensitive_key k \<Longrightarrow> sanitize_log_value k v = LogString REDACTED" for k v
    by (cases v) (simp_all add: sanitize_field_value_def)
  show "log_value_quiet (sanitize_log_value k v)" for k v
    by (cases v) (simp_all add: sanitized_not_sensitive REDACTED_not_sensitive)
qed

lemma sanitized_copy_clean: "entry_clean (log_sanitized_copy e)"
  using log_fields.clean_inserts [OF log_fields.clean_empty, of "le_fields e"]
  by (simp add: entry_clean_def log_sanitized_copy_def sanitized_not_sensitive split: option.splits)

datatype logger_op = OpSetLevel logging_level | OpEmit log_entry | OpClear

fun logger_step :: "structured_logger \<Rightarrow> logger_op \<Rightarrow> structured_logger \<times> text option" where
  "logger_step g (OpSetLevel level) = (log_set_level level g, None)"
| "logger_step g (OpEmit e) = log_emit e g"
| "logger_step g OpClear = (log_clear g, None)"

lemma logger_sink_clean:
  "list_all entry_clean (sg_sink g) \<Longrightarrow> list_all entry_clean (sg_sink (run_ops logger_step g ops))"
proof (induction ops arbitrary: g)
  case (Cons op ops)
  have "list_all entry_clean (sg_sink (fst (logger_step g op)))"
    using Cons.prems by (cases op) (simp_all add: log_set_level_def log_emit_def log_clear_def Let_def sanitized_copy_clean)
  then show ?case using Cons.IH by simp
qed simp

text \<open>Whatever entries are emitted, with whatever level changes and clearings between, an entry in the logger's sink has no
  text that looks like a secret, no field key that does, and nothing but the placeholder under a sensitive field key.\<close>

theorem logged_entries_clean:
  "list_all entry_clean (log_entries (run_ops logger_step (logger_new config) ops))"
  unfolding log_entries_def by (rule logger_sink_clean) (simp add: logger_new_def)

end
