(* ===== verification/Tracing.thy ===== *)
theory Tracing
  imports Formats
begin

text \<open>
  Tracing (\<open>src/src/observability/tracing.rs\<close>): request ids, spans with their attributes and events, request spans
  and the collector. Clock readings are arguments, the monotonic clock a number of nanoseconds; the process-wide
  counter of span ids is passed along.
\<close>

section \<open>Identifiers\<close>

record tracing_config =
  tc_service_name :: "text"
  tc_enabled :: bool
  tc_sample_rate :: u64
  tc_otlp_endpoint :: "text option"
  tc_include_bodies :: bool

definition tracing_config_default :: tracing_config where
  "tracing_config_default = \<lparr>tc_service_name = ascii ''dcp-server'', tc_enabled = True,
     tc_sample_rate = 0x3FF0000000000000, tc_otlp_endpoint = None, tc_include_bodies = False\<rparr>"

record request_id_generator =
  rg_counter :: u64
  rg_node_id :: u16

definition generator_with_node_id :: "u16 \<Rightarrow> request_id_generator" where
  "generator_with_node_id node_id = \<lparr>rg_counter = 0, rg_node_id = node_id\<rparr>"

definition generator_new :: request_id_generator where
  "generator_new = generator_with_node_id 0"

text \<open>\<open>{:x}-{:04x}-{:08x}\<close> of the clock, the node and the counter, which \<open>fetch_add\<close> reads and increments in one step.\<close>

definition request_id_text :: "u64 \<Rightarrow> u16 \<Rightarrow> u64 \<Rightarrow> text" where
  "request_id_text timestamp node_id counter =
     hex (unat timestamp) @ ascii ''-'' @ zero_pad 4 (hex (unat node_id)) @ ascii ''-'' @ zero_pad 8 (hex (unat counter))"

definition generate_request_id :: "u64 \<Rightarrow> request_id_generator \<Rightarrow> request_id_generator \<times> text" where
  "generate_request_id timestamp g =
     (let counter = rg_counter g
      in (g\<lparr>rg_counter := counter + 1\<rparr>, request_id_text timestamp (rg_node_id g) counter))"

definition generate_span_id :: "u64 \<Rightarrow> u64 \<Rightarrow> u64 \<times> text" where
  "generate_span_id random counter = (counter + 1, zero_pad 16 (hex (unat (counter XOR random))))"

definition generate_trace_id :: "u64 \<Rightarrow> u64 \<Rightarrow> text" where
  "generate_trace_id timestamp random = zero_pad 16 (hex (unat timestamp)) @ zero_pad 16 (hex (unat random))"

section \<open>Spans\<close>

datatype span_status = SpanOk | SpanError | SpanCancelled

datatype span_kind = SpanInternal | SpanServer | SpanClient | SpanProducer | SpanConsumer

datatype span_value = SpanString "text" | SpanInt "64 word" | SpanFloat u64 | SpanBool bool

record span_event =
  ev_name :: "text"
  ev_timestamp :: nat
  ev_attributes :: "(text, span_value) hmap"

record span_data =
  sp_name :: "text"
  sp_trace_id :: "text"
  sp_span_id :: "text"
  sp_parent_span_id :: "text option"
  sp_kind :: span_kind
  sp_start_time :: nat
  sp_end_time :: "nat option"
  sp_status :: span_status
  sp_attributes :: "(text, span_value) hmap"
  sp_events :: "span_event list"

fun sanitize_span_value :: "text \<Rightarrow> span_value \<Rightarrow> span_value" where
  "sanitize_span_value key (SpanString v) = SpanString (sanitize_field_value key v)"
| "sanitize_span_value key other = (if is_sensitive_key key then SpanString REDACTED else other)"

definition span_new :: "nat \<Rightarrow> text \<Rightarrow> text \<Rightarrow> text \<Rightarrow> span_data" where
  "span_new now name trace_id span_id =
     \<lparr>sp_name = sanitize_text name, sp_trace_id = trace_id, sp_span_id = span_id, sp_parent_span_id = None,
      sp_kind = SpanInternal, sp_start_time = now, sp_end_time = None, sp_status = SpanOk, sp_attributes = [],
      sp_events = []\<rparr>"

definition span_with_parent :: "text \<Rightarrow> span_data \<Rightarrow> span_data" where
  "span_with_parent parent_span_id s = s\<lparr>sp_parent_span_id := Some parent_span_id\<rparr>"

definition span_with_kind :: "span_kind \<Rightarrow> span_data \<Rightarrow> span_data" where
  "span_with_kind kind s = s\<lparr>sp_kind := kind\<rparr>"

definition span_set_attribute :: "text \<Rightarrow> span_value \<Rightarrow> span_data \<Rightarrow> span_data" where
  "span_set_attribute key v s =
     s\<lparr>sp_attributes := hm_insert (sanitize_field_key key) (sanitize_span_value key v) (sp_attributes s)\<rparr>"

definition span_add_event :: "nat \<Rightarrow> text \<Rightarrow> span_data \<Rightarrow> span_data" where
  "span_add_event now name s =
     s\<lparr>sp_events := sp_events s @ [\<lparr>ev_name = sanitize_text name, ev_timestamp = now, ev_attributes = []\<rparr>]\<rparr>"

definition span_add_event_with_attributes ::
  "nat \<Rightarrow> text \<Rightarrow> (text, span_value) hmap \<Rightarrow> span_data \<Rightarrow> span_data" where
  "span_add_event_with_attributes now name attributes s =
     s\<lparr>sp_events := sp_events s @ [\<lparr>ev_name = sanitize_text name, ev_timestamp = now,
       ev_attributes = fold (\<lambda>(key, v). hm_insert (sanitize_field_key key) (sanitize_span_value key v)) attributes []\<rparr>]\<rparr>"

definition span_set_status :: "span_status \<Rightarrow> span_data \<Rightarrow> span_data" where
  "span_set_status status s = s\<lparr>sp_status := status\<rparr>"

definition span_end :: "nat \<Rightarrow> span_data \<Rightarrow> span_data" where
  "span_end now s = s\<lparr>sp_end_time := Some now\<rparr>"

definition span_duration :: "span_data \<Rightarrow> nat option" where
  "span_duration s = map_option (\<lambda>end_time. end_time - sp_start_time s) (sp_end_time s)"

text \<open>The readings a new root span takes: both of the trace id, the one of the span id, the monotonic clock.\<close>

record span_clock =
  sc_trace_nanos :: u64
  sc_subsec_nanos :: u64
  sc_span_nanos :: u64
  sc_now :: nat

definition create_span :: "span_clock \<Rightarrow> text \<Rightarrow> u64 \<Rightarrow> u64 \<times> span_data" where
  "create_span clock name counter =
     (let trace_id = generate_trace_id (sc_trace_nanos clock) (sc_subsec_nanos clock);
          (counter, span_id) = generate_span_id (sc_span_nanos clock) counter
      in (counter, span_new (sc_now clock) name trace_id span_id))"

definition create_child_span :: "span_clock \<Rightarrow> text \<Rightarrow> span_data \<Rightarrow> u64 \<Rightarrow> u64 \<times> span_data" where
  "create_child_span clock name parent counter =
     (let (counter, span_id) = generate_span_id (sc_span_nanos clock) counter
      in (counter, span_with_parent (sp_span_id parent) (span_new (sc_now clock) name (sp_trace_id parent) span_id)))"

record tracer =
  tr_config :: tracing_config
  tr_generator :: request_id_generator

definition tracer_new :: "tracing_config \<Rightarrow> tracer" where
  "tracer_new config = \<lparr>tr_config = config, tr_generator = generator_new\<rparr>"

definition tracer_request_id :: "u64 \<Rightarrow> tracer \<Rightarrow> tracer \<times> text" where
  "tracer_request_id timestamp t =
     (let (g, i) = generate_request_id timestamp (tr_generator t) in (t\<lparr>tr_generator := g\<rparr>, i))"

definition tracer_is_enabled :: "tracer \<Rightarrow> bool" where
  "tracer_is_enabled t \<longleftrightarrow> tc_enabled (tr_config t)"

section \<open>Request spans\<close>

record request_span =
  rs_span :: span_data
  rs_request_id :: "text"

definition request_span_new :: "span_clock \<Rightarrow> text \<Rightarrow> text \<Rightarrow> u64 \<Rightarrow> u64 \<times> request_span" where
  "request_span_new clock method request_id counter =
     (let (counter, s) = create_span clock method counter;
          s = span_set_attribute (ascii ''rpc.method'') (SpanString method) s;
          s = span_set_attribute (ascii ''request.id'') (SpanString request_id) s
      in (counter, \<lparr>rs_span = s\<lparr>sp_kind := SpanServer\<rparr>, rs_request_id = request_id\<rparr>))"

definition request_span_set_attribute :: "text \<Rightarrow> span_value \<Rightarrow> request_span \<Rightarrow> request_span" where
  "request_span_set_attribute key v r = r\<lparr>rs_span := span_set_attribute key v (rs_span r)\<rparr>"

definition request_span_add_event :: "nat \<Rightarrow> text \<Rightarrow> request_span \<Rightarrow> request_span" where
  "request_span_add_event now name r = r\<lparr>rs_span := span_add_event now name (rs_span r)\<rparr>"

definition request_span_set_error :: "text \<Rightarrow> request_span \<Rightarrow> request_span" where
  "request_span_set_error error_message r =
     r\<lparr>rs_span := span_set_attribute (ascii ''error.message'') (SpanString (sanitize_text error_message))
       (span_set_status SpanError (rs_span r))\<rparr>"

definition request_span_finish :: "nat \<Rightarrow> request_span \<Rightarrow> span_data" where
  "request_span_finish now r = span_end now (span_set_status SpanOk (rs_span r))"

definition request_span_finish_with_error :: "nat \<Rightarrow> text \<Rightarrow> request_span \<Rightarrow> span_data" where
  "request_span_finish_with_error now error r =
     span_end now (span_set_attribute (ascii ''error.message'') (SpanString (sanitize_text error))
       (span_set_status SpanError (rs_span r)))"

text \<open>The collector holds the spans in the order they were collected.\<close>

type_synonym span_collector = "span_data list"

definition collector_new :: span_collector where
  "collector_new = []"

definition collector_collect :: "span_data \<Rightarrow> span_collector \<Rightarrow> span_collector" where
  "collector_collect s c = c @ [s]"

definition collector_clear :: "span_collector \<Rightarrow> span_collector" where
  "collector_clear c = []"

definition collector_len :: "span_collector \<Rightarrow> nat" where
  "collector_len c = length c"

section \<open>Request ids are unique\<close>

lemma split_at_dash:
  "\<forall>c \<in> set a. c \<noteq> 45 \<Longrightarrow> \<forall>c \<in> set a'. c \<noteq> 45 \<Longrightarrow> a @ 45 # b = a' @ 45 # b' \<longleftrightarrow> a = a' \<and> b = b'"
  for b :: "nat list"
proof (induction a arbitrary: a')
  case Nil
  then show ?case by (cases a') auto
next
  case (Cons x a)
  then show ?case by (cases a') auto
qed

lemma hex_no_dash: "\<forall>c \<in> set (zero_pad w (hex n)). c \<noteq> 45" "\<forall>c \<in> set (hex n). c \<noteq> 45"
  using hex_chars [of n] zero_pad_chars [of "hex n" w] by auto

lemma padded_hex_inject: "zero_pad w (hex m) = zero_pad w (hex n) \<longleftrightarrow> m = n"
  by (metis hex_value_zero_pad)

lemma hex_inject: "hex m = hex n \<longleftrightarrow> m = n"
  by (metis hex_text_value_hex)

lemma request_id_text_inject:
  "request_id_text t n c = request_id_text t' n' c' \<longleftrightarrow> t = t' \<and> n = n' \<and> c = c'"
  by (simp add: request_id_text_def ascii_def split_at_dash hex_no_dash padded_hex_inject hex_inject
      word_unat_eq_iff)

definition generated_ids :: "request_id_generator \<Rightarrow> u64 list \<Rightarrow> text list" where
  "generated_ids g timestamps = run_outs (\<lambda>g t. generate_request_id t g) g timestamps"

lemma generated_ids_eq:
  "generated_ids g ts =
     map (\<lambda>i. request_id_text (ts ! i) (rg_node_id g) (rg_counter g + of_nat i)) [0..<length ts]"
proof (induction ts arbitrary: g)
  case Nil
  then show ?case by (simp add: generated_ids_def)
next
  case (Cons t ts)
  have "generated_ids g (t # ts) =
      request_id_text t (rg_node_id g) (rg_counter g) # generated_ids (g\<lparr>rg_counter := rg_counter g + 1\<rparr>) ts"
    by (simp add: generated_ids_def generate_request_id_def Let_def)
  also have "\<dots> = map (\<lambda>i. request_id_text ((t # ts) ! i) (rg_node_id g) (rg_counter g + of_nat i)) (0 # map Suc [0..<length ts])"
    by (simp add: Cons.IH add.assoc)
  also have "0 # map Suc [0..<length ts] = [0..<length (t # ts)]"
    by (simp add: map_Suc_upt upt_conv_Cons del: upt_Suc)
  finally show ?case .
qed

text \<open>Request ids do not repeat. One generator gives different ids as long as its counter does not come round, however its
  clock stands still or jumps and whichever of its callers comes first; generators of different nodes never give the
  same id.\<close>

theorem request_ids_unique:
  assumes "length ts \<le> 2 ^ 64"
  shows "distinct (generated_ids g ts) \<and>
    (rg_node_id g = rg_node_id h \<or> set (generated_ids g ts) \<inter> set (generated_ids h us) = {})"
proof
  have "inj_on (\<lambda>i. request_id_text (ts ! i) (rg_node_id g) (rg_counter g + of_nat i)) {0..<length ts}"
  proof (rule inj_onI)
    fix i j
    assume "i \<in> {0..<length ts}" "j \<in> {0..<length ts}"
      and "request_id_text (ts ! i) (rg_node_id g) (rg_counter g + of_nat i) =
        request_id_text (ts ! j) (rg_node_id g) (rg_counter g + of_nat j)"
    then have "(of_nat i :: u64) = of_nat j" "i < 2 ^ 64" "j < 2 ^ 64"
      using assms by (simp_all add: request_id_text_inject)
    then have "unat (of_nat i :: u64) = unat (of_nat j :: u64)" "i < 2 ^ 64" "j < 2 ^ 64" by simp_all
    then show "i = j" by (simp add: unat_of_nat)
  qed
  then show "distinct (generated_ids g ts)" by (simp add: generated_ids_eq distinct_map)
  show "rg_node_id g = rg_node_id h \<or> set (generated_ids g ts) \<inter> set (generated_ids h us) = {}"
    by (auto simp: generated_ids_eq request_id_text_inject)
qed

theorem request_ids_unique_witness:
  "distinct (generated_ids (generator_with_node_id 1) [5, 5, 4]) \<and>
   (rg_node_id (generator_with_node_id 1) = rg_node_id generator_new \<or>
    set (generated_ids (generator_with_node_id 1) [5, 5, 4]) \<inter> set (generated_ids generator_new [5]) = {})"
  by (rule request_ids_unique) simp

text \<open>A span id is the counter xor the clock, so two spans one nanosecond apart can get the same id.\<close>

lemma span_ids_collide:
  "snd (generate_span_id 2 0) = snd (generate_span_id 3 (fst (generate_span_id 2 0)))"
  by (simp add: generate_span_id_def)

text \<open>Both readings of a trace id come from the same clock: traces begun in the same nanosecond share their id.\<close>

lemma trace_ids_collide:
  "sc_trace_nanos c = sc_trace_nanos d \<Longrightarrow> sc_subsec_nanos c = sc_subsec_nanos d \<Longrightarrow>
   sp_trace_id (snd (create_span c m i)) = sp_trace_id (snd (create_span d n j))"
  by (simp add: create_span_def span_new_def generate_span_id_def)

text \<open>\<open>finish\<close> overwrites the status an earlier \<open>set_error\<close> gave.\<close>

lemma finish_hides_error: "sp_status (request_span_finish now (request_span_set_error m r)) = SpanOk"
  by (simp add: request_span_finish_def span_end_def span_set_status_def)

section \<open>No secret in a span\<close>

fun span_value_quiet :: "span_value \<Rightarrow> bool" where
  "span_value_quiet (SpanString s) \<longleftrightarrow> \<not> looks_sensitive_value s"
| "span_value_quiet v \<longleftrightarrow> True"

interpretation span_fields: field_sanitizer sanitize_span_value span_value_quiet "SpanString REDACTED"
proof
  show "is_sensitive_key k \<Longrightarrow> sanitize_span_value k v = SpanString REDACTED" for k v
    by (cases v) (simp_all add: sanitize_field_value_def)
  show "span_value_quiet (sanitize_span_value k v)" for k v
    by (cases v) (simp_all add: sanitized_not_sensitive REDACTED_not_sensitive)
qed

abbreviation attributes_clean :: "(text, span_value) hmap \<Rightarrow> bool" where
  "attributes_clean \<equiv> fields_clean span_value_quiet (SpanString REDACTED)"

definition span_clean :: "span_data \<Rightarrow> bool" where
  "span_clean s \<longleftrightarrow>
     \<not> looks_sensitive_value (sp_name s) \<and> attributes_clean (sp_attributes s) \<and>
     list_all (\<lambda>e. \<not> looks_sensitive_value (ev_name e) \<and> attributes_clean (ev_attributes e)) (sp_events s)"

datatype span_op =
    OpSetAttribute "text" span_value
  | OpAddEvent nat "text"
  | OpAddEventWith nat "text" "(text, span_value) hmap"
  | OpSetStatus span_status
  | OpSetSpanError "text"
  | OpEnd nat

fun span_step :: "request_span \<Rightarrow> span_op \<Rightarrow> request_span \<times> unit" where
  "span_step r (OpSetAttribute key v) = (request_span_set_attribute key v r, ())"
| "span_step r (OpAddEvent now name) = (request_span_add_event now name r, ())"
| "span_step r (OpAddEventWith now name attributes) =
     (r\<lparr>rs_span := span_add_event_with_attributes now name attributes (rs_span r)\<rparr>, ())"
| "span_step r (OpSetStatus status) = (r\<lparr>rs_span := span_set_status status (rs_span r)\<rparr>, ())"
| "span_step r (OpSetSpanError m) = (request_span_set_error m r, ())"
| "span_step r (OpEnd now) = (r\<lparr>rs_span := span_end now (rs_span r)\<rparr>, ())"

lemma span_set_attribute_clean: "span_clean s \<Longrightarrow> span_clean (span_set_attribute k v s)"
  using span_fields.clean_insert by (simp add: span_clean_def span_set_attribute_def)

lemma span_status_clean [simp]: "span_clean (span_set_status st s) = span_clean s" "span_clean (span_end now s) = span_clean s"
  by (simp_all add: span_clean_def span_set_status_def span_end_def)

lemma span_step_clean: "span_clean (rs_span r) \<Longrightarrow> span_clean (rs_span (fst (span_step r op)))"
proof (cases op)
  case (OpAddEvent now name)
  then show "span_clean (rs_span r) \<Longrightarrow> ?thesis"
    by (simp add: request_span_add_event_def span_add_event_def span_clean_def sanitized_not_sensitive span_fields.clean_empty)
next
  case (OpAddEventWith now name attributes)
  then show "span_clean (rs_span r) \<Longrightarrow> ?thesis"
    using span_fields.clean_inserts [OF span_fields.clean_empty, of attributes]
    by (simp add: span_add_event_with_attributes_def span_clean_def sanitized_not_sensitive)
qed (simp_all add: request_span_set_attribute_def request_span_set_error_def span_set_attribute_clean)

lemma span_new_clean: "span_clean (span_new now name trace_id span_id)"
  by (simp add: span_clean_def span_new_def sanitized_not_sensitive span_fields.clean_empty)

lemma request_span_new_clean: "span_clean (rs_span (snd (request_span_new clock method request_id counter)))"
proof -
  have "span_clean (snd (create_span clock method counter))"
    by (simp add: create_span_def span_new_clean split: prod.split)
  moreover have "span_clean (s\<lparr>sp_kind := kind\<rparr>) = span_clean s" for s kind by (simp add: span_clean_def)
  ultimately show ?thesis
    by (cases "create_span clock method counter") (simp add: request_span_new_def span_set_attribute_clean)
qed

text \<open>Whatever is recorded on a request span, the span that leaves it, finished with or without an error, has no name, event
  name, attribute key or text that looks like a secret, and nothing but the placeholder under a sensitive key.\<close>

theorem request_spans_clean:
  "span_clean (request_span_finish now
     (run_ops span_step (snd (request_span_new clock method request_id counter)) ops)) \<and>
   span_clean (request_span_finish_with_error now error
     (run_ops span_step (snd (request_span_new clock method request_id counter)) ops))"
proof -
  have "span_clean (rs_span r) \<Longrightarrow> span_clean (rs_span (run_ops span_step r ops))" for r
    by (induction ops arbitrary: r) (simp_all add: span_step_clean)
  from this [OF request_span_new_clean] show ?thesis
    by (simp add: request_span_finish_def request_span_finish_with_error_def span_set_attribute_clean)
qed

text \<open>A child span belongs to its parent's trace and names the parent.\<close>

lemma child_span_linked:
  "sp_trace_id (snd (create_child_span clock name parent counter)) = sp_trace_id parent \<and>
   sp_parent_span_id (snd (create_child_span clock name parent counter)) = Some (sp_span_id parent)"
  by (simp add: create_child_span_def generate_span_id_def span_with_parent_def span_new_def)

end
