(* ===== verification/Metrics.thy ===== *)
theory Metrics
  imports Formats
begin

text \<open>
  Metrics (\<open>src/src/observability/metrics.rs\<close>): counters, histograms, their labelled forms, the server's set and its
  Prometheus text. A method is one step, its atomic additions wrap; a hash map iterates in the order of its list;
  a duration is its seconds and nanoseconds.
\<close>

section \<open>Counters\<close>

record metrics_config =
  mc_enabled :: bool
  mc_histogram_buckets :: "u64 list"
  mc_endpoint_path :: "text"

text \<open>0.001, 0.005, 0.01, 0.025, 0.05, 0.1, 0.25, 0.5, 1.0, 2.5, 5.0 and 10.0.\<close>

definition default_buckets :: "u64 list" where
  "default_buckets =
     [0x3F50624DD2F1A9FC, 0x3F747AE147AE147B, 0x3F847AE147AE147B, 0x3F9999999999999A, 0x3FA999999999999A,
      0x3FB999999999999A, 0x3FD0000000000000, 0x3FE0000000000000, 0x3FF0000000000000, 0x4004000000000000,
      0x4014000000000000, 0x4024000000000000]"

definition metrics_config_default :: metrics_config where
  "metrics_config_default = \<lparr>mc_enabled = True, mc_histogram_buckets = default_buckets,
     mc_endpoint_path = ascii ''/metrics''\<rparr>"

type_synonym counter = u64

definition counter_new :: counter where "counter_new = 0"

definition counter_inc :: "counter \<Rightarrow> counter" where "counter_inc c = c + 1"

definition counter_add :: "u64 \<Rightarrow> counter \<Rightarrow> counter" where "counter_add v c = c + v"

definition counter_get :: "counter \<Rightarrow> u64" where "counter_get c = c"

section \<open>Histograms\<close>

record histogram =
  hg_buckets :: "u64 list"
  hg_bucket_counts :: "u64 list"
  hg_sum :: u64
  hg_count :: u64

definition histogram_new :: "u64 list \<Rightarrow> histogram" where
  "histogram_new buckets =
     \<lparr>hg_buckets = buckets, hg_bucket_counts = map (\<lambda>_. 0) buckets, hg_sum = 0, hg_count = 0\<rparr>"

definition histogram_default :: histogram where
  "histogram_default = histogram_new default_buckets"

definition F64_MILLION :: u64 where "F64_MILLION = 0x412E848000000000"
definition F64_BILLION :: u64 where "F64_BILLION = 0x41CDCD6500000000"

definition value_micros :: "u64 \<Rightarrow> u64" where
  "value_micros v = f64_to_u64 (f64_mul v F64_MILLION)"

text \<open>The loop over the bounds with their index.\<close>

fun count_buckets :: "u64 \<Rightarrow> nat \<Rightarrow> u64 list \<Rightarrow> u64 list \<Rightarrow> u64 list" where
  "count_buckets v i [] counts = counts"
| "count_buckets v i (bound # bounds) counts =
     count_buckets v (Suc i) bounds (if f64_le v bound then counts[i := counts ! i + 1] else counts)"

definition histogram_observe :: "u64 \<Rightarrow> histogram \<Rightarrow> histogram" where
  "histogram_observe v h =
     h\<lparr>hg_sum := hg_sum h + value_micros v, hg_count := hg_count h + 1,
       hg_bucket_counts := count_buckets v 0 (hg_buckets h) (hg_bucket_counts h)\<rparr>"

record duration =
  du_secs :: u64
  du_nanos :: nat

definition as_secs_f64 :: "duration \<Rightarrow> u64" where
  "as_secs_f64 d = f64_add_pos (f64_of_u64 (du_secs d)) (f64_div (f64_of_u64 (of_nat (du_nanos d))) F64_BILLION)"

definition histogram_observe_duration :: "duration \<Rightarrow> histogram \<Rightarrow> histogram" where
  "histogram_observe_duration d h = histogram_observe (as_secs_f64 d) h"

definition histogram_sum :: "histogram \<Rightarrow> u64" where
  "histogram_sum h = f64_div (f64_of_u64 (hg_sum h)) F64_MILLION"

section \<open>Labelled metrics\<close>

type_synonym labeled_counter = "(text, counter) hmap"

text \<open>\<open>with_label\<close> finds or creates the entry; \<open>update_label\<close> is an operation on what it returns.\<close>

definition with_label :: "'a \<Rightarrow> text \<Rightarrow> (text, 'a) hmap \<Rightarrow> (text, 'a) hmap \<times> 'a" where
  "with_label fresh label m =
     (case hm_get m label of Some c \<Rightarrow> (m, c) | None \<Rightarrow> (hm_insert label fresh m, fresh))"

definition update_label :: "'a \<Rightarrow> ('a \<Rightarrow> 'a) \<Rightarrow> text \<Rightarrow> (text, 'a) hmap \<Rightarrow> (text, 'a) hmap" where
  "update_label fresh f label m = (let (m, c) = with_label fresh label m in hm_insert label (f c) m)"

definition labeled_inc :: "text \<Rightarrow> labeled_counter \<Rightarrow> labeled_counter" where
  "labeled_inc label m = update_label counter_new counter_inc label m"

definition labeled_all :: "labeled_counter \<Rightarrow> (text, u64) hmap" where
  "labeled_all m = map (\<lambda>(k, v). (k, counter_get v)) m"

record labeled_histogram =
  lh_histograms :: "(text, histogram) hmap"
  lh_buckets :: "u64 list"

definition labeled_histogram_new :: "u64 list \<Rightarrow> labeled_histogram" where
  "labeled_histogram_new buckets = \<lparr>lh_histograms = [], lh_buckets = buckets\<rparr>"

definition labeled_histogram_default :: labeled_histogram where
  "labeled_histogram_default = labeled_histogram_new default_buckets"

definition labeled_observe :: "text \<Rightarrow> u64 \<Rightarrow> labeled_histogram \<Rightarrow> labeled_histogram" where
  "labeled_observe label v m =
     m\<lparr>lh_histograms := update_label (histogram_new (lh_buckets m)) (histogram_observe v) label (lh_histograms m)\<rparr>"

definition labeled_labels :: "labeled_histogram \<Rightarrow> text list" where
  "labeled_labels m = map fst (lh_histograms m)"

section \<open>The server's metrics\<close>

record prometheus_metrics =
  pm_requests_total :: labeled_counter
  pm_request_duration_seconds :: labeled_histogram
  pm_active_connections :: counter
  pm_bytes_total :: labeled_counter
  pm_errors_total :: labeled_counter
  pm_config :: metrics_config

definition metrics_new :: "metrics_config \<Rightarrow> prometheus_metrics" where
  "metrics_new config =
     \<lparr>pm_requests_total = [], pm_request_duration_seconds = labeled_histogram_new (mc_histogram_buckets config),
      pm_active_connections = counter_new, pm_bytes_total = [], pm_errors_total = [], pm_config = config\<rparr>"

definition sanitize_metric_label :: "text \<Rightarrow> text" where
  "sanitize_metric_label v = sanitize_text v"

definition record_request :: "text \<Rightarrow> duration \<Rightarrow> prometheus_metrics \<Rightarrow> prometheus_metrics" where
  "record_request method duration m =
     (let method = sanitize_metric_label method
      in m\<lparr>pm_requests_total := labeled_inc method (pm_requests_total m),
           pm_request_duration_seconds :=
             labeled_observe method (as_secs_f64 duration) (pm_request_duration_seconds m)\<rparr>)"

definition metrics_record_error :: "text \<Rightarrow> prometheus_metrics \<Rightarrow> prometheus_metrics" where
  "metrics_record_error error_type m =
     m\<lparr>pm_errors_total := labeled_inc (sanitize_metric_label error_type) (pm_errors_total m)\<rparr>"

definition record_bytes :: "text \<Rightarrow> u64 \<Rightarrow> prometheus_metrics \<Rightarrow> prometheus_metrics" where
  "record_bytes direction n m =
     m\<lparr>pm_bytes_total :=
         update_label counter_new (counter_add n) (sanitize_metric_label direction) (pm_bytes_total m)\<rparr>"

definition connection_opened :: "prometheus_metrics \<Rightarrow> prometheus_metrics" where
  "connection_opened m = m\<lparr>pm_active_connections := counter_inc (pm_active_connections m)\<rparr>"

definition connection_closed :: "prometheus_metrics \<Rightarrow> prometheus_metrics" where
  "connection_closed m = m"

text \<open>A request being timed: its method and the reading of the monotonic clock when it began.\<close>

record request_metrics =
  rm_method :: "text"
  rm_start :: nat

definition duration_between :: "nat \<Rightarrow> nat \<Rightarrow> duration" where
  "duration_between a b =
     \<lparr>du_secs = of_nat ((b - a) div 1000000000), du_nanos = (b - a) mod 1000000000\<rparr>"

definition request_metrics_start :: "nat \<Rightarrow> text \<Rightarrow> request_metrics" where
  "request_metrics_start now method = \<lparr>rm_method = method, rm_start = now\<rparr>"

definition request_metrics_finish :: "nat \<Rightarrow> request_metrics \<Rightarrow> prometheus_metrics \<Rightarrow> prometheus_metrics" where
  "request_metrics_finish now r m = record_request (rm_method r) (duration_between (rm_start r) now) m"

definition request_metrics_finish_with_error ::
  "nat \<Rightarrow> text \<Rightarrow> request_metrics \<Rightarrow> prometheus_metrics \<Rightarrow> prometheus_metrics" where
  "request_metrics_finish_with_error now error_type r m =
     metrics_record_error error_type (record_request (rm_method r) (duration_between (rm_start r) now) m)"

section \<open>The Prometheus text\<close>

definition replace_with :: "nat \<Rightarrow> text \<Rightarrow> text \<Rightarrow> text" where
  "replace_with a r t = concat (map (\<lambda>c. if c = a then r else [c]) t)"

definition prometheus_label_value :: "text \<Rightarrow> text" where
  "prometheus_label_value v =
     replace_with 34 [92, 34] (replace_with 10 [92, 110] (replace_with 92 [92, 92] (sanitize_metric_label v)))"

definition counter_line :: "string \<Rightarrow> string \<Rightarrow> text \<times> u64 \<Rightarrow> text" where
  "counter_line name label = (\<lambda>(v, n).
     ascii name @ ascii ''{'' @ ascii label @ ascii ''='' @ [34] @ prometheus_label_value v @ [34] @ ascii ''} '' @
     decimal (unat n) @ [10])"

definition histogram_lines :: "text \<times> histogram \<Rightarrow> text" where
  "histogram_lines = (\<lambda>(label, h).
     let method = prometheus_label_value label; name = ascii ''dcp_request_duration_seconds''
     in concat (map (\<lambda>(i, bound).
          name @ ascii ''_bucket{method='' @ [34] @ method @ [34] @ ascii '',le='' @ [34] @ f64_display bound @ [34] @
          ascii ''} '' @ decimal (unat (hg_bucket_counts h ! i)) @ [10]) (enumerate 0 (hg_buckets h))) @
        name @ ascii ''_bucket{method='' @ [34] @ method @ [34] @ ascii '',le='' @ [34] @ ascii ''+Inf'' @ [34] @
        ascii ''} '' @ decimal (unat (hg_count h)) @ [10] @
        name @ ascii ''_sum{method='' @ [34] @ method @ [34] @ ascii ''} '' @ f64_display (histogram_sum h) @ [10] @
        name @ ascii ''_count{method='' @ [34] @ method @ [34] @ ascii ''} '' @ decimal (unat (hg_count h)) @ [10])"

definition format_prometheus :: "prometheus_metrics \<Rightarrow> text" where
  "format_prometheus m =
     ascii ''# HELP dcp_requests_total Total number of requests by method'' @ [10] @
     ascii ''# TYPE dcp_requests_total counter'' @ [10] @
     concat (map (counter_line ''dcp_requests_total'' ''method'') (labeled_all (pm_requests_total m))) @
     [10] @ ascii ''# HELP dcp_request_duration_seconds Request latency in seconds'' @ [10] @
     ascii ''# TYPE dcp_request_duration_seconds histogram'' @ [10] @
     concat (map histogram_lines (lh_histograms (pm_request_duration_seconds m))) @
     [10] @ ascii ''# HELP dcp_active_connections Number of active connections'' @ [10] @
     ascii ''# TYPE dcp_active_connections gauge'' @ [10] @
     ascii ''dcp_active_connections '' @ decimal (unat (counter_get (pm_active_connections m))) @ [10] @
     [10] @ ascii ''# HELP dcp_bytes_total Total bytes transferred'' @ [10] @
     ascii ''# TYPE dcp_bytes_total counter'' @ [10] @
     concat (map (counter_line ''dcp_bytes_total'' ''direction'') (labeled_all (pm_bytes_total m))) @
     [10] @ ascii ''# HELP dcp_errors_total Total number of errors by type'' @ [10] @
     ascii ''# TYPE dcp_errors_total counter'' @ [10] @
     concat (map (counter_line ''dcp_errors_total'' ''type'') (labeled_all (pm_errors_total m)))"

section \<open>What the counters hold\<close>

lemma length_count_buckets [simp]: "length (count_buckets v i bounds counts) = length counts"
  by (induction bounds arbitrary: i counts) simp_all

lemma nth_count_buckets:
  "i + length bounds \<le> length counts \<Longrightarrow> j < length counts \<Longrightarrow>
   count_buckets v i bounds counts ! j =
     counts ! j + (if i \<le> j \<and> j < i + length bounds \<and> f64_le v (bounds ! (j - i)) then 1 else 0)"
proof (induction bounds arbitrary: i counts)
  case (Cons b bounds)
  show ?case
    using Cons.IH [of "Suc i" "if f64_le v b then counts[i := counts ! i + 1] else counts"] Cons.prems
    by (cases "i = j") (auto simp: nth_list_update nth_Cons' Suc_le_eq diff_Suc split: nat.splits)
qed simp

definition observed :: "u64 list \<Rightarrow> u64 list \<Rightarrow> histogram" where
  "observed buckets vs =
     \<lparr>hg_buckets = buckets,
      hg_bucket_counts = map (\<lambda>bound. of_nat (length (filter (\<lambda>v. f64_le v bound) vs))) buckets,
      hg_sum = sum_list (map value_micros vs), hg_count = of_nat (length vs)\<rparr>"

lemma observe_observed: "histogram_observe v (observed buckets vs) = observed buckets (vs @ [v])"
proof -
  have "count_buckets v 0 buckets (map (\<lambda>bound. of_nat (length (filter (\<lambda>v. f64_le v bound) vs))) buckets) =
      map (\<lambda>bound. of_nat (length (filter (\<lambda>v. f64_le v bound) (vs @ [v])))) buckets"
    by (rule nth_equalityI) (simp_all add: nth_count_buckets)
  then show ?thesis by (simp add: histogram_observe_def observed_def)
qed

lemma fold_observe: "fold histogram_observe vs (histogram_new buckets) = observed buckets vs"
proof (induction vs rule: rev_induct)
  case Nil
  then show ?case by (simp add: histogram_new_def observed_def)
next
  case (snoc v vs)
  then show ?case by (simp add: observe_observed)
qed

definition label_value :: "'a \<Rightarrow> (text, 'a) hmap \<Rightarrow> text \<Rightarrow> 'a" where
  "label_value fresh m label = (case hm_get m label of Some c \<Rightarrow> c | None \<Rightarrow> fresh)"

lemma label_value_update [simp]:
  "label_value fresh (update_label fresh f k m) label =
     (if label = k then f (label_value fresh m k) else label_value fresh m label)"
  by (auto simp: label_value_def update_label_def with_label_def split: option.splits)

lemma label_value_Nil [simp]: "label_value fresh [] label = fresh"
  by (simp add: label_value_def)

datatype metrics_op =
    OpRequest "text" duration
  | OpError "text"
  | OpBytes "text" u64
  | OpOpened
  | OpClosed

fun metrics_step :: "prometheus_metrics \<Rightarrow> metrics_op \<Rightarrow> prometheus_metrics \<times> unit" where
  "metrics_step m (OpRequest method d) = (record_request method d m, ())"
| "metrics_step m (OpError e) = (metrics_record_error e m, ())"
| "metrics_step m (OpBytes direction n) = (record_bytes direction n m, ())"
| "metrics_step m OpOpened = (connection_opened m, ())"
| "metrics_step m OpClosed = (connection_closed m, ())"

text \<open>What the calls so far amount to for one label.\<close>

fun request_seconds :: "text \<Rightarrow> metrics_op \<Rightarrow> u64 list" where
  "request_seconds label (OpRequest method d) = (if sanitize_text method = label then [as_secs_f64 d] else [])"
| "request_seconds label op = []"

fun error_events :: "text \<Rightarrow> metrics_op \<Rightarrow> nat" where
  "error_events label (OpError e) = (if sanitize_text e = label then 1 else 0)"
| "error_events label op = 0"

fun byte_events :: "text \<Rightarrow> metrics_op \<Rightarrow> u64" where
  "byte_events label (OpBytes direction n) = (if sanitize_text direction = label then n else 0)"
| "byte_events label op = 0"

text \<open>The metrics count what was recorded. After any calls every request counter is the number of requests under its
  label, the label's histogram has each of their durations once, in every bucket whose bound it does not exceed, with the
  sum in microseconds; byte counters are sums, error counters are counts, all modulo 2 to the 64. Labels are
  the redacted texts.\<close>

theorem metrics_account:
  "(let m = run_ops metrics_step (metrics_new config) ops; seconds = concat (map (request_seconds label) ops)
    in label_value 0 (pm_requests_total m) label = of_nat (length seconds) \<and>
       label_value (histogram_new (mc_histogram_buckets config))
         (lh_histograms (pm_request_duration_seconds m)) label = observed (mc_histogram_buckets config) seconds \<and>
       label_value 0 (pm_errors_total m) label = of_nat (sum_list (map (error_events label) ops)) \<and>
       label_value 0 (pm_bytes_total m) label = sum_list (map (byte_events label) ops))"
proof -
  let ?b = "mc_histogram_buckets config"
  let ?fresh = "histogram_new ?b"
  have empty: "observed ?b [] = ?fresh" by (simp add: observed_def histogram_new_def)
  have "lh_buckets (pm_request_duration_seconds m) = ?b \<and>
       label_value 0 (pm_requests_total m) label = of_nat (length (concat (map (request_seconds label) ops))) \<and>
       label_value ?fresh (lh_histograms (pm_request_duration_seconds m)) label =
         observed ?b (concat (map (request_seconds label) ops)) \<and>
       label_value 0 (pm_errors_total m) label = of_nat (sum_list (map (error_events label) ops)) \<and>
       label_value 0 (pm_bytes_total m) label = sum_list (map (byte_events label) ops)"
    if "m = run_ops metrics_step (metrics_new config) ops" for m
    using that
  proof (induction ops arbitrary: m rule: rev_induct)
    case Nil
    then show ?case by (simp add: metrics_new_def labeled_histogram_new_def empty)
  next
    case (snoc op ops)
    show ?case
      using snoc.IH [OF HOL.refl]
      by (cases op) (auto simp: snoc.prems run_ops_append record_request_def metrics_record_error_def record_bytes_def
          connection_opened_def connection_closed_def labeled_inc_def labeled_observe_def counter_new_def
          counter_inc_def counter_add_def sanitize_metric_label_def observe_observed Let_def)
  qed
  then show ?thesis by (simp add: Let_def)
qed

section \<open>Reading the text back\<close>

text \<open>A reader of the exposition format: lines end at a line feed, an empty line or one starting with \<open>#\<close> is
  skipped, any other is a sample with a name, labels in braces and a value behind a space. In a label value a
  backslash escapes the next character and \<open>\n\<close> is a line feed.\<close>

record sample =
  sm_name :: "text"
  sm_labels :: "(text \<times> text) list"
  sm_value :: "text"

fun split_lines :: "text \<Rightarrow> text \<Rightarrow> text list" where
  "split_lines acc [] = (if acc = [] then [] else [rev acc])"
| "split_lines acc (c # cs) = (if c = 10 then rev acc # split_lines [] cs else split_lines (c # acc) cs)"

fun read_label_value :: "text \<Rightarrow> (text \<times> text) option" where
  "read_label_value [] = None"
| "read_label_value (c # cs) =
     (if c = 34 then Some ([], cs)
      else if c = 92 then
        (case cs of
           [] \<Rightarrow> None
         | e # r \<Rightarrow> map_option (\<lambda>(v, rest). ((if e = 110 then 10 else e) # v, rest)) (read_label_value r))
      else map_option (\<lambda>(v, rest). (c # v, rest)) (read_label_value cs))"

fun read_labels :: "nat \<Rightarrow> text \<Rightarrow> ((text \<times> text) list \<times> text) option" where
  "read_labels 0 t = None"
| "read_labels (Suc n) t =
     (case dropWhile (\<lambda>c. c \<noteq> 61) t of
        e # q # r \<Rightarrow>
          if q = 34 then
            (case read_label_value r of
               Some (v, d # rest) \<Rightarrow>
                 let l = (takeWhile (\<lambda>c. c \<noteq> 61) t, v)
                 in if d = 125 then Some ([l], rest)
                    else if d = 44 then map_option (\<lambda>(ls, rest). (l # ls, rest)) (read_labels n rest)
                    else None
             | _ \<Rightarrow> None)
          else None
      | _ \<Rightarrow> None)"

definition read_sample :: "text \<Rightarrow> sample option" where
  "read_sample t =
     (let name = takeWhile (\<lambda>c. c \<noteq> 123 \<and> c \<noteq> 32) t
      in case dropWhile (\<lambda>c. c \<noteq> 123 \<and> c \<noteq> 32) t of
           c # r \<Rightarrow>
             if c = 32 then Some \<lparr>sm_name = name, sm_labels = [], sm_value = r\<rparr>
             else
               (case read_labels (length r) r of
                  Some (ls, d # v) \<Rightarrow> if d = 32 then Some \<lparr>sm_name = name, sm_labels = ls, sm_value = v\<rparr> else None
                | _ \<Rightarrow> None)
         | [] \<Rightarrow> None)"

definition read_exposition :: "text \<Rightarrow> sample option list" where
  "read_exposition t = map read_sample (filter (\<lambda>l. l \<noteq> [] \<and> hd l \<noteq> 35) (split_lines [] t))"

text \<open>The samples the server means.\<close>

definition counter_sample :: "string \<Rightarrow> string \<Rightarrow> text \<times> u64 \<Rightarrow> sample" where
  "counter_sample name label = (\<lambda>(v, n).
     \<lparr>sm_name = ascii name, sm_labels = [(ascii label, sanitize_text v)], sm_value = decimal (unat n)\<rparr>)"

definition histogram_samples :: "text \<times> histogram \<Rightarrow> sample list" where
  "histogram_samples = (\<lambda>(label, h).
     let l = (ascii ''method'', sanitize_text label)
     in map (\<lambda>(i, bound). \<lparr>sm_name = ascii ''dcp_request_duration_seconds_bucket'',
            sm_labels = [l, (ascii ''le'', f64_display bound)], sm_value = decimal (unat (hg_bucket_counts h ! i))\<rparr>)
          (enumerate 0 (hg_buckets h)) @
        [\<lparr>sm_name = ascii ''dcp_request_duration_seconds_bucket'',
           sm_labels = [l, (ascii ''le'', ascii ''+Inf'')], sm_value = decimal (unat (hg_count h))\<rparr>,
         \<lparr>sm_name = ascii ''dcp_request_duration_seconds_sum'', sm_labels = [l],
           sm_value = f64_display (histogram_sum h)\<rparr>,
         \<lparr>sm_name = ascii ''dcp_request_duration_seconds_count'', sm_labels = [l],
           sm_value = decimal (unat (hg_count h))\<rparr>])"

definition metrics_samples :: "prometheus_metrics \<Rightarrow> sample list" where
  "metrics_samples m =
     map (counter_sample ''dcp_requests_total'' ''method'') (pm_requests_total m) @
     concat (map histogram_samples (lh_histograms (pm_request_duration_seconds m))) @
     [\<lparr>sm_name = ascii ''dcp_active_connections'', sm_labels = [], sm_value = decimal (unat (pm_active_connections m))\<rparr>] @
     map (counter_sample ''dcp_bytes_total'' ''direction'') (pm_bytes_total m) @
     map (counter_sample ''dcp_errors_total'' ''type'') (pm_errors_total m)"

text \<open>The escaping, one character at a time.\<close>

definition label_escape :: "nat \<Rightarrow> text" where
  "label_escape c = (if c = 92 then [92, 92] else if c = 10 then [92, 110] else if c = 34 then [92, 34] else [c])"

definition escape_label :: "text \<Rightarrow> text" where
  "escape_label t = concat (map label_escape t)"

lemma prometheus_label_value_eq: "prometheus_label_value v = escape_label (sanitize_text v)"
proof -
  have "replace_with 34 [92, 34] (replace_with 10 [92, 110] (replace_with 92 [92, 92] t)) = escape_label t" for t
    by (induction t) (simp_all add: replace_with_def escape_label_def label_escape_def)
  then show ?thesis by (simp add: prometheus_label_value_def sanitize_metric_label_def)
qed

lemma read_escaped_label: "read_label_value (escape_label v @ 34 # rest) = Some (v, rest)"
  by (induction v) (simp_all add: escape_label_def label_escape_def)

lemma read_plain_label:
  "\<forall>c \<in> set v. c \<noteq> 34 \<and> c \<noteq> 92 \<Longrightarrow> read_label_value (v @ 34 # rest) = Some (v, rest)"
  by (induction v) simp_all

lemma escape_label_line: "\<forall>c \<in> set (escape_label v). c \<noteq> 10"
  by (auto simp: escape_label_def label_escape_def)

definition label_reads :: "text \<Rightarrow> text \<Rightarrow> bool" where
  "label_reads e v \<longleftrightarrow> (\<forall>rest. read_label_value (e @ 34 # rest) = Some (v, rest))"

lemma read_one_label:
  assumes "\<forall>c \<in> set l. c \<noteq> 61" and "label_reads e v"
  shows "read_labels (Suc n) (l @ 61 # 34 # e @ 34 # d # rest) =
    (if d = 125 then Some ([(l, v)], rest)
     else if d = 44 then map_option (\<lambda>(ls, rest). ((l, v) # ls, rest)) (read_labels n rest)
     else None)"
proof -
  have "takeWhile (\<lambda>c. c \<noteq> 61) (l @ 61 # t) = l" "dropWhile (\<lambda>c. c \<noteq> 61) (l @ 61 # t) = 61 # t" for t
    using assms(1) by (simp_all add: takeWhile_append dropWhile_append)
  then show ?thesis using assms(2) by (simp add: label_reads_def)
qed

text \<open>A text whose lines are samples, comments and empty lines.\<close>

definition block_reads :: "text \<Rightarrow> sample list \<Rightarrow> bool" where
  "block_reads t ss \<longleftrightarrow>
     (\<exists>ls. t = concat (map (\<lambda>l. l @ [10]) ls) \<and> (\<forall>l \<in> set ls. \<forall>c \<in> set l. c \<noteq> 10) \<and>
       map read_sample (filter (\<lambda>l. l \<noteq> [] \<and> hd l \<noteq> 35) ls) = map Some ss)"

lemma split_lines_lines:
  "\<forall>l \<in> set ls. \<forall>c \<in> set l. c \<noteq> 10 \<Longrightarrow> split_lines [] (concat (map (\<lambda>l. l @ [10]) ls)) = ls"
proof (induction ls)
  case (Cons l ls)
  have "\<forall>c \<in> set l. c \<noteq> 10 \<Longrightarrow> split_lines acc (l @ 10 # t) = (rev acc @ l) # split_lines [] t" for acc t
    by (induction l arbitrary: acc) simp_all
  then show ?case using Cons by simp
qed simp

lemma block_reads_exposition: "block_reads t ss \<Longrightarrow> read_exposition t = map Some ss"
  by (auto simp: block_reads_def read_exposition_def split_lines_lines)

lemma block_append: "block_reads t ss \<Longrightarrow> block_reads u rs \<Longrightarrow> block_reads (t @ u) (ss @ rs)"
  unfolding block_reads_def by clarify (rule_tac x = "ls @ lsa" in exI, auto)

lemma block_concat:
  assumes "\<forall>x \<in> set xs. block_reads (f x) (g x)"
  shows "block_reads (concat (map f xs)) (concat (map g xs))"
  using assms
proof (induction xs)
  case Nil
  then show ?case by (simp add: block_reads_def exI [of _ "[]"])
next
  case (Cons x xs)
  then show ?case by (simp add: block_append)
qed

lemma block_skip: "\<forall>c \<in> set l. c \<noteq> 10 \<Longrightarrow> l = [] \<or> hd l = 35 \<Longrightarrow> block_reads (l @ [10]) []"
  unfolding block_reads_def by (rule exI [of _ "[l]"]) auto

lemma block_sample:
  "\<forall>c \<in> set l. c \<noteq> 10 \<Longrightarrow> l \<noteq> [] \<Longrightarrow> hd l \<noteq> 35 \<Longrightarrow> read_sample l = Some s \<Longrightarrow> block_reads (l @ [10]) [s]"
  unfolding block_reads_def by (rule exI [of _ "[l]"]) auto

definition name_ok :: "text \<Rightarrow> bool" where
  "name_ok t \<longleftrightarrow> t \<noteq> [] \<and> hd t \<noteq> 35 \<and> list_all (\<lambda>c. c \<noteq> 10 \<and> c \<noteq> 32 \<and> c \<noteq> 61 \<and> c \<noteq> 123) t"

lemma name_parts:
  assumes "name_ok name" and "c = 123 \<or> c = 32"
  shows "takeWhile (\<lambda>c. c \<noteq> 123 \<and> c \<noteq> 32) (name @ c # t) = name"
    "dropWhile (\<lambda>c. c \<noteq> 123 \<and> c \<noteq> 32) (name @ c # t) = c # t"
  using assms by (auto simp: name_ok_def list_all_iff takeWhile_append dropWhile_append)

lemma block_plain:
  assumes "name_ok name" and "\<forall>c \<in> set v. c \<noteq> 10"
  shows "block_reads (name @ 32 # v @ [10]) [\<lparr>sm_name = name, sm_labels = [], sm_value = v\<rparr>]"
proof -
  have "read_sample (name @ 32 # v) = Some \<lparr>sm_name = name, sm_labels = [], sm_value = v\<rparr>"
    using assms(1) by (simp add: read_sample_def name_parts)
  then show ?thesis
    using assms block_sample [of "name @ 32 # v"] by (auto simp: name_ok_def list_all_iff)
qed

lemma block_labelled:
  assumes "name_ok name" and "name_ok l" and "label_reads e x" and "\<forall>c \<in> set e. c \<noteq> 10" and "\<forall>c \<in> set v. c \<noteq> 10"
  shows "block_reads (name @ 123 # l @ 61 # 34 # e @ 34 # 125 # 32 # v @ [10])
    [\<lparr>sm_name = name, sm_labels = [(l, x)], sm_value = v\<rparr>]"
proof -
  let ?r = "l @ 61 # 34 # e @ 34 # 125 # 32 # v"
  obtain n where n: "length ?r = Suc n" by simp
  have "\<forall>c \<in> set l. c \<noteq> 61" using assms(2) by (auto simp: name_ok_def list_all_iff)
  then have "read_labels (length ?r) ?r = Some ([(l, x)], 32 # v)"
    unfolding n using read_one_label assms(3) by simp
  then have "read_sample (name @ 123 # ?r) = Some \<lparr>sm_name = name, sm_labels = [(l, x)], sm_value = v\<rparr>"
    using assms(1) unfolding read_sample_def Let_def by (simp add: name_parts)
  moreover have "\<forall>c \<in> set (name @ 123 # ?r). c \<noteq> 10" "name @ 123 # ?r \<noteq> []" "hd (name @ 123 # ?r) \<noteq> 35"
    using assms by (auto simp: name_ok_def list_all_iff)
  ultimately show ?thesis using block_sample [of "name @ 123 # ?r"] by simp
qed

lemma block_labelled_two:
  assumes "name_ok name" and "name_ok l" and "label_reads e x" and "\<forall>c \<in> set e. c \<noteq> 10"
    and "name_ok k" and "label_reads f y" and "\<forall>c \<in> set f. c \<noteq> 10" and "\<forall>c \<in> set v. c \<noteq> 10"
  shows "block_reads (name @ 123 # l @ 61 # 34 # e @ 34 # 44 # k @ 61 # 34 # f @ 34 # 125 # 32 # v @ [10])
    [\<lparr>sm_name = name, sm_labels = [(l, x), (k, y)], sm_value = v\<rparr>]"
proof -
  let ?r = "l @ 61 # 34 # e @ 34 # 44 # k @ 61 # 34 # f @ 34 # 125 # 32 # v"
  obtain n where n: "length ?r = Suc (Suc n)" by simp
  have "\<forall>c \<in> set l. c \<noteq> 61" "\<forall>c \<in> set k. c \<noteq> 61" using assms(2,5) by (auto simp: name_ok_def list_all_iff)
  then have "read_labels (length ?r) ?r = Some ([(l, x), (k, y)], 32 # v)"
    unfolding n using read_one_label assms(3,6) by simp
  then have "read_sample (name @ 123 # ?r) = Some \<lparr>sm_name = name, sm_labels = [(l, x), (k, y)], sm_value = v\<rparr>"
    using assms(1) unfolding read_sample_def Let_def by (simp add: name_parts)
  moreover have "\<forall>c \<in> set (name @ 123 # ?r). c \<noteq> 10" "name @ 123 # ?r \<noteq> []" "hd (name @ 123 # ?r) \<noteq> 35"
    using assms by (auto simp: name_ok_def list_all_iff)
  ultimately show ?thesis using block_sample [of "name @ 123 # ?r"] by simp
qed

lemma digits_line: "\<forall>c \<in> set (decimal n). c \<noteq> 10" "\<forall>c \<in> set (decimal n). c \<noteq> 34 \<and> c \<noteq> 92"
  using decimal_digits [of n] by auto

lemma display_chars: "\<forall>c \<in> set (f64_display b). c \<noteq> 10 \<and> c \<noteq> 34 \<and> c \<noteq> 92"
proof -
  obtain x d where d: "shortest_digits (b AND 0x7FFFFFFFFFFFFFFF) 308 = (x, d)" by fastforce
  have "\<forall>c \<in> set (fraction_text y d). c \<noteq> 10 \<and> c \<noteq> 34 \<and> c \<noteq> 92" for y
    using fraction_text_digits(2) [of y d] by (auto simp: list_all_iff is_ascii_digit_def)
  moreover have "\<forall>c \<in> set (decimal n). c \<noteq> 10 \<and> c \<noteq> 34 \<and> c \<noteq> 92" for n
    using digits_line by blast
  ultimately show ?thesis by (simp add: f64_display_def d ascii_def ball_Un)
qed

lemma counter_line_block:
  assumes "name_ok (ascii name)" and "name_ok (ascii label)"
  shows "block_reads (counter_line name label p) [counter_sample name label p]"
proof (cases p)
  case (Pair v n)
  have "label_reads (escape_label (sanitize_text v)) (sanitize_text v)"
    by (simp add: label_reads_def read_escaped_label)
  from block_labelled [OF assms this escape_label_line digits_line(1)] show ?thesis
    by (simp add: Pair counter_line_def counter_sample_def prometheus_label_value_eq ascii_def)
qed

lemma histogram_lines_block: "block_reads (histogram_lines p) (histogram_samples p)"
proof (cases p)
  case (Pair label h)
  let ?n = "ascii ''dcp_request_duration_seconds''"
  let ?e = "escape_label (sanitize_text label)"
  have names: "name_ok (ascii ''method'')" "name_ok (ascii ''le'')" "name_ok (?n @ ascii ''_bucket'')"
    "name_ok (?n @ ascii ''_sum'')" "name_ok (?n @ ascii ''_count'')"
    by (simp_all add: name_ok_def ascii_def)
  have l: "label_reads ?e (sanitize_text label)" by (simp add: label_reads_def read_escaped_label)
  have bound: "label_reads (f64_display b) (f64_display b)" "label_reads (ascii ''+Inf'') (ascii ''+Inf'')" for b
    using read_plain_label display_chars [of b] by (simp_all add: label_reads_def ascii_def)
  have plain: "\<forall>c \<in> set (ascii ''+Inf''). c \<noteq> 10" "\<forall>c \<in> set (f64_display b). c \<noteq> 10" for b
    using display_chars [of b] by (simp_all add: ascii_def)
  note bucket = block_labelled_two [OF names(3,1) l escape_label_line names(2) bound(1) plain(2) digits_line(1)]
  note inf = block_labelled_two [OF names(3,1) l escape_label_line names(2) bound(2) plain(1)
      digits_line(1) [of "unat (hg_count h)"]]
  note one = block_labelled [OF names(4,1) l escape_label_line plain(2) [of "histogram_sum h"]]
    block_labelled [OF names(5,1) l escape_label_line digits_line(1) [of "unat (hg_count h)"]]
  let ?le = "\<lambda>t. ?n @ ascii ''_bucket{method='' @ [34] @ ?e @ [34] @ ascii '',le='' @ [34] @ t @ [34] @ ascii ''} ''"
  let ?s = "\<lambda>t v. \<lparr>sm_name = ?n @ ascii ''_bucket'',
      sm_labels = [(ascii ''method'', sanitize_text label), (ascii ''le'', t)], sm_value = v\<rparr>"
  have "block_reads
      (concat (map (\<lambda>(i, bound). ?le (f64_display bound) @ decimal (unat (hg_bucket_counts h ! i)) @ [10])
        (enumerate 0 (hg_buckets h))))
      (concat (map (\<lambda>(i, bound). [?s (f64_display bound) (decimal (unat (hg_bucket_counts h ! i)))])
        (enumerate 0 (hg_buckets h))))"
    using bucket by (intro block_concat) (simp add: ascii_def split: prod.split)
  moreover have "concat (map (\<lambda>(i, b). [g i b]) xs) = map (\<lambda>(i, b). g i b) xs" for g :: "nat \<Rightarrow> u64 \<Rightarrow> sample" and xs
    by (induction xs) auto
  ultimately have "block_reads
      (concat (map (\<lambda>(i, bound). ?le (f64_display bound) @ decimal (unat (hg_bucket_counts h ! i)) @ [10])
        (enumerate 0 (hg_buckets h))))
      (map (\<lambda>(i, bound). ?s (f64_display bound) (decimal (unat (hg_bucket_counts h ! i))))
        (enumerate 0 (hg_buckets h)))"
    by simp
  from block_append [OF this block_append [OF inf block_append [OF one]]] show ?thesis
    by (simp add: Pair histogram_lines_def histogram_samples_def prometheus_label_value_eq ascii_def Let_def)
qed

lemma exposition_block: "block_reads (format_prometheus m) (metrics_samples m)"
proof -
  have skip: "block_reads (ascii t @ [10]) []" if "list_all (\<lambda>c. c \<noteq> CHR 0x0A) t" "t = [] \<or> hd t = CHR ''#''" for t
  proof (rule block_skip)
    have "of_char c = (10 :: nat) \<longleftrightarrow> c = CHR 0x0A" for c
      using of_char_eq_iff [of c "CHR 0x0A", where 'a = nat] by simp
    then show "\<forall>c \<in> set (ascii t). c \<noteq> 10" using that(1) by (auto simp: ascii_def list_all_iff)
    show "ascii t = [] \<or> hd (ascii t) = 35" using that(2) by (cases t) (auto simp: ascii_def)
  qed
  have counters: "block_reads (concat (map (counter_line name label) (labeled_all c))) (map (counter_sample name label) c)"
    if "name_ok (ascii name)" "name_ok (ascii label)" for name label c
  proof -
    have "block_reads (concat (map (counter_line name label) c)) (concat (map (\<lambda>p. [counter_sample name label p]) c))"
      using counter_line_block [OF that] by (intro block_concat) blast
    moreover have "labeled_all c = c" by (simp add: labeled_all_def counter_get_def)
    moreover have "concat (map (\<lambda>p. [g p]) c) = map g c" for g :: "text \<times> u64 \<Rightarrow> sample"
      by (induction c) simp_all
    ultimately show ?thesis by simp
  qed
  have histograms: "block_reads (concat (map histogram_lines hs)) (concat (map histogram_samples hs))" for hs
    using histogram_lines_block by (intro block_concat) blast
  have gauge: "block_reads (ascii ''dcp_active_connections '' @ decimal (unat n) @ [10])
      [\<lparr>sm_name = ascii ''dcp_active_connections'', sm_labels = [], sm_value = decimal (unat n)\<rparr>]" for n :: u64
    using block_plain [of "ascii ''dcp_active_connections''", OF _ digits_line(1)]
    by (simp add: ascii_def name_ok_def)
  have blank: "block_reads [10] []" using skip [of "[]"] by (simp add: ascii_def)
  note head =
    skip [of "''# HELP dcp_requests_total Total number of requests by method''", simplified]
    skip [of "''# TYPE dcp_requests_total counter''", simplified]
    skip [of "''# HELP dcp_request_duration_seconds Request latency in seconds''", simplified]
    skip [of "''# TYPE dcp_request_duration_seconds histogram''", simplified]
    skip [of "''# HELP dcp_active_connections Number of active connections''", simplified]
    skip [of "''# TYPE dcp_active_connections gauge''", simplified]
    skip [of "''# HELP dcp_bytes_total Total bytes transferred''", simplified]
    skip [of "''# TYPE dcp_bytes_total counter''", simplified]
    skip [of "''# HELP dcp_errors_total Total number of errors by type''", simplified]
    skip [of "''# TYPE dcp_errors_total counter''", simplified]
  have names: "name_ok (ascii ''dcp_requests_total'')" "name_ok (ascii ''method'')" "name_ok (ascii ''dcp_bytes_total'')"
    "name_ok (ascii ''direction'')" "name_ok (ascii ''dcp_errors_total'')" "name_ok (ascii ''type'')"
    by (simp_all add: name_ok_def ascii_def)
  note parts = block_append [OF head(1) block_append [OF head(2) block_append [OF counters [OF names(1,2)]
    block_append [OF blank block_append [OF head(3) block_append [OF head(4) block_append [OF histograms
    block_append [OF blank block_append [OF head(5) block_append [OF head(6) block_append [OF gauge
    block_append [OF blank block_append [OF head(7) block_append [OF head(8) block_append [OF counters [OF names(3,4)]
    block_append [OF blank block_append [OF head(9) block_append [OF head(10) counters [OF names(5,6)]]]]]]]]]]]]]]]]]]]
  from parts [of "pm_requests_total m" "lh_histograms (pm_request_duration_seconds m)" "pm_active_connections m"
      "pm_bytes_total m" "pm_errors_total m"]
  show ?thesis by (simp add: format_prometheus_def metrics_samples_def counter_get_def)
qed

text \<open>A scrape reads what the server counted. Reading the Prometheus text line by line gives exactly the samples of the
  metrics, each with its name, its redacted label and its value: no label, whatever characters it has, can break a line, add
  a label or forge a sample.\<close>

theorem exposition_reads_back: "read_exposition (format_prometheus m) = map Some (metrics_samples m)"
  by (rule block_reads_exposition) (rule exposition_block)

text \<open>The gauge of active connections never falls.\<close>

lemma active_connections_never_fall:
  "pm_active_connections (connection_closed (connection_opened m)) = pm_active_connections m + 1"
  by (simp add: connection_closed_def connection_opened_def counter_inc_def)

end
