(* ===== verification/Dx_Config.thy ===== *)
theory Dx_Config
  imports Sse_Events Stdio Roots
begin

text \<open>
  The workspace configuration (\<open>src/src/dx_config.rs\<close>): finding the workspace root, the paths of the
  status files, and writing them. A path is the list of its components, the first one \<open>/\<close> when it is
  absolute; the file system is a record of the operations the code calls; the reader of status files
  belongs to the serializer crate and is a parameter.
\<close>

section \<open>Paths and files\<close>

type_synonym path = "text list"

definition path_components :: "text \<Rightarrow> path" where
  "path_components t =
     (if starts_with [47] t then [[47]] else []) @
     filter (\<lambda>c. c \<noteq> [] \<and> c \<noteq> ascii ''.'') (split_at_char 47 t)"

definition path_join :: "path \<Rightarrow> text \<Rightarrow> path" where
  "path_join p t = (if starts_with [47] t then path_components t else p @ path_components t)"

definition path_parent :: "path \<Rightarrow> path" where
  "path_parent p = butlast p"

text \<open>\<open>with_extension\<close>: the last name is cut at its last dot, unless that dot begins it.\<close>

definition file_stem :: "text \<Rightarrow> text" where
  "file_stem t =
     (let r = rev (dropWhile (\<lambda>c. c \<noteq> 46) (rev t))
      in if length r \<le> 1 then t else butlast r)"

definition with_extension :: "path \<Rightarrow> text \<Rightarrow> path" where
  "with_extension p ext = butlast p @ [file_stem (last p) @ [46] @ ext]"

fun ancestors :: "path \<Rightarrow> path list" where
  "ancestors p = (if length p \<le> 1 then [p] else p # ancestors (butlast p))"

declare ancestors.simps [simp del]

record 'f file_ops =
  fo_is_file :: "path \<Rightarrow> 'f \<Rightarrow> bool"
  fo_read :: "path \<Rightarrow> 'f \<Rightarrow> text + bytes"
  fo_write :: "path \<Rightarrow> bytes \<Rightarrow> 'f \<Rightarrow> (text + unit) \<times> 'f"
  fo_rename :: "path \<Rightarrow> path \<Rightarrow> 'f \<Rightarrow> (text + unit) \<times> 'f"
  fo_create_dir_all :: "path \<Rightarrow> 'f \<Rightarrow> (text + unit) \<times> 'f"

definition read_to_string :: "'f file_ops \<Rightarrow> path \<Rightarrow> 'f \<Rightarrow> text + text" where
  "read_to_string fs p f =
     bind_result (fo_read fs p f) (\<lambda>bs.
       case from_utf8 bs of
         None \<Rightarrow> Inl (ascii ''stream did not contain valid UTF-8'')
       | Some t \<Rightarrow> Inr t)"

section \<open>The workspace root\<close>

definition meaningful_line :: "text \<Rightarrow> bool" where
  "meaningful_line l \<longleftrightarrow>
     (let t = dropWhile (\<lambda>c. c = 0xFEFF) (trim_text l) in t \<noteq> [] \<and> \<not> starts_with (ascii ''#'') t)"

definition is_block_line :: "text \<Rightarrow> bool" where
  "is_block_line first \<longleftrightarrow>
     starts_with (ascii ''project('') first \<or> starts_with (ascii ''contract('') first \<or>
     starts_with (ascii ''runtime('') first \<or> starts_with (ascii ''www('') first \<or>
     91 \<in> set first \<and> 40 \<in> set first"

fun search_root :: "'f file_ops \<Rightarrow> 'f \<Rightarrow> path list \<Rightarrow> path option" where
  "search_root fs f [] = None"
| "search_root fs f (ancestor # rest) =
     (let candidate = path_join ancestor (ascii ''dx'')
      in if fo_is_file fs candidate f then
           (case read_to_string fs candidate f of
              Inl e \<Rightarrow> None
            | Inr source \<Rightarrow>
                (case List.find meaningful_line (text_lines source) of
                   None \<Rightarrow> None
                 | Some first \<Rightarrow>
                     if \<not> is_block_line first then Some ancestor else search_root fs f rest))
         else search_root fs f rest)"

definition find_root :: "'f file_ops \<Rightarrow> text + path \<Rightarrow> 'f \<Rightarrow> path option" where
  "find_root fs cwd f =
     (case cwd of Inl e \<Rightarrow> None | Inr dir \<Rightarrow> search_root fs f (ancestors dir))"

section \<open>The configuration\<close>

record dx_config =
  dx_workspace_root :: path
  dx_sr_dir :: path
  dx_receipts_dir :: path

definition dx_load :: "'f file_ops \<Rightarrow> text + path \<Rightarrow> 'f \<Rightarrow> dx_config" where
  "dx_load fs cwd f =
     (let ws = (case find_root fs cwd f of Some r \<Rightarrow> r | None \<Rightarrow> [ascii ''.'']);
          dx = path_join ws (ascii ''.dx'')
      in \<lparr>dx_workspace_root = ws, dx_sr_dir = path_join dx (ascii ''serializer''),
          dx_receipts_dir = path_join (path_join dx (ascii ''receipts'')) (ascii ''dcp'')\<rparr>)"

definition global_sr_dir :: "path option \<Rightarrow> path" where
  "global_sr_dir cache_dir =
     (case cache_dir of
        Some b \<Rightarrow> path_join (path_join b (ascii ''dx'')) (ascii ''dcp'')
      | None \<Rightarrow> path_components (ascii ''~/.cache/dx/dcp''))"

definition sr_path :: "dx_config \<Rightarrow> text \<Rightarrow> path" where
  "sr_path cfg name = path_join (dx_sr_dir cfg) (name @ ascii ''.sr'')"

definition machine_path :: "dx_config \<Rightarrow> text \<Rightarrow> path" where
  "machine_path cfg name = path_join (dx_sr_dir cfg) (name @ ascii ''.machine'')"

section \<open>Status files\<close>

definition needs_quoting :: "text \<Rightarrow> bool" where
  "needs_quoting v \<longleftrightarrow> list_ex (\<lambda>c. c \<in> {32, 9, 10, 12, 13} \<or> c \<in> {34, 91, 93, 61, 35}) v"

definition write_llm_value :: "text \<Rightarrow> text" where
  "write_llm_value v =
     (if v = [] then [34, 34]
      else if needs_quoting v then
        [34] @ concat (map (\<lambda>c. if c = 34 \<or> c = 92 then [92, c] else [c]) v) @ [34]
      else v)"

definition sr_body :: "(text \<times> text) list \<Rightarrow> text" where
  "sr_body entries = concat (map (\<lambda>(key, v). key @ [61] @ write_llm_value v @ [10]) entries)"

text \<open>The steps of a write: each failure returns at once.\<close>

definition and_then :: "(text + unit) \<times> 'f \<Rightarrow> ('f \<Rightarrow> (text + unit) \<times> 'f) \<Rightarrow> (text + unit) \<times> 'f" where
  "and_then r k = (case r of (Inl e, f) \<Rightarrow> (Inl e, f) | (Inr _, f) \<Rightarrow> k f)"

definition write_status_file ::
  "'f file_ops \<Rightarrow> path \<Rightarrow> (text \<times> text) list \<Rightarrow> 'f \<Rightarrow> (text + unit) \<times> 'f" where
  "write_status_file fs p entries f =
     (let tmp = with_extension p (ascii ''sr.tmp'')
      in and_then (fo_create_dir_all fs (path_parent p) f) (\<lambda>f.
         and_then (fo_write fs tmp (utf8_bytes (sr_body entries)) f) (\<lambda>f.
           fo_rename fs tmp p f)))"

definition write_sr ::
  "'f file_ops \<Rightarrow> dx_config \<Rightarrow> text \<Rightarrow> (text \<times> text) list \<Rightarrow> 'f \<Rightarrow> (text + unit) \<times> 'f" where
  "write_sr fs cfg name entries f = write_status_file fs (sr_path cfg name) entries f"

definition write_global_sr ::
  "'f file_ops \<Rightarrow> path option \<Rightarrow> text \<Rightarrow> (text \<times> text) list \<Rightarrow> 'f \<Rightarrow> (text + unit) \<times> 'f" where
  "write_global_sr fs cache_dir name entries f =
     write_status_file fs (path_join (global_sr_dir cache_dir) (name @ ascii ''.sr'')) entries f"

text \<open>The serializer crate's reader gives the context of the document, in order.\<close>

definition read_status ::
  "(path \<Rightarrow> 'f \<Rightarrow> (text \<times> 'v) list option) \<Rightarrow> ('v \<Rightarrow> text) \<Rightarrow> dx_config \<Rightarrow> text \<Rightarrow> 'f \<Rightarrow>
   (text, text) hmap option" where
  "read_status read_doc show_value cfg name f =
     map_option (\<lambda>entries. fold (\<lambda>(key, v) m. hm_insert key (show_value v) m) entries [])
       (read_doc (sr_path cfg name) f)"

section \<open>The root found\<close>

text \<open>What a directory's \<open>dx\<close> file says of it, if it can be read and says anything.\<close>

definition dx_declaration :: "'f file_ops \<Rightarrow> 'f \<Rightarrow> path \<Rightarrow> text option" where
  "dx_declaration fs f dir =
     Option.bind (result_ok (read_to_string fs (path_join dir (ascii ''dx'')) f))
       (\<lambda>source. List.find meaningful_line (text_lines source))"

definition passed_over :: "'f file_ops \<Rightarrow> 'f \<Rightarrow> path \<Rightarrow> bool" where
  "passed_over fs f dir \<longleftrightarrow>
     \<not> fo_is_file fs (path_join dir (ascii ''dx'')) f \<or> pred_option is_block_line (dx_declaration fs f dir) \<and>
     dx_declaration fs f dir \<noteq> None"

definition declares_root :: "'f file_ops \<Rightarrow> 'f \<Rightarrow> path \<Rightarrow> bool" where
  "declares_root fs f dir \<longleftrightarrow>
     fo_is_file fs (path_join dir (ascii ''dx'')) f \<and>
     (\<exists>l. dx_declaration fs f dir = Some l \<and> \<not> is_block_line l)"

lemma first_after:
  "(\<exists>pre post. d # ds = pre @ r # post \<and> list_all P pre) \<longleftrightarrow>
     d = r \<or> P d \<and> (\<exists>pre post. ds = pre @ r # post \<and> list_all P pre)"
proof
  assume "\<exists>pre post. d # ds = pre @ r # post \<and> list_all P pre"
  then obtain pre post where "d # ds = pre @ r # post" "list_all P pre" by blast
  then show "d = r \<or> P d \<and> (\<exists>pre post. ds = pre @ r # post \<and> list_all P pre)"
    by (cases pre) auto
next
  assume "d = r \<or> P d \<and> (\<exists>pre post. ds = pre @ r # post \<and> list_all P pre)"
  then show "\<exists>pre post. d # ds = pre @ r # post \<and> list_all P pre"
    by (metis append_Cons append_Nil list.pred_inject)
qed

lemma search_root_Cons:
  "search_root fs f (d # ds) =
     (if declares_root fs f d then Some d else if passed_over fs f d then search_root fs f ds else None)"
  by (auto simp: declares_root_def passed_over_def dx_declaration_def Let_def split: sum.splits option.splits)

lemma declares_root_not_passed: "declares_root fs f d \<Longrightarrow> \<not> passed_over fs f d"
  by (auto simp: declares_root_def passed_over_def)

lemma search_root_iff:
  "search_root fs f ds = Some r \<longleftrightarrow>
     declares_root fs f r \<and> (\<exists>pre post. ds = pre @ r # post \<and> list_all (passed_over fs f) pre)"
proof (induction ds)
  case (Cons d ds)
  show ?case unfolding first_after search_root_Cons
    using Cons.IH declares_root_not_passed [of fs f d] by auto
qed simp

text \<open>The root is the nearest directory at or above the current one whose \<open>dx\<close> file begins, comments
  aside, with a line that is no block: every directory nearer has no \<open>dx\<close> file or one that begins with a
  block. A nearer file that cannot be read, or says nothing, ends the search without a root.\<close>

theorem root_is_nearest:
  "find_root fs cwd f = Some r \<longleftrightarrow>
     declares_root fs f r \<and>
     (\<exists>dir pre post. cwd = Inr dir \<and> ancestors dir = pre @ r # post \<and> list_all (passed_over fs f) pre)"
  by (auto simp: find_root_def search_root_iff split: sum.splits)

section \<open>Status files are unambiguous\<close>

text \<open>A reader of one value: quoted with backslash escapes, or bare to the end of its line.\<close>

fun read_quoted :: "text \<Rightarrow> (text \<times> text) option" where
  "read_quoted [] = None"
| "read_quoted [c] = (if c = 34 then Some ([], []) else None)"
| "read_quoted (c # d # t) =
     (if c = 34 then Some ([], d # t)
      else if c = 92 then map_option (apfst (Cons d)) (read_quoted t)
      else map_option (apfst (Cons c)) (read_quoted (d # t)))"

definition read_llm_value :: "text \<Rightarrow> (text \<times> text) option" where
  "read_llm_value t =
     (if starts_with [34] t then read_quoted (drop 1 t)
      else Some (takeWhile (\<lambda>c. c \<noteq> 10) t, dropWhile (\<lambda>c. c \<noteq> 10) t))"

lemma read_quoted_plain: "c \<noteq> 34 \<Longrightarrow> c \<noteq> 92 \<Longrightarrow> t \<noteq> [] \<Longrightarrow>
  read_quoted (c # t) = map_option (apfst (Cons c)) (read_quoted t)"
  by (cases t) auto

lemma read_quoted_end: "read_quoted (34 # r) = Some ([], r)"
  by (cases r) auto

lemma read_quoted_escaped:
  "read_quoted (concat (map (\<lambda>c. if c = 34 \<or> c = 92 then [92, c] else [c]) v) @ 34 # r) = Some (v, r)"
proof (induction v)
  case (Cons c v)
  have "concat (map (\<lambda>c. if c = 34 \<or> c = 92 then [92, c] else [c]) v) @ 34 # r \<noteq> []" by simp
  then show ?case using Cons.IH by (cases "c = 34 \<or> c = 92") (simp_all add: read_quoted_plain)
qed (simp add: read_quoted_end)

lemma read_llm_value_written: "read_llm_value (write_llm_value v @ 10 # r) = Some (v, 10 # r)"
proof (cases "v = [] \<or> needs_quoting v")
  case True
  then show ?thesis
    by (auto simp: read_llm_value_def write_llm_value_def read_quoted_escaped read_quoted_end)
next
  case False
  then have "10 \<notin> set v" "34 \<notin> set v" "v \<noteq> []" by (auto simp: needs_quoting_def list_ex_iff)
  moreover then have "\<not> starts_with [34] (v @ 10 # r)" by (cases v) auto
  moreover have "takeWhile (\<lambda>c. c \<noteq> 10) (v @ 10 # r) = v" "dropWhile (\<lambda>c. c \<noteq> 10) (v @ 10 # r) = 10 # r"
    using \<open>10 \<notin> set v\<close> by (induction v) auto
  ultimately show ?thesis using False by (simp add: read_llm_value_def write_llm_value_def)
qed

lemma write_llm_value_inject:
  "write_llm_value v @ 10 # r = write_llm_value v' @ 10 # r' \<longleftrightarrow> v = v' \<and> r = r'"
  by (metis (no_types) list.inject option.inject prod.inject read_llm_value_written)

lemma key_prefix: "61 \<notin> set k \<Longrightarrow> 61 \<notin> set k' \<Longrightarrow> k @ (61 :: nat) # r = k' @ 61 # r' \<longleftrightarrow> k = k' \<and> r = r'"
proof (induction k arbitrary: k')
  case Nil
  then show ?case by (cases k') auto
next
  case (Cons c k)
  then show ?case by (cases k') auto
qed

text \<open>No two lists of entries give the same status file, whatever their values hold, quotes, newlines
  and backslashes included, when no key has an equals sign.\<close>

theorem status_file_unambiguous:
  assumes "\<forall>(k, v) \<in> set es. 61 \<notin> set k" and "\<forall>(k, v) \<in> set es'. 61 \<notin> set k"
  shows "sr_body es = sr_body es' \<longleftrightarrow> es = es'"
  using assms
proof (induction es arbitrary: es')
  case Nil
  then show ?case by (cases es') (auto simp: sr_body_def)
next
  case (Cons e es)
  then show ?case
    by (cases es'; cases e) (auto simp: sr_body_def key_prefix write_llm_value_inject split: prod.splits)
qed

theorem status_file_unambiguous_witness:
  "sr_body [(ascii ''note'', ascii ''a b'')] \<noteq> sr_body [(ascii ''note'', [34, 97, 10])]"
proof -
  have "\<forall>(k, v) \<in> set [(ascii ''note'', ascii ''a b'')]. 61 \<notin> set k"
    "\<forall>(k, v) \<in> set [(ascii ''note'', [34, 97, 10])]. 61 \<notin> set k" by code_simp+
  from status_file_unambiguous [OF this] show ?thesis by (simp add: ascii_def)
qed

section \<open>Status files are replaced whole\<close>

text \<open>What the file system promises: a write that succeeds is what a read gives, a rename moves the
  contents or does nothing, and none of the operations touches another file.\<close>

definition files_kept :: "'f file_ops \<Rightarrow> path set \<Rightarrow> 'f \<Rightarrow> 'f \<Rightarrow> bool" where
  "files_kept fs ps f f' \<longleftrightarrow> (\<forall>q. q \<notin> ps \<longrightarrow> result_ok (fo_read fs q f') = result_ok (fo_read fs q f))"

definition posix_files :: "'f file_ops \<Rightarrow> bool" where
  "posix_files fs \<longleftrightarrow>
     (\<forall>p b f. files_kept fs {p} f (snd (fo_write fs p b f)) \<and>
        (is_ok (fst (fo_write fs p b f)) \<longrightarrow> fo_read fs p (snd (fo_write fs p b f)) = Inr b)) \<and>
     (\<forall>p q f. if is_ok (fst (fo_rename fs p q f))
        then files_kept fs {p, q} f (snd (fo_rename fs p q f)) \<and>
             fo_read fs q (snd (fo_rename fs p q f)) = fo_read fs p f
        else files_kept fs {} f (snd (fo_rename fs p q f))) \<and>
     (\<forall>p f. files_kept fs {} f (snd (fo_create_dir_all fs p f)))"

lemma extension_differs: "p \<noteq> [] \<Longrightarrow> last p = n @ ascii ''.sr'' \<Longrightarrow> with_extension p (ascii ''sr.tmp'') \<noteq> p"
proof
  assume p: "p \<noteq> []" "last p = n @ ascii ''.sr''" and "with_extension p (ascii ''sr.tmp'') = p"
  then have "last p = file_stem (last p) @ [46] @ ascii ''sr.tmp''" by (metis last_snoc with_extension_def)
  then have "last (last p) = last (file_stem (last p) @ [46] @ ascii ''sr.tmp'')" by (rule arg_cong)
  with p(2) show False by (simp add: ascii_def)
qed

text \<open>A status file is replaced whole. Whatever step fails, a reader of the path finds the earlier
  contents or all of the new ones, never a part; a write reported as done leaves the new ones; and no
  other file but the temporary one is touched.\<close>

lemma status_write_whole:
  assumes "posix_files fs" and "p \<noteq> []" and "last p = n @ ascii ''.sr''"
  shows "case write_status_file fs p es f of (r, f') \<Rightarrow>
    result_ok (fo_read fs p f') \<in> {result_ok (fo_read fs p f), Some (utf8_bytes (sr_body es))} \<and>
    (is_ok r \<longrightarrow> fo_read fs p f' = Inr (utf8_bytes (sr_body es))) \<and>
    files_kept fs {p, with_extension p (ascii ''sr.tmp'')} f f'"
proof -
  define t b where tb: "t = with_extension p (ascii ''sr.tmp'')" "b = utf8_bytes (sr_body es)"
  define f1 f2 where f12: "f1 = snd (fo_create_dir_all fs (path_parent p) f)" "f2 = snd (fo_write fs t b f1)"
  have "t \<noteq> p" using extension_differs [OF assms(2,3)] by (simp add: tb)
  have k1: "files_kept fs {} f f1" and k2: "files_kept fs {t} f1 f2"
    and w: "is_ok (fst (fo_write fs t b f1)) \<Longrightarrow> fo_read fs t f2 = Inr b"
    using assms(1) by (auto simp: posix_files_def f12)
  have r: "if is_ok (fst (fo_rename fs t p f2))
      then files_kept fs {t, p} f2 (snd (fo_rename fs t p f2)) \<and>
           fo_read fs p (snd (fo_rename fs t p f2)) = fo_read fs t f2
      else files_kept fs {} f2 (snd (fo_rename fs t p f2))"
    using assms(1) by (auto simp: posix_files_def)
  show ?thesis
    using k1 k2 w r \<open>t \<noteq> p\<close> unfolding write_status_file_def Let_def tb [symmetric] and_then_def
    by (cases "fo_create_dir_all fs (path_parent p) f"; cases "fst (fo_create_dir_all fs (path_parent p) f)";
        cases "fo_write fs t b f1"; cases "fst (fo_write fs t b f1)";
        cases "fo_rename fs t p f2"; cases "fst (fo_rename fs t p f2)")
      (auto simp: files_kept_def f12)
qed

definition map_files :: "(path \<rightharpoonup> bytes) file_ops" where
  "map_files =
     \<lparr>fo_is_file = (\<lambda>p f. f p \<noteq> None),
      fo_read = (\<lambda>p f. case f p of None \<Rightarrow> Inl (ascii ''No such file'') | Some b \<Rightarrow> Inr b),
      fo_write = (\<lambda>p b f. (Inr (), f(p \<mapsto> b))),
      fo_rename = (\<lambda>p q f. case f p of None \<Rightarrow> (Inl (ascii ''No such file''), f)
                                 | Some b \<Rightarrow> (Inr (), (f(p := None))(q \<mapsto> b))),
      fo_create_dir_all = (\<lambda>p f. (Inr (), f))\<rparr>"

lemma map_files_posix: "posix_files map_files"
  by (auto simp: posix_files_def map_files_def files_kept_def split: option.splits)

lemma map_files_written:
  "fo_read map_files (sr_path cfg (ascii ''dcp''))
     (snd (write_sr map_files cfg (ascii ''dcp'') [(ascii ''status'', ascii ''ok'')] Map.empty)) =
   Inr (utf8_bytes (ascii ''status=ok'' @ [10]))"
proof -
  have "sr_path cfg (ascii ''dcp'') = dx_sr_dir cfg @ [ascii ''dcp.sr'']"
    by (simp add: sr_path_def path_join_def path_components_def ascii_def)
  moreover have "with_extension (dx_sr_dir cfg @ [ascii ''dcp.sr'']) (ascii ''sr.tmp'') = dx_sr_dir cfg @ [ascii ''dcp.sr.tmp'']"
    by (simp add: with_extension_def file_stem_def ascii_def)
  moreover have "sr_body [(ascii ''status'', ascii ''ok'')] = ascii ''status=ok'' @ [10]"
    by (simp add: sr_body_def write_llm_value_def needs_quoting_def ascii_def)
  ultimately show ?thesis
    by (simp add: write_sr_def write_status_file_def map_files_def and_then_def)
qed

end
