(* ===== verification/Stdio_Server.thy ===== *)
theory Stdio_Server
  imports Stdio Json_Rpc Schema_Convert Dx_Config Formats
begin

text \<open>
  The command line tool (\<open>src/src/bin/dcp.rs\<close>): the stdio server with its two session flags, the message
  loop over the transport of \<open>Stdio\<close>, the schema conversion and validation commands, and the dispatch of
  \<open>main\<close>. The JSON library, the derived reader of MCP schemas and the file system are parameters;
  \<open>println!\<close> and \<open>eprintln!\<close> append to lists of lines.
\<close>

section \<open>Answering one message\<close>

record stdio_session =
  ss_initialize_seen :: bool
  ss_initialized :: bool

definition stdio_session_default :: stdio_session where
  "stdio_session_default = \<lparr>ss_initialize_seen = False, ss_initialized = False\<rparr>"

definition stdio_error_response :: "serde_json \<Rightarrow> text \<Rightarrow> int \<Rightarrow> string \<Rightarrow> text + text" where
  "stdio_error_response sj i code message =
     bind_result (sj_print sj (SerValue (JString (ascii message)))) (\<lambda>m.
       Inr (ascii ''{\"jsonrpc\":\"2.0\",\"error\":{\"code\":'' @ decimal_int code @
            ascii '',\"message\":'' @ m @ ascii ''},\"id\":'' @ i @ ascii ''}''))"

definition CARGO_PKG_VERSION :: string where "CARGO_PKG_VERSION = ''1.0.0''"

definition welcome_response :: "text \<Rightarrow> text" where
  "welcome_response i =
     ascii ''{\"jsonrpc\":\"2.0\",\"result\":{\"protocolVersion\":\"2024-11-05\",\"capabilities\":{},\"serverInfo\":{\"name\":\"dcp\",\"version\":\"'' @
     ascii CARGO_PKG_VERSION @ ascii ''\"}},\"id\":'' @ i @ ascii ''}''"

definition pong_response :: "text \<Rightarrow> text" where
  "pong_response i = ascii ''{\"jsonrpc\":\"2.0\",\"result\":{},\"id\":'' @ i @ ascii ''}''"

definition unknown_method_response :: "serde_json \<Rightarrow> text \<Rightarrow> text + text" where
  "unknown_method_response sj i =
     bind_result (sj_print sj (SerValue (JString (ascii ''Method not found'')))) (\<lambda>m.
       Inr (ascii ''{\"jsonrpc\":\"2.0\",\"error\":{\"code\":-32601,\"message\":'' @ m @
            ascii ''},\"id\":'' @ i @ ascii ''}''))"

text \<open>\<open>Ok(Some(response?))\<close>.\<close>

definition answer_with :: "text + text \<Rightarrow> text + text option" where
  "answer_with r = bind_result r (\<lambda>t. Inr (Some t))"

definition stdio_id_text :: "serde_json \<Rightarrow> request_id \<Rightarrow> text + text" where
  "stdio_id_text sj i =
     (case i of
        IdNumber n \<Rightarrow> Inr (decimal_int (sint n))
      | IdString s \<Rightarrow> sj_print sj (SerValue (JString s))
      | IdNull \<Rightarrow> Inr (ascii ''null'')
      | IdMissing \<Rightarrow> Inr (ascii ''null''))"

definition null_invalid_request :: "serde_json \<Rightarrow> text + text option" where
  "null_invalid_request sj =
     answer_with (stdio_error_response sj (ascii ''null'') (- 32600) ''Invalid Request'')"

definition handle_stdio_notification ::
  "serde_json \<Rightarrow> json_rpc_request \<Rightarrow> stdio_session \<Rightarrow> (text + text option) \<times> stdio_session" where
  "handle_stdio_notification sj request s =
     (if rq_method request = ascii ''notifications/initialized'' then
        if rq_params request \<noteq> None then (null_invalid_request sj, s)
        else if \<not> ss_initialize_seen s \<or> ss_initialized s then (null_invalid_request sj, s)
        else (Inr None, s\<lparr>ss_initialized := True\<rparr>)
      else if rq_method request = ascii ''notifications/cancelled'' then (Inr None, s)
      else (null_invalid_request sj, s))"

definition gated_methods :: "text list" where
  "gated_methods =
     map ascii [''tools/list'', ''resources/list'', ''prompts/list'', ''tools/call'', ''resources/read'',
       ''resources/subscribe'', ''resources/unsubscribe'', ''prompts/get'', ''completion/complete'']"

definition handle_stdio_method ::
  "serde_json \<Rightarrow> text \<Rightarrow> text \<Rightarrow> stdio_session \<Rightarrow> (text + text option) \<times> stdio_session" where
  "handle_stdio_method sj m i s =
     (if m = ascii ''initialize'' then
        if ss_initialize_seen s then
          (answer_with (stdio_error_response sj i (- 32600) ''Invalid Request''), s)
        else (Inr (Some (welcome_response i)), s\<lparr>ss_initialize_seen := True\<rparr>)
      else if m = ascii ''initialized'' \<or> m = ascii ''notifications/initialized'' then
        (answer_with (stdio_error_response sj i (- 32600) ''Invalid Request''), s)
      else if m = ascii ''ping'' then (Inr (Some (pong_response i)), s)
      else if m \<in> set gated_methods then
        if \<not> ss_initialized s then
          (answer_with (stdio_error_response sj i (- 32600) ''Invalid Request''), s)
        else (answer_with (stdio_error_response sj i (- 32001) ''Capability denied''), s)
      else (answer_with (unknown_method_response sj i), s))"

definition handle_stdio_message_with_session ::
  "serde_json \<Rightarrow> text \<Rightarrow> stdio_session \<Rightarrow> (text + text option) \<times> stdio_session" where
  "handle_stdio_message_with_session sj message s =
     (case parse_request sj message of
        Inl (InvalidJson e) \<Rightarrow>
          (answer_with (stdio_error_response sj (ascii ''null'') (- 32700) ''Parse error''), s)
      | Inl _ \<Rightarrow> (null_invalid_request sj, s)
      | Inr request \<Rightarrow>
          if is_notification request then handle_stdio_notification sj request s
          else
            (case stdio_id_text sj (rq_id request) of
               Inl e \<Rightarrow> (Inl e, s)
             | Inr i \<Rightarrow> handle_stdio_method sj (rq_method request) i s))"

section \<open>The message loop\<close>

definition sanitized_stdio_preview :: "serde_json \<Rightarrow> text \<Rightarrow> nat \<Rightarrow> text" where
  "sanitized_stdio_preview sj message max_chars =
     take max_chars
       (case result_ok (bind_result (sj_value sj message) (\<lambda>v.
               sj_print sj (SerValue (sanitize_json_value v)))) of
          Some t \<Rightarrow> t
        | None \<Rightarrow> sanitize_text message)"

text \<open>How an I/O error of the transport displays.\<close>

fun stdio_error_text :: "stdio_error \<Rightarrow> text" where
  "stdio_error_text (IoFailed e) = e"
| "stdio_error_text InvalidUtf8 = ascii ''Invalid UTF-8 in stdin message''"
| "stdio_error_text MessageTooLarge = ascii ''Message exceeds maximum size''"
| "stdio_error_text TransportShutDown = ascii ''transport is shut down''"

definition internal_error_line :: "text" where
  "internal_error_line =
     ascii ''{\"jsonrpc\":\"2.0\",\"error\":{\"code\":-32603,\"message\":\"Internal error\"},\"id\":null}''"

function stdio_loop ::
  "serde_json \<Rightarrow> 'o writer \<Rightarrow> stdio_session \<Rightarrow> stdio_transport \<Rightarrow> reader \<Rightarrow> 'o \<Rightarrow>
   stdio_session \<times> stdio_transport \<times> reader \<times> 'o" where
  "stdio_loop sj w se s r out =
     (case read_message s r of
        (Inr (Some message), s', r') \<Rightarrow>
          let s1 = log_debug (ascii ''Received: '' @ sanitized_stdio_preview sj message 100) s'
          in (case handle_stdio_message_with_session sj message se of
                (Inr None, se') \<Rightarrow> stdio_loop sj w se' s1 r' out
              | (Inr (Some resp), se') \<Rightarrow>
                  (case write_message w resp s1 out of
                     (Inl e, s2, out') \<Rightarrow>
                       (se', log_error (ascii ''Write error: '' @ stdio_error_text e) s2, r', out')
                   | (Inr _, s2, out') \<Rightarrow> stdio_loop sj w se' s2 r' out')
              | (Inl e, se') \<Rightarrow>
                  let s2 = log_error (ascii ''Handler error: '' @ sanitize_text e) s1
                  in (case write_message w internal_error_line s2 out of
                        (_, s3, out') \<Rightarrow> stdio_loop sj w se' s3 r' out'))
      | (Inr None, s', r') \<Rightarrow> (se, log_stderr (ascii ''Shutting down'') s', r', out)
      | (Inl e, s', r') \<Rightarrow> (se, log_error (ascii ''Read error: '' @ stdio_error_text e) s', r', out))"
  by pat_completeness auto
termination
  by (relation "measure (\<lambda>(sj, w, se, s, r, out). reader_size r)")
    (auto dest!: read_message_progress [OF sym])

declare stdio_loop.simps [simp del]

definition eprintln :: "text \<Rightarrow> stdio_transport \<Rightarrow> stdio_transport" where
  "eprintln l s = s\<lparr>sx_stderr := sx_stderr s @ [l]\<rparr>"

definition run_stdio_mode ::
  "serde_json \<Rightarrow> 'o writer \<Rightarrow> reader \<Rightarrow> 'o \<Rightarrow> text list \<times> 'o" where
  "run_stdio_mode sj w r out =
     (let s = stdio_with_config (stdio_config_default\<lparr>so_stderr_logging := True\<rparr>);
          s = eprintln (ascii ''[DCP] Starting in stdio mode'') s;
          s = eprintln (ascii ''[DCP] Reading JSON-RPC messages from stdin'') s;
          s = eprintln (ascii ''[DCP] Writing responses to stdout'') s
      in case stdio_loop sj w stdio_session_default s r out of
           (se, s', r', out') \<Rightarrow> (sx_stderr (eprintln (ascii ''[DCP] Stdio mode terminated'') s'), out'))"

section \<open>The session follows its history\<close>

definition is_initialize :: "serde_json \<Rightarrow> text \<Rightarrow> bool" where
  "is_initialize sj m \<longleftrightarrow>
     (case parse_request sj m of
        Inl e \<Rightarrow> False
      | Inr r \<Rightarrow> \<not> is_notification r \<and> is_ok (stdio_id_text sj (rq_id r)) \<and> rq_method r = ascii ''initialize'')"

definition is_initialized_note :: "serde_json \<Rightarrow> text \<Rightarrow> bool" where
  "is_initialized_note sj m \<longleftrightarrow>
     (case parse_request sj m of
        Inl e \<Rightarrow> False
      | Inr r \<Rightarrow>
          is_notification r \<and> rq_method r = ascii ''notifications/initialized'' \<and> rq_params r = None)"

definition handshake_completed :: "serde_json \<Rightarrow> text list \<Rightarrow> bool" where
  "handshake_completed sj ms \<longleftrightarrow>
     (\<exists>pre m post. ms = pre @ m # post \<and> is_initialized_note sj m \<and> list_ex (is_initialize sj) pre)"

definition stdio_step ::
  "serde_json \<Rightarrow> stdio_session \<Rightarrow> text \<Rightarrow> stdio_session \<times> (text + text option)" where
  "stdio_step sj s m = prod.swap (handle_stdio_message_with_session sj m s)"

lemma stdio_step_session:
  "fst (stdio_step sj s m) =
     s\<lparr>ss_initialize_seen := ss_initialize_seen s \<or> is_initialize sj m,
       ss_initialized := ss_initialized s \<or> is_initialized_note sj m \<and> ss_initialize_seen s\<rparr>"
proof (cases "parse_request sj m")
  case (Inl e)
  then show ?thesis
    by (cases e) (simp_all add: stdio_step_def handle_stdio_message_with_session_def is_initialize_def is_initialized_note_def)
next
  case (Inr r)
  then show ?thesis
    by (cases "stdio_id_text sj (rq_id r)")
      (auto simp: stdio_step_def handle_stdio_message_with_session_def is_initialize_def is_initialized_note_def
        handle_stdio_notification_def handle_stdio_method_def)
qed

lemma handshake_completed_snoc:
  "handshake_completed sj (ms @ [m]) \<longleftrightarrow>
     handshake_completed sj ms \<or> is_initialized_note sj m \<and> list_ex (is_initialize sj) ms"
proof
  assume "handshake_completed sj (ms @ [m])"
  then obtain pre x post where p: "ms @ [m] = pre @ x # post" "is_initialized_note sj x"
    "list_ex (is_initialize sj) pre" by (auto simp: handshake_completed_def)
  then show "handshake_completed sj ms \<or> is_initialized_note sj m \<and> list_ex (is_initialize sj) ms"
    by (cases post rule: rev_cases) (auto simp: handshake_completed_def)
next
  assume "handshake_completed sj ms \<or> is_initialized_note sj m \<and> list_ex (is_initialize sj) ms"
  then show "handshake_completed sj (ms @ [m])"
    unfolding handshake_completed_def by (metis append.assoc append_Cons append_Nil)
qed

lemma stdio_session_history:
  "run_ops (stdio_step sj) stdio_session_default ms =
     \<lparr>ss_initialize_seen = list_ex (is_initialize sj) ms, ss_initialized = handshake_completed sj ms\<rparr>"
proof (induction ms rule: rev_induct)
  case Nil
  then show ?case by (simp add: stdio_session_default_def handshake_completed_def)
next
  case (snoc m ms)
  then show ?case
    by (auto simp: run_ops_append stdio_step_session handshake_completed_snoc list_ex_iff)
qed

definition stdio_session_after :: "serde_json \<Rightarrow> text list \<Rightarrow> stdio_session" where
  "stdio_session_after sj ms = run_ops (stdio_step sj) stdio_session_default ms"

lemma stdio_answers_by_history:
  assumes "parse_request sj m = Inr r" and "\<not> is_notification r" and "stdio_id_text sj (rq_id r) = Inr i"
  shows "fst (handle_stdio_message_with_session sj m (stdio_session_after sj ms)) =
    (if rq_method r = ascii ''initialize'' \<and> \<not> list_ex (is_initialize sj) ms then
       Inr (Some (welcome_response i))
     else if rq_method r = ascii ''ping'' then Inr (Some (pong_response i))
     else if rq_method r \<in> set gated_methods \<and> handshake_completed sj ms then
       answer_with (stdio_error_response sj i (- 32001) ''Capability denied'')
     else if rq_method r \<in> set gated_methods \<union> {ascii ''initialize'', ascii ''initialized'',
         ascii ''notifications/initialized''} then
       answer_with (stdio_error_response sj i (- 32600) ''Invalid Request'')
     else answer_with (unknown_method_response sj i))"
  using assms
  by (auto simp: handle_stdio_message_with_session_def handle_stdio_method_def stdio_session_after_def
      stdio_session_history gated_methods_def)

text \<open>C11: The stdio server answers by its history alone. After any messages, a request whose id can be
  written is answered as follows: the first \<open>initialize\<close> request is welcomed and every later one refused,
  \<open>ping\<close> is always answered, a method of the server's features is refused as out of order until an
  \<open>initialized\<close> notification has followed an \<open>initialize\<close> request and denied for want of a capability ever
  after, and no other request has any effect. No message but these two moves the session.\<close>

theorem stdio_session_by_history:
  assumes "parse_request sj m = Inr r" and "\<not> is_notification r" and "stdio_id_text sj (rq_id r) = Inr i"
  shows "ss_initialize_seen (stdio_session_after sj ms) = list_ex (is_initialize sj) ms \<and>
    ss_initialized (stdio_session_after sj ms) = handshake_completed sj ms \<and>
    fst (handle_stdio_message_with_session sj m (stdio_session_after sj ms)) =
      (if rq_method r = ascii ''initialize'' \<and> \<not> list_ex (is_initialize sj) ms then
         Inr (Some (welcome_response i))
       else if rq_method r = ascii ''ping'' then Inr (Some (pong_response i))
       else if rq_method r \<in> set gated_methods \<and> handshake_completed sj ms then
         answer_with (stdio_error_response sj i (- 32001) ''Capability denied'')
       else if rq_method r \<in> set gated_methods \<union> {ascii ''initialize'', ascii ''initialized'',
           ascii ''notifications/initialized''} then
         answer_with (stdio_error_response sj i (- 32600) ''Invalid Request'')
       else answer_with (unknown_method_response sj i))"
  using stdio_answers_by_history [OF assms] by (simp add: stdio_session_after_def stdio_session_history)

text \<open>A client that shakes hands and asks for the tools.\<close>

definition client_envelope :: "string \<Rightarrow> (text \<times> json) list \<Rightarrow> json" where
  "client_envelope m rest =
     json_object ([(ascii ''jsonrpc'', JString (ascii ''2.0'')), (ascii ''method'', JString (ascii m))] @ rest)"

fun print_plain :: "ser \<Rightarrow> text" where
  "print_plain (SerValue (JString s)) = escape_json_string s"
| "print_plain v = []"

definition sample_stdio_json :: serde_json where
  "sample_stdio_json =
     \<lparr>sj_stream = (\<lambda>t. (DocScalar, None)), sj_custom = (\<lambda>m. m),
      sj_value = (\<lambda>t.
        if t = ascii ''A'' then Inr (client_envelope ''initialize'' [(ascii ''id'', JNumber (number_from_i64 1))])
        else if t = ascii ''B'' then Inr (client_envelope ''notifications/initialized'' [])
        else if t = ascii ''C'' then Inr (client_envelope ''tools/list'' [(ascii ''id'', JNumber (number_from_i64 2))])
        else Inl (ascii ''expected value'')),
      sj_error_object = (\<lambda>v. None), sj_print = (\<lambda>v. Inr (print_plain v))\<rparr>"

lemma sample_stdio_values:
  "parse_request_value (client_envelope ''initialize'' [(ascii ''id'', JNumber (number_from_i64 1))]) =
     Inr (request_new (ascii ''initialize'') None (IdNumber 1))"
  "parse_request_value (client_envelope ''notifications/initialized'' []) =
     Inr (request_new (ascii ''notifications/initialized'') None IdMissing)"
  "parse_request_value (client_envelope ''tools/list'' [(ascii ''id'', JNumber (number_from_i64 2))]) =
     Inr (request_new (ascii ''tools/list'') None (IdNumber 2))"
  by (code_simp, simp only: option.pred_inject not_True_eq_False if_False,
    simp add: parse_request_id_value_def jm_get_def ascii_def number_as_i64_def validate_request_id_def
      request_new_def JSONRPC_VERSION_def)+

lemma sample_stdio_parse:
  "parse_request sample_stdio_json (ascii [c]) =
     bind_result (map_err map_json_error (sj_value sample_stdio_json (ascii [c]))) parse_request_value"
  by (simp add: parse_request_def parse_request_with_limit_def ensure_no_duplicate_object_fields_def
      DEFAULT_MAX_JSONRPC_REQUEST_SIZE_def text_len_def len_utf8_def ascii_def sample_stdio_json_def)

lemma sample_stdio_requests:
  "parse_request sample_stdio_json (ascii ''A'') = Inr (request_new (ascii ''initialize'') None (IdNumber 1))"
  "parse_request sample_stdio_json (ascii ''B'') = Inr (request_new (ascii ''notifications/initialized'') None IdMissing)"
  "parse_request sample_stdio_json (ascii ''C'') =
     Inr (request_new (ascii ''tools/list'') None (IdNumber 2))"
  unfolding sample_stdio_parse by (simp_all add: sample_stdio_json_def sample_stdio_values)

theorem stdio_session_by_history_witness:
  "fst (handle_stdio_message_with_session sample_stdio_json (ascii ''C'')
     (stdio_session_after sample_stdio_json [ascii ''A'', ascii ''B''])) =
   answer_with (stdio_error_response sample_stdio_json (ascii ''2'') (- 32001) ''Capability denied'') \<and>
   fst (handle_stdio_message_with_session sample_stdio_json (ascii ''C'')
     (stdio_session_after sample_stdio_json [ascii ''B'', ascii ''A''])) =
   answer_with (stdio_error_response sample_stdio_json (ascii ''2'') (- 32600) ''Invalid Request'')"
proof -
  let ?r = "request_new (ascii ''tools/list'') None (IdNumber 2)"
  have c: "\<not> is_notification ?r"
    "stdio_id_text sample_stdio_json (rq_id ?r) = Inr (ascii ''2'')"
    "rq_method ?r = ascii ''tools/list''" "rq_method ?r \<in> set gated_methods"
    by (simp_all add: is_notification_def request_new_def stdio_id_text_def gated_methods_def decimal_int_def decimal.simps ascii_def)
  have kinds: "is_initialized_note sample_stdio_json (ascii ''B'')" "is_initialize sample_stdio_json (ascii ''A'')"
    "\<not> is_initialized_note sample_stdio_json (ascii ''A'')" "\<not> is_initialize sample_stdio_json (ascii ''B'')"
    by (simp_all add: is_initialized_note_def is_initialize_def sample_stdio_requests is_notification_def
        request_new_def stdio_id_text_def)
  have "handshake_completed sample_stdio_json ([ascii ''A''] @ [ascii ''B''])"
    "\<not> handshake_completed sample_stdio_json ([ascii ''B''] @ [ascii ''A''])"
    unfolding handshake_completed_snoc by (simp_all add: kinds) (simp add: handshake_completed_def Cons_eq_append_conv kinds)
  with c stdio_session_by_history [OF sample_stdio_requests(3) c(1,2)] show ?thesis by simp
qed

section \<open>The server end to end\<close>

text \<open>What the library promises of printed strings: they print, on one line and in quotes, with at most
  six characters for a byte; and the ids it reads are texts.\<close>

definition prints_lines :: "serde_json \<Rightarrow> bool" where
  "prints_lines sj \<longleftrightarrow>
     (\<forall>s. scalars s \<longrightarrow> (\<exists>t. sj_print sj (SerValue (JString s)) = Inr t \<and> scalars t \<and> 10 \<notin> set t \<and>
        text_len t \<le> 6 * text_len s + 2))"

definition reads_texts :: "serde_json \<Rightarrow> bool" where
  "reads_texts sj \<longleftrightarrow>
     (\<forall>t obj s. scalars t \<and> sj_value sj t = Inr (JObject obj) \<and> jm_get obj (ascii ''id'') = Some (JString s) \<longrightarrow>
        scalars s)"

lemma ascii_scalars: "scalars (ascii s)"
  using ascii_small [of s] by (auto simp: scalars_def is_scalar_def)

lemma text_len_app [simp]: "text_len (s @ t) = text_len s + text_len t"
  by (simp add: text_len_def)

lemma decimal_scalars: "scalars (decimal n)" "10 \<notin> set (decimal n)"
  using decimal_digits [of n] by (auto simp: scalars_def is_scalar_def)

lemma decimal_length: "n < 10 ^ k \<Longrightarrow> 0 < k \<Longrightarrow> text_len (decimal n) \<le> k"
proof (induction n arbitrary: k rule: decimal.induct)
  case (1 n)
  show ?case
  proof (cases "n < 10")
    case True
    then show ?thesis using 1 by (simp add: decimal.simps [of n] text_len_def len_utf8_def)
  next
    case False
    then obtain j where j: "k = Suc j" "0 < j" using 1(2,3) by (cases k; cases "k - 1") auto
    with 1(2) have "n div 10 < 10 ^ j" by (simp add: less_mult_imp_div_less mult.commute)
    from 1(1) [OF False this j(2)] have "text_len (decimal (n div 10)) \<le> j" .
    moreover have "len_utf8 (48 + n mod 10) = 1"
      using mod_less_divisor [of 10 n] by (simp add: len_utf8_def)
    ultimately show ?thesis using False j by (simp add: decimal.simps [of n]) (simp add: text_len_def)
  qed
qed

definition line_text :: "nat \<Rightarrow> text \<Rightarrow> bool" where
  "line_text n t \<longleftrightarrow> scalars t \<and> 10 \<notin> set t \<and> text_len t \<le> n"

lemma line_text_append: "line_text m s \<Longrightarrow> line_text n t \<Longrightarrow> line_text (m + n) (s @ t)"
  by (simp add: line_text_def)

lemma line_text_ascii: "CHR 0x0A \<notin> set s \<Longrightarrow> line_text (2 * length s) (ascii s)"
proof -
  assume s: "CHR 0x0A \<notin> set s"
  have "len_utf8 x \<le> 2" if "x < 256" for x using that by (simp add: len_utf8_def)
  then have "len_utf8 (of_char c) \<le> 2" for c :: char
    using ascii_small [of "[c]"] by (metis ascii_def list.set_intros(1) list.simps(9))
  then have "text_len (ascii s) \<le> 2 * length s"
  proof (induction s)
    case (Cons c s)
    from add_mono [OF Cons.prems [of c] Cons.IH [OF Cons.prems]] show ?case
      by (simp add: text_len_def ascii_def)
  qed (simp add: text_len_def ascii_def)
  moreover have "of_char c \<noteq> (10 :: nat)" if "c \<in> set s" for c
  proof
    assume "of_char c = (10 :: nat)"
    then have "of_char c = (of_char (CHR 0x0A) :: nat)" by simp
    then have "c = CHR 0x0A" by (simp only: of_char_eq_iff)
    with s that show False by simp
  qed
  then have "10 \<notin> set (ascii s)" by (force simp: ascii_def)
  ultimately show ?thesis by (simp add: line_text_def ascii_scalars)
qed

lemma line_text_decimal_int: "\<bar>i\<bar> < 10 ^ 20 \<Longrightarrow> line_text 21 (decimal_int i)"
proof -
  assume "\<bar>i\<bar> < 10 ^ 20"
  then have "text_len (decimal (nat \<bar>i\<bar>)) \<le> 20" by (intro decimal_length) auto
  then show ?thesis
    using decimal_scalars by (auto simp: line_text_def decimal_int_def is_scalar_def text_len_def len_utf8_def)
qed

lemma line_text_printed:
  assumes "prints_lines sj" and "scalars s"
  obtains t where "sj_print sj (SerValue (JString s)) = Inr t" and "line_text (6 * text_len s + 2) t"
  using assms by (force simp: prints_lines_def line_text_def)

lemma sendable_answer:
  assumes "line_text n t" and "n \<le> 10000" and "hd t = 123" and "last t = 125" and "t \<noteq> []"
  shows "sendable (10 * 1024 * 1024) t"
  using assms by (simp add: sendable_def line_text_def is_whitespace_def)

lemma error_response_sendable:
  assumes "prints_lines sj" and "line_text 1600 i" and "\<bar>code\<bar> < 10 ^ 20" and "CHR 0x0A \<notin> set msg" and "length msg < 100"
  obtains t where "stdio_error_response sj i code msg = Inr t" and "sendable (10 * 1024 * 1024) t"
proof -
  obtain m where m: "sj_print sj (SerValue (JString (ascii msg))) = Inr m" "line_text (6 * text_len (ascii msg) + 2) m"
    using line_text_printed [OF assms(1) ascii_scalars] .
  have "text_len (ascii msg) \<le> 200" using line_text_ascii [OF assms(4)] assms(5) by (simp add: line_text_def)
  then have "line_text 1300 m" using m(2) by (simp add: line_text_def)
  let ?t = "ascii ''{\"jsonrpc\":\"2.0\",\"error\":{\"code\":'' @ decimal_int code @
            ascii '',\"message\":'' @ m @ ascii ''},\"id\":'' @ i @ ascii ''}''"
  have "line_text (2 * 33 + (21 + (2 * 11 + (1300 + (2 * 7 + (1600 + 2 * 1)))))) ?t"
    using line_text_ascii [of "''{\"jsonrpc\":\"2.0\",\"error\":{\"code\":''"] line_text_ascii [of "'',\"message\":''"]
      line_text_ascii [of "''},\"id\":''"] line_text_ascii [of "''}''"]
    by (intro line_text_append line_text_decimal_int assms(2,3) \<open>line_text 1300 m\<close>) simp_all
  then have "sendable (10 * 1024 * 1024) ?t" by (rule sendable_answer) (simp_all add: ascii_def)
  then show ?thesis using that m(1) by (simp add: stdio_error_response_def)
qed

lemma unknown_method_response_error:
  "unknown_method_response sj i = stdio_error_response sj i (- 32601) ''Method not found''"
proof -
  have "decimal_int (- 32601) = ascii ''-32601''"
    by (simp add: decimal_int_def decimal.simps ascii_def)
  then show ?thesis
    by (simp add: unknown_method_response_def stdio_error_response_def) (simp add: ascii_def)
qed

lemma plain_responses_sendable:
  assumes "line_text 1600 i"
  shows "sendable (10 * 1024 * 1024) (welcome_response i)" "sendable (10 * 1024 * 1024) (pong_response i)"
proof -
  have "line_text (2 * 120 + (2 * 5 + (2 * 9 + (1600 + 2 * 1)))) (welcome_response i)"
    unfolding welcome_response_def CARGO_PKG_VERSION_def
    using line_text_ascii [of "''{\"jsonrpc\":\"2.0\",\"result\":{\"protocolVersion\":\"2024-11-05\",\"capabilities\":{},\"serverInfo\":{\"name\":\"dcp\",\"version\":\"''"]
      line_text_ascii [of "''1.0.0''"] line_text_ascii [of "''\"}},\"id\":''"] line_text_ascii [of "''}''"]
    by (intro line_text_append assms) (simp_all add: line_text_def)
  then show "sendable (10 * 1024 * 1024) (welcome_response i)"
    by (rule sendable_answer) (simp_all add: welcome_response_def ascii_def)
  have "line_text (2 * 34 + (1600 + 2 * 1)) (pong_response i)"
    unfolding pong_response_def
    using line_text_ascii [of "''{\"jsonrpc\":\"2.0\",\"result\":{},\"id\":''"] line_text_ascii [of "''}''"]
    by (intro line_text_append assms) (simp_all add: line_text_def)
  then show "sendable (10 * 1024 * 1024) (pong_response i)"
    by (rule sendable_answer) (simp_all add: pong_response_def ascii_def)
qed

lemma stdio_id_line:
  assumes "prints_lines sj" and "reads_texts sj" and "scalars m" and "parse_request sj m = Inr r"
  obtains i where "stdio_id_text sj (rq_id r) = Inr i" and "line_text 1600 i"
proof (cases "rq_id r")
  case (IdNumber n)
  have "\<bar>sint n\<bar> < 10 ^ 20" using sint_ge [of n] sint_lt [of n] by simp
  from line_text_decimal_int [OF this] IdNumber show ?thesis
    using that by (simp add: stdio_id_text_def line_text_def)
next
  case (IdString s)
  have v: "sj_value sj m = Inr v" "parse_request_value v = Inr r"
    if "parse_request_with_limit sj m l = Inr r" "v = projr (sj_value sj m)" for v l
    using that by (auto simp: parse_request_with_limit_def bind_result_eq_Inr split: if_splits)
  from v [OF assms(4) [unfolded parse_request_def] HOL.refl] IdString
  have s: "scalars s" "text_len s \<le> 256"
    using assms(2,3) by (auto simp: parse_request_value_ok reads_texts_def id_ok_def)
  obtain t where "sj_print sj (SerValue (JString s)) = Inr t" "line_text (6 * text_len s + 2) t"
    using line_text_printed [OF assms(1) s(1)] .
  with s(2) IdString that show ?thesis by (simp add: stdio_id_text_def line_text_def)
next
  case IdNull
  then show ?thesis using that line_text_ascii [of "''null''"] by (simp add: stdio_id_text_def line_text_def)
next
  case IdMissing
  then show ?thesis using that line_text_ascii [of "''null''"] by (simp add: stdio_id_text_def line_text_def)
qed

lemma null_line: "line_text 1600 (ascii ''null'')"
  using line_text_ascii [of "''null''"] by (simp add: line_text_def)

text \<open>Every message is answered with a line or not at all.\<close>

definition answers_line :: "text + text option \<Rightarrow> bool" where
  "answers_line a \<longleftrightarrow> (\<exists>t. a = Inr t \<and> pred_option (sendable (10 * 1024 * 1024)) t)"

lemma error_answers_line:
  assumes "prints_lines sj" and "line_text 1600 i" and "\<bar>code\<bar> < 10 ^ 20" and "CHR 0x0A \<notin> set msg" and "length msg < 100"
  shows "answers_line (answer_with (stdio_error_response sj i code msg))"
  using error_response_sendable [OF assms] by (metis answer_with_def answers_line_def bind_result.simps(2) option.pred_inject(2))

lemma stdio_answers_line:
  assumes "prints_lines sj" and "reads_texts sj" and "scalars m"
  shows "answers_line (fst (handle_stdio_message_with_session sj m s))"
proof -
  note err = error_answers_line [OF assms(1)]
  have none: "answers_line (Inr None)" by (simp add: answers_line_def)
  show ?thesis
  proof (cases "parse_request sj m")
    case (Inl e)
    then show ?thesis
      by (cases e) (simp_all add: handle_stdio_message_with_session_def null_invalid_request_def err null_line)
  next
    case (Inr r)
    obtain i where i: "stdio_id_text sj (rq_id r) = Inr i" "line_text 1600 i"
      using stdio_id_line [OF assms Inr] .
    have plain: "answers_line (Inr (Some (welcome_response i)))" "answers_line (Inr (Some (pong_response i)))"
      using plain_responses_sendable [OF i(2)] by (simp_all add: answers_line_def)
    show ?thesis
      using Inr i plain none
      by (simp add: handle_stdio_message_with_session_def handle_stdio_notification_def handle_stdio_method_def
          null_invalid_request_def err null_line unknown_method_response_error)
  qed
qed

fun answer_lines :: "text + text option \<Rightarrow> text list" where
  "answer_lines (Inl e) = [internal_error_line]"
| "answer_lines (Inr None) = []"
| "answer_lines (Inr (Some t)) = [t]"

lemma transport_logged [simp]:
  "sx_config (log_debug m s) = sx_config s" "stdio_is_shutdown (log_debug m s) = stdio_is_shutdown s"
  by (simp_all add: log_debug_def log_line_def stdio_is_shutdown_def)

lemma write_sendable:
  assumes "sendable (so_max_message_size (sx_config s)) t" and "\<not> stdio_is_shutdown s"
  shows "write_message buffer_writer t s out = (Inr (), s, out @ utf8_bytes (stdio_frame_message t))"
  using assms by (simp add: write_message_def buffer_writer_def sendable_def stdio_frame_message_def)

lemma stdio_loop_lines:
  assumes "prints_lines sj" and "reads_texts sj" and "good_pieces ps"
    and "concat ps = concat (map stdio_frame_message ms)"
    and "\<forall>m \<in> set ms. sendable (10 * 1024 * 1024) m" and "\<not> stdio_is_shutdown s"
    and "so_max_message_size (sx_config s) = 10 * 1024 * 1024"
  shows "\<exists>s'. stdio_loop sj buffer_writer se s (text_reader ps) out =
    (run_ops (stdio_step sj) se ms, s', [],
     out @ concat (map (\<lambda>t. utf8_bytes (stdio_frame_message t))
       (concat (map answer_lines (run_outs (stdio_step sj) se ms)))))"
  using assms(3-)
proof (induction ms arbitrary: ps s se out)
  case Nil
  then have "ps = []" by (cases ps) (auto simp: good_pieces_def)
  then show ?case
    using Nil.prems(4)
    by (simp add: text_reader_def stdio_loop.simps [of _ _ _ s] read_message.simps [of s] read_line_bounded.simps)
next
  case (Cons m ms)
  have "concat ps = m @ 10 # concat (map stdio_frame_message ms)"
    using Cons.prems(2) by (simp add: stdio_frame_message_def [of m])
  from read_message_line [OF Cons.prems(1) this _ Cons.prems(4)] Cons.prems(3,5) obtain ps' s' where
    r: "read_message s (text_reader ps) = (Inr (Some m), s', text_reader ps')"
    "concat ps' = concat (map stdio_frame_message ms)" "good_pieces ps'" "sx_config s' = sx_config s"
    "\<not> stdio_is_shutdown s'" by auto
  define s1 where "s1 = log_debug (ascii ''Received: '' @ sanitized_stdio_preview sj m 100) s'"
  have s1: "\<not> stdio_is_shutdown s1" "so_max_message_size (sx_config s1) = 10 * 1024 * 1024"
    using r Cons.prems(5) by (simp_all add: s1_def)
  obtain a se' where h: "handle_stdio_message_with_session sj m se = (a, se')" by fastforce
  have "scalars m" using Cons.prems(3) by (simp add: sendable_def)
  from stdio_answers_line [OF assms(1,2) this, of se] h obtain t where
    t: "a = Inr t" "pred_option (sendable (10 * 1024 * 1024)) t" by (auto simp: answers_line_def)
  have step: "stdio_step sj se m = (se', a)" by (simp add: stdio_step_def h)
  show ?case
  proof (cases t)
    case None
    from Cons.IH [OF r(3,2) _ s1, of se' out] Cons.prems(3) obtain s2 where
      "stdio_loop sj buffer_writer se' s1 (text_reader ps') out = (run_ops (stdio_step sj) se' ms, s2, [],
        out @ concat (map (\<lambda>t. utf8_bytes (stdio_frame_message t))
          (concat (map answer_lines (run_outs (stdio_step sj) se' ms)))))" by auto
    then show ?thesis
      using r(1) h t(1) None by (simp add: stdio_loop.simps [of _ _ se s] step s1_def [symmetric] Let_def)
  next
    case (Some u)
    let ?out = "out @ utf8_bytes (stdio_frame_message u)"
    have w: "write_message buffer_writer u s1 out = (Inr (), s1, ?out)"
      using t(2) Some s1 by (intro write_sendable) auto
    from Cons.IH [OF r(3,2) _ s1, of se' ?out] Cons.prems(3) obtain s2 where
      "stdio_loop sj buffer_writer se' s1 (text_reader ps') ?out = (run_ops (stdio_step sj) se' ms, s2, [],
        ?out @ concat (map (\<lambda>t. utf8_bytes (stdio_frame_message t))
          (concat (map answer_lines (run_outs (stdio_step sj) se' ms)))))" by auto
    then show ?thesis
      using r(1) h t(1) Some w by (simp add: stdio_loop.simps [of _ _ se s] step s1_def [symmetric] Let_def)
  qed
qed

definition stdio_answer :: "serde_json \<Rightarrow> text list \<Rightarrow> nat \<Rightarrow> text list" where
  "stdio_answer sj ms k =
     answer_lines (fst (handle_stdio_message_with_session sj (ms ! k) (stdio_session_after sj (take k ms))))"

lemma run_outs_nth:
  "run_outs step s ms = map (\<lambda>k. snd (step (run_ops step s (take k ms)) (ms ! k))) [0 ..< length ms]"
proof (induction ms arbitrary: s)
  case (Cons m ms)
  have "[0 ..< length (m # ms)] = 0 # map Suc [0 ..< length ms]" 
    by (subst upt_conv_Cons) (simp_all add: map_Suc_upt del: upt_Suc)
  then show ?case by (simp add: Cons.IH comp_def del: upt_Suc)
qed simp

definition silent_notification :: "serde_json \<Rightarrow> text list \<Rightarrow> nat \<Rightarrow> bool" where
  "silent_notification sj ms k \<longleftrightarrow>
     is_initialized_note sj (ms ! k) \<and> list_ex (is_initialize sj) (take k ms) \<and>
       \<not> handshake_completed sj (take k ms) \<or>
     (case parse_request sj (ms ! k) of
        Inl e \<Rightarrow> False
      | Inr r \<Rightarrow> is_notification r \<and> rq_method r = ascii ''notifications/cancelled'')"

lemma answer_with_some: "answer_with r \<noteq> Inr None"
  by (cases r) (simp_all add: answer_with_def)

lemma handle_silent_iff:
  "fst (handle_stdio_message_with_session sj m s) = Inr None \<longleftrightarrow>
     is_initialized_note sj m \<and> ss_initialize_seen s \<and> \<not> ss_initialized s \<or>
     (case parse_request sj m of
        Inl e \<Rightarrow> False
      | Inr r \<Rightarrow> is_notification r \<and> rq_method r = ascii ''notifications/cancelled'')"
proof (cases "parse_request sj m")
  case (Inl e)
  then show ?thesis
    by (cases e) (simp_all add: handle_stdio_message_with_session_def is_initialized_note_def null_invalid_request_def answer_with_some)
next
  case (Inr r)
  then show ?thesis
    by (cases "stdio_id_text sj (rq_id r)")
      (auto simp: handle_stdio_message_with_session_def is_initialized_note_def handle_stdio_notification_def
        handle_stdio_method_def null_invalid_request_def answer_with_some)
qed

lemma stdio_answer_count:
  "length (stdio_answer sj ms k) = (if silent_notification sj ms k then 0 else 1)"
proof -
  have "length (answer_lines a) = (if a = Inr None then 0 else 1)" for a
    by (cases a rule: answer_lines.cases) auto
  then show ?thesis
    by (simp add: stdio_answer_def handle_silent_iff silent_notification_def stdio_session_after_def
        stdio_session_history)
qed


lemma zero_pad_short: "zero_pad 4 [a] = [48, 48, 48, a]" "zero_pad 4 [a, b] = [48, 48, a, b]"
  by (simp_all add: zero_pad_def eval_nat_numeral)

lemma escaped_control:
  assumes "c < 160"
  shows "text_len ([92, 117] @ zero_pad 4 (hex c)) = 6 \<and> scalars ([92, 117] @ zero_pad 4 (hex c))"
proof -
  have d: "hex_digit n < 128" if "n < 16" for n using that by (simp add: hex_digit_def)
  have h: "hex c = (if c < 16 then [hex_digit c] else [hex_digit (c div 16), hex_digit (c mod 16)])"
    using assms by (simp add: hex.simps [of c] hex.simps [of "c div 16"])
  have digits: "hex_digit (c div 16) < 128" "hex_digit (c mod 16) < 128" "c < 16 \<Longrightarrow> hex_digit c < 128"
    using assms by (auto intro!: d)
  have small: "len_utf8 x = 1 \<and> is_scalar x" if "x < 128" for x
    using that by (simp add: len_utf8_def is_scalar_def)
  show ?thesis
    using digits by (cases "c < 16") (simp_all add: h zero_pad_short text_len_def small)
qed

lemma escape_char_cases:
  obtains (short) x where "x \<in> {34, 92, 110, 114, 116}" "escape_char c = [92, x]"
  | (control) "c < 160" "escape_char c = [92, 117] @ zero_pad 4 (hex c)"
  | (plain) "escape_char c = [c]"
proof (cases "c \<in> {34, 92, 10, 13, 9}")
  case True
  then have "(c, escape_char c) \<in> {(34, [92, 34]), (92, [92, 92]), (10, [92, 110]), (13, [92, 114]), (9, [92, 116])}"
    by (auto simp: escape_char_def)
  then have "\<exists>x. x \<in> {34, 92, 110, 114, 116} \<and> escape_char c = [92, x]" by auto
  then show ?thesis using short by blast
next
  case False
  then have e: "escape_char c = (if char_is_control c then [92, 117] @ zero_pad 4 (hex c) else [c])"
    by (simp add: escape_char_def)
  show ?thesis
  proof (cases "char_is_control c")
    case True
    then have "c < 160" by (auto simp: char_is_control_def)
    then show ?thesis using control e True by simp
  next
    case False
    then show ?thesis using plain e by simp
  qed
qed

lemma escape_char_lines:
  "text_len (escape_char c) \<le> 6 * len_utf8 c" "is_scalar c \<Longrightarrow> scalars (escape_char c)"
proof -
  have one: "1 \<le> len_utf8 c" by (simp add: len_utf8_def)
  show "text_len (escape_char c) \<le> 6 * len_utf8 c"
  proof (cases c rule: escape_char_cases)
    case (short x)
    then have "text_len (escape_char c) = 2" by (auto simp: text_len_def len_utf8_def)
    with one show ?thesis by linarith
  next
    case control
    then have "text_len (escape_char c) = 6" using escaped_control [OF control(1)] by simp
    with one show ?thesis by linarith
  next
    case plain
    then show ?thesis by (simp add: text_len_def)
  qed
  show "is_scalar c \<Longrightarrow> scalars (escape_char c)"
    by (cases c rule: escape_char_cases) (use escaped_control in \<open>auto simp: is_scalar_def\<close>)
qed

lemma escaped_lines:
  "text_len (escape_json_string s) \<le> 6 * text_len s + 2" "scalars s \<Longrightarrow> scalars (escape_json_string s)"
proof -
  have "text_len (concat (map escape_char s)) \<le> 6 * text_len s"
  proof (induction s)
    case (Cons c s)
    from add_mono [OF escape_char_lines(1) [of c] Cons.IH] show ?case by (simp add: text_len_def)
  qed simp
  then show "text_len (escape_json_string s) \<le> 6 * text_len s + 2"
    by (simp add: escape_json_string_def) (simp add: text_len_def len_utf8_def)
  have "scalars (concat (map escape_char s))" if "scalars s"
    using that by (induction s) (simp_all add: escape_char_lines)
  then show "scalars s \<Longrightarrow> scalars (escape_json_string s)"
    by (simp add: escape_json_string_def is_scalar_def)
qed

lemma sample_stdio_prints: "prints_lines sample_stdio_json"
  using escaped_lines escaped_printable by (force simp: prints_lines_def sample_stdio_json_def)

lemma sample_stdio_reads: "reads_texts sample_stdio_json"
  by (auto simp: reads_texts_def sample_stdio_json_def client_envelope_def json_object_def jm_of_list_def simp del: jm_insert.simps split: if_splits)


section \<open>Converting and validating schema files\<close>

datatype cli_error =
    ReadInputFailed "text" | ParseMcpFailed "text" | ConversionFailed schema_error
  | RoundTripFailed schema_error | WriteOutputFailed "text" | ReadSchemaFailed "text"
  | InvalidSchema schema_error

text \<open>A printed line: its text, the compression ratio as its two sizes, or an error behind a prefix.\<close>

datatype cli_line = CliText "text" | CliRatio nat nat | CliError string cli_error

definition cli_count :: "string \<Rightarrow> nat \<Rightarrow> string \<Rightarrow> cli_line" where
  "cli_count before n after = CliText (ascii before @ decimal n @ ascii after)"

definition converted_bytes ::
  "(text \<Rightarrow> text + mcp_schema) \<Rightarrow> (bytes \<Rightarrow> bytes) \<Rightarrow> bool \<Rightarrow> text \<Rightarrow> cli_error + bytes" where
  "converted_bytes parse_mcp hash validate json_content =
     bind_result (map_err ParseMcpFailed (parse_mcp json_content)) (\<lambda>mcp.
     bind_result (map_err ConversionFailed (convert_mcp_to_dcp hash mcp)) (\<lambda>dcp.
       let binary_data = schema_to_bytes dcp
       in bind_result
            (if validate then
               bind_result (map_err RoundTripFailed (schema_from_bytes binary_data)) (\<lambda>_. Inr ())
             else Inr ())
            (\<lambda>_. Inr binary_data)))"

definition convert_schema ::
  "'f file_ops \<Rightarrow> (text \<Rightarrow> text + mcp_schema) \<Rightarrow> (bytes \<Rightarrow> bytes) \<Rightarrow> path \<Rightarrow> path \<Rightarrow> bool \<Rightarrow> 'f \<Rightarrow>
   (cli_error + cli_line list) \<times> 'f" where
  "convert_schema fs parse_mcp hash input output validate f =
     (case map_err ReadInputFailed (read_to_string fs input f) of
        Inl e \<Rightarrow> (Inl e, f)
      | Inr json_content \<Rightarrow>
          (case converted_bytes parse_mcp hash validate json_content of
             Inl e \<Rightarrow> (Inl e, f)
           | Inr binary_data \<Rightarrow>
               (case fo_write fs output binary_data f of
                  (Inl e, f') \<Rightarrow> (Inl (WriteOutputFailed e), f')
                | (Inr _, f') \<Rightarrow>
                    (Inr [cli_count ''  Input size: '' (text_len json_content) '' bytes'',
                          cli_count ''  Output size: '' (length binary_data) '' bytes'',
                          CliRatio (text_len json_content) (length binary_data)], f'))))"

definition mask_ones :: "u64 \<Rightarrow> nat" where
  "mask_ones w = length (filter (bit w) [0 ..< 64])"

definition validate_schema :: "'f file_ops \<Rightarrow> path \<Rightarrow> 'f \<Rightarrow> cli_error + cli_line list" where
  "validate_schema fs p f =
     bind_result (map_err ReadSchemaFailed (fo_read fs p f)) (\<lambda>data.
     bind_result (map_err InvalidSchema (schema_from_bytes data)) (\<lambda>schema.
       Inr [CliText (ascii ''  Name: '' @ bs_name schema),
            cli_count ''  Tool ID: '' (unat (bs_tool_id schema)) [],
            cli_count ''  Fields: '' (length (bs_fields schema)) [],
            cli_count ''  Required fields: '' (mask_ones (bs_required_mask schema)) []]))"

section \<open>The command line\<close>

datatype command =
    Serve "text" u16 bool nat bool bool
  | Convert "text" "text" bool
  | Info
  | Validate "text"

record cli =
  cli_command :: "command option"
  cli_stdio :: bool

record ('f, 'o) main_result =
  mn_stdout :: "cli_line list"
  mn_stderr :: "cli_line list"
  mn_exit :: nat
  mn_files :: 'f
  mn_out :: 'o

text \<open>The status files \<open>main\<close> writes first, ignoring every failure.\<close>

definition main_status ::
  "'f file_ops \<Rightarrow> (path \<Rightarrow> 'f \<Rightarrow> (text \<times> 'v) list option) \<Rightarrow> ('v \<Rightarrow> text) \<Rightarrow> text + path \<Rightarrow> path option \<Rightarrow> 'f \<Rightarrow>
   cli_line list \<times> 'f" where
  "main_status fs read_doc show_value cwd cache_dir f =
     (let cfg = dx_load fs cwd f;
          f1 = snd (fo_create_dir_all fs (dx_sr_dir cfg) f);
          f2 = snd (fo_create_dir_all fs (dx_receipts_dir cfg) f1);
          entries = [(ascii ''tool'', ascii ''dcp''), (ascii ''action'', ascii ''run''),
                     (ascii ''status'', ascii ''ok'')];
          f3 = snd (write_sr fs cfg (ascii ''dcp'') entries f2);
          f4 = snd (write_global_sr fs cache_dir (ascii ''dcp'') entries f3)
      in (case read_status read_doc show_value cfg (ascii ''dcp'') f4 of
            Some status \<Rightarrow> ([cli_count ''[dcp] sr cache verified: '' (length status) '' entries''], f4)
          | None \<Rightarrow> ([], f4)))"

definition bool_string :: "bool \<Rightarrow> string" where
  "bool_string b = (if b then ''true'' else ''false'')"

definition serve_lines :: "text \<Rightarrow> u16 \<Rightarrow> bool \<Rightarrow> nat \<Rightarrow> bool \<Rightarrow> cli_line list" where
  "serve_lines host port mcp_compat max_sessions metrics =
     [CliText (ascii ''Starting DCP server...''), CliText (ascii ''  Host: '' @ host),
      cli_count ''  Port: '' (unat port) [],
      CliText (ascii (''  MCP Compatibility: '' @ bool_string mcp_compat)),
      cli_count ''  Max Sessions: '' max_sessions [],
      CliText (ascii (''  Metrics: '' @ bool_string metrics)), CliText [],
      CliText (ascii ''Server would start here (async runtime required)''),
      CliText (ascii ''For now, use the library directly in your application.'')]"

definition info_lines :: "cli_line list" where
  "info_lines =
     map (\<lambda>l. CliText (ascii l))
       [''DCP - Development Context Protocol'', ''Version: '' @ CARGO_PKG_VERSION, [], ''Protocol Features:'',
        ''  - Binary message client_envelope (8 bytes)'', ''  - O(1) tool dispatch via binary trie'',
        ''  - Zero-copy argument passing'', ''  - Ed25519 signed tool definitions'',
        ''  - XOR delta state synchronization'', ''  - MCP JSON-RPC compatibility layer'']"

definition help_lines :: "cli_line list" where
  "help_lines =
     map (\<lambda>l. CliText (ascii l))
       [''DCP - Development Context Protocol'', ''Use --help for usage information'',
        ''Use --stdio to run in stdio mode for MCP compatibility'']"

definition stdio_main :: "serde_json \<Rightarrow> 'o writer \<Rightarrow> reader \<Rightarrow> 'f \<Rightarrow> 'o \<Rightarrow> ('f, 'o) main_result" where
  "stdio_main sj w r f out =
     (case run_stdio_mode sj w r out of
        (err, out') \<Rightarrow>
          \<lparr>mn_stdout = [], mn_stderr = map CliText err, mn_exit = 0, mn_files = f, mn_out = out'\<rparr>)"

definition run_command ::
  "serde_json \<Rightarrow> 'f file_ops \<Rightarrow> (text \<Rightarrow> text + mcp_schema) \<Rightarrow> (bytes \<Rightarrow> bytes) \<Rightarrow> 'o writer \<Rightarrow> reader \<Rightarrow>
   command option \<Rightarrow> 'f \<Rightarrow> 'o \<Rightarrow> ('f, 'o) main_result" where
  "run_command sj fs parse_mcp hash w r cmd f out =
     (case cmd of
        Some (Serve host port mcp_compat max_sessions metrics stdio) \<Rightarrow>
          if stdio then stdio_main sj w r f out
          else \<lparr>mn_stdout = serve_lines host port mcp_compat max_sessions metrics, mn_stderr = [], mn_exit = 0,
                mn_files = f, mn_out = out\<rparr>
      | Some (Convert input output validate) \<Rightarrow>
          let heading =
                [CliText (ascii ''Converting MCP schema to DCP format...''),
                 CliText (ascii ''  Input: '' @ input), CliText (ascii ''  Output: '' @ output),
                 CliText (ascii (''  Validate: '' @ bool_string validate))]
          in (case convert_schema fs parse_mcp hash (path_components input) (path_components output) validate f of
                (Inr ls, f') \<Rightarrow>
                  \<lparr>mn_stdout = heading @ ls @ [CliText (ascii ''Conversion successful!'')], mn_stderr = [],
                   mn_exit = 0, mn_files = f', mn_out = out\<rparr>
              | (Inl e, f') \<Rightarrow>
                  \<lparr>mn_stdout = heading, mn_stderr = [CliError ''Conversion failed: '' e], mn_exit = 1,
                   mn_files = f', mn_out = out\<rparr>)
      | Some Info \<Rightarrow>
          \<lparr>mn_stdout = info_lines, mn_stderr = [], mn_exit = 0, mn_files = f, mn_out = out\<rparr>
      | Some (Validate schema) \<Rightarrow>
          let heading = [CliText (ascii ''Validating schema: '' @ schema)]
          in (case validate_schema fs (path_components schema) f of
                Inr ls \<Rightarrow>
                  \<lparr>mn_stdout = heading @ ls @ [CliText (ascii ''Schema is valid!'')], mn_stderr = [], mn_exit = 0,
                   mn_files = f, mn_out = out\<rparr>
              | Inl e \<Rightarrow>
                  \<lparr>mn_stdout = heading, mn_stderr = [CliError ''Validation failed: '' e], mn_exit = 1,
                   mn_files = f, mn_out = out\<rparr>)
      | None \<Rightarrow> \<lparr>mn_stdout = help_lines, mn_stderr = [], mn_exit = 0, mn_files = f, mn_out = out\<rparr>)"

definition dcp_main ::
  "serde_json \<Rightarrow> 'f file_ops \<Rightarrow> (path \<Rightarrow> 'f \<Rightarrow> (text \<times> 'v) list option) \<Rightarrow> ('v \<Rightarrow> text) \<Rightarrow> text + path \<Rightarrow>
   path option \<Rightarrow> (text \<Rightarrow> text + mcp_schema) \<Rightarrow> (bytes \<Rightarrow> bytes) \<Rightarrow> 'o writer \<Rightarrow> reader \<Rightarrow> cli \<Rightarrow> 'f \<Rightarrow> 'o \<Rightarrow>
   ('f, 'o) main_result" where
  "dcp_main sj fs read_doc show_value cwd cache_dir parse_mcp hash w r args f out =
     (case main_status fs read_doc show_value cwd cache_dir f of
        (err, f') \<Rightarrow>
          let result =
                (if cli_stdio args then stdio_main sj w r f' out
                 else run_command sj fs parse_mcp hash w r (cli_command args) f' out)
          in result\<lparr>mn_stderr := err @ mn_stderr result\<rparr>)"

text \<open>A conversion that reports success with validation on leaves a file the validator accepts, one that
  fails before the write leaves the file system alone, and no other file is ever touched.\<close>

theorem converted_schema_validates:
  assumes "posix_files fs" and "convert_schema fs parse_mcp hash input output True f = (r, f')"
  shows "(is_ok r \<longrightarrow> is_ok (validate_schema fs output f')) \<and>
    ((\<exists>e. r = Inl e \<and> (\<forall>w. e \<noteq> WriteOutputFailed w)) \<longrightarrow> f' = f) \<and> files_kept fs {output} f f'"
proof (intro conjI impI)
  have w: "files_kept fs {output} f (snd (fo_write fs output b f))"
    "is_ok (fst (fo_write fs output b f)) \<Longrightarrow> fo_read fs output (snd (fo_write fs output b f)) = Inr b" for b
    using assms(1) by (auto simp: posix_files_def)
  show "is_ok (validate_schema fs output f')" if "is_ok r"
  proof -
    from that obtain json b where b: "converted_bytes parse_mcp hash True json = Inr b"
      "fo_write fs output b f = (Inr (), f')"
      using assms(2) by (auto simp: convert_schema_def split: sum.splits prod.splits)
    then have "fo_read fs output f' = Inr b" using w(2) [of b] by simp
    moreover obtain s where "schema_from_bytes b = Inr s"
      using b(1) by (auto simp: converted_bytes_def bind_result_eq_Inr Let_def)
    ultimately show ?thesis by (simp add: validate_schema_def)
  qed
  show "f' = f" if "\<exists>e. r = Inl e \<and> (\<forall>w. e \<noteq> WriteOutputFailed w)"
    using assms(2) that by (auto simp: convert_schema_def split: sum.splits prod.splits)
  have "f' = f \<or> (\<exists>b. f' = snd (fo_write fs output b f))"
    using assms(2) by (auto simp: convert_schema_def split: sum.splits prod.splits) (metis snd_conv)+
  with w(1) show "files_kept fs {output} f f'" by (auto simp: files_kept_def)
qed

text \<open>A name of 256 bytes or more does not fit its length byte: whatever the reader takes the written
  schema for, it is not a schema of that name.\<close>

lemma long_name_not_kept:
  assumes "text_len (bs_name s) \<ge> 256" and "schema_from_bytes (schema_to_bytes s) = Inr s'"
  shows "bs_name s' \<noteq> bs_name s"
proof
  assume "bs_name s' = bs_name s"
  moreover have "schema_ok s'" using schema_reads_only_written [OF assms(2)] by simp
  ultimately show False using assms(1) by (simp add: schema_ok_def)
qed

lemma exit_code_reports_failure:
  "mn_exit (run_command sj fs parse_mcp hash w r cmd f out) = 0 \<longleftrightarrow>
     (case cmd of
        Some (Convert input output validate) \<Rightarrow>
          is_ok (fst (convert_schema fs parse_mcp hash (path_components input) (path_components output) validate f))
      | Some (Validate schema) \<Rightarrow> is_ok (validate_schema fs (path_components schema) f)
      | _ \<Rightarrow> True)"
  by (auto simp: run_command_def stdio_main_def Let_def split: option.split command.split sum.split prod.split)

end
