(* ===== verification/Tcp_Server.thy ===== *)
theory Tcp_Server
  imports Stdio Hash_Map
begin

text \<open>
  The TCP transport (\<open>src/src/transport/tcp.rs\<close>): configuration, protocol detection, connections behind
  shared references with their byte counters, the permits that bound them, the accept loop with the tasks
  it spawns, shutdown with its drain, and the echo handler. Accepting, the end of a task, a read or write
  of a task, and each poll of the drain are the atomic steps; the socket's reads and the TLS library are
  parameters.
\<close>

section \<open>Configuration\<close>

datatype tls_version = Tls12 | Tls13

record tls_config =
  tl_cert_path :: "text"
  tl_key_path :: "text"
  tl_min_version :: tls_version

definition tls_config_new :: "text \<Rightarrow> text \<Rightarrow> tls_config" where
  "tls_config_new cert key = \<lparr>tl_cert_path = cert, tl_key_path = key, tl_min_version = Tls12\<rparr>"

definition with_min_version :: "tls_version \<Rightarrow> tls_config \<Rightarrow> tls_config" where
  "with_min_version v cfg = cfg\<lparr>tl_min_version := v\<rparr>"

text \<open>The library: opening a file, reading certificates and the key, and building the configuration.\<close>

record ('c, 'k, 'a) tls_library =
  tb_open :: "text \<Rightarrow> text + bytes"
  tb_certs :: "bytes \<Rightarrow> text + 'c list"
  tb_private_key :: "bytes \<Rightarrow> text + 'k option"
  tb_server_config :: "'c list \<Rightarrow> 'k \<Rightarrow> text + 'a"

datatype tls_error =
    CertFileFailed "text" "text" | CertParseFailed "text" | NoCertificates
  | KeyFileFailed "text" "text" | KeyParseFailed "text" | NoPrivateKey | TlsConfigFailed "text"

fun tls_step :: "('e \<Rightarrow> tls_error) \<Rightarrow> 'e + 'a \<Rightarrow> tls_error + 'a" where
  "tls_step wrap (Inl e) = Inl (wrap e)"
| "tls_step wrap (Inr x) = Inr x"

definition build_acceptor :: "('c, 'k, 'a) tls_library \<Rightarrow> tls_config \<Rightarrow> tls_error + 'a" where
  "build_acceptor lib cfg =
     bind_result (tls_step (CertFileFailed (tl_cert_path cfg)) (tb_open lib (tl_cert_path cfg))) (\<lambda>cert_file.
     bind_result (tls_step CertParseFailed (tb_certs lib cert_file)) (\<lambda>certs.
       if certs = [] then Inl NoCertificates
       else
         bind_result (tls_step (KeyFileFailed (tl_key_path cfg)) (tb_open lib (tl_key_path cfg))) (\<lambda>key_file.
         bind_result (tls_step KeyParseFailed (tb_private_key lib key_file)) (\<lambda>found.
           case found of
             None \<Rightarrow> Inl NoPrivateKey
           | Some key \<Rightarrow> tls_step TlsConfigFailed (tb_server_config lib certs key)))))"

record tcp_config =
  tc_bind_addr :: "text"
  tc_max_connections :: nat
  tc_connection_timeout_secs :: nat
  tc_read_buffer_size :: nat
  tc_nodelay :: bool
  tc_tls :: "tls_config option"

definition tcp_config_default :: tcp_config where
  "tcp_config_default =
     \<lparr>tc_bind_addr = ascii ''127.0.0.1:9000'', tc_max_connections = 1000, tc_connection_timeout_secs = 30,
      tc_read_buffer_size = 8192, tc_nodelay = True, tc_tls = None\<rparr>"

section \<open>Protocol detection\<close>

datatype protocol_mode = McpJson | DcpBinary

definition TCP_DCP_MAGIC :: bytes where "TCP_DCP_MAGIC = [0x44, 0x43, 0x50, 0x01]"

definition byte_is_ascii_whitespace :: "8 word \<Rightarrow> bool" where
  "byte_is_ascii_whitespace b \<longleftrightarrow> b \<in> {0x20, 0x09, 0x0A, 0x0C, 0x0D}"

definition detect_protocol :: "bytes \<Rightarrow> protocol_mode" where
  "detect_protocol first_bytes =
     (if first_bytes = [] then McpJson
      else if length first_bytes \<ge> 4 \<and> take 4 first_bytes = TCP_DCP_MAGIC then DcpBinary
      else
        case List.find (\<lambda>b. \<not> byte_is_ascii_whitespace b) first_bytes of
          Some b \<Rightarrow> if b = 0x7B \<or> b = 0x5B then McpJson else DcpBinary
        | None \<Rightarrow> DcpBinary)"

section \<open>Connections\<close>

record 'p tcp_connection =
  tn_id :: u64
  tn_peer_addr :: 'p
  tn_protocol :: protocol_mode
  tn_created_at :: nat
  tn_bytes_read :: u64
  tn_bytes_written :: u64

definition tcp_connection_new :: "u64 \<Rightarrow> 'p \<Rightarrow> nat \<Rightarrow> 'p tcp_connection" where
  "tcp_connection_new i peer now =
     \<lparr>tn_id = i, tn_peer_addr = peer, tn_protocol = McpJson, tn_created_at = now, tn_bytes_read = 0,
      tn_bytes_written = 0\<rparr>"

definition record_read :: "u64 \<Rightarrow> 'p tcp_connection \<Rightarrow> 'p tcp_connection" where
  "record_read n c = c\<lparr>tn_bytes_read := tn_bytes_read c + n\<rparr>"

definition record_write :: "u64 \<Rightarrow> 'p tcp_connection \<Rightarrow> 'p tcp_connection" where
  "record_write n c = c\<lparr>tn_bytes_written := tn_bytes_written c + n\<rparr>"

definition connection_age :: "nat \<Rightarrow> 'p tcp_connection \<Rightarrow> nat" where
  "connection_age now c = now - tn_created_at c"

text \<open>The server: connections are shared with the tasks that serve them, so the map holds references into
  \<open>ts_arcs\<close>; every receiver of the shutdown channel is a flag that says whether a signal waits in it.\<close>

record 'p tcp_server =
  ts_config :: tcp_config
  ts_arcs :: "'p tcp_connection list"
  ts_connections :: "(u64, nat) hmap"
  ts_connection_counter :: u64
  ts_available_permits :: nat
  ts_receivers :: "bool list"
  ts_running :: bool

definition tcp_server_new :: "tcp_config \<Rightarrow> 'p tcp_server" where
  "tcp_server_new cfg =
     \<lparr>ts_config = cfg, ts_arcs = [], ts_connections = [], ts_connection_counter = 1,
      ts_available_permits = tc_max_connections cfg, ts_receivers = [], ts_running = False\<rparr>"

definition connection_count :: "'p tcp_server \<Rightarrow> nat" where
  "connection_count s = hm_len (ts_connections s)"

definition get_connection :: "u64 \<Rightarrow> 'p tcp_server \<Rightarrow> 'p tcp_connection option" where
  "get_connection i s = map_option (nth (ts_arcs s)) (hm_get (ts_connections s) i)"

definition try_acquire_connection :: "'p tcp_server \<Rightarrow> 'p tcp_server option" where
  "try_acquire_connection s =
     (if ts_available_permits s = 0 then None
      else Some (s\<lparr>ts_available_permits := ts_available_permits s - 1\<rparr>))"

text \<open>Dropping a permit.\<close>

definition release_permit :: "'p tcp_server \<Rightarrow> 'p tcp_server" where
  "release_permit s = s\<lparr>ts_available_permits := ts_available_permits s + 1\<rparr>"

definition register_connection :: "'p \<Rightarrow> nat \<Rightarrow> 'p tcp_server \<Rightarrow> nat \<times> 'p tcp_server" where
  "register_connection peer now s =
     (let i = ts_connection_counter s
      in (length (ts_arcs s),
          s\<lparr>ts_connection_counter := i + 1, ts_arcs := ts_arcs s @ [tcp_connection_new i peer now],
            ts_connections := hm_insert i (length (ts_arcs s)) (ts_connections s)\<rparr>))"

definition remove_connection :: "u64 \<Rightarrow> 'p tcp_server \<Rightarrow> 'p tcp_connection option \<times> 'p tcp_server" where
  "remove_connection i s =
     (get_connection i s, s\<lparr>ts_connections := hm_remove i (ts_connections s)\<rparr>)"

definition update_connection ::
  "nat \<Rightarrow> ('p tcp_connection \<Rightarrow> 'p tcp_connection) \<Rightarrow> 'p tcp_server \<Rightarrow> 'p tcp_server" where
  "update_connection a g s = s\<lparr>ts_arcs := (ts_arcs s)[a := g (ts_arcs s ! a)]\<rparr>"

section \<open>The shutdown channel\<close>

definition shutdown_receiver :: "'p tcp_server \<Rightarrow> nat \<times> 'p tcp_server" where
  "shutdown_receiver s = (length (ts_receivers s), s\<lparr>ts_receivers := ts_receivers s @ [False]\<rparr>)"

text \<open>A signal reaches the receivers there are.\<close>

definition signal_shutdown :: "'p tcp_server \<Rightarrow> 'p tcp_server" where
  "signal_shutdown s = s\<lparr>ts_receivers := map (\<lambda>r. True) (ts_receivers s)\<rparr>"

section \<open>The accept loop\<close>

datatype tcp_run_error = TlsNotWired | BindFailed "text"

text \<open>\<open>run\<close> up to its loop: the receiver it subscribes.\<close>

definition tcp_run_start ::
  "text + unit \<Rightarrow> 'p tcp_server \<Rightarrow> (tcp_run_error + nat) \<times> 'p tcp_server" where
  "tcp_run_start bound s =
     (if tc_tls (ts_config s) \<noteq> None then (Inl TlsNotWired, s\<lparr>ts_running := False\<rparr>)
      else
        case bound of
          Inl e \<Rightarrow> (Inl (BindFailed e), s)
        | Inr _ \<Rightarrow> (case shutdown_receiver (s\<lparr>ts_running := True\<rparr>) of (r, s') \<Rightarrow> (Inr r, s')))"

text \<open>One accepted socket: the connection its new task serves, or none when no permit is left.\<close>

definition tcp_accept :: "'p \<Rightarrow> nat \<Rightarrow> 'p tcp_server \<Rightarrow> nat option \<times> 'p tcp_server" where
  "tcp_accept peer now s =
     (case try_acquire_connection s of
        None \<Rightarrow> (None, s)
      | Some s1 \<Rightarrow> (case register_connection peer now s1 of (a, s2) \<Rightarrow> (Some a, s2)))"

text \<open>The end of a task: the connection is removed, then the permit dropped.\<close>

definition tcp_task_end :: "nat \<Rightarrow> 'p tcp_server \<Rightarrow> 'p tcp_server" where
  "tcp_task_end a s = release_permit (snd (remove_connection (tn_id (ts_arcs s ! a)) s))"

datatype first_read = ReadData bytes | ReadFailed "text" | ReadTimedOut

definition handle_connection ::
  "(protocol_mode \<Rightarrow> bytes \<Rightarrow> 'w \<Rightarrow> (text + unit) \<times> 'w) \<Rightarrow> first_read \<Rightarrow> 'w \<Rightarrow> (text + unit) \<times> 'w" where
  "handle_connection handler first w =
     (case first of
        ReadData bs \<Rightarrow> if bs = [] then (Inr (), w) else handler (detect_protocol bs) bs w
      | ReadFailed e \<Rightarrow> (Inl e, w)
      | ReadTimedOut \<Rightarrow> (Inl (ascii ''connection timeout''), w))"

text \<open>One turn of the drain loop: whether \<open>shutdown\<close> returns.\<close>

definition drain_poll :: "nat \<Rightarrow> nat \<Rightarrow> 'p tcp_server \<Rightarrow> bool \<times> 'p tcp_server" where
  "drain_poll deadline now s =
     (if connection_count s = 0 then (True, s)
      else if now > deadline then (True, s\<lparr>ts_connections := []\<rparr>)
      else (False, s))"

section \<open>The echo handler\<close>

fun echo_loop ::
  "'o writer \<Rightarrow> (text + bytes) list \<Rightarrow> 'p tcp_connection \<Rightarrow> 'o \<Rightarrow> (text + unit) \<times> 'p tcp_connection \<times> 'o" where
  "echo_loop w [] conn out = (Inr (), conn, out)"
| "echo_loop w (Inl e # reads) conn out = (Inl e, conn, out)"
| "echo_loop w (Inr bs # reads) conn out =
     (if bs = [] then (Inr (), conn, out)
      else
        let conn = record_read (of_nat (length bs)) conn
        in (case wr_write w bs out of
              (Inl e, out') \<Rightarrow> (Inl e, conn, out')
            | (Inr _, out') \<Rightarrow> echo_loop w reads (record_write (of_nat (length bs)) conn) out'))"

definition echo_handle ::
  "'o writer \<Rightarrow> (text + bytes) list \<Rightarrow> bytes \<Rightarrow> 'p tcp_connection \<Rightarrow> 'o \<Rightarrow> (text + unit) \<times> 'p tcp_connection \<times> 'o" where
  "echo_handle w reads initial_data conn out =
     (if initial_data \<noteq> [] then
        (case wr_write w initial_data out of
           (Inl e, out') \<Rightarrow> (Inl e, conn, out')
         | (Inr _, out') \<Rightarrow>
             let n = of_nat (length initial_data)
             in echo_loop w reads (record_write n (record_read n conn)) out')
      else echo_loop w reads conn out)"

section \<open>The running system\<close>

text \<open>A server with the tasks of its connections, its accept loop, the permits held by other callers, a
  shutdown in progress with its deadline, and the connections whose task panicked. What can happen:\<close>

datatype 'p tcp_event =
    RunStarted "text + unit"
  | SocketAccepted 'p nat
  | AcceptFailed
  | SignalTaken
  | TaskRead nat u64
  | TaskWrote nat u64
  | TaskEnded nat
  | TaskPanicked nat
  | SlotAcquired
  | SlotReleased
  | ConnectionRemoved u64
  | ShutdownCalled nat nat
  | DrainPolled nat

record 'p tcp_system =
  sy_server :: "'p tcp_server"
  sy_loop :: "nat option"
  sy_tasks :: "nat list"
  sy_panicked :: "nat list"
  sy_slots :: nat
  sy_deadline :: "nat option"

definition tcp_system_new :: "tcp_config \<Rightarrow> 'p tcp_system" where
  "tcp_system_new cfg =
     \<lparr>sy_server = tcp_server_new cfg, sy_loop = None, sy_tasks = [], sy_panicked = [], sy_slots = 0,
      sy_deadline = None\<rparr>"

text \<open>An event that cannot happen in a state leaves it alone.\<close>

fun tcp_step :: "'p tcp_system \<Rightarrow> 'p tcp_event \<Rightarrow> 'p tcp_system" where
  "tcp_step y (RunStarted bound) =
     (if sy_loop y \<noteq> None then y
      else case tcp_run_start bound (sy_server y) of
             (Inl e, s) \<Rightarrow> y\<lparr>sy_server := s\<rparr>
           | (Inr r, s) \<Rightarrow> y\<lparr>sy_server := s, sy_loop := Some r\<rparr>)"
| "tcp_step y (SocketAccepted peer now) =
     (if sy_loop y = None then y
      else case tcp_accept peer now (sy_server y) of
             (None, s) \<Rightarrow> y\<lparr>sy_server := s\<rparr>
           | (Some a, s) \<Rightarrow> y\<lparr>sy_server := s, sy_tasks := sy_tasks y @ [a]\<rparr>)"
| "tcp_step y AcceptFailed = y"
| "tcp_step y SignalTaken =
     (case sy_loop y of
        None \<Rightarrow> y
      | Some r \<Rightarrow>
          if ts_receivers (sy_server y) ! r then
            y\<lparr>sy_server := (sy_server y)\<lparr>ts_running := False\<rparr>, sy_loop := None\<rparr>
          else y)"
| "tcp_step y (TaskRead a n) =
     (if a \<in> set (sy_tasks y) then y\<lparr>sy_server := update_connection a (record_read n) (sy_server y)\<rparr> else y)"
| "tcp_step y (TaskWrote a n) =
     (if a \<in> set (sy_tasks y) then y\<lparr>sy_server := update_connection a (record_write n) (sy_server y)\<rparr> else y)"
| "tcp_step y (TaskEnded a) =
     (if a \<in> set (sy_tasks y)
      then y\<lparr>sy_server := tcp_task_end a (sy_server y), sy_tasks := remove1 a (sy_tasks y)\<rparr> else y)"
| "tcp_step y (TaskPanicked a) =
     (if a \<in> set (sy_tasks y)
      then y\<lparr>sy_server := release_permit (sy_server y), sy_tasks := remove1 a (sy_tasks y),
             sy_panicked := a # sy_panicked y\<rparr> else y)"
| "tcp_step y SlotAcquired =
     (case try_acquire_connection (sy_server y) of
        None \<Rightarrow> y | Some s \<Rightarrow> y\<lparr>sy_server := s, sy_slots := sy_slots y + 1\<rparr>)"
| "tcp_step y SlotReleased =
     (if sy_slots y = 0 then y
      else y\<lparr>sy_server := release_permit (sy_server y), sy_slots := sy_slots y - 1\<rparr>)"
| "tcp_step y (ConnectionRemoved i) = y\<lparr>sy_server := snd (remove_connection i (sy_server y))\<rparr>"
| "tcp_step y (ShutdownCalled now timeout) =
     y\<lparr>sy_server := signal_shutdown (sy_server y), sy_deadline := Some (now + timeout)\<rparr>"
| "tcp_step y (DrainPolled now) =
     (case sy_deadline y of
        None \<Rightarrow> y
      | Some deadline \<Rightarrow>
          (case drain_poll deadline now (sy_server y) of
             (finished, s) \<Rightarrow> y\<lparr>sy_server := s, sy_deadline := (if finished then None else Some deadline)\<rparr>))"

section \<open>Detection is exact\<close>

definition opens_json :: "bytes \<Rightarrow> bool" where
  "opens_json bs \<longleftrightarrow>
     (\<exists>ws b rest. bs = ws @ b # rest \<and> list_all byte_is_ascii_whitespace ws \<and> b \<in> {0x7B, 0x5B})"

lemma opens_json_Cons:
  "opens_json (c # bs) \<longleftrightarrow> c \<in> {0x7B, 0x5B} \<or> byte_is_ascii_whitespace c \<and> opens_json bs"
proof
  assume "opens_json (c # bs)"
  then obtain ws b rest where w: "c # bs = ws @ b # rest" "list_all byte_is_ascii_whitespace ws" "b \<in> {0x7B, 0x5B}"
    by (auto simp: opens_json_def)
  show "c \<in> {0x7B, 0x5B} \<or> byte_is_ascii_whitespace c \<and> opens_json bs"
  proof (cases ws)
    case (Cons d ws')
    then have "bs = ws' @ b # rest" "list_all byte_is_ascii_whitespace ws'" "byte_is_ascii_whitespace c"
      using w by auto
    then show ?thesis using w(3) unfolding opens_json_def by blast
  qed (use w in simp)
next
  assume c: "c \<in> {0x7B, 0x5B} \<or> byte_is_ascii_whitespace c \<and> opens_json bs"
  show "opens_json (c # bs)"
  proof (cases "c \<in> {0x7B, 0x5B}")
    case True
    then show ?thesis unfolding opens_json_def by (intro exI [of _ "[]"] exI [of _ c] exI [of _ bs]) simp
  next
    case False
    with c obtain ws b rest where "byte_is_ascii_whitespace c" "bs = ws @ b # rest"
      "list_all byte_is_ascii_whitespace ws" "b \<in> {0x7B, 0x5B}" by (auto simp: opens_json_def)
    then show ?thesis unfolding opens_json_def
      by (intro exI [of _ "c # ws"] exI [of _ b] exI [of _ rest]) simp
  qed
qed

lemma opens_json_Nil [simp]: "\<not> opens_json []"
  by (simp add: opens_json_def)

lemma find_opens_json:
  "(case List.find (\<lambda>b. \<not> byte_is_ascii_whitespace b) bs of
      Some b \<Rightarrow> if b = 0x7B \<or> b = 0x5B then McpJson else DcpBinary | None \<Rightarrow> DcpBinary) = McpJson \<longleftrightarrow>
   opens_json bs"
proof (induction bs)
  case (Cons c bs)
  show ?case
  proof (cases "byte_is_ascii_whitespace c")
    case True
    then have "c \<notin> {0x7B, 0x5B}" by (auto simp: byte_is_ascii_whitespace_def)
    with True Cons.IH show ?thesis by (simp add: opens_json_Cons)
  qed (simp add: opens_json_Cons)
qed simp

text \<open>A first segment is JSON exactly when it is empty or its first byte that is not white space opens an
  object or an array; a segment of white space alone is taken for the binary protocol.\<close>

theorem detect_protocol_exact: "detect_protocol bs = McpJson \<longleftrightarrow> bs = [] \<or> opens_json bs"
proof (cases "length bs \<ge> 4 \<and> take 4 bs = TCP_DCP_MAGIC")
  case True
  then obtain cs where "bs = 0x44 # cs" by (cases bs) (auto simp: TCP_DCP_MAGIC_def)
  then have "\<not> opens_json bs" by (simp add: opens_json_Cons byte_is_ascii_whitespace_def)
  with True show ?thesis by (auto simp: detect_protocol_def)
next
  case False
  then show ?thesis using find_opens_json [of bs] by (auto simp: detect_protocol_def)
qed

section \<open>Connections stay within the permits\<close>

definition tcp_inv :: "'p tcp_system \<Rightarrow> bool" where
  "tcp_inv y \<longleftrightarrow>
     (let s = sy_server y
      in ts_available_permits s + length (sy_tasks y) + sy_slots y = tc_max_connections (ts_config s) \<and>
         distinct (sy_tasks y @ sy_panicked y) \<and>
         (\<forall>a \<in> set (sy_tasks y @ sy_panicked y). a < length (ts_arcs s)) \<and>
         hm_wf (ts_connections s) \<and>
         (\<forall>c \<in> set (ts_connections s). snd c \<in> set (sy_tasks y @ sy_panicked y) \<and> fst c = of_nat (snd c + 1)) \<and>
         ts_connection_counter s = of_nat (length (ts_arcs s) + 1) \<and>
         (\<forall>a < length (ts_arcs s). tn_id (ts_arcs s ! a) = of_nat (a + 1)))"

lemma hm_remove_entries: "set (hm_remove k m) = {x \<in> set m. fst x \<noteq> k}"
  by (auto simp: hm_remove_def AList.delete_eq)

lemma hm_insert_entries_iff: "hm_wf m \<Longrightarrow> set (hm_insert k v m) = insert (k, v) {x \<in> set m. fst x \<noteq> k}"
  by (induction m) (force simp: hm_insert_def hm_wf_def)+

lemma tcp_inv_accept:
  assumes "tcp_inv y" and "tcp_accept peer now (sy_server y) = (Some a, s)"
  shows "tcp_inv (y\<lparr>sy_server := s, sy_tasks := sy_tasks y @ [a]\<rparr>)"
proof -
  let ?s = "sy_server y"
  have p: "ts_available_permits ?s \<noteq> 0" "a = length (ts_arcs ?s)"
    "s = ?s\<lparr>ts_available_permits := ts_available_permits ?s - 1,
        ts_connection_counter := ts_connection_counter ?s + 1,
        ts_arcs := ts_arcs ?s @ [tcp_connection_new (ts_connection_counter ?s) peer now],
        ts_connections := hm_insert (ts_connection_counter ?s) (length (ts_arcs ?s)) (ts_connections ?s)\<rparr>"
    using assms(2) by (auto simp: tcp_accept_def try_acquire_connection_def register_connection_def Let_def
        split: if_splits)
  show ?thesis
    using assms(1) p unfolding tcp_inv_def Let_def
    by (auto simp: hm_insert_entries_iff nth_append tcp_connection_new_def less_Suc_eq split: prod.splits)
qed

lemma tcp_inv_update:
  assumes "tcp_inv y" and "\<And>c. tn_id (g c) = tn_id c"
  shows "tcp_inv (y\<lparr>sy_server := update_connection a g (sy_server y)\<rparr>)"
proof -
  let ?cs = "ts_arcs (sy_server y)"
  have "tn_id (?cs[a := g (?cs ! a)] ! b) = tn_id (?cs ! b)" for b
    using assms(2) by (cases "a = b"; cases "a < length ?cs") (simp_all add: list_update_beyond not_less)
  then show ?thesis using assms(1) by (simp add: tcp_inv_def Let_def update_connection_def)
qed

lemma tcp_inv_end:
  assumes "tcp_inv y" and "a \<in> set (sy_tasks y)"
  shows "tcp_inv (y\<lparr>sy_server := tcp_task_end a (sy_server y), sy_tasks := remove1 a (sy_tasks y)\<rparr>)"
    and "tcp_inv (y\<lparr>sy_server := release_permit (sy_server y), sy_tasks := remove1 a (sy_tasks y),
           sy_panicked := a # sy_panicked y\<rparr>)"
proof -
  have len: "length (sy_tasks y) = Suc (length (remove1 a (sy_tasks y)))"
    using assms(2) by (simp add: length_remove1) (metis Suc_pred length_pos_if_in_set)
  show "tcp_inv (y\<lparr>sy_server := tcp_task_end a (sy_server y), sy_tasks := remove1 a (sy_tasks y)\<rparr>)"
    using assms(1) len
    by (auto simp: tcp_inv_def Let_def tcp_task_end_def release_permit_def remove_connection_def
        hm_remove_entries set_remove1_eq distinct_remove1 split: prod.splits dest: set_remove1_subset [THEN subsetD])
  show "tcp_inv (y\<lparr>sy_server := release_permit (sy_server y), sy_tasks := remove1 a (sy_tasks y),
           sy_panicked := a # sy_panicked y\<rparr>)"
    using assms len
    by (auto simp: tcp_inv_def Let_def release_permit_def set_remove1_eq distinct_remove1 split: prod.splits
        dest: set_remove1_subset [THEN subsetD])
qed

lemma tcp_inv_server:
  assumes "tcp_inv y" and "ts_config s = ts_config (sy_server y)" and "ts_arcs s = ts_arcs (sy_server y)"
    and "ts_connection_counter s = ts_connection_counter (sy_server y)"
    and "hm_wf (ts_connections s)" and "set (ts_connections s) \<subseteq> set (ts_connections (sy_server y))"
    and "ts_available_permits s + slots = ts_available_permits (sy_server y) + sy_slots y"
  shows "tcp_inv (y\<lparr>sy_server := s, sy_slots := slots, sy_loop := l, sy_deadline := d\<rparr>)"
  using assms unfolding tcp_inv_def Let_def by (auto dest!: subsetD)

lemma acquired_parts:
  "try_acquire_connection s = Some s' \<Longrightarrow> ts_arcs s' = ts_arcs s \<and> ts_config s' = ts_config s \<and>
     ts_connections s' = ts_connections s \<and> ts_connection_counter s' = ts_connection_counter s \<and>
     Suc (ts_available_permits s') = ts_available_permits s"
  by (auto simp: try_acquire_connection_def split: if_splits)

lemma tcp_inv_wf: "tcp_inv y \<Longrightarrow> hm_wf (ts_connections (sy_server y))"
  by (simp add: tcp_inv_def Let_def)

lemma tcp_step_inv:
  assumes "tcp_inv y"
  shows "tcp_inv (tcp_step y e)"
proof -
  note other = tcp_inv_server [OF assms]
  note same = other [where slots = "sy_slots y"]
  show ?thesis
  proof (cases e)
    case (RunStarted bound)
    obtain r s where s: "tcp_run_start bound (sy_server y) = (r, s)" by fastforce
    then have "tcp_inv (y\<lparr>sy_server := s, sy_slots := sy_slots y, sy_loop := l, sy_deadline := sy_deadline y\<rparr>)" for l
      using tcp_inv_wf [OF assms]
      by (intro same) (auto simp: tcp_run_start_def shutdown_receiver_def split: if_splits sum.splits)
    from this [of "sy_loop y"] this [of "Some (projr r)"] show ?thesis
      using assms s RunStarted by (cases r) simp_all
  next
    case (SocketAccepted peer now)
    obtain r s where s: "tcp_accept peer now (sy_server y) = (r, s)" by fastforce
    show ?thesis
    proof (cases r)
      case None
      then have "s = sy_server y"
        using s by (auto simp: tcp_accept_def split: option.splits prod.splits)
      with s None SocketAccepted assms show ?thesis by simp
    next
      case (Some a)
      with tcp_inv_accept [OF assms, of peer now a s] s SocketAccepted assms show ?thesis by simp
    qed
  next
    case SignalTaken
    have "tcp_inv (y\<lparr>sy_server := (sy_server y)\<lparr>ts_running := False\<rparr>, sy_slots := sy_slots y,
        sy_loop := None, sy_deadline := sy_deadline y\<rparr>)"
      using tcp_inv_wf [OF assms] by (intro same) simp_all
    with SignalTaken assms show ?thesis by (simp split: option.split)
  next
    case (TaskRead a n)
    with tcp_inv_update [OF assms, of "record_read n" a] assms show ?thesis by (simp add: record_read_def)
  next
    case (TaskWrote a n)
    with tcp_inv_update [OF assms, of "record_write n" a] assms show ?thesis by (simp add: record_write_def)
  next
    case (TaskEnded a)
    with tcp_inv_end(1) [OF assms, of a] assms show ?thesis by simp
  next
    case (TaskPanicked a)
    with tcp_inv_end(2) [OF assms, of a] assms show ?thesis by simp
  next
    case SlotAcquired
    show ?thesis
    proof (cases "try_acquire_connection (sy_server y)")
      case (Some s)
      then have "tcp_inv (y\<lparr>sy_server := s, sy_slots := sy_slots y + 1, sy_loop := sy_loop y, sy_deadline := sy_deadline y\<rparr>)"
        using tcp_inv_wf [OF assms] acquired_parts [OF Some] by (intro other) simp_all
      with Some SlotAcquired show ?thesis by simp
    qed (use SlotAcquired assms in simp)
  next
    case SlotReleased
    have "tcp_inv (y\<lparr>sy_server := release_permit (sy_server y), sy_slots := sy_slots y - 1, sy_loop := sy_loop y,
        sy_deadline := sy_deadline y\<rparr>)" if "sy_slots y \<noteq> 0"
      using tcp_inv_wf [OF assms] that by (intro other) (simp_all add: release_permit_def)
    with SlotReleased assms show ?thesis by simp
  next
    case (ConnectionRemoved i)
    have "tcp_inv (y\<lparr>sy_server := snd (remove_connection i (sy_server y)), sy_slots := sy_slots y, sy_loop := sy_loop y,
        sy_deadline := sy_deadline y\<rparr>)"
      using tcp_inv_wf [OF assms] by (intro same) (auto simp: remove_connection_def hm_remove_entries)
    with ConnectionRemoved show ?thesis by simp
  next
    case (ShutdownCalled now timeout)
    have "tcp_inv (y\<lparr>sy_server := signal_shutdown (sy_server y), sy_slots := sy_slots y, sy_loop := sy_loop y,
        sy_deadline := Some (now + timeout)\<rparr>)"
      using tcp_inv_wf [OF assms] by (intro same) (simp_all add: signal_shutdown_def)
    with ShutdownCalled show ?thesis by simp
  next
    case (DrainPolled now)
    show ?thesis
    proof (cases "sy_deadline y")
      case (Some d)
      obtain fin s where s: "drain_poll d now (sy_server y) = (fin, s)" by fastforce
      then have "tcp_inv (y\<lparr>sy_server := s, sy_slots := sy_slots y, sy_loop := sy_loop y, sy_deadline := d'\<rparr>)" for d'
        using tcp_inv_wf [OF assms]
        by (intro same) (auto simp: drain_poll_def hm_wf_def split: if_splits)
      with DrainPolled Some s show ?thesis by simp
    qed (use DrainPolled assms in simp)
  qed (use assms in simp)
qed

definition tcp_machine :: "'p tcp_system \<Rightarrow> 'p tcp_event \<Rightarrow> 'p tcp_system \<times> unit" where
  "tcp_machine y e = (tcp_step y e, ())"

interpretation tcp: invariant_machine tcp_machine tcp_inv
  by unfold_locales (simp add: tcp_machine_def tcp_step_inv)

definition tcp_run :: "tcp_config \<Rightarrow> 'p tcp_event list \<Rightarrow> 'p tcp_system" where
  "tcp_run cfg es = run_ops tcp_machine (tcp_system_new cfg) es"

lemma tcp_run_inv: "tcp_inv (tcp_run cfg es)"
  unfolding tcp_run_def
  by (rule tcp.run_inv) (simp add: tcp_inv_def tcp_system_new_def tcp_server_new_def hm_wf_def)

lemma tcp_step_config: "ts_config (sy_server (tcp_step y e)) = ts_config (sy_server y)"
proof (cases e)
  case (SocketAccepted peer now)
  then show ?thesis
    by (auto simp: tcp_accept_def register_connection_def Let_def split: option.split prod.split dest: acquired_parts)
next
  case SlotAcquired
  then show ?thesis by (auto split: option.split dest: acquired_parts)
qed (auto simp: tcp_run_start_def shutdown_receiver_def update_connection_def tcp_task_end_def release_permit_def
    remove_connection_def signal_shutdown_def drain_poll_def split: option.split sum.split)

lemma tcp_run_config: "ts_config (sy_server (tcp_run cfg es)) = cfg"
  unfolding tcp_run_def
  by (induction es rule: rev_induct)
    (simp_all add: run_ops_append tcp_machine_def tcp_step_config tcp_system_new_def tcp_server_new_def)

lemma connections_counted:
  assumes "tcp_inv y"
  shows "connection_count (sy_server y) \<le> length (sy_tasks y) + length (sy_panicked y)"
proof -
  let ?c = "ts_connections (sy_server y)"
  have key: "fst c = of_nat (snd c + 1)" if "c \<in> set ?c" for c
    using assms that by (simp add: tcp_inv_def Let_def)
  have "inj_on snd (set ?c)"
  proof (rule inj_onI)
    fix c d
    assume "c \<in> set ?c" "d \<in> set ?c" "snd c = snd d"
    then show "c = d" using key [of c] key [of d] by (simp add: prod_eq_iff)
  qed
  moreover have "distinct ?c" using tcp_inv_wf [OF assms] by (simp add: hm_wf_def distinct_map)
  ultimately have "length ?c = card (snd ` set ?c)" by (simp add: card_image distinct_card)
  also have "\<dots> \<le> card (set (sy_tasks y @ sy_panicked y))"
    using assms by (intro card_mono) (auto simp: tcp_inv_def Let_def)
  also have "\<dots> \<le> length (sy_tasks y @ sy_panicked y)" by (rule card_length)
  finally show ?thesis by (simp add: connection_count_def hm_len_def)
qed

lemma accept_iff_permit:
  "length (sy_tasks (tcp_step y (SocketAccepted peer now))) =
     length (sy_tasks y) + (if sy_loop y \<noteq> None \<and> ts_available_permits (sy_server y) > 0 then 1 else 0)"
  by (cases "ts_available_permits (sy_server y) = 0")
    (simp_all add: tcp_accept_def try_acquire_connection_def register_connection_def Let_def)


section \<open>Shutdown\<close>

lemma tcp_step_stopped:
  assumes "sy_loop y = None" and "\<forall>b. e \<noteq> RunStarted b"
  shows "sy_loop (tcp_step y e) = None \<and> set (sy_tasks (tcp_step y e)) \<subseteq> set (sy_tasks y) \<and>
    set (ts_connections (sy_server (tcp_step y e))) \<subseteq> set (ts_connections (sy_server y)) \<and>
    ts_running (sy_server (tcp_step y e)) = ts_running (sy_server y)"
proof (cases e)
  case SlotAcquired
  then show ?thesis
    using assms(1) by (auto simp: try_acquire_connection_def)
next
  case (TaskEnded a)
  then show ?thesis
    using assms(1) by (auto simp: tcp_task_end_def release_permit_def remove_connection_def hm_remove_entries
        dest: set_remove1_subset [THEN subsetD])
qed (use assms in \<open>auto simp: update_connection_def release_permit_def remove_connection_def hm_remove_entries
    signal_shutdown_def drain_poll_def split: option.splits if_splits dest: set_remove1_subset [THEN subsetD]\<close>)

lemma tcp_run_stopped:
  assumes "sy_loop y = None" and "\<forall>b. RunStarted b \<notin> set es"
  shows "sy_loop (run_ops tcp_machine y es) = None \<and>
    set (sy_tasks (run_ops tcp_machine y es)) \<subseteq> set (sy_tasks y) \<and>
    set (ts_connections (sy_server (run_ops tcp_machine y es))) \<subseteq> set (ts_connections (sy_server y)) \<and>
    ts_running (sy_server (run_ops tcp_machine y es)) = ts_running (sy_server y)"
  using assms
proof (induction es arbitrary: y)
  case (Cons e es)
  then have "\<forall>b. e \<noteq> RunStarted b" by auto
  note first = tcp_step_stopped [OF Cons.prems(1) this]
  from Cons.IH [of "tcp_step y e"] first Cons.prems(2) show ?case by (auto simp: tcp_machine_def)
qed simp

text \<open>The receiver of a running loop is one of the channel's.\<close>

lemma tcp_step_receivers:
  "length (ts_receivers (sy_server y)) \<le> length (ts_receivers (sy_server (tcp_step y e)))"
proof (cases e)
  case (SocketAccepted peer now)
  then show ?thesis
    by (auto simp: tcp_accept_def register_connection_def try_acquire_connection_def Let_def split: prod.split)
next
  case SlotAcquired
  then show ?thesis by (auto simp: try_acquire_connection_def)
qed (auto simp: tcp_run_start_def shutdown_receiver_def update_connection_def tcp_task_end_def release_permit_def
    remove_connection_def signal_shutdown_def drain_poll_def split: option.split sum.split)

definition loop_subscribed :: "'p tcp_system \<Rightarrow> bool" where
  "loop_subscribed y \<longleftrightarrow> (\<forall>r. sy_loop y = Some r \<longrightarrow> r < length (ts_receivers (sy_server y)))"

lemma tcp_step_subscribed: "loop_subscribed y \<Longrightarrow> loop_subscribed (tcp_step y e)"
proof -
  assume l: "loop_subscribed y"
  have "sy_loop (tcp_step y e) = sy_loop y \<or> sy_loop (tcp_step y e) = None \<or> (\<exists>b. e = RunStarted b)"
    by (cases e) (auto split: option.split prod.split)
  then show ?thesis
  proof (elim disjE exE)
    fix b
    assume "e = RunStarted b"
    with l show ?thesis
      by (auto simp: loop_subscribed_def tcp_run_start_def shutdown_receiver_def split: sum.split)
  qed (use l tcp_step_receivers [of y e] in \<open>auto simp: loop_subscribed_def\<close>)
qed

interpretation tcp_channel: invariant_machine tcp_machine loop_subscribed
  by unfold_locales (simp add: tcp_machine_def tcp_step_subscribed)

lemma tcp_run_subscribed: "loop_subscribed (tcp_run cfg es)"
  unfolding tcp_run_def by (rule tcp_channel.run_inv) (simp add: loop_subscribed_def tcp_system_new_def)


definition sample_tcp_config :: tcp_config where
  "sample_tcp_config = tcp_config_default\<lparr>tc_max_connections := 1\<rparr>"


text \<open>A shutdown called before \<open>run\<close> has subscribed is lost: the loop waits for a signal that never comes
  and goes on accepting.\<close>

lemma early_shutdown_lost:
  "let y = tcp_run sample_tcp_config
       [ShutdownCalled 0 10, DrainPolled 0, RunStarted (Inr ()), SignalTaken, SocketAccepted (1 :: nat) 1]
   in sy_loop y = Some 0 \<and> ts_running (sy_server y) \<and> sy_tasks y = [0] \<and> sy_deadline y = None"
  by (simp add: tcp_run_def tcp_machine_def tcp_system_new_def tcp_server_new_def sample_tcp_config_def
      tcp_config_default_def tcp_run_start_def shutdown_receiver_def tcp_accept_def try_acquire_connection_def
      register_connection_def Let_def signal_shutdown_def drain_poll_def connection_count_def hm_len_def)

text \<open>Past the deadline the connections are forgotten, not closed: their tasks run on and keep their
  permits.\<close>

lemma forced_drain_leaves_tasks:
  "let y = tcp_run sample_tcp_config
       [RunStarted (Inr ()), SocketAccepted (1 :: nat) 0, ShutdownCalled 0 10, SignalTaken, DrainPolled 11]
   in sy_deadline y = None \<and> connection_count (sy_server y) = 0 \<and> sy_tasks y = [0] \<and>
      ts_available_permits (sy_server y) = 0"
  by (simp add: tcp_run_def tcp_machine_def tcp_system_new_def tcp_server_new_def sample_tcp_config_def
      tcp_config_default_def tcp_run_start_def shutdown_receiver_def tcp_accept_def try_acquire_connection_def
      register_connection_def Let_def signal_shutdown_def drain_poll_def connection_count_def hm_len_def
      hm_insert_def)

text \<open>A task that panics gives its permit back but leaves its connection registered, so a later drain waits
  for it until the deadline.\<close>

lemma panicked_connection_stays:
  "let y = tcp_run sample_tcp_config
       [RunStarted (Inr ()), SocketAccepted (1 :: nat) 0, TaskPanicked 0, ShutdownCalled 0 10, SignalTaken, DrainPolled 10]
   in sy_deadline y = Some 10 \<and> connection_count (sy_server y) = 1 \<and> sy_tasks y = [] \<and>
      ts_available_permits (sy_server y) = 1"
  by (simp add: tcp_run_def tcp_machine_def tcp_system_new_def tcp_server_new_def sample_tcp_config_def
      tcp_config_default_def tcp_run_start_def shutdown_receiver_def tcp_accept_def try_acquire_connection_def
      register_connection_def Let_def signal_shutdown_def drain_poll_def connection_count_def hm_len_def
      hm_insert_def release_permit_def)

text \<open>A server configured for TLS never accepts in plain text.\<close>

lemma tls_never_plaintext:
  "tc_tls cfg \<noteq> None \<Longrightarrow> sy_loop (tcp_run cfg es) = None \<and> sy_tasks (tcp_run cfg es) = []"
proof (induction es rule: rev_induct)
  case (snoc e es)
  let ?y = "tcp_run cfg es"
  have step: "tcp_run cfg (es @ [e]) = tcp_step ?y e"
    by (simp add: tcp_run_def run_ops_append tcp_machine_def)
  show ?case
    using snoc tcp_run_config [of cfg es] unfolding step
    by (cases e) (auto simp: tcp_run_start_def split: option.split prod.split)
qed (simp add: tcp_run_def tcp_system_new_def)

section \<open>The echo\<close>

lemma echo_loop_exact:
  assumes "\<forall>c \<in> set cs. c \<noteq> []"
  shows "echo_loop buffer_writer (map Inr cs) conn out =
    (Inr (), conn\<lparr>tn_bytes_read := tn_bytes_read conn + of_nat (length (concat cs)),
                  tn_bytes_written := tn_bytes_written conn + of_nat (length (concat cs))\<rparr>, out @ concat cs)"
  using assms
  by (induction cs arbitrary: conn out)
    (simp_all add: buffer_writer_def record_read_def record_write_def Let_def add.assoc)

text \<open>The echo handler returns what it was sent, the bytes read for detection included, and counts each
  byte once in each direction.\<close>

theorem echo_exact:
  assumes "\<forall>c \<in> set cs. c \<noteq> []"
  shows "echo_handle buffer_writer (map Inr cs) initial conn out =
    (Inr (), conn\<lparr>tn_bytes_read := tn_bytes_read conn + of_nat (length (initial @ concat cs)),
                  tn_bytes_written := tn_bytes_written conn + of_nat (length (initial @ concat cs))\<rparr>,
     out @ initial @ concat cs)"
  using echo_loop_exact [OF assms]
  by (auto simp: echo_handle_def buffer_writer_def record_read_def record_write_def Let_def add.assoc)

text \<open>The minimum TLS version is recorded but never used.\<close>

lemma acceptor_ignores_min_version: "build_acceptor lib (with_min_version v cfg) = build_acceptor lib cfg"
  by (simp add: build_acceptor_def with_min_version_def cong: if_cong)

end
