(* ===== verification/Reactor.thy ===== *)
theory Reactor
  imports Hash_Map Sse_Events Stdio Roots
begin

text \<open>
  The reactors (\<open>src/src/reactor/\<close>): tokens, interests and events, the epoll, kqueue, io_uring and IOCP
  implementations of the reactor trait, and the choice among them. The target operating system, which the
  source selects code by, is an argument; the system calls are a record of functions on the kernel's
  state. The order in which kqueue's events leave their hash map is that of the list.
\<close>

section \<open>Tokens, interests and events\<close>

type_synonym raw_fd = "32 word"

record interest =
  in_readable :: bool
  in_writable :: bool

definition READABLE :: interest where "READABLE = \<lparr>in_readable = True, in_writable = False\<rparr>"
definition WRITABLE :: interest where "WRITABLE = \<lparr>in_readable = False, in_writable = True\<rparr>"
definition BOTH :: interest where "BOTH = \<lparr>in_readable = True, in_writable = True\<rparr>"

record io_event =
  ie_token :: nat
  ie_readable :: bool
  ie_writable :: bool
  ie_error :: bool
  ie_closed :: bool

definition io_event_new :: "nat \<Rightarrow> io_event" where
  "io_event_new t =
     \<lparr>ie_token = t, ie_readable = False, ie_writable = False, ie_error = False, ie_closed = False\<rparr>"

definition with_readable :: "io_event \<Rightarrow> io_event" where "with_readable e = e\<lparr>ie_readable := True\<rparr>"
definition with_writable :: "io_event \<Rightarrow> io_event" where "with_writable e = e\<lparr>ie_writable := True\<rparr>"
definition with_error :: "io_event \<Rightarrow> io_event" where "with_error e = e\<lparr>ie_error := True\<rparr>"
definition with_closed :: "io_event \<Rightarrow> io_event" where "with_closed e = e\<lparr>ie_closed := True\<rparr>"

datatype os_error = Interrupted | NoSuchEntry | OtherOsError "text"

datatype reactor_error = TokenNotRegistered | OsFailed os_error | IoUringUnavailable | UnsupportedPlatform

record registration =
  rg_fd :: raw_fd
  rg_interest :: interest

record reactor_config =
  rc_max_events :: nat
  rc_prefer_io_uring :: bool

definition reactor_config_default :: reactor_config where
  "reactor_config_default = \<lparr>rc_max_events = 1024, rc_prefer_io_uring = True\<rparr>"

datatype target_os = Linux | MacOs | FreeBsd | OpenBsd | NetBsd | Windows | OtherTarget

definition bsd_target :: "target_os \<Rightarrow> bool" where
  "bsd_target os \<longleftrightarrow> os \<in> {MacOs, FreeBsd, OpenBsd, NetBsd}"

section \<open>The system calls\<close>

datatype ctl_op = CtlAdd | CtlMod | CtlDel

datatype kevent_filter = FilterRead | FilterWrite | FilterOther

record kevent =
  kv_ident :: u64
  kv_filter :: kevent_filter
  kv_flags :: u16

text \<open>A call gives its error or its result, with the kernel's next state. \<open>/proc/version\<close> is read as text.\<close>

record 'k kernel =
  ke_epoll_create :: "'k \<Rightarrow> (os_error + raw_fd) \<times> 'k"
  ke_epoll_ctl :: "raw_fd \<Rightarrow> ctl_op \<Rightarrow> raw_fd \<Rightarrow> (u32 \<times> u64) option \<Rightarrow> 'k \<Rightarrow> (os_error + unit) \<times> 'k"
  ke_epoll_wait :: "raw_fd \<Rightarrow> 32 word \<Rightarrow> 32 word \<Rightarrow> 'k \<Rightarrow> (os_error + (u32 \<times> u64) list) \<times> 'k"
  ke_kqueue :: "'k \<Rightarrow> (os_error + raw_fd) \<times> 'k"
  ke_set_cloexec :: "raw_fd \<Rightarrow> 'k \<Rightarrow> 'k"
  ke_kevent_change :: "raw_fd \<Rightarrow> kevent list \<Rightarrow> 'k \<Rightarrow> (os_error + unit) \<times> 'k"
  ke_kevent_wait :: "raw_fd \<Rightarrow> 32 word \<Rightarrow> (nat \<times> nat) option \<Rightarrow> 'k \<Rightarrow> (os_error + kevent list) \<times> 'k"
  ke_proc_version :: "'k \<Rightarrow> text + text"

section \<open>epoll\<close>

record epoll_reactor =
  ep_max_events :: nat
  ep_registrations :: "(nat, registration) hmap"
  ep_fd_to_token :: "(raw_fd, nat) hmap"
  ep_next_token :: nat
  ep_epfd :: raw_fd

definition epoll_new ::
  "target_os \<Rightarrow> 'k kernel \<Rightarrow> nat \<Rightarrow> 'k \<Rightarrow> (reactor_error + epoll_reactor) \<times> 'k" where
  "epoll_new os ke max_events k =
     (if os = Linux then
        (case ke_epoll_create ke k of
           (Inl e, k') \<Rightarrow> (Inl (OsFailed e), k')
         | (Inr epfd, k') \<Rightarrow>
             (Inr \<lparr>ep_max_events = max_events, ep_registrations = [], ep_fd_to_token = [], ep_next_token = 1,
                   ep_epfd = epfd\<rparr>, k'))
      else
        (Inr \<lparr>ep_max_events = max_events, ep_registrations = [], ep_fd_to_token = [], ep_next_token = 1,
              ep_epfd = - 1\<rparr>, k))"

definition EPOLLIN :: u32 where "EPOLLIN = 0x1"
definition EPOLLOUT :: u32 where "EPOLLOUT = 0x4"
definition EPOLLERR :: u32 where "EPOLLERR = 0x8"
definition EPOLLHUP :: u32 where "EPOLLHUP = 0x10"
definition EPOLLRDHUP :: u32 where "EPOLLRDHUP = 0x2000"
definition EPOLLET :: u32 where "EPOLLET = 0x80000000"

definition interest_to_epoll :: "interest \<Rightarrow> u32" where
  "interest_to_epoll i =
     (let events = EPOLLET;
          events = (if in_readable i then events OR EPOLLIN else events)
      in if in_writable i then events OR EPOLLOUT else events)"

definition epoll_to_event :: "u32 \<Rightarrow> nat \<Rightarrow> io_event" where
  "epoll_to_event events t =
     \<lparr>ie_token = t, ie_readable = (events AND EPOLLIN \<noteq> 0), ie_writable = (events AND EPOLLOUT \<noteq> 0),
      ie_error = (events AND EPOLLERR \<noteq> 0), ie_closed = (events AND (EPOLLHUP OR EPOLLRDHUP) \<noteq> 0)\<rparr>"

text \<open>A timeout is a duration in nanoseconds.\<close>

definition epoll_timeout_ms :: "nat option \<Rightarrow> 32 word" where
  "epoll_timeout_ms timeout =
     (case timeout of Some d \<Rightarrow> of_nat (d div 1000000) | None \<Rightarrow> - 1)"

definition epoll_poll ::
  "target_os \<Rightarrow> 'k kernel \<Rightarrow> nat option \<Rightarrow> epoll_reactor \<times> 'k \<Rightarrow> (reactor_error + io_event list) \<times> epoll_reactor \<times> 'k" where
  "epoll_poll os ke timeout st =
     (case st of (s, k) \<Rightarrow>
        if os = Linux then
          (case ke_epoll_wait ke (ep_epfd s) (of_nat (ep_max_events s)) (epoll_timeout_ms timeout) k of
             (Inl e, k') \<Rightarrow> if e = Interrupted then (Inr [], s, k') else (Inl (OsFailed e), s, k')
           | (Inr evs, k') \<Rightarrow>
               (Inr (List.map_filter
                  (\<lambda>(events, data). map_option (epoll_to_event events) (hm_get (ep_fd_to_token s) (ucast data)))
                  evs), s, k'))
        else (Inr [], s, k))"

definition epoll_register ::
  "target_os \<Rightarrow> 'k kernel \<Rightarrow> raw_fd \<Rightarrow> interest \<Rightarrow> epoll_reactor \<times> 'k \<Rightarrow> (reactor_error + nat) \<times> epoll_reactor \<times> 'k" where
  "epoll_register os ke fd i st =
     (case st of (s, k) \<Rightarrow>
        let t = ep_next_token s;
            s1 = s\<lparr>ep_next_token := t + 1\<rparr>;
            s2 = s1\<lparr>ep_registrations := hm_insert t \<lparr>rg_fd = fd, rg_interest = i\<rparr> (ep_registrations s1),
                    ep_fd_to_token := hm_insert fd t (ep_fd_to_token s1)\<rparr>
        in if os = Linux then
             (case ke_epoll_ctl ke (ep_epfd s) CtlAdd fd (Some (interest_to_epoll i, scast fd)) k of
                (Inl e, k') \<Rightarrow> (Inl (OsFailed e), s1, k')
              | (Inr _, k') \<Rightarrow> (Inr t, s2, k'))
           else (Inr t, s2, k))"

definition epoll_modify ::
  "target_os \<Rightarrow> 'k kernel \<Rightarrow> nat \<Rightarrow> interest \<Rightarrow> epoll_reactor \<times> 'k \<Rightarrow> (reactor_error + unit) \<times> epoll_reactor \<times> 'k" where
  "epoll_modify os ke t i st =
     (case st of (s, k) \<Rightarrow>
        case hm_get (ep_registrations s) t of
          None \<Rightarrow> (Inl TokenNotRegistered, s, k)
        | Some reg \<Rightarrow>
            let s' = s\<lparr>ep_registrations := hm_insert t (reg\<lparr>rg_interest := i\<rparr>) (ep_registrations s)\<rparr>
            in if os = Linux then
                 (case ke_epoll_ctl ke (ep_epfd s) CtlMod (rg_fd reg)
                         (Some (interest_to_epoll i, scast (rg_fd reg))) k of
                    (Inl e, k') \<Rightarrow> (Inl (OsFailed e), s, k')
                  | (Inr _, k') \<Rightarrow> (Inr (), s', k'))
               else (Inr (), s', k))"

definition epoll_deregister ::
  "target_os \<Rightarrow> 'k kernel \<Rightarrow> nat \<Rightarrow> epoll_reactor \<times> 'k \<Rightarrow> (reactor_error + unit) \<times> epoll_reactor \<times> 'k" where
  "epoll_deregister os ke t st =
     (case st of (s, k) \<Rightarrow>
        case hm_get (ep_registrations s) t of
          None \<Rightarrow> (Inl TokenNotRegistered, s, k)
        | Some reg \<Rightarrow>
            let s' = s\<lparr>ep_registrations := hm_remove t (ep_registrations s),
                       ep_fd_to_token := hm_remove (rg_fd reg) (ep_fd_to_token s)\<rparr>
            in if os = Linux then
                 (case ke_epoll_ctl ke (ep_epfd s) CtlDel (rg_fd reg) None k of
                    (Inl e, k') \<Rightarrow> if e \<noteq> NoSuchEntry then (Inl (OsFailed e), s', k') else (Inr (), s', k')
                  | (Inr _, k') \<Rightarrow> (Inr (), s', k'))
               else (Inr (), s', k))"

section \<open>kqueue\<close>

record kqueue_reactor =
  kq_max_events :: nat
  kq_registrations :: "(nat, registration) hmap"
  kq_fd_to_token :: "(raw_fd, nat) hmap"
  kq_next_token :: nat
  kq_fd :: raw_fd

definition kqueue_new ::
  "target_os \<Rightarrow> 'k kernel \<Rightarrow> nat \<Rightarrow> 'k \<Rightarrow> (reactor_error + kqueue_reactor) \<times> 'k" where
  "kqueue_new os ke max_events k =
     (if bsd_target os then
        (case ke_kqueue ke k of
           (Inl e, k') \<Rightarrow> (Inl (OsFailed e), k')
         | (Inr kq, k') \<Rightarrow>
             (Inr \<lparr>kq_max_events = max_events, kq_registrations = [], kq_fd_to_token = [], kq_next_token = 1,
                   kq_fd = kq\<rparr>, ke_set_cloexec ke kq k'))
      else
        (Inr \<lparr>kq_max_events = max_events, kq_registrations = [], kq_fd_to_token = [], kq_next_token = 1,
              kq_fd = - 1\<rparr>, k))"

definition EV_ADD :: u16 where "EV_ADD = 0x1"
definition EV_DELETE :: u16 where "EV_DELETE = 0x2"
definition EV_CLEAR :: u16 where "EV_CLEAR = 0x20"
definition EV_ERROR :: u16 where "EV_ERROR = 0x4000"
definition EV_EOF :: u16 where "EV_EOF = 0x8000"

definition kevent_changes :: "raw_fd \<Rightarrow> interest \<Rightarrow> bool \<Rightarrow> kevent list" where
  "kevent_changes fd i add =
     (let flags = (if add then EV_ADD OR EV_CLEAR else EV_DELETE)
      in (if in_readable i \<or> \<not> add then
            [\<lparr>kv_ident = scast fd, kv_filter = FilterRead,
              kv_flags = (if add \<and> in_readable i then flags else EV_DELETE)\<rparr>]
          else []) @
         (if in_writable i \<or> \<not> add then
            [\<lparr>kv_ident = scast fd, kv_filter = FilterWrite,
              kv_flags = (if add \<and> in_writable i then flags else EV_DELETE)\<rparr>]
          else []))"

definition kevent_register ::
  "'k kernel \<Rightarrow> raw_fd \<Rightarrow> raw_fd \<Rightarrow> interest \<Rightarrow> bool \<Rightarrow> 'k \<Rightarrow> (reactor_error + unit) \<times> 'k" where
  "kevent_register ke kq fd i add k =
     (if kevent_changes fd i add = [] then (Inr (), k)
      else
        case ke_kevent_change ke kq (kevent_changes fd i add) k of
          (Inl e, k') \<Rightarrow> (Inl (OsFailed e), k')
        | (Inr _, k') \<Rightarrow> (Inr (), k'))"

definition merge_kevent :: "kevent \<Rightarrow> io_event \<Rightarrow> io_event" where
  "merge_kevent v e =
     (let e = (if kv_filter v = FilterRead then e\<lparr>ie_readable := True\<rparr> else e);
          e = (if kv_filter v = FilterWrite then e\<lparr>ie_writable := True\<rparr> else e);
          e = (if kv_flags v AND EV_ERROR \<noteq> 0 then e\<lparr>ie_error := True\<rparr> else e)
      in if kv_flags v AND EV_EOF \<noteq> 0 then e\<lparr>ie_closed := True\<rparr> else e)"

definition group_kevent ::
  "(raw_fd, nat) hmap \<Rightarrow> kevent \<Rightarrow> (raw_fd, io_event) hmap \<Rightarrow> (raw_fd, io_event) hmap" where
  "group_kevent fd_to_token v m =
     (let fd = ucast (kv_ident v)
      in case hm_get fd_to_token fd of
           None \<Rightarrow> m
         | Some t \<Rightarrow>
             hm_insert fd (merge_kevent v (case hm_get m fd of Some e \<Rightarrow> e | None \<Rightarrow> io_event_new t)) m)"

definition kqueue_poll ::
  "target_os \<Rightarrow> 'k kernel \<Rightarrow> nat option \<Rightarrow> kqueue_reactor \<times> 'k \<Rightarrow> (reactor_error + io_event list) \<times> kqueue_reactor \<times> 'k" where
  "kqueue_poll os ke timeout st =
     (case st of (s, k) \<Rightarrow>
        if bsd_target os then
          (case ke_kevent_wait ke (kq_fd s) (of_nat (kq_max_events s))
                  (map_option (\<lambda>d. (d div 1000000000, d mod 1000000000)) timeout) k of
             (Inl e, k') \<Rightarrow> if e = Interrupted then (Inr [], s, k') else (Inl (OsFailed e), s, k')
           | (Inr evs, k') \<Rightarrow> (Inr (map snd (fold (group_kevent (kq_fd_to_token s)) evs [])), s, k'))
        else (Inr [], s, k))"

definition kqueue_register ::
  "target_os \<Rightarrow> 'k kernel \<Rightarrow> raw_fd \<Rightarrow> interest \<Rightarrow> kqueue_reactor \<times> 'k \<Rightarrow> (reactor_error + nat) \<times> kqueue_reactor \<times> 'k" where
  "kqueue_register os ke fd i st =
     (case st of (s, k) \<Rightarrow>
        let t = kq_next_token s;
            s1 = s\<lparr>kq_next_token := t + 1\<rparr>;
            s2 = s1\<lparr>kq_registrations := hm_insert t \<lparr>rg_fd = fd, rg_interest = i\<rparr> (kq_registrations s1),
                    kq_fd_to_token := hm_insert fd t (kq_fd_to_token s1)\<rparr>
        in if bsd_target os then
             (case kevent_register ke (kq_fd s) fd i True k of
                (Inl e, k') \<Rightarrow> (Inl e, s1, k')
              | (Inr _, k') \<Rightarrow> (Inr t, s2, k'))
           else (Inr t, s2, k))"

definition kqueue_modify ::
  "target_os \<Rightarrow> 'k kernel \<Rightarrow> nat \<Rightarrow> interest \<Rightarrow> kqueue_reactor \<times> 'k \<Rightarrow> (reactor_error + unit) \<times> kqueue_reactor \<times> 'k" where
  "kqueue_modify os ke t i st =
     (case st of (s, k) \<Rightarrow>
        case hm_get (kq_registrations s) t of
          None \<Rightarrow> (Inl TokenNotRegistered, s, k)
        | Some reg \<Rightarrow>
            let s' = s\<lparr>kq_registrations := hm_insert t (reg\<lparr>rg_interest := i\<rparr>) (kq_registrations s)\<rparr>
            in if bsd_target os then
                 (case kevent_register ke (kq_fd s) (rg_fd reg) i True k of
                    (Inl e, k') \<Rightarrow> (Inl e, s, k')
                  | (Inr _, k') \<Rightarrow> (Inr (), s', k'))
               else (Inr (), s', k))"

definition kqueue_deregister ::
  "target_os \<Rightarrow> 'k kernel \<Rightarrow> nat \<Rightarrow> kqueue_reactor \<times> 'k \<Rightarrow> (reactor_error + unit) \<times> kqueue_reactor \<times> 'k" where
  "kqueue_deregister os ke t st =
     (case st of (s, k) \<Rightarrow>
        case hm_get (kq_registrations s) t of
          None \<Rightarrow> (Inl TokenNotRegistered, s, k)
        | Some reg \<Rightarrow>
            let s' = s\<lparr>kq_registrations := hm_remove t (kq_registrations s),
                       kq_fd_to_token := hm_remove (rg_fd reg) (kq_fd_to_token s)\<rparr>
            in if bsd_target os then
                 (Inr (), s', snd (kevent_register ke (kq_fd s) (rg_fd reg) (rg_interest reg) False k))
               else (Inr (), s', k))"

section \<open>io_uring\<close>

datatype op_type = OpRead | OpWrite

record iouring_reactor =
  ur_max_events :: nat
  ur_registrations :: "(nat, registration) hmap"
  ur_next_token :: nat
  ur_pending :: "(nat \<times> op_type) list"
  ur_available :: bool

text \<open>\<open>str::split_whitespace\<close> and \<open>str::parse::<u32>\<close>.\<close>

fun split_whitespace :: "text \<Rightarrow> text \<Rightarrow> text list" where
  "split_whitespace cur [] = (if cur = [] then [] else [rev cur])"
| "split_whitespace cur (c # t) =
     (if is_whitespace c then (if cur = [] then [] else [rev cur]) @ split_whitespace [] t
      else split_whitespace (c # cur) t)"

definition parse_u32 :: "text \<Rightarrow> u32 option" where
  "parse_u32 t =
     (let digits = (case t of [] \<Rightarrow> t | c # r \<Rightarrow> if c = 43 then r else t)
      in if digits = [] \<or> \<not> list_all is_ascii_digit digits then None
         else if decimal_value digits < 2 ^ 32 then Some (of_nat (decimal_value digits)) else None)"

definition kernel_version_supports :: "text \<Rightarrow> bool" where
  "kernel_version_supports version =
     (let ws = split_whitespace [] version
      in if length ws \<le> 2 then False
         else
           let parts = split_at_char 46 (ws ! 2)
           in if length parts < 2 then False
              else
                case (parse_u32 (parts ! 0), parse_u32 (parts ! 1)) of
                  (Some major, Some minor) \<Rightarrow> major > 5 \<or> major = 5 \<and> minor \<ge> 1
                | _ \<Rightarrow> False)"

definition check_io_uring_support :: "'k kernel \<Rightarrow> 'k \<Rightarrow> bool" where
  "check_io_uring_support ke k =
     (case ke_proc_version ke k of Inl e \<Rightarrow> False | Inr version \<Rightarrow> kernel_version_supports version)"

definition iouring_new :: "target_os \<Rightarrow> 'k kernel \<Rightarrow> nat \<Rightarrow> 'k \<Rightarrow> reactor_error + iouring_reactor" where
  "iouring_new os ke max_events k =
     (if os = Linux then
        if \<not> check_io_uring_support ke k then Inl IoUringUnavailable
        else Inr \<lparr>ur_max_events = max_events, ur_registrations = [], ur_next_token = 1, ur_pending = [],
                  ur_available = True\<rparr>
      else Inl IoUringUnavailable)"

definition iouring_poll ::
  "nat option \<Rightarrow> iouring_reactor \<Rightarrow> (reactor_error + io_event list) \<times> iouring_reactor" where
  "iouring_poll timeout s = (if \<not> ur_available s then (Inl IoUringUnavailable, s) else (Inr [], s))"

definition iouring_register ::
  "raw_fd \<Rightarrow> interest \<Rightarrow> iouring_reactor \<Rightarrow> (reactor_error + nat) \<times> iouring_reactor" where
  "iouring_register fd i s =
     (let t = ur_next_token s
      in (Inr t, s\<lparr>ur_next_token := t + 1,
                   ur_registrations := hm_insert t \<lparr>rg_fd = fd, rg_interest = i\<rparr> (ur_registrations s)\<rparr>))"

definition iouring_modify ::
  "nat \<Rightarrow> interest \<Rightarrow> iouring_reactor \<Rightarrow> (reactor_error + unit) \<times> iouring_reactor" where
  "iouring_modify t i s =
     (case hm_get (ur_registrations s) t of
        Some reg \<Rightarrow> (Inr (), s\<lparr>ur_registrations := hm_insert t (reg\<lparr>rg_interest := i\<rparr>) (ur_registrations s)\<rparr>)
      | None \<Rightarrow> (Inl TokenNotRegistered, s))"

definition iouring_deregister :: "nat \<Rightarrow> iouring_reactor \<Rightarrow> (reactor_error + unit) \<times> iouring_reactor" where
  "iouring_deregister t s =
     (Inr (), s\<lparr>ur_registrations := hm_remove t (ur_registrations s),
                ur_pending := filter (\<lambda>p. fst p \<noteq> t) (ur_pending s)\<rparr>)"

text \<open>Reading and writing submit alike; a completion is never given at once.\<close>

definition iouring_submit ::
  "op_type \<Rightarrow> nat \<Rightarrow> iouring_reactor \<Rightarrow> (reactor_error + (nat \<times> nat) option) \<times> iouring_reactor" where
  "iouring_submit p t s =
     (if \<not> hm_contains (ur_registrations s) t then (Inl TokenNotRegistered, s)
      else (Inr None, s\<lparr>ur_pending := ur_pending s @ [(t, p)]\<rparr>))"

section \<open>IOCP\<close>

record iocp_reactor =
  cp_max_events :: nat
  cp_registrations :: "(nat, registration) hmap"
  cp_next_token :: nat
  cp_pending :: "(nat \<times> op_type) list"

definition iocp_new :: "nat \<Rightarrow> iocp_reactor" where
  "iocp_new max_events =
     \<lparr>cp_max_events = max_events, cp_registrations = [], cp_next_token = 1, cp_pending = []\<rparr>"

definition iocp_poll ::
  "target_os \<Rightarrow> nat option \<Rightarrow> iocp_reactor \<Rightarrow> (reactor_error + io_event list) \<times> iocp_reactor" where
  "iocp_poll os timeout s =
     (if os = Windows then
        (Inr (List.map_filter
           (\<lambda>(t, p). if hm_contains (cp_registrations s) t then Some (with_readable (io_event_new t)) else None)
           (cp_pending s)), s\<lparr>cp_pending := []\<rparr>)
      else (Inr [], s))"

definition iocp_register ::
  "raw_fd \<Rightarrow> interest \<Rightarrow> iocp_reactor \<Rightarrow> (reactor_error + nat) \<times> iocp_reactor" where
  "iocp_register fd i s =
     (let t = cp_next_token s
      in (Inr t, s\<lparr>cp_next_token := t + 1,
                   cp_registrations := hm_insert t \<lparr>rg_fd = fd, rg_interest = i\<rparr> (cp_registrations s)\<rparr>))"

definition iocp_modify ::
  "nat \<Rightarrow> interest \<Rightarrow> iocp_reactor \<Rightarrow> (reactor_error + unit) \<times> iocp_reactor" where
  "iocp_modify t i s =
     (case hm_get (cp_registrations s) t of
        Some reg \<Rightarrow> (Inr (), s\<lparr>cp_registrations := hm_insert t (reg\<lparr>rg_interest := i\<rparr>) (cp_registrations s)\<rparr>)
      | None \<Rightarrow> (Inl TokenNotRegistered, s))"

definition iocp_deregister :: "nat \<Rightarrow> iocp_reactor \<Rightarrow> (reactor_error + unit) \<times> iocp_reactor" where
  "iocp_deregister t s =
     (Inr (), s\<lparr>cp_registrations := hm_remove t (cp_registrations s),
                cp_pending := filter (\<lambda>p. fst p \<noteq> t) (cp_pending s)\<rparr>)"

definition iocp_submit ::
  "op_type \<Rightarrow> nat \<Rightarrow> iocp_reactor \<Rightarrow> (reactor_error + (nat \<times> nat) option) \<times> iocp_reactor" where
  "iocp_submit p t s =
     (if \<not> hm_contains (cp_registrations s) t then (Inl TokenNotRegistered, s)
      else (Inr None, s\<lparr>cp_pending := cp_pending s @ [(t, p)]\<rparr>))"

section \<open>Choosing a reactor\<close>

datatype any_reactor =
    UsesEpoll epoll_reactor | UsesKqueue kqueue_reactor | UsesIoUring iouring_reactor | UsesIocp iocp_reactor

fun boxed :: "('r \<Rightarrow> any_reactor) \<Rightarrow> (reactor_error + 'r) \<times> 'k \<Rightarrow> (reactor_error + any_reactor) \<times> 'k" where
  "boxed wrap (Inl e, k) = (Inl e, k)"
| "boxed wrap (Inr r, k) = (Inr (wrap r), k)"

definition create_reactor ::
  "target_os \<Rightarrow> 'k kernel \<Rightarrow> reactor_config \<Rightarrow> 'k \<Rightarrow> (reactor_error + any_reactor) \<times> 'k" where
  "create_reactor os ke cfg k =
     (if os = Linux then
        (case if rc_prefer_io_uring cfg then result_ok (iouring_new os ke (rc_max_events cfg) k) else None of
           Some r \<Rightarrow> (Inr (UsesIoUring r), k)
         | None \<Rightarrow> boxed UsesEpoll (epoll_new os ke (rc_max_events cfg) k))
      else if os = MacOs then boxed UsesKqueue (kqueue_new os ke (rc_max_events cfg) k)
      else if os = Windows then (Inr (UsesIocp (iocp_new (rc_max_events cfg))), k)
      else (Inl UnsupportedPlatform, k))"

definition create_default_reactor :: "target_os \<Rightarrow> 'k kernel \<Rightarrow> 'k \<Rightarrow> (reactor_error + any_reactor) \<times> 'k" where
  "create_default_reactor os ke k = create_reactor os ke reactor_config_default k"

section \<open>The contract of a reactor\<close>

text \<open>What a client relies on: the registrations are a table that \<open>register\<close> extends at a new token even
  when it fails after taking the number, \<open>modify\<close> changes at a registered token only, and \<open>deregister\<close>
  removes from whether or not the system call succeeds.\<close>

datatype reactor_op = DoRegister raw_fd interest | DoModify nat interest | DoDeregister nat

definition reactor_apply ::
  "(raw_fd \<Rightarrow> interest \<Rightarrow> 's \<Rightarrow> (reactor_error + nat) \<times> 's) \<Rightarrow>
   (nat \<Rightarrow> interest \<Rightarrow> 's \<Rightarrow> (reactor_error + unit) \<times> 's) \<Rightarrow> (nat \<Rightarrow> 's \<Rightarrow> (reactor_error + unit) \<times> 's) \<Rightarrow>
   's \<Rightarrow> reactor_op \<Rightarrow> 's \<times> nat option" where
  "reactor_apply register modify deregister s p =
     (case p of
        DoRegister fd i \<Rightarrow> (snd (register fd i s), result_ok (fst (register fd i s)))
      | DoModify t i \<Rightarrow> (snd (modify t i s), None)
      | DoDeregister t \<Rightarrow> (snd (deregister t s), None))"

text \<open>Whatever is done in between, a token is given once, and never accepted again once deregistered.\<close>

definition tokens_retire ::
  "(raw_fd \<Rightarrow> interest \<Rightarrow> 's \<Rightarrow> (reactor_error + nat) \<times> 's) \<Rightarrow>
   (nat \<Rightarrow> interest \<Rightarrow> 's \<Rightarrow> (reactor_error + unit) \<times> 's) \<Rightarrow> (nat \<Rightarrow> 's \<Rightarrow> (reactor_error + unit) \<times> 's) \<Rightarrow>
   's \<Rightarrow> bool" where
  "tokens_retire register modify deregister s \<longleftrightarrow>
     (\<forall>fd i t qs. fst (register fd i s) = Inr t \<longrightarrow>
        (let s' = run_ops (reactor_apply register modify deregister) (snd (register fd i s)) qs
         in (\<forall>fd' i'. fst (register fd' i' s') \<noteq> Inr t) \<and>
            (\<forall>rs j. fst (modify t j (run_ops (reactor_apply register modify deregister) (snd (deregister t s')) rs)) =
               Inl TokenNotRegistered)))"

locale reactor_contract =
  fixes register :: "raw_fd \<Rightarrow> interest \<Rightarrow> 's \<Rightarrow> (reactor_error + nat) \<times> 's"
    and modify :: "nat \<Rightarrow> interest \<Rightarrow> 's \<Rightarrow> (reactor_error + unit) \<times> 's"
    and deregister :: "nat \<Rightarrow> 's \<Rightarrow> (reactor_error + unit) \<times> 's"
    and lookup :: "'s \<Rightarrow> nat \<Rightarrow> registration option"
    and counter :: "'s \<Rightarrow> nat"
  assumes register_counts: "counter (snd (register fd i s)) = Suc (counter s)"
    and register_token: "fst (register fd i s) = Inr t \<Longrightarrow> t = counter s"
    and register_lookup: "lookup (snd (register fd i s)) =
        (if is_ok (fst (register fd i s)) then (lookup s)(counter s \<mapsto> \<lparr>rg_fd = fd, rg_interest = i\<rparr>) else lookup s)"
    and modify_counts: "counter (snd (modify t i s)) = counter s"
    and modify_lookup: "lookup (snd (modify t i s)) =
        (if is_ok (fst (modify t i s)) then (lookup s)(t := map_option (\<lambda>r. r\<lparr>rg_interest := i\<rparr>) (lookup s t)) else lookup s)"
    and modify_unknown: "lookup s t = None \<Longrightarrow> fst (modify t i s) = Inl TokenNotRegistered"
    and deregister_counts: "counter (snd (deregister t s)) = counter s"
    and deregister_lookup: "lookup (snd (deregister t s)) = (lookup s)(t := None)"
begin

abbreviation apply_op :: "'s \<Rightarrow> reactor_op \<Rightarrow> 's \<times> nat option" where
  "apply_op \<equiv> reactor_apply register modify deregister"

definition known_below :: "'s \<Rightarrow> bool" where
  "known_below s \<longleftrightarrow> (\<forall>t. lookup s t \<noteq> None \<longrightarrow> t < counter s)"

lemma apply_known: "known_below s \<Longrightarrow> known_below (fst (apply_op s p))"
  by (cases p) (auto simp: reactor_apply_def known_below_def register_counts register_lookup modify_counts modify_lookup
      deregister_counts deregister_lookup less_Suc_eq split: if_splits)

lemma run_known: "known_below s \<Longrightarrow> known_below (run_ops apply_op s ps)"
  by (induction ps arbitrary: s) (auto intro: apply_known)

lemma counter_grows: "counter s \<le> counter (run_ops apply_op s ps)"
proof (induction ps arbitrary: s)
  case (Cons p ps)
  have "counter s \<le> counter (fst (apply_op s p))"
    by (cases p) (simp_all add: reactor_apply_def register_counts modify_counts deregister_counts)
  with Cons.IH [of "fst (apply_op s p)"] show ?case by simp
qed simp

text \<open>A token once given is never given again, and one that is not registered can neither be modified nor
  come back.\<close>

lemma tokens_unique:
  assumes "fst (register fd i s) = Inr t" and "fst (register fd' i' (run_ops apply_op (snd (register fd i s)) ps)) = Inr t'"
  shows "t < t'"
  using register_token [OF assms(1)] register_token [OF assms(2)] counter_grows [of "snd (register fd i s)" ps]
  by (simp add: register_counts)

lemma stays_unregistered:
  "lookup s t = None \<Longrightarrow> t < counter s \<Longrightarrow> lookup (run_ops apply_op s ps) t = None"
proof (induction ps arbitrary: s)
  case (Cons p ps)
  have "lookup (fst (apply_op s p)) t = None \<and> t < counter (fst (apply_op s p))"
    using Cons.prems by (cases p) (auto simp: reactor_apply_def register_counts register_lookup modify_counts modify_lookup
        deregister_counts deregister_lookup)
  with Cons.IH [of "fst (apply_op s p)"] show ?case by simp
qed simp

lemma tokens_retire: "tokens_retire register modify deregister s"
  unfolding tokens_retire_def Let_def
proof (intro allI impI conjI)
  fix fd i t qs fd' i'
  assume t: "fst (register fd i s) = Inr t"
  show "fst (register fd' i' (run_ops apply_op (snd (register fd i s)) qs)) \<noteq> Inr t"
    using tokens_unique [OF t] by fastforce
next
  fix fd i t qs rs j
  assume t: "fst (register fd i s) = Inr t"
  let ?s = "run_ops apply_op (snd (register fd i s)) qs"
  have "t < counter (snd (register fd i s))" using register_token [OF t] by (simp add: register_counts)
  then have "t < counter (snd (deregister t ?s))"
    using counter_grows [of "snd (register fd i s)" qs] by (simp add: deregister_counts)
  then show "fst (modify t j (run_ops apply_op (snd (deregister t ?s)) rs)) = Inl TokenNotRegistered"
    by (intro modify_unknown stays_unregistered) (simp_all add: deregister_lookup)
qed

end

text \<open>A reactor that reports the events of its descriptors by a table from descriptors to tokens.\<close>

locale polling_reactor = reactor_contract register modify deregister lookup counter
  for register :: "raw_fd \<Rightarrow> interest \<Rightarrow> 's \<Rightarrow> (reactor_error + nat) \<times> 's"
    and modify :: "nat \<Rightarrow> interest \<Rightarrow> 's \<Rightarrow> (reactor_error + unit) \<times> 's"
    and deregister :: "nat \<Rightarrow> 's \<Rightarrow> (reactor_error + unit) \<times> 's"
    and lookup :: "'s \<Rightarrow> nat \<Rightarrow> registration option"
    and counter :: "'s \<Rightarrow> nat" +
  fixes poll :: "nat option \<Rightarrow> 's \<Rightarrow> (reactor_error + io_event list) \<times> 's"
    and route :: "'s \<Rightarrow> raw_fd \<Rightarrow> nat option"
  assumes poll_routed: "fst (poll timeout s) = Inr evs \<Longrightarrow> e \<in> set evs \<Longrightarrow> \<exists>fd. route s fd = Some (ie_token e)"
    and register_route: "route (snd (register fd i s)) =
        (if is_ok (fst (register fd i s)) then (route s)(fd \<mapsto> counter s) else route s)"
    and modify_route: "route (snd (modify t i s)) = route s"
    and deregister_route: "route (snd (deregister t s)) =
        (case lookup s t of None \<Rightarrow> route s | Some r \<Rightarrow> (route s)(rg_fd r := None))"
begin

definition routed :: "'s \<Rightarrow> bool" where
  "routed s \<longleftrightarrow> known_below s \<and> (\<forall>fd t. route s fd = Some t \<longrightarrow> (\<exists>r. lookup s t = Some r \<and> rg_fd r = fd))"

lemma apply_routed:
  assumes "routed s"
  shows "routed (fst (apply_op s p))"
proof -
  have k: "known_below s" and r: "\<And>fd t. route s fd = Some t \<Longrightarrow> \<exists>r. lookup s t = Some r \<and> rg_fd r = fd"
    using assms by (auto simp: routed_def)
  have "lookup s (counter s) = None" using k by (auto simp: known_below_def)
  then have "route (fst (apply_op s p)) fd = Some t \<Longrightarrow>
      \<exists>r. lookup (fst (apply_op s p)) t = Some r \<and> rg_fd r = fd" for fd t
    using r by (cases p) (fastforce simp: reactor_apply_def register_route register_lookup modify_route modify_lookup
        deregister_route deregister_lookup split: if_splits option.splits)+
  then show ?thesis using apply_known [OF k] by (simp add: routed_def)
qed

lemma run_routed: "routed s \<Longrightarrow> routed (run_ops apply_op s ps)"
  by (induction ps arbitrary: s) (auto intro: apply_routed)

lemma events_registered:
  assumes "routed s" and "fst (poll timeout (run_ops apply_op s ps)) = Inr evs" and "e \<in> set evs"
  shows "lookup (run_ops apply_op s ps) (ie_token e) \<noteq> None"
  using poll_routed [OF assms(2,3)] run_routed [OF assms(1), of ps] by (force simp: routed_def)

end

lemma hm_get_update: "hm_get (hm_insert k v m) = (hm_get m)(k \<mapsto> v)"
  by auto

lemma hm_get_removed: "hm_get (hm_remove k m) = (hm_get m)(k := None)"
  by auto

interpretation epoll: reactor_contract "epoll_register os ke" "epoll_modify os ke" "epoll_deregister os ke"
  "\<lambda>st. hm_get (ep_registrations (fst st))" "\<lambda>st. ep_next_token (fst st)"
  by unfold_locales
    (auto simp: epoll_register_def epoll_modify_def epoll_deregister_def hm_get_update hm_get_removed Let_def
      split: prod.splits sum.splits option.splits if_splits)

interpretation kqueue: reactor_contract "kqueue_register os ke" "kqueue_modify os ke" "kqueue_deregister os ke"
  "\<lambda>st. hm_get (kq_registrations (fst st))" "\<lambda>st. kq_next_token (fst st)"
  by unfold_locales
    (auto simp: kqueue_register_def kqueue_modify_def kqueue_deregister_def hm_get_update hm_get_removed Let_def
      split: prod.splits sum.splits option.splits if_splits)

interpretation iouring: reactor_contract iouring_register iouring_modify iouring_deregister
  "\<lambda>s. hm_get (ur_registrations s)" ur_next_token
  by unfold_locales
    (auto simp: iouring_register_def iouring_modify_def iouring_deregister_def hm_get_update hm_get_removed Let_def
      split: option.splits)

interpretation iocp: reactor_contract iocp_register iocp_modify iocp_deregister
  "\<lambda>s. hm_get (cp_registrations s)" cp_next_token
  by unfold_locales
    (auto simp: iocp_register_def iocp_modify_def iocp_deregister_def hm_get_update hm_get_removed Let_def
      split: option.splits)

lemma merge_kevent_token [simp]: "ie_token (merge_kevent v e) = ie_token e"
  by (simp add: merge_kevent_def Let_def)

lemma group_kevent_routed:
  assumes "(fd, e) \<in> set (group_kevent route v m)" and m: "\<forall>(fd, e) \<in> set m. hm_get route fd = Some (ie_token e)"
  shows "hm_get route fd = Some (ie_token e)"
proof (cases "hm_get route (ucast (kv_ident v))")
  case None
  with assms show ?thesis by (auto simp: group_kevent_def Let_def)
next
  case (Some t)
  let ?fd = "ucast (kv_ident v) :: raw_fd"
  define old where "old = (case hm_get m ?fd of Some e \<Rightarrow> e | None \<Rightarrow> io_event_new t)"
  have "hm_get m ?fd = Some e' \<Longrightarrow> (?fd, e') \<in> set m" for e' by (simp add: hm_get_def map_of_SomeD)
  then have old: "hm_get route ?fd = Some (ie_token old)"
    using m Some by (fastforce simp: old_def io_event_new_def split: option.split)
  have "(fd, e) \<in> set (hm_insert ?fd (merge_kevent v old) m)"
    using assms(1) Some by (simp add: group_kevent_def Let_def old_def)
  then have "(fd, e) = (?fd, merge_kevent v old) \<or> (fd, e) \<in> set m" using hm_insert_entries by fastforce
  then show ?thesis using m old by auto
qed

lemma group_kevents_routed:
  "(\<forall>(fd, e) \<in> set m. hm_get route fd = Some (ie_token e)) \<Longrightarrow> hm_wf m \<Longrightarrow>
   \<forall>(fd, e) \<in> set (fold (group_kevent route) vs m). hm_get route fd = Some (ie_token e)"
proof (induction vs arbitrary: m)
  case (Cons v vs)
  have "hm_wf (group_kevent route v m)" using Cons.prems(2) by (simp add: group_kevent_def Let_def split: option.split)
  moreover have "\<forall>(fd, e) \<in> set (group_kevent route v m). hm_get route fd = Some (ie_token e)"
    using group_kevent_routed Cons.prems by blast
  ultimately show ?case using Cons.IH by simp
qed simp

interpretation epoll_polls: polling_reactor "epoll_register os ke" "epoll_modify os ke" "epoll_deregister os ke"
  "\<lambda>st. hm_get (ep_registrations (fst st))" "\<lambda>st. ep_next_token (fst st)" "epoll_poll os ke"
  "\<lambda>st. hm_get (ep_fd_to_token (fst st))"
proof
  fix timeout :: "nat option" and st :: "epoll_reactor \<times> 'a" and evs e
  assume "fst (epoll_poll os ke timeout st) = Inr evs" "e \<in> set evs"
  then show "\<exists>fd. hm_get (ep_fd_to_token (fst st)) fd = Some (ie_token e)"
    by (auto simp: epoll_poll_def map_filter_def epoll_to_event_def split: prod.splits sum.splits if_splits) blast
qed (auto simp: epoll_register_def epoll_modify_def epoll_deregister_def hm_get_update hm_get_removed Let_def
      split: prod.splits sum.splits option.splits if_splits)

interpretation kqueue_polls: polling_reactor "kqueue_register os ke" "kqueue_modify os ke" "kqueue_deregister os ke"
  "\<lambda>st. hm_get (kq_registrations (fst st))" "\<lambda>st. kq_next_token (fst st)" "kqueue_poll os ke"
  "\<lambda>st. hm_get (kq_fd_to_token (fst st))"
proof
  fix timeout :: "nat option" and st :: "kqueue_reactor \<times> 'a" and evs e
  assume "fst (kqueue_poll os ke timeout st) = Inr evs" "e \<in> set evs"
  then obtain vs where "e \<in> snd ` set (fold (group_kevent (kq_fd_to_token (fst st))) vs [])"
    by (auto simp: kqueue_poll_def split: prod.splits sum.splits if_splits)
  moreover have "\<forall>(fd, e) \<in> set (fold (group_kevent (kq_fd_to_token (fst st))) vs []).
      hm_get (kq_fd_to_token (fst st)) fd = Some (ie_token e)"
    by (rule group_kevents_routed) (simp_all add: hm_wf_def)
  ultimately show "\<exists>fd. hm_get (kq_fd_to_token (fst st)) fd = Some (ie_token e)" by force
qed (auto simp: kqueue_register_def kqueue_modify_def kqueue_deregister_def hm_get_update hm_get_removed Let_def
      split: prod.splits sum.splits option.splits if_splits)

text \<open>The laws a new reactor is used under.\<close>

definition reactor_sound ::
  "(raw_fd \<Rightarrow> interest \<Rightarrow> 's \<Rightarrow> (reactor_error + nat) \<times> 's) \<Rightarrow>
   (nat \<Rightarrow> interest \<Rightarrow> 's \<Rightarrow> (reactor_error + unit) \<times> 's) \<Rightarrow> (nat \<Rightarrow> 's \<Rightarrow> (reactor_error + unit) \<times> 's) \<Rightarrow>
   (nat option \<Rightarrow> 's \<Rightarrow> (reactor_error + io_event list) \<times> 's) \<Rightarrow> ('s \<Rightarrow> (nat, registration) hmap) \<Rightarrow> 's \<Rightarrow> bool" where
  "reactor_sound register modify deregister poll registrations s0 \<longleftrightarrow>
     (\<forall>ps. let s = run_ops (reactor_apply register modify deregister) s0 ps
           in tokens_retire register modify deregister s \<and>
              (\<forall>timeout evs. fst (poll timeout s) = Inr evs \<longrightarrow>
                 (\<forall>e \<in> set evs. hm_contains (registrations s) (ie_token e))))"

lemma epoll_sound:
  "epoll_new os ke n k = (Inr r, k') \<Longrightarrow>
   reactor_sound (epoll_register os ke) (epoll_modify os ke) (epoll_deregister os ke) (epoll_poll os ke)
     (\<lambda>st. ep_registrations (fst st)) (r, k')"
proof -
  assume "epoll_new os ke n k = (Inr r, k')"
  then have "epoll_polls.routed (r, k')"
    by (auto simp: epoll_polls.routed_def epoll.known_below_def epoll_new_def split: if_splits prod.splits sum.splits)
  then show ?thesis
    unfolding reactor_sound_def Let_def hm_contains_def
    using epoll.tokens_retire epoll_polls.events_registered by blast
qed

lemma kqueue_sound:
  "kqueue_new os ke n k = (Inr r, k') \<Longrightarrow>
   reactor_sound (kqueue_register os ke) (kqueue_modify os ke) (kqueue_deregister os ke) (kqueue_poll os ke)
     (\<lambda>st. kq_registrations (fst st)) (r, k')"
proof -
  assume "kqueue_new os ke n k = (Inr r, k')"
  then have "kqueue_polls.routed (r, k')"
    by (auto simp: kqueue_polls.routed_def kqueue.known_below_def kqueue_new_def split: if_splits prod.splits sum.splits)
  then show ?thesis
    unfolding reactor_sound_def Let_def hm_contains_def
    using kqueue.tokens_retire kqueue_polls.events_registered by blast
qed

lemma iouring_sound:
  "reactor_sound iouring_register iouring_modify iouring_deregister iouring_poll ur_registrations r"
  unfolding reactor_sound_def Let_def using iouring.tokens_retire by (simp add: iouring_poll_def)

lemma iocp_sound:
  "reactor_sound iocp_register iocp_modify iocp_deregister (iocp_poll os) cp_registrations r"
  unfolding reactor_sound_def Let_def using iocp.tokens_retire
  by (auto simp: iocp_poll_def map_filter_def with_readable_def io_event_new_def split: if_splits)


section \<open>Epoll's flags and the limits of the implementations\<close>

text \<open>The flags asked of the kernel are those of the interest, and the descriptor put in an event's data
  is read back from it.\<close>

lemma interest_flags:
  "interest_to_epoll i AND EPOLLIN \<noteq> 0 \<longleftrightarrow> in_readable i"
  "interest_to_epoll i AND EPOLLOUT \<noteq> 0 \<longleftrightarrow> in_writable i"
  "ie_readable (epoll_to_event (interest_to_epoll i) t) = in_readable i"
  "ie_writable (epoll_to_event (interest_to_epoll i) t) = in_writable i"
  by (simp_all add: interest_to_epoll_def epoll_to_event_def EPOLLET_def EPOLLIN_def EPOLLOUT_def Let_def)

lemma descriptor_read_back: "(ucast (scast (fd :: raw_fd) :: u64) :: raw_fd) = fd"
  by (rule bit_word_eqI) (simp add: bit_ucast_iff bit_signed_iff)

text \<open>A wait of 2^31 milliseconds, some 25 days, becomes a negative number, which the kernel takes for no
  limit, and one below a millisecond does not wait at all.\<close>

lemma epoll_timeouts:
  "epoll_timeout_ms (Some (2 ^ 31 * 1000000)) = 0x80000000" "epoll_timeout_ms (Some 999999) = 0"
  "sint (0x80000000 :: 32 word) < 0"
  by (simp_all add: epoll_timeout_ms_def)

text \<open>A kernel whose calls all succeed, and whose wait reports descriptor 7 readable.\<close>

definition sample_kernel :: "text \<Rightarrow> unit kernel" where
  "sample_kernel version =
     \<lparr>ke_epoll_create = (\<lambda>k. (Inr 3, k)), ke_epoll_ctl = (\<lambda>ep p fd e k. (Inr (), k)),
      ke_epoll_wait = (\<lambda>ep n t k. (Inr [(EPOLLIN, 7)], k)), ke_kqueue = (\<lambda>k. (Inr 3, k)),
      ke_set_cloexec = (\<lambda>kq k. k), ke_kevent_change = (\<lambda>kq cs k. (Inr (), k)),
      ke_kevent_wait = (\<lambda>kq n t k. (Inr [\<lparr>kv_ident = 7, kv_filter = FilterRead, kv_flags = 0\<rparr>], k)),
      ke_proc_version = (\<lambda>k. Inr version)\<rparr>"

text \<open>kqueue accepts a descriptor twice; deregistering the first token then drops the descriptor's entry,
  and the second token, still registered, never gets an event.\<close>

lemma stale_deregister_silences:
  fixes ke :: "unit kernel"
  assumes "ke = sample_kernel []" and "kqueue_new MacOs ke 8 () = (Inr r, k)"
    and "s = run_ops (reactor_apply (kqueue_register MacOs ke) (kqueue_modify MacOs ke) (kqueue_deregister MacOs ke)) (r, k)
           [DoRegister 7 READABLE, DoRegister 7 READABLE, DoDeregister 1]"
  shows "hm_contains (kq_registrations (fst s)) 2 \<and> fst (kqueue_poll MacOs ke None s) = Inr []"
proof -
  have r: "r = \<lparr>kq_max_events = 8, kq_registrations = [], kq_fd_to_token = [], kq_next_token = 1, kq_fd = 3\<rparr>"
    using assms(1,2) by (simp add: kqueue_new_def bsd_target_def sample_kernel_def)
  show ?thesis
    unfolding assms(3) r
    by (simp add: assms(1) sample_kernel_def reactor_apply_def kqueue_register_def kqueue_deregister_def kqueue_poll_def
        kevent_register_def kevent_changes_def READABLE_def bsd_target_def group_kevent_def hm_contains_def Let_def)
qed

text \<open>Modifying a kqueue registration to read-only asks the kernel for reads but never removes the write
  filter, which the comment announces.\<close>

lemma modify_keeps_filters:
  "kevent_changes fd READABLE True = [\<lparr>kv_ident = scast fd, kv_filter = FilterRead, kv_flags = EV_ADD OR EV_CLEAR\<rparr>]"
  by (simp add: kevent_changes_def READABLE_def)

text \<open>On a Linux kernel from 5.1 the default configuration chooses the io_uring reactor, whose poll never
  reports an event.\<close>

lemma default_linux_reactor_silent:
  assumes "ke_proc_version ke k = Inr version" and "kernel_version_supports version"
  obtains r where "create_default_reactor Linux ke k = (Inr (UsesIoUring r), k)"
    and "fst (iouring_poll timeout (run_ops (reactor_apply iouring_register iouring_modify iouring_deregister) r ps)) = Inr []"
proof -
  let ?r = "\<lparr>ur_max_events = 1024, ur_registrations = [], ur_next_token = 1, ur_pending = [], ur_available = True\<rparr>"
  have "ur_available (run_ops (reactor_apply iouring_register iouring_modify iouring_deregister) r ps)"
    if "ur_available r" for r
    using that
  proof (induction ps arbitrary: r)
    case (Cons p ps)
    have "ur_available (fst (reactor_apply iouring_register iouring_modify iouring_deregister r p))"
      using Cons.prems by (cases p) (auto simp: reactor_apply_def iouring_register_def iouring_modify_def
          iouring_deregister_def Let_def split: option.split)
    with Cons.IH show ?case by simp
  qed simp
  then have "fst (iouring_poll timeout (run_ops (reactor_apply iouring_register iouring_modify iouring_deregister) ?r ps)) = Inr []"
    by (simp add: iouring_poll_def)
  moreover have "create_default_reactor Linux ke k = (Inr (UsesIoUring ?r), k)"
    using assms by (simp add: create_default_reactor_def create_reactor_def iouring_new_def check_io_uring_support_def
        reactor_config_default_def)
  ultimately show ?thesis using that by blast
qed

lemma kernel_versions:
  "kernel_version_supports (ascii ''Linux version 5.15.0-91-generic (build)'')"
  "\<not> kernel_version_supports (ascii ''Linux version 4.19.0 (build)'')"
  "\<not> kernel_version_supports (ascii ''Linux version 6.1-generic (build)'')"
  by (simp_all add: kernel_version_supports_def ascii_def is_whitespace_def parse_u32_def decimal_value_def
      is_ascii_digit_def Let_def)

end
