(* ===== verification/Signals.thy ===== *)
theory Signals
  imports Shutdown Metrics
begin

text \<open>
  Signals and the shutdown logger (\<open>src/src/shutdown/signals.rs\<close>, \<open>src/src/shutdown/mod.rs\<close>): what each
  signal does to the coordinator of \<open>Shutdown\<close> and to the subscribers of a configuration reload, waiting
  for the shutdown, and the progress lines. The delivery of a signal to its task is the runtime's; a
  duration is a number of nanoseconds.
\<close>

section \<open>Signals\<close>

datatype signal = SigTerm | SigInt | SigHup

datatype platform = Unix | WindowsPlatform

text \<open>The handler, with the reloads that wait for each subscriber and the lines logged.\<close>

record signal_handler =
  sg_coordinator :: coordinator
  sg_reloads :: "nat list"
  sg_stderr :: "text list"

definition signal_handler_new :: "coordinator \<Rightarrow> signal_handler" where
  "signal_handler_new c = \<lparr>sg_coordinator = c, sg_reloads = [], sg_stderr = []\<rparr>"

definition subscribe_reload :: "signal_handler \<Rightarrow> nat \<times> signal_handler" where
  "subscribe_reload h = (length (sg_reloads h), h\<lparr>sg_reloads := sg_reloads h @ [0]\<rparr>)"

definition trigger_reload :: "signal_handler \<Rightarrow> signal_handler" where
  "trigger_reload h = h\<lparr>sg_reloads := map Suc (sg_reloads h)\<rparr>"

fun log_signal :: "signal \<Rightarrow> text" where
  "log_signal SigTerm = ascii ''Received SIGTERM, initiating graceful shutdown...''"
| "log_signal SigInt = ascii ''Received SIGINT, initiating graceful shutdown...''"
| "log_signal SigHup = ascii ''Received SIGHUP, reloading configuration...''"

text \<open>One turn of the loop of the task \<open>setup_handlers\<close> spawns for a signal; the other platform has a task
  for the interrupt alone.\<close>

definition deliver_signal :: "platform \<Rightarrow> signal_handler \<Rightarrow> signal \<Rightarrow> signal_handler" where
  "deliver_signal p h s =
     (let logged = h\<lparr>sg_stderr := sg_stderr h @ [log_signal s]\<rparr>
      in case (p, s) of
           (Unix, SigHup) \<Rightarrow> trigger_reload logged
         | (Unix, _) \<Rightarrow> logged\<lparr>sg_coordinator := shutdown (sg_coordinator h)\<rparr>
         | (WindowsPlatform, SigInt) \<Rightarrow> logged\<lparr>sg_coordinator := shutdown (sg_coordinator h)\<rparr>
         | _ \<Rightarrow> h)"

text \<open>\<open>wait_for_shutdown\<close> subscribes to the coordinator and waits for a notification sent after that.\<close>

definition wait_for_shutdown_mark :: "coordinator \<Rightarrow> nat" where
  "wait_for_shutdown_mark c = sd_notifications c"

definition wait_for_shutdown_ends :: "nat \<Rightarrow> coordinator \<Rightarrow> bool" where
  "wait_for_shutdown_ends mark c \<longleftrightarrow> sd_notifications c > mark"

text \<open>\<open>wait_for_ctrl_c\<close> ends at the first signal it listens for.\<close>

definition wait_for_ctrl_c :: "platform \<Rightarrow> signal list \<Rightarrow> text option" where
  "wait_for_ctrl_c p ss =
     map_option log_signal
       (List.find (\<lambda>s. case p of Unix \<Rightarrow> s \<in> {SigInt, SigTerm} | WindowsPlatform \<Rightarrow> s = SigInt) ss)"

section \<open>The shutdown logger\<close>

record shutdown_logger =
  sl_start_time :: "nat option"
  sl_log_interval :: nat

definition shutdown_logger_new :: "nat \<Rightarrow> shutdown_logger" where
  "shutdown_logger_new interval = \<lparr>sl_start_time = None, sl_log_interval = interval\<rparr>"

definition with_default_interval :: shutdown_logger where
  "with_default_interval = shutdown_logger_new 1000000000"

definition logger_start :: "nat \<Rightarrow> shutdown_logger \<Rightarrow> shutdown_logger" where
  "logger_start now l = (if sl_start_time l = None then l\<lparr>sl_start_time := Some now\<rparr> else l)"

definition logger_progress :: "nat \<Rightarrow> coordinator \<Rightarrow> shutdown_logger \<Rightarrow> progress" where
  "logger_progress now c l = coordinator_progress (map_option (\<lambda>t. now - t) (sl_start_time l)) c"

text \<open>A duration in seconds with one digit behind the point, rounded half to even.\<close>

definition duration_of_nanos :: "nat \<Rightarrow> duration" where
  "duration_of_nanos n = \<lparr>du_secs = of_nat (n div 1000000000), du_nanos = n mod 1000000000\<rparr>"

definition one_decimal :: "u64 \<Rightarrow> text" where
  "one_decimal b =
     (let x = div_round (f64_num b * 10) (2 ^ 1074) in decimal (x div 10) @ [46] @ decimal (x mod 10))"

definition seconds_text :: "nat \<Rightarrow> text" where
  "seconds_text n = one_decimal (as_secs_f64 (duration_of_nanos n)) @ ascii ''s''"

definition to_log_message :: "progress \<Rightarrow> text" where
  "to_log_message p =
     (if \<not> pg_initiated p then ascii ''Shutdown not initiated''
      else
        let elapsed = (case pg_elapsed p of Some d \<Rightarrow> seconds_text d | None \<Rightarrow> ascii ''unknown'')
        in if pg_in_flight p = 0 then ascii ''Shutdown complete after '' @ elapsed
           else ascii ''Shutdown in progress: '' @ decimal (unat (pg_in_flight p)) @
                ascii '' in-flight requests, elapsed: '' @ elapsed @ ascii '', timeout: '' @
                seconds_text (pg_timeout p))"

definition log_progress :: "progress \<Rightarrow> text" where
  "log_progress p = ascii ''[SHUTDOWN] '' @ to_log_message p"

text \<open>The periodic log over the coordinator and the clock at each round: the lines, and whether it ended.\<close>

fun logging_loop :: "shutdown_logger \<Rightarrow> (coordinator \<times> nat) list \<Rightarrow> text list \<times> bool" where
  "logging_loop l [] = ([], False)"
| "logging_loop l ((c, now) # rounds) =
     (let p = logger_progress now c l
      in if is_complete p then ([log_progress p, ascii ''[SHUTDOWN] Graceful shutdown complete''], True)
         else if is_timed_out p then
           ([log_progress p,
             ascii ''[SHUTDOWN] Timeout reached with '' @ decimal (unat (pg_in_flight p)) @
             ascii '' requests still in-flight''], True)
         else (case logging_loop l rounds of (ls, b) \<Rightarrow> (log_progress p # ls, b)))"

definition run_logging :: "nat \<Rightarrow> shutdown_logger \<Rightarrow> (coordinator \<times> nat) list \<Rightarrow> text list \<times> bool" where
  "run_logging start l rounds = logging_loop (logger_start start l) rounds"

section \<open>Signals shut down once and reload every time\<close>

definition signal_machine :: "signal_handler \<Rightarrow> signal \<Rightarrow> signal_handler \<times> unit" where
  "signal_machine h s = (deliver_signal Unix h s, ())"

lemma deliver_reloads:
  "sg_reloads (run_ops signal_machine h ss) = map (\<lambda>n. n + count_list ss SigHup) (sg_reloads h)"
proof (induction ss arbitrary: h)
  case (Cons s ss)
  then show ?case
    by (cases s) (simp_all add: signal_machine_def deliver_signal_def trigger_reload_def Let_def)
qed simp

definition coordinator_ok :: "coordinator \<Rightarrow> bool" where
  "coordinator_ok c \<longleftrightarrow> sd_shutdown c = sd_initiated c \<and> sd_notifications c = of_bool (sd_initiated c)"

lemma deliver_coordinator:
  "coordinator_ok (sg_coordinator h) \<Longrightarrow>
   coordinator_ok (sg_coordinator (run_ops signal_machine h ss)) \<and>
   sd_shutdown (sg_coordinator (run_ops signal_machine h ss)) =
     (sd_shutdown (sg_coordinator h) \<or> SigTerm \<in> set ss \<or> SigInt \<in> set ss)"
proof (induction ss arbitrary: h)
  case (Cons s ss)
  let ?h = "fst (signal_machine h s)"
  have "coordinator_ok (sg_coordinator ?h) \<and>
      sd_shutdown (sg_coordinator ?h) = (sd_shutdown (sg_coordinator h) \<or> s = SigTerm \<or> s = SigInt)"
    using Cons.prems by (cases s) (auto simp: signal_machine_def deliver_signal_def trigger_reload_def Let_def
        coordinator_ok_def shutdown_def)
  with Cons.IH [of ?h] show ?case by auto
qed simp

lemma deliver_lines:
  "sg_stderr (run_ops signal_machine h ss) = sg_stderr h @ map log_signal ss"
proof (induction ss arbitrary: h)
  case (Cons s ss)
  then show ?case
    by (cases s) (simp_all add: signal_machine_def deliver_signal_def trigger_reload_def Let_def)
qed simp

text \<open>However signals arrive, the shutdown is requested exactly when one of them asked for it and its
  subscribers are notified once; a subscriber of the configuration finds one reload for every hangup since
  it subscribed; and each signal is logged.\<close>

theorem signals_exact:
  assumes "sg_coordinator h = coordinator_new timeout" and "r < length (sg_reloads h)" and "sg_reloads h ! r = 0"
  shows "let h' = run_ops signal_machine h ss; stop = SigTerm \<in> set ss \<or> SigInt \<in> set ss
    in sd_shutdown (sg_coordinator h') = stop \<and> sd_notifications (sg_coordinator h') = of_bool stop \<and>
       sg_reloads h' ! r = count_list ss SigHup \<and> sg_stderr h' = sg_stderr h @ map log_signal ss"
proof -
  have "coordinator_ok (sg_coordinator h)" "\<not> sd_shutdown (sg_coordinator h)"
    using assms(1) by (simp_all add: coordinator_ok_def coordinator_new_def)
  from deliver_coordinator [OF this(1), of ss] this(2) show ?thesis
    using assms(2,3) by (auto simp: Let_def deliver_reloads deliver_lines coordinator_ok_def)
qed

theorem signals_exact_witness:
  "sg_reloads (run_ops signal_machine (snd (subscribe_reload (signal_handler_new (coordinator_new 30))))
     [SigHup, SigTerm, SigHup, SigInt]) ! 0 = 2"
  using signals_exact [of "snd (subscribe_reload (signal_handler_new (coordinator_new 30)))" 30 0
      "[SigHup, SigTerm, SigHup, SigInt]"]
  by (simp add: subscribe_reload_def signal_handler_new_def Let_def)

text \<open>Waiting for the shutdown misses one that has already been requested: no signal ends the wait.\<close>

lemma late_wait_never_ends:
  assumes "coordinator_ok (sg_coordinator h)" and "sd_shutdown (sg_coordinator h)"
  shows "\<not> wait_for_shutdown_ends (wait_for_shutdown_mark (sg_coordinator h)) (sg_coordinator (run_ops signal_machine h ss))"
  using deliver_coordinator [OF assms(1), of ss] assms
  by (auto simp: wait_for_shutdown_ends_def wait_for_shutdown_mark_def coordinator_ok_def)

section \<open>The logger stops\<close>

lemma logging_loop_ends:
  "list_ex (\<lambda>(c, now). is_complete (logger_progress now c l) \<or> is_timed_out (logger_progress now c l)) rounds \<Longrightarrow>
   snd (logging_loop l rounds)"
  by (induction l rounds rule: logging_loop.induct) (auto simp: Let_def split: prod.split)

text \<open>The periodic log ends at the latest at the first round that comes a full timeout after the start,
  whatever is still in flight.\<close>

theorem logging_ends:
  assumes "(c, now) \<in> set rounds" and "start + sd_drain_timeout c \<le> now" and "sl_start_time l = None"
  shows "snd (run_logging start l rounds)"
proof -
  have "is_timed_out (logger_progress now c (logger_start start l))"
    using assms(2,3) by (simp add: is_timed_out_def logger_progress_def coordinator_progress_def logger_start_def)
  with assms(1) show ?thesis
    unfolding run_logging_def by (intro logging_loop_ends) (auto simp: list_ex_iff)
qed

end
