(* ===== verification/Bench.thy ===== *)
theory Bench
  imports Json_Rpc Signals Invocation Stdio Roots Formats
begin

text \<open>
  The benchmark module (\<open>src/src/bench/json_rpc.rs\<close>, \<open>src/src/bench/suite.rs\<close>): the size comparison of
  the two protocols, latency statistics, the payloads, the runs of the suite over what the clock measured,
  and the Markdown report. A duration is a number of nanoseconds; printing JSON is the library's.
\<close>

section \<open>Sizes\<close>

definition bench_request_ser :: "text \<Rightarrow> json option \<Rightarrow> u64 \<Rightarrow> ser" where
  "bench_request_ser m params i =
     SerStruct
       ([(ascii ''jsonrpc'', SerValue (JString (ascii ''2.0''))), (ascii ''method'', SerValue (JString m))] @
        opt_field ''params'' (map_option SerValue params) @
        [(ascii ''id'', SerValue (JNumber (PosInt i)))])"

definition print_or_empty :: "serde_json \<Rightarrow> ser \<Rightarrow> text" where
  "print_or_empty sj v = (case sj_print sj v of Inr t \<Rightarrow> t | Inl e \<Rightarrow> [])"

definition encode_json_rpc :: "serde_json \<Rightarrow> text \<Rightarrow> json \<Rightarrow> u64 \<Rightarrow> text" where
  "encode_json_rpc sj m params i = print_or_empty sj (bench_request_ser m (Some params) i)"

definition measure_json_rpc_size :: "serde_json \<Rightarrow> text \<Rightarrow> json \<Rightarrow> u64 \<Rightarrow> nat" where
  "measure_json_rpc_size sj m params i = text_len (encode_json_rpc sj m params i)"

definition DCP_HEADER_SIZE :: nat where "DCP_HEADER_SIZE = 8"
definition DCP_INVOCATION_SIZE :: nat where "DCP_INVOCATION_SIZE = 20"

definition measure_dcp_size :: "nat \<Rightarrow> nat" where
  "measure_dcp_size args_size = DCP_HEADER_SIZE + DCP_INVOCATION_SIZE + args_size"

record size_comparison =
  sc_json_rpc_size :: nat
  sc_dcp_size :: nat
  sc_ratio :: u64

text \<open>\<open>as f64\<close> of a size.\<close>

definition f64_of_size :: "nat \<Rightarrow> u64" where
  "f64_of_size n = f64_of_u64 (of_nat n)"

definition size_comparison_new :: "nat \<Rightarrow> nat \<Rightarrow> size_comparison" where
  "size_comparison_new json_rpc_size dcp_size =
     \<lparr>sc_json_rpc_size = json_rpc_size, sc_dcp_size = dcp_size,
      sc_ratio = (if dcp_size > 0 then f64_div (f64_of_size json_rpc_size) (f64_of_size dcp_size) else 0)\<rparr>"

definition dcp_is_smaller_by :: "u64 \<Rightarrow> size_comparison \<Rightarrow> bool" where
  "dcp_is_smaller_by factor c \<longleftrightarrow> f64_le factor (sc_ratio c)"

definition compare_sizes :: "serde_json \<Rightarrow> text \<Rightarrow> json \<Rightarrow> nat \<Rightarrow> size_comparison" where
  "compare_sizes sj m params args_binary_size =
     size_comparison_new (measure_json_rpc_size sj m params 1) (measure_dcp_size args_binary_size)"

fun estimate_binary_size :: "json \<Rightarrow> nat" where
  "estimate_binary_size JNull = 0"
| "estimate_binary_size (JBool b) = 1"
| "estimate_binary_size (JNumber n) =
     (case n of PosInt u \<Rightarrow> if unat u < 2 ^ 63 then 8 else 4 | NegInt i \<Rightarrow> 8 | FloatBits b \<Rightarrow> 8)"
| "estimate_binary_size (JString s) = 4 + text_len s"
| "estimate_binary_size (JArray vs) = 4 + sum_list (map estimate_binary_size vs)"
| "estimate_binary_size (JObject m) =
     4 + sum_list (map (\<lambda>(k, v). 1 + text_len k + estimate_binary_size v) m)"

definition compare_sizes_auto :: "serde_json \<Rightarrow> text \<Rightarrow> json \<Rightarrow> size_comparison" where
  "compare_sizes_auto sj m params = compare_sizes sj m params (estimate_binary_size params)"

section \<open>Latency statistics\<close>

record latency_stats =
  la_min :: nat
  la_max :: nat
  la_mean :: nat
  la_p50 :: nat
  la_p95 :: nat
  la_p99 :: nat
  la_std_dev :: nat

definition F64_P95 :: u64 where "F64_P95 = 0x3FEE666666666666"
definition F64_P99 :: u64 where "F64_P99 = 0x3FEFAE147AE147AE"

definition f64_min :: "u64 \<Rightarrow> u64 \<Rightarrow> u64" where
  "f64_min a b = (if f64_le a b then a else b)"

text \<open>The distance of two doubles that are not negative, and the square root rounded to nearest: enough
  bits of the integer root, with a last bit for an inexact one.\<close>

definition f64_distance :: "u64 \<Rightarrow> u64 \<Rightarrow> u64" where
  "f64_distance a b =
     f64_of_ratio (max (f64_num a) (f64_num b) - min (f64_num a) (f64_num b)) (2 ^ 1074)"

fun isqrt_loop :: "nat \<Rightarrow> nat \<Rightarrow> nat \<Rightarrow> nat" where
  "isqrt_loop n r 0 = r"
| "isqrt_loop n r (Suc k) =
     (let r' = r + 2 ^ k in isqrt_loop n (if r' * r' \<le> n then r' else r) k)"

definition isqrt :: "nat \<Rightarrow> nat" where
  "isqrt n = isqrt_loop n 0 (floorlog 2 n)"

definition f64_sqrt :: "u64 \<Rightarrow> u64" where
  "f64_sqrt b =
     (let N = f64_num b * 2 ^ 1274; r = isqrt N
      in f64_of_ratio (2 * r + (if r * r = N then 0 else 1)) (2 * 2 ^ 1174))"

definition f64_sum :: "u64 list \<Rightarrow> u64" where
  "f64_sum xs = foldl f64_add_pos 0 xs"

definition latency_std_dev :: "nat \<Rightarrow> nat list \<Rightarrow> nat" where
  "latency_std_dev mean durations =
     (let squares = map (\<lambda>d. let diff = f64_distance (f64_of_size d) (f64_of_size mean) in f64_mul diff diff) durations
      in unat (f64_to_u64 (f64_sqrt (f64_div (f64_sum squares) (f64_of_size (length durations))))))"

text \<open>A division by the count as \<open>u32\<close> panics when that is zero.\<close>

definition latency_from_durations :: "nat list \<Rightarrow> latency_stats option" where
  "latency_from_durations durations =
     (if durations = [] then
        Some \<lparr>la_min = 0, la_max = 0, la_mean = 0, la_p50 = 0, la_p95 = 0, la_p99 = 0, la_std_dev = 0\<rparr>
      else
        let ds = sort durations; n = length ds
        in if n mod 2 ^ 32 = 0 then None
           else
             let mean = sum_list ds div (n mod 2 ^ 32)
             in Some
               \<lparr>la_min = ds ! 0, la_max = ds ! (n - 1), la_mean = mean, la_p50 = ds ! (n div 2),
                la_p95 = ds ! unat (f64_to_u64 (f64_mul (f64_of_size n) F64_P95)),
                la_p99 = ds ! unat (f64_to_u64 (f64_min (f64_mul (f64_of_size n) F64_P99) (f64_of_size (n - 1)))),
                la_std_dev = latency_std_dev mean ds\<rparr>)"

section \<open>Payloads\<close>

definition js :: "string \<Rightarrow> json" where "js s = JString (ascii s)"
definition jn :: "u64 \<Rightarrow> json" where "jn n = JNumber (PosInt n)"
definition jo :: "(string \<times> json) list \<Rightarrow> json" where "jo kvs = json_object (map (\<lambda>(k, v). (ascii k, v)) kvs)"

definition tools_call_payload :: "(string \<times> json) list \<Rightarrow> json" where
  "tools_call_payload params =
     jo [(''jsonrpc'', js ''2.0''), (''method'', js ''tools/call''), (''id'', jn 1), (''params'', jo params)]"

text \<open>The size of the padding underflows between the base's size and twenty bytes more: a panic.\<close>

definition generate_payload :: "serde_json \<Rightarrow> nat \<Rightarrow> json option" where
  "generate_payload sj target =
     (let base = tools_call_payload [(''name'', js ''test_tool'')];
          base_size = text_len (print_or_empty sj (SerValue base))
      in if target \<le> base_size then Some base
         else if target - base_size < 20 then None
         else Some (tools_call_payload [(''name'', js ''test_tool''),
                      (''data'', JString (replicate (target - base_size - 20) 120))]))"

definition sample_call :: "string \<Rightarrow> (string \<times> json) list \<Rightarrow> json" where
  "sample_call name args = jo [(''name'', js name), (''arguments'', jo args)]"

definition fibonacci_source :: "text" where
  "fibonacci_source =
     ascii ''def fibonacci(n):'' @ [10] @ ascii ''    if n <= 1:'' @ [10] @ ascii ''        return n'' @ [10] @
     ascii ''    return fibonacci(n-1) + fibonacci(n-2)'' @ [10, 10] @ ascii ''print(fibonacci(10))''"

definition get_realistic_payloads :: "(string \<times> json) list" where
  "get_realistic_payloads =
     [(''simple_tool_call'', sample_call ''read_file'' [(''path'', js ''/home/user/project/src/main.rs'')]),
      (''tool_with_options'',
       sample_call ''search''
         [(''query'', js ''function definition''), (''path'', js ''/home/user/project''),
          (''include'', JArray [js ''*.rs'', js ''*.ts'']), (''exclude'', JArray [js ''target'', js ''node_modules'']),
          (''caseSensitive'', JBool False), (''maxResults'', jn 100)]),
      (''code_execution'',
       sample_call ''execute_code''
         [(''language'', js ''python''), (''code'', JString fibonacci_source), (''timeout'', jn 30000)]),
      (''large_content'',
       sample_call ''write_file''
         [(''path'', js ''/home/user/project/output.txt''),
          (''content'', JString (concat (replicate 100
             (ascii ''Lorem ipsum dolor sit amet, consectetur adipiscing elit. ''))))]),
      (''structured_data'',
       sample_call ''create_resource''
         [(''type'', js ''database''),
          (''config'',
           jo [(''host'', js ''localhost''), (''port'', jn 5432), (''database'', js ''myapp''), (''user'', js ''admin''),
               (''ssl'', JBool True), (''poolSize'', jn 10), (''timeout'', jn 30000), (''retries'', jn 3)])])]"

definition F64_SIX_TENTHS :: u64 where "F64_SIX_TENTHS = 0x3FE3333333333333"

definition simulate_binary_encode :: "serde_json \<Rightarrow> json \<Rightarrow> bytes" where
  "simulate_binary_encode sj v =
     replicate (unat (f64_to_u64 (f64_mul (f64_of_size (text_len (print_or_empty sj (SerValue v)))) F64_SIX_TENTHS))) 0"

section \<open>Runs\<close>

record benchmark_config =
  bc_iterations :: nat
  bc_warmup_iterations :: nat
  bc_message_sizes :: "nat list"
  bc_concurrency_levels :: "nat list"
  bc_include_comparison :: bool

definition benchmark_config_default :: benchmark_config where
  "benchmark_config_default =
     \<lparr>bc_iterations = 10000, bc_warmup_iterations = 1000, bc_message_sizes = [64, 256, 1024, 4096, 16384],
      bc_concurrency_levels = [1, 10, 50, 100], bc_include_comparison = True\<rparr>"

record throughput_result =
  th_messages_per_second :: u64
  th_bytes_per_second :: u64
  th_total_messages :: nat
  th_total_bytes :: nat
  th_duration :: nat

record protocol_comparison =
  pc_payload_name :: "text"
  pc_mcp_size :: nat
  pc_dcp_size :: nat
  pc_size_ratio :: u64
  pc_mcp_encode_latency :: nat
  pc_dcp_encode_latency :: nat
  pc_latency_ratio :: u64

text \<open>The memory usage of a result is never measured: the code always leaves it out.\<close>

record benchmark_result =
  br_name :: "text"
  br_latency :: latency_stats
  br_throughput :: throughput_result
  br_metadata :: "(text, text) hmap"

record benchmark_results =
  bs_config :: benchmark_config
  bs_results :: "benchmark_result list"
  bs_comparisons :: "protocol_comparison list"
  bs_timestamp :: "text"
  bs_total_duration :: nat

definition duration_seconds :: "nat \<Rightarrow> u64" where
  "duration_seconds d = as_secs_f64 (duration_of_nanos d)"

definition throughput_of :: "nat \<Rightarrow> nat \<Rightarrow> nat \<Rightarrow> throughput_result" where
  "throughput_of iterations total_bytes duration =
     \<lparr>th_messages_per_second = f64_div (f64_of_size iterations) (duration_seconds duration),
      th_bytes_per_second = f64_div (f64_of_size total_bytes) (duration_seconds duration),
      th_total_messages = iterations, th_total_bytes = total_bytes, th_duration = duration\<rparr>"

text \<open>A throughput run, over the time its loop took; the division by the iterations as \<open>u32\<close> panics at
  zero.\<close>

definition benchmark_throughput ::
  "serde_json \<Rightarrow> benchmark_config \<Rightarrow> nat \<Rightarrow> nat \<Rightarrow> benchmark_result option" where
  "benchmark_throughput sj cfg duration message_size =
     Option.bind (generate_payload sj message_size) (\<lambda>payload.
       let iterations = bc_iterations cfg;
           total_bytes = iterations * text_len (print_or_empty sj (SerValue payload))
       in if iterations mod 2 ^ 32 = 0 then None
          else map_option
            (\<lambda>latency.
               \<lparr>br_name = ascii ''throughput_'' @ decimal message_size @ ascii ''b'', br_latency = latency,
                br_throughput = throughput_of iterations total_bytes duration, br_metadata = []\<rparr>)
            (latency_from_durations [duration div (iterations mod 2 ^ 32)]))"

text \<open>A latency run, over the time of each iteration.\<close>

definition benchmark_latency ::
  "serde_json \<Rightarrow> benchmark_config \<Rightarrow> nat list \<Rightarrow> nat \<Rightarrow> benchmark_result option" where
  "benchmark_latency sj cfg latencies message_size =
     Option.bind (generate_payload sj message_size) (\<lambda>payload.
       let iterations = bc_iterations cfg;
           total_bytes = iterations * text_len (print_or_empty sj (SerValue payload))
       in map_option
            (\<lambda>latency.
               \<lparr>br_name = ascii ''latency_'' @ decimal message_size @ ascii ''b'', br_latency = latency,
                br_throughput = throughput_of iterations total_bytes (sum_list latencies), br_metadata = []\<rparr>)
            (latency_from_durations latencies))"

definition F64_UNIT :: u64 where "F64_UNIT = 0x3FF0000000000000"

text \<open>The total times of the thousand encodings of each protocol are arguments.\<close>

definition compare_protocols :: "serde_json \<Rightarrow> nat \<Rightarrow> nat \<Rightarrow> string \<Rightarrow> json \<Rightarrow> protocol_comparison" where
  "compare_protocols sj mcp_total dcp_total name params =
     (let c = compare_sizes_auto sj (ascii ''tools/call'') params;
          mcp_latency = mcp_total div 1000; dcp_latency = dcp_total div 1000
      in \<lparr>pc_payload_name = ascii name, pc_mcp_size = sc_json_rpc_size c, pc_dcp_size = sc_dcp_size c,
          pc_size_ratio = sc_ratio c, pc_mcp_encode_latency = mcp_latency, pc_dcp_encode_latency = dcp_latency,
          pc_latency_ratio =
            (if dcp_latency > 0 then f64_div (f64_of_size mcp_latency) (f64_of_size dcp_latency) else F64_UNIT)\<rparr>)"

fun all_or_none :: "'a option list \<Rightarrow> 'a list option" where
  "all_or_none [] = Some []"
| "all_or_none (x # xs) = Option.bind x (\<lambda>y. map_option (Cons y) (all_or_none xs))"

text \<open>What the clock gave: for each message size the time of the throughput loop and of each iteration of the
  latency run, for each payload the two totals, the whole time, and the seconds since the epoch.\<close>

record measured =
  me_throughput :: "nat \<Rightarrow> nat"
  me_latency :: "nat \<Rightarrow> nat list"
  me_encode :: "string \<Rightarrow> nat \<times> nat"
  me_total :: nat
  me_epoch :: nat

definition chrono_lite_timestamp :: "nat \<Rightarrow> text" where
  "chrono_lite_timestamp secs = decimal secs @ ascii ''s since epoch''"

record benchmark_suite =
  su_config :: benchmark_config
  su_results :: "benchmark_result list"
  su_comparisons :: "protocol_comparison list"

definition suite_new :: "benchmark_config \<Rightarrow> benchmark_suite" where
  "suite_new cfg = \<lparr>su_config = cfg, su_results = [], su_comparisons = []\<rparr>"

definition suite_defaults :: benchmark_suite where
  "suite_defaults = suite_new benchmark_config_default"

definition run_throughput_benchmarks :: "serde_json \<Rightarrow> measured \<Rightarrow> benchmark_suite \<Rightarrow> benchmark_suite option" where
  "run_throughput_benchmarks sj t s =
     map_option (\<lambda>rs. s\<lparr>su_results := su_results s @ rs\<rparr>)
       (all_or_none (map (\<lambda>size. benchmark_throughput sj (su_config s) (me_throughput t size) size)
          (bc_message_sizes (su_config s))))"

definition run_latency_benchmarks :: "serde_json \<Rightarrow> measured \<Rightarrow> benchmark_suite \<Rightarrow> benchmark_suite option" where
  "run_latency_benchmarks sj t s =
     map_option (\<lambda>rs. s\<lparr>su_results := su_results s @ rs\<rparr>)
       (all_or_none (map (\<lambda>size. benchmark_latency sj (su_config s) (me_latency t size) size)
          (bc_message_sizes (su_config s))))"

definition run_protocol_comparison :: "serde_json \<Rightarrow> measured \<Rightarrow> benchmark_suite \<Rightarrow> benchmark_suite" where
  "run_protocol_comparison sj t s =
     s\<lparr>su_comparisons := su_comparisons s @
       map (\<lambda>(name, params). case me_encode t name of (m, d) \<Rightarrow> compare_protocols sj m d name params)
         get_realistic_payloads\<rparr>"

definition suite_run ::
  "serde_json \<Rightarrow> measured \<Rightarrow> benchmark_suite \<Rightarrow> (benchmark_suite \<times> benchmark_results) option" where
  "suite_run sj t s =
     Option.bind (run_throughput_benchmarks sj t s) (\<lambda>s1.
     map_option
       (\<lambda>s2. let s3 = (if bc_include_comparison (su_config s2) then run_protocol_comparison sj t s2 else s2)
         in (s3, \<lparr>bs_config = su_config s3, bs_results = su_results s3, bs_comparisons = su_comparisons s3,
                  bs_timestamp = chrono_lite_timestamp (me_epoch t), bs_total_duration = me_total t\<rparr>))
       (run_latency_benchmarks sj t s1))"

section \<open>The report\<close>

text \<open>A double with a fixed number of digits behind the point, rounded half to even, and the debug forms of
  a duration and of a list of sizes.\<close>

definition f64_fixed :: "nat \<Rightarrow> u64 \<Rightarrow> text" where
  "f64_fixed digits b =
     (if f64_is_nan b then ascii ''NaN''
      else
        (if f64_negative b then ascii ''-'' else []) @
        (if \<not> f64_is_finite b then ascii ''inf''
         else
           let x = div_round (f64_num b * 10 ^ digits) (2 ^ 1074)
           in if digits = 0 then decimal x
              else decimal (x div 10 ^ digits) @ [46] @ zero_pad digits (decimal (x mod 10 ^ digits))))"

definition debug_decimal :: "nat \<Rightarrow> nat \<Rightarrow> nat \<Rightarrow> text \<Rightarrow> text" where
  "debug_decimal whole fraction width unit =
     decimal whole @
     (if fraction = 0 then [] else [46] @ trim_end_char 48 (zero_pad width (decimal fraction))) @ unit"

definition debug_duration :: "nat \<Rightarrow> text" where
  "debug_duration d =
     (if d \<ge> 1000000000 then debug_decimal (d div 1000000000) (d mod 1000000000) 9 (ascii ''s'')
      else if d \<ge> 1000000 then debug_decimal (d div 1000000) (d mod 1000000) 6 (ascii ''ms'')
      else if d \<ge> 1000 then debug_decimal (d div 1000) (d mod 1000) 3 [0xB5, 115]
      else debug_decimal d 0 0 (ascii ''ns''))"

definition debug_sizes :: "nat list \<Rightarrow> text" where
  "debug_sizes ns = [91] @ join_text (ascii '', '') (map decimal ns) @ [93]"

definition md_row :: "text list \<Rightarrow> text" where
  "md_row cells = ascii ''| '' @ join_text (ascii '' | '') cells @ ascii '' |'' @ [10]"

definition F64_MB :: u64 where "F64_MB = 0x412E848000000000"

definition md_line :: "string \<Rightarrow> text" where "md_line s = ascii s @ [10]"

definition to_markdown :: "benchmark_results \<Rightarrow> text" where
  "to_markdown r =
     md_line ''# DCP Benchmark Results'' @ [10] @
     ascii ''Generated: '' @ bs_timestamp r @ [10, 10] @
     ascii ''Total Duration: '' @ f64_fixed 2 (duration_seconds (bs_total_duration r)) @ ascii ''s'' @ [10, 10] @
     md_line ''## Configuration'' @ [10] @
     ascii ''- Iterations: '' @ decimal (bc_iterations (bs_config r)) @ [10] @
     ascii ''- Warmup Iterations: '' @ decimal (bc_warmup_iterations (bs_config r)) @ [10] @
     ascii ''- Message Sizes: '' @ debug_sizes (bc_message_sizes (bs_config r)) @ [10] @
     ascii ''- Concurrency Levels: '' @ debug_sizes (bc_concurrency_levels (bs_config r)) @ [10, 10] @
     md_line ''## Latency Results'' @ [10] @
     md_line ''| Benchmark | Min | Mean | P50 | P95 | P99 | Max |'' @
     md_line ''|-----------|-----|------|-----|-----|-----|-----|'' @
     concat (map (\<lambda>b. let l = br_latency b
       in md_row [br_name b, debug_duration (la_min l), debug_duration (la_mean l), debug_duration (la_p50 l),
            debug_duration (la_p95 l), debug_duration (la_p99 l), debug_duration (la_max l)]) (bs_results r)) @ [10] @
     md_line ''## Throughput Results'' @ [10] @
     md_line ''| Benchmark | Messages/sec | MB/sec | Total Messages |'' @
     md_line ''|-----------|--------------|--------|----------------|'' @
     concat (map (\<lambda>b. let t = br_throughput b
       in md_row [br_name b, f64_fixed 0 (th_messages_per_second t),
            f64_fixed 2 (f64_div (th_bytes_per_second t) F64_MB), decimal (th_total_messages t)]) (bs_results r)) @ [10] @
     (if bs_comparisons r = [] then []
      else
        md_line ''## DCP vs MCP Comparison'' @ [10] @
        md_line ''| Payload | MCP Size | DCP Size | Size Ratio | MCP Latency | DCP Latency | Latency Ratio |'' @
        md_line ''|---------|----------|----------|------------|-------------|-------------|---------------|'' @
        concat (map (\<lambda>c.
          md_row [pc_payload_name c, decimal (pc_mcp_size c) @ ascii '' B'', decimal (pc_dcp_size c) @ ascii '' B'',
            f64_fixed 2 (pc_size_ratio c) @ ascii ''x'', debug_duration (pc_mcp_encode_latency c),
            debug_duration (pc_dcp_encode_latency c), f64_fixed 2 (pc_latency_ratio c) @ ascii ''x'']) (bs_comparisons r)) @
        [10])"

section \<open>What the numbers mean\<close>

text \<open>The size attributed to a DCP message is four bytes short of an envelope, an invocation record and
  the arguments.\<close>

lemma dcp_size_understated:
  "measure_dcp_size n + 4 = 8 + length (invocation_as_bytes v) + n"
  by (simp add: measure_dcp_size_def DCP_HEADER_SIZE_def DCP_INVOCATION_SIZE_def)

text \<open>Generating a payload panics for the twenty sizes just above that of the base.\<close>

lemma payload_panics_iff:
  "generate_payload sj target = None \<longleftrightarrow>
     (let base_size = text_len (print_or_empty sj (SerValue (tools_call_payload [(''name'', js ''test_tool'')])))
      in base_size < target \<and> target < base_size + 20)"
  by (auto simp: generate_payload_def Let_def)

lemma isqrt_loop_correct:
  "r * r \<le> n \<Longrightarrow> n < (r + 2 ^ k) * (r + 2 ^ k) \<Longrightarrow>
   isqrt_loop n r k * isqrt_loop n r k \<le> n \<and> n < (isqrt_loop n r k + 1) * (isqrt_loop n r k + 1)"
proof (induction k arbitrary: r)
  case (Suc k)
  have e: "r + 2 ^ k + 2 ^ k = r + 2 ^ Suc k" by simp
  show ?case
  proof (cases "(r + 2 ^ k) * (r + 2 ^ k) \<le> n")
    case True
    then show ?thesis using Suc.IH [OF True] Suc.prems(2) unfolding e isqrt_loop.simps Let_def if_P [OF True] by blast
  next
    case False
    have "n < (r + 2 ^ k) * (r + 2 ^ k)" using False by linarith
    from Suc.IH [OF Suc.prems(1) this] show ?thesis unfolding isqrt_loop.simps Let_def if_not_P [OF False] .
  qed
qed simp

text \<open>The integer square root.\<close>

lemma isqrt_correct: "isqrt n * isqrt n \<le> n \<and> n < (isqrt n + 1) * (isqrt n + 1)"
proof -
  have "n < 2 ^ floorlog 2 n" using floorlog_bounds [of n 2] by (cases "n = 0") simp_all
  also have "(2 :: nat) ^ floorlog 2 n \<le> 2 ^ floorlog 2 n * 2 ^ floorlog 2 n" by simp
  finally show ?thesis unfolding isqrt_def by (intro isqrt_loop_correct) simp_all
qed

lemma sorted_rank:
  assumes "sorted ds" and "k < length ds"
  shows "length (filter (\<lambda>d. d < ds ! k) ds) \<le> k" and "length (filter (\<lambda>d. d > ds ! k) ds) \<le> length ds - Suc k"
proof -
  have "i < k" if "i < length ds" "ds ! i < ds ! k" for i
    using that assms by (metis leD leI sorted_nth_mono)
  then have "{i. i < length ds \<and> ds ! i < ds ! k} \<subseteq> {..< k}" by auto
  from card_mono [OF _ this] show "length (filter (\<lambda>d. d < ds ! k) ds) \<le> k"
    by (simp add: length_filter_conv_card)
  have "k < i" if "i < length ds" "ds ! i > ds ! k" for i
    using that assms by (metis leD leI sorted_nth_mono)
  then have "{i. i < length ds \<and> ds ! i > ds ! k} \<subseteq> {Suc k ..< length ds}" by (auto simp: Suc_le_eq)
  from card_mono [OF _ this] show "length (filter (\<lambda>d. d > ds ! k) ds) \<le> length ds - Suc k"
    by (simp add: length_filter_conv_card)
qed

lemma sum_list_sort: "sum_list (sort xs) = sum_list (xs :: nat list)"
proof -
  have "sum_list (insort x ys) = x + sum_list ys" for x :: nat and ys by (induction ys) simp_all
  then show ?thesis by (induction xs) (simp_all add: sort_key_def)
qed

lemma length_filter_sort: "length (filter P (sort xs)) = length (filter P xs)"
  by (metis filter_sort length_sort)

lemma mean_between:
  assumes "ds \<noteq> []" and "\<forall>d \<in> set ds. lo \<le> d \<and> d \<le> hi"
  shows "lo \<le> sum_list ds div length ds \<and> sum_list ds div length ds \<le> (hi :: nat)"
proof -
  have "length ds * lo \<le> sum_list ds \<and> sum_list ds \<le> length ds * hi"
    using assms(2) by (induction ds) auto
  moreover have "0 < length ds" using assms(1) by simp
  ultimately show ?thesis
    using div_le_mono [of "length ds * lo" "sum_list ds" "length ds"]
      div_le_mono [of "sum_list ds" "length ds * hi" "length ds"] by simp
qed

text \<open>The statistics do not depend on the order of the measurements: the least and the greatest of them,
  a mean between those, and a median, which at most half of them are below and fewer than half above.\<close>

theorem latency_statistics_exact:
  assumes "latency_from_durations ds = Some s" and "ds \<noteq> []" and "length ds < 2 ^ 32"
  shows "la_min s = Min (set ds) \<and> la_max s = Max (set ds) \<and>
    la_min s \<le> la_mean s \<and> la_mean s \<le> la_max s \<and> la_mean s = sum_list ds div length ds \<and>
    length (filter (\<lambda>d. d < la_p50 s) ds) \<le> length ds div 2 \<and>
    length (filter (\<lambda>d. d > la_p50 s) ds) < length ds - length ds div 2 \<and>
    la_p50 s \<in> set ds"
proof -
  let ?ds = "sort ds" and ?n = "length ds"
  have n: "0 < ?n" "?n mod 2 ^ 32 = ?n" using assms(2,3) by simp_all
  have s: "la_min s = ?ds ! 0" "la_max s = ?ds ! (?n - 1)" "la_mean s = sum_list ds div ?n" "la_p50 s = ?ds ! (?n div 2)"
    using assms(1,2) n by (auto simp: latency_from_durations_def Let_def sum_list_sort split: if_splits)
  have mono: "?ds ! i \<le> ?ds ! j" if "i \<le> j" "j < ?n" for i j
    using that by (intro sorted_nth_mono) simp_all
  have lo: "\<forall>d \<in> set ds. ?ds ! 0 \<le> d \<and> d \<le> ?ds ! (?n - 1)"
  proof
    fix d assume "d \<in> set ds"
    then have "d \<in> set ?ds" by simp
    then obtain i where "i < ?n" "d = ?ds ! i" unfolding in_set_conv_nth by auto
    then show "?ds ! 0 \<le> d \<and> d \<le> ?ds ! (?n - 1)" using mono [of 0 i] mono [of i "?n - 1"] n by simp
  qed
  have mem: "?ds ! i \<in> set ds" if "i < ?n" for i using that nth_mem [of i ?ds] by simp
  have "Min (set ds) = ?ds ! 0" using lo mem [of 0] n by (intro Min_eqI) auto
  moreover have "Max (set ds) = ?ds ! (?n - 1)" using lo mem [of "?n - 1"] n by (intro Max_eqI) auto
  moreover note mean_between [OF assms(2) lo]
  moreover have "length (filter (\<lambda>d. d < ?ds ! (?n div 2)) ds) \<le> ?n div 2"
    using sorted_rank(1) [of ?ds "?n div 2"] n by (simp add: length_filter_sort)
  moreover have "length (filter (\<lambda>d. d > ?ds ! (?n div 2)) ds) < ?n - ?n div 2"
  proof -
    have "sorted ?ds" "?n div 2 < length ?ds" using n(1) by simp_all
    from sorted_rank(2) [OF this] show ?thesis using n(1) unfolding length_filter_sort length_sort by linarith
  qed
  moreover have "?ds ! (?n div 2) \<in> set ds" using mem [of "?n div 2"] n by simp
  ultimately show ?thesis unfolding s by simp
qed

lemma latency_defined:
  "length ds < 2 ^ 32 \<Longrightarrow> latency_from_durations ds \<noteq> None"
  by (cases ds) (auto simp: latency_from_durations_def Let_def)

lemma latency_one: "\<exists>l. latency_from_durations [d] = Some l"
  using latency_defined [of "[d]"] by (simp del: One_nat_def)

lemma all_or_none_some: "\<forall>x \<in> set xs. f x \<noteq> None \<Longrightarrow> \<exists>ys. all_or_none (map f xs) = Some ys \<and> length ys = length xs"
  by (induction xs) auto

lemma all_or_none_length: "all_or_none xs = Some ys \<Longrightarrow> length ys = length xs"
  by (induction xs arbitrary: ys) (auto split: Option.bind_splits)

text \<open>Every run of a suite adds two results for each message size to those it has: a second run reports the
  first one's results again, before its own.\<close>

theorem suite_accumulates:
  assumes "suite_run sj t s = Some (s', r)"
  shows "take (length (su_results s)) (bs_results r) = su_results s \<and>
    length (bs_results r) = length (su_results s) + 2 * length (bc_message_sizes (su_config s)) \<and>
    su_results s' = bs_results r \<and> su_config s' = su_config s"
proof -
  obtain s1 s2 where s1: "run_throughput_benchmarks sj t s = Some s1" and s2: "run_latency_benchmarks sj t s1 = Some s2"
    and e: "bs_results r = su_results s2" "su_results s' = su_results s2" "su_config s' = su_config s2"
    using assms by (auto simp: suite_run_def run_protocol_comparison_def Let_def split: Option.bind_splits if_splits)
  obtain xs where xs: "length xs = length (bc_message_sizes (su_config s))" "su_results s1 = su_results s @ xs"
      "su_config s1 = su_config s"
    using s1 by (auto simp: run_throughput_benchmarks_def dest: all_or_none_length)
  obtain ys where ys: "length ys = length (bc_message_sizes (su_config s))" "su_results s2 = su_results s1 @ ys"
      "su_config s2 = su_config s1"
    using s2 xs(3) by (auto simp: run_latency_benchmarks_def dest: all_or_none_length)
  show ?thesis unfolding e ys(2,3) xs(2,3) using xs(1) ys(1) by simp
qed

text \<open>A suite whose iterations are at least one and fewer than 2^32 and whose sizes avoid the panics of the
  payloads finishes its run.\<close>

theorem suite_reports:
  assumes "0 < bc_iterations cfg" and "bc_iterations cfg < 2 ^ 32"
    and "\<forall>size \<in> set (bc_message_sizes cfg). generate_payload sj size \<noteq> None \<and> length (me_latency t size) < 2 ^ 32"
  shows "\<exists>s' r. suite_run sj t (suite_new cfg) = Some (s', r)"
proof -
  have it: "bc_iterations cfg mod 2 ^ 32 \<noteq> 0" using assms(1,2) by simp
  have "benchmark_throughput sj cfg d size \<noteq> None" if size: "size \<in> set (bc_message_sizes cfg)" for d size
  proof -
    obtain payload where "generate_payload sj size = Some payload" using assms(3) size by blast
    moreover obtain l where "latency_from_durations [d div (bc_iterations cfg mod 2 ^ 32)] = Some l"
      using latency_one by blast
    ultimately show ?thesis using it unfolding benchmark_throughput_def Let_def
      by (simp only: Option.bind.bind_lunit if_False option.map option.distinct not_False_eq_True)
  qed
  then have "\<forall>size \<in> set (bc_message_sizes cfg). benchmark_throughput sj cfg (me_throughput t size) size \<noteq> None" by blast
  from all_or_none_some [OF this] obtain xs where
    xs: "all_or_none (map (\<lambda>size. benchmark_throughput sj cfg (me_throughput t size) size) (bc_message_sizes cfg)) = Some xs"
    "length xs = length (bc_message_sizes cfg)" by (elim exE conjE) (rule that)
  have "benchmark_latency sj cfg (me_latency t size) size \<noteq> None" if size: "size \<in> set (bc_message_sizes cfg)" for size
  proof -
    obtain payload where "generate_payload sj size = Some payload" using assms(3) size by blast
    moreover obtain l where "latency_from_durations (me_latency t size) = Some l"
      using latency_defined assms(3) size by blast
    ultimately show ?thesis unfolding benchmark_latency_def Let_def
      by (simp only: Option.bind.bind_lunit option.map option.distinct not_False_eq_True)
  qed
  then have "\<forall>size \<in> set (bc_message_sizes cfg). benchmark_latency sj cfg (me_latency t size) size \<noteq> None" by blast
  from all_or_none_some [OF this] obtain ys where
    ys: "all_or_none (map (\<lambda>size. benchmark_latency sj cfg (me_latency t size) size) (bc_message_sizes cfg)) = Some ys"
    "length ys = length (bc_message_sizes cfg)" by (elim exE conjE) (rule that)
  show ?thesis
    unfolding suite_run_def run_throughput_benchmarks_def run_latency_benchmarks_def suite_new_def
    by (simp add: xs(1) ys(1) Let_def)
qed

end
