(* ===== verification/Spec2Isabelle.thy ===== *)
theory Spec2Isabelle
  imports Envelope Invocation Signed_Records Stream_Chunk Message_Parser Ring_Buffer Dcp_Stream
    Nonce_Store Signing Capability Delta Mux_Connection Schema Redaction Audit_Log Router Server
    Ring_Concurrent Framing Shutdown Tool_Context Mcp_Trackers Mcp_Safety Stdio Pipeline
    Legacy_Adapter Sse Mcp_Extended Schema_Convert Logging Tracing Metrics
    Dx_Config Stdio_Server Tcp_Server Reactor Signals Bench
begin

text \<open>
  A verification library for the DCP protocol server (Rust sources under \<open>src/src/\<close>).

  The program. A client and a server exchange fixed-layout binary records (\<open>binary/\<close>) over
  multiplexed streams (\<open>multiplex/\<close>) and chunked streams (\<open>stream/\<close>); the server checks a tool call
  against the negotiated capability manifest (\<open>capability/\<close>), the tool's schema (\<open>protocol/schema.rs\<close>),
  and, for signed calls, an Ed25519 signature and a replay guard (\<open>security/\<close>), and only then runs the
  handler (\<open>dispatch/\<close>). Sessions, metrics and audit receipts live in the server (\<open>server/mod.rs\<close>);
  \<open>sync/delta.rs\<close> carries state as compressed XOR deltas, \<open>context/mod.rs\<close> shares tool state in a byte
  layout, \<open>transport/framing.rs\<close> cuts a byte stream into messages, \<open>transport/tcp.rs\<close> accepts connections
  over a platform's reactor (\<open>reactor/\<close>) and \<open>shutdown/\<close> drains the server.
  For clients that speak MCP over JSON-RPC the compatibility layer (\<open>compat/\<close>) parses requests, keeps
  the handshake, roots, subscriptions, cancellations and prompts, and turns a tool call into a guarded
  call of the same router; its transports are lines on standard I/O and server-sent events. The command
  line tool (\<open>bin/dcp.rs\<close>) serves MCP over standard I/O and converts schemas; \<open>observability/\<close> logs,
  traces and counts, \<open>bench/\<close> measures.

  Conventions, in \<^theory_text>\<open>Dcp_Prelude\<close>. Machine integers are words and wrap as in a release build; \<open>usize\<close>
  is \<open>nat\<close> with a 64-bit \<open>checked_add\<close>; bytes are lists of 8-bit words and pointer casts read them as on a
  little-endian target. A fallible function returns \<open>error + value\<close>, every early return of the source
  being a branch. A method that holds its lock to the end is one step of a state machine; a clock
  reading is an argument, what the operating system answers is one too or a record of functions. Text is
  the list of its Unicode scalar values, hash maps are association lists with distinct keys.
  Cryptography, the CRC and the hash functions are parameters, used through their documented laws
  (\<^theory_text>\<open>Signing.crypto_laws\<close>), which a concrete toy instance satisfies. JSON values are a datatype with sorted objects; reading and printing JSON text is a record of library functions.
  Doubles are 64-bit patterns whose rounding and printing are written out (\<^theory_text>\<open>Doubles\<close>).

  Interfaces (locales), each interpreted on the model's own definitions: byte codecs in three strengths
  (\<open>byte_codec\<close>, \<open>prefix_codec\<close>, \<open>exact_codec\<close>) for every wire record; machines that keep an invariant
  (\<open>invariant_machine\<close>), simulate (\<open>simulation_machine\<close>) or refine (\<open>refinement_machine\<close>) a
  specification; the bounded byte buffer a framing layer needs (\<open>byte_fifo\<close>, provided by the ring
  buffer and used by the chunked stream); a replay guard (\<open>replay_guard\<close>, provided by the nonce store
  and used by the router), and a session that runs a call only under a key it has not seen
  (\<open>replay_guarded\<close>, both adapters); a class of capabilities (\<open>capability_class\<close>, four instances); a reader of records
  at an offset (\<open>record_reader\<close>, for the binary schema) and a sanitizer of fields (\<open>field_sanitizer\<close>, for logs and spans); what a reactor owes
  its client (\<open>reactor_contract\<close>, four instances) and when its polls report only what is registered
  (\<open>polling_reactor\<close>, two).

  Theories:
  \<^item> \<open>Dcp_Prelude\<close>, \<open>Hash_Map\<close>, \<open>Text\<close>: shared types, codecs, maps, UTF-8 and ASCII operations;
  \<^item> \<open>Wire_Errors\<close> (\<open>error.rs\<close>), \<open>Envelope\<close> (\<open>binary/envelope.rs\<close>, \<open>binary/hbtp.rs\<close>), \<open>Invocation\<close>
    (\<open>binary/invocation.rs\<close>), \<open>Signed_Records\<close> (\<open>binary/signed.rs\<close>), \<open>Stream_Chunk\<close>
    (\<open>binary/stream.rs\<close>), \<open>Message_Parser\<close> (\<open>protocol/parser.rs\<close>): the wire records; decoding is exact;
  \<^item> \<open>Ring_Buffer\<close> (\<open>stream/ring_buffer.rs\<close>) refines a bounded queue with a backpressure counter, and
    \<open>Dcp_Stream\<close> (\<open>stream/dcp_stream.rs\<close>) refines a queue of frames on top of it;
  \<^item> \<open>Mux_Header\<close>, \<open>Mux_Connection\<close> (\<open>multiplex/\<close>): frames delivered in order, bounded tables and
    buffers, stream states that only move forward;
  \<^item> \<open>Signing\<close>, \<open>Nonce_Store\<close>, \<open>Redaction\<close>, \<open>Audit_Log\<close> (\<open>security/\<close>): what a signature covers, a nonce
    accepted at most once, secrets redacted however they are encoded, bounded receipts;
  \<^item> \<open>Capability\<close> (\<open>capability/manifest.rs\<close>): bitsets, negotiation, listings, wire form;
  \<^item> \<open>Delta\<close> (\<open>sync/delta.rs\<close>): run-length code and deltas reproduce the state;
  \<^item> \<open>Schema\<close>, \<open>Router\<close> (\<open>protocol/schema.rs\<close>, \<open>dispatch/\<close>): argument validation equals its
    specification, and a handler runs exactly when every guard passes;
  \<^item> \<open>Server\<close> (\<open>server/mod.rs\<close>): the session registry, isolation, upgrade, expiry and accounting;
  \<^item> \<open>Ring_Concurrent\<close>: the ring buffer's push and pop as interleaved memory steps of one producer and
    one consumer, FIFO in every interleaving; \<open>Framing\<close>: messages survive any segmentation;
    \<open>Shutdown\<close>: request tracking as atomic steps, the drain; \<open>Tool_Context\<close>: the slot table;
  \<^item> \<open>Json\<close>, \<open>Json_Rpc\<close> (\<open>compat/json_rpc.rs\<close>), \<open>Request_Replay\<close>: which texts parse, round trips of
    requests and responses, the replay window;
  \<^item> \<open>Mcp_Versions\<close>, \<open>Roots\<close>, \<open>Elicitation\<close>, \<open>Mcp_Trackers\<close>, \<open>Cancellation\<close> (\<open>compat/mcp2025.rs\<close>) and
    \<open>Resource_Registry\<close> (\<open>resource/mod.rs\<close>): the parts of the MCP session;
  \<^item> \<open>Tool_Arguments\<close>, \<open>Prompts\<close>, \<open>Mcp_Adapter\<close>, \<open>Mcp_Handlers\<close>, \<open>Mcp_Dispatch\<close>
    (\<open>compat/complete_adapter.rs\<close>): encoding of arguments, the adapter's state and guards, one definition
    per handler, the dispatch; \<open>Mcp_Safety\<close>: every request answered once, tools run only for admitted
    and granted calls, the handshake as a three-state machine; \<open>Mcp_Extended\<close> (\<open>compat/mcp2025.rs\<close>):
    content, notifications and the adapter that groups the session's parts; \<open>Legacy_Adapter\<close>
    (\<open>compat/adapter.rs\<close>): the older adapter, its receipts and its guarded calls;
  \<^item> \<open>Stdio\<close> (\<open>compat/stdio.rs\<close>): bounded lines, the framer, both together; \<open>Sse_Events\<close>, \<open>Sse\<close>
    (\<open>compat/sse.rs\<close>): no event can forge another, a resuming client gets exactly what it missed;
    \<open>Pipeline\<close> (\<open>multiplex/pipeline.rs\<close>): every accepted request is pending or answered;
  \<^item> \<open>Stdio_Server\<close> (\<open>bin/dcp.rs\<close>), \<open>Dx_Config\<close> (\<open>dx_config.rs\<close>), \<open>Schema_Convert\<close> (\<open>cli/convert.rs\<close>):
    the server on standard I/O answers by its history alone, from the input's bytes to the output's;
    the schema files and their conversion; the configuration directory and its status files;
  \<^item> \<open>Tcp_Server\<close> (\<open>transport/tcp.rs\<close>), \<open>Reactor\<close> (\<open>reactor/\<close>), \<open>Signals\<close> (\<open>shutdown/signals.rs\<close>): the
    connection limit, the drain, the contract of the four reactors, what a signal does;
  \<^item> \<open>Doubles\<close>, \<open>Formats\<close>, \<open>Logging\<close>, \<open>Tracing\<close>, \<open>Metrics\<close> (\<open>observability/\<close>): log lines and metrics
    that read back, identifiers, clean spans; \<open>Bench\<close> (\<open>bench/\<close>): sizes, statistics and reports.

  Bounds and termination: most recursions are structural; the loops that are not (readers of lines, the
  calendar, templates, the run-length code) have a measure in the theory. A polling loop is a function of
  its rounds, which returns once one of them is behind the deadline. The decoding passes of the redaction
  follow the source's limit of four. The printing of a double counts down from the 308 decimals before
  and the 1074 behind the point, which every double fits.

  Not modelled: the operating system and the crates (sockets, TLS, system calls, files, JSON text, the
  command line's parser), which are parameters; how tasks are scheduled below the granularity of a step,
  except where a theory splits a method into its atomic steps (\<open>Ring_Concurrent\<close>, \<open>Shutdown\<close>, \<open>Pipeline\<close>,
  \<open>Sse\<close>, \<open>Elicitation\<close>, \<open>Tcp_Server\<close>); locks poisoned by a panic; accessors that return a field, and the
  module files that only export names; the asynchronous variant of the standard I/O transport, which is
  compiled only under a feature the build file does not declare; the benchmarks' JSON report, which is the
  library's printer; the client libraries in Python and TypeScript.
\<close>

text \<open>C35: Wire records.  The decoders of the fixed-size records accept exactly the canonical bytes:
  a signed invocation, a signed tool definition and an invocation decode from one byte string each,
  and a checksummed header decodes exactly when its magic and checksum hold, from any string that
  starts with its bytes.\<close>

theorem wire_records_exact:
  "(signed_invocation_from_bytes bs = Inr v \<longleftrightarrow>
      wf_signed_invocation v \<and> bs = signed_invocation_as_bytes v) \<and>
   (tool_def_from_bytes bs = Inr d \<longleftrightarrow> wf_tool_def d \<and> bs = tool_def_as_bytes d) \<and>
   (invocation_from_bytes bs = Inr i \<longleftrightarrow> bs = invocation_as_bytes i) \<and>
   (hbtp_from_bytes_verified crc bs = Inr h \<longleftrightarrow>
      hb_magic h = HBTP_MAGIC \<and> verify_checksum crc h \<and> (\<exists>rest. bs = hbtp_as_bytes h @ rest)) \<and>
   (chunk_from_bytes bs = Inr c \<longleftrightarrow>
      valid_chunk_flags (ck_flags c) \<and> (\<exists>rest. bs = chunk_as_bytes c @ rest))"
  using signed_invocation_codec.dec_iff [of bs v] tool_def_codec.dec_iff [of bs d]
    invocation_codec.dec_iff [of bs i] hbtp_verified_codec.dec_iff [of crc bs h]
    chunk_codec.dec_iff [of bs c]
  by simp

end
